(* ===== verification/Prelude.thy ===== *)
theory Prelude
  imports Main "HOL-Library.Monad_Syntax"
begin

unbundle bit_operations_syntax

section \<open>Shared vocabulary of the kernel model\<close>

text \<open>
  Types and small operations that every component of the model uses:
  return codes (\<open>kernel/include/uapi/errno.h\<close>), the small enumerations of
  \<open>kernel/include/uapi\<close>, 64-bit signed time with its wrap-around, fixed-width
  unsigned values, byte memory with \<open>memcpy\<close>, and \<open>assert\<close>.

  A kernel operation that contains an \<open>assert\<close> is a function into an \<open>option\<close>:
  \<open>None\<close> says that an assertion of the kernel fires (\<open>pok_assertion_fail\<close>, which
  stops the system) or that memory outside an array is read; error codes that are
  returned to the caller are ordinary values of type \<open>pok_ret\<close>.
\<close>

named_theorems chan_simps \<open>unfoldings of the channel operations\<close>
named_theorems thr_simps \<open>unfoldings of the thread operations\<close>
named_theorems sched_inv \<open>preservation of the local scheduler's invariant\<close>

subsection \<open>Return codes and enumerations\<close>

datatype pok_ret =
    POK_ERRNO_OK | POK_ERRNO_EINVAL | POK_ERRNO_UNAVAILABLE | POK_ERRNO_PARAM
  | POK_ERRNO_TOOMANY | POK_ERRNO_EPERM | POK_ERRNO_EXISTS | POK_ERRNO_ERANGE
  | POK_ERRNO_EDOM | POK_ERRNO_HUGE_VAL | POK_ERRNO_EFAULT | POK_ERRNO_THREAD
  | POK_ERRNO_THREADATTR | POK_ERRNO_TIME | POK_ERRNO_PARTITION_ATTR | POK_ERRNO_PORT
  | POK_ERRNO_NOTFOUND | POK_ERRNO_DIRECTION | POK_ERRNO_SIZE | POK_ERRNO_DISCIPLINE
  | POK_ERRNO_PORTPART | POK_ERRNO_EMPTY | POK_ERRNO_KIND | POK_ERRNO_FULL
  | POK_ERRNO_READY | POK_ERRNO_TIMEOUT | POK_ERRNO_MODE | POK_ERRNO_CANCELLED
  | POK_ERRNO_PARTITION_MODE | POK_ERRNO_PARTITION

datatype pok_queuing_discipline =
  POK_QUEUING_DISCIPLINE_FIFO | POK_QUEUING_DISCIPLINE_PRIORITY

datatype pok_port_direction = POK_PORT_DIRECTION_IN | POK_PORT_DIRECTION_OUT

datatype pok_state =
  POK_STATE_STOPPED | POK_STATE_RUNNABLE | POK_STATE_WAITING | POK_STATE_RUNNING

datatype pok_deadline = DEADLINE_SOFT | DEADLINE_HARD

datatype pok_partition_mode =
    POK_PARTITION_MODE_INIT_COLD | POK_PARTITION_MODE_INIT_WARM
  | POK_PARTITION_MODE_NORMAL | POK_PARTITION_MODE_IDLE

datatype pok_start_condition =
    POK_START_CONDITION_NORMAL_START | POK_START_CONDITION_PARTITION_RESTART
  | POK_START_CONDITION_HM_MODULE_RESTART | POK_START_CONDITION_HM_PARTITION_RESTART

subsection \<open>Assertions\<close>

definition kassert :: "bool \<Rightarrow> unit option" where
  "kassert b = (if b then Some () else None)"

lemma kassert_simps [simp]: "kassert True = Some ()" "kassert False = None"
  by (simp_all add: kassert_def)

lemma kassert_eq_Some [simp]: "kassert b = Some u \<longleftrightarrow> b"
  by (simp add: kassert_def)

lemma kassert_eq_None [simp]: "kassert b = None \<longleftrightarrow> \<not> b"
  by (simp add: kassert_def)

lemma kassert_bind [simp]: "Option.bind (kassert b) f = (if b then f () else None)"
  by simp

lemmas bind_Some = Option.bind_eq_Some_conv

subsection \<open>Fixed-width unsigned values\<close>

definition u8 :: "nat \<Rightarrow> nat" where "u8 n = n mod 2 ^ 8"
definition u16 :: "nat \<Rightarrow> nat" where "u16 n = n mod 2 ^ 16"
definition u32 :: "nat \<Rightarrow> nat" where "u32 n = n mod 2 ^ 32"

lemma u16_small [simp]: "n < 65536 \<Longrightarrow> u16 n = n"
  by (simp add: u16_def)

lemma u16_bound [simp]: "u16 n < 65536"
  by (simp add: u16_def)

lemma u8_small [simp]: "n < 256 \<Longrightarrow> u8 n = n"
  by (simp add: u8_def)

lemma u32_small [simp]: "n < 4294967296 \<Longrightarrow> u32 n = n"
  by (simp add: u32_def)

lemma u32_bound [simp]: "u32 n < 4294967296"
  by (simp add: u32_def)

subsection \<open>Time\<close>

text \<open>
  \<open>pok_time_t\<close> is a signed 64-bit count of nanoseconds; a negative value stands for
  infinity. Sums wrap around in two's complement, as the code the compiler emits for
  \<open>-O0\<close> does.
\<close>

type_synonym pok_time = int

definition time_wrap :: "int \<Rightarrow> pok_time" where
  "time_wrap x = (x + 2 ^ 63) mod 2 ^ 64 - 2 ^ 63"

definition time_add :: "pok_time \<Rightarrow> pok_time \<Rightarrow> pok_time" where
  "time_add a b = time_wrap (a + b)"

definition POK_TIME_INFINITY :: pok_time where
  "POK_TIME_INFINITY = -1"

definition pok_time_is_infinity :: "pok_time \<Rightarrow> bool" where
  "pok_time_is_infinity t \<longleftrightarrow> t < 0"

definition is_time :: "pok_time \<Rightarrow> bool" where
  "is_time t \<longleftrightarrow> - (2 ^ 63) \<le> t \<and> t < 2 ^ 63"

lemma time_wrap_id: "is_time x \<Longrightarrow> time_wrap x = x"
  by (simp add: time_wrap_def is_time_def)

lemma is_time_wrap [simp]: "is_time (time_wrap x)"
proof -
  have "0 \<le> (x + 2 ^ 63) mod 2 ^ 64" "(x + 2 ^ 63) mod 2 ^ 64 < 2 ^ 64"
    by (simp_all add: pos_mod_bound)
  then show ?thesis by (simp add: time_wrap_def is_time_def)
qed

lemma is_time_add [simp]: "is_time (time_add a b)"
  by (simp add: time_add_def)

lemma time_add_exact: "is_time (a + b) \<Longrightarrow> time_add a b = a + b"
  by (simp add: time_add_def time_wrap_id)

lemma pok_time_infinity [simp]: "pok_time_is_infinity POK_TIME_INFINITY"
  by (simp add: pok_time_is_infinity_def POK_TIME_INFINITY_def)

subsection \<open>Alignment and byte memory\<close>

text \<open>
  \<open>ALIGN_VAL\<close> (\<open>kernel/include/common.h\<close>) rounds up to a multiple of a power of two.
  \<open>memcpy\<close> copies bytes into a flat memory; a source that is read is first fetched as
  a list of bytes.
\<close>

definition ALIGN_VAL :: "nat \<Rightarrow> nat \<Rightarrow> nat" where
  "ALIGN_VAL val align = nat ((int val + int align - 1) AND NOT (int align - 1))"

lemma and_not_mask_int: "x AND NOT (mask k) = x div 2 ^ k * 2 ^ k" for x :: int
proof -
  have "x AND NOT (mask k) = push_bit k (drop_bit k x)"
    by (rule bit_eqI) (auto simp: bit_simps)
  then show ?thesis by (simp add: push_bit_eq_mult drop_bit_eq_div)
qed

lemma ALIGN_VAL_pow2: "ALIGN_VAL val (2 ^ k) = (val + 2 ^ k - 1) div 2 ^ k * 2 ^ k"
proof -
  have x: "int val + int (2 ^ k) - 1 = int (val + 2 ^ k - 1)"
    using one_le_power [of "2::nat" k] by linarith
  have "ALIGN_VAL val (2 ^ k) = nat (int (val + 2 ^ k - 1) AND NOT (mask k))"
    unfolding ALIGN_VAL_def x by (simp add: mask_eq_exp_minus_1)
  also have "\<dots> = nat (int ((val + 2 ^ k - 1) div 2 ^ k * 2 ^ k))"
    by (simp only: and_not_mask_int zdiv_int of_nat_mult of_nat_power of_nat_numeral)
  finally show ?thesis by (simp only: nat_int)
qed

lemma ALIGN_VAL_4: "ALIGN_VAL val 4 = (val + 3) div 4 * 4"
  using ALIGN_VAL_pow2 [of val 2] by simp

lemma ALIGN_VAL_4_ge: "val \<le> ALIGN_VAL val 4"
  unfolding ALIGN_VAL_4 by linarith

lemma ALIGN_VAL_4_lt: "ALIGN_VAL val 4 < val + 4"
  unfolding ALIGN_VAL_4 by linarith

lemma ALIGN_VAL_4_dvd: "4 dvd ALIGN_VAL val 4"
  by (simp add: ALIGN_VAL_4)

type_synonym byte = nat
type_synonym mem = "nat \<Rightarrow> byte"

definition mem_read :: "mem \<Rightarrow> nat \<Rightarrow> nat \<Rightarrow> byte list" where
  "mem_read m p n = map (\<lambda>i. m (p + i)) [0..<n]"

definition memcpy :: "mem \<Rightarrow> nat \<Rightarrow> byte list \<Rightarrow> mem" where
  "memcpy m p bs = (\<lambda>a. if p \<le> a \<and> a < p + length bs then bs ! (a - p) else m a)"

lemma length_mem_read [simp]: "length (mem_read m p n) = n"
  by (simp add: mem_read_def)

lemma mem_read_memcpy_same: "mem_read (memcpy m p bs) p (length bs) = bs"
  by (rule nth_equalityI) (simp_all add: mem_read_def memcpy_def)

lemma mem_read_memcpy_disj:
  "q + n \<le> p \<or> p + length bs \<le> q \<Longrightarrow> mem_read (memcpy m p bs) q n = mem_read m q n"
  by (auto simp: mem_read_def memcpy_def)

subsection \<open>Lists\<close>

lemma nth_Cons_pos: "0 < n \<Longrightarrow> (x # xs) ! n = xs ! (n - 1)"
  by (cases n) auto

lemma in_set_tlD: "x \<in> set (tl xs) \<Longrightarrow> x \<in> set xs"
  by (cases xs) auto

lemma filter_neq_id: "x \<notin> set xs \<Longrightarrow> filter ((\<noteq>) x) xs = xs"
  by (induction xs) auto

subsection \<open>The interface of a bounded queue\<close>

text \<open>
  The kernel's circular buffers keep the same contract: \<open>put\<close> is refused exactly when the
  queue is full and otherwise appends what it stores of the element, \<open>get\<close> takes the
  oldest element. \<open>put_all\<close> and \<open>get_all\<close> repeat the operations.
\<close>

fun put_all :: "('e \<Rightarrow> 'q \<Rightarrow> 'q option) \<Rightarrow> 'e list \<Rightarrow> 'q \<Rightarrow> 'q option" where
  "put_all put [] q = Some q"
| "put_all put (e # es) q = Option.bind (put e q) (put_all put es)"

fun get_all :: "('q \<Rightarrow> ('e option \<times> 'q) option) \<Rightarrow> nat \<Rightarrow> 'q \<Rightarrow> ('e list \<times> 'q) option" where
  "get_all get 0 q = Some ([], q)"
| "get_all get (Suc n) q =
     (case get q of Some (Some e, q') \<Rightarrow> map_option (apfst ((#) e)) (get_all get n q')
      | _ \<Rightarrow> None)"

locale bounded_queue =
  fixes inv :: "'q \<Rightarrow> bool"
    and contents :: "'q \<Rightarrow> 'e list"
    and capacity :: "'q \<Rightarrow> nat"
    and valid :: "'q \<Rightarrow> 'e \<Rightarrow> bool"
    and stored :: "'e \<Rightarrow> 'e"
    and put :: "'e \<Rightarrow> 'q \<Rightarrow> 'q option"
    and get :: "'q \<Rightarrow> ('e option \<times> 'q) option"
  assumes put_refused: "inv q \<Longrightarrow> valid q e \<Longrightarrow> put e q = None \<longleftrightarrow> capacity q \<le> length (contents q)"
    and put_contents: "inv q \<Longrightarrow> valid q e \<Longrightarrow> put e q = Some q' \<Longrightarrow>
          inv q' \<and> contents q' = contents q @ [stored e] \<and> capacity q' = capacity q \<and> valid q' = valid q"
    and get_empty: "inv q \<Longrightarrow> contents q = [] \<Longrightarrow> get q = Some (None, q)"
    and get_contents: "inv q \<Longrightarrow> contents q = e # es \<Longrightarrow>
          \<exists>q'. get q = Some (Some e, q') \<and> inv q' \<and> contents q' = es
             \<and> capacity q' = capacity q \<and> valid q' = valid q"
begin

lemma put_all_contents:
  "inv q \<Longrightarrow> \<forall>e \<in> set es. valid q e \<Longrightarrow> length (contents q) + length es \<le> capacity q \<Longrightarrow>
   \<exists>q'. put_all put es q = Some q' \<and> inv q' \<and> contents q' = contents q @ map stored es
      \<and> capacity q' = capacity q"
proof (induction es arbitrary: q)
  case (Cons e es)
  then obtain q1 where q1: "put e q = Some q1"
    using put_refused [of q e] by fastforce
  then have "inv q1" "contents q1 = contents q @ [stored e]" "capacity q1 = capacity q"
      "valid q1 = valid q"
    using put_contents [of q e q1] Cons.prems(1,2) by auto
  then show ?case using Cons.IH [of q1] Cons.prems(2,3) q1 by simp
qed simp

lemma get_all_contents:
  "inv q \<Longrightarrow> contents q = xs @ ys \<Longrightarrow>
   \<exists>q'. get_all get (length xs) q = Some (xs, q') \<and> inv q' \<and> contents q' = ys"
proof (induction xs arbitrary: q)
  case (Cons x xs)
  then obtain q1 where "get q = Some (Some x, q1)" "inv q1" "contents q1 = xs @ ys"
    using get_contents [of q x "xs @ ys"] by auto
  then show ?case using Cons.IH [of q1] by auto
qed simp

lemma put_get_roundtrip:
  assumes "inv q" "contents q = []" "\<forall>e \<in> set es. valid q e" "length es \<le> capacity q"
  shows "\<exists>q' q''. put_all put es q = Some q' \<and> get_all get (length es) q' = Some (map stored es, q'')
     \<and> inv q'' \<and> contents q'' = []"
proof -
  obtain q' where q': "put_all put es q = Some q'" "inv q'" "contents q' = map stored es @ []"
    using put_all_contents [OF assms(1), of es] assms(2-4) by auto
  then show ?thesis using get_all_contents [OF q'(2,3)] by auto
qed

end

subsection \<open>Linked queues\<close>

text \<open>
  The contract of a queue kept in links of its elements: \<open>holds s q xs\<close> says that the store \<open>s\<close>
  has the list \<open>xs\<close> under \<open>q\<close>, \<open>enq\<close> links an element behind the last, \<open>unlink\<close> takes one out from
  wherever it is. \<open>fresh\<close> are the elements that are not heads of a queue themselves.
\<close>

locale linked_queue =
  fixes holds :: "'s \<Rightarrow> 'q \<Rightarrow> 'a list \<Rightarrow> bool"
    and fresh :: "'q \<Rightarrow> 'a \<Rightarrow> bool"
    and enq :: "'q \<Rightarrow> 'a \<Rightarrow> 's \<Rightarrow> 's"
    and unlink :: "'q \<Rightarrow> 'a \<Rightarrow> 's \<Rightarrow> 's"
  assumes holds_distinct: "holds s q xs \<Longrightarrow> distinct xs"
    and holds_enq: "holds s q xs \<Longrightarrow> x \<notin> set xs \<Longrightarrow> fresh q x \<Longrightarrow> holds (enq q x s) q (xs @ [x])"
    and holds_unlink: "holds s q (xs @ x # ys) \<Longrightarrow> holds (unlink q x s) q (xs @ ys)"
begin

lemma enq_all:
  "holds s q xs \<Longrightarrow> distinct (xs @ ns) \<Longrightarrow> \<forall>n \<in> set ns. fresh q n \<Longrightarrow> holds (fold (enq q) ns s) q (xs @ ns)"
proof (induction ns arbitrary: s xs)
  case (Cons n ns)
  then have "holds (enq q n s) q (xs @ [n])" by (intro holds_enq) auto
  then show ?case using Cons.IH [of "enq q n s" "xs @ [n]"] Cons.prems by simp
qed simp

lemma unlink_filter:
  "holds s q (xs @ ys) \<Longrightarrow> holds (fold (unlink q) (filter P ys) s) q (xs @ filter (\<lambda>y. \<not> P y) ys)"
proof (induction ys arbitrary: s xs)
  case (Cons y ys)
  show ?case
  proof (cases "P y")
    case True
    with Cons.prems have "holds (unlink q y s) q (xs @ ys)" by (intro holds_unlink)
    then show ?thesis using True Cons.IH by simp
  next
    case False
    then show ?thesis using Cons.IH [of s "xs @ [y]"] Cons.prems by simp
  qed
qed simp

lemma unlink_first: "holds s q (xs @ ys) \<Longrightarrow> holds (fold (unlink q) xs s) q ys"
  by (induction xs arbitrary: s) (use holds_unlink [of _ q "[]"] in auto)


end

end
