(* ===== verification/ListHead.thy ===== *)
theory ListHead
  imports Prelude
begin

section \<open>Intrusive doubly linked lists\<close>

text \<open>
  \<open>kernel/include/list.h\<close>: a \<open>struct list_head\<close> is a pair of pointers, and every
  list is a ring of such nodes through a head node. The model keeps the two fields of all
  nodes in one store (addresses are of any type) and translates each operation as the
  pointer assignments of the source. The relation \<open>ring s h xs\<close> says that the ring
  through \<open>h\<close> holds exactly the nodes \<open>xs\<close>, in that order; the operations are shown
  to implement insertion, removal and the emptiness test on the list \<open>xs\<close>. The other
  theories represent the queues of threads by such lists.
\<close>

record 'a list_heads =
  lnext :: "'a \<Rightarrow> 'a"
  lprev :: "'a \<Rightarrow> 'a"

definition INIT_LIST_HEAD :: "'a \<Rightarrow> 'a list_heads \<Rightarrow> 'a list_heads" where
  "INIT_LIST_HEAD l s = s\<lparr>lnext := (lnext s)(l := l), lprev := (lprev s)(l := l)\<rparr>"

definition raw_list_add :: "'a \<Rightarrow> 'a \<Rightarrow> 'a \<Rightarrow> 'a list_heads \<Rightarrow> 'a list_heads" where
  "raw_list_add new prev next s =
     (let s1 = s\<lparr>lprev := (lprev s)(next := new)\<rparr>;
          s2 = s1\<lparr>lnext := (lnext s1)(new := next)\<rparr>;
          s3 = s2\<lparr>lprev := (lprev s2)(new := prev)\<rparr>
      in s3\<lparr>lnext := (lnext s3)(prev := new)\<rparr>)"

definition list_add :: "'a \<Rightarrow> 'a \<Rightarrow> 'a list_heads \<Rightarrow> 'a list_heads" where
  "list_add new head s = raw_list_add new head (lnext s head) s"

definition list_add_tail :: "'a \<Rightarrow> 'a \<Rightarrow> 'a list_heads \<Rightarrow> 'a list_heads" where
  "list_add_tail new head s = raw_list_add new (lprev s head) head s"

definition raw_list_del :: "'a \<Rightarrow> 'a \<Rightarrow> 'a list_heads \<Rightarrow> 'a list_heads" where
  "raw_list_del prev next s =
     (let s1 = s\<lparr>lprev := (lprev s)(next := prev)\<rparr>
      in s1\<lparr>lnext := (lnext s1)(prev := next)\<rparr>)"

definition raw_list_del_entry :: "'a \<Rightarrow> 'a list_heads \<Rightarrow> 'a list_heads" where
  "raw_list_del_entry entry s = raw_list_del (lprev s entry) (lnext s entry) s"

definition list_del_init :: "'a \<Rightarrow> 'a list_heads \<Rightarrow> 'a list_heads" where
  "list_del_init entry s = INIT_LIST_HEAD entry (raw_list_del_entry entry s)"

definition list_empty :: "'a \<Rightarrow> 'a list_heads \<Rightarrow> bool" where
  "list_empty head s \<longleftrightarrow> lnext s head = head"

text \<open>
  The loop \<open>list_for_each_entry\<close> that looks for an insertion point, as it is used for
  the queues ordered by priority: starting from the first entry it stops at the first node
  that satisfies \<open>P\<close>, or at the head. A ring that does not come back to its head would
  make the loop run forever; then the model has no result.
\<close>

partial_function (option) list_find_from ::
  "('a \<Rightarrow> bool) \<Rightarrow> 'a \<Rightarrow> 'a list_heads \<Rightarrow> 'a \<Rightarrow> 'a option" where
  "list_find_from P head s pos =
     (if pos = head \<or> P pos then Some pos
      else list_find_from P head s (lnext s pos))"

definition list_insert_before_first ::
  "('a \<Rightarrow> bool) \<Rightarrow> 'a \<Rightarrow> 'a \<Rightarrow> 'a list_heads \<Rightarrow> 'a list_heads option" where
  "list_insert_before_first P new head s = do {
     pos \<leftarrow> list_find_from P head s (lnext s head);
     Some (list_add_tail new pos s)
   }"

subsection \<open>Rings\<close>

fun dchain :: "'a list_heads \<Rightarrow> 'a list \<Rightarrow> bool" where
  "dchain s (x # y # zs) \<longleftrightarrow> lnext s x = y \<and> lprev s y = x \<and> dchain s (y # zs)"
| "dchain s _ \<longleftrightarrow> True"

definition ring :: "'a list_heads \<Rightarrow> 'a \<Rightarrow> 'a list \<Rightarrow> bool" where
  "ring s h xs \<longleftrightarrow> distinct (h # xs) \<and> dchain s (h # xs @ [h])"

lemma dchain_append: "dchain s (xs @ y # ys) \<longleftrightarrow> dchain s (xs @ [y]) \<and> dchain s (y # ys)"
  by (induction s xs rule: dchain.induct) (cases ys; auto)+

lemma dchain_Cons: "dchain s (x # y # ys) \<longleftrightarrow> lnext s x = y \<and> lprev s y = x \<and> dchain s (y # ys)"
  by simp

lemma dchain_frame:
  "(\<forall>x \<in> set (butlast xs). lnext s' x = lnext s x) \<Longrightarrow>
   (\<forall>x \<in> set (tl xs). lprev s' x = lprev s x) \<Longrightarrow> dchain s' xs = dchain s xs"
  by (induction s xs rule: dchain.induct) auto

lemma ring_Nil: "ring s h [] \<longleftrightarrow> lnext s h = h \<and> lprev s h = h"
  by (auto simp: ring_def)

lemma ring_distinct: "ring s h xs \<Longrightarrow> distinct xs \<and> h \<notin> set xs"
  by (simp add: ring_def)

lemma ring_frame:
  assumes "ring s h xs"
    and "\<forall>x \<in> insert h (set xs). lnext s' x = lnext s x \<and> lprev s' x = lprev s x"
  shows "ring s' h xs"
proof -
  have "dchain s' (h # xs @ [h]) = dchain s (h # xs @ [h])"
    by (rule dchain_frame) (use assms(2) in \<open>auto simp: butlast_append\<close>)
  with assms(1) show ?thesis by (simp add: ring_def)
qed

text \<open>
  A ring seen from a position: \<open>ps\<close> are the nodes before it, starting with the head,
  and \<open>qs\<close> those from it on, ending with the head.
\<close>

lemma ring_split:
  "ring s h (xs @ ys) \<longleftrightarrow>
     distinct (h # xs @ ys) \<and> dchain s (h # xs)
     \<and> lnext s (last (h # xs)) = hd (ys @ [h])
     \<and> lprev s (hd (ys @ [h])) = last (h # xs)
     \<and> dchain s (ys @ [h])"
proof -
  obtain q qs where q: "ys @ [h] = q # qs" by (cases "ys @ [h]") auto
  obtain ps p where p: "h # xs = ps @ [p]" by (metis append_butlast_last_id list.distinct(1))
  have "h # (xs @ ys) @ [h] = ps @ p # q # qs"
    using q p by (metis append.assoc append_Cons append_Nil)
  then have "dchain s (h # (xs @ ys) @ [h]) \<longleftrightarrow>
      dchain s (ps @ [p]) \<and> lnext s p = q \<and> lprev s q = p \<and> dchain s (q # qs)"
    by (metis dchain_append dchain_Cons)
  then show ?thesis
    unfolding ring_def by (simp only: q p append.assoc last_snoc list.sel(1))
qed

lemma list_empty_ring: "ring s h xs \<Longrightarrow> list_empty h s \<longleftrightarrow> xs = []"
  by (cases xs) (auto simp: ring_def list_empty_def)

lemma ring_next: "ring s h (xs @ y # ys) \<Longrightarrow> lnext s y = hd (ys @ [h])"
  using ring_split [of s h "xs @ [y]" ys] by simp

lemma ring_prev: "ring s h (xs @ y # ys) \<Longrightarrow> lprev s y = last (h # xs)"
  using ring_split [of s h xs "y # ys"] by simp

lemma not_list_empty_entry: "ring s h xs \<Longrightarrow> e \<in> set xs \<Longrightarrow> \<not> list_empty e s"
proof -
  assume r: "ring s h xs" and "e \<in> set xs"
  then obtain as bs where xs: "xs = as @ e # bs" by (meson split_list)
  with r have "lnext s e = hd (bs @ [h])" by (simp add: ring_next)
  moreover have "hd (bs @ [h]) \<noteq> e"
    using r xs by (cases bs) (auto simp: ring_def)
  ultimately show ?thesis by (simp add: list_empty_def)
qed


subsection \<open>The operations on rings\<close>

lemma ring_INIT_LIST_HEAD: "ring (INIT_LIST_HEAD h s) h []"
  by (simp add: ring_Nil INIT_LIST_HEAD_def)

lemma ring_list_add_tail:
  assumes r: "ring s h (xs @ ys)" and new: "new \<notin> insert h (set (xs @ ys))"
    and pos: "pos = hd (ys @ [h])"
  shows "ring (list_add_tail new pos s) h (xs @ new # ys)"
proof -
  let ?p = "last (h # xs)"
  let ?s = "list_add_tail new pos s"
  have prev: "lprev s pos = ?p" and chx: "dchain s (h # xs)" and chy: "dchain s (ys @ [h])"
    and d: "distinct (h # xs @ ys)"
    using r pos unfolding ring_split by auto
  have n: "lnext ?s = (lnext s)(new := pos, ?p := new)"
    and p: "lprev ?s = (lprev s)(pos := new, new := ?p)"
    by (simp_all add: list_add_tail_def raw_list_add_def prev del: last.simps)
  have pin: "?p \<in> insert h (set xs)" by (metis last_in_set list.distinct(1) list.simps(15))
  have posin: "pos \<in> insert h (set ys)" using pos by (cases ys) auto
  have "?p \<notin> set (butlast (h # xs))"
    using d by (metis append_butlast_last_id distinct_append list.distinct(1)
        not_distinct_conv_prefix append_Cons)
  moreover have "pos \<notin> set (tl (h # xs))"
    using posin d by auto
  ultimately have 1: "dchain ?s (h # xs)"
    using chx new by (subst dchain_frame [of _ _ s])
      (auto simp: n p dest: in_set_butlastD)
  have "?p \<notin> set (butlast (ys @ [h]))" "pos \<notin> set (tl (ys @ [h]))"
    using pin posin d pos by (cases ys; auto)+
  then have 2: "dchain ?s (ys @ [h])"
    using chy new by (subst dchain_frame [of _ _ s]) (auto simp: n p dest: in_set_tlD)
  have "?p \<noteq> new" "pos \<noteq> new" using pin posin new by auto
  then have 3: "lnext ?s ?p = new" "lprev ?s new = ?p" "lnext ?s new = pos" "lprev ?s pos = new"
    unfolding n p by simp_all
  show ?thesis
    unfolding ring_split
    using 1 2 3 d new pos by (cases ys) (auto simp del: last.simps)
qed

lemma ring_list_add_tail_end:
  "ring s h xs \<Longrightarrow> new \<notin> insert h (set xs) \<Longrightarrow> ring (list_add_tail new h s) h (xs @ [new])"
  using ring_list_add_tail [of s h xs "[]" new h] by simp

lemma ring_list_add:
  "ring s h xs \<Longrightarrow> new \<notin> insert h (set xs) \<Longrightarrow> ring (list_add new h s) h (new # xs)"
proof -
  assume r: "ring s h xs" and n: "new \<notin> insert h (set xs)"
  have nx: "lnext s h = hd (xs @ [h])" and pv: "lprev s (hd (xs @ [h])) = h"
    using r ring_split [of s h "[]" xs] by simp_all
  have "list_add new h s = list_add_tail new (hd (xs @ [h])) s"
    by (simp add: list_add_def list_add_tail_def nx pv)
  then show ?thesis using ring_list_add_tail [of s h "[]" xs new] r n by simp
qed


lemma ring_list_del_init:
  assumes r: "ring s h (xs @ e # ys)"
  shows "ring (list_del_init e s) h (xs @ ys) \<and> ring (list_del_init e s) e []"
proof -
  let ?s = "list_del_init e s"
  let ?p = "last (h # xs)" and ?q = "hd (ys @ [h])"
  have nx: "lnext s e = ?q" using r by (rule ring_next)
  have pv: "lprev s e = ?p" using r by (rule ring_prev)
  have n: "lnext ?s = (lnext s)(?p := ?q, e := e)"
    and p: "lprev ?s = (lprev s)(?q := ?p, e := e)"
    by (simp_all add: list_del_init_def INIT_LIST_HEAD_def raw_list_del_entry_def
        raw_list_del_def nx pv del: last.simps)
  have d: "distinct (h # xs @ e # ys)" and chx: "dchain s (h # xs)"
    using r unfolding ring_split by auto
  have chy: "dchain s (ys @ [h])"
    using r ring_split [of s h "xs @ [e]" ys] by simp
  have pin: "?p \<in> insert h (set xs)" by (metis last_in_set list.distinct(1) list.simps(15))
  have qin: "?q \<in> insert h (set ys)" by (cases ys) auto
  have ne: "?p \<noteq> e" "?q \<noteq> e" using pin qin d by auto
  have "?p \<notin> set (butlast (h # xs))"
    using d by (metis append_butlast_last_id distinct_append list.distinct(1)
        not_distinct_conv_prefix append_Cons)
  moreover have "?q \<notin> set (tl (h # xs))" using qin d by auto
  ultimately have 1: "dchain ?s (h # xs)"
    using chx d by (subst dchain_frame [of _ _ s]) (auto simp: n p dest: in_set_butlastD)
  have "?p \<notin> set (butlast (ys @ [h]))" "?q \<notin> set (tl (ys @ [h]))"
    using pin qin d by (cases ys; auto)+
  then have 2: "dchain ?s (ys @ [h])"
    using chy d by (subst dchain_frame [of _ _ s]) (auto simp: n p dest: in_set_tlD)
  have "lnext ?s ?p = ?q" "lprev ?s ?q = ?p" using ne by (simp_all add: n p)
  then show ?thesis
    unfolding ring_split [of ?s h xs ys] ring_Nil
    using 1 2 d by (auto simp: n p simp del: last.simps)
qed

lemma list_del_init_unlinked: "ring s e [] \<Longrightarrow> list_del_init e s = s"
  by (rule list_heads.equality)
    (simp_all add: ring_Nil list_del_init_def INIT_LIST_HEAD_def raw_list_del_entry_def
      raw_list_del_def fun_upd_idem)

lemma ring_other_add_tail:
  assumes "ring s g zs" "ring s h (xs @ ys)" "insert g (set zs) \<inter> insert h (set (xs @ ys)) = {}"
    and "new \<notin> insert g (set zs)" "pos = hd (ys @ [h])"
  shows "ring (list_add_tail new pos s) g zs"
proof (rule ring_frame [OF assms(1)])
  let ?p = "last (h # xs)"
  have prev: "lprev s pos = ?p" using assms(2,5) unfolding ring_split by auto
  have "?p \<in> insert h (set xs)" by (metis last_in_set list.distinct(1) list.simps(15))
  moreover have "pos \<in> insert h (set ys)" using assms(5) by (cases ys) auto
  ultimately have "?p \<notin> insert g (set zs)" "pos \<notin> insert g (set zs)" using assms(3) by auto
  then show "\<forall>x\<in>insert g (set zs). lnext (list_add_tail new pos s) x = lnext s x
      \<and> lprev (list_add_tail new pos s) x = lprev s x"
    using assms(4)
    by (auto simp: list_add_tail_def raw_list_add_def prev simp del: last.simps)
qed

lemma ring_other_del_init:
  assumes "ring s g zs" "ring s h (xs @ e # ys)"
    and "insert g (set zs) \<inter> insert h (set (xs @ e # ys)) = {}"
  shows "ring (list_del_init e s) g zs"
proof (rule ring_frame [OF assms(1)])
  let ?p = "last (h # xs)" and ?q = "hd (ys @ [h])"
  have nx: "lnext s e = ?q" "lprev s e = ?p"
    using ring_next [OF assms(2)] ring_prev [OF assms(2)] by auto
  have "?p \<in> insert h (set xs)" by (metis last_in_set list.distinct(1) list.simps(15))
  moreover have "?q \<in> insert h (set ys)" by (cases ys) auto
  ultimately have "?p \<notin> insert g (set zs)" "?q \<notin> insert g (set zs)" "e \<notin> insert g (set zs)"
    using assms(3) by auto
  then show "\<forall>x\<in>insert g (set zs). lnext (list_del_init e s) x = lnext s x
      \<and> lprev (list_del_init e s) x = lprev s x"
    by (auto simp: list_del_init_def INIT_LIST_HEAD_def raw_list_del_entry_def
        raw_list_del_def nx simp del: last.simps)
qed

subsection \<open>Insertion by priority\<close>

text \<open>What the insertion loop does to the list: \<open>new\<close> goes before the first node with
  \<open>P\<close>, or to the end.\<close>

fun insert_before_first :: "('a \<Rightarrow> bool) \<Rightarrow> 'a \<Rightarrow> 'a list \<Rightarrow> 'a list" where
  "insert_before_first P new [] = [new]"
| "insert_before_first P new (x # xs) =
     (if P x then new # x # xs else x # insert_before_first P new xs)"

lemma insert_before_first_split:
  "insert_before_first P new xs =
     takeWhile (\<lambda>x. \<not> P x) xs @ new # dropWhile (\<lambda>x. \<not> P x) xs"
  by (induction xs) auto

lemma set_insert_before_first [simp]: "set (insert_before_first P new xs) = insert new (set xs)"
  by (induction xs) auto

lemma distinct_insert_before_first [simp]:
  "distinct (insert_before_first P new xs) \<longleftrightarrow> new \<notin> set xs \<and> distinct xs"
  by (induction xs) auto

lemma insert_before_first_not_Nil [simp]: "insert_before_first P new xs \<noteq> []"
  by (cases xs) auto

lemma list_find_from_ring:
  "ring s h (xs @ ys) \<Longrightarrow>
   list_find_from P h s (hd (ys @ [h])) = Some (hd (dropWhile (\<lambda>x. \<not> P x) ys @ [h]))"
proof (induction ys arbitrary: xs)
  case Nil
  then show ?case by (simp add: list_find_from.simps)
next
  case (Cons y ys)
  have ne: "y \<noteq> h" using Cons.prems by (auto simp: ring_def)
  show ?case
  proof (cases "P y")
    case True
    then show ?thesis by (simp add: list_find_from.simps)
  next
    case False
    have "lnext s y = hd (ys @ [h])" using Cons.prems by (rule ring_next)
    moreover have "list_find_from P h s (hd (ys @ [h]))
        = Some (hd (dropWhile (\<lambda>x. \<not> P x) ys @ [h]))"
      using Cons.IH [of "xs @ [y]"] Cons.prems by simp
    ultimately show ?thesis using False ne by (subst list_find_from.simps) simp
  qed
qed

lemma list_insert_before_first_ring:
  assumes r: "ring s h xs" and new: "new \<notin> insert h (set xs)"
  shows "\<exists>s'. list_insert_before_first P new h s = Some s'
      \<and> ring s' h (insert_before_first P new xs)"
proof -
  let ?as = "takeWhile (\<lambda>x. \<not> P x) xs" and ?bs = "dropWhile (\<lambda>x. \<not> P x) xs"
  have nx: "lnext s h = hd (xs @ [h])" using r ring_split [of s h "[]" xs] by simp
  have f: "list_find_from P h s (lnext s h) = Some (hd (?bs @ [h]))"
    using list_find_from_ring [of s h "[]" xs P] r nx by simp
  have "ring (list_add_tail new (hd (?bs @ [h])) s) h (?as @ new # ?bs)"
    by (rule ring_list_add_tail) (use r new in auto)
  then show ?thesis
    by (simp add: list_insert_before_first_def f insert_before_first_split)
qed


text \<open>
  With \<open>P x\<close> saying that \<open>x\<close> has a lower priority than \<open>new\<close>, the loop keeps the list
  ordered by descending priority and puts \<open>new\<close> after every node of the same priority.
\<close>

definition prio_sorted :: "('a \<Rightarrow> nat) \<Rightarrow> 'a list \<Rightarrow> bool" where
  "prio_sorted f xs \<longleftrightarrow> sorted_wrt (\<lambda>x y. f y \<le> f x) xs"

lemma prio_sorted_simps [simp]:
  "prio_sorted f []"
  "prio_sorted f (x # xs) \<longleftrightarrow> (\<forall>y \<in> set xs. f y \<le> f x) \<and> prio_sorted f xs"
  by (simp_all add: prio_sorted_def)

lemma prio_sorted_append:
  "prio_sorted f (xs @ ys) \<longleftrightarrow>
     prio_sorted f xs \<and> prio_sorted f ys \<and> (\<forall>x \<in> set xs. \<forall>y \<in> set ys. f y \<le> f x)"
  by (simp add: prio_sorted_def sorted_wrt_append)

lemma prio_sorted_cong: "(\<forall>x \<in> set xs. f x = g x) \<Longrightarrow> prio_sorted f xs = prio_sorted g xs"
  by (induction xs) auto

lemma prio_sorted_removeAll: "prio_sorted f xs \<Longrightarrow> prio_sorted f (removeAll x xs)"
  by (induction xs) auto

lemma prio_sorted_insert:
  "prio_sorted f xs \<Longrightarrow> prio_sorted f (insert_before_first (\<lambda>x. f x < f new) new xs)"
  by (induction xs) auto

lemma prio_insert_position:
  assumes "prio_sorted f xs" and "insert_before_first (\<lambda>x. f x < f new) new xs = as @ new # bs"
    and "new \<notin> set xs"
  shows "xs = as @ bs \<and> (\<forall>x \<in> set as. f new \<le> f x) \<and> (\<forall>x \<in> set bs. f x < f new)"
  using assms
proof (induction xs arbitrary: as)
  case Nil
  then show ?case by (cases as) auto
next
  case (Cons x xs)
  show ?case
  proof (cases "f x < f new")
    case True
    then have eq: "new # x # xs = as @ new # bs" using Cons.prems(2) by simp
    have "as = []"
    proof (rule ccontr)
      assume "as \<noteq> []"
      then have "new \<in> set (x # xs)" using eq by (cases as) auto
      then show False using Cons.prems(3) by simp
    qed
    then show ?thesis using eq True Cons.prems(1) by (auto intro!: le_less_trans [OF _ True])
  next
    case False
    then have eq: "x # insert_before_first (\<lambda>x. f x < f new) new xs = as @ new # bs"
      using Cons.prems(2) by simp
    then obtain as' where as: "as = x # as'" using Cons.prems(3) by (cases as) auto
    have "prio_sorted f xs" "new \<notin> set xs" using Cons.prems by auto
    moreover have "insert_before_first (\<lambda>x. f x < f new) new xs = as' @ new # bs"
      using eq as by simp
    ultimately have "xs = as' @ bs \<and> (\<forall>x \<in> set as'. f new \<le> f x) \<and> (\<forall>x \<in> set bs. f x < f new)"
      by (intro Cons.IH)
    then show ?thesis using as False by simp
  qed
qed

subsection \<open>The interface of a list of nodes\<close>

text \<open>
  What the queues of the kernel rely on. \<open>repr s h xs\<close> relates a store to the list under
  the head \<open>h\<close>.
\<close>

locale node_list =
  fixes repr :: "'s \<Rightarrow> 'a \<Rightarrow> 'a list \<Rightarrow> bool"
    and init :: "'a \<Rightarrow> 's \<Rightarrow> 's"
    and add_tail :: "'a \<Rightarrow> 'a \<Rightarrow> 's \<Rightarrow> 's"
    and ins :: "('a \<Rightarrow> bool) \<Rightarrow> 'a \<Rightarrow> 'a \<Rightarrow> 's \<Rightarrow> 's option"
    and del :: "'a \<Rightarrow> 's \<Rightarrow> 's"
    and empty :: "'a \<Rightarrow> 's \<Rightarrow> bool"
  assumes repr_init: "repr (init h s) h []"
    and repr_distinct: "repr s h xs \<Longrightarrow> distinct xs"
    and repr_empty: "repr s h xs \<Longrightarrow> empty h s \<longleftrightarrow> xs = []"
    and repr_linked: "repr s h xs \<Longrightarrow> e \<in> set xs \<Longrightarrow> \<not> empty e s"
    and repr_add_tail: "repr s h xs \<Longrightarrow> new \<notin> insert h (set xs) \<Longrightarrow>
          repr (add_tail new h s) h (xs @ [new])"
    and repr_ins: "repr s h xs \<Longrightarrow> new \<notin> insert h (set xs) \<Longrightarrow>
          \<exists>s'. ins P new h s = Some s' \<and> repr s' h (insert_before_first P new xs)"
    and repr_del: "repr s h (xs @ e # ys) \<Longrightarrow> repr (del e s) h (xs @ ys) \<and> repr (del e s) e []"
begin

lemma repr_del_removeAll:
  assumes "repr s h xs" "e \<in> set xs"
  shows "repr (del e s) h (removeAll e xs)"
proof -
  obtain as bs where xs: "xs = as @ e # bs" using assms(2) by (meson split_list)
  have "distinct xs" using assms(1) by (rule repr_distinct)
  then have "removeAll e xs = as @ bs" unfolding xs by simp
  then show ?thesis using repr_del assms(1) unfolding xs by simp
qed

lemma repr_ins_prio:
  assumes "repr s h xs" "new \<notin> insert h (set xs)" "prio_sorted f xs"
  shows "\<exists>s' xs'. ins (\<lambda>x. f x < f new) new h s = Some s' \<and> repr s' h xs'
      \<and> prio_sorted f xs' \<and> set xs' = insert new (set xs)"
  using repr_ins [OF assms(1,2), of "\<lambda>x. f x < f new"] prio_sorted_insert [OF assms(3), of new]
    set_insert_before_first
  by metis

end

text \<open>Nodes behind a head are a linked queue.\<close>

sublocale node_list \<subseteq> nodes: linked_queue repr "\<lambda>h new. new \<noteq> h" "\<lambda>h new. add_tail new h" "\<lambda>h. del"
  by unfold_locales (auto intro: repr_distinct repr_add_tail dest: repr_del)

interpretation list_h: node_list ring INIT_LIST_HEAD list_add_tail list_insert_before_first
    list_del_init list_empty
proof (standard, goal_cases)
  case 1 show ?case by (rule ring_INIT_LIST_HEAD)
next
  case 2 then show ?case by (simp add: ring_def)
next
  case 3 then show ?case by (rule list_empty_ring)
next
  case 4 then show ?case by (rule not_list_empty_entry)
next
  case 5 then show ?case by (rule ring_list_add_tail_end)
next
  case 6 then show ?case by (rule list_insert_before_first_ring)
next
  case 7 then show ?case by (rule ring_list_del_init)
qed

text \<open>
  C2: the loop of \<open>list_for_each_entry\<close> with \<open>list_add_tail\<close>, run on the pointers of
  \<open>list.h\<close>, ends and keeps a queue ordered by descending priority, with the new node
  placed behind every queued node of its own or a higher priority and before every node of a
  lower one, and no other node moved.
\<close>

theorem list_insert_by_priority_ring:
  assumes "ring s h xs" and "new \<notin> insert h (set xs)" and "prio_sorted f xs"
  shows "\<exists>s' as bs. list_insert_before_first (\<lambda>x. f x < f new) new h s = Some s'
      \<and> ring s' h (as @ new # bs) \<and> xs = as @ bs \<and> prio_sorted f (as @ new # bs)
      \<and> (\<forall>x \<in> set as. f new \<le> f x) \<and> (\<forall>x \<in> set bs. f x < f new)"
proof -
  let ?P = "\<lambda>x. f x < f new"
  let ?xs = "insert_before_first ?P new xs"
  let ?as = "takeWhile (\<lambda>x. \<not> ?P x) xs" and ?bs = "dropWhile (\<lambda>x. \<not> ?P x) xs"
  have eq: "?xs = ?as @ new # ?bs" by (rule insert_before_first_split)
  have "\<exists>s'. list_insert_before_first ?P new h s = Some s' \<and> ring s' h ?xs"
    by (rule list_h.repr_ins [OF assms(1,2)])
  then obtain s' where s': "list_insert_before_first ?P new h s = Some s'"
      "ring s' h (?as @ new # ?bs)"
    unfolding eq by blast
  have pos: "xs = ?as @ ?bs \<and> (\<forall>x \<in> set ?as. f new \<le> f x) \<and> (\<forall>x \<in> set ?bs. f x < f new)"
    by (rule prio_insert_position [OF assms(3) eq]) (use assms(2) in blast)
  show ?thesis
  proof (intro exI conjI)
    show "prio_sorted f (?as @ new # ?bs)"
      using prio_sorted_insert [OF assms(3), of new] unfolding eq .
  qed (use s' pos in blast)+
qed

text \<open>Three queued threads of priorities 9, 5, 5 and a new one of priority 5.\<close>

definition example_ring :: "nat list_heads" where
  "example_ring = \<lparr>lnext = (\<lambda>n. if n = 3 then 0 else n + 1),
     lprev = (\<lambda>n. if n = 0 then 3 else n - 1)\<rparr>"

theorem list_insert_by_priority_ring_witness:
  "\<exists>s'. list_insert_before_first (\<lambda>x. (9 - x) < (9 - 7 :: nat)) 7 0 example_ring = Some s'
     \<and> ring s' 0 [1, 2, 3, 7 :: nat]"
proof -
  have r: "ring example_ring 0 [1, 2, 3]" by (simp add: ring_def example_ring_def)
  have n: "7 \<notin> insert 0 (set [1, 2, 3 :: nat])" by simp
  have p: "prio_sorted (\<lambda>x. 9 - x) [1, 2, 3 :: nat]" by simp
  obtain s' as bs where s: "list_insert_before_first (\<lambda>x. (9 - x) < (9 - 7 :: nat)) 7 0 example_ring = Some s'"
      "ring s' 0 (as @ 7 # bs)" "[1, 2, 3] = as @ bs" "\<forall>x \<in> set bs. 9 - x < (9 - 7 :: nat)"
    using list_insert_by_priority_ring [OF r n p] by auto
  have "bs = []"
    using s(3,4) by (cases bs rule: rev_cases) auto
  then show ?thesis using s by auto
qed

end
