(* ===== verification/KernelLibc.thy ===== *)
theory KernelLibc
  imports Prelude
begin

section \<open>String and memory functions of the kernel\<close>

text \<open>
  \<open>kernel/libc\<close>: the functions the kernel uses on names and messages. A \<open>char\<close> array is a
  function from indexes to character codes (its first index is 0), memory a function from
  addresses. A loop with a bound is a recursion on what is left of it; one that ends at a null
  character has no result on an array without one.
\<close>

type_synonym chars = "nat \<Rightarrow> int"

subsection \<open>Comparison of strings\<close>

definition islower_ascii :: "int \<Rightarrow> bool" where
  "islower_ascii c \<longleftrightarrow> 97 \<le> c \<and> c \<le> 122"

definition cmp3 :: "int \<Rightarrow> int \<Rightarrow> int" where
  "cmp3 a b = (if a < b then -1 else if a > b then 1 else 0)"

text \<open>One turn of the loop of \<open>strncasecmp\<close> on characters that are not both null; 0 goes on.\<close>

definition strncasecmp_turn :: "int \<Rightarrow> int \<Rightarrow> int" where
  "strncasecmp_turn c1 c2 =
     (if islower_ascii c1 \<and> (c2 < 97 \<or> c2 > 122) then cmp3 (c1 + 65 - 97) c2
      else if islower_ascii c2 \<and> (c1 < 97 \<or> c1 > 122) then cmp3 c1 (c2 + 65 - 97)
      else cmp3 c1 c2)"

fun strncasecmp_from :: "chars \<Rightarrow> chars \<Rightarrow> nat \<Rightarrow> nat \<Rightarrow> int" where
  "strncasecmp_from s1 s2 i 0 = 0"
| "strncasecmp_from s1 s2 i (Suc n) =
     (if s1 i = 0 \<and> s2 i = 0 then 0
      else if strncasecmp_turn (s1 i) (s2 i) \<noteq> 0 then strncasecmp_turn (s1 i) (s2 i)
      else strncasecmp_from s1 s2 (i + 1) n)"

definition strncasecmp :: "chars \<Rightarrow> chars \<Rightarrow> nat \<Rightarrow> int" where
  "strncasecmp s1 s2 n = strncasecmp_from s1 s2 0 n"

definition MAX_NAME_LENGTH :: nat where "MAX_NAME_LENGTH = 30"

definition pok_compare_names :: "chars \<Rightarrow> chars \<Rightarrow> int" where
  "pok_compare_names name1 name2 = strncasecmp name1 name2 MAX_NAME_LENGTH"

fun strncmp_from :: "chars \<Rightarrow> chars \<Rightarrow> nat \<Rightarrow> nat \<Rightarrow> int" where
  "strncmp_from s1 s2 i 0 = 0"
| "strncmp_from s1 s2 i (Suc n) =
     (if s1 i = 0 \<and> s2 i = 0 then 0
      else if s1 i < s2 i then -1
      else if s1 i > s2 i then 1
      else strncmp_from s1 s2 (i + 1) n)"

definition strncmp :: "chars \<Rightarrow> chars \<Rightarrow> nat \<Rightarrow> int" where
  "strncmp s1 s2 n = strncmp_from s1 s2 0 n"

partial_function (option) strcmp_from :: "chars \<Rightarrow> chars \<Rightarrow> nat \<Rightarrow> int option" where
  "strcmp_from s1 s2 i =
     (if s1 i = 0 \<and> s2 i = 0 then Some 0
      else if s1 i < s2 i then Some (-1)
      else if s1 i > s2 i then Some 1
      else strcmp_from s1 s2 (i + 1))"

definition strcmp :: "chars \<Rightarrow> chars \<Rightarrow> int option" where
  "strcmp s1 s2 = strcmp_from s1 s2 0"

subsection \<open>Length, copy and search\<close>

partial_function (option) strlen_from :: "chars \<Rightarrow> nat \<Rightarrow> nat option" where
  "strlen_from s i = (if s i \<noteq> 0 then strlen_from s (i + 1) else Some i)"

definition strlen :: "chars \<Rightarrow> nat option" where "strlen s = strlen_from s 0"

fun strnlen_from :: "chars \<Rightarrow> nat \<Rightarrow> nat \<Rightarrow> nat" where
  "strnlen_from s i 0 = i"
| "strnlen_from s i (Suc n) = (if s i \<noteq> 0 then strnlen_from s (i + 1) n else i)"

definition strnlen :: "chars \<Rightarrow> nat \<Rightarrow> nat" where "strnlen s n = strnlen_from s 0 n"

definition strncpy :: "chars \<Rightarrow> chars \<Rightarrow> nat \<Rightarrow> chars" where
  "strncpy dest src n =
     (let m = strnlen src n;
          m = (if m < n then m + 1 else m)
      in (\<lambda>i. if i < m then src i else dest i))"

text \<open>The results of the searches are indexes, \<open>None\<close> stands for \<open>NULL\<close>; the outer option of
  \<open>strchr\<close> and \<open>strrchr\<close> is for loops that do not end.\<close>

partial_function (option) strchr_from :: "chars \<Rightarrow> int \<Rightarrow> nat \<Rightarrow> nat option option" where
  "strchr_from s c i =
     (if s i \<noteq> c then (if s i = 0 then Some None else strchr_from s c (i + 1)) else Some (Some i))"

definition strchr :: "chars \<Rightarrow> int \<Rightarrow> nat option option" where "strchr s c = strchr_from s c 0"

partial_function (option) strrchr_from :: "chars \<Rightarrow> int \<Rightarrow> nat option \<Rightarrow> nat \<Rightarrow> nat option option" where
  "strrchr_from s c found i =
     (let found = (if s i = c then Some i else found)
      in if s i \<noteq> 0 then strrchr_from s c found (i + 1) else Some found)"

definition strrchr :: "chars \<Rightarrow> int \<Rightarrow> nat option option" where "strrchr s c = strrchr_from s c None 0"

fun memchr :: "mem \<Rightarrow> nat \<Rightarrow> nat \<Rightarrow> nat \<Rightarrow> nat option" where
  "memchr m p c 0 = None"
| "memchr m p c (Suc n) = (if u8 c = m p then Some p else memchr m (p + 1) c n)"

fun memcmp :: "mem \<Rightarrow> nat \<Rightarrow> nat \<Rightarrow> nat \<Rightarrow> int" where
  "memcmp m p q 0 = 0"
| "memcmp m p q (Suc n) =
     (let diff = int (m p) - int (m q) in if diff \<noteq> 0 then diff else memcmp m (p + 1) (q + 1) n)"

fun memset :: "mem \<Rightarrow> nat \<Rightarrow> byte \<Rightarrow> nat \<Rightarrow> mem" where
  "memset m d v 0 = m"
| "memset m d v (Suc n) = memset (m(d := v)) (d + 1) v n"

text \<open>The byte loop of \<open>memcpy\<close>, which is also the first loop of \<open>memmove\<close>, and the second.\<close>

fun memcpy_loop :: "mem \<Rightarrow> nat \<Rightarrow> nat \<Rightarrow> nat \<Rightarrow> mem" where
  "memcpy_loop m d s 0 = m"
| "memcpy_loop m d s (Suc n) = memcpy_loop (m(d := m s)) (d + 1) (s + 1) n"

fun memmove_down :: "mem \<Rightarrow> nat \<Rightarrow> nat \<Rightarrow> nat \<Rightarrow> mem" where
  "memmove_down m d s 0 = m"
| "memmove_down m d s (Suc n) = memmove_down (m(d + n := m (s + n))) d s n"

definition memmove :: "mem \<Rightarrow> nat \<Rightarrow> nat \<Rightarrow> nat \<Rightarrow> mem" where
  "memmove m d s n = (if d \<le> s then memcpy_loop m d s n else memmove_down m d s n)"

subsection \<open>Correctness of the comparisons\<close>

definition toupper_ascii :: "int \<Rightarrow> int" where
  "toupper_ascii c = (if islower_ascii c then c - 32 else c)"

text \<open>The characters up to the first null character, at most \<open>n\<close>.\<close>

fun chars_upto :: "chars \<Rightarrow> nat \<Rightarrow> nat \<Rightarrow> int list" where
  "chars_upto s i 0 = []"
| "chars_upto s i (Suc n) = (if s i = 0 then [] else s i # chars_upto s (i + 1) n)"

lemma cmp3_0 [simp]: "cmp3 a b = 0 \<longleftrightarrow> a = b"
  by (simp add: cmp3_def)

lemma strncasecmp_turn_0: "strncasecmp_turn c1 c2 = 0 \<longleftrightarrow> toupper_ascii c1 = toupper_ascii c2"
  by (auto simp: strncasecmp_turn_def toupper_ascii_def islower_ascii_def)

lemma toupper_0 [simp]: "toupper_ascii c = 0 \<longleftrightarrow> c = 0" "toupper_ascii 0 = 0"
  by (auto simp: toupper_ascii_def islower_ascii_def)

lemma strncasecmp_from_0:
  "strncasecmp_from s1 s2 i n = 0 \<longleftrightarrow>
     map toupper_ascii (chars_upto s1 i n) = map toupper_ascii (chars_upto s2 i n)"
proof (induction n arbitrary: i)
  case (Suc n)
  have "s1 i = 0 \<Longrightarrow> s2 i \<noteq> 0 \<Longrightarrow> toupper_ascii (s1 i) \<noteq> toupper_ascii (s2 i)"
    "s2 i = 0 \<Longrightarrow> s1 i \<noteq> 0 \<Longrightarrow> toupper_ascii (s1 i) \<noteq> toupper_ascii (s2 i)"
    by (metis toupper_0)+
  then show ?case using Suc by (auto simp: strncasecmp_turn_0)
qed simp

lemma strncmp_from_0:
  "strncmp_from s1 s2 i n = 0 \<longleftrightarrow> chars_upto s1 i n = chars_upto s2 i n"
  by (induction n arbitrary: i) auto

lemma strncmp_from_antisym: "strncmp_from s2 s1 i n = - strncmp_from s1 s2 i n"
  by (induction n arbitrary: i) auto

text \<open>
  C12: two names are the same for the kernel exactly when they agree up to the case of ASCII
  letters on the characters before the null character, at most 30.
\<close>

theorem pok_compare_names_equal:
  "pok_compare_names name1 name2 = 0 \<longleftrightarrow>
     map toupper_ascii (chars_upto name1 0 30) = map toupper_ascii (chars_upto name2 0 30)"
  by (simp add: pok_compare_names_def strncasecmp_def strncasecmp_from_0 MAX_NAME_LENGTH_def)

lemma pok_compare_names_sym: "pok_compare_names a b = 0 \<longleftrightarrow> pok_compare_names b a = 0"
  by (auto simp: pok_compare_names_def strncasecmp_def strncasecmp_from_0)

lemma pok_compare_names_trans:
  "pok_compare_names a b = 0 \<Longrightarrow> pok_compare_names b c = 0 \<Longrightarrow> pok_compare_names a c = 0"
  by (auto simp: pok_compare_names_def strncasecmp_def strncasecmp_from_0)

lemma strcmp_from_strncmp:
  "(\<exists>j < n. s1 (i + j) = 0) \<Longrightarrow> strcmp_from s1 s2 i = Some (strncmp_from s1 s2 i n)"
proof (induction n arbitrary: i)
  case (Suc n)
  show ?case
  proof (cases "s1 i = 0 \<or> s1 i \<noteq> s2 i")
    case True
    then show ?thesis by (subst strcmp_from.simps) auto
  next
    case False
    then obtain j where "j < Suc n" "s1 (i + j) = 0" "j \<noteq> 0" using Suc.prems by (metis add_0_right)
    then have "\<exists>j < n. s1 (i + 1 + j) = 0" by (cases j) auto
    then show ?thesis using Suc.IH [of "i + 1"] False by (subst strcmp_from.simps) simp
  qed
qed simp

lemma strlen_from_eq:
  "(\<forall>j < n. s (i + j) \<noteq> 0) \<Longrightarrow> s (i + n) = 0 \<Longrightarrow> strlen_from s i = Some (i + n)"
proof (induction n arbitrary: i)
  case 0
  then show ?case by (subst strlen_from.simps) simp
next
  case (Suc n)
  have "s i \<noteq> 0" using Suc.prems(1) by (metis add_0_right zero_less_Suc)
  moreover have "\<forall>j < n. s (i + 1 + j) \<noteq> 0" using Suc.prems(1) by auto
  ultimately show ?case using Suc.IH [of "i + 1"] Suc.prems(2) by (subst strlen_from.simps) simp
qed

lemma strnlen_from_eq: "strnlen_from s i n = i + length (chars_upto s i n)"
  by (induction n arbitrary: i) auto

subsection \<open>Correctness of the copies\<close>

lemma memcpy_Cons: "memcpy m d (b # bs) = memcpy (m(d := b)) (d + 1) bs"
  by (auto simp: memcpy_def fun_eq_iff nth_Cons')

lemma memcpy_snoc: "memcpy m d (bs @ [b]) = memcpy (m(d + length bs := b)) d bs"
  by (auto simp: memcpy_def fun_eq_iff nth_append)

lemma mem_read_Suc: "mem_read m s (Suc n) = m s # mem_read m (s + 1) n"
  unfolding mem_read_def by (simp only: upt_conv_Cons map_Suc_upt [symmetric]) simp

lemma mem_read_snoc: "mem_read m s (Suc n) = mem_read m s n @ [m (s + n)]"
  by (simp add: mem_read_def)

lemma mem_read_upd: "a < s \<or> s + n \<le> a \<Longrightarrow> mem_read (m(a := b)) s n = mem_read m s n"
  by (auto simp: mem_read_def)

lemma memcpy_loop_eq:
  "d \<le> s \<or> s + n \<le> d \<Longrightarrow> memcpy_loop m d s n = memcpy m d (mem_read m s n)"
proof (induction n arbitrary: m d s)
  case (Suc n)
  have "memcpy_loop (m(d := m s)) (d + 1) (s + 1) n
      = memcpy (m(d := m s)) (d + 1) (mem_read (m(d := m s)) (s + 1) n)"
    by (rule Suc.IH) (use Suc.prems in auto)
  also have "mem_read (m(d := m s)) (s + 1) n = mem_read m (s + 1) n"
    using Suc.prems by (intro mem_read_upd) auto
  finally show ?case by (simp add: mem_read_Suc memcpy_Cons del: fun_upd_apply)
qed (auto simp: mem_read_def memcpy_def fun_eq_iff)

lemma memmove_down_eq: "s \<le> d \<Longrightarrow> memmove_down m d s n = memcpy m d (mem_read m s n)"
proof (induction n arbitrary: m)
  case (Suc n)
  have "memmove_down (m(d + n := m (s + n))) d s n
      = memcpy (m(d + n := m (s + n))) d (mem_read (m(d + n := m (s + n))) s n)"
    by (rule Suc.IH) (rule Suc.prems)
  also have "mem_read (m(d + n := m (s + n))) s n = mem_read m s n"
    using Suc.prems by (intro mem_read_upd) auto
  finally show ?case by (simp add: mem_read_snoc memcpy_snoc del: fun_upd_apply)
qed (auto simp: mem_read_def memcpy_def fun_eq_iff)

text \<open>
  \<open>memmove\<close> leaves in the destination what the source held before the call, however the
  two areas overlap, and changes no other byte.
\<close>

theorem memmove_overlapping:
  "mem_read (memmove m d s n) d n = mem_read m s n
     \<and> (\<forall>a. a < d \<or> d + n \<le> a \<longrightarrow> memmove m d s n a = m a)"
proof -
  have eq: "memmove m d s n = memcpy m d (mem_read m s n)"
    using memcpy_loop_eq [of d s n m] memmove_down_eq [of s d m n] by (simp add: memmove_def)
  have "mem_read (memcpy m d (mem_read m s n)) d n = mem_read m s n"
    using mem_read_memcpy_same [of m d "mem_read m s n"] by simp
  then show ?thesis unfolding eq by (auto simp: memcpy_def)
qed

theorem memmove_overlapping_witness:
  "mem_read (memmove (\<lambda>a. a) 3 2 4) 3 4 = [2, 3, 4, 5] \<and> memmove (\<lambda>a. a) 3 2 4 7 = 7"
proof -
  have "mem_read (\<lambda>a. a) 2 4 = [2, 3, 4, 5]" by (simp add: mem_read_def upt_rec)
  moreover have "memmove (\<lambda>a. a) 3 2 4 7 = 7"
    using memmove_overlapping [of "\<lambda>a. a" 3 2 4] by simp
  ultimately show ?thesis using memmove_overlapping [of "\<lambda>a. a" 3 2 4] by simp
qed

lemma memset_eq: "memset m d v n = (\<lambda>a. if d \<le> a \<and> a < d + n then v else m a)"
  by (induction n arbitrary: m d) (auto simp: fun_eq_iff)

lemma memcmp_0: "memcmp m p q n = 0 \<longleftrightarrow> mem_read m p n = mem_read m q n"
proof (induction n arbitrary: p q)
  case (Suc n)
  then show ?case by (simp add: mem_read_Suc Let_def)
qed (simp add: mem_read_def)

lemma memchr_None: "memchr m p c n = None \<longleftrightarrow> (\<forall>i < n. m (p + i) \<noteq> u8 c)"
proof (induction n arbitrary: p)
  case (Suc n)
  have "(\<forall>i < Suc n. m (p + i) \<noteq> u8 c) \<longleftrightarrow> m p \<noteq> u8 c \<and> (\<forall>i < n. m (p + 1 + i) \<noteq> u8 c)"
    by (auto simp: less_Suc_eq_0_disj)
  then show ?case using Suc.IH [of "p + 1"] by auto
qed simp

lemma memchr_Some: "memchr m p c n = Some q \<Longrightarrow> p \<le> q \<and> q < p + n \<and> m q = u8 c"
  by (induction n arbitrary: p) (fastforce split: if_splits)+

end
