(* ===== verification/SamplingChannel.thy ===== *)
theory SamplingChannel
  imports Prelude
begin

section \<open>Sampling channels\<close>

text \<open>
  \<open>kernel/core/channel.c\<close>, second half: a sampling channel has three message slots, one that
  the receiver may be reading, one with the newest message and one that the sender fills.
  Sender and receiver run with global preemption enabled while they copy a message, so the
  slot of the one must never be a slot of the other. The theory defines the operations and
  shows that the slots stay apart, that the receiver gets the newest message, and that a
  message does not change while it is read.
\<close>

record pok_channel_sampling =
  sc_max_message_size :: nat
  sc_message_stride :: nat
  sc_messages :: mem
  sc_message_sizes :: "nat list"
  read_pos :: nat
  read_pos_next :: nat
  write_pos :: nat
  timestamps :: "pok_time list"

subsection \<open>Operations\<close>

definition pok_channel_sampling_init :: "mem \<Rightarrow> pok_channel_sampling \<Rightarrow> pok_channel_sampling" where
  "pok_channel_sampling_init heap ch =
     ch\<lparr>sc_message_stride := u16 (ALIGN_VAL (sc_max_message_size ch) 4), sc_messages := heap,
        read_pos_next := 0, read_pos := 0,
        sc_message_sizes := (sc_message_sizes ch)[0 := 0], write_pos := 1\<rparr>"

definition channel_sampling_message_at :: "pok_channel_sampling \<Rightarrow> nat \<Rightarrow> nat option" where
  "channel_sampling_message_at ch pos = do {
     kassert (pos \<le> 2);
     Some (pos * sc_message_stride ch)
   }"

text \<open>The result is the offset of the message in \<open>messages\<close>, its size and the time at which
  it was sent, or \<open>None\<close> for \<open>NULL\<close>.\<close>

definition pok_channel_sampling_r_get_message ::
  "pok_channel_sampling \<Rightarrow> ((nat \<times> nat \<times> pok_time) option \<times> pok_channel_sampling) option" where
  "pok_channel_sampling_r_get_message ch = do {
     let ch = ch\<lparr>read_pos := read_pos_next ch\<rparr>;
     let pos = read_pos ch;
     kassert (pos < length (sc_message_sizes ch) \<and> pos < length (timestamps ch));
     let message_size = sc_message_sizes ch ! pos;
     if message_size = 0 then Some (None, ch)
     else do {
       message \<leftarrow> channel_sampling_message_at ch pos;
       Some (Some (message, message_size, timestamps ch ! pos), ch)
     }
   }"

definition pok_channel_sampling_r_clear_message :: "pok_channel_sampling \<Rightarrow> pok_channel_sampling" where
  "pok_channel_sampling_r_clear_message ch =
     ch\<lparr>sc_message_sizes := (sc_message_sizes ch)[read_pos ch := 0]\<rparr>"

definition pok_channel_sampling_r_check_new_message ::
  "pok_channel_sampling \<Rightarrow> bool \<times> pok_channel_sampling" where
  "pok_channel_sampling_r_check_new_message ch =
     (if read_pos ch \<noteq> read_pos_next ch then (True, ch\<lparr>read_pos := read_pos_next ch\<rparr>) else (False, ch))"

definition pok_channel_sampling_s_get_message :: "pok_channel_sampling \<Rightarrow> nat option" where
  "pok_channel_sampling_s_get_message ch = channel_sampling_message_at ch (write_pos ch)"

definition pok_channel_sampling_send_message ::
  "pok_time \<Rightarrow> nat \<Rightarrow> pok_channel_sampling \<Rightarrow> pok_channel_sampling option" where
  "pok_channel_sampling_send_message now sz ch = do {
     kassert (sz \<noteq> 0);
     let next = write_pos ch;
     kassert (next < length (timestamps ch) \<and> next < length (sc_message_sizes ch));
     let ch = ch\<lparr>read_pos_next := next, timestamps := (timestamps ch)[next := now],
                 sc_message_sizes := (sc_message_sizes ch)[next := sz]\<rparr>;
     Some (ch\<lparr>write_pos := nat ((3 - int (read_pos ch) - int next) mod 256)\<rparr>)
   }"

definition pok_channel_sampling_s_clear_message :: "pok_channel_sampling \<Rightarrow> pok_channel_sampling" where
  "pok_channel_sampling_s_clear_message ch = ch\<lparr>read_pos_next := read_pos ch\<rparr>"

subsection \<open>The slots stay apart\<close>

definition sampling_wf :: "pok_channel_sampling \<Rightarrow> bool" where
  "sampling_wf ch \<longleftrightarrow> sc_max_message_size ch \<le> sc_message_stride ch
     \<and> length (sc_message_sizes ch) = 3 \<and> length (timestamps ch) = 3
     \<and> read_pos ch \<le> 2 \<and> read_pos_next ch \<le> 2 \<and> write_pos ch \<le> 2
     \<and> write_pos ch \<noteq> read_pos ch \<and> write_pos ch \<noteq> read_pos_next ch
     \<and> (\<forall>p \<in> {read_pos ch, read_pos_next ch}. sc_message_sizes ch ! p \<le> sc_max_message_size ch)"

lemma free_slot:
  assumes "r \<le> 2" "w \<le> 2" "w \<noteq> r"
  shows "nat ((3 - int r - int w) mod 256) \<le> 2"
    "nat ((3 - int r - int w) mod 256) \<noteq> r" "nat ((3 - int r - int w) mod 256) \<noteq> w"
proof -
  have "(3 - int r - int w) mod 256 = 3 - int r - int w" using assms by simp
  then have *: "nat ((3 - int r - int w) mod 256) = 3 - r - w" by simp
  show "nat ((3 - int r - int w) mod 256) \<le> 2" "nat ((3 - int r - int w) mod 256) \<noteq> r"
    "nat ((3 - int r - int w) mod 256) \<noteq> w"
    unfolding * using assms by presburger+
qed

definition sampling_slot :: "pok_channel_sampling \<Rightarrow> nat \<Rightarrow> byte list \<times> pok_time" where
  "sampling_slot ch p =
     (mem_read (sc_messages ch) (p * sc_message_stride ch) (sc_message_sizes ch ! p), timestamps ch ! p)"

text \<open>What the sender does: it fills its slot, whole or in part, sends it or clears it.\<close>

inductive sender_step :: "pok_channel_sampling \<Rightarrow> pok_channel_sampling \<Rightarrow> bool" where
  fill: "pok_channel_sampling_s_get_message ch = Some off \<Longrightarrow> length bytes \<le> sc_max_message_size ch \<Longrightarrow>
     sender_step ch (ch\<lparr>sc_messages := memcpy (sc_messages ch) off bytes\<rparr>)"
| send_filled: "sz \<le> sc_max_message_size ch \<Longrightarrow> pok_channel_sampling_send_message now sz ch = Some ch' \<Longrightarrow>
     sender_step ch ch'"
| clear_sent: "sender_step ch (pok_channel_sampling_s_clear_message ch)"

inductive receiver_step :: "pok_channel_sampling \<Rightarrow> pok_channel_sampling \<Rightarrow> bool" where
  get: "pok_channel_sampling_r_get_message ch = Some (r, ch') \<Longrightarrow> receiver_step ch ch'"
| check: "pok_channel_sampling_r_check_new_message ch = (b, ch') \<Longrightarrow> receiver_step ch ch'"
| clear_received: "receiver_step ch (pok_channel_sampling_r_clear_message ch)"

lemma slot_apart:
  assumes "p \<noteq> q" "a \<le> st" "b \<le> st"
  shows "p * st + a \<le> q * st \<or> q * st + b \<le> p * (st :: nat)"
proof (cases "p < q")
  case True
  then have "(p + 1) * st \<le> q * st" by (intro mult_le_mono1) simp
  then show ?thesis using assms(2) by simp
next
  case False
  then have "(q + 1) * st \<le> p * st" using assms(1) by (intro mult_le_mono1) simp
  then show ?thesis using assms(3) by simp
qed

lemma sampling_wf_sender: "sender_step ch ch' \<Longrightarrow> sampling_wf ch \<Longrightarrow> sampling_wf ch'"
proof (induction rule: sender_step.induct)
  case (send_filled sz ch now ch')
  have wf: "read_pos ch \<le> 2" "write_pos ch \<le> 2" "write_pos ch \<noteq> read_pos ch"
    using send_filled(3) by (simp_all add: sampling_wf_def)
  show ?case using send_filled free_slot [OF wf]
    by (auto simp: sampling_wf_def pok_channel_sampling_send_message_def Let_def bind_Some nth_list_update
        split: if_splits)
qed (auto simp: sampling_wf_def pok_channel_sampling_s_clear_message_def)

lemma sampling_wf_receiver: "receiver_step ch ch' \<Longrightarrow> sampling_wf ch \<Longrightarrow> sampling_wf ch'"
  by (induction rule: receiver_step.induct)
    (auto simp: sampling_wf_def pok_channel_sampling_r_get_message_def Let_def bind_Some
      pok_channel_sampling_r_check_new_message_def pok_channel_sampling_r_clear_message_def nth_list_update
      split: if_splits)

text \<open>No step of the sender touches the slot the receiver may be reading.\<close>

lemma sender_keeps_read_slot:
  "sender_step ch ch' \<Longrightarrow> sampling_wf ch \<Longrightarrow>
   read_pos ch' = read_pos ch \<and> sampling_slot ch' (read_pos ch) = sampling_slot ch (read_pos ch)"
proof (induction rule: sender_step.induct)
  case (fill ch off bytes)
  have off: "off = write_pos ch * sc_message_stride ch"
    using fill(1) by (simp add: pok_channel_sampling_s_get_message_def channel_sampling_message_at_def split: if_splits)
  have "read_pos ch * sc_message_stride ch + sc_message_sizes ch ! read_pos ch \<le> off
      \<or> off + length bytes \<le> read_pos ch * sc_message_stride ch"
    unfolding off by (rule slot_apart) (use fill in \<open>auto simp: sampling_wf_def\<close>)
  then show ?case by (simp add: sampling_slot_def mem_read_memcpy_disj)
next
  case (send_filled sz ch now ch')
  then have "write_pos ch \<noteq> read_pos ch" by (simp add: sampling_wf_def)
  then show ?case using send_filled(2)
    by (auto simp: pok_channel_sampling_send_message_def Let_def sampling_slot_def split: if_splits)
qed (simp add: pok_channel_sampling_s_clear_message_def sampling_slot_def)

lemma sampling_wf_init:
  assumes "sc_max_message_size ch \<le> 65532" "length (sc_message_sizes ch) = 3" "length (timestamps ch) = 3"
  shows "sampling_wf (pok_channel_sampling_init heap ch)"
proof -
  have "ALIGN_VAL (sc_max_message_size ch) 4 < 65536"
    using assms ALIGN_VAL_4_lt [of "sc_max_message_size ch"] by simp
  then have "sc_max_message_size ch \<le> u16 (ALIGN_VAL (sc_max_message_size ch) 4)"
    using ALIGN_VAL_4_ge by simp
  then show ?thesis using assms by (simp add: sampling_wf_def pok_channel_sampling_init_def)
qed

definition example_sampling :: pok_channel_sampling where
  "example_sampling = \<lparr>sc_max_message_size = 4, sc_message_stride = 4, sc_messages = (\<lambda>_. 0),
     sc_message_sizes = [0, 0, 0], read_pos = 0, read_pos_next = 0, write_pos = 1,
     timestamps = [0, 0, 0]\<rparr>"

lemma example_sampling_wf: "sampling_wf example_sampling"
  by (simp add: sampling_wf_def example_sampling_def)

subsection \<open>Properties\<close>

text \<open>
  C11: after any run of sender and receiver on an initialized channel the slot the sender fills
  is none of the receiver's two, every position is a slot, and no operation asserts.
\<close>

theorem sampling_slots_apart:
  assumes "(\<lambda>a b. sender_step a b \<or> receiver_step a b)\<^sup>*\<^sup>* ch0 ch" and "sampling_wf ch0"
  shows "write_pos ch \<noteq> read_pos ch \<and> write_pos ch \<noteq> read_pos_next ch
     \<and> {read_pos ch, read_pos_next ch, write_pos ch} \<subseteq> {0, 1, 2}
     \<and> (\<exists>off. pok_channel_sampling_s_get_message ch = Some off)
     \<and> (\<exists>r ch'. pok_channel_sampling_r_get_message ch = Some (r, ch'))
     \<and> (\<forall>sz now. 0 < sz \<longrightarrow> pok_channel_sampling_send_message now sz ch \<noteq> None)"
proof -
  have wf: "sampling_wf ch"
    using assms by (induction rule: rtranclp_induct) (auto intro: sampling_wf_sender sampling_wf_receiver)
  have "p \<le> 2 \<Longrightarrow> p \<in> {0, 1, 2}" for p :: nat by auto
  then show ?thesis using wf
    by (auto simp: sampling_wf_def pok_channel_sampling_s_get_message_def channel_sampling_message_at_def
        pok_channel_sampling_r_get_message_def pok_channel_sampling_send_message_def Let_def)
qed

theorem sampling_slots_apart_witness:
  "write_pos (pok_channel_sampling_s_clear_message example_sampling)
     \<noteq> read_pos (pok_channel_sampling_s_clear_message example_sampling)"
  using sampling_slots_apart [of example_sampling "pok_channel_sampling_s_clear_message example_sampling"]
    example_sampling_wf sender_step.clear_sent [of example_sampling]
  by (blast intro: r_into_rtranclp)

text \<open>
  The receiver gets the newest message: bytes, size and time stamp are those of the last
  transmission, whatever the channel held before.
\<close>

theorem sampling_receives_newest:
  assumes "sampling_wf ch" and "0 < length bytes" and "length bytes \<le> sc_max_message_size ch"
  shows "\<exists>off ch1 ch2. pok_channel_sampling_s_get_message ch = Some off
     \<and> pok_channel_sampling_send_message now (length bytes)
          (ch\<lparr>sc_messages := memcpy (sc_messages ch) off bytes\<rparr>) = Some ch1
     \<and> pok_channel_sampling_r_get_message ch1 = Some (Some (off, length bytes, now), ch2)
     \<and> mem_read (sc_messages ch2) off (length bytes) = bytes"
  using assms
  by (auto simp: sampling_wf_def pok_channel_sampling_s_get_message_def channel_sampling_message_at_def
      pok_channel_sampling_r_get_message_def pok_channel_sampling_send_message_def Let_def
      mem_read_memcpy_same)

theorem sampling_receives_newest_witness:
  "\<exists>ch1 ch2. pok_channel_sampling_send_message 77 2
        (example_sampling\<lparr>sc_messages := memcpy (sc_messages example_sampling) 4 [8, 9]\<rparr>) = Some ch1
     \<and> pok_channel_sampling_r_get_message ch1 = Some (Some (4, 2, 77), ch2)"
  using sampling_receives_newest [OF example_sampling_wf, of "[8, 9]" 77]
  by (auto simp: example_sampling_def pok_channel_sampling_s_get_message_def channel_sampling_message_at_def
      numeral_2_eq_2)

text \<open>
  A message the receiver has got does not change while the receiver copies it: bytes, size
  and time stamp stay in its slot during any number of steps of the sender.
\<close>

theorem sampling_message_stable:
  assumes "sampling_wf ch" and "pok_channel_sampling_r_get_message ch = Some (Some (off, sz, t), ch1)"
    and "sender_step\<^sup>*\<^sup>* ch1 ch2"
  shows "mem_read (sc_messages ch2) off sz = mem_read (sc_messages ch) off sz
     \<and> read_pos ch2 = read_pos ch1 \<and> timestamps ch2 ! read_pos ch2 = t
     \<and> sc_message_sizes ch2 ! read_pos ch2 = sz"
proof -
  have wf1: "sampling_wf ch1" using sampling_wf_receiver [OF receiver_step.get [OF assms(2)] assms(1)] .
  have g: "ch1 = ch\<lparr>read_pos := read_pos_next ch\<rparr>" "off = read_pos_next ch * sc_message_stride ch"
      "sz = sc_message_sizes ch ! read_pos_next ch" "t = timestamps ch ! read_pos_next ch"
    using assms(2) by (auto simp: pok_channel_sampling_r_get_message_def channel_sampling_message_at_def
        Let_def split: if_splits)
  have stable: "sampling_wf ch2 \<and> read_pos ch2 = read_pos ch1 \<and> sc_message_stride ch2 = sc_message_stride ch1
      \<and> sampling_slot ch2 (read_pos ch1) = sampling_slot ch1 (read_pos ch1)"
    using assms(3)
  proof (induction rule: rtranclp_induct)
    case (step y z)
    have "sc_message_stride z = sc_message_stride y"
      using step(2) by (cases rule: sender_step.cases)
        (auto simp: pok_channel_sampling_send_message_def Let_def pok_channel_sampling_s_clear_message_def
          split: if_splits)
    then show ?case using step(3) sampling_wf_sender [OF step(2)] sender_keeps_read_slot [OF step(2)] by simp
  qed (simp add: wf1)
  have size: "sc_message_sizes ch2 ! read_pos ch1 = sc_message_sizes ch1 ! read_pos ch1"
    using stable by (auto simp: sampling_slot_def dest: arg_cong [where f = length])
  have stride: "sc_message_stride ch2 = sc_message_stride ch" using stable g(1) by simp
  show ?thesis using stable size g(2-4) unfolding sampling_slot_def stride by (auto simp: g(1))
qed

theorem sampling_message_stable_witness:
  "mem_read (sc_messages (pok_channel_sampling_s_clear_message
      (example_sampling\<lparr>sc_message_sizes := [2, 0, 0]\<rparr>))) 0 2 = [0, 0]"
proof -
  let ?ch = "example_sampling\<lparr>sc_message_sizes := [2, 0, 0]\<rparr>"
  have wf: "sampling_wf ?ch" by (simp add: sampling_wf_def example_sampling_def)
  have get: "pok_channel_sampling_r_get_message ?ch = Some (Some (0, 2, 0), ?ch)"
    by (simp add: pok_channel_sampling_r_get_message_def example_sampling_def channel_sampling_message_at_def Let_def)
  show ?thesis
    using sampling_message_stable [OF wf get r_into_rtranclp [of sender_step, OF sender_step.clear_sent]]
    by (simp add: example_sampling_def mem_read_def upt_rec)
qed

end
