(* ===== verification/PartitionEvents.thy ===== *)
theory PartitionEvents
  imports Prelude
begin

section \<open>Events of a partition\<close>

text \<open>
  \<open>kernel/core/partition.c\<close>: every partition has a circular buffer of outer events. The
  global scheduler and the channels add events with global preemption disabled; the local
  scheduler of the partition takes them with only local preemption disabled, so that an
  event may be added between any two accesses of \<open>pok_partition_get_event\<close>. The last part
  gives the accesses as steps and shows that no event is lost, doubled or left without a
  notification in any interleaving.
\<close>

subsection \<open>The common part of a partition\<close>

datatype jet_partition_event_type =
    JET_PARTITION_EVENT_TYPE_TIMER
  | JET_PARTITION_EVENT_TYPE_PORT_SEND_AVAILABLE
  | JET_PARTITION_EVENT_TYPE_PORT_RECEIVE_AVAILABLE

record jet_partition_event =
  event_handler_id :: nat
  event_type :: jet_partition_event_type

text \<open>\<open>pok_partition_t\<close>, less the tables of function pointers, the name, and the fields
  of the debugger; \<open>part_sp\<close> says that the kernel stack address is not \<open>NULL\<close>; it is \<open>NULL\<close>
  for a partition that has to be (re)started.\<close>

record pok_partition =
  is_paused :: bool
  partition_events :: "jet_partition_event list"
  partition_event_max :: nat
  partition_event_begin :: nat
  partition_event_end :: nat
  timer :: pok_time
  is_event :: bool
  preempt_local_disabled :: bool
  partition_generation :: nat
  is_error_handler :: bool
  period :: nat
  duration :: nat
  partition_id :: nat
  part_sp :: bool
  start_condition :: pok_start_condition
  restarted_externally :: bool

text \<open>\<open>alloc i\<close> is what the allocated memory holds at index \<open>i\<close>.\<close>

definition pok_partition_init :: "(nat \<Rightarrow> jet_partition_event) \<Rightarrow> pok_partition \<Rightarrow> pok_partition" where
  "pok_partition_init alloc part =
     (if partition_event_max part \<noteq> 0
      then part\<lparr>partition_events := map alloc [0..<partition_event_max part + 1]\<rparr>
      else part\<lparr>partition_events := []\<rparr>)"

definition pok_partition_add_event ::
  "jet_partition_event_type \<Rightarrow> nat \<Rightarrow> pok_partition \<Rightarrow> pok_partition option" where
  "pok_partition_add_event ty hid part = do {
     let set_event = (partition_event_end part = partition_event_begin part);
     kassert (partition_event_max part \<noteq> 0);
     kassert (partition_event_end part < length (partition_events part));
     let part = part\<lparr>partition_events := (partition_events part)
        [partition_event_end part := \<lparr>event_handler_id = u16 hid, event_type = ty\<rparr>]\<rparr>;
     let part = part\<lparr>partition_event_end := u16 (partition_event_end part + 1)\<rparr>;
     let part = (if partition_event_end part > partition_event_max part
                 then part\<lparr>partition_event_end := 0\<rparr> else part);
     kassert (partition_event_end part \<noteq> partition_event_begin part);
     Some (if set_event then part\<lparr>is_event := True\<rparr> else part)
   }"

text \<open>The value of \<open>partition_event_begin\<close> after an event was taken at \<open>begin\<close>.\<close>

definition event_begin_next :: "pok_partition \<Rightarrow> nat \<Rightarrow> nat" where
  "event_begin_next part begin =
     (if begin = partition_event_max part then 0 else u16 (begin + 1))"

text \<open>\<open>Some (None, _)\<close> is the result \<open>FALSE\<close>.\<close>

definition pok_partition_get_event ::
  "pok_partition \<Rightarrow> (jet_partition_event option \<times> pok_partition) option" where
  "pok_partition_get_event part = do {
     let begin = partition_event_begin part;
     let end = partition_event_end part;
     if end = begin then Some (None, part)
     else do {
       kassert (begin < length (partition_events part));
       let event = partition_events part ! begin;
       Some (Some event, part\<lparr>partition_event_begin := event_begin_next part begin\<rparr>)
     }
   }"

definition pok_partition_set_timer :: "pok_time \<Rightarrow> pok_partition \<Rightarrow> pok_partition" where
  "pok_partition_set_timer timer_new part = part\<lparr>timer := timer_new\<rparr>"

subsection \<open>The buffer as a queue\<close>

definition ev_wf :: "pok_partition \<Rightarrow> bool" where
  "ev_wf part \<longleftrightarrow> partition_event_max part < 65536
     \<and> partition_event_begin part \<le> partition_event_max part
     \<and> partition_event_end part \<le> partition_event_max part
     \<and> (partition_event_max part \<noteq> 0 \<longrightarrow>
          length (partition_events part) = partition_event_max part + 1)"

definition ev_count :: "pok_partition \<Rightarrow> nat" where
  "ev_count part =
     (if partition_event_begin part \<le> partition_event_end part
      then partition_event_end part - partition_event_begin part
      else partition_event_end part + (partition_event_max part + 1) - partition_event_begin part)"

definition ev_index :: "pok_partition \<Rightarrow> nat \<Rightarrow> nat" where
  "ev_index part i =
     (if partition_event_begin part + i \<le> partition_event_max part
      then partition_event_begin part + i
      else partition_event_begin part + i - (partition_event_max part + 1))"

definition ev_list :: "pok_partition \<Rightarrow> jet_partition_event list" where
  "ev_list part = map (\<lambda>i. partition_events part ! ev_index part i) [0..<ev_count part]"

lemma length_ev_list [simp]: "length (ev_list part) = ev_count part"
  by (simp add: ev_list_def)

lemma ev_list_empty: "ev_wf part \<Longrightarrow>
  ev_list part = [] \<longleftrightarrow> partition_event_end part = partition_event_begin part"
  by (auto simp: ev_list_def ev_count_def ev_wf_def)

lemma ev_count_le_max: "ev_wf part \<Longrightarrow> ev_count part \<le> partition_event_max part"
  by (auto simp: ev_count_def ev_wf_def)

lemma pok_partition_init_wf:
  "partition_event_max part < 65536 \<Longrightarrow> partition_event_begin part = 0 \<Longrightarrow>
   partition_event_end part = 0 \<Longrightarrow>
   ev_wf (pok_partition_init alloc part) \<and> ev_list (pok_partition_init alloc part) = []"
  by (auto simp: pok_partition_init_def ev_wf_def ev_list_def ev_count_def)

text \<open>The effect of a successful addition, with the index arithmetic solved.\<close>

lemma pok_partition_add_event_eq:
  assumes "ev_wf part"
  shows "pok_partition_add_event ty hid part =
    (if ev_count part < partition_event_max part
     then Some (part\<lparr>partition_events := (partition_events part)
            [partition_event_end part := \<lparr>event_handler_id = u16 hid, event_type = ty\<rparr>],
          partition_event_end := (if partition_event_end part = partition_event_max part then 0
             else partition_event_end part + 1),
          is_event := is_event part \<or> partition_event_end part = partition_event_begin part\<rparr>)
     else None)"
proof -
  have le: "partition_event_end part \<le> partition_event_max part"
    and mx: "partition_event_max part < 65536" using assms by (simp_all add: ev_wf_def)
  have len: "partition_event_max part \<noteq> 0 \<Longrightarrow> partition_event_end part < length (partition_events part)"
    using assms by (auto simp: ev_wf_def)
  note defs = pok_partition_add_event_def Let_def
  consider "partition_event_max part = 0"
    | "partition_event_max part = 65535" "partition_event_end part = 65535"
    | "partition_event_max part \<noteq> 0" "partition_event_end part = partition_event_max part"
      "partition_event_max part < 65535"
    | "partition_event_max part \<noteq> 0" "partition_event_end part < partition_event_max part"
    using le mx by linarith
  then show ?thesis
  proof cases
    case 1
    then show ?thesis by (simp add: defs)
  next
    case 2
    then show ?thesis using len assms by (auto simp: defs ev_count_def ev_wf_def u16_def)
  next
    case 3
    then show ?thesis using len assms by (auto simp: defs ev_count_def ev_wf_def)
  next
    case 4
    then show ?thesis using len assms mx by (auto simp: defs ev_count_def ev_wf_def)
  qed
qed

lemma add_event_frame:
  "pok_partition_add_event ty hid part = Some part' \<Longrightarrow>
   \<exists>evs e b. part' = part\<lparr>partition_events := evs, partition_event_end := e, is_event := b\<rparr>"
  by (cases part) (auto simp: pok_partition_add_event_def Let_def bind_Some split: if_splits)

lemma add_event_generation:
  "pok_partition_add_event ty hid part = Some part' \<Longrightarrow>
   partition_generation part' = partition_generation part"
  by (drule add_event_frame) auto

lemma ev_list_add:
  assumes "ev_wf part" "pok_partition_add_event ty hid part = Some part'"
  shows "ev_wf part' \<and> ev_list part' = ev_list part @ [\<lparr>event_handler_id = u16 hid, event_type = ty\<rparr>]"
proof -
  have lt: "ev_count part < partition_event_max part"
    and part': "part' = part\<lparr>partition_events := (partition_events part)
            [partition_event_end part := \<lparr>event_handler_id = u16 hid, event_type = ty\<rparr>],
          partition_event_end := (if partition_event_end part = partition_event_max part then 0
             else partition_event_end part + 1),
          is_event := is_event part \<or> partition_event_end part = partition_event_begin part\<rparr>"
    using assms by (simp_all add: pok_partition_add_event_eq split: if_splits)
  have wf: "ev_wf part'" using assms(1) unfolding part' by (auto simp: ev_wf_def)
  have count: "ev_count part' = ev_count part + 1"
    using assms(1) lt unfolding part' by (auto simp: ev_count_def ev_wf_def split: if_splits)
  have idx: "ev_index part' i = ev_index part i" for i
    unfolding part' by (simp add: ev_index_def)
  have last: "ev_index part (ev_count part) = partition_event_end part"
    using assms(1) by (auto simp: ev_index_def ev_count_def ev_wf_def)
  have len: "partition_event_end part < length (partition_events part)"
    using assms(1) lt by (auto simp: ev_wf_def)
  have old: "partition_event_end part \<noteq> ev_index part i" if "i < ev_count part" for i
    using assms(1) that by (auto simp: ev_index_def ev_count_def ev_wf_def split: if_splits)
  have "ev_list part' = map (\<lambda>i. partition_events part' ! ev_index part i) [0..<ev_count part]
      @ [partition_events part' ! partition_event_end part]"
    unfolding ev_list_def count idx by (simp add: last)
  also have "map (\<lambda>i. partition_events part' ! ev_index part i) [0..<ev_count part] = ev_list part"
    unfolding ev_list_def using old by (auto simp: part')
  finally show ?thesis using wf len by (simp add: part')
qed

lemma event_begin_next_eq:
  "ev_wf part \<Longrightarrow> begin \<le> partition_event_max part \<Longrightarrow>
   event_begin_next part begin = (if begin = partition_event_max part then 0 else begin + 1)"
  by (simp add: event_begin_next_def ev_wf_def)

lemma ev_list_get:
  assumes "ev_wf part" "partition_event_end part \<noteq> partition_event_begin part"
  shows "partition_event_begin part < length (partition_events part)
     \<and> ev_wf (part\<lparr>partition_event_begin := event_begin_next part (partition_event_begin part)\<rparr>)
     \<and> ev_list part = partition_events part ! partition_event_begin part #
         ev_list (part\<lparr>partition_event_begin := event_begin_next part (partition_event_begin part)\<rparr>)"
proof -
  let ?p = "part\<lparr>partition_event_begin := event_begin_next part (partition_event_begin part)\<rparr>"
  have b: "partition_event_begin part \<le> partition_event_max part" using assms(1) by (simp add: ev_wf_def)
  note nx = event_begin_next_eq [OF assms(1) b]
  have ne: "partition_event_max part \<noteq> 0" using assms by (auto simp: ev_wf_def)
  have wf: "ev_wf ?p" using assms(1) by (auto simp: ev_wf_def nx)
  have count: "ev_count part = Suc (ev_count ?p)"
    using assms by (auto simp: ev_count_def ev_wf_def nx split: if_splits)
  have idx: "ev_index part (Suc i) = ev_index ?p i" if "i < ev_count ?p" for i
    using assms that by (auto simp: ev_index_def ev_wf_def nx ev_count_def split: if_splits)
  have "ev_list part = partition_events part ! ev_index part 0 #
      map (\<lambda>i. partition_events part ! ev_index part (Suc i)) [0..<ev_count ?p]"
    unfolding ev_list_def count by (simp only: map_upt_Suc)
  also have "map (\<lambda>i. partition_events part ! ev_index part (Suc i)) [0..<ev_count ?p] = ev_list ?p"
    unfolding ev_list_def by (simp add: idx)
  also have "ev_index part 0 = partition_event_begin part" using b by (simp add: ev_index_def)
  finally show ?thesis using wf b ne assms(1) by (auto simp: ev_wf_def)
qed

lemma pok_partition_get_event_empty:
  "ev_wf part \<Longrightarrow> ev_list part = [] \<Longrightarrow> pok_partition_get_event part = Some (None, part)"
  by (simp add: ev_list_empty pok_partition_get_event_def)

lemma pok_partition_get_event_first:
  assumes "ev_wf part" "ev_list part = e # es"
  shows "\<exists>part'. pok_partition_get_event part = Some (Some e, part') \<and> ev_wf part'
     \<and> ev_list part' = es \<and> partition_event_max part' = partition_event_max part"
proof -
  have "partition_event_end part \<noteq> partition_event_begin part"
    using ev_list_empty [OF assms(1)] assms(2) by auto
  from ev_list_get [OF assms(1) this] this show ?thesis
    using assms(2) by (simp add: pok_partition_get_event_def Let_def)
qed

abbreviation put_event :: "jet_partition_event \<Rightarrow> pok_partition \<Rightarrow> pok_partition option" where
  "put_event e \<equiv> pok_partition_add_event (event_type e) (event_handler_id e)"

interpretation evq: bounded_queue ev_wf ev_list partition_event_max "\<lambda>_ _. True"
    "\<lambda>e. \<lparr>event_handler_id = u16 (event_handler_id e), event_type = event_type e\<rparr>"
    put_event pok_partition_get_event
proof (standard, goal_cases)
  case (1 q e)
  then show ?case by (auto simp: pok_partition_add_event_eq)
next
  case (2 q e q')
  then show ?case
    using ev_list_add [OF 2(1,3)] by (auto simp: pok_partition_add_event_eq split: if_splits)
next
  case 3
  then show ?case by (rule pok_partition_get_event_empty)
next
  case 4
  then show ?case using pok_partition_get_event_first by simp
qed

definition example_partition :: pok_partition where
  "example_partition = \<lparr>is_paused = False, partition_events = replicate 3 \<lparr>event_handler_id = 0,
       event_type = JET_PARTITION_EVENT_TYPE_TIMER\<rparr>,
     partition_event_max = 2, partition_event_begin = 0, partition_event_end = 0, timer = 0,
     is_event = False, preempt_local_disabled = False, partition_generation = 1,
     is_error_handler = False, period = 100, duration = 50, partition_id = 0, part_sp = True,
     start_condition = POK_START_CONDITION_NORMAL_START, restarted_externally = False\<rparr>"

lemma example_partition_wf: "ev_wf example_partition" "ev_list example_partition = []"
  "partition_event_max example_partition = 2"
  by (simp_all add: ev_wf_def example_partition_def ev_list_def ev_count_def)

text \<open>
  C4: events that are added to an empty buffer, up to its configured maximum, are taken out
  again all and in the same order, and the buffer is then empty; no assertion fires, although
  the indexes wrap around and the buffer has one slot more than its maximum.
\<close>

theorem partition_events_roundtrip:
  assumes "ev_wf part" and "ev_list part = []" and "length es \<le> partition_event_max part"
    and "\<forall>e \<in> set es. event_handler_id e < 65536"
  shows "\<exists>part' part''. put_all put_event es part = Some part'
     \<and> get_all pok_partition_get_event (length es) part' = Some (es, part'')
     \<and> ev_wf part'' \<and> ev_list part'' = []"
proof -
  have "map (\<lambda>e. \<lparr>event_handler_id = u16 (event_handler_id e), event_type = event_type e\<rparr>) es = es"
    using assms(4) by (intro map_idI) simp
  then show ?thesis using evq.put_get_roundtrip [OF assms(1,2) _ assms(3)] by simp
qed

theorem partition_events_roundtrip_witness:
  "\<exists>part' part''. put_all put_event
       [\<lparr>event_handler_id = 3, event_type = JET_PARTITION_EVENT_TYPE_TIMER\<rparr>] example_partition = Some part'
     \<and> get_all pok_partition_get_event 1 part'
        = Some ([\<lparr>event_handler_id = 3, event_type = JET_PARTITION_EVENT_TYPE_TIMER\<rparr>], part'')"
  using partition_events_roundtrip [OF example_partition_wf(1,2),
      of "[\<lparr>event_handler_id = 3, event_type = JET_PARTITION_EVENT_TYPE_TIMER\<rparr>]"]
  by (auto simp: example_partition_wf(3))

subsection \<open>Taking events while others are added\<close>

text \<open>
  The local scheduler waits for \<open>is_event\<close>, resets it and then calls
  \<open>pok_partition_get_event\<close> until it returns \<open>FALSE\<close>. The states of this loop are those
  between two accesses of shared memory. \<open>added\<close> and \<open>taken\<close> record what was added
  and what was taken.
\<close>

datatype event_pc =
    Waiting                       \<comment> \<open>before \<open>flag_test_and_reset(is_event)\<close>\<close>
  | Tested                        \<comment> \<open>the flag was read as set, but is not reset yet\<close>
  | Draining                      \<comment> \<open>at the head of the loop\<close>
  | GotBegin nat                  \<comment> \<open>\<open>partition_event_begin\<close> was read\<close>
  | GotEnd nat nat                \<comment> \<open>\<open>partition_event_end\<close> was read, too\<close>
  | GotEvent nat jet_partition_event  \<comment> \<open>\<open>*event\<close> was written\<close>

record event_state =
  ev_part :: pok_partition
  ev_pc :: event_pc
  added :: "jet_partition_event list"
  taken :: "jet_partition_event list"

inductive event_step :: "event_state \<Rightarrow> event_state \<Rightarrow> bool" where
  produce: "pok_partition_add_event ty hid (ev_part s) = Some part' \<Longrightarrow>
     event_step s (s\<lparr>ev_part := part',
       added := added s @ [\<lparr>event_handler_id = u16 hid, event_type = ty\<rparr>]\<rparr>)"
| test: "ev_pc s = Waiting \<Longrightarrow> is_event (ev_part s) \<Longrightarrow> event_step s (s\<lparr>ev_pc := Tested\<rparr>)"
| reset: "ev_pc s = Tested \<Longrightarrow>
     event_step s (s\<lparr>ev_part := (ev_part s)\<lparr>is_event := False\<rparr>, ev_pc := Draining\<rparr>)"
| read_begin: "ev_pc s = Draining \<Longrightarrow>
     event_step s (s\<lparr>ev_pc := GotBegin (partition_event_begin (ev_part s))\<rparr>)"
| read_end: "ev_pc s = GotBegin b \<Longrightarrow>
     event_step s (s\<lparr>ev_pc := GotEnd b (partition_event_end (ev_part s))\<rparr>)"
| return_false: "ev_pc s = GotEnd b e \<Longrightarrow> e = b \<Longrightarrow> event_step s (s\<lparr>ev_pc := Waiting\<rparr>)"
| read_event: "ev_pc s = GotEnd b e \<Longrightarrow> e \<noteq> b \<Longrightarrow> b < length (partition_events (ev_part s)) \<Longrightarrow>
     event_step s (s\<lparr>ev_pc := GotEvent b (partition_events (ev_part s) ! b)\<rparr>)"
| write_begin: "ev_pc s = GotEvent b ev \<Longrightarrow>
     event_step s (s\<lparr>ev_part := (ev_part s)\<lparr>partition_event_begin := event_begin_next (ev_part s) b\<rparr>,
       ev_pc := Draining, taken := taken s @ [ev]\<rparr>)"

inductive_cases event_stepE: "event_step s s'"

text \<open>
  What holds in every state that can be reached: what was taken, with what the buffer holds,
  is what was added; the consumer's copies of \<open>begin\<close> and of the event are those of the
  oldest event; and a buffer that is not empty while the consumer waits is announced.
\<close>

definition event_inv :: "event_state \<Rightarrow> bool" where
  "event_inv s \<longleftrightarrow> ev_wf (ev_part s) \<and> taken s @ ev_list (ev_part s) = added s
     \<and> (case ev_pc s of
          Waiting \<Rightarrow> ev_list (ev_part s) \<noteq> [] \<longrightarrow> is_event (ev_part s)
        | Tested \<Rightarrow> True
        | Draining \<Rightarrow> True
        | GotBegin b \<Rightarrow> b = partition_event_begin (ev_part s)
        | GotEnd b e \<Rightarrow> b = partition_event_begin (ev_part s)
            \<and> (e = b \<longrightarrow> ev_list (ev_part s) \<noteq> [] \<longrightarrow> is_event (ev_part s))
            \<and> (e \<noteq> b \<longrightarrow> ev_list (ev_part s) \<noteq> [])
        | GotEvent b ev \<Rightarrow> b = partition_event_begin (ev_part s)
            \<and> (\<exists>es. ev_list (ev_part s) = ev # es))"

lemma event_inv_produce:
  assumes "event_inv s" "pok_partition_add_event ty hid (ev_part s) = Some part'"
  shows "event_inv (s\<lparr>ev_part := part',
       added := added s @ [\<lparr>event_handler_id = u16 hid, event_type = ty\<rparr>]\<rparr>)"
proof -
  have wf: "ev_wf (ev_part s)" using assms(1) by (simp add: event_inv_def)
  note add = ev_list_add [OF wf assms(2)]
  have same: "partition_event_begin part' = partition_event_begin (ev_part s)"
      "is_event part' \<longleftrightarrow> is_event (ev_part s) \<or> ev_list (ev_part s) = []"
    using assms(2) wf by (auto simp: pok_partition_add_event_eq ev_list_empty split: if_splits)
  show ?thesis using assms(1) add
    by (auto simp: event_inv_def same split: event_pc.splits)
qed

lemma event_inv_step: "event_step s s' \<Longrightarrow> event_inv s \<Longrightarrow> event_inv s'"
proof (induction rule: event_step.induct)
  case (produce ty hid s part')
  then show ?case by (intro event_inv_produce)
next
  case (reset s)
  have "ev_list (ev_part s\<lparr>is_event := False\<rparr>) = ev_list (ev_part s)"
    by (simp add: ev_list_def ev_index_def ev_count_def)
  then show ?case using reset by (simp add: event_inv_def ev_wf_def)
next
  case (read_end s b)
  then show ?case using ev_list_empty [of "ev_part s"] by (auto simp: event_inv_def)
next
  case (read_event s b e)
  then show ?case using ev_list_empty [of "ev_part s"] ev_list_get [of "ev_part s"]
    by (auto simp: event_inv_def)
next
  case (write_begin s b ev)
  then show ?case using ev_list_empty [of "ev_part s"] ev_list_get [of "ev_part s"]
    by (auto simp: event_inv_def)
qed (auto simp: event_inv_def)

lemma event_inv_reachable: "event_step\<^sup>*\<^sup>* s s' \<Longrightarrow> event_inv s \<Longrightarrow> event_inv s'"
  by (induction rule: rtranclp_induct) (auto intro: event_inv_step)

definition event_init :: "pok_partition \<Rightarrow> event_state" where
  "event_init part = \<lparr>ev_part = part, ev_pc = Waiting, added = [], taken = []\<rparr>"

lemma event_inv_init: "ev_wf part \<Longrightarrow> ev_list part = [] \<Longrightarrow> event_inv (event_init part)"
  by (simp add: event_inv_def event_init_def)

text \<open>
  C5: in every interleaving of the local scheduler's loop with additions of events, the
  events are taken in the order in which they were added, none is lost or taken twice; and
  when the loop waits for \<open>is_event\<close> although the buffer is not empty, the flag is set.
\<close>

theorem events_not_lost:
  assumes "ev_wf part" and "ev_list part = []" and "event_step\<^sup>*\<^sup>* (event_init part) s"
  shows "added s = taken s @ ev_list (ev_part s)
     \<and> (ev_pc s = Waiting \<longrightarrow> ev_list (ev_part s) \<noteq> [] \<longrightarrow> is_event (ev_part s))"
  using event_inv_reachable [OF assms(3) event_inv_init [OF assms(1,2)]]
  by (auto simp: event_inv_def)

theorem events_not_lost_witness:
  "\<exists>s. event_step\<^sup>*\<^sup>* (event_init example_partition) s \<and> added s \<noteq> [] \<and> is_event (ev_part s)"
proof -
  let ?ty = JET_PARTITION_EVENT_TYPE_TIMER
  obtain p where p: "pok_partition_add_event ?ty 0 example_partition = Some p"
      "ev_list p \<noteq> []"
    using evq.put_refused [of example_partition "\<lparr>event_handler_id = 0, event_type = ?ty\<rparr>"]
      ev_list_add [OF example_partition_wf(1), of ?ty 0] example_partition_wf
    by fastforce
  let ?s = "(event_init example_partition)\<lparr>ev_part := p,
      added := added (event_init example_partition) @ [\<lparr>event_handler_id = u16 0, event_type = ?ty\<rparr>]\<rparr>"
  have "event_step\<^sup>*\<^sup>* (event_init example_partition) ?s"
    using p(1) by (intro r_into_rtranclp event_step.produce) (simp add: event_init_def)
  then show ?thesis
    using events_not_lost [OF example_partition_wf(1,2), of ?s] p(2)
    by (intro exI [of _ ?s]) (simp add: event_init_def)
qed

text \<open>The steps of the loop from one head to the next are \<open>pok_partition_get_event\<close>.\<close>

lemma get_event_steps:
  assumes "ev_wf part" "pok_partition_get_event part = Some (r, part')"
  shows "event_step\<^sup>*\<^sup>* \<lparr>ev_part = part, ev_pc = Draining, added = a, taken = t\<rparr>
     (case r of None \<Rightarrow> \<lparr>ev_part = part', ev_pc = Waiting, added = a, taken = t\<rparr>
      | Some e \<Rightarrow> \<lparr>ev_part = part', ev_pc = Draining, added = a, taken = t @ [e]\<rparr>)"
proof -
  let ?b = "partition_event_begin part" and ?e = "partition_event_end part"
  let ?s = "\<lambda>pc. \<lparr>ev_part = part, ev_pc = pc, added = a, taken = t\<rparr>"
  have 1: "event_step (?s Draining) (?s (GotBegin ?b))"
    using event_step.read_begin [of "?s Draining"] by simp
  have 2: "event_step (?s (GotBegin ?b)) (?s (GotEnd ?b ?e))"
    using event_step.read_end [of "?s (GotBegin ?b)"] by simp
  have 12: "event_step\<^sup>*\<^sup>* (?s Draining) (?s (GotEnd ?b ?e))"
    using 1 2 by (blast intro: rtranclp.intros)
  show ?thesis
  proof (cases "?e = ?b")
    case True
    then have "r = None" "part' = part" using assms(2) by (simp_all add: pok_partition_get_event_def)
    moreover have "event_step (?s (GotEnd ?b ?e)) (?s Waiting)"
      using event_step.return_false [of "?s (GotEnd ?b ?e)"] True by simp
    ultimately show ?thesis using 12 by (simp add: rtranclp.rtrancl_into_rtrancl)
  next
    case False
    then have b: "?b < length (partition_events part)" and r: "r = Some (partition_events part ! ?b)"
      and p: "part' = part\<lparr>partition_event_begin := event_begin_next part ?b\<rparr>"
      using assms(2) by (auto simp: pok_partition_get_event_def Let_def split: if_splits)
    let ?ev = "partition_events part ! ?b"
    have 3: "event_step (?s (GotEnd ?b ?e)) (?s (GotEvent ?b ?ev))"
      using event_step.read_event [of "?s (GotEnd ?b ?e)"] False b by simp
    have 4: "event_step (?s (GotEvent ?b ?ev))
        \<lparr>ev_part = part', ev_pc = Draining, added = a, taken = t @ [?ev]\<rparr>"
      using event_step.write_begin [of "?s (GotEvent ?b ?ev)"] p by simp
    show ?thesis using 12 3 4 r by (simp add: rtranclp.rtrancl_into_rtrancl)
  qed
qed

end
