(* ===== verification/QueuingChannel.thy ===== *)
theory QueuingChannel
  imports PartitionEvents
begin

section \<open>Queuing channels\<close>

text \<open>
  \<open>kernel/core/channel.c\<close>, first half: a queuing channel between two partitions is one
  circular buffer of messages. The receiver's messages lie between \<open>recv.next_message\<close> and
  \<open>border\<close>, those the sender still has to transmit between \<open>border\<close> and
  \<open>send.next_message\<close>. Every operation runs with global preemption disabled and is one step.
  The state of an operation is the channel and the partitions, which are given by a map from
  their identifiers; a result \<open>None\<close> is an assertion that fires. The theory defines the
  operations on bytes, shows that the channel is a bounded queue, and follows both sides
  through restarts of their partitions.
\<close>

subsection \<open>State\<close>

record pok_channel_queuing_side =
  side_max_nb_message :: nat
  next_message :: nat
  side_part :: nat
  side_generation :: nat
  is_notify :: bool
  side_handler_id :: nat

datatype overflow_strategy =
  JET_CHANNEL_QUEUING_SENDER_BLOCK | JET_CHANNEL_QUEUING_RECEIVER_DISCARD

record pok_channel_queuing =
  max_message_size :: nat
  message_stride :: nat
  send :: pok_channel_queuing_side
  recv :: pok_channel_queuing_side
  max_nb_message :: nat
  messages :: mem
  message_sizes :: "nat list"
  border :: nat
  overflow :: overflow_strategy
  message_discarded :: bool

type_synonym partitions = "nat \<Rightarrow> pok_partition"

datatype channel_side = SendSide | RecvSide

fun channel_side_of :: "channel_side \<Rightarrow> pok_channel_queuing \<Rightarrow> pok_channel_queuing_side" where
  "channel_side_of SendSide ch = send ch"
| "channel_side_of RecvSide ch = recv ch"

fun upd_side ::
  "channel_side \<Rightarrow> (pok_channel_queuing_side \<Rightarrow> pok_channel_queuing_side)
     \<Rightarrow> pok_channel_queuing \<Rightarrow> pok_channel_queuing" where
  "upd_side SendSide f ch = ch\<lparr>send := f (send ch)\<rparr>"
| "upd_side RecvSide f ch = ch\<lparr>recv := f (recv ch)\<rparr>"

subsection \<open>Operations\<close>

text \<open>\<open>heap\<close> and \<open>sizes\<close> are what the allocated memory holds.\<close>

definition pok_channel_queuing_init ::
  "mem \<Rightarrow> (nat \<Rightarrow> nat) \<Rightarrow> pok_channel_queuing \<Rightarrow> pok_channel_queuing" where
  "pok_channel_queuing_init heap sizes ch =
     (let n = u16 (side_max_nb_message (recv ch) + side_max_nb_message (send ch))
      in ch\<lparr>max_nb_message := n, border := 0,
         message_stride := u16 (ALIGN_VAL (max_message_size ch) 4),
         messages := heap, message_sizes := map sizes [0..<n],
         send := (send ch)\<lparr>next_message := 0, side_generation := 0, is_notify := False\<rparr>,
         recv := (recv ch)\<lparr>next_message := 0, side_generation := 0, is_notify := False\<rparr>,
         message_discarded := False\<rparr>)"

definition channel_queuing_cyclic_add :: "pok_channel_queuing \<Rightarrow> nat \<Rightarrow> nat \<Rightarrow> nat" where
  "channel_queuing_cyclic_add ch pos index =
     (let sum = u16 (pos + index)
      in if sum \<ge> max_nb_message ch then u16 (sum - max_nb_message ch) else sum)"

definition channel_queuing_cyclic_sub :: "pok_channel_queuing \<Rightarrow> nat \<Rightarrow> nat \<Rightarrow> nat" where
  "channel_queuing_cyclic_sub ch pos_end pos_start =
     (if pos_end \<ge> pos_start then u16 (pos_end - pos_start)
      else u16 (pos_end + max_nb_message ch - pos_start))"

definition channel_queuing_message_at :: "pok_channel_queuing \<Rightarrow> nat \<Rightarrow> nat option" where
  "channel_queuing_message_at ch pos = do {
     kassert (pos < max_nb_message ch);
     Some (message_stride ch * pos)
   }"

definition channel_queuing_side_notify ::
  "channel_side \<Rightarrow> jet_partition_event_type \<Rightarrow> pok_channel_queuing \<times> partitions
     \<Rightarrow> (pok_channel_queuing \<times> partitions) option" where
  "channel_queuing_side_notify sd ty = (\<lambda>(ch, parts).
     let side = channel_side_of sd ch in
     if is_notify side then do {
       let ch = upd_side sd (\<lambda>s. s\<lparr>is_notify := False\<rparr>) ch;
       p \<leftarrow> pok_partition_add_event ty (side_handler_id side) (parts (side_part side));
       Some (ch, parts(side_part side := p))
     } else Some (ch, parts))"

definition pok_channel_queuing_side_init ::
  "channel_side \<Rightarrow> nat \<Rightarrow> partitions \<Rightarrow> pok_channel_queuing \<Rightarrow> pok_channel_queuing" where
  "pok_channel_queuing_side_init sd hid parts ch =
     upd_side sd (\<lambda>s. s\<lparr>next_message := border ch, is_notify := False,
        side_generation := partition_generation (parts (side_part s)), side_handler_id := u16 hid\<rparr>) ch"

definition pok_channel_queuing_r_n_messages :: "pok_channel_queuing \<Rightarrow> nat" where
  "pok_channel_queuing_r_n_messages ch =
     channel_queuing_cyclic_sub ch (border ch) (next_message (recv ch))"

text \<open>The result is the message's offset in \<open>messages\<close> with its size, or \<open>None\<close> for \<open>NULL\<close>.\<close>

definition pok_channel_queuing_r_get_message ::
  "bool \<Rightarrow> pok_channel_queuing \<Rightarrow> ((nat \<times> nat) option \<times> pok_channel_queuing) option" where
  "pok_channel_queuing_r_get_message subscribe ch =
     (if next_message (recv ch) \<noteq> border ch then do {
        message \<leftarrow> channel_queuing_message_at ch (next_message (recv ch));
        kassert (next_message (recv ch) < length (message_sizes ch));
        Some (Some (message, message_sizes ch ! next_message (recv ch)), ch)
      } else Some (None, if subscribe then upd_side RecvSide (\<lambda>s. s\<lparr>is_notify := True\<rparr>) ch else ch))"

text \<open>The result is the value stored in \<open>*message_discarded\<close>.\<close>

definition pok_channel_queuing_r_consume_message ::
  "pok_channel_queuing \<times> partitions \<Rightarrow> (bool \<times> pok_channel_queuing \<times> partitions) option" where
  "pok_channel_queuing_r_consume_message = (\<lambda>(ch, parts). do {
     kassert (next_message (recv ch) \<noteq> border ch);
     let ch = upd_side RecvSide (\<lambda>s. s\<lparr>next_message :=
                channel_queuing_cyclic_add ch (next_message s) 1\<rparr>) ch;
     (ch, parts) \<leftarrow>
       (if partition_generation (parts (side_part (send ch))) = side_generation (send ch)
           \<and> border ch \<noteq> next_message (send ch)
        then channel_queuing_side_notify SendSide JET_PARTITION_EVENT_TYPE_PORT_SEND_AVAILABLE
               (ch\<lparr>border := channel_queuing_cyclic_add ch (border ch) 1\<rparr>, parts)
        else Some (ch, parts));
     Some (message_discarded ch, ch\<lparr>message_discarded := False\<rparr>, parts)
   })"

definition pok_channel_queuing_s_get_message ::
  "bool \<Rightarrow> pok_channel_queuing \<Rightarrow> (nat option \<times> pok_channel_queuing) option" where
  "pok_channel_queuing_s_get_message subscribe ch =
     (let n_used = channel_queuing_cyclic_sub ch (next_message (send ch)) (border ch) in
      if n_used < side_max_nb_message (send ch) then do {
        message \<leftarrow> channel_queuing_message_at ch (next_message (send ch));
        Some (Some message, ch)
      } else Some (None, if subscribe then upd_side SendSide (\<lambda>s. s\<lparr>is_notify := True\<rparr>) ch else ch))"

definition pok_channel_queuing_s_produce_message ::
  "nat \<Rightarrow> pok_channel_queuing \<times> partitions \<Rightarrow> (pok_channel_queuing \<times> partitions) option" where
  "pok_channel_queuing_s_produce_message sz = (\<lambda>(ch, parts). do {
     kassert (channel_queuing_cyclic_sub ch (next_message (send ch)) (border ch)
                < side_max_nb_message (send ch));
     kassert (sz > 0);
     kassert (sz \<le> max_message_size ch);
     kassert (next_message (send ch) < length (message_sizes ch));
     let ch = ch\<lparr>message_sizes := (message_sizes ch)[next_message (send ch) := sz]\<rparr>;
     let ch = upd_side SendSide (\<lambda>s. s\<lparr>next_message :=
                channel_queuing_cyclic_add ch (next_message s) 1\<rparr>) ch;
     if partition_generation (parts (side_part (recv ch))) = side_generation (recv ch) then
       (let nb_message_receive = channel_queuing_cyclic_sub ch (border ch) (next_message (recv ch)) in
        if nb_message_receive < side_max_nb_message (recv ch) then
          channel_queuing_side_notify RecvSide JET_PARTITION_EVENT_TYPE_PORT_RECEIVE_AVAILABLE
            (ch\<lparr>border := next_message (send ch)\<rparr>, parts)
        else if overflow ch = JET_CHANNEL_QUEUING_RECEIVER_DISCARD then
          Some (upd_side SendSide (\<lambda>s. s\<lparr>next_message := border ch\<rparr>) ch\<lparr>message_discarded := True\<rparr>, parts)
        else Some (ch, parts))
     else Some (ch\<lparr>border := next_message (send ch)\<rparr>, parts)
   })"

definition pok_channel_queuing_s_n_messages :: "pok_channel_queuing \<Rightarrow> nat" where
  "pok_channel_queuing_s_n_messages ch =
     channel_queuing_cyclic_sub ch (next_message (send ch)) (border ch)"

subsection \<open>Whole transfers\<close>

text \<open>What the ports do with these operations: fill the slot and produce it; read the first
  message and consume it. \<open>Some None\<close> is a full, \<open>Some (None, _)\<close> an empty buffer.\<close>

definition channel_send ::
  "byte list \<Rightarrow> pok_channel_queuing \<times> partitions \<Rightarrow> (pok_channel_queuing \<times> partitions) option option" where
  "channel_send bytes = (\<lambda>(ch, parts). do {
     (m, ch) \<leftarrow> pok_channel_queuing_s_get_message False ch;
     (case m of
        None \<Rightarrow> Some None
      | Some off \<Rightarrow> map_option Some (pok_channel_queuing_s_produce_message (length bytes)
          (ch\<lparr>messages := memcpy (messages ch) off bytes\<rparr>, parts)))
   })"

definition channel_receive ::
  "pok_channel_queuing \<times> partitions
     \<Rightarrow> ((byte list \<times> bool) option \<times> pok_channel_queuing \<times> partitions) option" where
  "channel_receive = (\<lambda>(ch, parts). do {
     (m, ch) \<leftarrow> pok_channel_queuing_r_get_message False ch;
     (case m of
        None \<Rightarrow> Some (None, ch, parts)
      | Some (off, sz) \<Rightarrow> do {
          let bytes = mem_read (messages ch) off sz;
          (discarded, st) \<leftarrow> pok_channel_queuing_r_consume_message (ch, parts);
          Some (Some (bytes, discarded), st)
        })
   })"

subsection \<open>The buffer as two queues\<close>

definition cyc_count :: "nat \<Rightarrow> nat \<Rightarrow> nat \<Rightarrow> nat" where
  "cyc_count n a b = (if a \<le> b then b - a else b + n - a)"

definition cyc_pos :: "nat \<Rightarrow> nat \<Rightarrow> nat \<Rightarrow> nat" where
  "cyc_pos n a i = (if a + i < n then a + i else a + i - n)"

definition r_count :: "pok_channel_queuing \<Rightarrow> nat" where
  "r_count ch = cyc_count (max_nb_message ch) (next_message (recv ch)) (border ch)"

definition s_count :: "pok_channel_queuing \<Rightarrow> nat" where
  "s_count ch = cyc_count (max_nb_message ch) (border ch) (next_message (send ch))"

definition msg_at :: "pok_channel_queuing \<Rightarrow> nat \<Rightarrow> byte list" where
  "msg_at ch pos = mem_read (messages ch) (message_stride ch * pos) (message_sizes ch ! pos)"

definition slot :: "pok_channel_queuing \<Rightarrow> nat \<Rightarrow> nat" where
  "slot ch i = cyc_pos (max_nb_message ch) (next_message (recv ch)) i"

text \<open>The messages in the order in which they were sent: those of the receiver, then those
  still at the sender.\<close>

definition channel_msgs :: "pok_channel_queuing \<Rightarrow> byte list list" where
  "channel_msgs ch = map (\<lambda>i. msg_at ch (slot ch i)) [0..<r_count ch + s_count ch]"

definition side_live :: "channel_side \<Rightarrow> partitions \<Rightarrow> pok_channel_queuing \<Rightarrow> bool" where
  "side_live sd parts ch \<longleftrightarrow>
     partition_generation (parts (side_part (channel_side_of sd ch)))
       = side_generation (channel_side_of sd ch)"

definition slots_ok :: "pok_channel_queuing \<Rightarrow> nat \<Rightarrow> bool" where
  "slots_ok ch n \<longleftrightarrow> (\<forall>i < n. 0 < message_sizes ch ! slot ch i
     \<and> message_sizes ch ! slot ch i \<le> max_message_size ch)"

definition qc_static :: "pok_channel_queuing \<Rightarrow> bool" where
  "qc_static ch \<longleftrightarrow>
     max_nb_message ch = side_max_nb_message (recv ch) + side_max_nb_message (send ch)
     \<and> 0 < side_max_nb_message (recv ch) \<and> 0 < side_max_nb_message (send ch)
     \<and> max_nb_message ch < 65536 \<and> max_message_size ch \<le> message_stride ch
     \<and> length (message_sizes ch) = max_nb_message ch
     \<and> next_message (recv ch) < max_nb_message ch \<and> border ch < max_nb_message ch
     \<and> next_message (send ch) < max_nb_message ch"

text \<open>
  The invariant of a channel. While both sides are connected, a message waits at the sender
  only if the receiver's buffer is full, and every pending slot holds a message.
\<close>

definition qc_inv :: "partitions \<Rightarrow> pok_channel_queuing \<Rightarrow> bool" where
  "qc_inv parts ch \<longleftrightarrow> qc_static ch \<and> s_count ch \<le> side_max_nb_message (send ch)
     \<and> (overflow ch = JET_CHANNEL_QUEUING_RECEIVER_DISCARD \<longrightarrow> s_count ch = 0)
     \<and> (side_live RecvSide parts ch \<longrightarrow>
          r_count ch \<le> side_max_nb_message (recv ch) \<and> slots_ok ch (r_count ch)
        \<and> (side_live SendSide parts ch \<longrightarrow> slots_ok ch (r_count ch + s_count ch)
            \<and> (0 < s_count ch \<longrightarrow> r_count ch = side_max_nb_message (recv ch))))"

lemma cyclic_sub_eq:
  "qc_static ch \<Longrightarrow> a < max_nb_message ch \<Longrightarrow> b < max_nb_message ch \<Longrightarrow>
   channel_queuing_cyclic_sub ch b a = cyc_count (max_nb_message ch) a b"
  by (auto simp: channel_queuing_cyclic_sub_def cyc_count_def qc_static_def)

lemma cyclic_sub_counts:
  assumes "qc_static ch"
  shows "channel_queuing_cyclic_sub ch (border ch) (next_message (recv ch)) = r_count ch"
    "channel_queuing_cyclic_sub ch (next_message (send ch)) (border ch) = s_count ch"
  using assms by (simp_all add: cyclic_sub_eq r_count_def s_count_def qc_static_def)

lemma cyclic_add_one:
  assumes "qc_static ch" "pos < max_nb_message ch"
  shows "channel_queuing_cyclic_add ch pos 1 = (if pos + 1 = max_nb_message ch then 0 else pos + 1)"
proof -
  have "u16 (pos + 1) = pos + 1" using assms by (intro u16_small) (simp add: qc_static_def)
  then show ?thesis using assms(2) by (auto simp: channel_queuing_cyclic_add_def u16_def)
qed

lemma r_count_lt: "qc_static ch \<Longrightarrow> r_count ch < max_nb_message ch"
  by (auto simp: r_count_def cyc_count_def qc_static_def)

lemma s_count_lt: "qc_static ch \<Longrightarrow> s_count ch < max_nb_message ch"
  by (auto simp: s_count_def cyc_count_def qc_static_def)

lemma r_count_0: "qc_static ch \<Longrightarrow> r_count ch = 0 \<longleftrightarrow> next_message (recv ch) = border ch"
  by (auto simp: r_count_def cyc_count_def qc_static_def)

lemma s_count_0: "qc_static ch \<Longrightarrow> s_count ch = 0 \<longleftrightarrow> border ch = next_message (send ch)"
  by (auto simp: s_count_def cyc_count_def qc_static_def)

lemma slot_lt: "qc_static ch \<Longrightarrow> i < max_nb_message ch \<Longrightarrow> slot ch i < max_nb_message ch"
  by (auto simp: slot_def cyc_pos_def qc_static_def)

lemma slot_0: "qc_static ch \<Longrightarrow> slot ch 0 = next_message (recv ch)"
  by (simp add: slot_def cyc_pos_def qc_static_def)

lemma slot_send:
  "qc_static ch \<Longrightarrow> r_count ch + s_count ch < max_nb_message ch \<Longrightarrow>
   slot ch (r_count ch + s_count ch) = next_message (send ch)"
  by (auto simp: slot_def cyc_pos_def r_count_def s_count_def cyc_count_def qc_static_def
      split: if_splits)

lemma slot_inj:
  "qc_static ch \<Longrightarrow> i < max_nb_message ch \<Longrightarrow> j < max_nb_message ch \<Longrightarrow>
   slot ch i = slot ch j \<longleftrightarrow> i = j"
  by (auto simp: slot_def cyc_pos_def qc_static_def split: if_splits)

lemma length_channel_msgs [simp]: "length (channel_msgs ch) = r_count ch + s_count ch"
  by (simp add: channel_msgs_def)

lemma slots_ok_le: "slots_ok ch n \<Longrightarrow> m \<le> n \<Longrightarrow> slots_ok ch m"
  by (auto simp: slots_ok_def)

lemma slot_disjoint:
  fixes st p q a b :: nat
  assumes "p \<noteq> q" "a \<le> st" "b \<le> st"
  shows "st * p + a \<le> st * q \<or> st * q + b \<le> st * p"
proof (cases "p < q")
  case True
  then have "st * (p + 1) \<le> st * q" by (intro mult_le_mono2) simp
  then show ?thesis using assms(2) by simp
next
  case False
  then have "st * (q + 1) \<le> st * p" using assms(1) by (intro mult_le_mono2) simp
  then show ?thesis using assms(3) by simp
qed

text \<open>Filling the sender's free slot changes no pending message.\<close>

abbreviation write_slot :: "byte list \<Rightarrow> pok_channel_queuing \<Rightarrow> pok_channel_queuing" where
  "write_slot bytes ch \<equiv> ch\<lparr>messages := memcpy (messages ch) (message_stride ch * next_message (send ch)) bytes,
     message_sizes := (message_sizes ch)[next_message (send ch) := length bytes]\<rparr>"

lemma msg_at_write_same:
  "qc_static ch \<Longrightarrow> msg_at (write_slot bytes ch) (next_message (send ch)) = bytes"
  by (simp add: msg_at_def qc_static_def mem_read_memcpy_same)

lemma msg_at_write_other:
  "qc_static ch \<Longrightarrow> pos \<noteq> next_message (send ch) \<Longrightarrow> length bytes \<le> max_message_size ch \<Longrightarrow>
   message_sizes ch ! pos \<le> max_message_size ch \<Longrightarrow> msg_at (write_slot bytes ch) pos = msg_at ch pos"
  using slot_disjoint [of pos "next_message (send ch)" "message_sizes ch ! pos" "message_stride ch"
      "length bytes"]
  by (simp add: msg_at_def qc_static_def mem_read_memcpy_disj)

lemma channel_msgs_write:
  assumes "qc_static ch" "slots_ok ch (r_count ch + s_count ch)"
    "r_count ch + s_count ch < max_nb_message ch" "length bytes \<le> max_message_size ch"
  shows "map (\<lambda>i. msg_at (write_slot bytes ch) (slot ch i)) [0..<r_count ch + s_count ch + 1]
     = channel_msgs ch @ [bytes]"
proof -
  let ?n = "r_count ch + s_count ch"
  have ne: "slot ch i \<noteq> next_message (send ch)" if "i < ?n" for i
    using slot_inj [OF assms(1), of i ?n] slot_send [OF assms(1,3)] assms(3) that by simp
  have "map (\<lambda>i. msg_at (write_slot bytes ch) (slot ch i)) [0..<?n] = channel_msgs ch"
    unfolding channel_msgs_def using ne assms
    by (intro map_cong refl msg_at_write_other) (auto simp: slots_ok_def)
  then show ?thesis using slot_send [OF assms(1,3)] msg_at_write_same [OF assms(1)] by simp
qed

subsection \<open>Notifications\<close>

lemma side_notify_Some:
  assumes "channel_queuing_side_notify sd ty (ch, parts) = Some (ch', parts')"
  shows "ch' = upd_side sd (\<lambda>s. s\<lparr>is_notify := False\<rparr>) ch"
    and "partition_generation (parts' p) = partition_generation (parts p)"
proof -
  have "ch' = upd_side sd (\<lambda>s. s\<lparr>is_notify := False\<rparr>) ch
      \<and> partition_generation (parts' p) = partition_generation (parts p)"
  proof (cases "is_notify (channel_side_of sd ch)")
    case True
    then show ?thesis using assms
      by (auto simp: channel_queuing_side_notify_def Let_def bind_Some add_event_generation)
  next
    case False
    then have "ch' = ch" "parts' = parts" "ch = upd_side sd (\<lambda>s. s\<lparr>is_notify := False\<rparr>) ch"
      using assms by (cases sd; simp add: channel_queuing_side_notify_def)+
    then show ?thesis by simp
  qed
  then show "ch' = upd_side sd (\<lambda>s. s\<lparr>is_notify := False\<rparr>) ch"
    "partition_generation (parts' p) = partition_generation (parts p)" by auto
qed

definition notify_room :: "channel_side \<Rightarrow> partitions \<Rightarrow> pok_channel_queuing \<Rightarrow> bool" where
  "notify_room sd parts ch \<longleftrightarrow> (is_notify (channel_side_of sd ch) \<longrightarrow>
     (let p = parts (side_part (channel_side_of sd ch))
      in ev_wf p \<and> ev_count p < partition_event_max p))"

lemma side_notify_total:
  "notify_room sd parts ch \<Longrightarrow> \<exists>st'. channel_queuing_side_notify sd ty (ch, parts) = Some st'"
  by (auto simp: channel_queuing_side_notify_def notify_room_def Let_def pok_partition_add_event_eq)

subsection \<open>Sending\<close>

definition adv_send :: "pok_channel_queuing \<Rightarrow> pok_channel_queuing" where
  "adv_send ch = upd_side SendSide
     (\<lambda>s. s\<lparr>next_message := (if next_message s + 1 = max_nb_message ch then 0 else next_message s + 1)\<rparr>) ch"

lemma channel_send_eq:
  assumes "qc_static ch" "0 < length bytes" "length bytes \<le> max_message_size ch"
  shows "channel_send bytes (ch, parts) =
    (if s_count ch < side_max_nb_message (send ch) then
       (let ch1 = adv_send (write_slot bytes ch) in map_option Some
         (if side_live RecvSide parts ch then
            if r_count ch < side_max_nb_message (recv ch) then
              channel_queuing_side_notify RecvSide JET_PARTITION_EVENT_TYPE_PORT_RECEIVE_AVAILABLE
                (ch1\<lparr>border := next_message (send ch1)\<rparr>, parts)
            else if overflow ch = JET_CHANNEL_QUEUING_RECEIVER_DISCARD then
              Some (upd_side SendSide (\<lambda>s. s\<lparr>next_message := border ch\<rparr>) ch1
                \<lparr>message_discarded := True\<rparr>, parts)
            else Some (ch1, parts)
          else Some (ch1\<lparr>border := next_message (send ch1)\<rparr>, parts)))
     else Some None)"
proof -
  note sub = cyclic_sub_counts [OF assms(1)]
  have sub2: "channel_queuing_cyclic_sub (ch\<lparr>messages := m, message_sizes := l, send := sd\<rparr>) = channel_queuing_cyclic_sub ch"
    "channel_queuing_cyclic_sub (ch\<lparr>messages := m\<rparr>) = channel_queuing_cyclic_sub ch" for m l sd
    by (simp_all add: channel_queuing_cyclic_sub_def fun_eq_iff)
  have add: "channel_queuing_cyclic_add (ch\<lparr>messages := m, message_sizes := l\<rparr>) (next_message (send ch)) (Suc 0)
      = (if next_message (send ch) + 1 = max_nb_message ch then 0 else next_message (send ch) + 1)" for m l
    using cyclic_add_one [OF assms(1), of "next_message (send ch)"] assms(1)
    by (simp add: channel_queuing_cyclic_add_def qc_static_def)
  have sn: "next_message (send ch) < max_nb_message ch" "next_message (send ch) < length (message_sizes ch)"
    using assms(1) by (simp_all add: qc_static_def)
  show ?thesis
    using assms(2,3) sn
    by (auto simp: channel_send_def pok_channel_queuing_s_get_message_def
        pok_channel_queuing_s_produce_message_def Let_def sub sub2 add channel_queuing_message_at_def
        adv_send_def side_live_def)
qed

lemma transmit_counts:
  assumes "qc_static ch" "s_count ch = 0" "r_count ch < side_max_nb_message (recv ch)"
    "ch' = (let ch1 = adv_send (write_slot bytes ch) in ch1\<lparr>border := next_message (send ch1)\<rparr>)"
  shows "qc_static ch'" "r_count ch' = r_count ch + 1" "s_count ch' = 0" "slot ch' = slot ch"
proof -
  have b: "border ch = next_message (send ch)" using s_count_0 [OF assms(1)] assms(2) by simp
  show "qc_static ch'" "s_count ch' = 0" "slot ch' = slot ch"
    using assms(1) unfolding assms(4)
    by (auto simp: qc_static_def adv_send_def s_count_def cyc_count_def slot_def Let_def)
  show "r_count ch' = r_count ch + 1"
    using assms(1,3) b unfolding assms(4)
    by (auto simp: qc_static_def adv_send_def r_count_def cyc_count_def Let_def split: if_splits)
qed

lemma backlog_counts:
  assumes "qc_static ch" "s_count ch < side_max_nb_message (send ch)"
    "ch' = adv_send (write_slot bytes ch)"
  shows "qc_static ch'" "r_count ch' = r_count ch" "s_count ch' = s_count ch + 1" "slot ch' = slot ch"
proof -
  show "qc_static ch'" "r_count ch' = r_count ch" "slot ch' = slot ch"
    using assms(1) unfolding assms(3)
    by (auto simp: qc_static_def adv_send_def r_count_def slot_def)
  show "s_count ch' = s_count ch + 1"
    using assms(1,2) unfolding assms(3)
    by (auto simp: qc_static_def adv_send_def s_count_def cyc_count_def split: if_splits)
qed

lemma slots_ok_write:
  assumes "qc_static ch" "slots_ok ch n" "n = r_count ch + s_count ch" "n < max_nb_message ch"
    "0 < length bytes" "length bytes \<le> max_message_size ch"
    "slot ch' = slot ch" "message_sizes ch' = (message_sizes ch)[next_message (send ch) := length bytes]"
    "max_message_size ch' = max_message_size ch"
  shows "slots_ok ch' (n + 1)"
proof -
  have "slot ch i \<noteq> next_message (send ch)" if "i < n" for i
    using slot_inj [OF assms(1), of i n] slot_send [OF assms(1)] assms(3,4) that by simp
  moreover have "slot ch n = next_message (send ch)" using slot_send [OF assms(1)] assms(3,4) by simp
  moreover have "next_message (send ch) < length (message_sizes ch)" using assms(1) by (simp add: qc_static_def)
  ultimately show ?thesis using assms(2,5,6)
    by (auto simp: slots_ok_def assms(7-9) less_Suc_eq nth_list_update)
qed

text \<open>The part of the state the counts and the messages depend on is not changed by a
  notification.\<close>

lemma notify_channel_simps [simp]:
  "r_count (upd_side sd (\<lambda>s. s\<lparr>is_notify := b\<rparr>) ch) = r_count ch"
  "s_count (upd_side sd (\<lambda>s. s\<lparr>is_notify := b\<rparr>) ch) = s_count ch"
  "channel_msgs (upd_side sd (\<lambda>s. s\<lparr>is_notify := b\<rparr>) ch) = channel_msgs ch"
  "qc_static (upd_side sd (\<lambda>s. s\<lparr>is_notify := b\<rparr>) ch) = qc_static ch"
  "slots_ok (upd_side sd (\<lambda>s. s\<lparr>is_notify := b\<rparr>) ch) = slots_ok ch"
  by (cases sd; simp add: r_count_def s_count_def channel_msgs_def msg_at_def [abs_def] slot_def
        qc_static_def slots_ok_def fun_eq_iff)+

lemma side_live_notify [simp]:
  "side_live sd' parts (upd_side sd (\<lambda>s. s\<lparr>is_notify := b\<rparr>) ch) = side_live sd' parts ch"
  by (cases sd; cases sd') (simp_all add: side_live_def)

lemma side_live_parts:
  "(\<And>p. partition_generation (parts' p) = partition_generation (parts p)) \<Longrightarrow>
   side_live sd parts' ch = side_live sd parts ch"
  by (simp add: side_live_def)

lemma qc_inv_notify [simp]:
  "qc_inv parts (upd_side sd (\<lambda>s. s\<lparr>is_notify := b\<rparr>) ch) = qc_inv parts ch"
  by (simp add: qc_inv_def) (cases sd; simp)

lemma qc_inv_parts:
  "(\<And>p. partition_generation (parts' p) = partition_generation (parts p)) \<Longrightarrow>
   qc_inv parts' ch = qc_inv parts ch"
  by (simp add: qc_inv_def side_live_parts [of parts' parts])

lemma channel_msgs_cong:
  "r_count ch' + s_count ch' = n \<Longrightarrow> slot ch' = slot ch \<Longrightarrow> (\<And>i. i < n \<Longrightarrow> msg_at ch' (slot ch i) = f i) \<Longrightarrow>
   channel_msgs ch' = map f [0..<n]"
  by (simp add: channel_msgs_def)

text \<open>The state after a message was stored, before a notification.\<close>

definition store_result ::
  "byte list \<Rightarrow> partitions \<Rightarrow> pok_channel_queuing \<Rightarrow> pok_channel_queuing" where
  "store_result bytes parts ch =
     (let ch1 = adv_send (write_slot bytes ch) in
      if side_live RecvSide parts ch then
        if r_count ch < side_max_nb_message (recv ch) then ch1\<lparr>border := next_message (send ch1)\<rparr>
        else if overflow ch = JET_CHANNEL_QUEUING_RECEIVER_DISCARD
        then upd_side SendSide (\<lambda>s. s\<lparr>next_message := border ch\<rparr>) ch1\<lparr>message_discarded := True\<rparr>
        else ch1
      else ch1\<lparr>border := next_message (send ch1)\<rparr>)"

lemma channel_send_result:
  assumes "qc_static ch" "0 < length bytes" "length bytes \<le> max_message_size ch"
  shows "channel_send bytes (ch, parts) =
    (if s_count ch < side_max_nb_message (send ch) then map_option Some
       (if side_live RecvSide parts ch \<and> r_count ch < side_max_nb_message (recv ch)
        then channel_queuing_side_notify RecvSide JET_PARTITION_EVENT_TYPE_PORT_RECEIVE_AVAILABLE
               (store_result bytes parts ch, parts)
        else Some (store_result bytes parts ch, parts))
     else Some None)"
  unfolding channel_send_eq [OF assms] store_result_def by (simp add: Let_def)

lemma store_frame:
  "side_max_nb_message (recv (store_result bytes parts ch)) = side_max_nb_message (recv ch)"
  "side_max_nb_message (send (store_result bytes parts ch)) = side_max_nb_message (send ch)"
  "overflow (store_result bytes parts ch) = overflow ch"
  "max_message_size (store_result bytes parts ch) = max_message_size ch"
  "side_live sd parts' (store_result bytes parts ch) = side_live sd parts' ch"
  "is_notify (channel_side_of sd (store_result bytes parts ch)) = is_notify (channel_side_of sd ch)"
  "side_part (channel_side_of sd (store_result bytes parts ch)) = side_part (channel_side_of sd ch)"
  "side_generation (channel_side_of sd (store_result bytes parts ch)) = side_generation (channel_side_of sd ch)"
  by (cases sd; simp add: store_result_def adv_send_def Let_def side_live_def)+

lemma store_static: "qc_static ch \<Longrightarrow> qc_static (store_result bytes parts ch)"
  by (auto simp: store_result_def adv_send_def Let_def qc_static_def)

lemma store_transmit:
  assumes "qc_static ch" "s_count ch = 0" "side_live RecvSide parts ch"
    "r_count ch < side_max_nb_message (recv ch)" "slots_ok ch (r_count ch)"
    "0 < length bytes" "length bytes \<le> max_message_size ch" "ch' = store_result bytes parts ch"
  shows "r_count ch' = r_count ch + 1 \<and> s_count ch' = 0 \<and> slots_ok ch' (r_count ch + 1)
     \<and> channel_msgs ch' = channel_msgs ch @ [bytes]"
proof -
  let ?ch1 = "adv_send (write_slot bytes ch)"
  have ch': "ch' = (let ch1 = ?ch1 in ch1\<lparr>border := next_message (send ch1)\<rparr>)"
    using assms by (simp add: store_result_def)
  note counts = transmit_counts [OF assms(1,2,4) ch']
  have lt: "r_count ch + s_count ch < max_nb_message ch" using r_count_lt [OF assms(1)] assms(2) by simp
  have flds: "message_sizes ch' = (message_sizes ch)[next_message (send ch) := length bytes]"
      "max_message_size ch' = max_message_size ch"
      "\<And>pos. msg_at ch' pos = msg_at (write_slot bytes ch) pos"
    unfolding ch' by (simp_all add: adv_send_def Let_def msg_at_def)
  have "slots_ok ch' (r_count ch + 1)"
    using slots_ok_write [OF assms(1,5) _ _ assms(6,7) counts(4) flds(1,2)] assms(2) lt by simp
  moreover have "channel_msgs ch' = channel_msgs ch @ [bytes]"
    using channel_msgs_write [OF assms(1) _ lt assms(7)] assms(2,5) counts(2-4)
    by (simp add: channel_msgs_def flds(3))
  ultimately show ?thesis using counts by simp
qed

lemma store_backlog:
  assumes "qc_static ch" "s_count ch < side_max_nb_message (send ch)" "side_live RecvSide parts ch"
    "r_count ch = side_max_nb_message (recv ch)" "overflow ch = JET_CHANNEL_QUEUING_SENDER_BLOCK"
    "0 < length bytes" "length bytes \<le> max_message_size ch" "ch' = store_result bytes parts ch"
  shows "r_count ch' = r_count ch \<and> s_count ch' = s_count ch + 1
     \<and> (slots_ok ch (r_count ch + s_count ch) \<longrightarrow> slots_ok ch' (r_count ch + s_count ch + 1)
        \<and> channel_msgs ch' = channel_msgs ch @ [bytes])"
proof -
  let ?ch1 = "adv_send (write_slot bytes ch)"
  have ch': "ch' = ?ch1" using assms by (simp add: store_result_def Let_def)
  note counts = backlog_counts [OF assms(1,2) ch']
  have lt: "r_count ch + s_count ch < max_nb_message ch"
    using assms(1,2,4) by (simp add: qc_static_def)
  have flds: "message_sizes ch' = (message_sizes ch)[next_message (send ch) := length bytes]"
      "max_message_size ch' = max_message_size ch"
      "\<And>pos. msg_at ch' pos = msg_at (write_slot bytes ch) pos"
    unfolding ch' by (simp_all add: adv_send_def msg_at_def)
  show ?thesis
    using slots_ok_write [OF assms(1) _ refl lt assms(6,7) counts(4) flds(1,2)]
      channel_msgs_write [OF assms(1) _ lt assms(7)] counts
    by (simp add: channel_msgs_def flds(3))
qed

lemma store_discard:
  assumes "qc_static ch" "s_count ch = 0" "side_live RecvSide parts ch"
    "r_count ch = side_max_nb_message (recv ch)" "overflow ch = JET_CHANNEL_QUEUING_RECEIVER_DISCARD"
    "slots_ok ch (r_count ch)" "length bytes \<le> max_message_size ch" "ch' = store_result bytes parts ch"
  shows "r_count ch' = r_count ch \<and> s_count ch' = 0 \<and> slots_ok ch' (r_count ch)
     \<and> channel_msgs ch' = channel_msgs ch \<and> message_discarded ch'"
proof -
  have ch': "ch' = upd_side SendSide (\<lambda>s. s\<lparr>next_message := border ch\<rparr>)
      (adv_send (write_slot bytes ch))\<lparr>message_discarded := True\<rparr>"
    using assms by (simp add: store_result_def Let_def)
  have rc: "r_count ch' = r_count ch" "slot ch' = slot ch" "message_discarded ch'"
    unfolding ch' by (simp_all add: adv_send_def r_count_def slot_def fun_eq_iff)
  have sc: "s_count ch' = 0" unfolding ch' by (simp add: adv_send_def s_count_def cyc_count_def)
  have lt: "r_count ch < max_nb_message ch" by (rule r_count_lt [OF assms(1)])
  have ne: "slot ch i \<noteq> next_message (send ch)" if "i < r_count ch" for i
    using slot_inj [OF assms(1), of i "r_count ch"] slot_send [OF assms(1)] assms(2) lt that by simp
  have ms: "\<And>pos. msg_at ch' pos = msg_at (write_slot bytes ch) pos"
      "message_sizes ch' = (message_sizes ch)[next_message (send ch) := length bytes]"
      "max_message_size ch' = max_message_size ch"
    unfolding ch' by (simp_all add: adv_send_def msg_at_def)
  have same: "msg_at ch' (slot ch i) = msg_at ch (slot ch i)" if "i < r_count ch" for i
    unfolding ms(1) by (rule msg_at_write_other [OF assms(1) ne [OF that] assms(7)])
      (use assms(6) that in \<open>simp add: slots_ok_def\<close>)
  have "channel_msgs ch' = channel_msgs ch"
    using same by (simp add: channel_msgs_def rc sc assms(2))
  moreover have "slots_ok ch' (r_count ch)"
    using assms(6) by (simp add: slots_ok_def rc ms ne [symmetric])
  ultimately show ?thesis using rc sc by simp
qed

lemma store_dead:
  "\<not> side_live RecvSide parts ch \<Longrightarrow> s_count (store_result bytes parts ch) = 0"
  by (simp add: store_result_def adv_send_def Let_def s_count_def cyc_count_def)

lemma qc_inv_store:
  assumes inv: "qc_inv parts ch" and live: "side_live SendSide parts ch"
    and room: "s_count ch < side_max_nb_message (send ch)"
    and b: "0 < length bytes" "length bytes \<le> max_message_size ch"
  shows "qc_inv parts (store_result bytes parts ch)"
proof -
  let ?ch = "store_result bytes parts ch"
  have st: "qc_static ch" using inv by (simp add: qc_inv_def)
  note st' = store_static [OF st, of bytes parts]
  consider (dead) "\<not> side_live RecvSide parts ch"
    | (transmit) "side_live RecvSide parts ch" "r_count ch < side_max_nb_message (recv ch)"
    | (full) "side_live RecvSide parts ch" "r_count ch = side_max_nb_message (recv ch)"
    using inv by (auto simp: qc_inv_def le_less)
  then show ?thesis
  proof cases
    case dead
    then show ?thesis using store_dead [OF dead] st' by (simp add: qc_inv_def store_frame)
  next
    case transmit
    have s0: "s_count ch = 0" using inv live transmit by (auto simp: qc_inv_def)
    have ok: "slots_ok ch (r_count ch)" using inv transmit by (auto simp: qc_inv_def)
    from store_transmit [OF st s0 transmit ok b refl] st' transmit show ?thesis
      by (auto simp: qc_inv_def store_frame)
  next
    case full
    have ok: "slots_ok ch (r_count ch)" "slots_ok ch (r_count ch + s_count ch)"
      using inv full live by (auto simp: qc_inv_def)
    show ?thesis
    proof (cases "overflow ch")
      case JET_CHANNEL_QUEUING_SENDER_BLOCK
      from store_backlog [OF st room full this b refl] st' full room ok this show ?thesis
        by (auto simp: qc_inv_def store_frame intro: slots_ok_le)
    next
      case JET_CHANNEL_QUEUING_RECEIVER_DISCARD
      then have "s_count ch = 0" using inv by (simp add: qc_inv_def)
      from store_discard [OF st this full JET_CHANNEL_QUEUING_RECEIVER_DISCARD ok(1) b(2) refl] st' full
      show ?thesis by (auto simp: qc_inv_def store_frame)
    qed
  qed
qed

lemma notify_room_store:
  "notify_room sd parts (store_result bytes parts ch) = notify_room sd parts ch"
  by (simp add: notify_room_def store_frame)

text \<open>Sending on a channel that is not full always succeeds and keeps the invariant.\<close>

lemma channel_send_ok:
  assumes "qc_inv parts ch" "side_live SendSide parts ch" "notify_room RecvSide parts ch"
    "0 < length bytes" "length bytes \<le> max_message_size ch"
    "s_count ch < side_max_nb_message (send ch)"
  shows "\<exists>ch' parts'. channel_send bytes (ch, parts) = Some (Some (ch', parts'))
     \<and> (ch' = store_result bytes parts ch
        \<or> ch' = upd_side RecvSide (\<lambda>s. s\<lparr>is_notify := False\<rparr>) (store_result bytes parts ch))
     \<and> (\<forall>p. partition_generation (parts' p) = partition_generation (parts p)) \<and> qc_inv parts' ch'"
proof -
  have st: "qc_static ch" using assms(1) by (simp add: qc_inv_def)
  note inv = qc_inv_store [OF assms(1,2,6,4,5)]
  note eq = channel_send_result [OF st assms(4,5), of parts]
  show ?thesis
  proof (cases "side_live RecvSide parts ch \<and> r_count ch < side_max_nb_message (recv ch)")
    case True
    obtain ch' parts' where n: "channel_queuing_side_notify RecvSide
        JET_PARTITION_EVENT_TYPE_PORT_RECEIVE_AVAILABLE (store_result bytes parts ch, parts)
        = Some (ch', parts')"
      using side_notify_total assms(3) by (metis notify_room_store surj_pair)
    note n' = side_notify_Some [OF n]
    have "qc_inv parts' ch'"
      using inv n'(2) qc_inv_parts [of parts' parts] unfolding n'(1) qc_inv_notify by blast
    then show ?thesis using eq True assms(6) n n' by simp
  next
    case False
    then show ?thesis using eq assms(6) inv by auto
  qed
qed

lemma channel_send_full:
  assumes "qc_inv parts ch" "0 < length bytes" "length bytes \<le> max_message_size ch"
    "s_count ch = side_max_nb_message (send ch)"
  shows "channel_send bytes (ch, parts) = Some None"
  using channel_send_result [OF _ assms(2,3)] assms(1,4) by (simp add: qc_inv_def)

subsection \<open>Receiving\<close>

text \<open>The state after the first message was consumed, before a notification.\<close>

definition consume_result ::
  "partitions \<Rightarrow> pok_channel_queuing \<Rightarrow> pok_channel_queuing" where
  "consume_result parts ch =
     (let next = (\<lambda>p. if p + 1 = max_nb_message ch then 0 else p + 1);
          ch1 = upd_side RecvSide (\<lambda>s. s\<lparr>next_message := next (next_message s)\<rparr>) ch
      in if side_live SendSide parts ch \<and> border ch \<noteq> next_message (send ch)
         then ch1\<lparr>border := next (border ch)\<rparr> else ch1)"

lemma consume_frame:
  "side_max_nb_message (recv (consume_result parts ch)) = side_max_nb_message (recv ch)"
  "side_max_nb_message (send (consume_result parts ch)) = side_max_nb_message (send ch)"
  "overflow (consume_result parts ch) = overflow ch"
  "max_message_size (consume_result parts ch) = max_message_size ch"
  "message_sizes (consume_result parts ch) = message_sizes ch"
  "message_discarded (consume_result parts ch) = message_discarded ch"
  "msg_at (consume_result parts ch) = msg_at ch"
  "side_live sd parts' (consume_result parts ch) = side_live sd parts' ch"
  "is_notify (channel_side_of sd (consume_result parts ch)) = is_notify (channel_side_of sd ch)"
  "side_part (channel_side_of sd (consume_result parts ch)) = side_part (channel_side_of sd ch)"
  "side_generation (channel_side_of sd (consume_result parts ch)) = side_generation (channel_side_of sd ch)"
  by (cases sd; simp add: consume_result_def Let_def side_live_def msg_at_def fun_eq_iff)+

lemma consume_static: "qc_static ch \<Longrightarrow> qc_static (consume_result parts ch)"
  by (auto simp: consume_result_def Let_def qc_static_def)

lemma consume_counts:
  assumes "qc_static ch" "0 < r_count ch" "s_count ch < max_nb_message ch"
  shows "r_count (consume_result parts ch) =
       (if side_live SendSide parts ch \<and> 0 < s_count ch then r_count ch else r_count ch - 1)"
    and "s_count (consume_result parts ch) =
       (if side_live SendSide parts ch then s_count ch - 1 else s_count ch)"
    and "i + 1 < max_nb_message ch \<Longrightarrow> slot (consume_result parts ch) i = slot ch (i + 1)"
proof -
  show "s_count (consume_result parts ch) =
       (if side_live SendSide parts ch then s_count ch - 1 else s_count ch)"
    using assms unfolding consume_result_def
    by (auto simp: qc_static_def s_count_def cyc_count_def Let_def split: if_splits)
  show "i + 1 < max_nb_message ch \<Longrightarrow> slot (consume_result parts ch) i = slot ch (i + 1)"
    using assms(1) unfolding consume_result_def
    by (auto simp: qc_static_def slot_def cyc_pos_def Let_def split: if_splits)
  show "r_count (consume_result parts ch) =
       (if side_live SendSide parts ch \<and> 0 < s_count ch then r_count ch else r_count ch - 1)"
  proof (cases "side_live SendSide parts ch \<and> border ch \<noteq> next_message (send ch)")
    case True
    then have "0 < s_count ch" using s_count_0 [OF assms(1)] by simp
    then show ?thesis using True assms(1,2) unfolding consume_result_def
      by (auto simp: qc_static_def r_count_def cyc_count_def Let_def split: if_splits)
  next
    case False
    then have "\<not> (side_live SendSide parts ch \<and> 0 < s_count ch)" using s_count_0 [OF assms(1)] by auto
    then show ?thesis using False assms(1,2) unfolding consume_result_def
      by (auto simp: qc_static_def r_count_def cyc_count_def Let_def split: if_splits)
  qed
qed

lemma channel_receive_empty:
  "qc_static ch \<Longrightarrow> r_count ch = 0 \<Longrightarrow> channel_receive (ch, parts) = Some (None, ch, parts)"
  by (simp add: channel_receive_def pok_channel_queuing_r_get_message_def r_count_0)

lemma channel_receive_result:
  assumes "qc_static ch" "0 < r_count ch"
  shows "channel_receive (ch, parts) =
    map_option (\<lambda>(ch', parts'). (Some (msg_at ch (slot ch 0), message_discarded ch),
        ch'\<lparr>message_discarded := False\<rparr>, parts'))
      (if side_live SendSide parts ch \<and> 0 < s_count ch
       then channel_queuing_side_notify SendSide JET_PARTITION_EVENT_TYPE_PORT_SEND_AVAILABLE
              (consume_result parts ch, parts)
       else Some (consume_result parts ch, parts))"
proof -
  have ne: "next_message (recv ch) \<noteq> border ch" using r_count_0 [OF assms(1)] assms(2) by simp
  have s: "0 < s_count ch \<longleftrightarrow> border ch \<noteq> next_message (send ch)"
    using s_count_0 [OF assms(1)] by auto
  have rn: "next_message (recv ch) < max_nb_message ch" "border ch < max_nb_message ch"
      "next_message (recv ch) < length (message_sizes ch)"
    using assms(1) by (simp_all add: qc_static_def)
  have add: "channel_queuing_cyclic_add (ch\<lparr>recv := sd\<rparr>) = channel_queuing_cyclic_add ch" for sd
    by (simp add: channel_queuing_cyclic_add_def fun_eq_iff Let_def)
  note add1 = cyclic_add_one [OF assms(1) rn(1)] cyclic_add_one [OF assms(1) rn(2)]
  let ?st = "(ch, parts)"
  have cons: "pok_channel_queuing_r_consume_message (ch, parts) =
     map_option (\<lambda>(ch', parts'). (message_discarded ch', ch'\<lparr>message_discarded := False\<rparr>, parts'))
      (if side_live SendSide parts ch \<and> 0 < s_count ch
       then channel_queuing_side_notify SendSide JET_PARTITION_EVENT_TYPE_PORT_SEND_AVAILABLE
              (consume_result parts ch, parts)
       else Some (consume_result parts ch, parts))"
    using ne add1 by (auto simp: pok_channel_queuing_r_consume_message_def consume_result_def Let_def s
        side_live_def add map_option_case split: option.splits)
  have disc: "message_discarded ch' = message_discarded ch"
    if "channel_queuing_side_notify sd ty (consume_result parts ch, parts) = Some (ch', parts')"
    for sd ty ch' parts'
    using side_notify_Some(1) [OF that] by (cases sd) (simp_all add: consume_frame)
  show ?thesis using ne rn
    by (auto simp: channel_receive_def pok_channel_queuing_r_get_message_def Let_def cons
        channel_queuing_message_at_def msg_at_def slot_0 [OF assms(1)] map_option_case consume_frame
        dest: disc split: option.splits)
qed

lemma qc_inv_consume:
  assumes inv: "qc_inv parts ch" and live: "side_live RecvSide parts ch" and ne: "0 < r_count ch"
  shows "qc_inv parts (consume_result parts ch)"
    and "side_live SendSide parts ch \<Longrightarrow>
      channel_msgs ch = msg_at ch (slot ch 0) # channel_msgs (consume_result parts ch)"
    and "\<not> side_live SendSide parts ch \<Longrightarrow>
      take (r_count ch) (channel_msgs ch) = msg_at ch (slot ch 0) #
        take (r_count ch - 1) (channel_msgs (consume_result parts ch))"
proof -
  let ?c = "consume_result parts ch"
  have st: "qc_static ch" using inv by (simp add: qc_inv_def)
  note sl = s_count_lt [OF st] and counts = consume_counts [OF st ne s_count_lt [OF st]]
  have rl: "r_count ch \<le> side_max_nb_message (recv ch)" "s_count ch \<le> side_max_nb_message (send ch)"
      "max_nb_message ch = side_max_nb_message (recv ch) + side_max_nb_message (send ch)"
    using inv live st by (simp_all add: qc_inv_def qc_static_def)
  have ok: "slots_ok ?c n" if "slots_ok ch (n + 1)" "n + 1 \<le> max_nb_message ch" for n
    using that counts(3) by (auto simp: slots_ok_def consume_frame)
  have n: "r_count ch + s_count ch - 1 + 1 \<le> max_nb_message ch" "r_count ch - 1 + 1 \<le> max_nb_message ch"
    using rl ne by simp_all
  show "qc_inv parts ?c"
  proof (cases "side_live SendSide parts ch")
    case True
    have a: "slots_ok ch (r_count ch + s_count ch)" "0 < s_count ch \<longrightarrow> r_count ch = side_max_nb_message (recv ch)"
      using inv live True by (simp_all add: qc_inv_def)
    have sum: "r_count ?c + s_count ?c = r_count ch + s_count ch - 1"
      using counts(1,2) ne True by auto
    have ok2: "slots_ok ?c (r_count ch + s_count ch - 1)" using ok [OF _ n(1)] a(1) ne by simp
    then have "slots_ok ?c (r_count ?c)" by (rule slots_ok_le) (use sum in linarith)
    then show ?thesis using inv True consume_static [OF st] counts(1,2) a ok2 sum rl ne
      by (auto simp: qc_inv_def consume_frame)
  next
    case False
    have "slots_ok ?c (r_count ch - 1)" using ok [OF _ n(2)] inv live ne by (simp add: qc_inv_def)
    then show ?thesis using inv False consume_static [OF st] counts(1,2) rl
      by (auto simp: qc_inv_def consume_frame)
  qed
  show "channel_msgs ch = msg_at ch (slot ch 0) # channel_msgs ?c" if "side_live SendSide parts ch"
  proof -
    have sum: "r_count ch + s_count ch = Suc (r_count ?c + s_count ?c)"
      using counts(1,2) ne that by auto
    have "channel_msgs ch = map (\<lambda>i. msg_at ch (slot ch i)) (0 # map Suc [0..<r_count ?c + s_count ?c])"
      unfolding channel_msgs_def sum by (simp only: upt_conv_Cons map_Suc_upt zero_less_Suc)
    then show ?thesis using counts(3) sum rl by (simp add: channel_msgs_def consume_frame comp_def)
  qed
  show "take (r_count ch) (channel_msgs ch) = msg_at ch (slot ch 0) #
        take (r_count ch - 1) (channel_msgs ?c)" if "\<not> side_live SendSide parts ch"
  proof -
    obtain n where n: "r_count ch = Suc n" using ne by (cases "r_count ch") auto
    have "take (Suc n) [0..<r_count ch + s_count ch] = [0..<Suc n]"
         "take n [0..<n + s_count ch] = [0..<n]"
      by (simp_all add: n take_upt del: upt_Suc)
    then have "take (r_count ch) (channel_msgs ch) = map (\<lambda>i. msg_at ch (slot ch i)) (0 # map Suc [0..<n])"
      unfolding channel_msgs_def by (simp only: n take_map upt_conv_Cons map_Suc_upt zero_less_Suc)
    then show ?thesis using counts that n rl
      by (simp add: channel_msgs_def consume_frame comp_def take_map take_upt)
  qed
qed

subsection \<open>The channel is a bounded queue\<close>

definition chan_open :: "pok_channel_queuing \<times> partitions \<Rightarrow> bool" where
  "chan_open = (\<lambda>(ch, parts). qc_inv parts ch \<and> side_live SendSide parts ch \<and> side_live RecvSide parts ch
     \<and> side_part (send ch) \<noteq> side_part (recv ch)
     \<and> notify_room SendSide parts ch \<and> notify_room RecvSide parts ch)"

definition chan_blocking :: "pok_channel_queuing \<times> partitions \<Rightarrow> bool" where
  "chan_blocking = (\<lambda>(ch, parts). chan_open (ch, parts) \<and> overflow ch = JET_CHANNEL_QUEUING_SENDER_BLOCK)"

definition chan_put ::
  "byte list \<Rightarrow> pok_channel_queuing \<times> partitions \<Rightarrow> (pok_channel_queuing \<times> partitions) option" where
  "chan_put bytes st = (case channel_send bytes st of Some (Some st') \<Rightarrow> Some st' | _ \<Rightarrow> None)"

definition chan_get ::
  "pok_channel_queuing \<times> partitions \<Rightarrow> (byte list option \<times> pok_channel_queuing \<times> partitions) option" where
  "chan_get st = map_option (apfst (map_option fst)) (channel_receive st)"

lemma side_notify_parts:
  "channel_queuing_side_notify sd ty (ch, parts) = Some (ch', parts') \<Longrightarrow>
   p \<noteq> side_part (channel_side_of sd ch) \<Longrightarrow> parts' p = parts p"
  by (auto simp: channel_queuing_side_notify_def Let_def bind_Some split: if_splits)

text \<open>A notification of one side leaves the channel open.\<close>

lemma chan_open_notify:
  assumes "chan_open (ch, parts)" "channel_queuing_side_notify sd ty (ch, parts) = Some (ch', parts')"
  shows "chan_open (ch', parts')"
proof -
  note n = side_notify_Some [OF assms(2)]
  have live: "side_live sd' parts' ch' = side_live sd' parts ch" for sd'
    unfolding n(1) side_live_notify using side_live_parts [of parts' parts] n(2) by simp
  have inv: "qc_inv parts' ch'" unfolding n(1) qc_inv_notify
    using assms(1) qc_inv_parts [of parts' parts] n(2) by (simp add: chan_open_def)
  have part: "side_part (channel_side_of sd' ch') = side_part (channel_side_of sd' ch)" for sd'
    unfolding n(1) by (cases sd; cases sd') simp_all
  have room: "notify_room sd' parts' ch'" if "notify_room sd' parts ch" for sd'
  proof (cases "sd' = sd")
    case True
    then have "\<not> is_notify (channel_side_of sd' ch')" unfolding n(1) by (cases sd) simp_all
    then show ?thesis by (simp add: notify_room_def)
  next
    case False
    then have "parts' (side_part (channel_side_of sd' ch)) = parts (side_part (channel_side_of sd' ch))"
      using side_notify_parts [OF assms(2)] assms(1) by (cases sd; cases sd') (auto simp: chan_open_def)
    moreover have "is_notify (channel_side_of sd' ch') = is_notify (channel_side_of sd' ch)"
      using False unfolding n(1) by (cases sd; cases sd') simp_all
    ultimately show ?thesis using that by (simp add: notify_room_def part)
  qed
  show ?thesis
    using assms(1) inv room live part [of SendSide] part [of RecvSide] by (simp add: chan_open_def)
qed

lemma notify_keeps:
  assumes "channel_queuing_side_notify sd ty (ch, parts) = Some (ch', parts')"
  shows "channel_msgs ch' = channel_msgs ch \<and> r_count ch' = r_count ch \<and> s_count ch' = s_count ch
     \<and> overflow ch' = overflow ch \<and> max_nb_message ch' = max_nb_message ch
     \<and> max_message_size ch' = max_message_size ch \<and> message_discarded ch' = message_discarded ch
     \<and> side_max_nb_message (recv ch') = side_max_nb_message (recv ch)"
  using side_notify_Some(1) [OF assms]
  by (simp del: upd_side.simps) (cases sd; simp)

lemma store_max_nb: "max_nb_message (store_result bytes parts ch) = max_nb_message ch"
  by (simp add: store_result_def adv_send_def Let_def)

lemma consume_max_nb: "max_nb_message (consume_result parts ch) = max_nb_message ch"
  by (simp add: consume_result_def Let_def)

lemma chan_open_store:
  assumes "chan_open (ch, parts)" "0 < length bytes" "length bytes \<le> max_message_size ch"
    "s_count ch < side_max_nb_message (send ch)"
  shows "chan_open (store_result bytes parts ch, parts)"
  using assms qc_inv_store [of parts ch bytes] store_frame(7) [of SendSide bytes parts ch]
    store_frame(7) [of RecvSide bytes parts ch]
  by (simp add: chan_open_def store_frame notify_room_store)

lemma notify_room_consume:
  "notify_room sd parts (consume_result parts' ch) = notify_room sd parts ch"
  by (simp add: notify_room_def consume_frame)

lemma chan_open_consume:
  assumes "chan_open (ch, parts)" "0 < r_count ch"
  shows "chan_open (consume_result parts ch, parts)"
  using assms qc_inv_consume(1) [of parts ch] consume_frame(10) [of SendSide parts ch]
    consume_frame(10) [of RecvSide parts ch]
  by (simp add: chan_open_def consume_frame notify_room_consume)

lemma chan_open_discarded [simp]:
  "chan_open (ch\<lparr>message_discarded := b\<rparr>, parts) = chan_open (ch, parts)"
  by (simp add: chan_open_def qc_inv_def qc_static_def s_count_def r_count_def slots_ok_def slot_def
      side_live_def notify_room_def channel_side_of.simps [abs_def] split: channel_side.split)

lemma channel_msgs_discarded [simp]: "channel_msgs (ch\<lparr>message_discarded := b\<rparr>) = channel_msgs ch"
  by (simp add: channel_msgs_def msg_at_def slot_def r_count_def s_count_def)

lemma chan_open_facts:
  assumes "chan_open (ch, parts)"
  shows "qc_static ch" "slots_ok ch (r_count ch + s_count ch)" "slots_ok ch (r_count ch)"
    "r_count ch \<le> side_max_nb_message (recv ch)" "s_count ch \<le> side_max_nb_message (send ch)"
    "0 < s_count ch \<Longrightarrow> r_count ch = side_max_nb_message (recv ch)"
    "max_nb_message ch = side_max_nb_message (recv ch) + side_max_nb_message (send ch)"
    "qc_inv parts ch" "side_live SendSide parts ch" "side_live RecvSide parts ch"
    "notify_room SendSide parts ch" "notify_room RecvSide parts ch"
    "overflow ch = JET_CHANNEL_QUEUING_RECEIVER_DISCARD \<Longrightarrow> s_count ch = 0"
  using assms by (auto simp: chan_open_def qc_inv_def qc_static_def)

lemma chan_put_blocking:
  assumes "chan_blocking (ch, parts)" "0 < length bytes" "length bytes \<le> max_message_size ch"
  shows "chan_put bytes (ch, parts) = None \<longleftrightarrow> max_nb_message ch \<le> r_count ch + s_count ch"
    and "chan_put bytes (ch, parts) = Some (ch', parts') \<Longrightarrow>
      chan_blocking (ch', parts') \<and> channel_msgs ch' = channel_msgs ch @ [bytes]
      \<and> max_nb_message ch' = max_nb_message ch \<and> max_message_size ch' = max_message_size ch"
proof -
  have op: "chan_open (ch, parts)" and ov: "overflow ch = JET_CHANNEL_QUEUING_SENDER_BLOCK"
    using assms(1) by (simp_all add: chan_blocking_def)
  note f = chan_open_facts [OF op]
  let ?st = "store_result bytes parts ch"
  show n: "chan_put bytes (ch, parts) = None \<longleftrightarrow> max_nb_message ch \<le> r_count ch + s_count ch"
  proof (cases "s_count ch < side_max_nb_message (send ch)")
    case True
    then obtain st' where "channel_send bytes (ch, parts) = Some (Some st')"
      using channel_send_ok [OF f(8,9,12) assms(2,3)] by blast
    then show ?thesis using True f(4,7) by (simp add: chan_put_def)
  next
    case False
    then have "s_count ch = side_max_nb_message (send ch)" using f(5) by simp
    moreover have "0 < side_max_nb_message (send ch)" using f(1) by (simp add: qc_static_def)
    ultimately show ?thesis using channel_send_full [OF f(8) assms(2,3)] f(6,7) by (simp add: chan_put_def)
  qed
  assume put: "chan_put bytes (ch, parts) = Some (ch', parts')"
  then have room: "s_count ch < side_max_nb_message (send ch)"
    using channel_send_full [OF f(8) assms(2,3)] f(5) by (auto simp: chan_put_def le_less)
  have op': "chan_open (?st, parts)" by (rule chan_open_store [OF op assms(2,3) room])
  note res = channel_send_result [OF f(1) assms(2,3), of parts]
  have msgs: "channel_msgs ?st = channel_msgs ch @ [bytes]"
  proof (cases "r_count ch < side_max_nb_message (recv ch)")
    case True
    then have "s_count ch = 0" using f(6) by auto
    then show ?thesis using store_transmit [OF f(1) _ f(10) True f(3) assms(2,3) refl] by simp
  next
    case False
    then show ?thesis using store_backlog [OF f(1) room f(10) _ ov assms(2,3) refl] f(2,4) by simp
  qed
  show "chan_blocking (ch', parts') \<and> channel_msgs ch' = channel_msgs ch @ [bytes]
      \<and> max_nb_message ch' = max_nb_message ch \<and> max_message_size ch' = max_message_size ch"
  proof (cases "r_count ch < side_max_nb_message (recv ch)")
    case True
    then have nt: "channel_queuing_side_notify RecvSide JET_PARTITION_EVENT_TYPE_PORT_RECEIVE_AVAILABLE
        (?st, parts) = Some (ch', parts')"
      using put res room f(10) by (auto simp: chan_put_def map_option_case split: option.splits)
    show ?thesis using chan_open_notify [OF op' nt] notify_keeps [OF nt] msgs ov
      by (simp add: chan_blocking_def store_frame store_max_nb)
  next
    case False
    then have "ch' = ?st" "parts' = parts" using put res room by (auto simp: chan_put_def)
    then show ?thesis using op' msgs ov by (simp add: chan_blocking_def store_frame store_max_nb)
  qed
qed

lemma channel_receive_open:
  assumes "chan_open (ch, parts)" "channel_msgs ch = m # ms"
  shows "\<exists>ch' parts'. channel_receive (ch, parts) = Some (Some (m, message_discarded ch), ch', parts')
     \<and> chan_open (ch', parts') \<and> channel_msgs ch' = ms \<and> overflow ch' = overflow ch
     \<and> max_nb_message ch' = max_nb_message ch \<and> max_message_size ch' = max_message_size ch
     \<and> \<not> message_discarded ch'"
proof -
  note f = chan_open_facts [OF assms(1)]
  have "0 < side_max_nb_message (recv ch)" using f(1) by (simp add: qc_static_def)
  moreover have "r_count ch + s_count ch = Suc (length ms)"
    using assms(2) length_channel_msgs [of ch] by simp
  ultimately have ne: "0 < r_count ch" using f(6) by (cases "s_count ch") auto
  note res = channel_receive_result [OF f(1) ne, of parts]
  have ms: "m = msg_at ch (slot ch 0)" "channel_msgs (consume_result parts ch) = ms"
    using qc_inv_consume(2) [OF f(8,10) ne f(9)] assms(2) by simp_all
  note op' = chan_open_consume [OF assms(1) ne]
  show ?thesis
  proof (cases "0 < s_count ch")
    case True
    obtain ch' parts' where nt: "channel_queuing_side_notify SendSide
        JET_PARTITION_EVENT_TYPE_PORT_SEND_AVAILABLE (consume_result parts ch, parts) = Some (ch', parts')"
      using side_notify_total chan_open_facts(11) [OF op'] by (metis surj_pair)
    then show ?thesis using res True f(9) ms chan_open_notify [OF op' nt] notify_keeps [OF nt]
      by (simp add: consume_frame consume_max_nb)
  next
    case False
    then show ?thesis using res ms op' by (simp add: consume_frame consume_max_nb)
  qed
qed

interpretation chan: bounded_queue chan_blocking "\<lambda>st. channel_msgs (fst st)" "\<lambda>st. max_nb_message (fst st)"
    "\<lambda>st bytes. 0 < length bytes \<and> length bytes \<le> max_message_size (fst st)" "\<lambda>bytes. bytes"
    chan_put chan_get
proof (standard, goal_cases)
  case (1 q e)
  then show ?case by (cases q) (simp add: chan_put_blocking(1))
next
  case (2 q e q')
  obtain ch parts ch' parts' where q: "q = (ch, parts)" "q' = (ch', parts')" by (cases q; cases q')
  show ?case using chan_put_blocking(2) [of ch parts e ch' parts'] 2 unfolding q by simp
next
  case (3 q)
  obtain ch parts where q: "q = (ch, parts)" by (cases q)
  have "r_count ch = 0" using 3(2) length_channel_msgs [of ch] unfolding q by simp
  then show ?case using 3(1) channel_receive_empty [of ch parts] chan_open_facts(1)
    by (auto simp: q chan_get_def chan_blocking_def)
next
  case (4 q e es)
  obtain ch parts where q: "q = (ch, parts)" by (cases q)
  have "chan_open (ch, parts)" using 4(1) by (simp add: q chan_blocking_def)
  from channel_receive_open [OF this] 4 show ?case by (fastforce simp: q chan_get_def chan_blocking_def)
qed

lemma side_init_frame:
  "r_count (pok_channel_queuing_side_init RecvSide hid parts ch) = 0"
  "s_count (pok_channel_queuing_side_init RecvSide hid parts ch) = s_count ch"
  "s_count (pok_channel_queuing_side_init SendSide hid parts ch) = 0"
  "r_count (pok_channel_queuing_side_init SendSide hid parts ch) = r_count ch"
  "slot (pok_channel_queuing_side_init SendSide hid parts ch) = slot ch"
  "message_sizes (pok_channel_queuing_side_init sd hid parts ch) = message_sizes ch"
  "max_message_size (pok_channel_queuing_side_init sd hid parts ch) = max_message_size ch"
  "overflow (pok_channel_queuing_side_init sd hid parts ch) = overflow ch"
  "side_max_nb_message (channel_side_of sd' (pok_channel_queuing_side_init sd hid parts ch))
     = side_max_nb_message (channel_side_of sd' ch)"
  "side_live SendSide parts (pok_channel_queuing_side_init RecvSide hid parts ch) = side_live SendSide parts ch"
  "side_live RecvSide parts (pok_channel_queuing_side_init SendSide hid parts ch) = side_live RecvSide parts ch"
  "side_live sd parts (pok_channel_queuing_side_init sd hid parts ch)"
  by (cases sd; cases sd'; simp add: pok_channel_queuing_side_init_def r_count_def s_count_def
      cyc_count_def slot_def fun_eq_iff side_live_def)+

subsection \<open>Properties\<close>

definition example_parts :: partitions where
  "example_parts p = example_partition\<lparr>partition_id := p\<rparr>"

definition example_side :: "nat \<Rightarrow> nat \<Rightarrow> pok_channel_queuing_side" where
  "example_side n p = \<lparr>side_max_nb_message = n, next_message = 0, side_part = p,
     side_generation = 1, is_notify = False, side_handler_id = 0\<rparr>"

definition example_channel :: "overflow_strategy \<Rightarrow> pok_channel_queuing" where
  "example_channel ov = \<lparr>max_message_size = 4, message_stride = 4, send = example_side 1 0,
     recv = example_side 2 1, max_nb_message = 3, messages = (\<lambda>_. 0), message_sizes = [0, 0, 0],
     border = 0, overflow = ov, message_discarded = False\<rparr>"

lemmas example_channel_defs = example_channel_def example_side_def example_parts_def example_partition_def

lemma example_channel_counts:
  "qc_static (example_channel ov)" "r_count (example_channel ov) = 0" "s_count (example_channel ov) = 0"
  "channel_msgs (example_channel ov) = []" "max_nb_message (example_channel ov) = 3"
  "max_message_size (example_channel ov) = 4"
  "side_max_nb_message (recv (example_channel ov)) = 2" "side_max_nb_message (send (example_channel ov)) = 1"
  by (simp_all add: example_channel_defs qc_static_def r_count_def s_count_def cyc_count_def channel_msgs_def)

lemma example_channel_open: "chan_open (example_channel ov, example_parts)"
  by (simp add: chan_open_def qc_inv_def example_channel_counts slots_ok_def side_live_def notify_room_def)
    (simp add: example_channel_defs)

lemma example_channel_blocking:
  "chan_blocking (example_channel JET_CHANNEL_QUEUING_SENDER_BLOCK, example_parts)"
  using example_channel_open by (simp add: chan_blocking_def) (simp add: example_channel_def)

text \<open>
  C6: messages that are sent over an empty channel between two connected partitions, up to the
  sum of both buffers' sizes, are received byte for byte and in the order in which they were
  sent, although they pass from the sender's to the receiver's buffer by moving a border inside
  one circular buffer.
\<close>

theorem channel_queuing_roundtrip:
  assumes "chan_blocking (ch, parts)" and "channel_msgs ch = []"
    and "\<forall>m \<in> set ms. 0 < length m \<and> length m \<le> max_message_size ch"
    and "length ms \<le> max_nb_message ch"
  shows "\<exists>st st'. put_all chan_put ms (ch, parts) = Some st
     \<and> get_all chan_get (length ms) st = Some (ms, st') \<and> channel_msgs (fst st') = []"
  using chan.put_get_roundtrip [of "(ch, parts)" ms] assms by auto

theorem channel_queuing_roundtrip_witness:
  "\<exists>st st'. put_all chan_put [[1], [2, 3], [4]]
       (example_channel JET_CHANNEL_QUEUING_SENDER_BLOCK, example_parts) = Some st
     \<and> get_all chan_get (length [[1], [2, 3], [4 :: nat]]) st = Some ([[1], [2, 3], [4]], st')"
proof -
  let ?ch = "example_channel JET_CHANNEL_QUEUING_SENDER_BLOCK"
  have "\<forall>m \<in> set [[1], [2, 3], [4 :: nat]]. 0 < length m \<and> length m \<le> max_message_size ?ch"
    "length [[1], [2, 3], [4 :: nat]] \<le> max_nb_message ?ch"
    by (simp_all add: example_channel_counts)
  from channel_queuing_roundtrip [OF example_channel_blocking example_channel_counts(4) this]
  show ?thesis by blast
qed



text \<open>
  With the discarding strategy a message that finds the receiver's buffer full is dropped,
  every pending message stays, the sender is not refused, and the receiver learns of the loss
  with the next message it takes, and only once.
\<close>

theorem channel_discard_reported:
  assumes "chan_open (ch, parts)" and "overflow ch = JET_CHANNEL_QUEUING_RECEIVER_DISCARD"
    and "channel_msgs ch = m # ms" and "length (channel_msgs ch) = side_max_nb_message (recv ch)"
    and "0 < length bytes" and "length bytes \<le> max_message_size ch"
  shows "\<exists>ch1 ch2 parts2. channel_send bytes (ch, parts) = Some (Some (ch1, parts))
     \<and> channel_msgs ch1 = m # ms
     \<and> channel_receive (ch1, parts) = Some (Some (m, True), ch2, parts2)
     \<and> channel_msgs ch2 = ms \<and> \<not> message_discarded ch2"
proof -
  note f = chan_open_facts [OF assms(1)]
  have s0: "s_count ch = 0" by (rule f(13) [OF assms(2)])
  then have r: "r_count ch = side_max_nb_message (recv ch)" using assms(4) by simp
  have room: "s_count ch < side_max_nb_message (send ch)" using s0 f(1) by (simp add: qc_static_def)
  let ?st = "store_result bytes parts ch"
  have send: "channel_send bytes (ch, parts) = Some (Some (?st, parts))"
    using channel_send_result [OF f(1) assms(5,6)] room r by simp
  note d = store_discard [OF f(1) s0 f(10) r assms(2) f(3) assms(6) refl]
  have "chan_open (?st, parts)" by (rule chan_open_store [OF assms(1,5,6) room])
  from channel_receive_open [OF this, of m ms] d assms(3) send show ?thesis by auto
qed

definition example_full_channel :: pok_channel_queuing where
  "example_full_channel = (example_channel JET_CHANNEL_QUEUING_RECEIVER_DISCARD)
     \<lparr>message_sizes := [1, 1, 0], border := 2, send := (example_side 1 0)\<lparr>next_message := 2\<rparr>\<rparr>"

lemma example_full_channel:
  "chan_open (example_full_channel, example_parts)" "channel_msgs example_full_channel = [[0], [0]]"
  by (simp_all add: example_full_channel_def example_channel_defs chan_open_def qc_inv_def qc_static_def
      r_count_def s_count_def cyc_count_def slots_ok_def slot_def cyc_pos_def side_live_def
      notify_room_def channel_msgs_def msg_at_def mem_read_def less_Suc_eq nth_Cons' upt_rec)

lemma example_full_channel_fields:
  "overflow example_full_channel = JET_CHANNEL_QUEUING_RECEIVER_DISCARD"
  "length (channel_msgs example_full_channel) = side_max_nb_message (recv example_full_channel)"
  "max_message_size example_full_channel = 4"
  unfolding example_full_channel(2) by (simp_all add: example_full_channel_def example_channel_defs)

theorem channel_discard_reported_witness:
  "\<exists>ch1 st. channel_send [5] (example_full_channel, example_parts) = Some (Some (ch1, example_parts))
     \<and> channel_receive (ch1, example_parts) = Some (Some ([0], True), st)"
  using channel_discard_reported [OF example_full_channel(1) example_full_channel_fields(1)
      example_full_channel(2) example_full_channel_fields(2), of "[5]"]
  by (auto simp: example_full_channel_fields(3))

subsection \<open>Runs with restarts\<close>

text \<open>
  Everything that happens to a channel: transfers by a side that is connected, subscriptions,
  \<open>pok_channel_queuing_side_init\<close> by a port that is created, and a restart of a partition, which
  gives it a new generation (\<open>sched.c\<close>). As in the code, a receiver may connect at any time; a
  step is calm unless it connects a receiver while messages wait at a connected sender.
\<close>

definition next_generation :: "nat \<Rightarrow> nat" where
  "next_generation g = (let g = u32 (g + 1) in if g = 0 then 1 else g)"

definition restart_partition :: "nat \<Rightarrow> partitions \<Rightarrow> partitions" where
  "restart_partition p parts =
     parts(p := (parts p)\<lparr>partition_generation := next_generation (partition_generation (parts p))\<rparr>)"

inductive chan_step ::
  "pok_channel_queuing \<times> partitions \<Rightarrow> pok_channel_queuing \<times> partitions \<Rightarrow> bool" where
  sent: "side_live SendSide parts ch \<Longrightarrow> 0 < length bytes \<Longrightarrow> length bytes \<le> max_message_size ch \<Longrightarrow>
     channel_send bytes (ch, parts) = Some (Some st') \<Longrightarrow> chan_step (ch, parts) st'"
| send_subscribed: "pok_channel_queuing_s_get_message True ch = Some (None, ch') \<Longrightarrow>
     chan_step (ch, parts) (ch', parts)"
| received: "side_live RecvSide parts ch \<Longrightarrow>
     channel_receive (ch, parts) = Some (r, st') \<Longrightarrow> chan_step (ch, parts) st'"
| receive_subscribed: "pok_channel_queuing_r_get_message True ch = Some (None, ch') \<Longrightarrow>
     chan_step (ch, parts) (ch', parts)"
| sender_init: "chan_step (ch, parts) (pok_channel_queuing_side_init SendSide hid parts ch, parts)"
| receiver_init: "chan_step (ch, parts) (pok_channel_queuing_side_init RecvSide hid parts ch, parts)"
| restart: "partition_generation (parts p) + 1 < 2 ^ 32 \<Longrightarrow>
     chan_step (ch, parts) (ch, restart_partition p parts)"

definition backlog_reconnect ::
  "pok_channel_queuing \<times> partitions \<Rightarrow> pok_channel_queuing \<times> partitions \<Rightarrow> bool" where
  "backlog_reconnect = (\<lambda>(ch, parts) s'. side_live SendSide parts ch \<and> 0 < s_count ch
     \<and> (\<exists>hid. s' = (pok_channel_queuing_side_init RecvSide hid parts ch, parts)))"

definition calm_step ::
  "pok_channel_queuing \<times> partitions \<Rightarrow> pok_channel_queuing \<times> partitions \<Rightarrow> bool" where
  "calm_step s s' \<longleftrightarrow> chan_step s s' \<and> \<not> backlog_reconnect s s'"

text \<open>The generation a side recorded is not ahead of its partition's.\<close>

definition chan_inv :: "pok_channel_queuing \<times> partitions \<Rightarrow> bool" where
  "chan_inv = (\<lambda>(ch, parts). qc_inv parts ch \<and>
     (\<forall>sd. side_generation (channel_side_of sd ch)
        \<le> partition_generation (parts (side_part (channel_side_of sd ch)))))"

lemma side_init_static:
  "qc_static ch \<Longrightarrow> qc_static (pok_channel_queuing_side_init sd hid parts ch)"
  by (cases sd) (simp_all add: pok_channel_queuing_side_init_def qc_static_def)

lemma qc_inv_sender_init:
  "qc_inv parts ch \<Longrightarrow> qc_inv parts (pok_channel_queuing_side_init SendSide hid parts ch)"
  using side_init_frame(9) [of SendSide SendSide hid parts ch]
    side_init_frame(9) [of RecvSide SendSide hid parts ch]
  by (simp add: qc_inv_def side_init_static side_init_frame slots_ok_def)

lemma qc_inv_receiver_init:
  "qc_inv parts ch \<Longrightarrow> s_count ch = 0 \<or> \<not> side_live SendSide parts ch \<Longrightarrow>
   qc_inv parts (pok_channel_queuing_side_init RecvSide hid parts ch)"
  using side_init_frame(9) [of SendSide RecvSide hid parts ch]
    side_init_frame(9) [of RecvSide RecvSide hid parts ch]
  by (auto simp: qc_inv_def side_init_static side_init_frame slots_ok_def)

text \<open>What a transfer leaves unchanged, however it ends.\<close>

definition same_sides :: "pok_channel_queuing \<times> partitions \<Rightarrow> pok_channel_queuing \<times> partitions \<Rightarrow> bool" where
  "same_sides = (\<lambda>(ch, parts) (ch', parts').
     (\<forall>p. partition_generation (parts' p) = partition_generation (parts p))
     \<and> (\<forall>sd. side_generation (channel_side_of sd ch') = side_generation (channel_side_of sd ch)
          \<and> side_part (channel_side_of sd ch') = side_part (channel_side_of sd ch)))"

lemma same_sidesI:
  assumes "\<And>p. partition_generation (parts' p) = partition_generation (parts p)"
    "\<And>sd. side_generation (channel_side_of sd ch') = side_generation (channel_side_of sd ch)"
    "\<And>sd. side_part (channel_side_of sd ch') = side_part (channel_side_of sd ch)"
  shows "same_sides (ch, parts) (ch', parts')"
  using assms by (simp add: same_sides_def)

lemma same_sides_notify:
  assumes "channel_queuing_side_notify sd ty (ch, parts) = Some (ch', parts')"
  shows "same_sides (ch, parts) (ch', parts')"
proof (rule same_sidesI)
  note n = side_notify_Some [OF assms]
  show "partition_generation (parts' p) = partition_generation (parts p)" for p by (rule n(2))
  show "side_generation (channel_side_of sd' ch') = side_generation (channel_side_of sd' ch)" for sd'
    unfolding n(1) by (cases sd; cases sd') simp_all
  show "side_part (channel_side_of sd' ch') = side_part (channel_side_of sd' ch)" for sd'
    unfolding n(1) by (cases sd; cases sd') simp_all
qed

lemma same_sides_trans: "same_sides s t \<Longrightarrow> same_sides t u \<Longrightarrow> same_sides s u"
  by (cases s; cases t; cases u) (simp add: same_sides_def)

lemma same_sides_store: "same_sides (ch, parts) (store_result bytes parts ch, parts)"
  by (rule same_sidesI) (simp_all add: store_frame)

lemma same_sides_consume: "same_sides (ch, parts) (consume_result parts ch, parts)"
  by (rule same_sidesI) (simp_all add: consume_frame)

lemma same_sides_discarded: "same_sides (ch, parts) (ch\<lparr>message_discarded := b\<rparr>, parts)"
proof (rule same_sidesI)
  show "side_generation (channel_side_of sd (ch\<lparr>message_discarded := b\<rparr>)) = side_generation (channel_side_of sd ch)"
    "side_part (channel_side_of sd (ch\<lparr>message_discarded := b\<rparr>)) = side_part (channel_side_of sd ch)" for sd
    by (cases sd; simp)+
qed simp

lemma chan_inv_same_sides:
  "chan_inv (ch, parts) \<Longrightarrow> same_sides (ch, parts) (ch', parts') \<Longrightarrow> qc_inv parts' ch' \<Longrightarrow>
   chan_inv (ch', parts')"
  by (simp add: chan_inv_def same_sides_def)

lemma qc_inv_discarded [simp]: "qc_inv parts (ch\<lparr>message_discarded := b\<rparr>) = qc_inv parts ch"
  by (simp add: qc_inv_def qc_static_def s_count_def r_count_def slots_ok_def slot_def side_live_def)

lemma qc_inv_after_notify:
  "channel_queuing_side_notify sd ty (ch, parts) = Some (ch', parts') \<Longrightarrow> qc_inv parts ch \<Longrightarrow> qc_inv parts' ch'"
  using side_notify_Some [of sd ty ch parts ch' parts'] qc_inv_parts [of parts' parts]
  by (metis qc_inv_notify)

lemma notified_or_not:
  assumes "ch' = ch1 \<and> parts' = parts
      \<or> (\<exists>ty. channel_queuing_side_notify sd ty (ch1, parts) = Some (ch', parts'))"
    and "qc_inv parts ch1" and "same_sides (ch, parts) (ch1, parts)"
  shows "qc_inv parts' ch' \<and> same_sides (ch, parts) (ch', parts')"
  using assms(1)
proof
  assume "\<exists>ty. channel_queuing_side_notify sd ty (ch1, parts) = Some (ch', parts')"
  then obtain ty where n: "channel_queuing_side_notify sd ty (ch1, parts) = Some (ch', parts')" by blast
  show ?thesis
    using qc_inv_after_notify [OF n assms(2)] same_sides_trans [OF assms(3) same_sides_notify [OF n]] by simp
qed (use assms in simp)

lemma chan_inv_sent:
  assumes "chan_inv (ch, parts)" "side_live SendSide parts ch"
    "0 < length bytes" "length bytes \<le> max_message_size ch"
    "channel_send bytes (ch, parts) = Some (Some (ch', parts'))"
  shows "chan_inv (ch', parts')"
proof -
  have inv: "qc_inv parts ch" using assms(1) by (simp add: chan_inv_def)
  then have st: "qc_static ch" by (simp add: qc_inv_def)
  have room: "s_count ch < side_max_nb_message (send ch)"
    using channel_send_result [OF st assms(3,4), of parts] assms(5) by (auto split: if_splits)
  note store = qc_inv_store [OF inv assms(2) room assms(3,4)]
  have "ch' = store_result bytes parts ch \<and> parts' = parts \<or> (\<exists>ty. channel_queuing_side_notify RecvSide ty
      (store_result bytes parts ch, parts) = Some (ch', parts'))"
    using assms(5) [unfolded channel_send_result [OF st assms(3,4)]] by (auto split: if_splits)
  then have "qc_inv parts' ch' \<and> same_sides (ch, parts) (ch', parts')"
    by (rule notified_or_not) (rule store, rule same_sides_store)
  then show ?thesis using chan_inv_same_sides [OF assms(1)] by blast
qed

lemma chan_inv_received:
  assumes "chan_inv (ch, parts)" "side_live RecvSide parts ch"
    "channel_receive (ch, parts) = Some (r, ch', parts')"
  shows "chan_inv (ch', parts')"
proof (cases "r_count ch = 0")
  case True
  then show ?thesis using assms channel_receive_empty [of ch parts] by (simp add: chan_inv_def qc_inv_def)
next
  case False
  have inv: "qc_inv parts ch" using assms(1) by (simp add: chan_inv_def)
  then have st: "qc_static ch" by (simp add: qc_inv_def)
  have ne: "0 < r_count ch" using False by simp
  note cons = qc_inv_consume(1) [OF inv assms(2) ne]
  obtain ch1 where ch1: "ch' = ch1\<lparr>message_discarded := False\<rparr>"
      "ch1 = consume_result parts ch \<and> parts' = parts \<or> (\<exists>ty. channel_queuing_side_notify SendSide ty
      (consume_result parts ch, parts) = Some (ch1, parts'))"
    using assms(3) [unfolded channel_receive_result [OF st ne]] by (auto split: if_splits)
  have "qc_inv parts' ch1 \<and> same_sides (ch, parts) (ch1, parts')"
    using ch1(2) by (rule notified_or_not) (rule cons, rule same_sides_consume)
  moreover have "same_sides (ch1, parts') (ch', parts')"
    unfolding ch1(1) by (rule same_sides_discarded)
  ultimately show ?thesis
    using chan_inv_same_sides [OF assms(1)] same_sides_trans qc_inv_discarded unfolding ch1(1) by blast
qed

lemma chan_inv_init:
  assumes "chan_inv (ch, parts)" "qc_inv parts (pok_channel_queuing_side_init sd hid parts ch)"
  shows "chan_inv (pok_channel_queuing_side_init sd hid parts ch, parts)"
proof -
  have "side_generation (channel_side_of sd' (pok_channel_queuing_side_init sd hid parts ch))
      \<le> partition_generation (parts (side_part (channel_side_of sd' (pok_channel_queuing_side_init sd hid parts ch))))"
    for sd'
    using assms(1) by (cases sd; cases sd')
      (auto simp: chan_inv_def pok_channel_queuing_side_init_def dest: spec [of _ sd'])
  then show ?thesis using assms(2) by (simp add: chan_inv_def)
qed

lemma chan_inv_subscribed:
  assumes "chan_inv (ch, parts)"
  shows "chan_inv (upd_side sd (\<lambda>s. s\<lparr>is_notify := b\<rparr>) ch, parts)"
proof (rule chan_inv_same_sides [OF assms])
  show "same_sides (ch, parts) (upd_side sd (\<lambda>s. s\<lparr>is_notify := b\<rparr>) ch, parts)"
  proof (rule same_sidesI)
    show "side_generation (channel_side_of sd' (upd_side sd (\<lambda>s. s\<lparr>is_notify := b\<rparr>) ch))
        = side_generation (channel_side_of sd' ch)"
      "side_part (channel_side_of sd' (upd_side sd (\<lambda>s. s\<lparr>is_notify := b\<rparr>) ch))
        = side_part (channel_side_of sd' ch)" for sd'
      by (cases sd; cases sd'; simp)+
  qed simp
  show "qc_inv parts (upd_side sd (\<lambda>s. s\<lparr>is_notify := b\<rparr>) ch)"
    using assms unfolding qc_inv_notify by (simp add: chan_inv_def)
qed

lemma chan_inv_restart:
  assumes "chan_inv (ch, parts)" "partition_generation (parts p) + 1 < 2 ^ 32"
  shows "chan_inv (ch, restart_partition p parts)"
proof -
  have g: "partition_generation (restart_partition p parts q)
      = (if q = p then partition_generation (parts p) + 1 else partition_generation (parts q))" for q
    using assms(2) by (simp add: restart_partition_def next_generation_def Let_def)
  have le: "side_generation (channel_side_of sd ch) \<le> partition_generation (parts (side_part (channel_side_of sd ch)))"
    for sd using assms(1) by (simp add: chan_inv_def)
  have dead: "side_live sd (restart_partition p parts) ch \<Longrightarrow> side_live sd parts ch" for sd
    using le [of sd] by (auto simp: side_live_def g split: if_splits)
  have "qc_inv parts ch" using assms(1) by (simp add: chan_inv_def)
  then have "qc_inv (restart_partition p parts) ch" using dead by (auto simp: qc_inv_def)
  then show ?thesis using le by (auto simp: chan_inv_def g intro: le_SucI)
qed

lemma receiver_subscribed:
  "pok_channel_queuing_r_get_message True ch = Some (None, ch') \<Longrightarrow>
   ch' = upd_side RecvSide (\<lambda>s. s\<lparr>is_notify := True\<rparr>) ch"
  by (auto simp: pok_channel_queuing_r_get_message_def Let_def bind_Some split: if_splits)

lemma sender_subscribed:
  "pok_channel_queuing_s_get_message True ch = Some (None, ch') \<Longrightarrow>
   ch' = upd_side SendSide (\<lambda>s. s\<lparr>is_notify := True\<rparr>) ch"
  by (auto simp: pok_channel_queuing_s_get_message_def Let_def bind_Some split: if_splits)

lemma chan_inv_step: "chan_step s s' \<Longrightarrow> \<not> backlog_reconnect s s' \<Longrightarrow> chan_inv s \<Longrightarrow> chan_inv s'"
proof (induction rule: chan_step.induct)
  case (sent parts ch bytes st')
  then show ?case by (cases st') (blast intro: chan_inv_sent)
next
  case (send_subscribed ch ch' parts)
  then show ?case using chan_inv_subscribed sender_subscribed by blast
next
  case (received parts ch r st')
  then show ?case by (cases st') (blast intro: chan_inv_received)
next
  case (receive_subscribed ch ch' parts)
  then show ?case using chan_inv_subscribed receiver_subscribed by blast
next
  case (sender_init ch parts hid)
  then show ?case using chan_inv_init qc_inv_sender_init by (simp add: chan_inv_def)
next
  case (receiver_init ch parts hid)
  then have "qc_inv parts (pok_channel_queuing_side_init RecvSide hid parts ch)"
    by (intro qc_inv_receiver_init) (auto simp: chan_inv_def backlog_reconnect_def)
  then show ?case by (rule chan_inv_init [OF receiver_init(2)])
next
  case (restart parts p ch)
  then show ?case by (intro chan_inv_restart)
qed

lemma chan_inv_reachable: "calm_step\<^sup>*\<^sup>* s s' \<Longrightarrow> chan_inv s \<Longrightarrow> chan_inv s'"
  by (induction rule: rtranclp_induct) (auto simp: calm_step_def intro: chan_inv_step)

text \<open>What \<open>deployment.c\<close> has to configure.\<close>

definition chan_config :: "pok_channel_queuing \<Rightarrow> bool" where
  "chan_config ch \<longleftrightarrow> 0 < side_max_nb_message (recv ch) \<and> 0 < side_max_nb_message (send ch)
     \<and> side_max_nb_message (recv ch) + side_max_nb_message (send ch) < 65536
     \<and> max_message_size ch \<le> 65532"

lemma chan_inv_initial:
  assumes "chan_config ch"
  shows "chan_inv (pok_channel_queuing_init heap sizes ch, parts)"
proof -
  let ?ch = "pok_channel_queuing_init heap sizes ch"
  have n: "u16 (side_max_nb_message (recv ch) + side_max_nb_message (send ch))
      = side_max_nb_message (recv ch) + side_max_nb_message (send ch)"
    using assms by (simp add: chan_config_def)
  have "ALIGN_VAL (max_message_size ch) 4 < 65536"
    using assms ALIGN_VAL_4_lt [of "max_message_size ch"] by (simp add: chan_config_def)
  then have m: "max_message_size ch \<le> u16 (ALIGN_VAL (max_message_size ch) 4)"
    using ALIGN_VAL_4_ge by simp
  have st: "qc_static ?ch"
    using assms m by (simp add: qc_static_def chan_config_def pok_channel_queuing_init_def Let_def n)
  have z: "r_count ?ch = 0" "s_count ?ch = 0"
    by (simp_all add: pok_channel_queuing_init_def Let_def r_count_def s_count_def cyc_count_def)
  have "side_generation (channel_side_of sd ?ch) = 0" for sd
    by (cases sd) (simp_all add: pok_channel_queuing_init_def Let_def)
  then show ?thesis using st z by (simp add: chan_inv_def qc_inv_def slots_ok_def)
qed

text \<open>
  What is left of the bounds when a receiver connects over a backlog: the receiver starts empty
  in front of the waiting messages, and the next message makes all of them its own at once. Its
  buffer then holds what the sender's buffer held, which may be more than its capacity.
\<close>

definition qc_bounds :: "partitions \<Rightarrow> pok_channel_queuing \<Rightarrow> bool" where
  "qc_bounds parts ch \<longleftrightarrow> qc_static ch \<and> s_count ch \<le> side_max_nb_message (send ch)
     \<and> (side_live RecvSide parts ch \<longrightarrow>
          r_count ch \<le> max (side_max_nb_message (recv ch)) (side_max_nb_message (send ch))
        \<and> (side_live SendSide parts ch \<and> 0 < s_count ch \<and> 0 < r_count ch \<longrightarrow>
             side_max_nb_message (recv ch) \<le> r_count ch))"

definition generations_ok :: "pok_channel_queuing \<times> partitions \<Rightarrow> bool" where
  "generations_ok = (\<lambda>(ch, parts). \<forall>sd. side_generation (channel_side_of sd ch)
     \<le> partition_generation (parts (side_part (channel_side_of sd ch))))"

lemma qc_inv_bounds: "qc_inv parts ch \<Longrightarrow> qc_bounds parts ch"
  by (auto simp: qc_inv_def qc_bounds_def)

lemma store_counts:
  assumes "qc_static ch" "s_count ch < side_max_nb_message (send ch)"
    "r_count ch + s_count ch + 1 < max_nb_message ch \<or> \<not> r_count ch < side_max_nb_message (recv ch)"
  shows "s_count (store_result bytes parts ch) =
      (if side_live RecvSide parts ch \<and> side_max_nb_message (recv ch) \<le> r_count ch
          \<and> overflow ch = JET_CHANNEL_QUEUING_SENDER_BLOCK then s_count ch + 1 else 0)"
    and "side_live RecvSide parts ch \<Longrightarrow> r_count (store_result bytes parts ch) =
      (if r_count ch < side_max_nb_message (recv ch) then r_count ch + s_count ch + 1 else r_count ch)"
proof -
  have d: "overflow ch \<noteq> JET_CHANNEL_QUEUING_RECEIVER_DISCARD \<longleftrightarrow> overflow ch = JET_CHANNEL_QUEUING_SENDER_BLOCK"
    by (cases "overflow ch") simp_all
  show "s_count (store_result bytes parts ch) =
      (if side_live RecvSide parts ch \<and> side_max_nb_message (recv ch) \<le> r_count ch
          \<and> overflow ch = JET_CHANNEL_QUEUING_SENDER_BLOCK then s_count ch + 1 else 0)"
    using backlog_counts(3) [OF assms(1,2) refl, of bytes] d
    by (auto simp: store_result_def Let_def s_count_def cyc_count_def adv_send_def split: if_splits)
  show "r_count (store_result bytes parts ch) =
      (if r_count ch < side_max_nb_message (recv ch) then r_count ch + s_count ch + 1 else r_count ch)"
    if "side_live RecvSide parts ch"
    using assms that
    by (auto simp: store_result_def Let_def r_count_def s_count_def cyc_count_def adv_send_def qc_static_def
        split: if_splits)
qed

lemma qc_bounds_store:
  assumes "qc_bounds parts ch" "side_live SendSide parts ch" "s_count ch < side_max_nb_message (send ch)"
  shows "qc_bounds parts (store_result bytes parts ch)"
proof -
  have st: "qc_static ch" using assms(1) by (simp add: qc_bounds_def)
  show ?thesis
  proof (cases "side_live RecvSide parts ch")
    case False
    then show ?thesis using store_dead [OF False, of bytes] store_static [OF st, of bytes parts]
      by (simp add: qc_bounds_def store_frame)
  next
    case True
    have n: "max_nb_message ch = side_max_nb_message (recv ch) + side_max_nb_message (send ch)"
      "0 < side_max_nb_message (recv ch)"
      using st by (simp_all add: qc_static_def)
    have "r_count ch + s_count ch + 1 < max_nb_message ch \<or> \<not> r_count ch < side_max_nb_message (recv ch)"
      and "r_count ch < side_max_nb_message (recv ch) \<Longrightarrow> r_count ch = 0 \<or> s_count ch = 0"
      using assms True n by (auto simp: qc_bounds_def)
    then show ?thesis
      using store_counts(1) [OF st assms(3), of bytes parts] store_counts(2) [OF st assms(3), of parts bytes]
        assms True store_static [OF st, of bytes parts]
      by (auto simp: qc_bounds_def store_frame)
  qed
qed

lemma qc_bounds_consume:
  assumes "qc_bounds parts ch" "side_live RecvSide parts ch" "0 < r_count ch"
  shows "qc_bounds parts (consume_result parts ch)"
proof -
  have st: "qc_static ch" using assms(1) by (simp add: qc_bounds_def)
  show ?thesis
    using consume_counts(1,2) [OF st assms(3) s_count_lt [OF st], of parts] assms consume_static [OF st, of parts]
    by (auto simp: qc_bounds_def consume_frame)
qed

lemma qc_bounds_init:
  "qc_bounds parts ch \<Longrightarrow> qc_bounds parts (pok_channel_queuing_side_init sd hid parts ch)"
  using side_init_frame(9) [of SendSide sd hid parts ch] side_init_frame(9) [of RecvSide sd hid parts ch]
  by (cases sd) (auto simp: qc_bounds_def side_init_static side_init_frame)

lemma qc_bounds_notify:
  assumes "channel_queuing_side_notify sd ty (ch, parts) = Some (ch', parts')" "qc_bounds parts ch"
  shows "qc_bounds parts' ch'"
proof -
  have "side_max_nb_message (channel_side_of sd' ch') = side_max_nb_message (channel_side_of sd' ch)" for sd'
    unfolding side_notify_Some(1) [OF assms(1)] by (cases sd; cases sd') simp_all
  from this [of SendSide] this [of RecvSide]
  show ?thesis using assms(2) side_notify_Some [OF assms(1)] side_live_parts [of parts' parts]
    by (simp add: qc_bounds_def del: upd_side.simps)
qed

definition chan_bounds :: "pok_channel_queuing \<times> partitions \<Rightarrow> bool" where
  "chan_bounds = (\<lambda>(ch, parts). qc_bounds parts ch \<and> generations_ok (ch, parts))"

lemma chan_bounds_notified:
  assumes "ch' = ch1 \<and> parts' = parts
      \<or> (\<exists>ty. channel_queuing_side_notify sd ty (ch1, parts) = Some (ch', parts'))"
    and "qc_bounds parts ch1" and "same_sides (ch, parts) (ch1, parts)" and "generations_ok (ch, parts)"
  shows "chan_bounds (ch', parts')"
proof -
  have "qc_bounds parts' ch' \<and> same_sides (ch, parts) (ch', parts')"
    using assms(1)
  proof
    assume "\<exists>ty. channel_queuing_side_notify sd ty (ch1, parts) = Some (ch', parts')"
    then obtain ty where n: "channel_queuing_side_notify sd ty (ch1, parts) = Some (ch', parts')" by blast
    show ?thesis
      using qc_bounds_notify [OF n assms(2)] same_sides_trans [OF assms(3) same_sides_notify [OF n]] by simp
  qed (use assms in simp)
  then show ?thesis using assms(4) by (simp add: chan_bounds_def generations_ok_def same_sides_def)
qed

lemma chan_bounds_sent:
  assumes "chan_bounds (ch, parts)" "side_live SendSide parts ch"
    "0 < length bytes" "length bytes \<le> max_message_size ch"
    "channel_send bytes (ch, parts) = Some (Some (ch', parts'))"
  shows "chan_bounds (ch', parts')"
proof -
  have b: "qc_bounds parts ch" "generations_ok (ch, parts)" using assms(1) by (simp_all add: chan_bounds_def)
  then have st: "qc_static ch" by (simp add: qc_bounds_def)
  have room: "s_count ch < side_max_nb_message (send ch)"
    using channel_send_result [OF st assms(3,4), of parts] assms(5) by (auto split: if_splits)
  have "ch' = store_result bytes parts ch \<and> parts' = parts \<or> (\<exists>ty. channel_queuing_side_notify RecvSide ty
      (store_result bytes parts ch, parts) = Some (ch', parts'))"
    using assms(5) [unfolded channel_send_result [OF st assms(3,4)]] by (auto split: if_splits)
  then show ?thesis
    by (rule chan_bounds_notified [OF _ qc_bounds_store [OF b(1) assms(2) room] same_sides_store b(2)])
qed

lemma chan_bounds_discarded [simp]: "chan_bounds (ch\<lparr>message_discarded := b\<rparr>, parts) = chan_bounds (ch, parts)"
proof -
  have "side_generation (channel_side_of sd (ch\<lparr>message_discarded := b\<rparr>)) = side_generation (channel_side_of sd ch)"
    "side_part (channel_side_of sd (ch\<lparr>message_discarded := b\<rparr>)) = side_part (channel_side_of sd ch)" for sd
    by (cases sd; simp)+
  then show ?thesis
    by (simp add: chan_bounds_def generations_ok_def qc_bounds_def qc_static_def s_count_def r_count_def
        side_live_def)
qed

lemma chan_bounds_received:
  assumes "chan_bounds (ch, parts)" "side_live RecvSide parts ch"
    "channel_receive (ch, parts) = Some (r, ch', parts')"
  shows "chan_bounds (ch', parts')"
proof -
  have b: "qc_bounds parts ch" "generations_ok (ch, parts)" using assms(1) by (simp_all add: chan_bounds_def)
  then have st: "qc_static ch" by (simp add: qc_bounds_def)
  show ?thesis
  proof (cases "r_count ch = 0")
    case True
    then show ?thesis using assms channel_receive_empty [OF st] by simp
  next
    case False
    then have ne: "0 < r_count ch" by simp
    obtain ch1 where ch1: "ch' = ch1\<lparr>message_discarded := False\<rparr>"
        "ch1 = consume_result parts ch \<and> parts' = parts \<or> (\<exists>ty. channel_queuing_side_notify SendSide ty
        (consume_result parts ch, parts) = Some (ch1, parts'))"
      using assms(3) [unfolded channel_receive_result [OF st ne]] by (auto split: if_splits)
    from ch1(2) have "chan_bounds (ch1, parts')"
      by (rule chan_bounds_notified [OF _ qc_bounds_consume [OF b(1) assms(2) ne] same_sides_consume b(2)])
    then show ?thesis unfolding ch1(1) by simp
  qed
qed

lemma chan_bounds_subscribed:
  assumes "chan_bounds (ch, parts)"
  shows "chan_bounds (upd_side sd (\<lambda>s. s\<lparr>is_notify := True\<rparr>) ch, parts)"
proof -
  have "side_max_nb_message (channel_side_of sd' (upd_side sd (\<lambda>s. s\<lparr>is_notify := True\<rparr>) ch))
      = side_max_nb_message (channel_side_of sd' ch)"
    "side_generation (channel_side_of sd' (upd_side sd (\<lambda>s. s\<lparr>is_notify := True\<rparr>) ch))
      = side_generation (channel_side_of sd' ch)"
    "side_part (channel_side_of sd' (upd_side sd (\<lambda>s. s\<lparr>is_notify := True\<rparr>) ch))
      = side_part (channel_side_of sd' ch)" for sd'
    by (cases sd; cases sd'; simp)+
  from this(1) [of SendSide] this(1) [of RecvSide] this(2,3)
  show ?thesis using assms
    by (simp add: chan_bounds_def qc_bounds_def generations_ok_def del: upd_side.simps)
qed

lemma chan_bounds_restart:
  assumes "chan_bounds (ch, parts)" "partition_generation (parts p) + 1 < 2 ^ 32"
  shows "chan_bounds (ch, restart_partition p parts)"
proof -
  have g: "partition_generation (restart_partition p parts q)
      = (if q = p then partition_generation (parts p) + 1 else partition_generation (parts q))" for q
    using assms(2) by (simp add: restart_partition_def next_generation_def Let_def)
  have le: "side_generation (channel_side_of sd ch) \<le> partition_generation (parts (side_part (channel_side_of sd ch)))"
    for sd using assms(1) by (simp add: chan_bounds_def generations_ok_def)
  have dead: "side_live sd (restart_partition p parts) ch \<Longrightarrow> side_live sd parts ch" for sd
    using le [of sd] by (auto simp: side_live_def g split: if_splits)
  have "qc_bounds parts ch" using assms(1) by (simp add: chan_bounds_def)
  then have "qc_bounds (restart_partition p parts) ch" using dead by (auto simp: qc_bounds_def)
  then show ?thesis using le by (auto simp: chan_bounds_def generations_ok_def g intro: le_SucI)
qed

lemma chan_bounds_init:
  assumes "chan_bounds (ch, parts)"
  shows "chan_bounds (pok_channel_queuing_side_init sd hid parts ch, parts)"
proof -
  have "side_generation (channel_side_of sd' (pok_channel_queuing_side_init sd hid parts ch))
      \<le> partition_generation (parts (side_part (channel_side_of sd' (pok_channel_queuing_side_init sd hid parts ch))))"
    for sd'
    using assms by (cases sd; cases sd')
      (auto simp: chan_bounds_def generations_ok_def pok_channel_queuing_side_init_def dest: spec [of _ sd'])
  then show ?thesis using assms qc_bounds_init by (simp add: chan_bounds_def generations_ok_def)
qed

lemma chan_bounds_step: "chan_step s s' \<Longrightarrow> chan_bounds s \<Longrightarrow> chan_bounds s'"
proof (induction rule: chan_step.induct)
  case (sent parts ch bytes st')
  then show ?case by (cases st') (blast intro: chan_bounds_sent)
next
  case (received parts ch r st')
  then show ?case by (cases st') (blast intro: chan_bounds_received)
qed (auto intro: chan_bounds_init chan_bounds_restart
    dest!: sender_subscribed receiver_subscribed simp del: upd_side.simps intro!: chan_bounds_subscribed)

lemma chan_bounds_reachable: "chan_step\<^sup>*\<^sup>* s s' \<Longrightarrow> chan_bounds s \<Longrightarrow> chan_bounds s'"
  by (induction rule: rtranclp_induct) (auto intro: chan_bounds_step)


lemma example_chan_config: "chan_config (example_channel ov)"
  by (simp add: chan_config_def example_channel_defs)


text \<open>
  C9: a side that subscribed is notified: the message that arrives in the receiver's empty
  buffer puts the event with the receiver's handler into its partition's queue and clears the
  subscription.
\<close>

theorem subscribed_receiver_notified:
  assumes "chan_open (ch, parts)" and "r_count ch = 0" and "is_notify (recv ch)"
    and "0 < length bytes" and "length bytes \<le> max_message_size ch"
  shows "\<exists>ch' parts'. channel_send bytes (ch, parts) = Some (Some (ch', parts'))
     \<and> \<not> is_notify (recv ch')
     \<and> ev_list (parts' (side_part (recv ch))) = ev_list (parts (side_part (recv ch)))
         @ [\<lparr>event_handler_id = u16 (side_handler_id (recv ch)),
             event_type = JET_PARTITION_EVENT_TYPE_PORT_RECEIVE_AVAILABLE\<rparr>]"
proof -
  note f = chan_open_facts [OF assms(1)]
  let ?st = "store_result bytes parts ch" and ?p = "parts (side_part (recv ch))"
    and ?ty = JET_PARTITION_EVENT_TYPE_PORT_RECEIVE_AVAILABLE
  have rs: "0 < side_max_nb_message (recv ch)" "0 < side_max_nb_message (send ch)"
    using f(1) by (simp_all add: qc_static_def)
  have s0: "s_count ch = 0" using f(6) rs assms(2) by (cases "s_count ch") auto
  have hid: "side_handler_id (recv ?st) = side_handler_id (recv ch)" "is_notify (recv ?st)"
      "side_part (recv ?st) = side_part (recv ch)"
    using assms(3) by (simp_all add: store_result_def adv_send_def Let_def)
  have wf: "ev_wf ?p" "ev_count ?p < partition_event_max ?p"
    using f(12) assms(3) by (simp_all add: notify_room_def Let_def)
  obtain p' where p': "pok_partition_add_event ?ty (side_handler_id (recv ch)) ?p = Some p'"
    using wf by (simp add: pok_partition_add_event_eq)
  have "channel_send bytes (ch, parts) = Some (Some
      (upd_side RecvSide (\<lambda>s. s\<lparr>is_notify := False\<rparr>) ?st, parts(side_part (recv ch) := p')))"
    using channel_send_result [OF f(1) assms(4,5), of parts] assms(2) s0 rs f(10) hid p'
    by (simp add: channel_queuing_side_notify_def Let_def)
  then show ?thesis using ev_list_add [OF wf(1) p'] by simp
qed

theorem subscribed_receiver_notified_witness:
  "\<exists>ch parts'. channel_send [1] (upd_side RecvSide (\<lambda>s. s\<lparr>is_notify := True\<rparr>)
       (example_channel JET_CHANNEL_QUEUING_SENDER_BLOCK), example_parts) = Some (Some (ch, parts'))
     \<and> ev_list (parts' 1) \<noteq> []"
proof -
  let ?ch = "upd_side RecvSide (\<lambda>s. s\<lparr>is_notify := True\<rparr>) (example_channel JET_CHANNEL_QUEUING_SENDER_BLOCK)"
  have p: "ev_wf (example_parts q)" "ev_count (example_parts q) < partition_event_max (example_parts q)" for q
    by (simp_all add: ev_wf_def ev_count_def example_parts_def example_partition_def)
  have inv: "qc_inv example_parts ?ch"
    using example_channel_open by (simp only: qc_inv_notify chan_open_def split_conv)
  have live: "side_live SendSide example_parts ?ch" "side_live RecvSide example_parts ?ch"
    by (simp_all add: side_live_def) (simp_all add: example_channel_defs)
  have sides: "side_part (send ?ch) = 0" "side_part (recv ?ch) = 1" "is_notify (recv ?ch)"
      "max_message_size ?ch = 4"
    by (simp_all add: example_channel_def example_side_def)
  have op: "chan_open (?ch, example_parts)"
    unfolding chan_open_def split_conv notify_room_def Let_def using inv live p sides by simp
  have r: "r_count ?ch = 0" using example_channel_counts(2) by (simp only: notify_channel_simps)
  obtain ch' parts' where c: "channel_send [1] (?ch, example_parts) = Some (Some (ch', parts'))"
      "ev_list (parts' (side_part (recv ?ch))) \<noteq> []"
    using subscribed_receiver_notified [OF op r sides(3), of "[1]"] sides(4) by auto
  then show ?thesis unfolding sides(2) by blast
qed

text \<open>
  C10: a receiver that connects again while the sender's buffer is full, as after a restart of
  its partition or by \<open>CLEAR_QUEUING_PORT\<close>, leaves the channel dead: the receiver sees no
  message and the sender no free slot, with or without a subscription, and neither refused
  operation changes that.
\<close>

theorem reconnect_deadlock:
  assumes "chan_inv (ch, parts)" and "s_count ch = side_max_nb_message (send ch)"
    and "0 < length bytes" and "length bytes \<le> max_message_size ch"
    and ch': "ch' = pok_channel_queuing_side_init RecvSide hid parts ch"
  shows "channel_send bytes (ch', parts) = Some None
     \<and> channel_receive (ch', parts) = Some (None, ch', parts)
     \<and> pok_channel_queuing_s_get_message sub ch'
         = Some (None, if sub then upd_side SendSide (\<lambda>s. s\<lparr>is_notify := True\<rparr>) ch' else ch')
     \<and> pok_channel_queuing_r_get_message sub ch'
         = Some (None, if sub then upd_side RecvSide (\<lambda>s. s\<lparr>is_notify := True\<rparr>) ch' else ch')"
proof -
  have st: "qc_static ch" using assms(1) by (simp add: chan_inv_def qc_inv_def)
  then have st': "qc_static ch'" unfolding ch' by (rule side_init_static)
  have n: "r_count ch' = 0" "s_count ch' = side_max_nb_message (send ch')"
      "max_message_size ch' = max_message_size ch"
    unfolding ch' using assms(2) side_init_frame(9) [of SendSide RecvSide hid parts ch]
    by (simp_all add: side_init_frame)
  have "next_message (recv ch') = border ch'" using r_count_0 [OF st'] n(1) by simp
  then show ?thesis
    using channel_send_result [OF st' assms(3)] channel_receive_empty [OF st'] n assms(4) cyclic_sub_counts [OF st']
    by (simp add: pok_channel_queuing_s_get_message_def pok_channel_queuing_r_get_message_def Let_def)
qed

definition example_backlog_channel :: pok_channel_queuing where
  "example_backlog_channel = (example_channel JET_CHANNEL_QUEUING_SENDER_BLOCK)
     \<lparr>message_sizes := [1, 1, 1], border := 2\<rparr>"

theorem reconnect_deadlock_witness:
  "channel_receive (pok_channel_queuing_side_init RecvSide 0 example_parts example_backlog_channel, example_parts)
     = Some (None, pok_channel_queuing_side_init RecvSide 0 example_parts example_backlog_channel, example_parts)
   \<and> channel_send [1] (pok_channel_queuing_side_init RecvSide 0 example_parts example_backlog_channel, example_parts)
     = Some None"
proof -
  have counts: "r_count example_backlog_channel = 2" "s_count example_backlog_channel = 1"
      "qc_static example_backlog_channel" "max_message_size example_backlog_channel = 4"
      "side_max_nb_message (recv example_backlog_channel) = 2"
      "side_max_nb_message (send example_backlog_channel) = 1"
      "overflow example_backlog_channel = JET_CHANNEL_QUEUING_SENDER_BLOCK"
    by (simp_all add: example_backlog_channel_def example_channel_defs r_count_def s_count_def cyc_count_def
        qc_static_def)
  have "slots_ok example_backlog_channel 3"
    by (simp add: slots_ok_def slot_def cyc_pos_def example_backlog_channel_def example_channel_defs
        less_Suc_eq numeral_3_eq_3)
  then have "qc_inv example_parts example_backlog_channel"
    using slots_ok_le [of example_backlog_channel 3 2] by (simp add: qc_inv_def counts)
  moreover have "side_generation (channel_side_of sd example_backlog_channel) = 1" for sd
    by (cases sd) (simp_all add: example_backlog_channel_def example_channel_def example_side_def)
  ultimately have inv: "chan_inv (example_backlog_channel, example_parts)"
    by (simp add: chan_inv_def example_parts_def example_partition_def)
  show ?thesis using reconnect_deadlock [OF inv _ _ _ refl, of "[1]" 0] by (simp add: counts)
qed

text \<open>
  The larger bound of \<open>channel_queuing_bounds\<close> is reached, and then messages are lost: with a
  receiver's buffer for one message and a sender's for three, a receiver that connects over two
  waiting messages owns three after the next one; two more are accepted from the sender, and
  the second of them overwrites the message that the receiver is to read first.
\<close>

definition example_narrow_channel :: pok_channel_queuing where
  "example_narrow_channel = (example_channel JET_CHANNEL_QUEUING_SENDER_BLOCK)
     \<lparr>max_nb_message := 4, message_sizes := [1, 1, 1, 1], messages := (\<lambda>a. if a = 0 then 8 else 9),
      recv := (example_side 1 1)\<lparr>next_message := 3\<rparr>,
      send := (example_side 3 0)\<lparr>next_message := 2\<rparr>\<rparr>"

lemma reconnect_overwrites:
  "\<exists>st1 st2 st3 st4. channel_send [1]
       (pok_channel_queuing_side_init RecvSide 0 example_parts example_narrow_channel, example_parts)
       = Some (Some st1)
     \<and> pok_channel_queuing_r_n_messages (fst st1) = 3
     \<and> channel_send [2] st1 = Some (Some st2) \<and> channel_send [3] st2 = Some (Some st3)
     \<and> channel_receive st1 = Some (Some ([8], False), st4)
     \<and> (\<exists>st5. channel_receive st3 = Some (Some ([3], False), st5))"
  by (simp add: example_narrow_channel_def example_channel_defs channel_send_def channel_receive_def
      pok_channel_queuing_s_get_message_def pok_channel_queuing_s_produce_message_def
      pok_channel_queuing_r_get_message_def pok_channel_queuing_r_consume_message_def
      pok_channel_queuing_side_init_def channel_queuing_cyclic_sub_def channel_queuing_cyclic_add_def
      channel_queuing_message_at_def channel_queuing_side_notify_def pok_channel_queuing_r_n_messages_def
      mem_read_def memcpy_def Let_def nth_Cons')

end
