(* ===== verification/Sched.thy ===== *)
theory Sched
  imports QueuingChannel
begin

section \<open>The global scheduler\<close>

text \<open>
  \<open>kernel/core/sched.c\<close>: the module's schedule is a cyclic table of slots, each with a
  duration and a partition. The scheduler changes to the next slot when its deadline is
  reached, starts partitions whose stack pointer is \<open>NULL\<close>, and delivers timer events. The
  state is that of the static variables together with all partitions; the tables of
  \<open>deployment.c\<close> are fields of it. A switch of contexts is the choice of the context that
  continues; what the old context does when it is resumed is a step of its own
  (\<open>pok_sched_resumed\<close>).
\<close>

record pok_sched_slot =
  slot_duration :: nat
  slot_partition :: nat
  periodic_processing_start :: bool

text \<open>The context that runs: the one of a partition or that of the idle function, which runs
  in place of a partition the monitor has paused.\<close>

datatype run_context = PartContext nat | IdleContext

record gsched =
  module_sched :: "pok_sched_slot list"
  scheduling_major_frame :: pok_time
  first_frame_starts :: pok_time
  sched_next_deadline :: pok_time
  sched_next_major_frame :: pok_time
  sched_current_slot :: nat
  sched_need_recheck :: bool
  current_partition :: nat
  current_partition_is_paused :: bool

type_synonym gstate = "gsched \<times> partitions"

subsection \<open>Starting and switching partitions\<close>

definition pok_partition_reset :: "pok_partition \<Rightarrow> pok_partition" where
  "pok_partition_reset part = part\<lparr>part_sp := False, restarted_externally := True,
     partition_generation := next_generation (partition_generation part),
     partition_event_begin := 0, partition_event_end := 0\<rparr>"

text \<open>The first steps of a started partition, up to the call of its \<open>start\<close> operation.\<close>

definition start_partition :: "pok_partition \<Rightarrow> pok_partition" where
  "start_partition part = part\<lparr>is_event := False, partition_event_begin := 0,
     partition_event_end := 0, preempt_local_disabled := True\<rparr>"

definition partition_context :: "bool \<Rightarrow> nat \<Rightarrow> run_context" where
  "partition_context paused p = (if paused then IdleContext else PartContext p)"

text \<open>A context whose stack pointer is \<open>NULL\<close> is set up to run \<open>start_partition\<close>.\<close>

fun enter_context :: "run_context \<Rightarrow> partitions \<Rightarrow> partitions" where
  "enter_context IdleContext parts = parts"
| "enter_context (PartContext p) parts =
     (if part_sp (parts p) then parts else parts(p := start_partition ((parts p)\<lparr>part_sp := True\<rparr>)))"

definition intra_partition_switch :: "gstate \<Rightarrow> run_context \<times> gstate" where
  "intra_partition_switch = (\<lambda>(gs, parts).
     let p = current_partition gs;
         old = partition_context (current_partition_is_paused gs) p;
         new = partition_context (is_paused (parts p)) p
     in if old \<noteq> new
        then (new, gs\<lparr>current_partition_is_paused := is_paused (parts p)\<rparr>, enter_context new parts)
        else (old, gs, enter_context old parts))"

definition inter_partition_switch :: "nat \<Rightarrow> gstate \<Rightarrow> run_context \<times> gstate" where
  "inter_partition_switch p = (\<lambda>(gs, parts).
     let old = partition_context (current_partition_is_paused gs) (current_partition gs);
         new = partition_context (is_paused (parts p)) p;
         gs = gs\<lparr>current_partition := p\<rparr>
     in if old = new then (old, gs, parts)
        else (new, gs\<lparr>current_partition_is_paused := is_paused (parts p)\<rparr>, enter_context new parts))"

text \<open>\<open>all\<close> are the partitions that \<open>for_each_partition\<close> visits.\<close>

definition pok_sched_restart :: "nat set \<Rightarrow> pok_time \<Rightarrow> gstate \<Rightarrow> (run_context \<times> gstate) option" where
  "pok_sched_restart all now = (\<lambda>(gs, parts). do {
     kassert (0 < length (module_sched gs));
     let parts = (\<lambda>p. if p \<in> all then pok_partition_reset (parts p) else parts p);
     let first = module_sched gs ! 0;
     let p = slot_partition first;
     let gs = gs\<lparr>first_frame_starts := now, sched_need_recheck := False, sched_current_slot := 0,
                 sched_next_major_frame := time_add now (scheduling_major_frame gs),
                 sched_next_deadline := time_add (int (slot_duration first)) now,
                 current_partition := p, current_partition_is_paused := is_paused (parts p)\<rparr>;
     let new = partition_context (is_paused (parts p)) p;
     Some (new, gs, enter_context new parts)
   })"

subsection \<open>Slots\<close>

text \<open>The change to the next slot.\<close>

definition next_slot :: "gsched \<Rightarrow> gsched option" where
  "next_slot gs = do {
     let slot = u8 (sched_current_slot gs + 1);
     let gs = (if slot = length (module_sched gs)
               then gs\<lparr>sched_next_major_frame :=
                        time_add (sched_next_major_frame gs) (scheduling_major_frame gs),
                      sched_current_slot := 0\<rparr>
               else gs\<lparr>sched_current_slot := slot\<rparr>);
     kassert (sched_current_slot gs < length (module_sched gs));
     Some (gs\<lparr>sched_next_deadline := time_add (sched_next_deadline gs)
              (int (slot_duration (module_sched gs ! sched_current_slot gs)))\<rparr>)
   }"

text \<open>\<open>None\<close> in the result says that the running context was not asked to change.\<close>

definition pok_sched :: "pok_time \<Rightarrow> gstate \<Rightarrow> (run_context option \<times> gstate) option" where
  "pok_sched now = (\<lambda>(gs, parts).
     if \<not> sched_need_recheck gs then Some (None, gs, parts)
     else let gs = gs\<lparr>sched_need_recheck := False\<rparr> in
       if sched_next_deadline gs > now then Some (apfst Some (intra_partition_switch (gs, parts)))
       else do {
         gs \<leftarrow> next_slot gs;
         let new_partition = slot_partition (module_sched gs ! sched_current_slot gs);
         if new_partition = current_partition gs
         then Some (apfst Some (intra_partition_switch (gs, parts)))
         else Some (apfst Some (inter_partition_switch new_partition (gs, parts)))
       })"

text \<open>The timer check, made when a partition's slot begins again and at every tick.\<close>

definition check_timer :: "pok_time \<Rightarrow> pok_partition \<Rightarrow> pok_partition option" where
  "check_timer now part =
     (if timer part \<noteq> 0 \<and> timer part \<le> now
      then map_option (\<lambda>part. part\<lparr>timer := 0\<rparr>)
             (pok_partition_add_event JET_PARTITION_EVENT_TYPE_TIMER 0 part)
      else Some part)"

text \<open>What \<open>pok_sched\<close> does for partition \<open>p\<close> when the switch to another one returns.\<close>

definition pok_sched_resumed :: "nat \<Rightarrow> pok_time \<Rightarrow> gstate \<Rightarrow> gstate option" where
  "pok_sched_resumed p now = (\<lambda>(gs, parts). do {
     part \<leftarrow> check_timer now (parts p);
     Some (gs, parts(p := part))
   })"

text \<open>\<open>pok_sched_on_time_changed\<close> without a switch of the partition: the tick of the clock
  inside a slot. The result says whether \<open>on_event\<close> of the partition has to be called.\<close>

definition pok_sched_on_time_changed ::
  "pok_time \<Rightarrow> pok_time \<Rightarrow> gstate \<Rightarrow> (bool \<times> run_context option \<times> gstate) option" where
  "pok_sched_on_time_changed now current_time = (\<lambda>(gs, parts). do {
     let p = current_partition gs;
     (ctx, gs, parts) \<leftarrow> pok_sched now (gs\<lparr>sched_need_recheck := True\<rparr>, parts);
     if current_partition gs \<noteq> p then Some (False, ctx, gs, parts)
     else if current_partition_is_paused gs then Some (False, ctx, gs, parts)
     else do {
       let preempt_local_disabled_old = preempt_local_disabled (parts p);
       part \<leftarrow> check_timer current_time (parts p);
       if preempt_local_disabled_old \<or> \<not> is_event part
       then Some (False, ctx, gs, parts(p := part))
       else Some (True, ctx, gs, parts(p := part\<lparr>preempt_local_disabled := True\<rparr>))
     }
   })"

definition pok_partition_restart :: "gstate \<Rightarrow> gstate" where
  "pok_partition_restart = (\<lambda>(gs, parts).
     let p = current_partition gs
     in (gs\<lparr>sched_need_recheck := True\<rparr>,
         parts(p := (parts p)\<lparr>partition_generation := next_generation (partition_generation (parts p)),
                               part_sp := False\<rparr>)))"

subsection \<open>Release points of periodic processes\<close>

fun find_periodic_start :: "gsched \<Rightarrow> nat \<Rightarrow> nat \<Rightarrow> pok_time \<Rightarrow> pok_time option" where
  "find_periodic_start gs 0 time_slot_index offset = None"
| "find_periodic_start gs (Suc n) time_slot_index offset =
     (let index = (if time_slot_index + 1 = length (module_sched gs) then 0 else time_slot_index + 1)
      in if index < length (module_sched gs) then
           (let slot = module_sched gs ! index in
            if periodic_processing_start slot \<and> slot_partition slot = current_partition gs
            then Some offset
            else find_periodic_start gs n index (time_add offset (int (slot_duration slot))))
         else None)"

definition get_next_periodic_processing_start :: "gsched \<Rightarrow> pok_time option" where
  "get_next_periodic_processing_start gs =
     find_periodic_start gs (length (module_sched gs)) (sched_current_slot gs) (sched_next_deadline gs)"

subsection \<open>Slots follow the table\<close>

definition sched_wf :: "gsched \<Rightarrow> bool" where
  "sched_wf gs \<longleftrightarrow> 0 < length (module_sched gs) \<and> length (module_sched gs) \<le> 255
     \<and> sched_current_slot gs < length (module_sched gs)"

definition slots_before :: "gsched \<Rightarrow> nat \<Rightarrow> int" where
  "slots_before gs i = (\<Sum>slot \<leftarrow> take i (module_sched gs). int (slot_duration slot))"

text \<open>The deadline of the current slot is where the table puts it in the current major frame.\<close>

definition sched_aligned :: "gsched \<Rightarrow> bool" where
  "sched_aligned gs \<longleftrightarrow> sched_wf gs
     \<and> slots_before gs (length (module_sched gs)) = scheduling_major_frame gs
     \<and> scheduling_major_frame gs \<le> sched_next_major_frame gs \<and> 0 \<le> scheduling_major_frame gs
     \<and> sched_next_deadline gs = sched_next_major_frame gs - scheduling_major_frame gs
          + slots_before gs (sched_current_slot gs + 1)"

lemma next_slot_eq:
  assumes "sched_wf gs"
  shows "next_slot gs =
    (let last = (sched_current_slot gs + 1 = length (module_sched gs));
         slot = (if last then 0 else sched_current_slot gs + 1)
     in Some (gs\<lparr>sched_current_slot := slot,
          sched_next_major_frame := (if last then time_add (sched_next_major_frame gs) (scheduling_major_frame gs)
             else sched_next_major_frame gs),
          sched_next_deadline := time_add (sched_next_deadline gs) (int (slot_duration (module_sched gs ! slot)))\<rparr>))"
proof -
  have "u8 (sched_current_slot gs + 1) = sched_current_slot gs + 1"
    using assms by (intro u8_small) (simp add: sched_wf_def)
  then show ?thesis using assms by (cases gs) (auto simp: next_slot_def sched_wf_def Let_def)
qed

lemma next_slot_wf: "sched_wf gs \<Longrightarrow> next_slot gs = Some gs' \<Longrightarrow> sched_wf gs'
    \<and> module_sched gs' = module_sched gs \<and> current_partition gs' = current_partition gs
    \<and> scheduling_major_frame gs' = scheduling_major_frame gs"
  by (auto simp: next_slot_eq sched_wf_def Let_def)

lemma slots_before_Suc:
  "i < length (module_sched gs) \<Longrightarrow>
   slots_before gs (Suc i) = slots_before gs i + int (slot_duration (module_sched gs ! i))"
  by (simp add: slots_before_def take_Suc_conv_app_nth)

lemma slots_before_mono: "i \<le> j \<Longrightarrow> slots_before gs i \<le> slots_before gs j"
proof -
  assume "i \<le> j"
  then obtain k where j: "j = i + k" using le_Suc_ex by blast
  have "0 \<le> (\<Sum>slot \<leftarrow> xs. int (slot_duration slot))" for xs by (induction xs) auto
  then show ?thesis unfolding j by (simp add: slots_before_def take_add)
qed

lemma slots_before_nonneg: "0 \<le> slots_before gs i"
  using slots_before_mono [of 0 i gs] by (simp add: slots_before_def)

lemma sched_aligned_next_slot:
  assumes "sched_aligned gs" "next_slot gs = Some gs'"
    "sched_next_major_frame gs + scheduling_major_frame gs < 2 ^ 63"
  shows "sched_aligned gs'"
proof -
  have wf: "sched_wf gs" using assms(1) by (simp add: sched_aligned_def)
  let ?n = "length (module_sched gs)" and ?i = "sched_current_slot gs"
  have bounds: "0 < ?n" "?i < ?n" "0 \<le> scheduling_major_frame gs"
      "scheduling_major_frame gs \<le> sched_next_major_frame gs"
    using assms(1) by (simp_all add: sched_aligned_def sched_wf_def)
  have total: "slots_before gs ?n = scheduling_major_frame gs"
    and dl: "sched_next_deadline gs = sched_next_major_frame gs - scheduling_major_frame gs + slots_before gs (?i + 1)"
    using assms(1) by (simp_all add: sched_aligned_def)
  note sb = slots_before_def
  have sb': "slots_before gs' = slots_before gs"
    using next_slot_wf [OF wf assms(2)] by (simp add: slots_before_def fun_eq_iff)
  show ?thesis
  proof (cases "?i + 1 = ?n")
    case True
    have d0: "int (slot_duration (module_sched gs ! 0)) = slots_before gs 1"
      using bounds(1) slots_before_Suc [of 0 gs] by (simp add: slots_before_def)
    have le: "slots_before gs 1 \<le> scheduling_major_frame gs"
      using slots_before_mono [of 1 ?n gs] bounds total by simp
    have "time_add (sched_next_deadline gs) (slots_before gs 1) = sched_next_deadline gs + slots_before gs 1"
      using dl le assms(3) bounds total True slots_before_nonneg [of gs 1]
      by (intro time_add_exact) (simp add: is_time_def)
    moreover have "time_add (sched_next_major_frame gs) (scheduling_major_frame gs)
        = sched_next_major_frame gs + scheduling_major_frame gs"
      using assms(3) bounds by (intro time_add_exact) (simp add: is_time_def)
    ultimately show ?thesis
      using assms(1,2) next_slot_wf [OF wf assms(2)] True dl total bounds d0
      by (auto simp: sched_aligned_def next_slot_eq [OF wf] Let_def sb')
  next
    case False
    then have lt: "?i + 1 < ?n" using bounds by simp
    have d: "int (slot_duration (module_sched gs ! (?i + 1))) = slots_before gs (?i + 2) - slots_before gs (?i + 1)"
      using slots_before_Suc [OF lt] by simp
    have le: "slots_before gs (?i + 2) \<le> scheduling_major_frame gs"
      using slots_before_mono [of "?i + 2" ?n gs] lt total by simp
    have "time_add (sched_next_deadline gs) (slots_before gs (?i + 2) - slots_before gs (?i + 1))
        = sched_next_deadline gs + (slots_before gs (?i + 2) - slots_before gs (?i + 1))"
      using dl le assms(3) bounds slots_before_nonneg [of gs "?i + 2"]
      by (intro time_add_exact) (simp add: is_time_def)
    then show ?thesis
      using assms(1,2) next_slot_wf [OF wf assms(2)] False dl total bounds d
      by (auto simp: sched_aligned_def next_slot_eq [OF wf] Let_def sb' numeral_2_eq_2)
  qed
qed

text \<open>The switches change neither the table nor the slot; they run the partition that is given.\<close>

lemma intra_frame:
  assumes "intra_partition_switch (gs, parts) = (ctx, gs', parts')"
  shows "sched_aligned gs' = sched_aligned gs \<and> current_partition gs' = current_partition gs
     \<and> sched_current_slot gs' = sched_current_slot gs \<and> module_sched gs' = module_sched gs
     \<and> sched_next_deadline gs' = sched_next_deadline gs"
  using assms
  by (auto simp: intra_partition_switch_def Let_def sched_aligned_def sched_wf_def slots_before_def
      split: if_splits)

lemma inter_frame:
  assumes "inter_partition_switch p (gs, parts) = (ctx, gs', parts')"
  shows "sched_aligned gs' = sched_aligned gs \<and> current_partition gs' = p
     \<and> sched_current_slot gs' = sched_current_slot gs \<and> module_sched gs' = module_sched gs
     \<and> sched_next_deadline gs' = sched_next_deadline gs"
  using assms
  by (auto simp: inter_partition_switch_def Let_def sched_aligned_def sched_wf_def slots_before_def
      split: if_splits)

definition slot_current :: "gsched \<Rightarrow> bool" where
  "slot_current gs \<longleftrightarrow> current_partition gs = slot_partition (module_sched gs ! sched_current_slot gs)"

text \<open>The interval of the current slot: up to its deadline, over its duration; and the slot that
  the table puts at a time of the current major frame.\<close>

definition next_index :: "gsched \<Rightarrow> nat" where
  "next_index gs = (sched_current_slot gs + 1) mod length (module_sched gs)"

definition slot_holds :: "gsched \<Rightarrow> pok_time \<Rightarrow> bool" where
  "slot_holds gs t \<longleftrightarrow>
     sched_next_deadline gs - int (slot_duration (module_sched gs ! sched_current_slot gs)) \<le> t
     \<and> t < sched_next_deadline gs"

definition table_slot_at :: "gsched \<Rightarrow> nat \<Rightarrow> pok_time \<Rightarrow> bool" where
  "table_slot_at gs i t \<longleftrightarrow>
     sched_next_major_frame gs - scheduling_major_frame gs + slots_before gs i \<le> t
     \<and> t < sched_next_major_frame gs - scheduling_major_frame gs + slots_before gs (i + 1)"

lemma slot_holds_table:
  "sched_aligned gs \<Longrightarrow> slot_holds gs t = table_slot_at gs (sched_current_slot gs) t"
  by (auto simp: sched_aligned_def sched_wf_def slot_holds_def table_slot_at_def slots_before_Suc)

text \<open>A call is timely when it comes before the end of the slot after the current one.\<close>

definition timely :: "gsched \<Rightarrow> pok_time \<Rightarrow> bool" where
  "timely gs now \<longleftrightarrow> slot_holds gs now \<or> sched_next_deadline gs \<le> now
     \<and> now < sched_next_deadline gs + int (slot_duration (module_sched gs ! next_index gs))"

lemma next_slot_step:
  assumes "sched_aligned gs" "sched_next_major_frame gs + scheduling_major_frame gs < 2 ^ 63"
    "next_slot gs = Some g"
  shows "module_sched g = module_sched gs" "sched_current_slot g = next_index gs"
    "sched_next_deadline g = sched_next_deadline gs + int (slot_duration (module_sched gs ! next_index gs))"
proof -
  have wf: "sched_wf gs" using assms(1) by (simp add: sched_aligned_def)
  have lt: "sched_current_slot gs < length (module_sched gs)" using wf by (simp add: sched_wf_def)
  show same: "module_sched g = module_sched gs" and slot: "sched_current_slot g = next_index gs"
    using assms(3) lt by (auto simp: next_slot_eq [OF wf] Let_def next_index_def)
  have n: "next_index gs < length (module_sched gs)" using wf by (simp add: next_index_def sched_wf_def)
  have dur: "int (slot_duration (module_sched gs ! next_index gs)) \<le> scheduling_major_frame gs"
    using slots_before_Suc [OF n] slots_before_mono [of "Suc (next_index gs)" "length (module_sched gs)" gs]
      slots_before_nonneg [of gs "next_index gs"] n assms(1) by (simp add: sched_aligned_def)
  have "slots_before gs (sched_current_slot gs + 1) \<le> scheduling_major_frame gs"
    using slots_before_mono [of "sched_current_slot gs + 1" "length (module_sched gs)" gs] lt assms(1)
    by (simp add: sched_aligned_def)
  then have "is_time (sched_next_deadline gs + int (slot_duration (module_sched gs ! next_index gs)))"
    using dur assms(1,2) slots_before_nonneg [of gs "sched_current_slot gs + 1"]
    by (simp add: sched_aligned_def is_time_def)
  then show "sched_next_deadline g = sched_next_deadline gs + int (slot_duration (module_sched gs ! next_index gs))"
    using assms(3) lt by (auto simp: next_slot_eq [OF wf] Let_def next_index_def time_add_exact)
qed

lemma slot_aligned_recheck: "sched_aligned (gs\<lparr>sched_need_recheck := b\<rparr>) = sched_aligned gs"
  by (simp add: sched_aligned_def sched_wf_def slots_before_def)

text \<open>What a call of \<open>pok_sched\<close> does to the slot: nothing, or one step.\<close>

lemma pok_sched_slot:
  assumes "sched_aligned gs" "slot_current gs"
    "sched_next_major_frame gs + scheduling_major_frame gs < 2 ^ 63"
    "pok_sched now (gs, parts) = Some (ctx, gs', parts')"
  shows "sched_aligned gs' \<and> slot_current gs' \<and> module_sched gs' = module_sched gs
     \<and> (if sched_need_recheck gs \<and> sched_next_deadline gs \<le> now
        then sched_current_slot gs' = next_index gs
          \<and> sched_next_deadline gs' = sched_next_deadline gs + int (slot_duration (module_sched gs ! next_index gs))
        else sched_current_slot gs' = sched_current_slot gs
          \<and> sched_next_deadline gs' = sched_next_deadline gs)"
proof -
  let ?gs = "gs\<lparr>sched_need_recheck := False\<rparr>"
  have al: "sched_aligned ?gs" and cur: "slot_current ?gs"
    using assms(1,2) by (simp_all add: slot_aligned_recheck slot_current_def)
  have ix: "next_index ?gs = next_index gs" by (simp add: next_index_def)
  consider (none) "\<not> sched_need_recheck gs" | (same) "sched_need_recheck gs" "now < sched_next_deadline gs"
    | (change) "sched_need_recheck gs" "sched_next_deadline gs \<le> now" by linarith
  then show ?thesis
  proof cases
    case none
    then show ?thesis using assms by (simp add: pok_sched_def)
  next
    case same
    then obtain c where "intra_partition_switch (?gs, parts) = (c, gs', parts')"
      using assms(4) by (cases "intra_partition_switch (?gs, parts)") (auto simp: pok_sched_def)
    from intra_frame [OF this] show ?thesis using al cur same by (simp add: slot_current_def)
  next
    case change
    obtain g where g: "next_slot ?gs = Some g"
      using next_slot_eq al by (simp add: Let_def sched_aligned_def)
    have al': "sched_aligned g" by (rule sched_aligned_next_slot [OF al g]) (use assms(3) in simp)
    have "sched_next_major_frame ?gs + scheduling_major_frame ?gs < 2 ^ 63" using assms(3) by simp
    note step = next_slot_step [OF al this g, unfolded ix]
    show ?thesis
    proof (cases "slot_partition (module_sched g ! sched_current_slot g) = current_partition g")
      case True
      then obtain c where "intra_partition_switch (g, parts) = (c, gs', parts')"
        using assms(4) change g by (cases "intra_partition_switch (g, parts)") (auto simp: pok_sched_def)
      from intra_frame [OF this] show ?thesis using al' step change True by (simp add: slot_current_def)
    next
      case False
      then obtain c where "inter_partition_switch (slot_partition (module_sched g ! sched_current_slot g))
          (g, parts) = (c, gs', parts')"
        using assms(4) change g
        by (cases "inter_partition_switch (slot_partition (module_sched g ! sched_current_slot g)) (g, parts)")
          (auto simp: pok_sched_def)
      from inter_frame [OF this] show ?thesis using al' step change by (simp add: slot_current_def)
    qed
  qed
qed


definition example_sched :: gsched where
  "example_sched = \<lparr>module_sched = [\<lparr>slot_duration = 30, slot_partition = 0, periodic_processing_start = True\<rparr>,
       \<lparr>slot_duration = 70, slot_partition = 1, periodic_processing_start = True\<rparr>],
     scheduling_major_frame = 100, first_frame_starts = 0, sched_next_deadline = 30,
     sched_next_major_frame = 100, sched_current_slot = 0, sched_need_recheck = True,
     current_partition = 0, current_partition_is_paused = False\<rparr>"

lemma example_sched: "sched_aligned example_sched" "slot_current example_sched"
  by (simp_all add: sched_aligned_def sched_wf_def slots_before_def slot_current_def example_sched_def)


subsection \<open>Release points\<close>

fun next_slots :: "nat \<Rightarrow> gsched \<Rightarrow> gsched option" where
  "next_slots 0 gs = Some gs"
| "next_slots (Suc n) gs = Option.bind (next_slot gs) (next_slots n)"

definition periodic_slot :: "gsched \<Rightarrow> bool" where
  "periodic_slot gs \<longleftrightarrow> periodic_processing_start (module_sched gs ! sched_current_slot gs)
     \<and> slot_partition (module_sched gs ! sched_current_slot gs) = current_partition gs"

lemma find_periodic_start_step:
  assumes "sched_wf gs" "next_slot gs = Some gs'"
  shows "find_periodic_start gs (Suc n) (sched_current_slot gs) (sched_next_deadline gs) =
    (if periodic_slot gs' then Some (sched_next_deadline gs)
     else find_periodic_start gs' n (sched_current_slot gs') (sched_next_deadline gs'))"
proof -
  have same: "find_periodic_start gs' n i off = find_periodic_start gs n i off" for i off
    using next_slot_wf [OF assms] by (induction n arbitrary: i off) (simp_all add: Let_def)
  show ?thesis unfolding same using assms
    by (auto simp: next_slot_eq [OF assms(1)] Let_def periodic_slot_def sched_wf_def)
qed

lemma find_periodic_start_Some:
  "sched_wf gs \<Longrightarrow> find_periodic_start gs n (sched_current_slot gs) (sched_next_deadline gs) = Some t \<Longrightarrow>
   \<exists>k < n. \<exists>g g'. next_slots k gs = Some g \<and> next_slot g = Some g' \<and> periodic_slot g'
     \<and> t = sched_next_deadline g
     \<and> (\<forall>j < k. \<forall>h. next_slots (Suc j) gs = Some h \<longrightarrow> \<not> periodic_slot h)"
proof (induction n arbitrary: gs)
  case (Suc n)
  obtain gs' where gs': "next_slot gs = Some gs'" using next_slot_eq [OF Suc.prems(1)] by (simp add: Let_def)
  show ?case
  proof (cases "periodic_slot gs'")
    case True
    then show ?thesis using Suc.prems find_periodic_start_step [OF Suc.prems(1) gs', of n] gs'
      by (intro exI [of _ 0]) simp
  next
    case False
    then have f: "find_periodic_start gs' n (sched_current_slot gs') (sched_next_deadline gs') = Some t"
      using Suc.prems find_periodic_start_step [OF Suc.prems(1) gs', of n] by simp
    have wf': "sched_wf gs'" using next_slot_wf [OF Suc.prems(1) gs'] by simp
    obtain k g g' where k: "k < n" "next_slots k gs' = Some g" "next_slot g = Some g'" "periodic_slot g'"
        "t = sched_next_deadline g" "\<forall>j < k. \<forall>h. next_slots (Suc j) gs' = Some h \<longrightarrow> \<not> periodic_slot h"
      using Suc.IH [OF wf' f] by blast
    have "\<forall>j < Suc k. \<forall>h. next_slots (Suc j) gs = Some h \<longrightarrow> \<not> periodic_slot h"
    proof (intro allI impI)
      fix j h assume "j < Suc k" "next_slots (Suc j) gs = Some h"
      then show "\<not> periodic_slot h" using False gs' k(6) by (cases j) auto
    qed
    moreover have "next_slots (Suc k) gs = Some g" using gs' k(2) by simp
    ultimately show ?thesis using k by (intro exI [of _ "Suc k"] conjI exI [of _ g] exI [of _ g']) simp_all
  qed
qed simp

lemma find_periodic_start_None:
  "sched_wf gs \<Longrightarrow> find_periodic_start gs n (sched_current_slot gs) (sched_next_deadline gs) = None \<Longrightarrow>
   j < n \<Longrightarrow> next_slots (Suc j) gs = Some h \<Longrightarrow> \<not> periodic_slot h"
proof (induction n arbitrary: gs j)
  case (Suc n)
  obtain gs' where gs': "next_slot gs = Some gs'" using next_slot_eq [OF Suc.prems(1)] by (simp add: Let_def)
  have wf': "sched_wf gs'" using next_slot_wf [OF Suc.prems(1) gs'] by simp
  have n: "\<not> periodic_slot gs'"
    "find_periodic_start gs' n (sched_current_slot gs') (sched_next_deadline gs') = None"
    using Suc.prems(2) find_periodic_start_step [OF Suc.prems(1) gs', of n] by (auto split: if_splits)
  show ?case
  proof (cases j)
    case 0
    then show ?thesis using Suc.prems(4) n gs' by simp
  next
    case (Suc i)
    then show ?thesis using Suc.IH [OF wf' n(2), of i] Suc.prems gs' by simp
  qed
qed simp

text \<open>
  \<open>get_next_periodic_processing_start\<close> returns the time at which the scheduler begins the
  next slot that starts periodic processing for the current partition: the slot is reached
  after \<open>k + 1\<close> changes of the slot, the deadline of the slot before it is the time returned, and
  no slot on the way qualifies.
\<close>

theorem next_periodic_start_is_next_slot:
  assumes "sched_wf gs" and "get_next_periodic_processing_start gs = Some t"
  shows "\<exists>k < length (module_sched gs). \<exists>g g'. next_slots k gs = Some g \<and> next_slot g = Some g'
     \<and> periodic_slot g' \<and> t = sched_next_deadline g
     \<and> (\<forall>j < k. \<forall>h. next_slots (Suc j) gs = Some h \<longrightarrow> \<not> periodic_slot h)"
  using find_periodic_start_Some [OF assms(1)] assms(2)
  unfolding get_next_periodic_processing_start_def by blast

theorem next_periodic_start_is_next_slot_witness:
  "\<exists>k < 2. \<exists>g. next_slots k example_sched = Some g \<and> sched_next_deadline g = 100"
proof -
  have wf: "sched_wf example_sched" by (simp add: sched_wf_def example_sched_def)
  have "get_next_periodic_processing_start example_sched = Some 100"
    by (simp add: get_next_periodic_processing_start_def example_sched_def numeral_2_eq_2 Let_def
        time_add_def time_wrap_def)
  from next_periodic_start_is_next_slot [OF wf this] show ?thesis
    by (auto simp: example_sched_def numeral_2_eq_2)
qed

text \<open>
  a restarted partition is disconnected from its channels: after \<open>pok_partition_restart\<close> the
  generation is not zero and differs from that of every side of a channel that was connected,
  and the partition will be started anew when its context is entered.
\<close>

theorem restart_disconnects:
  assumes "side_live sd parts ch" and "side_part (channel_side_of sd ch) = current_partition gs"
    and "side_generation (channel_side_of sd ch) < 2 ^ 32"
    and "pok_partition_restart (gs, parts) = (gs', parts')"
  shows "\<not> side_live sd parts' ch \<and> partition_generation (parts' (current_partition gs)) \<noteq> 0
     \<and> (\<forall>ctx gs'' parts''. \<not> is_paused (parts (current_partition gs)) \<longrightarrow> \<not> current_partition_is_paused gs \<longrightarrow>
          intra_partition_switch (gs', parts') = (ctx, gs'', parts'') \<longrightarrow>
          ctx = PartContext (current_partition gs) \<and> preempt_local_disabled (parts'' (current_partition gs))
          \<and> ev_count (parts'' (current_partition gs)) = 0)"
proof -
  let ?p = "current_partition gs"
  have g: "next_generation g \<noteq> g" "next_generation g \<noteq> 0" if "g < 2 ^ 32" for g
    using that by (auto simp: next_generation_def u32_def Let_def mod_Suc)
  have gen: "partition_generation (parts ?p) = side_generation (channel_side_of sd ch)"
    using assms(1,2) by (simp add: side_live_def)
  have p': "parts' ?p = (parts ?p)\<lparr>partition_generation := next_generation (partition_generation (parts ?p)), part_sp := False\<rparr>"
    "gs' = gs\<lparr>sched_need_recheck := True\<rparr>"
    using assms(4) by (auto simp: pok_partition_restart_def Let_def)
  show ?thesis
    using assms(2,3) g [of "side_generation (channel_side_of sd ch)"] gen
    by (auto simp: side_live_def p' intra_partition_switch_def partition_context_def start_partition_def
        ev_count_def Let_def)
qed

theorem restart_disconnects_witness:
  "\<not> side_live SendSide (snd (pok_partition_restart (example_sched, example_parts)))
      (example_channel JET_CHANNEL_QUEUING_SENDER_BLOCK)"
proof -
  let ?ch = "example_channel JET_CHANNEL_QUEUING_SENDER_BLOCK"
  have s: "side_live SendSide example_parts ?ch" "side_part (channel_side_of SendSide ?ch) = current_partition example_sched"
    "side_generation (channel_side_of SendSide ?ch) < 2 ^ 32"
    by (simp_all add: side_live_def example_channel_defs example_sched_def)
  show ?thesis
    using restart_disconnects [OF s surjective_pairing] by blast
qed

end
