(* ===== verification/DelayedEvents.thy ===== *)
theory DelayedEvents
  imports ListHead
begin

section \<open>The queue of delayed events\<close>

text \<open>
  \<open>kernel/core/delayed_event.c\<close>: the events of a partition that fire at a time point,
  linked in order of that time point. A \<open>struct delayed_event\<close> holds the pointer to the
  next event and the address of the pointer that points to it (\<open>pprev_event\<close>): either
  the field \<open>first_event\<close> of the queue or the field \<open>next_event\<close> of another event.
  The first part translates the pointer manipulations; the second gives the queue as a list
  of events ordered by time, which is what the partition's model uses; the refinement
  lemmas relate the two.
\<close>

subsection \<open>The linked queue\<close>

datatype 'k pptr = FirstPtr | NextPtr 'k

record ('k, 'f) delayed_event =
  next_event :: "'k option"
  pprev_event :: "'k pptr option"
  timepoint :: pok_time
  handler_id :: nat
  process_event :: 'f

record ('k, 'f) delayed_event_queue =
  first_event :: "'k option"
  events :: "'k \<Rightarrow> ('k, 'f) delayed_event"

abbreviation upd_event ::
  "'k \<Rightarrow> (('k, 'f) delayed_event \<Rightarrow> ('k, 'f) delayed_event)
     \<Rightarrow> ('k, 'f) delayed_event_queue \<Rightarrow> ('k, 'f) delayed_event_queue" where
  "upd_event k g q \<equiv> q\<lparr>events := (events q)(k := g (events q k))\<rparr>"

fun pptr_get :: "('k, 'f) delayed_event_queue \<Rightarrow> 'k pptr \<Rightarrow> 'k option" where
  "pptr_get q FirstPtr = first_event q"
| "pptr_get q (NextPtr k) = next_event (events q k)"

fun pptr_set ::
  "'k pptr \<Rightarrow> 'k option \<Rightarrow> ('k, 'f) delayed_event_queue \<Rightarrow> ('k, 'f) delayed_event_queue" where
  "pptr_set FirstPtr v q = q\<lparr>first_event := v\<rparr>"
| "pptr_set (NextPtr k) v q = upd_event k (\<lambda>e. e\<lparr>next_event := v\<rparr>) q"

definition delayed_event_queue_init ::
  "('k, 'f) delayed_event_queue \<Rightarrow> ('k, 'f) delayed_event_queue" where
  "delayed_event_queue_init q = q\<lparr>first_event := None\<rparr>"

definition delayed_event_init ::
  "'k \<Rightarrow> ('k, 'f) delayed_event_queue \<Rightarrow> ('k, 'f) delayed_event_queue" where
  "delayed_event_init k q = upd_event k (\<lambda>e. e\<lparr>pprev_event := None\<rparr>) q"

definition delayed_event_is_active :: "('k, 'f) delayed_event_queue \<Rightarrow> 'k \<Rightarrow> bool" where
  "delayed_event_is_active q k \<longleftrightarrow> pprev_event (events q k) \<noteq> None"

text \<open>\<open>if(next_event) next_event->pprev_event = p\<close>\<close>

definition set_pprev ::
  "'k option \<Rightarrow> 'k pptr \<Rightarrow> ('k, 'f) delayed_event_queue \<Rightarrow> ('k, 'f) delayed_event_queue" where
  "set_pprev nx p q =
     (case nx of None \<Rightarrow> q | Some n \<Rightarrow> upd_event n (\<lambda>e. e\<lparr>pprev_event := Some p\<rparr>) q)"

definition delayed_event_remove ::
  "'k \<Rightarrow> ('k, 'f) delayed_event_queue \<Rightarrow> ('k, 'f) delayed_event_queue" where
  "delayed_event_remove k q =
     (case pprev_event (events q k) of
        None \<Rightarrow> q
      | Some pprev \<Rightarrow>
         (let next = next_event (events q k);
              q1 = pptr_set pprev next q;
              q2 = set_pprev next pprev q1
          in upd_event k (\<lambda>e. e\<lparr>pprev_event := None\<rparr>) q2))"

text \<open>The loop that looks for the insertion point; it has no result on a cyclic queue.\<close>

partial_function (option) delayed_event_find ::
  "('k, 'f) delayed_event_queue \<Rightarrow> pok_time \<Rightarrow> 'k pptr \<Rightarrow> 'k option
     \<Rightarrow> ('k pptr \<times> 'k option) option" where
  "delayed_event_find q tp insertion_point next =
     (case next of
        None \<Rightarrow> Some (insertion_point, None)
      | Some n \<Rightarrow>
          if timepoint (events q n) > tp then Some (insertion_point, Some n)
          else delayed_event_find q tp (NextPtr n) (next_event (events q n)))"

definition delayed_event_add ::
  "'k \<Rightarrow> pok_time \<Rightarrow> nat \<Rightarrow> 'f \<Rightarrow> ('k, 'f) delayed_event_queue
     \<Rightarrow> ('k, 'f) delayed_event_queue option" where
  "delayed_event_add k tp hid pf q = do {
     let q = delayed_event_remove k q;
     let q = upd_event k (\<lambda>e. e\<lparr>timepoint := tp, handler_id := hid, process_event := pf\<rparr>) q;
     (insertion_point, next) \<leftarrow> delayed_event_find q tp FirstPtr (first_event q);
     let q = upd_event k (\<lambda>e. e\<lparr>next_event := next, pprev_event := Some insertion_point\<rparr>) q;
     let q = pptr_set insertion_point (Some k) q;
     Some (set_pprev next (NextPtr k) q)
   }"

text \<open>One turn of the loop of \<open>delayed_event_queue_check\<close>: take the first event if its
  time has come.\<close>

definition delayed_event_take ::
  "pok_time \<Rightarrow> ('k, 'f) delayed_event_queue \<Rightarrow> ('k \<times> ('k, 'f) delayed_event_queue) option" where
  "delayed_event_take time q =
     (case first_event q of
        None \<Rightarrow> None
      | Some k \<Rightarrow>
          if timepoint (events q k) > time then None
          else (let next = next_event (events q k);
                    q1 = q\<lparr>first_event := next\<rparr>;
                    q2 = set_pprev next FirstPtr q1
                in Some (k, upd_event k (\<lambda>e. e\<lparr>pprev_event := None\<rparr>) q2)))"

text \<open>The loop itself. \<open>call pf hid\<close> stands for the indirect call
  \<open>event->process_event(event->handler_id)\<close>; it may change the queue and the rest of the
  state.\<close>

partial_function (option) delayed_event_queue_check ::
  "('f \<Rightarrow> nat \<Rightarrow> ('k, 'f) delayed_event_queue \<times> 's \<Rightarrow> ('k, 'f) delayed_event_queue \<times> 's)
     \<Rightarrow> pok_time \<Rightarrow> ('k, 'f) delayed_event_queue \<times> 's
     \<Rightarrow> (('k, 'f) delayed_event_queue \<times> 's) option" where
  "delayed_event_queue_check call time st =
     (case delayed_event_take time (fst st) of
        None \<Rightarrow> Some st
      | Some (k, q) \<Rightarrow>
          delayed_event_queue_check call time
            (call (process_event (events q k)) (handler_id (events q k)) (q, snd st)))"

definition delayed_event_queue_get_check_time :: "('k, 'f) delayed_event_queue \<Rightarrow> pok_time" where
  "delayed_event_queue_get_check_time q =
     (case first_event q of Some k \<Rightarrow> timepoint (events q k) | None \<Rightarrow> 0)"

subsection \<open>The queue as a list\<close>

record ('k, 'f) dqueue =
  dq_list :: "'k list"
  dq_time :: "'k \<Rightarrow> pok_time"
  dq_handler :: "'k \<Rightarrow> nat"
  dq_process :: "'k \<Rightarrow> 'f"

definition dq_active :: "('k, 'f) dqueue \<Rightarrow> 'k \<Rightarrow> bool" where
  "dq_active d k \<longleftrightarrow> k \<in> set (dq_list d)"

definition dq_remove :: "'k \<Rightarrow> ('k, 'f) dqueue \<Rightarrow> ('k, 'f) dqueue" where
  "dq_remove k d = d\<lparr>dq_list := removeAll k (dq_list d)\<rparr>"

definition dq_add :: "'k \<Rightarrow> pok_time \<Rightarrow> nat \<Rightarrow> 'f \<Rightarrow> ('k, 'f) dqueue \<Rightarrow> ('k, 'f) dqueue" where
  "dq_add k tp hid pf d =
     d\<lparr>dq_list := insert_before_first (\<lambda>x. tp < dq_time d x) k (removeAll k (dq_list d)),
       dq_time := (dq_time d)(k := tp),
       dq_handler := (dq_handler d)(k := hid),
       dq_process := (dq_process d)(k := pf)\<rparr>"

definition dq_take :: "pok_time \<Rightarrow> ('k, 'f) dqueue \<Rightarrow> ('k \<times> ('k, 'f) dqueue) option" where
  "dq_take time d =
     (case dq_list d of
        [] \<Rightarrow> None
      | k # ks \<Rightarrow> if dq_time d k > time then None else Some (k, d\<lparr>dq_list := ks\<rparr>))"

definition dq_check_time :: "('k, 'f) dqueue \<Rightarrow> pok_time" where
  "dq_check_time d = (case dq_list d of k # _ \<Rightarrow> dq_time d k | [] \<Rightarrow> 0)"

definition dq_inv :: "('k, 'f) dqueue \<Rightarrow> bool" where
  "dq_inv d \<longleftrightarrow> distinct (dq_list d) \<and> sorted (map (dq_time d) (dq_list d))"

lemma sorted_insert_time:
  "sorted (map t xs) \<Longrightarrow> k \<notin> set xs \<Longrightarrow>
   sorted (map (t(k := tp)) (insert_before_first (\<lambda>x. tp < t x) k xs))"
  by (induction xs) (auto intro: order_trans less_imp_le)

lemma sorted_map_removeAll: "sorted (map t xs) \<Longrightarrow> sorted (map t (removeAll k xs))"
  by (induction xs) auto

lemma dq_inv_add: "dq_inv d \<Longrightarrow> dq_inv (dq_add k tp hid pf d)"
  unfolding dq_inv_def dq_add_def
  by (auto intro!: sorted_insert_time sorted_map_removeAll simp: distinct_removeAll)

lemma dq_inv_remove: "dq_inv d \<Longrightarrow> dq_inv (dq_remove k d)"
  by (simp add: dq_inv_def dq_remove_def sorted_map_removeAll distinct_removeAll)

lemma dq_inv_take: "dq_inv d \<Longrightarrow> dq_take time d = Some (k, d') \<Longrightarrow> dq_inv d'"
  by (auto simp: dq_inv_def dq_take_def split: list.splits if_splits)

lemma dq_remove_id: "k \<notin> set (dq_list d) \<Longrightarrow> dq_remove k d = d"
  by (simp add: dq_remove_def)


subsection \<open>The linked queue implements the list\<close>

fun dseg :: "('k, 'f) delayed_event_queue \<Rightarrow> 'k pptr \<Rightarrow> 'k list \<Rightarrow> bool" where
  "dseg q ip [] \<longleftrightarrow> True"
| "dseg q ip (k # ks) \<longleftrightarrow>
     pptr_get q ip = Some k \<and> pprev_event (events q k) = Some ip \<and> dseg q (NextPtr k) ks"

definition ptr_after :: "'k pptr \<Rightarrow> 'k list \<Rightarrow> 'k pptr" where
  "ptr_after ip ks = (if ks = [] then ip else NextPtr (last ks))"

definition dlinks :: "('k, 'f) delayed_event_queue \<Rightarrow> 'k pptr \<Rightarrow> 'k list \<Rightarrow> bool" where
  "dlinks q ip ks \<longleftrightarrow> dseg q ip ks \<and> pptr_get q (ptr_after ip ks) = None"

definition dq_rel :: "('k, 'f) delayed_event_queue \<Rightarrow> ('k, 'f) dqueue \<Rightarrow> bool" where
  "dq_rel q d \<longleftrightarrow> distinct (dq_list d) \<and> dlinks q FirstPtr (dq_list d)
     \<and> (\<forall>k. k \<notin> set (dq_list d) \<longrightarrow> pprev_event (events q k) = None)
     \<and> (\<forall>k. timepoint (events q k) = dq_time d k \<and> handler_id (events q k) = dq_handler d k
            \<and> process_event (events q k) = dq_process d k)"

lemma ptr_after_simps [simp]:
  "ptr_after ip [] = ip" "ptr_after ip (ks @ [k]) = NextPtr k"
  "ptr_after ip (k # ks) = ptr_after (NextPtr k) ks"
  by (simp_all add: ptr_after_def)

lemma ptr_after_append: "ptr_after ip (as @ bs) = ptr_after (ptr_after ip as) bs"
  by (simp add: ptr_after_def)

lemma dseg_append: "dseg q ip (as @ bs) \<longleftrightarrow> dseg q ip as \<and> dseg q (ptr_after ip as) bs"
  by (induction as arbitrary: ip) auto

lemma dlinks_append: "dlinks q ip (as @ bs) \<longleftrightarrow> dseg q ip as \<and> dlinks q (ptr_after ip as) bs"
  by (simp add: dlinks_def dseg_append ptr_after_append)

lemma dlinks_simps [simp]:
  "dlinks q ip [] \<longleftrightarrow> pptr_get q ip = None"
  "dlinks q ip (k # ks) \<longleftrightarrow>
     pptr_get q ip = Some k \<and> pprev_event (events q k) = Some ip \<and> dlinks q (NextPtr k) ks"
  by (auto simp: dlinks_def)

lemma dseg_frame:
  assumes "\<forall>x \<in> set ks. pprev_event (events q' x) = pprev_event (events q x)"
    and "ks \<noteq> [] \<longrightarrow> pptr_get q' ip = pptr_get q ip"
    and "\<forall>x \<in> set (butlast ks). next_event (events q' x) = next_event (events q x)"
  shows "dseg q' ip ks = dseg q ip ks"
  using assms
proof (induction ks arbitrary: ip)
  case Nil
  then show ?case by simp
next
  case (Cons k ks)
  have "dseg q' (NextPtr k) ks = dseg q (NextPtr k) ks"
    by (rule Cons.IH) (use Cons.prems in \<open>auto split: if_splits\<close>)
  then show ?case using Cons.prems by simp
qed

lemma dlinks_frame:
  assumes "\<forall>x \<in> set ks. pprev_event (events q' x) = pprev_event (events q x)
      \<and> next_event (events q' x) = next_event (events q x)"
    and "pptr_get q' ip = pptr_get q ip"
  shows "dlinks q' ip ks = dlinks q ip ks"
  using assms by (induction ks arbitrary: ip) auto

lemma pptr_get_set: "pptr_get (pptr_set p v q) r = (if r = p then v else pptr_get q r)"
  by (cases p; cases r) auto

lemma pprev_pptr_set [simp]:
  "pprev_event (events (pptr_set p v q) x) = pprev_event (events q x)"
  "timepoint (events (pptr_set p v q) x) = timepoint (events q x)"
  "handler_id (events (pptr_set p v q) x) = handler_id (events q x)"
  "process_event (events (pptr_set p v q) x) = process_event (events q x)"
  by (cases p; simp)+

lemma set_pprev_fields [simp]:
  "pptr_get (set_pprev nx p q) r = pptr_get q r"
  "first_event (set_pprev nx p q) = first_event q"
  "next_event (events (set_pprev nx p q) x) = next_event (events q x)"
  "pprev_event (events (set_pprev nx p q) x)
     = (if nx = Some x then Some p else pprev_event (events q x))"
  "timepoint (events (set_pprev nx p q) x) = timepoint (events q x)"
  "handler_id (events (set_pprev nx p q) x) = handler_id (events q x)"
  "process_event (events (set_pprev nx p q) x) = process_event (events q x)"
  by (cases nx; cases r; auto simp: set_pprev_def)+

lemma next_pptr_set:
  "next_event (events (pptr_set p v q) x) = (if p = NextPtr x then v else next_event (events q x))"
  by (cases p) auto

text \<open>The head of the rest of the queue as the pointer holds it.\<close>

definition hd_opt :: "'k list \<Rightarrow> 'k option" where
  "hd_opt ks = (case ks of [] \<Rightarrow> None | k # _ \<Rightarrow> Some k)"

lemma hd_opt_simps [simp]: "hd_opt [] = None" "hd_opt (k # ks) = Some k"
  by (simp_all add: hd_opt_def)

lemma hd_opt_in: "hd_opt ks = Some x \<Longrightarrow> x \<in> set ks"
  by (cases ks) auto

lemma dlinks_get: "dlinks q ip ks \<Longrightarrow> pptr_get q ip = hd_opt ks"
  by (cases ks) auto

lemma ptr_after_cases: "ptr_after FirstPtr as = NextPtr x \<Longrightarrow> x \<in> set as \<and> x = last as"
  by (auto simp: ptr_after_def split: if_splits)

lemma ptr_after_not_before:
  assumes "distinct as" "x \<in> set (butlast as)"
  shows "ptr_after FirstPtr as \<noteq> NextPtr x"
  using assms by (cases as rule: rev_cases) (auto simp: ptr_after_def)

text \<open>Relinking two parts of a queue: the pointer at the end of the first part is set to the
  first event of the second part, whose back pointer is set in turn.\<close>

lemma dlinks_relink:
  assumes d: "distinct (as @ bs)" and sa: "dseg q FirstPtr as"
    and sb: "dlinks q r bs" "r \<noteq> ptr_after FirstPtr as" 
    and q': "q' = set_pprev (hd_opt bs) (ptr_after FirstPtr as)
        (pptr_set (ptr_after FirstPtr as) (hd_opt bs) q)"
  shows "dlinks q' FirstPtr (as @ bs)"
proof -
  let ?p = "ptr_after FirstPtr as"
  have 1: "dseg q' FirstPtr as"
    using sa
  proof (subst dseg_frame [of _ _ q])
    show "\<forall>x \<in> set as. pprev_event (events q' x) = pprev_event (events q x)"
      using d hd_opt_in [of bs] by (auto simp: q')
    show "as \<noteq> [] \<longrightarrow> pptr_get q' FirstPtr = pptr_get q FirstPtr"
      by (auto simp: q' pptr_get_set ptr_after_def)
    show "\<forall>x \<in> set (butlast as). next_event (events q' x) = next_event (events q x)"
      using ptr_after_not_before [of as] d by (auto simp: q' next_pptr_set)
  qed auto
  have nb: "?p \<noteq> NextPtr x" if "x \<in> set bs" for x
    using that d ptr_after_cases [of as x] by auto
  have 2: "dlinks q' ?p bs"
  proof (cases bs)
    case Nil
    then show ?thesis by (simp add: q' pptr_get_set)
  next
    case (Cons b cs)
    have "dlinks q (NextPtr b) cs" using sb Cons by simp
    then have "dlinks q' (NextPtr b) cs"
      by (subst dlinks_frame [of _ _ q]) (use d nb Cons in \<open>auto simp: q' next_pptr_set pptr_get_set\<close>)
    then show ?thesis using Cons by (simp add: q' pptr_get_set)
  qed
  show ?thesis using 1 2 by (simp add: dlinks_append)
qed


lemma dq_rel_remove:
  assumes "dq_rel q d"
  shows "dq_rel (delayed_event_remove k q) (dq_remove k d)"
proof (cases "k \<in> set (dq_list d)")
  case False
  then have "pprev_event (events q k) = None" using assms by (simp add: dq_rel_def)
  then show ?thesis using assms False by (simp add: delayed_event_remove_def dq_remove_id)
next
  case True
  then obtain as bs where ks: "dq_list d = as @ k # bs" by (meson split_list)
  have dist: "distinct (as @ k # bs)" and links: "dlinks q FirstPtr (as @ k # bs)"
    using assms by (simp_all add: dq_rel_def ks)
  let ?p = "ptr_after FirstPtr as"
  have sa: "dseg q FirstPtr as" and pk: "pprev_event (events q k) = Some ?p"
    and sb: "dlinks q (NextPtr k) bs"
    using links by (simp_all add: dlinks_append)
  have nk: "next_event (events q k) = hd_opt bs" using dlinks_get [OF sb] by simp
  have np: "NextPtr k \<noteq> ?p" using dist ptr_after_cases [of as k] by auto
  let ?q1 = "set_pprev (hd_opt bs) ?p (pptr_set ?p (hd_opt bs) q)"
  have l1: "dlinks ?q1 FirstPtr (as @ bs)"
    by (rule dlinks_relink [OF _ sa sb np]) (use dist in auto)
  have eq: "delayed_event_remove k q = upd_event k (\<lambda>e. e\<lparr>pprev_event := None\<rparr>) ?q1"
    by (simp add: delayed_event_remove_def pk nk Let_def)
  have l2: "dlinks (delayed_event_remove k q) FirstPtr (as @ bs)"
    unfolding eq by (subst dlinks_frame [of _ _ ?q1]) (use l1 dist in auto)
  have rm: "removeAll k (as @ k # bs) = as @ bs" using dist by simp
  show ?thesis
    using assms l2 dist unfolding dq_rel_def dq_remove_def
    by (auto simp: ks rm eq dest: hd_opt_in simp del: removeAll_append)
qed

lemma delayed_event_find_list:
  "dlinks q ip bs \<Longrightarrow>
   (let as = takeWhile (\<lambda>x. timepoint (events q x) \<le> tp) bs;
        cs = dropWhile (\<lambda>x. timepoint (events q x) \<le> tp) bs
    in delayed_event_find q tp ip (hd_opt bs) = Some (ptr_after ip as, hd_opt cs))"
proof (induction bs arbitrary: ip)
  case Nil
  then show ?case by (simp add: delayed_event_find.simps)
next
  case (Cons b bs)
  show ?case
  proof (cases "timepoint (events q b) > tp")
    case True
    then show ?thesis by (simp add: delayed_event_find.simps)
  next
    case False
    have l: "dlinks q (NextPtr b) bs" using Cons.prems by simp
    have "next_event (events q b) = hd_opt bs" using dlinks_get [OF l] by simp
    then show ?thesis using Cons.IH [OF l] False
      by (subst delayed_event_find.simps) (simp add: Let_def)
  qed
qed

lemma dq_rel_add:
  assumes "dq_rel q d"
  shows "\<exists>q'. delayed_event_add k tp hid pf q = Some q' \<and> dq_rel q' (dq_add k tp hid pf d)"
proof -
  define q1 where "q1 = delayed_event_remove k q"
  define q2 where "q2 = upd_event k (\<lambda>e. e\<lparr>timepoint := tp, handler_id := hid, process_event := pf\<rparr>) q1"
  define ks where "ks = removeAll k (dq_list d)"
  have r1: "dq_rel q1 (dq_remove k d)" unfolding q1_def using assms by (rule dq_rel_remove)
  have dist: "distinct ks" "k \<notin> set ks" using assms by (auto simp: ks_def dq_rel_def distinct_removeAll)
  have l1: "dlinks q1 FirstPtr ks" using r1 by (simp add: dq_rel_def dq_remove_def ks_def)
  have l2: "dlinks q2 FirstPtr ks"
    by (subst dlinks_frame [of _ _ q1]) (use l1 dist in \<open>auto simp: q2_def\<close>)
  have tq2: "timepoint (events q2 x) = dq_time d x" if "x \<in> set ks" for x
    using r1 that dist by (auto simp: q2_def dq_rel_def dq_remove_def)
  define as where "as = takeWhile (\<lambda>x. timepoint (events q2 x) \<le> tp) ks"
  define bs where "bs = dropWhile (\<lambda>x. timepoint (events q2 x) \<le> tp) ks"
  have ks: "ks = as @ bs" by (simp add: as_def bs_def)
  let ?p = "ptr_after FirstPtr as"
  have f: "delayed_event_find q2 tp FirstPtr (first_event q2) = Some (?p, hd_opt bs)"
    using delayed_event_find_list [OF l2, of tp] dlinks_get [OF l2] by (simp add: as_def bs_def Let_def)
  define q3 where "q3 = upd_event k (\<lambda>e. e\<lparr>next_event := hd_opt bs, pprev_event := Some ?p\<rparr>) q2"
  define q4 where "q4 = set_pprev (hd_opt bs) (NextPtr k) (pptr_set ?p (Some k) q3)"
  have res: "delayed_event_add k tp hid pf q = Some q4"
    unfolding delayed_event_add_def Let_def q1_def [symmetric] q2_def [symmetric] f
    by (simp add: q3_def q4_def)
  have list: "dq_list (dq_add k tp hid pf d) = as @ k # bs"
  proof -
    have "insert_before_first (\<lambda>x. tp < dq_time d x) k ks
        = takeWhile (\<lambda>x. \<not> tp < dq_time d x) ks @ k # dropWhile (\<lambda>x. \<not> tp < dq_time d x) ks"
      by (rule insert_before_first_split)
    also have "takeWhile (\<lambda>x. \<not> tp < dq_time d x) ks = as"
      unfolding as_def by (rule takeWhile_cong) (simp_all add: tq2 not_less)
    also have "dropWhile (\<lambda>x. \<not> tp < dq_time d x) ks = bs"
      unfolding bs_def by (rule dropWhile_cong) (simp_all add: tq2 not_less)
    finally show ?thesis by (simp add: dq_add_def ks_def)
  qed
  have kp: "?p \<noteq> NextPtr k" using dist ptr_after_cases [of as k] by (auto simp: ks)
  have sa: "dseg q2 FirstPtr as" and sb: "dlinks q2 ?p bs" using l2 by (simp_all add: ks dlinks_append)
  have nb: "hd_opt bs \<noteq> Some x" if "x \<in> set as" for x
    using that dist hd_opt_in [of bs x] by (auto simp: ks)
  have nk: "hd_opt bs \<noteq> Some k" using dist hd_opt_in [of bs k] by (auto simp: ks)
  have pb: "?p \<noteq> NextPtr x" if "x \<in> set bs" for x
    using that dist ptr_after_cases [of as x] by (auto simp: ks)
  have 1: "dseg q4 FirstPtr as"
    using sa
  proof (subst dseg_frame [of _ _ q2])
    show "\<forall>x \<in> set as. pprev_event (events q4 x) = pprev_event (events q2 x)"
      using dist nb by (auto simp: q4_def q3_def ks)
    show "as \<noteq> [] \<longrightarrow> pptr_get q4 FirstPtr = pptr_get q2 FirstPtr"
      by (auto simp: q4_def q3_def pptr_get_set ptr_after_def)
    show "\<forall>x \<in> set (butlast as). next_event (events q4 x) = next_event (events q2 x)"
      using ptr_after_not_before [of as] dist
      by (auto simp: q4_def q3_def next_pptr_set ks dest: in_set_butlastD)
  qed auto
  have 2: "dlinks q4 (NextPtr k) bs"
  proof (cases bs)
    case Nil
    then show ?thesis using kp by (simp add: q4_def q3_def next_pptr_set)
  next
    case (Cons b cs)
    have "dlinks q2 (NextPtr b) cs" using sb Cons by simp
    then have "dlinks q4 (NextPtr b) cs"
      by (subst dlinks_frame [of _ _ q2])
        (use dist pb Cons in \<open>auto simp: q4_def q3_def next_pptr_set ks\<close>)
    then show ?thesis using Cons kp by (simp add: q4_def q3_def next_pptr_set)
  qed
  have 3: "pptr_get q4 ?p = Some k" "pprev_event (events q4 k) = Some ?p"
    using nk by (simp_all add: q4_def q3_def pptr_get_set)
  have links: "dlinks q4 FirstPtr (as @ k # bs)" using 1 2 3 by (simp add: dlinks_append)
  have "dq_rel q4 (dq_add k tp hid pf d)"
    unfolding dq_rel_def list
  proof (intro conjI allI impI)
    show "distinct (as @ k # bs)" using dist by (auto simp: ks)
    show "dlinks q4 FirstPtr (as @ k # bs)" by (rule links)
  next
    fix x assume x: "x \<notin> set (as @ k # bs)"
    have "pprev_event (events q1 x) = None"
      using r1 x by (auto simp: dq_rel_def dq_remove_def ks ks_def [symmetric])
    then show "pprev_event (events q4 x) = None"
      using x hd_opt_in [of bs x] by (auto simp: q4_def q3_def q2_def)
  qed (use r1 in \<open>auto simp: q4_def q3_def q2_def dq_add_def dq_rel_def dq_remove_def\<close>)
  then show ?thesis using res by blast
qed


lemma dq_rel_take:
  assumes "dq_rel q d"
  shows "case dq_take time d of
      None \<Rightarrow> delayed_event_take time q = None
    | Some (k, d') \<Rightarrow> \<exists>q'. delayed_event_take time q = Some (k, q') \<and> dq_rel q' d'"
proof (cases "dq_list d")
  case Nil
  then show ?thesis using assms
    by (simp add: dq_take_def delayed_event_take_def dq_rel_def)
next
  case (Cons k ks)
  have first: "first_event q = Some k" and dist: "distinct (k # ks)"
    and pk: "pprev_event (events q k) = Some FirstPtr"
    using assms Cons by (simp_all add: dq_rel_def)
  have l: "dlinks q (NextPtr k) ks" using assms Cons by (simp add: dq_rel_def)
  have nk: "next_event (events q k) = hd_opt ks" using dlinks_get [OF l] by simp
  have t: "timepoint (events q k) = dq_time d k" using assms by (simp add: dq_rel_def)
  have rm: "removeAll k (dq_list d) = ks" using dist Cons by simp
  have "delayed_event_take time q
      = (if dq_time d k > time then None else Some (k, delayed_event_remove k q))"
    by (simp add: delayed_event_take_def first t delayed_event_remove_def pk Let_def)
  moreover have "dq_take time d
      = (if dq_time d k > time then None else Some (k, dq_remove k d))"
    using rm by (simp add: dq_take_def Cons dq_remove_def)
  ultimately show ?thesis using dq_rel_remove [OF assms] by simp
qed

lemma dq_rel_check_time: "dq_rel q d \<Longrightarrow> delayed_event_queue_get_check_time q = dq_check_time d"
  by (cases "dq_list d") (auto simp: dq_rel_def delayed_event_queue_get_check_time_def dq_check_time_def)

lemma dq_rel_active: "dq_rel q d \<Longrightarrow> delayed_event_is_active q k = dq_active d k"
  unfolding delayed_event_is_active_def dq_active_def
proof -
  assume r: "dq_rel q d"
  show "(pprev_event (events q k) \<noteq> None) = (k \<in> set (dq_list d))"
  proof (cases "k \<in> set (dq_list d)")
    case False
    then show ?thesis using r by (simp add: dq_rel_def)
  next
    case True
    then obtain as bs where "dq_list d = as @ k # bs" by (meson split_list)
    then show ?thesis using r by (auto simp: dq_rel_def dlinks_append)
  qed
qed

subsection \<open>The interface of a queue of timed events\<close>

text \<open>
  What the local scheduler relies on: \<open>pending q\<close> are the events of the queue and
  \<open>due q k\<close> is the time point of one. The laws are those of a priority queue whose least
  element is \<open>check_time\<close>.
\<close>

locale timer_queue =
  fixes inv :: "'q \<Rightarrow> bool"
    and pending :: "'q \<Rightarrow> 'k list"
    and due :: "'q \<Rightarrow> 'k \<Rightarrow> pok_time"
    and take_due :: "pok_time \<Rightarrow> 'q \<Rightarrow> ('k \<times> 'q) option"
    and check_time :: "'q \<Rightarrow> pok_time"
  assumes pending_sorted: "inv q \<Longrightarrow> distinct (pending q) \<and> sorted (map (due q) (pending q))"
    and take_None: "inv q \<Longrightarrow> take_due time q = None \<longleftrightarrow>
          (case pending q of [] \<Rightarrow> True | k # _ \<Rightarrow> time < due q k)"
    and take_Some: "inv q \<Longrightarrow> take_due time q = Some (k, q') \<Longrightarrow>
          inv q' \<and> pending q = k # pending q' \<and> due q' = due q"
    and check_time: "inv q \<Longrightarrow> check_time q = (case pending q of [] \<Rightarrow> 0 | k # _ \<Rightarrow> due q k)"
begin

lemma not_due: "inv q \<Longrightarrow> take_due time q = None \<Longrightarrow> k \<in> set (pending q) \<Longrightarrow> time < due q k"
  using take_None [of q time] pending_sorted [of q] by (cases "pending q") (auto intro: less_le_trans)

lemma check_time_least: "inv q \<Longrightarrow> k \<in> set (pending q) \<Longrightarrow> check_time q \<le> due q k"
  using check_time [of q] pending_sorted [of q] by (cases "pending q") auto

lemma take_due_least:
  "inv q \<Longrightarrow> take_due time q = Some (k, q') \<Longrightarrow> due q k \<le> time
     \<and> (\<forall>j \<in> set (pending q'). due q k \<le> due q j)"
  using take_Some [of q time k q'] take_None [of q time] pending_sorted [of q] by auto

end

interpretation dq: timer_queue dq_inv dq_list dq_time dq_take dq_check_time
  by unfold_locales
    (auto simp: dq_inv_def dq_take_def dq_check_time_def split: list.splits if_splits)

lemma removeAll_insert_before_first:
  "k \<notin> set xs \<Longrightarrow> removeAll k (insert_before_first P k xs) = xs"
  by (induction xs) auto

text \<open>
  C3: \<open>delayed_event_add\<close> always finds its place in a well-formed queue and implements the
  insertion into the list ordered by time: an event that was queued is moved, an event with
  the same time point as others goes behind them, and no other event changes.
\<close>

theorem delayed_event_add_refines:
  assumes "dq_rel q d" and "dq_inv d"
  shows "\<exists>q'. delayed_event_add k tp hid pf q = Some q' \<and> dq_rel q' (dq_add k tp hid pf d)
      \<and> dq_inv (dq_add k tp hid pf d)
      \<and> removeAll k (dq_list (dq_add k tp hid pf d)) = removeAll k (dq_list d)"
proof -
  have "removeAll k (dq_list (dq_add k tp hid pf d)) = removeAll k (dq_list d)"
    by (simp add: dq_add_def removeAll_insert_before_first)
  then show ?thesis using dq_rel_add [OF assms(1)] dq_inv_add [OF assms(2)] by blast
qed

text \<open>An empty store of events over keys \<open>nat\<close>, as after initialization.\<close>

definition example_queue :: "(nat, nat) delayed_event_queue" where
  "example_queue = \<lparr>first_event = None, events = (\<lambda>_. \<lparr>next_event = None, pprev_event = None,
     timepoint = 0, handler_id = 0, process_event = 0\<rparr>)\<rparr>"

definition example_dqueue :: "(nat, nat) dqueue" where
  "example_dqueue = \<lparr>dq_list = [], dq_time = (\<lambda>_. 0), dq_handler = (\<lambda>_. 0), dq_process = (\<lambda>_. 0)\<rparr>"

lemma example_dq: "dq_rel example_queue example_dqueue" "dq_inv example_dqueue"
  by (simp_all add: dq_rel_def example_queue_def example_dqueue_def dq_inv_def)

theorem delayed_event_add_refines_witness:
  "\<exists>q'. delayed_event_add 4 100 0 0 example_queue = Some q'
     \<and> dq_list (dq_add 4 100 0 0 example_dqueue) = [4]"
  using delayed_event_add_refines [OF example_dq, of 4 100 0 0]
  by (auto simp: dq_add_def example_dqueue_def)

lemma delayed_event_queue_check_list:
  assumes "dq_rel q d" "dq_inv d" "\<forall>pf h q s. call pf h (q, s) = (q, g pf h s)"
  shows "\<exists>q'. delayed_event_queue_check call time (q, s)
        = Some (q', fold (\<lambda>k. g (dq_process d k) (dq_handler d k))
                      (takeWhile (\<lambda>k. dq_time d k \<le> time) (dq_list d)) s)
      \<and> dq_rel q' (d\<lparr>dq_list := dropWhile (\<lambda>k. dq_time d k \<le> time) (dq_list d)\<rparr>)"
  using assms(1,2)
proof (induction "dq_list d" arbitrary: d q s)
  case Nil
  have "delayed_event_take time q = None"
    using dq_rel_take [OF Nil.prems(1), of time] Nil.hyps by (simp add: dq_take_def)
  moreover have "dq_rel q (d\<lparr>dq_list := []\<rparr>)" using Nil.prems(1) Nil.hyps by (cases d) simp
  ultimately show ?case using Nil.hyps [symmetric]
    by (subst delayed_event_queue_check.simps) simp
next
  case (Cons k ks)
  show ?case
  proof (cases "dq_time d k > time")
    case True
    have "delayed_event_take time q = None"
      using dq_rel_take [OF Cons.prems(1), of time] Cons.hyps(2) [symmetric] True
      by (simp add: dq_take_def)
    moreover have "dq_rel q (d\<lparr>dq_list := k # ks\<rparr>)"
      using Cons.prems(1) Cons.hyps(2) by (cases d) simp
    ultimately show ?thesis using Cons.hyps(2) [symmetric] True
      by (subst delayed_event_queue_check.simps) simp
  next
    case False
    let ?d = "d\<lparr>dq_list := ks\<rparr>"
    have "dq_take time d = Some (k, ?d)"
      using Cons.hyps(2) [symmetric] False by (simp add: dq_take_def)
    then obtain q' where q': "delayed_event_take time q = Some (k, q')" "dq_rel q' ?d"
      using dq_rel_take [OF Cons.prems(1), of time] by auto
    have inv: "dq_inv ?d" using Cons.prems(2) Cons.hyps(2) [symmetric] by (simp add: dq_inv_def)
    have pf: "process_event (events q' k) = dq_process d k" "handler_id (events q' k) = dq_handler d k"
      using q'(2) by (simp_all add: dq_rel_def)
    have "ks = dq_list ?d" by simp
    from Cons.hyps(1) [OF this q'(2) inv, of "g (dq_process d k) (dq_handler d k) s"]
    show ?thesis using False Cons.hyps(2) [symmetric] assms(3)
      by (subst delayed_event_queue_check.simps) (simp add: q'(1) pf)
  qed
qed

lemma sorted_takeWhile_filter:
  "sorted (map t xs) \<Longrightarrow> takeWhile (\<lambda>x. t x \<le> b) xs = filter (\<lambda>x. t x \<le> b) xs
     \<and> dropWhile (\<lambda>x. t x \<le> b) xs = filter (\<lambda>x. b < t x) xs" for b :: int
proof (induction xs)
  case (Cons a xs)
  show ?case
  proof (cases "t a \<le> b")
    case False
    then have "\<forall>x \<in> set xs. b < t x" using Cons.prems by auto
    then have "filter (\<lambda>x. t x \<le> b) xs = []" "filter (\<lambda>x. b < t x) xs = xs"
      by (auto simp: filter_empty_conv filter_id_conv)
    then show ?thesis using False by simp
  qed (use Cons in simp)
qed simp

text \<open>
  \<open>delayed_event_queue_check\<close> returns, calls the handler of exactly the events whose
  time point has come, each once and in the order of the queue, and leaves exactly the others
  in the queue (for handlers that do not change the queue).
\<close>

theorem delayed_event_queue_check_fires:
  assumes "dq_rel q d" and "dq_inv d" and "\<forall>pf h q s. call pf h (q, s) = (q, g pf h s)"
  shows "\<exists>q'. delayed_event_queue_check call time (q, s)
        = Some (q', fold (\<lambda>k. g (dq_process d k) (dq_handler d k))
                      (filter (\<lambda>k. dq_time d k \<le> time) (dq_list d)) s)
      \<and> dq_rel q' (d\<lparr>dq_list := filter (\<lambda>k. time < dq_time d k) (dq_list d)\<rparr>)"
  using delayed_event_queue_check_list [OF assms, of time s]
    sorted_takeWhile_filter [of "dq_time d" "dq_list d" time] assms(2)
  by (simp add: dq_inv_def)

theorem delayed_event_queue_check_fires_witness:
  "\<exists>q q'. delayed_event_add 4 100 7 0 example_queue = Some q
     \<and> delayed_event_queue_check (\<lambda>pf h (q, s). (q, s @ [h])) 100 (q, []) = Some (q', [7])"
proof -
  obtain q where q: "delayed_event_add 4 100 7 0 example_queue = Some q"
      "dq_rel q (dq_add 4 100 7 0 example_dqueue)"
    using dq_rel_add [OF example_dq(1)] by blast
  from delayed_event_queue_check_fires [OF q(2) dq_inv_add [OF example_dq(2)],
      of "\<lambda>pf h (q, s). (q, s @ [h])" "\<lambda>pf h s. s @ [h]" 100 "[]"] q(1)
  show ?thesis by (auto simp: example_dqueue_def dq_add_def)
qed

end
