(* ===== verification/ArincState.thy ===== *)
theory ArincState
  imports DelayedEvents SamplingChannel KernelLibc Sched
begin

section \<open>The state of an ARINC partition\<close>

text \<open>
  The structures of \<open>kernel/include/core/thread.h\<close>, \<open>port.h\<close> and \<open>partition_arinc.h\<close>, and the data
  shared with user space (\<open>uapi/kernel_shared_data.h\<close>, \<open>uapi/msection.h\<close>). One record holds what the
  kernel can reach while it runs for one partition: the partition itself, the base parts of all
  partitions, the channels, the global scheduler, and the user memory.

  A thread is named by its index in \<open>part->threads\<close>, a pointer to a thread is an option. The
  doubly linked lists are lists of threads (\<open>ListHead\<close> shows that the pointer operations
  implement this): \<open>list_empty(&t->eligible_elem)\<close> is absence from \<open>eligible_threads\<close>,
  \<open>list_empty(&t->wait_elem)\<close> absence from the waiters of every port. Timed events are a queue
  ordered by time with the keys (thread, kind), see \<open>DelayedEvents\<close>. A saved context is present
  (the pointer is not \<open>NULL\<close>) or not.
\<close>

subsection \<open>Threads\<close>

definition POK_PARTITION_ARINC_MAIN_THREAD_ID :: nat where
  "POK_PARTITION_ARINC_MAIN_THREAD_ID = 0"

abbreviation "MAIN \<equiv> POK_PARTITION_ARINC_MAIN_THREAD_ID"

lemma MAIN_0 [simp]: "POK_PARTITION_ARINC_MAIN_THREAD_ID = 0"
  by (simp add: POK_PARTITION_ARINC_MAIN_THREAD_ID_def)

text \<open>The functions that are assigned to \<open>thread_delayed_func\<close>.\<close>

datatype delayed_func = Thread_wake_up | Thread_resume_waited

record pok_thread =
  base_priority :: nat
  priority :: nat
  thr_period :: pok_time
  deadline :: pok_deadline
  time_capacity :: pok_time
  delayed_time :: pok_time
  thread_delayed_func :: delayed_func
  wait_priority :: nat
  wait_buffer :: nat
  wait_len :: nat
  wait_result :: pok_ret
  next_activation :: pok_time
  state :: pok_state
  suspended :: bool
  msection_entering :: "nat option"
  first_donator :: "nat option"
  next_donator :: "nat option"
  donate_target :: "nat option"
  entry :: nat
  sp :: bool
  init_stack_addr :: nat
  user_stack_size :: nat
  error_bits :: nat
  is_unrecoverable :: bool
  thread_name :: chars

text \<open>Kinds of events of a thread: \<open>thread_deadline_event\<close> and \<open>thread_delayed_event\<close>; and the
  callbacks they are added with.\<close>

datatype event_kind = Deadline_event | Delayed_event
datatype event_func = Thread_deadline_occured | Thread_process_delayed_event

text \<open>\<open>struct jet_thread_shared_data\<close>, \<open>struct msection\<close> and \<open>struct msection_wq\<close>; the identifier
  \<open>JET_THREAD_ID_NONE\<close> is \<open>None\<close>.\<close>

record jet_thread_shared_data =
  tshd_priority :: nat
  msection_count :: nat
  tshd_msection_entering :: "nat option"
  thread_kernel_flags :: nat
  wq_next :: "nat option"
  wq_prev :: "nat option"
  wq_buffer :: nat
  wq_len :: nat
  wq_priority :: nat

record msection =
  owner :: "nat option"
  msection_kernel_flags :: nat

definition MSECTION_KERNEL_FLAG_RESCHED_AFTER_LEAVE :: nat where
  "MSECTION_KERNEL_FLAG_RESCHED_AFTER_LEAVE = 1"

definition THREAD_KERNEL_FLAG_KILLED :: nat where "THREAD_KERNEL_FLAG_KILLED = 1"

record msection_wq =
  wq_first :: "nat option"
  wq_last :: "nat option"

subsection \<open>Ports\<close>

record pok_port_queuing =
  pq_name :: chars
  waiters :: "nat list"
  pq_channel :: nat
  pq_direction :: pok_port_direction
  discipline :: pok_queuing_discipline
  pq_is_created :: bool

record pok_port_sampling =
  ps_name :: chars
  ps_channel :: nat
  ps_direction :: pok_port_direction
  ps_is_created :: bool
  refresh_period :: pok_time
  last_message_validity :: bool

subsection \<open>Errors\<close>

datatype pok_error_id =
    POK_ERROR_ID_MODPOSTPROCEVENT_ELIST | POK_ERROR_ID_ILLEGAL_REQUEST
  | POK_ERROR_ID_APPLICATION_ERROR | POK_ERROR_ID_PARTLOAD_ERROR | POK_ERROR_ID_NUMERIC_ERROR
  | POK_ERROR_ID_MEMORY_VIOLATION | POK_ERROR_ID_DEADLINE_MISSED | POK_ERROR_ID_HARDWARE_FAULT
  | POK_ERROR_ID_POWER_FAIL | POK_ERROR_ID_STACK_OVERFLOW | POK_ERROR_ID_PROCINIT_ERROR
  | POK_ERROR_ID_NOMEMORY_PROCDATA | POK_ERROR_ID_ASSERT | POK_ERROR_ID_CONFIG_ERROR
  | POK_ERROR_ID_CHECK_POOL | POK_ERROR_ID_UNHANDLED_INT

datatype pok_system_state =
    POK_SYSTEM_STATE_INIT_PARTOS | POK_SYSTEM_STATE_INIT_PARTUSER
  | POK_SYSTEM_STATE_INTERRUPT_HANDLER | POK_SYSTEM_STATE_OS_MOD | POK_SYSTEM_STATE_OS_PART
  | POK_SYSTEM_STATE_ERROR_HANDLER | POK_SYSTEM_STATE_USER

datatype pok_error_action =
    POK_ERROR_ACTION_IGNORE | POK_ERROR_ACTION_IDLE | POK_ERROR_ACTION_COLD_START
  | POK_ERROR_ACTION_WARM_START | POK_ERROR_ACTION_INVALID

fun system_state_number :: "pok_system_state \<Rightarrow> nat" where
  "system_state_number POK_SYSTEM_STATE_INIT_PARTOS = 0"
| "system_state_number POK_SYSTEM_STATE_INIT_PARTUSER = 1"
| "system_state_number POK_SYSTEM_STATE_INTERRUPT_HANDLER = 2"
| "system_state_number POK_SYSTEM_STATE_OS_MOD = 3"
| "system_state_number POK_SYSTEM_STATE_OS_PART = 4"
| "system_state_number POK_SYSTEM_STATE_ERROR_HANDLER = 5"
| "system_state_number POK_SYSTEM_STATE_USER = 6"

text \<open>A selector has a byte of levels for every error; bit \<open>system_state\<close> selects the level.\<close>

definition pok_error_level_select :: "(pok_error_id \<Rightarrow> nat) \<Rightarrow> pok_system_state \<Rightarrow> pok_error_id \<Rightarrow> bool" where
  "pok_error_level_select selector system_state error_id \<longleftrightarrow>
     bit (selector error_id) (system_state_number system_state)"

definition POK_THREAD_ERROR_BIT_SYNC :: nat where "POK_THREAD_ERROR_BIT_SYNC = 1"
definition POK_THREAD_ERROR_BIT_DEADLINE :: nat where "POK_THREAD_ERROR_BIT_DEADLINE = 2"
definition POK_THREAD_ERROR_BIT_DEADLINE_OOR :: nat where "POK_THREAD_ERROR_BIT_DEADLINE_OOR = 4"

text \<open>The tables of \<open>deployment.c\<close> for one partition: which errors are handled by its error
  handler, what is done with the others, and the kind and text of an error of a thread.\<close>

record hm_tables =
  partition_hm_selector :: "pok_error_id \<Rightarrow> nat"
  partition_hm_table :: "pok_system_state \<Rightarrow> pok_error_id \<Rightarrow> pok_error_action"
  error_kind :: "pok_error_id \<Rightarrow> nat"
  error_description :: "pok_error_id \<Rightarrow> byte list"

subsection \<open>The partition\<close>

text \<open>
  The last group of fields is the environment of the kernel: the clock, as the sequence of the
  values that \<open>jet_system_time\<close> will return, the user memory with the checks of
  \<open>jet_user_to_kernel\<close> and \<open>jet_check_access_exec\<close>, the allocator of user stacks, and what the loader
  and the configuration give for the partition: entry point, stack of the main thread and heap.
\<close>

record arinc =
  sched_local_recheck_needed :: bool
  mode :: pok_partition_mode
  nthreads :: nat
  threads :: "nat \<Rightarrow> pok_thread"
  nthreads_used :: nat
  thread_current :: "nat option"
  thread_selected :: "nat option"
  waiting_section :: "nat option"
  ports_queuing :: "pok_port_queuing list"
  ports_sampling :: "pok_port_sampling list"
  thread_error :: "nat option"
  error_list :: "nat list"
  sync_error :: pok_error_id
  sync_error_failed_addr :: nat
  hm :: hm_tables
  nthreads_unrecoverable :: nat
  lock_level :: nat
  thread_locked :: "nat option"
  eligible_threads :: "nat list"
  partition_delayed_events :: "(nat \<times> event_kind, event_func) dqueue"
  idle_sp :: bool
  \<comment> \<open>kernel shared data\<close>
  tshd :: "nat \<Rightarrow> jet_thread_shared_data"
  kshd_current_thread_id :: "nat option"
  kshd_error_thread_id :: "nat option"
  kshd_partition_mode :: pok_partition_mode
  kshd_max_n_threads :: nat
  kshd_heap :: "(nat \<times> nat) option"
  \<comment> \<open>the rest of the module\<close>
  parts :: partitions
  gsched :: gsched
  channels_queuing :: "nat \<Rightarrow> pok_channel_queuing"
  channels_sampling :: "nat \<Rightarrow> pok_channel_sampling"
  \<comment> \<open>the environment\<close>
  clock :: "nat \<Rightarrow> pok_time"
  clock_pos :: nat
  msections :: "nat \<Rightarrow> msection"
  msection_wqs :: "nat \<Rightarrow> msection_wq"
  umem :: mem
  user_access :: "nat \<Rightarrow> nat \<Rightarrow> bool"
  user_exec :: "nat \<Rightarrow> bool"
  ustack :: "nat \<Rightarrow> nat \<Rightarrow> nat"
  elf_entry :: nat
  main_user_stack_size :: nat
  heap_size :: nat
  user_heap :: nat

abbreviation self :: "arinc \<Rightarrow> nat" where "self s \<equiv> current_partition (gsched s)"

abbreviation base_part :: "arinc \<Rightarrow> pok_partition" where "base_part s \<equiv> parts s (self s)"

definition upd_base :: "(pok_partition \<Rightarrow> pok_partition) \<Rightarrow> arinc \<Rightarrow> arinc" where
  "upd_base f s = s\<lparr>parts := (parts s)(self s := f (base_part s))\<rparr>"

definition upd_thread :: "nat \<Rightarrow> (pok_thread \<Rightarrow> pok_thread) \<Rightarrow> arinc \<Rightarrow> arinc" where
  "upd_thread t f s = s\<lparr>threads := (threads s)(t := f (threads s t))\<rparr>"

definition upd_tshd ::
  "nat \<Rightarrow> (jet_thread_shared_data \<Rightarrow> jet_thread_shared_data) \<Rightarrow> arinc \<Rightarrow> arinc" where
  "upd_tshd t f s = s\<lparr>tshd := (tshd s)(t := f (tshd s t))\<rparr>"

definition upd_msection :: "nat \<Rightarrow> (msection \<Rightarrow> msection) \<Rightarrow> arinc \<Rightarrow> arinc" where
  "upd_msection a f s = s\<lparr>msections := (msections s)(a := f (msections s a))\<rparr>"

text \<open>\<open>jet_system_time()\<close>\<close>

definition jet_system_time :: "arinc \<Rightarrow> pok_time \<times> arinc" where
  "jet_system_time s = (clock s (clock_pos s), s\<lparr>clock_pos := clock_pos s + 1\<rparr>)"

text \<open>\<open>pok_sched_local_invalidate()\<close>\<close>

definition pok_sched_local_invalidate :: "arinc \<Rightarrow> arinc" where
  "pok_sched_local_invalidate s = s\<lparr>sched_local_recheck_needed := True\<rparr>"

text \<open>How an operation leaves the kernel that may end the execution of the partition's current
  context: by a return, or by a jump that starts the partition anew or leaves it idle.\<close>

datatype 'a kout = Return 'a arinc | NoReturn arinc

lemma upd_thread_simps [simp]:
  "threads (upd_thread t f s) = (threads s)(t := f (threads s t))"
  "eligible_threads (upd_thread t f s) = eligible_threads s"
  "mode (upd_thread t f s) = mode s"
  "nthreads_used (upd_thread t f s) = nthreads_used s"
  "nthreads (upd_thread t f s) = nthreads s"
  "thread_error (upd_thread t f s) = thread_error s"
  "thread_current (upd_thread t f s) = thread_current s"
  "partition_delayed_events (upd_thread t f s) = partition_delayed_events s"
  "ports_queuing (upd_thread t f s) = ports_queuing s"
  "lock_level (upd_thread t f s) = lock_level s"
  "thread_locked (upd_thread t f s) = thread_locked s"
  "tshd (upd_thread t f s) = tshd s"
  "error_list (upd_thread t f s) = error_list s"
  "sched_local_recheck_needed (upd_thread t f s) = sched_local_recheck_needed s"
  "gsched (upd_thread t f s) = gsched s"
  "parts (upd_thread t f s) = parts s"
  "nthreads_unrecoverable (upd_thread t f s) = nthreads_unrecoverable s"
  by (simp_all add: upd_thread_def)

lemma invalidate_simps [simp]:
  "threads (pok_sched_local_invalidate s) = threads s"
  "eligible_threads (pok_sched_local_invalidate s) = eligible_threads s"
  "mode (pok_sched_local_invalidate s) = mode s"
  "nthreads_used (pok_sched_local_invalidate s) = nthreads_used s"
  "nthreads (pok_sched_local_invalidate s) = nthreads s"
  "thread_error (pok_sched_local_invalidate s) = thread_error s"
  "thread_current (pok_sched_local_invalidate s) = thread_current s"
  "partition_delayed_events (pok_sched_local_invalidate s) = partition_delayed_events s"
  "ports_queuing (pok_sched_local_invalidate s) = ports_queuing s"
  "lock_level (pok_sched_local_invalidate s) = lock_level s"
  "thread_locked (pok_sched_local_invalidate s) = thread_locked s"
  "tshd (pok_sched_local_invalidate s) = tshd s"
  "error_list (pok_sched_local_invalidate s) = error_list s"
  "sched_local_recheck_needed (pok_sched_local_invalidate s)"
  "gsched (pok_sched_local_invalidate s) = gsched s"
  "parts (pok_sched_local_invalidate s) = parts s"
  "nthreads_unrecoverable (pok_sched_local_invalidate s) = nthreads_unrecoverable s"
  by (simp_all add: pok_sched_local_invalidate_def)

end
