(* ===== verification/ThreadInternal.thy ===== *)
theory ThreadInternal
  imports ArincState
begin

section \<open>Threads inside the kernel\<close>

text \<open>
  \<open>kernel/core/thread_internal.c\<close> and the wait queues of \<open>kernel/core/thread.c\<close>: the operations that
  move a thread between its states. All run with local preemption disabled. The second half
  states the invariant of the local scheduler and shows that every operation keeps it: the
  queue of eligible threads holds exactly the threads that may run, ordered by priority, and
  timers and wait queues hold only threads that wait.
\<close>

subsection \<open>Eligible threads\<close>

definition thread_is_eligible :: "nat \<Rightarrow> arinc \<Rightarrow> bool" where
  "thread_is_eligible t s \<longleftrightarrow> t \<in> set (eligible_threads s)"

text \<open>\<open>t->eligible_elem.prev == &part->eligible_threads\<close>, for an eligible thread.\<close>

definition first_eligible :: "nat \<Rightarrow> arinc \<Rightarrow> bool" where
  "first_eligible t s \<longleftrightarrow> (case eligible_threads s of [] \<Rightarrow> False | u # _ \<Rightarrow> u = t)"

definition thread_set_eligible :: "nat \<Rightarrow> arinc \<Rightarrow> arinc option" where
  "thread_set_eligible t s = do {
     kassert (mode s = POK_PARTITION_MODE_NORMAL);
     kassert (\<not> thread_is_eligible t s);
     let s = s\<lparr>eligible_threads := insert_before_first
               (\<lambda>other. priority (threads s other) < priority (threads s t)) t (eligible_threads s)\<rparr>;
     Some (if first_eligible t s then pok_sched_local_invalidate s else s)
   }"

definition thread_set_uneligible :: "nat \<Rightarrow> arinc \<Rightarrow> arinc" where
  "thread_set_uneligible t s =
     (if thread_is_eligible t s then
        (let s = (if first_eligible t s then pok_sched_local_invalidate s else s)
         in s\<lparr>eligible_threads := removeAll t (eligible_threads s)\<rparr>)
      else s)"

definition thread_yield :: "nat \<Rightarrow> arinc \<Rightarrow> arinc option" where
  "thread_yield t s =
     (if thread_is_eligible t s then
        (let s = (if first_eligible t s then pok_sched_local_invalidate s else s);
             s = s\<lparr>eligible_threads := removeAll t (eligible_threads s)\<rparr>
         in thread_set_eligible t s)
      else Some s)"

subsection \<open>Creation, timers and waiting\<close>

text \<open>The elements of queues in a new thread are initialized; they are in no queue, so this
  does not show in the queues.\<close>

definition thread_create :: "nat \<Rightarrow> arinc \<Rightarrow> bool \<times> arinc" where
  "thread_create t s =
     (let stack = ustack s t (user_stack_size (threads s t));
          s = upd_thread t (\<lambda>th. th\<lparr>init_stack_addr := stack\<rparr>) s
      in if stack = 0 then (False, s)
         else (let s = upd_tshd t (\<lambda>d. d\<lparr>msection_count := 0, tshd_msection_entering := None\<rparr>) s
               in (True, upd_thread t (\<lambda>th. th\<lparr>sp := False, priority := base_priority th,
                     state := POK_STATE_STOPPED, suspended := False, donate_target := None,
                     first_donator := None, next_donator := None, msection_entering := None\<rparr>) s)))"

definition upd_events ::
  "((nat \<times> event_kind, event_func) dqueue \<Rightarrow> (nat \<times> event_kind, event_func) dqueue) \<Rightarrow> arinc \<Rightarrow> arinc" where
  "upd_events f s = s\<lparr>partition_delayed_events := f (partition_delayed_events s)\<rparr>"

definition thread_delay_event :: "nat \<Rightarrow> pok_time \<Rightarrow> delayed_func \<Rightarrow> arinc \<Rightarrow> arinc" where
  "thread_delay_event t delay_time f s =
     upd_events (dq_add (t, Delayed_event) delay_time (u16 t) Thread_process_delayed_event)
       (upd_thread t (\<lambda>th. th\<lparr>thread_delayed_func := f\<rparr>) s)"

definition thread_set_deadline :: "nat \<Rightarrow> pok_time \<Rightarrow> arinc \<Rightarrow> arinc" where
  "thread_set_deadline t deadline_time =
     upd_events (dq_add (t, Deadline_event) deadline_time (u16 t) Thread_deadline_occured)"

definition thread_delay_event_cancel :: "nat \<Rightarrow> arinc \<Rightarrow> arinc" where
  "thread_delay_event_cancel t = upd_events (dq_remove (t, Delayed_event))"

text \<open>\<open>!list_empty(&t->wait_elem)\<close>\<close>

definition is_in_wait_queue :: "nat \<Rightarrow> arinc \<Rightarrow> bool" where
  "is_in_wait_queue t s \<longleftrightarrow> (\<exists>p \<in> set (ports_queuing s). t \<in> set (waiters p))"

text \<open>\<open>list_del_init(&t->wait_elem)\<close>\<close>

definition pok_thread_wq_remove :: "nat \<Rightarrow> arinc \<Rightarrow> arinc" where
  "pok_thread_wq_remove t s =
     s\<lparr>ports_queuing := map (\<lambda>p. p\<lparr>waiters := removeAll t (waiters p)\<rparr>) (ports_queuing s)\<rparr>"

text \<open>Two parts of \<open>thread_stop\<close>: a stopped thread gives up the preemption lock and is no longer
  counted as unrecoverable.\<close>

definition thread_stop_unlock :: "nat \<Rightarrow> arinc \<Rightarrow> arinc" where
  "thread_stop_unlock t s =
     (if lock_level s \<noteq> 0 \<and> thread_locked s = Some t
      then pok_sched_local_invalidate (s\<lparr>lock_level := 0\<rparr>) else s)"

definition thread_stop_recoverable :: "nat \<Rightarrow> arinc \<Rightarrow> arinc" where
  "thread_stop_recoverable t s =
     (if is_unrecoverable (threads s t)
      then (upd_thread t (\<lambda>th. th\<lparr>is_unrecoverable := False\<rparr>) s)
             \<lparr>nthreads_unrecoverable := u32 (nthreads_unrecoverable s + (2 ^ 32 - 1))\<rparr>
      else s)"

definition thread_stop :: "nat \<Rightarrow> arinc \<Rightarrow> arinc option" where
  "thread_stop t s = do {
     kassert (state (threads s t) \<noteq> POK_STATE_STOPPED);
     let s = upd_thread t (\<lambda>th. th\<lparr>state := POK_STATE_STOPPED\<rparr>) s;
     let s = thread_set_uneligible t s;
     let s = thread_delay_event_cancel t s;
     let s = upd_events (dq_remove (t, Deadline_event)) s;
     let s = pok_thread_wq_remove t s;
     let s = thread_stop_recoverable t (thread_stop_unlock t s);
     Some (upd_thread t (\<lambda>th. th\<lparr>msection_entering := None\<rparr>) s)
   }"

text \<open>The answer to \<open>thread_is_waiting_allowed\<close>; the current thread exists in all its calls.\<close>

definition thread_is_waiting_allowed :: "arinc \<Rightarrow> bool option" where
  "thread_is_waiting_allowed s =
     (case thread_current s of
        None \<Rightarrow> None
      | Some cur \<Rightarrow>
          if lock_level s \<noteq> 0 \<or> thread_error s = Some cur then Some False
          else do {
            kassert (msection_count (tshd s cur) = 0);
            kassert (first_donator (threads s cur) = None);
            Some True
          })"

definition thread_start :: "nat \<Rightarrow> arinc \<Rightarrow> arinc option" where
  "thread_start t s =
     (let s = upd_thread t (\<lambda>th. th\<lparr>state := POK_STATE_RUNNABLE\<rparr>) s
      in if \<not> suspended (threads s t) then thread_set_eligible t s else Some s)"

definition thread_wait :: "nat \<Rightarrow> arinc \<Rightarrow> arinc option" where
  "thread_wait t s = do {
     kassert (mode s = POK_PARTITION_MODE_NORMAL);
     Some (thread_set_uneligible t (upd_thread t (\<lambda>th. th\<lparr>state := POK_STATE_WAITING\<rparr>) s))
   }"

text \<open>A thread that is woken up while it is in the queue of a port, or while it waits for an
  msection, has been interrupted by its timeout.\<close>

definition thread_cancel_wait :: "nat \<Rightarrow> arinc \<Rightarrow> arinc" where
  "thread_cancel_wait t s =
     (if is_in_wait_queue t s
      then upd_thread t (\<lambda>th. th\<lparr>wait_result := POK_ERRNO_TIMEOUT\<rparr>) (pok_thread_wq_remove t s)
      else if msection_entering (threads s t) \<noteq> None
      then upd_thread t (\<lambda>th. th\<lparr>wait_result := POK_ERRNO_TIMEOUT\<rparr>) s
      else s)"

definition thread_wake_up :: "nat \<Rightarrow> arinc \<Rightarrow> arinc option" where
  "thread_wake_up t s = do {
     kassert (state (threads s t) = POK_STATE_WAITING);
     let s = upd_thread t (\<lambda>th. th\<lparr>state := POK_STATE_RUNNABLE\<rparr>) s;
     let s = thread_cancel_wait t (thread_delay_event_cancel t s);
     if \<not> suspended (threads s t) then thread_set_eligible t s else Some s
   }"

definition thread_wait_timed :: "nat \<Rightarrow> pok_time \<Rightarrow> arinc \<Rightarrow> arinc option" where
  "thread_wait_timed t time s = do {
     kassert (\<not> pok_time_is_infinity time);
     s \<leftarrow> thread_wait t s;
     Some (thread_delay_event t time Thread_wake_up s)
   }"

definition thread_wait_common :: "nat \<Rightarrow> pok_time \<Rightarrow> arinc \<Rightarrow> arinc option" where
  "thread_wait_common t dur s = do {
     kassert (dur \<noteq> 0);
     if pok_time_is_infinity dur then thread_wait t s
     else (let (now, s) = jet_system_time s in thread_wait_timed t (time_add now dur) s)
   }"

definition thread_suspend :: "nat \<Rightarrow> arinc \<Rightarrow> arinc" where
  "thread_suspend t s = thread_set_uneligible t (upd_thread t (\<lambda>th. th\<lparr>suspended := True\<rparr>) s)"

definition thread_resume_waited :: "nat \<Rightarrow> arinc \<Rightarrow> arinc option" where
  "thread_resume_waited t s = do {
     kassert (state (threads s t) = POK_STATE_WAITING);
     thread_set_eligible t (upd_thread t (\<lambda>th. th\<lparr>suspended := False, state := POK_STATE_RUNNABLE,
        wait_result := POK_ERRNO_TIMEOUT\<rparr>) s)
   }"

definition thread_suspend_timed :: "nat \<Rightarrow> pok_time \<Rightarrow> arinc \<Rightarrow> arinc option" where
  "thread_suspend_timed t time s = do {
     let s = thread_suspend t s;
     s \<leftarrow> thread_wait t s;
     let (now, s) = jet_system_time s;
     Some (thread_delay_event t (time_add now time) Thread_resume_waited s)
   }"

definition thread_resume :: "nat \<Rightarrow> arinc \<Rightarrow> arinc option" where
  "thread_resume t s =
     (let s = upd_thread t (\<lambda>th. th\<lparr>suspended := False\<rparr>) s;
          s = (if dq_active (partition_delayed_events s) (t, Delayed_event)
                  \<and> thread_delayed_func (threads s t) = Thread_resume_waited
               then upd_thread t (\<lambda>th. th\<lparr>wait_result := POK_ERRNO_OK\<rparr>)
                      (thread_delay_event_cancel t
                        (upd_thread t (\<lambda>th. th\<lparr>state := POK_STATE_RUNNABLE\<rparr>) s))
               else s)
      in if state (threads s t) = POK_STATE_RUNNABLE then thread_set_eligible t s else Some s)"

text \<open>The callback of a delayed event: the function recorded in the thread.\<close>

definition thread_process_delayed_event :: "nat \<Rightarrow> arinc \<Rightarrow> arinc option" where
  "thread_process_delayed_event hid s =
     (case thread_delayed_func (threads s hid) of
        Thread_wake_up \<Rightarrow> thread_wake_up hid s
      | Thread_resume_waited \<Rightarrow> thread_resume_waited hid s)"

subsection \<open>Wait queues of ports\<close>

text \<open>\<open>i\<close> is the index of the queuing port whose \<open>waiters\<close> the queue is.\<close>

definition upd_port :: "nat \<Rightarrow> (pok_port_queuing \<Rightarrow> pok_port_queuing) \<Rightarrow> arinc \<Rightarrow> arinc" where
  "upd_port i f s = s\<lparr>ports_queuing := (ports_queuing s)[i := f (ports_queuing s ! i)]\<rparr>"

definition pok_thread_wq_add :: "nat \<Rightarrow> nat \<Rightarrow> arinc \<Rightarrow> arinc" where
  "pok_thread_wq_add i t = upd_port i (\<lambda>p. p\<lparr>waiters := waiters p @ [t]\<rparr>)"

definition pok_thread_wq_add_prio :: "nat \<Rightarrow> nat \<Rightarrow> arinc \<Rightarrow> arinc" where
  "pok_thread_wq_add_prio i t s =
     (let s = upd_thread t (\<lambda>th. th\<lparr>wait_priority := priority th\<rparr>) s
      in upd_port i (\<lambda>p. p\<lparr>waiters := insert_before_first
           (\<lambda>other. wait_priority (threads s other) < wait_priority (threads s t)) t (waiters p)\<rparr>) s)"

definition pok_thread_wq_add_common :: "nat \<Rightarrow> nat \<Rightarrow> pok_queuing_discipline \<Rightarrow> arinc \<Rightarrow> arinc" where
  "pok_thread_wq_add_common i t disc =
     (if disc = POK_QUEUING_DISCIPLINE_FIFO then pok_thread_wq_add i t else pok_thread_wq_add_prio i t)"

definition pok_thread_wq_is_empty :: "nat \<Rightarrow> arinc \<Rightarrow> bool" where
  "pok_thread_wq_is_empty i s \<longleftrightarrow> waiters (ports_queuing s ! i) = []"

definition pok_thread_wq_get_nwaits :: "nat \<Rightarrow> arinc \<Rightarrow> nat" where
  "pok_thread_wq_get_nwaits i s = length (waiters (ports_queuing s ! i))"

definition pok_thread_wq_wake_up :: "nat \<Rightarrow> arinc \<Rightarrow> (nat option \<times> arinc) option" where
  "pok_thread_wq_wake_up i s =
     (case waiters (ports_queuing s ! i) of
        [] \<Rightarrow> Some (None, s)
      | t # _ \<Rightarrow> do {
          s \<leftarrow> thread_wake_up t (pok_thread_wq_remove t s);
          Some (Some t, s)
        })"

subsection \<open>The invariant of the local scheduler\<close>

text \<open>Created threads other than the main thread and the error handler.\<close>

definition ordinary :: "arinc \<Rightarrow> nat \<Rightarrow> bool" where
  "ordinary s t \<longleftrightarrow> 0 < t \<and> t < nthreads_used s \<and> thread_error s \<noteq> Some t"

definition may_run :: "arinc \<Rightarrow> nat \<Rightarrow> bool" where
  "may_run s t \<longleftrightarrow> mode s = POK_PARTITION_MODE_NORMAL \<and> ordinary s t
     \<and> state (threads s t) = POK_STATE_RUNNABLE \<and> \<not> suspended (threads s t)"

text \<open>What timers and wait queues say about one thread.\<close>

definition thread_ok :: "arinc \<Rightarrow> nat \<Rightarrow> bool" where
  "thread_ok s t \<longleftrightarrow>
     (dq_active (partition_delayed_events s) (t, Delayed_event) \<longrightarrow>
        mode s = POK_PARTITION_MODE_NORMAL \<and> ordinary s t \<and> state (threads s t) = POK_STATE_WAITING
        \<and> (thread_delayed_func (threads s t) = Thread_resume_waited \<longrightarrow>
              suspended (threads s t) \<and> \<not> is_in_wait_queue t s)
        \<and> dq_handler (partition_delayed_events s) (t, Delayed_event) = t
        \<and> dq_process (partition_delayed_events s) (t, Delayed_event) = Thread_process_delayed_event)
   \<and> (dq_active (partition_delayed_events s) (t, Deadline_event) \<longrightarrow>
        mode s = POK_PARTITION_MODE_NORMAL \<and> ordinary s t \<and> state (threads s t) \<noteq> POK_STATE_STOPPED
        \<and> dq_handler (partition_delayed_events s) (t, Deadline_event) = t
        \<and> dq_process (partition_delayed_events s) (t, Deadline_event) = Thread_deadline_occured)
   \<and> (is_in_wait_queue t s \<longrightarrow>
        mode s = POK_PARTITION_MODE_NORMAL \<and> ordinary s t \<and> state (threads s t) = POK_STATE_WAITING)
   \<and> (mode s \<noteq> POK_PARTITION_MODE_NORMAL \<longrightarrow> ordinary s t \<longrightarrow> state (threads s t) \<noteq> POK_STATE_RUNNABLE)"

text \<open>The invariant, except for the threads of \<open>X\<close>, which an operation is about to change and
  which are not eligible meanwhile.\<close>

definition thr_inv :: "nat set \<Rightarrow> arinc \<Rightarrow> bool" where
  "thr_inv X s \<longleftrightarrow>
     distinct (eligible_threads s) \<and> prio_sorted (\<lambda>t. priority (threads s t)) (eligible_threads s)
     \<and> dq_inv (partition_delayed_events s)
     \<and> distinct (concat (map waiters (ports_queuing s)))
     \<and> nthreads_used s \<le> nthreads s \<and> nthreads s < 65536
     \<and> (\<forall>t. t \<notin> X \<longrightarrow> (t \<in> set (eligible_threads s) \<longleftrightarrow> may_run s t) \<and> thread_ok s t)
     \<and> (\<forall>t \<in> X. t \<notin> set (eligible_threads s))"

lemma thr_inv_thread:
  "thr_inv {} s \<Longrightarrow> (t \<in> set (eligible_threads s) \<longleftrightarrow> may_run s t) \<and> thread_ok s t"
  by (simp add: thr_inv_def)

lemma thr_inv_close:
  "thr_inv {t} s \<Longrightarrow> \<not> may_run s t \<Longrightarrow> thread_ok s t \<Longrightarrow> thr_inv {} s"
  by (auto simp: thr_inv_def)

lemma thr_inv_open: "thr_inv {} s \<Longrightarrow> t \<notin> set (eligible_threads s) \<Longrightarrow> thr_inv {t} s"
  by (auto simp: thr_inv_def)

lemma may_run_invalidate [simp]: "may_run (pok_sched_local_invalidate s) t = may_run s t"
  by (simp add: may_run_def ordinary_def)

lemma thread_ok_invalidate [simp]: "thread_ok (pok_sched_local_invalidate s) t = thread_ok s t"
  by (simp add: thread_ok_def ordinary_def is_in_wait_queue_def)

lemma thr_inv_invalidate [simp]: "thr_inv X (pok_sched_local_invalidate s) = thr_inv X s"
  by (simp add: thr_inv_def)

text \<open>Changing one excepted thread, its timers or its place in a wait queue keeps the rest.\<close>

lemma thr_inv_upd_thread:
  assumes "thr_inv {t} s"
  shows "thr_inv {t} (upd_thread t f s)"
proof -
  have same: "may_run (upd_thread t f s) u = may_run s u" "thread_ok (upd_thread t f s) u = thread_ok s u"
    if "u \<noteq> t" for u
    using that by (simp_all add: may_run_def thread_ok_def ordinary_def is_in_wait_queue_def)
  have "prio_sorted (\<lambda>u. priority (threads (upd_thread t f s) u)) (eligible_threads s)
      = prio_sorted (\<lambda>u. priority (threads s u)) (eligible_threads s)"
    by (rule prio_sorted_cong) (use assms in \<open>auto simp: thr_inv_def\<close>)
  then show ?thesis using assms same by (simp add: thr_inv_def)
qed

lemma thr_inv_upd_events:
  assumes "thr_inv {t} s" "\<And>d. dq_inv d \<Longrightarrow> dq_inv (f d)"
    "\<And>d u k. u \<noteq> t \<Longrightarrow> dq_active (f d) (u, k) = dq_active d (u, k)
        \<and> dq_handler (f d) (u, k) = dq_handler d (u, k) \<and> dq_process (f d) (u, k) = dq_process d (u, k)"
  shows "thr_inv {t} (upd_events f s)"
  using assms
  by (simp add: thr_inv_def upd_events_def may_run_def thread_ok_def ordinary_def is_in_wait_queue_def)

lemma thr_inv_delayed_ops:
  assumes "thr_inv {t} s"
  shows "thr_inv {t} (upd_events (dq_remove (t, k)) s)"
    and "thr_inv {t} (upd_events (dq_add (t, k) tp hid pf) s)"
    and "thr_inv {t} (thread_delay_event t tp f s)"
  unfolding thread_delay_event_def
  by (intro thr_inv_upd_events thr_inv_upd_thread assms dq_inv_remove dq_inv_add;
      simp add: dq_active_def dq_remove_def dq_add_def)+

lemma concat_removeAll: "concat (map (removeAll t) xss) = removeAll t (concat xss)"
  by (induction xss) (auto simp: removeAll_append)

lemma waiters_wq_remove:
  "concat (map waiters (ports_queuing (pok_thread_wq_remove t s)))
     = removeAll t (concat (map waiters (ports_queuing s)))"
  by (simp add: pok_thread_wq_remove_def comp_def flip: concat_removeAll)

lemma in_wait_queue_concat:
  "is_in_wait_queue t s \<longleftrightarrow> t \<in> set (concat (map waiters (ports_queuing s)))"
  by (auto simp: is_in_wait_queue_def)

lemma wq_remove_frame [simp]:
  "threads (pok_thread_wq_remove t s) = threads s"
  "eligible_threads (pok_thread_wq_remove t s) = eligible_threads s"
  "mode (pok_thread_wq_remove t s) = mode s"
  "nthreads_used (pok_thread_wq_remove t s) = nthreads_used s"
  "nthreads (pok_thread_wq_remove t s) = nthreads s"
  "thread_error (pok_thread_wq_remove t s) = thread_error s"
  "partition_delayed_events (pok_thread_wq_remove t s) = partition_delayed_events s"
  "is_in_wait_queue u (pok_thread_wq_remove t s) \<longleftrightarrow> is_in_wait_queue u s \<and> u \<noteq> t"
  by (simp add: pok_thread_wq_remove_def)+ (auto simp: is_in_wait_queue_def pok_thread_wq_remove_def)

lemma thr_inv_wq_remove: "thr_inv {t} s \<Longrightarrow> thr_inv {t} (pok_thread_wq_remove t s)"
  by (simp add: thr_inv_def waiters_wq_remove distinct_removeAll may_run_def thread_ok_def ordinary_def)

lemma upd_events_frame [simp]:
  "threads (upd_events f s) = threads s" "eligible_threads (upd_events f s) = eligible_threads s"
  "mode (upd_events f s) = mode s" "nthreads_used (upd_events f s) = nthreads_used s"
  "nthreads (upd_events f s) = nthreads s" "thread_error (upd_events f s) = thread_error s"
  "ports_queuing (upd_events f s) = ports_queuing s"
  "partition_delayed_events (upd_events f s) = f (partition_delayed_events s)"
  "is_in_wait_queue t (upd_events f s) = is_in_wait_queue t s"
  "sched_local_recheck_needed (upd_events f s) = sched_local_recheck_needed s"
  by (simp_all add: upd_events_def is_in_wait_queue_def)

lemma is_in_wait_queue_upd_thread [simp]: "is_in_wait_queue u (upd_thread t f s) = is_in_wait_queue u s"
  by (simp add: is_in_wait_queue_def)

text \<open>Entering and leaving the queue of eligible threads.\<close>

lemma thread_set_eligible_inv [sched_inv]:
  assumes "thr_inv {t} s" "may_run s t" "thread_ok s t" "thread_set_eligible t s = Some s'"
  shows "thr_inv {} s'"
proof -
  let ?l = "insert_before_first (\<lambda>other. priority (threads s other) < priority (threads s t)) t (eligible_threads s)"
  let ?s = "s\<lparr>eligible_threads := ?l\<rparr>"
  have same: "may_run ?s u = may_run s u" "thread_ok ?s u = thread_ok s u" for u
    by (simp_all add: may_run_def thread_ok_def ordinary_def is_in_wait_queue_def)
  have "prio_sorted (\<lambda>u. priority (threads s u)) ?l"
    using assms(1) by (intro prio_sorted_insert) (simp add: thr_inv_def)
  moreover have "(u \<in> insert t (set (eligible_threads s)) \<longleftrightarrow> may_run s u) \<and> thread_ok s u" for u
    using assms(1-3) by (cases "u = t") (simp_all add: thr_inv_def)
  ultimately have "thr_inv {} ?s" using assms(1) same by (simp add: thr_inv_def)
  then show ?thesis using assms(4)
    by (auto simp: thread_set_eligible_def Let_def split: if_splits)
qed

lemma thread_set_eligible_total:
  "thr_inv {t} s \<Longrightarrow> mode s = POK_PARTITION_MODE_NORMAL \<Longrightarrow> \<exists>s'. thread_set_eligible t s = Some s'"
  by (auto simp: thread_set_eligible_def thread_is_eligible_def thr_inv_def Let_def)

lemma thread_set_uneligible_inv [sched_inv]:
  assumes "thr_inv {} s"
  shows "thr_inv {t} (thread_set_uneligible t s)"
proof (cases "thread_is_eligible t s")
  case True
  let ?s = "s\<lparr>eligible_threads := removeAll t (eligible_threads s)\<rparr>"
  have same: "may_run ?s u = may_run s u" "thread_ok ?s u = thread_ok s u" for u
    by (simp_all add: may_run_def thread_ok_def ordinary_def is_in_wait_queue_def)
  have "thr_inv {t} ?s"
    using assms same by (auto simp: thr_inv_def intro: prio_sorted_removeAll distinct_removeAll)
  then have "thr_inv {t} (pok_sched_local_invalidate ?s)" by simp
  moreover have "(pok_sched_local_invalidate s)\<lparr>eligible_threads := removeAll t (eligible_threads s)\<rparr>
      = pok_sched_local_invalidate ?s"
    by (simp add: pok_sched_local_invalidate_def)
  ultimately show ?thesis using True \<open>thr_inv {t} ?s\<close> by (simp add: thread_set_uneligible_def Let_def)
next
  case False
  then show ?thesis using assms thr_inv_open by (simp add: thread_set_uneligible_def thread_is_eligible_def)
qed

lemma uneligible_frame [simp]:
  "threads (thread_set_uneligible t s) = threads s" "mode (thread_set_uneligible t s) = mode s"
  "nthreads_used (thread_set_uneligible t s) = nthreads_used s"
  "nthreads (thread_set_uneligible t s) = nthreads s"
  "thread_error (thread_set_uneligible t s) = thread_error s"
  "partition_delayed_events (thread_set_uneligible t s) = partition_delayed_events s"
  "ports_queuing (thread_set_uneligible t s) = ports_queuing s"
  "is_in_wait_queue u (thread_set_uneligible t s) = is_in_wait_queue u s"
  "eligible_threads (thread_set_uneligible t s) = removeAll t (eligible_threads s)"
  by (simp_all add: thread_set_uneligible_def Let_def is_in_wait_queue_def thread_is_eligible_def)

text \<open>Changing the state of a thread and taking it out of the queue commute.\<close>

lemma uneligible_upd_thread:
  "thread_set_uneligible t (upd_thread t f s) = upd_thread t f (thread_set_uneligible t s)"
  by (simp add: thread_set_uneligible_def thread_is_eligible_def first_eligible_def upd_thread_def
      pok_sched_local_invalidate_def Let_def)

declare may_run_def [thr_simps] ordinary_def [thr_simps] thread_ok_def [thr_simps]

lemma thr_inv_uneligible:
  assumes "thr_inv X s" "X \<subseteq> {t}"
  shows "thr_inv {t} (thread_set_uneligible t s)"
proof (cases "X = {}")
  case True
  then show ?thesis using assms thread_set_uneligible_inv by simp
next
  case False
  then have X: "X = {t}" using assms(2) by auto
  then have "thread_set_uneligible t s = s"
    using assms(1) by (auto simp: thr_inv_def thread_set_uneligible_def thread_is_eligible_def)
  then show ?thesis using assms(1) X by simp
qed

text \<open>The state change of a thread that leaves the queue of eligible threads.\<close>

lemma thr_inv_leave:
  "thr_inv X s \<Longrightarrow> X \<subseteq> {t} \<Longrightarrow> thr_inv {t} (thread_set_uneligible t (upd_thread t f s))"
  unfolding uneligible_upd_thread by (intro thr_inv_upd_thread thr_inv_uneligible)

lemma thr_inv_bounds: "thr_inv X s \<Longrightarrow> ordinary s t \<Longrightarrow> u16 t = t"
  by (auto simp: thr_inv_def ordinary_def)

text \<open>The deadline event of a thread is its own.\<close>

definition deadline_ok :: "arinc \<Rightarrow> nat \<Rightarrow> bool" where
  "deadline_ok s t \<longleftrightarrow> (dq_active (partition_delayed_events s) (t, Deadline_event) \<longrightarrow>
     dq_handler (partition_delayed_events s) (t, Deadline_event) = t
     \<and> dq_process (partition_delayed_events s) (t, Deadline_event) = Thread_deadline_occured)"

lemma thr_inv_deadline_ok: "thr_inv {} s \<Longrightarrow> deadline_ok s t"
  using thr_inv_thread [of s t] by (simp add: thread_ok_def deadline_ok_def)

lemma thread_stop_inv [sched_inv]:
  assumes "thr_inv X s" "X \<subseteq> {t}" "thread_stop t s = Some s'"
  shows "thr_inv {} s'"
proof -
  let ?s1 = "thread_set_uneligible t (upd_thread t (\<lambda>th. th\<lparr>state := POK_STATE_STOPPED\<rparr>) s)"
  let ?s2 = "pok_thread_wq_remove t (upd_events (dq_remove (t, Deadline_event))
               (thread_delay_event_cancel t ?s1))"
  have 2: "thr_inv {t} ?s2"
    unfolding thread_delay_event_cancel_def
    using assms(1,2) by (intro thr_inv_wq_remove thr_inv_delayed_ops thr_inv_leave)
  let ?s4 = "thread_stop_recoverable t (thread_stop_unlock t ?s2)"
  have lock: "thr_inv {t} (u\<lparr>lock_level := n\<rparr>) = thr_inv {t} u" for u n
    by (simp add: thr_inv_def thr_simps is_in_wait_queue_def)
  have unrec: "thr_inv {t} (u\<lparr>nthreads_unrecoverable := n\<rparr>) = thr_inv {t} u" for u n
    by (simp add: thr_inv_def thr_simps is_in_wait_queue_def)
  have 3: "thr_inv {t} (thread_stop_unlock t ?s2)" using 2 by (simp add: thread_stop_unlock_def lock)
  have 4: "thr_inv {t} ?s4" using 3 by (simp add: thread_stop_recoverable_def unrec thr_inv_upd_thread)
  have s': "s' = upd_thread t (\<lambda>th. th\<lparr>msection_entering := None\<rparr>) ?s4"
    using assms(3) by (simp add: thread_stop_def Let_def split: if_splits)
  have f: "state (threads ?s4 t) = POK_STATE_STOPPED"
      "partition_delayed_events ?s4 = partition_delayed_events ?s2"
      "ports_queuing ?s4 = ports_queuing ?s2"
    by (simp_all add: thread_stop_recoverable_def thread_stop_unlock_def thread_delay_event_cancel_def)
  have "\<not> dq_active (partition_delayed_events ?s2) (t, k)" for k
    by (cases k) (auto simp: thread_delay_event_cancel_def dq_active_def dq_remove_def)
  moreover have "\<not> is_in_wait_queue t ?s4" using f(3) by (simp add: in_wait_queue_concat waiters_wq_remove)
  ultimately show ?thesis
    unfolding s' using f by (intro thr_inv_close [of t] thr_inv_upd_thread 4) (simp_all add: thr_simps)
qed

lemma thread_start_inv [sched_inv]:
  assumes "thr_inv {t} s" "ordinary s t" "mode s = POK_PARTITION_MODE_NORMAL"
    "\<not> dq_active (partition_delayed_events s) (t, Delayed_event)" "\<not> is_in_wait_queue t s"
    "deadline_ok s t" "thread_start t s = Some s'"
  shows "thr_inv {} s'"
proof -
  let ?s = "upd_thread t (\<lambda>th. th\<lparr>state := POK_STATE_RUNNABLE\<rparr>) s"
  have ok: "thread_ok ?s t" using assms by (simp add: thr_simps deadline_ok_def)
  show ?thesis
  proof (cases "suspended (threads s t)")
    case True
    then have "\<not> may_run ?s t" by (simp add: may_run_def)
    then show ?thesis using True assms(7) thr_inv_close [OF thr_inv_upd_thread [OF assms(1)] _ ok]
      by (simp add: thread_start_def Let_def)
  next
    case False
    then have "may_run ?s t" using assms(2,3) by (simp add: thr_simps)
    from thread_set_eligible_inv [OF thr_inv_upd_thread [OF assms(1)] this ok] False assms(7) show ?thesis
      by (simp add: thread_start_def Let_def)
  qed
qed

lemma thread_wait_inv [sched_inv]:
  assumes "thr_inv X s" "X \<subseteq> {t}" "ordinary s t" "deadline_ok s t"
    "\<not> dq_active (partition_delayed_events s) (t, Delayed_event)" "thread_wait t s = Some s'"
  shows "thr_inv {} s'"
proof -
  have s': "s' = thread_set_uneligible t (upd_thread t (\<lambda>th. th\<lparr>state := POK_STATE_WAITING\<rparr>) s)"
    "mode s = POK_PARTITION_MODE_NORMAL"
    using assms(6) by (simp_all add: thread_wait_def split: if_splits)
  show ?thesis unfolding s'(1)
    by (intro thr_inv_close [of t] thr_inv_leave [OF assms(1,2)])
      (use assms s'(2) in \<open>simp_all add: thr_simps deadline_ok_def\<close>)
qed

lemma dq_add_fields [simp]:
  "dq_active (dq_add k tp hid pf d) j \<longleftrightarrow> j = k \<or> dq_active d j"
  "dq_handler (dq_add k tp hid pf d) j = (if j = k then hid else dq_handler d j)"
  "dq_process (dq_add k tp hid pf d) j = (if j = k then pf else dq_process d j)"
  by (auto simp: dq_active_def dq_add_def)

lemma dq_remove_fields [simp]:
  "dq_active (dq_remove k d) j \<longleftrightarrow> dq_active d j \<and> j \<noteq> k"
  "dq_handler (dq_remove k d) = dq_handler d" "dq_process (dq_remove k d) = dq_process d"
  by (auto simp: dq_active_def dq_remove_def)

lemma thread_delay_event_frame [simp]:
  "threads (thread_delay_event t tp f s) = (threads s)(t := (threads s t)\<lparr>thread_delayed_func := f\<rparr>)"
  "mode (thread_delay_event t tp f s) = mode s" "nthreads_used (thread_delay_event t tp f s) = nthreads_used s"
  "thread_error (thread_delay_event t tp f s) = thread_error s"
  "is_in_wait_queue u (thread_delay_event t tp f s) = is_in_wait_queue u s"
  "partition_delayed_events (thread_delay_event t tp f s)
     = dq_add (t, Delayed_event) tp (u16 t) Thread_process_delayed_event (partition_delayed_events s)"
  by (simp_all add: thread_delay_event_def)

text \<open>A thread that leaves the queue of eligible threads and waits for a time.\<close>

lemma thr_inv_delayed_wait:
  assumes "thr_inv X s" "X \<subseteq> {t}" "ordinary s t" "deadline_ok s t" "mode s = POK_PARTITION_MODE_NORMAL"
    "\<And>th. state (f th) = POK_STATE_WAITING"
    "\<And>th. g = Thread_resume_waited \<longrightarrow> suspended (f th) \<and> \<not> is_in_wait_queue t s"
  shows "thr_inv {} (thread_delay_event t tp g (thread_set_uneligible t (upd_thread t f s)))"
  by (intro thr_inv_close [of t] thr_inv_delayed_ops thr_inv_leave [OF assms(1,2)])
    (use assms in \<open>simp_all add: thr_simps deadline_ok_def thr_inv_bounds [OF assms(1,3)]\<close>)

lemma thread_wait_timed_inv [sched_inv]:
  assumes "thr_inv X s" "X \<subseteq> {t}" "ordinary s t" "deadline_ok s t" "thread_wait_timed t time s = Some s'"
  shows "thr_inv {} s'"
proof -
  have s': "s' = thread_delay_event t time Thread_wake_up
      (thread_set_uneligible t (upd_thread t (\<lambda>th. th\<lparr>state := POK_STATE_WAITING\<rparr>) s))"
    "mode s = POK_PARTITION_MODE_NORMAL"
    using assms(5) by (auto simp: thread_wait_timed_def thread_wait_def split: if_splits)
  show ?thesis unfolding s'(1) using s'(2) by (intro thr_inv_delayed_wait [OF assms(1-4)]) simp_all
qed

lemma jet_system_time_frame:
  "jet_system_time s = (now, s') \<Longrightarrow> s' = s\<lparr>clock_pos := clock_pos s + 1\<rparr> \<and> now = clock s (clock_pos s)"
  by (simp add: jet_system_time_def)

lemma thr_inv_clock [simp]: "thr_inv X (s\<lparr>clock_pos := n\<rparr>) = thr_inv X s"
  by (simp add: thr_inv_def thr_simps is_in_wait_queue_def)

lemma thread_wait_common_inv [sched_inv]:
  assumes "thr_inv X s" "X \<subseteq> {t}" "ordinary s t" "deadline_ok s t"
    "\<not> dq_active (partition_delayed_events s) (t, Delayed_event)" "thread_wait_common t dur s = Some s'"
  shows "thr_inv {} s'"
proof (cases "pok_time_is_infinity dur")
  case True
  then have "thread_wait t s = Some s'" using assms(6) by (simp add: thread_wait_common_def split: if_splits)
  then show ?thesis using thread_wait_inv assms(1-5) by blast
next
  case False
  then have "thread_wait_timed t (time_add (clock s (clock_pos s)) dur) (s\<lparr>clock_pos := clock_pos s + 1\<rparr>) = Some s'"
    using assms(6) by (simp add: thread_wait_common_def jet_system_time_def split: if_splits)
  from thread_wait_timed_inv [OF _ assms(2) _ _ this] assms(1,3,4) show ?thesis
    by (simp add: ordinary_def deadline_ok_def)
qed

lemma thread_cancel_wait_frame [simp]:
  "mode (thread_cancel_wait t s) = mode s" "nthreads_used (thread_cancel_wait t s) = nthreads_used s"
  "nthreads (thread_cancel_wait t s) = nthreads s"
  "thread_error (thread_cancel_wait t s) = thread_error s"
  "eligible_threads (thread_cancel_wait t s) = eligible_threads s"
  "partition_delayed_events (thread_cancel_wait t s) = partition_delayed_events s"
  "state (threads (thread_cancel_wait t s) u) = state (threads s u)"
  "suspended (threads (thread_cancel_wait t s) u) = suspended (threads s u)"
  "\<not> is_in_wait_queue t (thread_cancel_wait t s)"
  by (simp_all add: thread_cancel_wait_def)

lemma thr_inv_cancel_wait: "thr_inv {t} s \<Longrightarrow> thr_inv {t} (thread_cancel_wait t s)"
  by (simp add: thread_cancel_wait_def thr_inv_upd_thread thr_inv_wq_remove)

text \<open>The state of a thread that is woken up, before it becomes eligible.\<close>

definition woken :: "nat \<Rightarrow> arinc \<Rightarrow> arinc" where
  "woken t s = thread_cancel_wait t (thread_delay_event_cancel t
     (upd_thread t (\<lambda>th. th\<lparr>state := POK_STATE_RUNNABLE\<rparr>) s))"

lemma thread_wake_up_eq: "thread_wake_up t s =
   (if state (threads s t) \<noteq> POK_STATE_WAITING then None
    else if suspended (threads s t) then Some (woken t s) else thread_set_eligible t (woken t s))"
  by (simp add: thread_wake_up_def woken_def thread_delay_event_cancel_def Let_def)

lemma woken_inv:
  assumes "thr_inv {} s" "state (threads s t) = POK_STATE_WAITING" "ordinary s t"
    "mode s = POK_PARTITION_MODE_NORMAL"
  shows "thr_inv {t} (woken t s)" "thread_ok (woken t s) t"
    "may_run (woken t s) t \<longleftrightarrow> \<not> suspended (threads s t)"
proof -
  have "\<not> may_run s t" using assms(2) by (simp add: may_run_def)
  then have "thr_inv {t} s" using thr_inv_open [OF assms(1)] thr_inv_thread [OF assms(1)] by blast
  then show "thr_inv {t} (woken t s)"
    unfolding woken_def thread_delay_event_cancel_def
    by (intro thr_inv_cancel_wait thr_inv_delayed_ops thr_inv_upd_thread)
  show "thread_ok (woken t s) t" "may_run (woken t s) t \<longleftrightarrow> \<not> suspended (threads s t)"
    using assms(3,4) thr_inv_deadline_ok [OF assms(1), of t]
    by (simp_all add: woken_def thread_delay_event_cancel_def thr_simps deadline_ok_def)
qed

lemma thread_wake_up_inv [sched_inv]:
  assumes "thr_inv {} s" "ordinary s t" "mode s = POK_PARTITION_MODE_NORMAL" "thread_wake_up t s = Some s'"
  shows "thr_inv {} s'"
proof -
  have w: "state (threads s t) = POK_STATE_WAITING" using assms(4) by (simp add: thread_wake_up_eq split: if_splits)
  note i = woken_inv [OF assms(1) w assms(2,3)]
  show ?thesis
    using assms(4) w i thread_set_eligible_inv [OF i(1) _ i(2)] thr_inv_close [OF i(1) _ i(2)]
    by (auto simp: thread_wake_up_eq split: if_splits)
qed

lemma thread_wake_up_total:
  assumes "thr_inv {} s" "state (threads s t) = POK_STATE_WAITING" "ordinary s t"
    "mode s = POK_PARTITION_MODE_NORMAL"
  shows "\<exists>s'. thread_wake_up t s = Some s'"
  using assms thread_set_eligible_total [OF woken_inv(1) [OF assms]]
  by (auto simp: thread_wake_up_eq woken_def thread_delay_event_cancel_def)

lemma thread_suspend_inv [sched_inv]:
  assumes "thr_inv {} s" shows "thr_inv {} (thread_suspend t s)"
  unfolding thread_suspend_def
  by (intro thr_inv_close [of t] thr_inv_leave [OF assms])
    (use thr_inv_thread [OF assms, of t] in \<open>simp_all add: thr_simps\<close>)

lemma thread_suspend_frame [simp]:
  "threads (thread_suspend t s) = (threads s)(t := (threads s t)\<lparr>suspended := True\<rparr>)"
  "mode (thread_suspend t s) = mode s" "nthreads_used (thread_suspend t s) = nthreads_used s"
  "thread_error (thread_suspend t s) = thread_error s"
  "partition_delayed_events (thread_suspend t s) = partition_delayed_events s"
  "clock (thread_suspend t s) = clock s" "clock_pos (thread_suspend t s) = clock_pos s"
  by (simp_all add: thread_suspend_def uneligible_upd_thread)
    (simp_all add: thread_set_uneligible_def upd_thread_def pok_sched_local_invalidate_def Let_def)

lemma thread_suspend_timed_inv [sched_inv]:
  assumes "thr_inv {} s" "ordinary s t" "state (threads s t) = POK_STATE_RUNNABLE"
    "thread_suspend_timed t time s = Some s'"
  shows "thr_inv {} s'"
proof -
  let ?s = "thread_suspend t s"
  have q: "\<not> is_in_wait_queue t s" using thr_inv_thread [OF assms(1), of t] assms(3) by (simp add: thread_ok_def)
  have q': "is_in_wait_queue t (thread_suspend t s\<lparr>clock_pos := n\<rparr>) = is_in_wait_queue t s" for n
    by (simp add: is_in_wait_queue_def thread_suspend_def)
  have m: "mode s = POK_PARTITION_MODE_NORMAL"
    using assms(4) by (auto simp: thread_suspend_timed_def thread_wait_def split: if_splits)
  define f where "f = (\<lambda>th :: pok_thread. th\<lparr>state := POK_STATE_WAITING\<rparr>)"
  let ?w = "thread_set_uneligible t (upd_thread t f ?s)"
  obtain now s2 where c: "jet_system_time ?w = (now, s2)" by (cases "jet_system_time ?w")
  have s': "s' = thread_delay_event t (time_add now time) Thread_resume_waited s2"
    using assms(4) m c by (simp add: thread_suspend_timed_def thread_wait_def f_def)
  have clk: "s2 = ?w\<lparr>clock_pos := clock_pos ?w + 1\<rparr>" using jet_system_time_frame [OF c] by simp
  have "?w\<lparr>clock_pos := n\<rparr> = thread_set_uneligible t (upd_thread t f (?s\<lparr>clock_pos := n\<rparr>))" for n
    by (simp add: thread_set_uneligible_def upd_thread_def pok_sched_local_invalidate_def Let_def
        thread_is_eligible_def first_eligible_def)
  then have s'2: "s' = thread_delay_event t (time_add now time) Thread_resume_waited
      (thread_set_uneligible t (upd_thread t (\<lambda>th. th\<lparr>suspended := True, state := POK_STATE_WAITING\<rparr>)
        (?s\<lparr>clock_pos := clock_pos ?w + 1\<rparr>)))"
    unfolding s' clk by (simp add: upd_thread_def f_def)
  have "thr_inv {} (?s\<lparr>clock_pos := clock_pos ?w + 1\<rparr>)" using thread_suspend_inv [OF assms(1)] by simp
  then show ?thesis unfolding s'2
    by (rule thr_inv_delayed_wait)
      (use assms(2) m q thr_inv_deadline_ok [OF thread_suspend_inv [OF assms(1)], of t t] in
        \<open>simp_all add: ordinary_def deadline_ok_def q'\<close>)
qed

lemma thread_resume_waited_inv [sched_inv]:
  assumes "thr_inv {} s" "ordinary s t" "mode s = POK_PARTITION_MODE_NORMAL"
    "\<not> dq_active (partition_delayed_events s) (t, Delayed_event)" "\<not> is_in_wait_queue t s"
    "thread_resume_waited t s = Some s'"
  shows "thr_inv {} s'"
proof -
  let ?s = "upd_thread t (\<lambda>th. th\<lparr>suspended := False, state := POK_STATE_RUNNABLE,
        wait_result := POK_ERRNO_TIMEOUT\<rparr>) s"
  have "state (threads s t) = POK_STATE_WAITING" and e: "thread_set_eligible t ?s = Some s'"
    using assms(6) by (simp_all add: thread_resume_waited_def split: if_splits)
  then have "\<not> may_run s t" by (simp add: may_run_def)
  then have 1: "thr_inv {t} s" using thr_inv_open [OF assms(1)] thr_inv_thread [OF assms(1)] by blast
  have "thread_ok ?s t" "may_run ?s t"
    using assms(2-5) thr_inv_deadline_ok [OF assms(1), of t] by (simp_all add: thr_simps deadline_ok_def)
  then show ?thesis using thread_set_eligible_inv [OF thr_inv_upd_thread [OF 1] _ _ e] by blast
qed

lemma thread_yield_eq:
  "thread_yield t s = (if thread_is_eligible t s then thread_set_eligible t (thread_set_uneligible t s) else Some s)"
  by (simp add: thread_yield_def thread_set_uneligible_def Let_def)

text \<open>A thread is moved to its new place after a change that does not touch its state.\<close>

lemma thread_yield_inv [sched_inv]:
  assumes "thr_inv {} s" "\<And>th. state (f th) = state th \<and> suspended (f th) = suspended th
      \<and> thread_delayed_func (f th) = thread_delayed_func th"
    "thread_yield t (upd_thread t f s) = Some s'"
  shows "thr_inv {} s'"
proof -
  have same: "may_run (upd_thread t f s) t = may_run s t" "thread_ok (upd_thread t f s) t = thread_ok s t"
    "may_run (thread_set_uneligible t (upd_thread t f s)) t = may_run s t"
    "thread_ok (thread_set_uneligible t (upd_thread t f s)) t = thread_ok s t"
    using assms(2) by (simp_all add: thr_simps)
  show ?thesis
  proof (cases "thread_is_eligible t s")
    case True
    then have "may_run s t" "thread_ok s t" using thr_inv_thread [OF assms(1)] by (simp_all add: thread_is_eligible_def)
    moreover have "thread_set_eligible t (thread_set_uneligible t (upd_thread t f s)) = Some s'"
      using assms(3) True by (simp add: thread_yield_eq thread_is_eligible_def)
    ultimately show ?thesis
      using thread_set_eligible_inv [OF thr_inv_leave [OF assms(1)]] same by blast
  next
    case False
    then have "t \<notin> set (eligible_threads s)" "\<not> may_run s t" "thread_ok s t"
      using thr_inv_thread [OF assms(1)] by (simp_all add: thread_is_eligible_def)
    moreover have "s' = upd_thread t f s" using assms(3) False by (simp add: thread_yield_eq thread_is_eligible_def)
    ultimately show ?thesis
      using thr_inv_close [OF thr_inv_upd_thread [OF thr_inv_open [OF assms(1)]]] same by blast
  qed
qed

lemma thread_resume_inv [sched_inv]:
  assumes "thr_inv {} s" "ordinary s t" "mode s = POK_PARTITION_MODE_NORMAL" "suspended (threads s t)"
    "thread_resume t s = Some s'"
  shows "thr_inv {} s'"
proof -
  have "\<not> may_run s t" using assms(4) by (simp add: may_run_def)
  then have 1: "thr_inv {t} s" using thr_inv_open [OF assms(1)] thr_inv_thread [OF assms(1)] by blast
  have ok: "thread_ok s t" using thr_inv_thread [OF assms(1)] by blast
  define s1 where "s1 = upd_thread t (\<lambda>th. th\<lparr>suspended := False\<rparr>) s"
  define s2 where "s2 = (if dq_active (partition_delayed_events s1) (t, Delayed_event)
          \<and> thread_delayed_func (threads s1 t) = Thread_resume_waited
       then upd_thread t (\<lambda>th. th\<lparr>wait_result := POK_ERRNO_OK\<rparr>)
              (thread_delay_event_cancel t (upd_thread t (\<lambda>th. th\<lparr>state := POK_STATE_RUNNABLE\<rparr>) s1))
       else s1)"
  have r: "(if state (threads s2 t) = POK_STATE_RUNNABLE then thread_set_eligible t s2 else Some s2) = Some s'"
    using assms(5) by (simp only: thread_resume_def Let_def s1_def [symmetric] s2_def [symmetric])
  have 2: "thr_inv {t} s2"
    unfolding s2_def s1_def thread_delay_event_cancel_def
    using 1 by (simp add: thr_inv_upd_thread thr_inv_delayed_ops)
  \<comment> \<open>a thread suspended for a time is in no queue of a port\<close>
  have q: "thread_ok s2 t"
  proof (cases "dq_active (partition_delayed_events s) (t, Delayed_event)
      \<and> thread_delayed_func (threads s t) = Thread_resume_waited")
    case True
    then show ?thesis using ok assms(2,3)
      by (simp add: s2_def s1_def thread_delay_event_cancel_def thr_simps)
  next
    case False
    then show ?thesis using ok by (auto simp: s2_def s1_def thr_simps)
  qed
  have "may_run s2 t \<longleftrightarrow> state (threads s2 t) = POK_STATE_RUNNABLE"
    using assms(2,3) by (auto simp: s2_def s1_def thr_simps thread_delay_event_cancel_def)
  then show ?thesis
    using r thread_set_eligible_inv [OF 2 _ q] thr_inv_close [OF 2 _ q] by (auto split: if_splits)
qed

subsection \<open>Rescheduling is never missed\<close>

text \<open>An operation that changes the first eligible thread asks for a rescheduling.\<close>

definition keeps_first :: "arinc \<Rightarrow> arinc \<Rightarrow> bool" where
  "keeps_first s s' \<longleftrightarrow> (sched_local_recheck_needed s \<longrightarrow> sched_local_recheck_needed s')
     \<and> (sched_local_recheck_needed s' \<or> hd_opt (eligible_threads s') = hd_opt (eligible_threads s))"

lemma keeps_first_refl [simp]: "keeps_first s s"
  by (simp add: keeps_first_def)

lemma keeps_first_trans: "keeps_first s t \<Longrightarrow> keeps_first t u \<Longrightarrow> keeps_first s u"
  by (auto simp: keeps_first_def)

lemma hd_opt_insert:
  "x \<notin> set xs \<Longrightarrow> hd_opt (insert_before_first P x xs) \<noteq> Some x \<Longrightarrow>
   hd_opt (insert_before_first P x xs) = hd_opt xs"
  by (cases xs) (auto split: if_splits)

lemma hd_opt_removeAll: "hd_opt xs \<noteq> Some x \<Longrightarrow> hd_opt (removeAll x xs) = hd_opt xs"
  by (cases xs) auto

lemma first_eligible_hd: "first_eligible t s \<longleftrightarrow> hd_opt (eligible_threads s) = Some t"
  by (cases "eligible_threads s") (auto simp: first_eligible_def)

lemma keeps_first_set_eligible:
  "thread_set_eligible t s = Some s' \<Longrightarrow> keeps_first s s'"
  by (auto simp: thread_set_eligible_def thread_is_eligible_def first_eligible_hd keeps_first_def Let_def
      pok_sched_local_invalidate_def intro: hd_opt_insert split: if_splits)

lemma keeps_first_uneligible: "keeps_first s (thread_set_uneligible t s)"
  by (auto simp: thread_set_uneligible_def thread_is_eligible_def first_eligible_hd keeps_first_def Let_def
      pok_sched_local_invalidate_def intro: hd_opt_removeAll)

lemma keeps_first_frame:
  "keeps_first s (upd_thread t f s)" "keeps_first s (upd_events g s)"
  "keeps_first s (pok_thread_wq_remove t s)" "keeps_first s (thread_cancel_wait t s)"
  "keeps_first s (thread_delay_event t tp h s)" "keeps_first s (thread_delay_event_cancel t s)"
  "keeps_first s (thread_stop_unlock t s)" "keeps_first s (thread_stop_recoverable t s)"
  "keeps_first s (s\<lparr>clock_pos := n\<rparr>)"
  by (simp_all add: keeps_first_def thread_cancel_wait_def thread_delay_event_def
      thread_delay_event_cancel_def thread_stop_unlock_def thread_stop_recoverable_def pok_thread_wq_remove_def)

lemmas keeps_first_steps = keeps_first_refl
  keeps_first_frame [THEN [2] keeps_first_trans] keeps_first_uneligible [THEN [2] keeps_first_trans]

lemma keeps_first_wait: "thread_wait t s = Some s' \<Longrightarrow> keeps_first s s'"
  unfolding thread_wait_def
  by (auto split: if_splits intro: keeps_first_trans [OF keeps_first_frame(1) keeps_first_uneligible])

lemma keeps_first_wake_up: "thread_wake_up t s = Some s' \<Longrightarrow> keeps_first s s'"
proof -
  assume w: "thread_wake_up t s = Some s'"
  have "keeps_first s (woken t s)"
    unfolding woken_def by (intro keeps_first_steps)
  then show ?thesis using w keeps_first_set_eligible keeps_first_trans
    by (auto simp: thread_wake_up_eq split: if_splits)
qed

lemma keeps_first_yield: "thread_yield t s = Some s' \<Longrightarrow> keeps_first s s'"
  using keeps_first_trans [OF keeps_first_uneligible keeps_first_set_eligible]
  by (auto simp: thread_yield_eq split: if_splits)

lemma keeps_first_suspend: "keeps_first s (thread_suspend t s)"
  unfolding thread_suspend_def by (rule keeps_first_trans [OF keeps_first_frame(1) keeps_first_uneligible])

lemma keeps_first_stop: "thread_stop t s = Some s' \<Longrightarrow> keeps_first s s'"
proof -
  assume "thread_stop t s = Some s'"
  then have s': "s' = upd_thread t (\<lambda>th. th\<lparr>msection_entering := None\<rparr>)
      (thread_stop_recoverable t (thread_stop_unlock t (pok_thread_wq_remove t
        (upd_events (dq_remove (t, Deadline_event)) (thread_delay_event_cancel t
          (thread_set_uneligible t (upd_thread t (\<lambda>th. th\<lparr>state := POK_STATE_STOPPED\<rparr>) s)))))))"
    by (simp add: thread_stop_def Let_def split: if_splits)
  show ?thesis unfolding s' by (intro keeps_first_steps)
qed

lemma keeps_first_resume: "thread_resume t s = Some s' \<Longrightarrow> keeps_first s s'"
proof -
  assume r: "thread_resume t s = Some s'"
  define s1 where "s1 = upd_thread t (\<lambda>th. th\<lparr>suspended := False\<rparr>) s"
  define s2 where "s2 = upd_thread t (\<lambda>th. th\<lparr>wait_result := POK_ERRNO_OK\<rparr>)
      (thread_delay_event_cancel t (upd_thread t (\<lambda>th. th\<lparr>state := POK_STATE_RUNNABLE\<rparr>) s1))"
  have "keeps_first s s1" "keeps_first s s2"
    unfolding s1_def s2_def by (intro keeps_first_steps)+
  moreover have "s' = s1 \<or> s' = s2 \<or> thread_set_eligible t s1 = Some s' \<or> thread_set_eligible t s2 = Some s'"
    using r unfolding thread_resume_def Let_def s1_def [symmetric] s2_def [symmetric] by (auto split: if_splits)
  ultimately show ?thesis using keeps_first_set_eligible keeps_first_trans by blast
qed

lemma keeps_first_resume_waited: "thread_resume_waited t s = Some s' \<Longrightarrow> keeps_first s s'"
  using keeps_first_trans [OF keeps_first_frame(1) keeps_first_set_eligible]
  by (auto simp: thread_resume_waited_def split: if_splits)

lemma keeps_first_start: "thread_start t s = Some s' \<Longrightarrow> keeps_first s s'"
  using keeps_first_trans [OF keeps_first_frame(1) keeps_first_set_eligible] keeps_first_frame(1)
  by (auto simp: thread_start_def Let_def split: if_splits)

subsection \<open>Properties\<close>

lemma highest_first:
  assumes "thr_inv {} s"
  shows "case hd_opt (eligible_threads s) of
      None \<Rightarrow> \<forall>u. \<not> may_run s u
    | Some t \<Rightarrow> may_run s t \<and> (\<forall>u. may_run s u \<longrightarrow> priority (threads s u) \<le> priority (threads s t))"
proof (cases "eligible_threads s")
  case Nil
  then show ?thesis using thr_inv_thread [OF assms] by fastforce
next
  case (Cons t ts)
  have set: "may_run s u \<longleftrightarrow> u \<in> insert t (set ts)" for u using thr_inv_thread [OF assms, of u] Cons by simp
  have "prio_sorted (\<lambda>t. priority (threads s t)) (t # ts)" using assms Cons by (simp add: thr_inv_def)
  then show ?thesis using set Cons by (auto simp: prio_sorted_def)
qed

text \<open>
  In a state of the invariant the thread at the head of the queue may run and no thread
  that may run has a higher priority; the queue is empty only if no thread may run.
\<close>

theorem first_eligible_highest:
  assumes "thr_inv {} s"
  shows "case eligible_threads s of
      [] \<Rightarrow> \<forall>u. \<not> may_run s u
    | t # ts \<Rightarrow> may_run s t \<and> (\<forall>u. may_run s u \<longrightarrow> priority (threads s u) \<le> priority (threads s t))"
  using highest_first [OF assms] by (cases "eligible_threads s") auto

definition example_thread :: "nat \<Rightarrow> pok_thread" where
  "example_thread n = \<lparr>base_priority = n, priority = n, thr_period = -1, deadline = DEADLINE_SOFT,
     time_capacity = -1, delayed_time = 0, thread_delayed_func = Thread_wake_up, wait_priority = 0,
     wait_buffer = 0, wait_len = 0, wait_result = POK_ERRNO_OK, next_activation = 0,
     state = POK_STATE_RUNNABLE, suspended = False, msection_entering = None, first_donator = None,
     next_donator = None, donate_target = None, entry = 0, sp = True, init_stack_addr = 0,
     user_stack_size = 0, error_bits = 0, is_unrecoverable = False, thread_name = (\<lambda>_. int n)\<rparr>"

text \<open>A partition in normal mode with a stopped main thread 0 and two running threads.\<close>

definition example_arinc :: arinc where
  "example_arinc = \<lparr>sched_local_recheck_needed = False, mode = POK_PARTITION_MODE_NORMAL, nthreads = 4,
     threads = (\<lambda>t. if t = 0 \<or> 2 < t then (example_thread t)\<lparr>state := POK_STATE_STOPPED\<rparr> else example_thread t),
     nthreads_used = 3, thread_current = Some 2, thread_selected = Some 2, waiting_section = None,
     ports_queuing = [\<lparr>pq_name = (\<lambda>_. 0), waiters = [], pq_channel = 0, pq_direction = POK_PORT_DIRECTION_OUT,
        discipline = POK_QUEUING_DISCIPLINE_FIFO, pq_is_created = True\<rparr>],
     ports_sampling = [], thread_error = None, error_list = [],
     sync_error = POK_ERROR_ID_UNHANDLED_INT, sync_error_failed_addr = 0,
     hm = \<lparr>partition_hm_selector = (\<lambda>_. 127), partition_hm_table = (\<lambda>_ _. POK_ERROR_ACTION_IDLE),
        error_kind = (\<lambda>_. 0), error_description = (\<lambda>_. [])\<rparr>,
     nthreads_unrecoverable = 0, lock_level = 0, thread_locked = None, eligible_threads = [2, 1],
     partition_delayed_events = \<lparr>dq_list = [], dq_time = (\<lambda>_. 0), dq_handler = (\<lambda>_. 0),
        dq_process = (\<lambda>_. Thread_process_delayed_event)\<rparr>,
     idle_sp = False, tshd = (\<lambda>_. \<lparr>tshd_priority = 0, msection_count = 0, tshd_msection_entering = None,
        thread_kernel_flags = 0, wq_next = None, wq_prev = None, wq_buffer = 0, wq_len = 0, wq_priority = 0\<rparr>),
     kshd_current_thread_id = Some 2, kshd_error_thread_id = None,
     kshd_partition_mode = POK_PARTITION_MODE_NORMAL, kshd_max_n_threads = 4, kshd_heap = None,
     parts = example_parts, gsched = example_sched,
     channels_queuing = (\<lambda>_. example_channel JET_CHANNEL_QUEUING_SENDER_BLOCK),
     channels_sampling = (\<lambda>_. example_sampling),
     clock = (\<lambda>n. 10 + int n), clock_pos = 0, msections = (\<lambda>_. \<lparr>owner = None, msection_kernel_flags = 0\<rparr>),
     msection_wqs = (\<lambda>_. \<lparr>wq_first = None, wq_last = None\<rparr>), umem = (\<lambda>_. 0),
     user_access = (\<lambda>_ _. True), user_exec = (\<lambda>_. True), ustack = (\<lambda>_ _. 1),
     elf_entry = 4096, main_user_stack_size = 8192, heap_size = 0, user_heap = 65536\<rparr>"

lemma example_arinc_inv: "thr_inv {} example_arinc"
proof -
  have "t \<in> {2, 1} \<longleftrightarrow> 0 < t \<and> t < 3" for t :: nat by auto
  then show ?thesis
    by (auto simp: thr_inv_def example_arinc_def thr_simps dq_inv_def dq_active_def is_in_wait_queue_def
        example_thread_def)
qed

theorem first_eligible_highest_witness:
  "may_run example_arinc 2 \<and> priority (threads example_arinc 1) \<le> priority (threads example_arinc 2)"
proof -
  have list: "eligible_threads example_arinc = [2, 1]" by (simp add: example_arinc_def)
  have "may_run example_arinc 1" by (simp add: may_run_def ordinary_def example_arinc_def example_thread_def)
  then show ?thesis using first_eligible_highest [OF example_arinc_inv] list by simp
qed

text \<open>
  waking up a waiting thread of a partition in normal mode never asserts; afterwards the
  thread is runnable, has no timer and is in no wait queue, it is eligible unless suspended,
  its wait result tells of a timeout exactly if it still waited for a port or an msection, and
  the invariant and the promise of a rescheduling are kept.
\<close>

theorem thread_wake_up_complete:
  assumes "thr_inv {} s" and "state (threads s t) = POK_STATE_WAITING" and "ordinary s t"
    and "mode s = POK_PARTITION_MODE_NORMAL"
  shows "\<exists>s'. thread_wake_up t s = Some s' \<and> thr_inv {} s' \<and> keeps_first s s'
     \<and> state (threads s' t) = POK_STATE_RUNNABLE
     \<and> \<not> dq_active (partition_delayed_events s') (t, Delayed_event) \<and> \<not> is_in_wait_queue t s'
     \<and> (t \<in> set (eligible_threads s') \<longleftrightarrow> \<not> suspended (threads s t))
     \<and> wait_result (threads s' t) =
         (if is_in_wait_queue t s \<or> msection_entering (threads s t) \<noteq> None then POK_ERRNO_TIMEOUT
          else wait_result (threads s t))"
proof -
  obtain s' where s': "thread_wake_up t s = Some s'" using thread_wake_up_total [OF assms] by blast
  have inv: "thr_inv {} s'" by (rule thread_wake_up_inv [OF assms(1,3,4) s'])
  have w: "state (threads (woken t s) t) = POK_STATE_RUNNABLE" "\<not> is_in_wait_queue t (woken t s)"
    "\<not> dq_active (partition_delayed_events (woken t s)) (t, Delayed_event)"
    "suspended (threads (woken t s) t) = suspended (threads s t)"
    "mode (woken t s) = mode s" "ordinary (woken t s) t = ordinary s t"
    "wait_result (threads (woken t s) t) =
       (if is_in_wait_queue t s \<or> msection_entering (threads s t) \<noteq> None then POK_ERRNO_TIMEOUT
        else wait_result (threads s t))"
    by (simp_all add: woken_def thread_delay_event_cancel_def ordinary_def) (simp add: thread_cancel_wait_def)
  have same: "threads s' = threads (woken t s) \<and> partition_delayed_events s' = partition_delayed_events (woken t s)
      \<and> ports_queuing s' = ports_queuing (woken t s) \<and> mode s' = mode (woken t s)
      \<and> nthreads_used s' = nthreads_used (woken t s) \<and> thread_error s' = thread_error (woken t s)"
    using s' assms(2) by (auto simp: thread_wake_up_eq thread_set_eligible_def Let_def split: if_splits)
  have "t \<in> set (eligible_threads s') \<longleftrightarrow> may_run s' t" using thr_inv_thread [OF inv] by blast
  then show ?thesis using s' inv keeps_first_wake_up [OF s'] w same assms(3,4)
    by (simp add: may_run_def ordinary_def is_in_wait_queue_def)
qed

text \<open>The example partition with thread 1 waiting for a timer.\<close>

definition example_waiting :: arinc where
  "example_waiting = thread_delay_event 1 100 Thread_wake_up
     (thread_set_uneligible 1 (upd_thread 1 (\<lambda>th. th\<lparr>state := POK_STATE_WAITING\<rparr>) example_arinc))"

lemma example_waiting_wait: "thread_wait_timed 1 100 example_arinc = Some example_waiting"
  by (simp add: thread_wait_timed_def thread_wait_def example_waiting_def pok_time_is_infinity_def)
    (simp add: example_arinc_def)

lemma example_ordinary: "ordinary example_arinc 1"
  by (simp add: ordinary_def example_arinc_def)

lemma example_waiting_inv: "thr_inv {} example_waiting"
  using thread_wait_timed_inv [OF example_arinc_inv _ example_ordinary
      thr_inv_deadline_ok [OF example_arinc_inv] example_waiting_wait] by simp

theorem thread_wake_up_complete_witness:
  "\<exists>s'. thread_wake_up 1 example_waiting = Some s' \<and> 1 \<in> set (eligible_threads s')"
proof -
  have w: "state (threads example_waiting 1) = POK_STATE_WAITING" "ordinary example_waiting 1"
    "mode example_waiting = POK_PARTITION_MODE_NORMAL" "\<not> suspended (threads example_waiting 1)"
    by (simp_all add: example_waiting_def ordinary_def) (simp_all add: example_arinc_def example_thread_def)
  from thread_wake_up_complete [OF example_waiting_inv w(1-3)] w(4) show ?thesis by auto
qed

end
