(* ===== verification/ErrorArinc.thy ===== *)
theory ErrorArinc
  imports ThreadInternal
begin

section \<open>Errors of a partition and of its threads\<close>

text \<open>
  \<open>kernel/core/error_arinc.c\<close> and, from \<open>kernel/core/partition_arinc.c\<close>, the two ways an error ends
  the execution of a partition. The result \<open>Some (Return r s)\<close> is a return, \<open>Some (NoReturn s)\<close> a
  jump that leaves the current context for ever, and \<open>None\<close> a failed assertion, or a loop that
  never ends. Output to the console is left out.
\<close>

unbundle bit_operations_syntax

definition kbind :: "'a kout option \<Rightarrow> ('a \<Rightarrow> arinc \<Rightarrow> 'b kout option) \<Rightarrow> 'b kout option" where
  "kbind m f =
     (case m of None \<Rightarrow> None | Some (NoReturn s) \<Rightarrow> Some (NoReturn s) | Some (Return x s) \<Rightarrow> f x s)"

lemma kbind_simps [simp]:
  "kbind None f = None" "kbind (Some (NoReturn s)) f = Some (NoReturn s)"
  "kbind (Some (Return x s)) f = f x s"
  by (simp_all add: kbind_def)

lemma kbind_cases [case_names None NoReturn Return]:
  obtains "m = None" | s where "m = Some (NoReturn s)" | x s where "m = Some (Return x s)"
proof (cases m)
  case (Some r)
  then show ?thesis using that by (cases r) auto
qed (use that in simp)

text \<open>
  How a system call ends. Most have one critical section, from \<open>pok_preemption_local_disable()\<close> to
  \<open>pok_preemption_local_enable()\<close>: \<open>Ret\<close> is a return without one, \<open>Leave\<close> and \<open>LeaveWait\<close> say that the
  call has come to \<open>pok_preemption_local_enable()\<close>, which runs the local scheduler and may switch
  to other threads; when the caller runs again it returns the value, or the result that has
  been left for the waiting thread in its \<open>wait_result\<close>.
\<close>

datatype sysret = Ret pok_ret | Leave pok_ret | LeaveWait nat

definition pok_preemption_local_disable :: "arinc \<Rightarrow> arinc option" where
  "pok_preemption_local_disable s = do {
     kassert (\<not> preempt_local_disabled (base_part s));
     Some (upd_base (\<lambda>part. part\<lparr>preempt_local_disabled := True\<rparr>) s)
   }"

subsection \<open>Leaving the partition\<close>

definition pok_partition_arinc_idle :: "arinc \<Rightarrow> unit kout option" where
  "pok_partition_arinc_idle s = Some (NoReturn (upd_base (\<lambda>part. part\<lparr>preempt_local_disabled := True\<rparr>) s))"

definition pok_partition_arinc_reset :: "pok_partition_mode \<Rightarrow> arinc \<Rightarrow> unit kout option" where
  "pok_partition_arinc_reset m s = do {
     let s = upd_base (\<lambda>part. part\<lparr>preempt_local_disabled := True\<rparr>) s;
     kassert (m = POK_PARTITION_MODE_INIT_WARM \<or> m = POK_PARTITION_MODE_INIT_COLD);
     kassert (m = POK_PARTITION_MODE_INIT_COLD \<or> mode s \<noteq> POK_PARTITION_MODE_INIT_COLD);
     let (gs, ps) = Sched.pok_partition_restart (gsched s, parts s);
     Some (NoReturn (s\<lparr>mode := m, gsched := gs, parts := ps\<rparr>))
   }"

definition take_fixed_action :: "pok_error_action \<Rightarrow> arinc \<Rightarrow> unit kout option" where
  "take_fixed_action action s =
     (case action of
        POK_ERROR_ACTION_IGNORE \<Rightarrow> Some (Return () s)
      | POK_ERROR_ACTION_IDLE \<Rightarrow> pok_partition_arinc_idle s
      | POK_ERROR_ACTION_COLD_START \<Rightarrow> pok_partition_arinc_reset POK_PARTITION_MODE_INIT_COLD s
      | POK_ERROR_ACTION_WARM_START \<Rightarrow> do {
          kassert (mode s \<noteq> POK_PARTITION_MODE_INIT_COLD);
          pok_partition_arinc_reset POK_PARTITION_MODE_INIT_WARM s
        }
      | POK_ERROR_ACTION_INVALID \<Rightarrow> None)"

subsection \<open>Errors at partition level\<close>

text \<open>Whether an error of state \<open>POK_SYSTEM_STATE_USER\<close> is left to the error handler.\<close>

definition thread_level_error :: "pok_system_state \<Rightarrow> pok_error_id \<Rightarrow> arinc \<Rightarrow> bool" where
  "thread_level_error system_state error_id s \<longleftrightarrow>
     system_state = POK_SYSTEM_STATE_USER
     \<and> pok_error_level_select (partition_hm_selector (hm s)) system_state error_id
     \<and> mode s = POK_PARTITION_MODE_NORMAL \<and> thread_error s \<noteq> None"

text \<open>The function up to its loop, and the loop: inside the loop no thread counts as
  unrecoverable, so the calls do not enter the loop again (\<open>process_error_forever_loop\<close>).\<close>

definition process_error_action :: "pok_system_state \<Rightarrow> pok_error_id \<Rightarrow> arinc \<Rightarrow> unit kout option" where
  "process_error_action system_state error_id s =
     (if system_state \<in> {POK_SYSTEM_STATE_USER, POK_SYSTEM_STATE_ERROR_HANDLER, POK_SYSTEM_STATE_OS_PART}
      then take_fixed_action (partition_hm_table (hm s) system_state error_id) s
      else None)"

partial_function (option) process_error_forever :: "arinc \<Rightarrow> bool kout option" where
  "process_error_forever s =
     (case process_error_action POK_SYSTEM_STATE_OS_PART POK_ERROR_ID_UNHANDLED_INT s of
        None \<Rightarrow> None
      | Some r \<Rightarrow> (case r of NoReturn s \<Rightarrow> Some (NoReturn s) | Return _ s \<Rightarrow> process_error_forever s))"

definition process_error_partition ::
  "pok_system_state \<Rightarrow> pok_error_id \<Rightarrow> arinc \<Rightarrow> bool kout option" where
  "process_error_partition system_state error_id s =
     (if thread_level_error system_state error_id s then Some (Return False s)
      else kbind (process_error_action system_state error_id s) (\<lambda>_ s.
        if nthreads_unrecoverable s \<noteq> 0
        then process_error_forever (s\<lparr>nthreads_unrecoverable := 0\<rparr>)
        else Some (Return True s)))"

subsection \<open>Errors of threads\<close>

definition thread_set_unrecoverable :: "nat \<Rightarrow> arinc \<Rightarrow> arinc" where
  "thread_set_unrecoverable t s =
     (if \<not> is_unrecoverable (threads s t)
      then (upd_thread t (\<lambda>th. th\<lparr>is_unrecoverable := True\<rparr>) s)
             \<lparr>nthreads_unrecoverable := u32 (nthreads_unrecoverable s + 1)\<rparr>
      else s)"

definition thread_add_error_bit :: "nat \<Rightarrow> nat \<Rightarrow> arinc \<Rightarrow> arinc option" where
  "thread_add_error_bit t b s = do {
     kassert (error_bits (threads s t) AND b = 0);
     let s = upd_thread t (\<lambda>th. th\<lparr>error_bits := error_bits th OR b\<rparr>) s;
     Some (if t \<notin> set (error_list s)
           then pok_sched_local_invalidate (s\<lparr>error_list := error_list s @ [t]\<rparr>)
           else s)
   }"

definition thread_clear_error_bit :: "nat \<Rightarrow> nat \<Rightarrow> arinc \<Rightarrow> arinc option" where
  "thread_clear_error_bit t b s = do {
     kassert (error_bits (threads s t) AND b = b);
     kassert (t \<in> set (error_list s));
     let s = upd_thread t (\<lambda>th. th\<lparr>error_bits := error_bits th - b\<rparr>) s;
     Some (if error_bits (threads s t) = 0
           then s\<lparr>error_list := removeAll t (error_list s)\<rparr> else s)
   }"

definition thread_emit_sync_error :: "nat \<Rightarrow> pok_error_id \<Rightarrow> nat \<Rightarrow> arinc \<Rightarrow> arinc option" where
  "thread_emit_sync_error t error_id failed_addr s =
     thread_add_error_bit t POK_THREAD_ERROR_BIT_SYNC
       (s\<lparr>sync_error := error_id, sync_error_failed_addr := failed_addr\<rparr>)"

definition kout_of :: "arinc option \<Rightarrow> unit kout option" where
  "kout_of r = map_option (Return ()) r"

definition pok_thread_emit_deadline_missed :: "nat \<Rightarrow> arinc \<Rightarrow> unit kout option" where
  "pok_thread_emit_deadline_missed t s =
     kbind (process_error_partition POK_SYSTEM_STATE_USER POK_ERROR_ID_DEADLINE_MISSED s) (\<lambda>processed s.
       if processed then Some (Return () s)
       else kout_of (thread_add_error_bit t POK_THREAD_ERROR_BIT_DEADLINE s))"

definition pok_thread_emit_deadline_oor :: "nat \<Rightarrow> arinc \<Rightarrow> unit kout option" where
  "pok_thread_emit_deadline_oor t s =
     kbind (process_error_partition POK_SYSTEM_STATE_USER POK_ERROR_ID_ILLEGAL_REQUEST
              (thread_set_unrecoverable t s)) (\<lambda>processed s.
       if processed then Some (Return () s)
       else kout_of (thread_add_error_bit t POK_THREAD_ERROR_BIT_DEADLINE_OOR s))"

text \<open>The callback for an error that an interrupt has detected. The section between disabling and
  enabling local preemption is \<open>thread_emit_sync_error\<close>; enabling it runs the local scheduler,
  see \<open>SchedArinc\<close>. The result tells whether that section was executed.\<close>

definition pok_partition_arinc_process_error ::
  "pok_system_state \<Rightarrow> pok_error_id \<Rightarrow> nat \<Rightarrow> arinc \<Rightarrow> bool kout option" where
  "pok_partition_arinc_process_error partition_state error_id failed_address s =
     kbind (process_error_partition partition_state error_id s) (\<lambda>processed s.
       if processed then Some (Return False s)
       else do {
         kassert (partition_state = POK_SYSTEM_STATE_USER);
         kassert (thread_current s \<noteq> thread_error s);
         s \<leftarrow> pok_preemption_local_disable s;
         t \<leftarrow> thread_current s;
         s \<leftarrow> thread_emit_sync_error t error_id failed_address s;
         Some (Return True s)
       })"

definition error_check_after_handler :: "arinc \<Rightarrow> unit kout option" where
  "error_check_after_handler s =
     (if nthreads_unrecoverable s \<noteq> 0
      then kbind (process_error_partition POK_SYSTEM_STATE_ERROR_HANDLER POK_ERROR_ID_UNHANDLED_INT s)
             (\<lambda>_ s. Some (Return () s))
      else Some (Return () s))"

definition error_ignore_sync :: "arinc \<Rightarrow> arinc option" where
  "error_ignore_sync s =
     (case error_list s of
        [] \<Rightarrow> Some s
      | t # _ \<Rightarrow> if error_bits (threads s t) AND POK_THREAD_ERROR_BIT_SYNC \<noteq> 0
                 then thread_clear_error_bit t POK_THREAD_ERROR_BIT_SYNC s else Some s)"

subsection \<open>System calls of the error handler\<close>

definition ERROR_THREAD_PRIORITY :: nat where "ERROR_THREAD_PRIORITY = 254"
definition POK_ERROR_MAX_MSG_SIZE :: nat where "POK_ERROR_MAX_MSG_SIZE = 250"

definition error_thread_name :: chars where
  "error_thread_name i = (if i < 13 then int (of_char (''Error_Handler'' ! i)) else 0)"

definition pok_error_thread_create :: "nat \<Rightarrow> nat \<Rightarrow> arinc \<Rightarrow> pok_ret \<times> arinc" where
  "pok_error_thread_create stack_size entry_point s =
     (if mode s = POK_PARTITION_MODE_NORMAL then (POK_ERRNO_PARTITION_MODE, s)
      else if thread_error s \<noteq> None then (POK_ERRNO_EXISTS, s)
      else if nthreads_used s = nthreads s then (POK_ERRNO_TOOMANY, s)
      else if \<not> user_exec s entry_point then (POK_ERRNO_PARAM, s)
      else let t = nthreads_used s;
               s = upd_thread t (\<lambda>th. th\<lparr>
                     thread_name := strncpy (thread_name th) error_thread_name MAX_NAME_LENGTH,
                     entry := entry_point, base_priority := ERROR_THREAD_PRIORITY,
                     thr_period := POK_TIME_INFINITY, time_capacity := POK_TIME_INFINITY,
                     deadline := DEADLINE_SOFT, user_stack_size := stack_size\<rparr>) s;
               (created, s) = thread_create t s
           in if \<not> created then (POK_ERRNO_UNAVAILABLE, s)
              else (POK_ERRNO_OK, s\<lparr>kshd_error_thread_id := Some (nthreads_used s),
                      nthreads_used := nthreads_used s + 1, thread_error := Some t\<rparr>))"

definition pok_error_raise_application_error :: "nat \<Rightarrow> nat \<Rightarrow> arinc \<Rightarrow> sysret kout option" where
  "pok_error_raise_application_error msg msg_size s =
     (if msg_size > POK_ERROR_MAX_MSG_SIZE \<or> msg_size = 0 then Some (Return (Ret POK_ERRNO_EINVAL) s)
      else if \<not> user_access s msg msg_size then Some (Return (Ret POK_ERRNO_EFAULT) s)
      else let partition_state = (if thread_current s = thread_error s then POK_SYSTEM_STATE_ERROR_HANDLER
                                  else POK_SYSTEM_STATE_USER)
      in kbind (process_error_partition partition_state POK_ERROR_ID_APPLICATION_ERROR s) (\<lambda>processed s.
           if processed then Some (Return (Ret POK_ERRNO_OK) s)
           else do {
             kassert (thread_error s \<noteq> None);
             kassert (thread_current s \<noteq> thread_error s);
             t \<leftarrow> thread_current s;
             let s = upd_thread t (\<lambda>th. th\<lparr>wait_buffer := msg, wait_len := msg_size\<rparr>) s;
             s \<leftarrow> pok_preemption_local_disable s;
             s \<leftarrow> thread_emit_sync_error t POK_ERROR_ID_APPLICATION_ERROR 0 s;
             Some (Return (Leave POK_ERRNO_OK) s)
           }))"

text \<open>The loop at its end repeats the processing of an unhandled interrupt, as the one above.\<close>

definition pok_error_raise_os_error :: "nat \<Rightarrow> nat \<Rightarrow> arinc \<Rightarrow> pok_ret kout option" where
  "pok_error_raise_os_error msg msg_size s =
     kbind (process_error_partition POK_SYSTEM_STATE_OS_PART POK_ERROR_ID_APPLICATION_ERROR s) (\<lambda>processed s.
       if processed then Some (Return POK_ERRNO_OK s)
       else kbind (process_error_forever s) (\<lambda>_ s. None))"

record pok_error_status =
  es_error_kind :: nat
  failed_thread :: nat
  failed_addr :: nat
  msg_size :: nat

text \<open>\<open>copy_error_to_user\<close>: the text of the error with its null byte, at most
  \<open>POK_ERROR_MAX_MSG_SIZE\<close> bytes; the result is the kind and the size of the status.\<close>

definition copy_error_to_user :: "pok_error_id \<Rightarrow> nat \<Rightarrow> arinc \<Rightarrow> (nat \<times> nat) \<times> arinc" where
  "copy_error_to_user error_id k_msg s =
     (let msg = error_description (hm s) error_id;
          size = min (length msg) POK_ERROR_MAX_MSG_SIZE;
          size = (if size \<noteq> POK_ERROR_MAX_MSG_SIZE then size + 1 else size)
      in ((error_kind (hm s) error_id, size), s\<lparr>umem := memcpy (umem s) k_msg (take size (msg @ [0]))\<rparr>))"

text \<open>The branches of \<open>pok_error_get\<close> on the bits of the first thread in the list: the kind and
  size of the error, and the failed address.\<close>

definition pok_error_take :: "nat \<Rightarrow> nat \<Rightarrow> arinc \<Rightarrow> (((nat \<times> nat) \<times> nat) \<times> arinc) option" where
  "pok_error_take t k_msg s =
     (let bits = error_bits (threads s t) in
      if bits AND POK_THREAD_ERROR_BIT_SYNC \<noteq> 0 then do {
        s \<leftarrow> thread_clear_error_bit t POK_THREAD_ERROR_BIT_SYNC s;
        let (res, s) =
          (if sync_error s = POK_ERROR_ID_APPLICATION_ERROR
           then ((error_kind (hm s) POK_ERROR_ID_APPLICATION_ERROR, wait_len (threads s t)),
                 s\<lparr>umem := memcpy (umem s) k_msg
                    (mem_read (umem s) (wait_buffer (threads s t)) (wait_len (threads s t)))\<rparr>)
           else copy_error_to_user (sync_error s) k_msg s);
        Some ((res, sync_error_failed_addr s), s)
      } else if bits AND POK_THREAD_ERROR_BIT_DEADLINE \<noteq> 0 then do {
        s \<leftarrow> thread_clear_error_bit t POK_THREAD_ERROR_BIT_DEADLINE s;
        let (res, s) = copy_error_to_user POK_ERROR_ID_DEADLINE_MISSED k_msg s;
        Some ((res, 0), s)
      } else if bits AND POK_THREAD_ERROR_BIT_DEADLINE_OOR \<noteq> 0 then do {
        s \<leftarrow> thread_clear_error_bit t POK_THREAD_ERROR_BIT_DEADLINE_OOR s;
        let (res, s) = copy_error_to_user POK_ERROR_ID_ILLEGAL_REQUEST k_msg s;
        Some ((res, 0), s)
      } else None)"

text \<open>\<open>status_ok\<close>: the user's pointer to the status is accessible; what is written there is the
  second part of the result.\<close>

definition pok_error_get ::
  "bool \<Rightarrow> nat \<Rightarrow> arinc \<Rightarrow> ((pok_ret \<times> pok_error_status option) \<times> arinc) option" where
  "pok_error_get status_ok msg s =
     (if thread_current s \<noteq> thread_error s then Some ((POK_ERRNO_THREAD, None), s)
      else case error_list s of
        [] \<Rightarrow> Some ((POK_ERRNO_UNAVAILABLE, None), s)
      | t # _ \<Rightarrow>
          if \<not> status_ok then Some ((POK_ERRNO_EFAULT, None), s)
          else if \<not> user_access s msg POK_ERROR_MAX_MSG_SIZE then Some ((POK_ERRNO_EFAULT, None), s)
          else do {
            (((kind, size), addr), s) \<leftarrow> pok_error_take t msg s;
            Some ((POK_ERRNO_OK, Some \<lparr>es_error_kind = kind, failed_thread = t, failed_addr = addr,
                     msg_size = size\<rparr>), s)
          })"

subsection \<open>What processing an error comes to\<close>

lemma take_fixed_action_return: "take_fixed_action a s = Some (Return x s') \<Longrightarrow> s' = s \<and> a = POK_ERROR_ACTION_IGNORE"
  by (auto simp: take_fixed_action_def pok_partition_arinc_idle_def pok_partition_arinc_reset_def Let_def
      split: pok_error_action.splits if_splits prod.splits)

lemma base_part_restart:
  "base_part (s\<lparr>mode := m, gsched := fst (Sched.pok_partition_restart (gsched s, parts s)),
                parts := snd (Sched.pok_partition_restart (gsched s, parts s))\<rparr>)
   = (base_part s)\<lparr>partition_generation := next_generation (partition_generation (base_part s)), part_sp := False\<rparr>"
  by (simp add: Sched.pok_partition_restart_def Let_def)

text \<open>What the configured action leaves when it does not return.\<close>

definition left_partition :: "pok_error_action \<Rightarrow> arinc \<Rightarrow> arinc \<Rightarrow> bool" where
  "left_partition a s s' \<longleftrightarrow>
     preempt_local_disabled (base_part s') \<and> threads s' = threads s
     \<and> (case a of
          POK_ERROR_ACTION_IDLE \<Rightarrow> mode s' = mode s \<and> part_sp (base_part s') = part_sp (base_part s)
        | POK_ERROR_ACTION_COLD_START \<Rightarrow> mode s' = POK_PARTITION_MODE_INIT_COLD \<and> \<not> part_sp (base_part s')
        | POK_ERROR_ACTION_WARM_START \<Rightarrow> mode s' = POK_PARTITION_MODE_INIT_WARM \<and> \<not> part_sp (base_part s')
              \<and> mode s \<noteq> POK_PARTITION_MODE_INIT_COLD
        | _ \<Rightarrow> False)"

lemma upd_base_same [simp]: "base_part (upd_base f s) = f (base_part s)" "gsched (upd_base f s) = gsched s"
  "mode (upd_base f s) = mode s" "threads (upd_base f s) = threads s"
  "parts (upd_base f s) (self s) = f (base_part s)"
  "eligible_threads (upd_base f s) = eligible_threads s"
  "nthreads_used (upd_base f s) = nthreads_used s"
  "nthreads (upd_base f s) = nthreads s"
  "thread_error (upd_base f s) = thread_error s"
  "thread_current (upd_base f s) = thread_current s"
  "partition_delayed_events (upd_base f s) = partition_delayed_events s"
  "ports_queuing (upd_base f s) = ports_queuing s"
  "lock_level (upd_base f s) = lock_level s"
  "thread_locked (upd_base f s) = thread_locked s"
  "tshd (upd_base f s) = tshd s"
  "error_list (upd_base f s) = error_list s"
  "sched_local_recheck_needed (upd_base f s) = sched_local_recheck_needed s"
  "nthreads_unrecoverable (upd_base f s) = nthreads_unrecoverable s"
  by (simp_all add: upd_base_def)

lemma take_fixed_action_noreturn:
  assumes "take_fixed_action a s = Some (NoReturn s')"
  shows "left_partition a s s'"
proof -
  have reset: "pok_partition_arinc_reset m s = Some (NoReturn s') \<Longrightarrow>
      mode s' = m \<and> \<not> part_sp (base_part s') \<and> preempt_local_disabled (base_part s') \<and> threads s' = threads s" for m
    by (auto simp: pok_partition_arinc_reset_def Sched.pok_partition_restart_def Let_def split: if_splits)
  show ?thesis
    using assms reset
    by (auto simp: take_fixed_action_def pok_partition_arinc_idle_def left_partition_def
        split: pok_error_action.splits if_splits)
qed

lemma process_error_forever_loop:
  assumes "nthreads_unrecoverable s = 0"
  shows "process_error_forever s =
    kbind (process_error_partition POK_SYSTEM_STATE_OS_PART POK_ERROR_ID_UNHANDLED_INT s)
      (\<lambda>_ s. process_error_forever s)"
proof (cases "process_error_action POK_SYSTEM_STATE_OS_PART POK_ERROR_ID_UNHANDLED_INT s" rule: kbind_cases)
  case (Return x s')
  then have "s' = s" using take_fixed_action_return by (auto simp: process_error_action_def)
  with Return show ?thesis using assms
    by (subst process_error_forever.simps) (simp add: process_error_partition_def thread_level_error_def)
qed (subst process_error_forever.simps, simp add: process_error_partition_def thread_level_error_def)+

lemma process_error_forever_no_return: "process_error_forever s = Some r \<Longrightarrow> \<exists>s'. r = NoReturn s'"
proof (rule process_error_forever.raw_induct [where P = "\<lambda>_ r. \<exists>s'. r = NoReturn s'"], goal_cases)
  case (1 f u v)
  from 1(3) show ?case by (auto split: option.splits kout.splits dest: 1(2))
qed

text \<open>When the action for an unhandled interrupt is to ignore it, the loop never ends.\<close>

lemma process_error_forever_cases:
  "process_error_forever s =
     (let a = partition_hm_table (hm s) POK_SYSTEM_STATE_OS_PART POK_ERROR_ID_UNHANDLED_INT in
      if a = POK_ERROR_ACTION_IGNORE then None
      else map_option (case_kout (\<lambda>_ s. Return False s) NoReturn) (take_fixed_action a s))"
proof -
  let ?a = "partition_hm_table (hm s) POK_SYSTEM_STATE_OS_PART POK_ERROR_ID_UNHANDLED_INT"
  show ?thesis
  proof (cases "?a = POK_ERROR_ACTION_IGNORE")
    case True
    have "process_error_forever u = Some r \<Longrightarrow> u \<noteq> s" for u r
    proof (rule process_error_forever.raw_induct [where P = "\<lambda>u _. u \<noteq> s"], goal_cases)
      case (1 f u v)
      from 1(3) show ?case using True
        by (auto simp: process_error_action_def take_fixed_action_def dest: 1(2))
    qed
    then have "process_error_forever s = None" by (cases "process_error_forever s") auto
    then show ?thesis using True by simp
  next
    case False
    have r: "take_fixed_action ?a s \<noteq> Some (Return x s')" for x s'
      using take_fixed_action_return False by metis
    show ?thesis using False r
      by (subst process_error_forever.simps)
        (auto simp: process_error_action_def Let_def split: option.splits kout.splits)
  qed
qed

lemma process_error_cases:
  assumes "process_error_partition st e s = Some r"
  shows "case r of
      Return processed s' \<Rightarrow> s' = s \<and>
        (if processed then partition_hm_table (hm s) st e = POK_ERROR_ACTION_IGNORE \<and> nthreads_unrecoverable s = 0
         else thread_level_error st e s)
    | NoReturn s' \<Rightarrow> left_partition (partition_hm_table (hm s) st e) s s'
        \<or> (partition_hm_table (hm s) st e = POK_ERROR_ACTION_IGNORE \<and> nthreads_unrecoverable s \<noteq> 0
           \<and> left_partition (partition_hm_table (hm s) POK_SYSTEM_STATE_OS_PART POK_ERROR_ID_UNHANDLED_INT) s s')"
proof (cases "thread_level_error st e s")
  case True
  then show ?thesis using assms by (auto simp: process_error_partition_def)
next
  case tle: False
  let ?a = "partition_hm_table (hm s) st e"
  show ?thesis
  proof (cases "process_error_action st e s" rule: kbind_cases)
    case None
    then show ?thesis using assms tle by (simp add: process_error_partition_def)
  next
    case (NoReturn s')
    then have "take_fixed_action ?a s = Some (NoReturn s')" by (simp add: process_error_action_def split: if_splits)
    from take_fixed_action_noreturn [OF this] NoReturn show ?thesis using assms tle
      by (auto simp: process_error_partition_def)
  next
    case (Return x s')
    then have s: "s' = s" "?a = POK_ERROR_ACTION_IGNORE"
      using take_fixed_action_return by (auto simp: process_error_action_def split: if_splits)
    show ?thesis
    proof (cases "nthreads_unrecoverable s = 0")
      case True
      then show ?thesis using assms tle s Return by (auto simp: process_error_partition_def)
    next
      case False
      let ?s = "s\<lparr>nthreads_unrecoverable := 0\<rparr>"
        and ?b = "partition_hm_table (hm s) POK_SYSTEM_STATE_OS_PART POK_ERROR_ID_UNHANDLED_INT"
      have f: "process_error_forever ?s = Some r" using assms tle s Return False
        by (simp add: process_error_partition_def)
      obtain s2 where r: "r = NoReturn s2" using process_error_forever_no_return [OF f] by blast
      have "take_fixed_action ?b ?s = Some (NoReturn s2)"
        using f r by (cases "take_fixed_action ?b ?s" rule: kbind_cases)
          (simp_all add: process_error_forever_cases Let_def split: if_splits)
      from take_fixed_action_noreturn [OF this] have "left_partition ?b s s2"
        by (simp add: left_partition_def cong: pok_error_action.case_cong)
      then show ?thesis using r s False by simp
    qed
  qed
qed

text \<open>
  An error at partition level ends in one of three ways. It is left to the error handler,
  and nothing has changed; it is ignored, which needs the action \<open>IGNORE\<close> and that no thread is
  in an unrecoverable state; or the partition is left idle or for a restart, in the mode that
  the action for the error, or for an unhandled interrupt, says.
\<close>

theorem process_error_outcome:
  assumes "process_error_partition st e s = Some r"
  shows "case r of
      Return processed s' \<Rightarrow> s' = s \<and>
        (if processed then partition_hm_table (hm s) st e = POK_ERROR_ACTION_IGNORE \<and> nthreads_unrecoverable s = 0
         else thread_level_error st e s)
    | NoReturn s' \<Rightarrow> left_partition (partition_hm_table (hm s) st e) s s'
        \<or> (partition_hm_table (hm s) st e = POK_ERROR_ACTION_IGNORE \<and> nthreads_unrecoverable s \<noteq> 0
           \<and> left_partition (partition_hm_table (hm s) POK_SYSTEM_STATE_OS_PART POK_ERROR_ID_UNHANDLED_INT) s s')"
  by (rule process_error_cases [OF assms])

theorem process_error_outcome_witness:
  "process_error_partition POK_SYSTEM_STATE_USER POK_ERROR_ID_NUMERIC_ERROR (example_arinc\<lparr>nthreads_unrecoverable := 1\<rparr>)
     = Some (NoReturn (upd_base (\<lambda>part. part\<lparr>preempt_local_disabled := True\<rparr>) (example_arinc\<lparr>nthreads_unrecoverable := 1\<rparr>)))
   \<and> left_partition POK_ERROR_ACTION_IDLE (example_arinc\<lparr>nthreads_unrecoverable := 1\<rparr>)
        (upd_base (\<lambda>part. part\<lparr>preempt_local_disabled := True\<rparr>) (example_arinc\<lparr>nthreads_unrecoverable := 1\<rparr>))"
proof -
  let ?s = "example_arinc\<lparr>nthreads_unrecoverable := 1\<rparr>"
  have hm: "partition_hm_table (hm ?s) = (\<lambda>_ _. POK_ERROR_ACTION_IDLE)" "thread_error ?s = None"
    by (simp_all add: example_arinc_def)
  have r: "process_error_partition POK_SYSTEM_STATE_USER POK_ERROR_ID_NUMERIC_ERROR ?s
     = Some (NoReturn (upd_base (\<lambda>part. part\<lparr>preempt_local_disabled := True\<rparr>) ?s))"
    using hm by (simp add: process_error_partition_def thread_level_error_def process_error_action_def
        take_fixed_action_def pok_partition_arinc_idle_def)
  from process_error_outcome [OF r] r show ?thesis using hm by simp
qed

subsection \<open>The list of errors\<close>

text \<open>
  The invariant of the error list: a thread is listed, once, exactly when it has an error bit, and
  only the first may have a synchronous error.
\<close>

definition err_inv :: "arinc \<Rightarrow> bool" where
  "err_inv s \<longleftrightarrow> distinct (error_list s)
     \<and> (\<forall>t. t \<in> set (error_list s) \<longleftrightarrow> error_bits (threads s t) \<noteq> 0)
     \<and> (\<forall>t. error_bits (threads s t) < 8)
     \<and> (\<forall>t \<in> set (tl (error_list s)). error_bits (threads s t) AND POK_THREAD_ERROR_BIT_SYNC = 0)"

lemmas error_bit_defs = POK_THREAD_ERROR_BIT_SYNC_def POK_THREAD_ERROR_BIT_DEADLINE_def
  POK_THREAD_ERROR_BIT_DEADLINE_OOR_def

definition nbits :: "nat \<Rightarrow> nat" where
  "nbits n = n mod 2 + n div 2 mod 2 + n div 4 mod 2"

lemma bits_cases: "n < 8 \<Longrightarrow> n \<in> {0, 1, 2, 3, 4, 5, 6, 7 :: nat}"
  by auto

lemma bits_add:
  fixes n b :: nat
  assumes "n < 8" "b \<in> {1, 2, 4}" "n AND b = 0"
  shows "n OR b = n + b" "n + b < 8" "nbits (n + b) = Suc (nbits n)" "(n + b) AND 1 = 0 \<longleftrightarrow> n AND 1 = 0 \<and> b \<noteq> 1"
  using bits_cases [OF assms(1)] assms(2,3) by (auto simp: nbits_def)

lemma bits_sub:
  fixes n b :: nat
  assumes "n < 8" "b \<in> {1, 2, 4}" "n AND b = b"
  shows "b \<le> n" "n - b < 8" "nbits n = Suc (nbits (n - b))" "n AND 1 = 0 \<Longrightarrow> (n - b) AND 1 = 0"
    "b = 1 \<Longrightarrow> (n - b) AND 1 = 0"
  using bits_cases [OF assms(1)] assms(2,3) by (auto simp: nbits_def)

lemma bits_present: "(n :: nat) < 8 \<Longrightarrow> b \<in> {1, 2, 4} \<Longrightarrow> n AND b \<noteq> 0 \<Longrightarrow> n AND b = b"
  using bits_cases [of n] by auto

lemma bits_some: "(n :: nat) < 8 \<Longrightarrow> n \<noteq> 0 \<Longrightarrow> n AND 1 \<noteq> 0 \<or> n AND 2 \<noteq> 0 \<or> n AND 4 \<noteq> 0"
  using bits_cases [of n] by auto

text \<open>A new error keeps the invariant; a synchronous one is raised while the list is empty.\<close>

lemma thread_add_error_bit_inv:
  assumes inv: "err_inv s" and b: "b \<in> {1, 2, 4}" "b = 1 \<longrightarrow> error_list s = []"
    and s': "thread_add_error_bit t b s = Some s'"
  shows "err_inv s'"
proof -
  let ?n = "error_bits (threads s t)"
  have n: "?n < 8" "?n AND b = 0"
    using inv s' by (auto simp: err_inv_def thread_add_error_bit_def kassert_def split: if_splits)
  note add = bits_add [OF n(1) b(1) n(2)]
  have thr: "error_bits (threads s' u) = (if u = t then ?n + b else error_bits (threads s u))" for u
    using s' add(1) n(2) by (auto simp: thread_add_error_bit_def Let_def split: if_splits)
  have lst: "error_list s' = (if t \<in> set (error_list s) then error_list s else error_list s @ [t])"
    using s' n(2) by (auto simp: thread_add_error_bit_def Let_def split: if_splits)
  have tl: "u \<in> set (tl (error_list s'))
      \<Longrightarrow> u \<in> set (tl (error_list s)) \<or> (u = t \<and> error_list s \<noteq> [] \<and> t \<notin> set (error_list s))" for u
    by (cases "error_list s") (auto simp: lst split: if_splits)
  have sync: "error_bits (threads s' u) AND 1 = 0" if u: "u \<in> set (tl (error_list s'))" for u
  proof (cases "u = t")
    case True
    have ne: "error_list s \<noteq> []" using u tl [OF u] by (cases "error_list s") auto
    have "?n AND 1 = 0"
    proof (cases "t \<in> set (error_list s)")
      case True
      then show ?thesis using tl [OF u] \<open>u = t\<close> inv by (auto simp: err_inv_def error_bit_defs)
    next
      case False
      then show ?thesis using inv by (simp add: err_inv_def)
    qed
    then show ?thesis using add(4) b(2) ne True thr by simp
  next
    case False
    then show ?thesis using tl [OF u] inv thr by (auto simp: err_inv_def error_bit_defs)
  qed
  show ?thesis using inv b(1) add(2) sync by (auto simp: err_inv_def thr lst error_bit_defs)
qed

lemma thread_add_error_bit_empty:
  "error_bits (threads s t) = 0 \<Longrightarrow> error_list s = [] \<Longrightarrow>
   thread_add_error_bit t b s = Some (pok_sched_local_invalidate
     ((upd_thread t (\<lambda>th. th\<lparr>error_bits := error_bits th OR b\<rparr>) s)\<lparr>error_list := [t]\<rparr>))"
  by (simp add: thread_add_error_bit_def Let_def)

text \<open>
  The statuses that are waiting: the threads in the order of the list; of each thread first the
  synchronous error, then a missed deadline, then a deadline out of range.
\<close>

definition text_size :: "arinc \<Rightarrow> pok_error_id \<Rightarrow> nat" where
  "text_size s e = (let n = length (error_description (hm s) e)
     in if n < POK_ERROR_MAX_MSG_SIZE then n + 1 else POK_ERROR_MAX_MSG_SIZE)"

definition error_status :: "arinc \<Rightarrow> nat \<Rightarrow> nat \<Rightarrow> pok_error_status" where
  "error_status s t b =
     (if b = POK_THREAD_ERROR_BIT_SYNC
      then \<lparr>es_error_kind = error_kind (hm s) (sync_error s), failed_thread = t,
             failed_addr = sync_error_failed_addr s,
             msg_size = (if sync_error s = POK_ERROR_ID_APPLICATION_ERROR then wait_len (threads s t)
                         else text_size s (sync_error s))\<rparr>
      else let e = (if b = POK_THREAD_ERROR_BIT_DEADLINE then POK_ERROR_ID_DEADLINE_MISSED
                    else POK_ERROR_ID_ILLEGAL_REQUEST)
        in \<lparr>es_error_kind = error_kind (hm s) e, failed_thread = t, failed_addr = 0,
             msg_size = text_size s e\<rparr>)"

definition pending_bits :: "nat \<Rightarrow> nat list" where
  "pending_bits n = filter (\<lambda>b. n AND b \<noteq> 0)
     [POK_THREAD_ERROR_BIT_SYNC, POK_THREAD_ERROR_BIT_DEADLINE, POK_THREAD_ERROR_BIT_DEADLINE_OOR]"

definition waiting_statuses :: "arinc \<Rightarrow> pok_error_status list" where
  "waiting_statuses s = concat (map (\<lambda>t. map (error_status s t) (pending_bits (error_bits (threads s t)))) (error_list s))"

lemma pending_bits_0: "pending_bits 0 = []"
  by (simp add: pending_bits_def)

lemma pending_bits_Cons:
  assumes "n < 8" "n \<noteq> 0"
  shows "\<exists>b. pending_bits n = b # pending_bits (n - b) \<and> b \<in> {1, 2, 4} \<and> n AND b \<noteq> 0"
proof (intro exI conjI)
  let ?b = "if n AND 1 \<noteq> 0 then 1 else if n AND 2 \<noteq> 0 then 2 else 4 :: nat"
  consider "n = 1" | "n = 2" | "n = 3" | "n = 4" | "n = 5" | "n = 6" | "n = 7" using assms by linarith
  then show "pending_bits n = ?b # pending_bits (n - ?b)" "?b \<in> {1, 2, 4}" "n AND ?b \<noteq> 0"
    by (cases; simp add: pending_bits_def error_bit_defs)+
qed

text \<open>Clearing a bit of the first thread.\<close>

lemma thread_clear_error_bit_first:
  assumes inv: "err_inv s" and b: "b \<in> {1, 2, 4}" and lst: "error_list s = t # ts"
    and bit: "error_bits (threads s t) AND b \<noteq> 0"
  shows "\<exists>s'. thread_clear_error_bit t b s = Some s' \<and> err_inv s'
     \<and> umem s' = umem s \<and> hm s' = hm s
     \<and> sync_error s' = sync_error s \<and> sync_error_failed_addr s' = sync_error_failed_addr s
     \<and> (\<forall>u. wait_len (threads s' u) = wait_len (threads s u))
     \<and> (\<forall>u. error_bits (threads s' u) = (if u = t then error_bits (threads s t) - b else error_bits (threads s u)))
     \<and> error_list s' = (if error_bits (threads s t) = b then ts else t # ts)
     \<and> thread_current s' = thread_current s \<and> thread_error s' = thread_error s"
proof -
  let ?n = "error_bits (threads s t)"
  have n: "?n < 8" "?n AND b = b" using inv bits_present [OF _ b bit] by (auto simp: err_inv_def)
  note sub = bits_sub [OF n(1) b n(2)]
  let ?u = "upd_thread t (\<lambda>th. th\<lparr>error_bits := error_bits th - b\<rparr>) s"
  let ?s' = "if ?n = b then ?u\<lparr>error_list := ts\<rparr> else ?u"
  have t: "t \<notin> set ts" using inv lst by (auto simp: err_inv_def)
  have tl: "u \<in> set (tl ts) \<Longrightarrow> u \<in> set ts" for u by (cases ts) auto
  have r: "removeAll t ts = ts" using t by (simp add: removeAll_id)
  have s': "thread_clear_error_bit t b s = Some ?s'"
    using n(2) lst r sub(1) by (auto simp: thread_clear_error_bit_def Let_def)
  have thr: "error_bits (threads ?s' u) = (if u = t then ?n - b else error_bits (threads s u))" for u by simp
  have lst': "error_list ?s' = (if ?n = b then ts else t # ts)" using lst by simp
  have ne: "?n - b \<noteq> 0 \<longleftrightarrow> ?n \<noteq> b" using sub(1) by arith
  have mem: "u \<in> set (t # ts) \<longleftrightarrow> error_bits (threads s u) \<noteq> 0"
    and lt: "error_bits (threads s u) < 8" and dist: "distinct (t # ts)"
    and sync: "u \<in> set ts \<Longrightarrow> error_bits (threads s u) AND 1 = 0" for u
    using inv by (simp_all add: err_inv_def lst error_bit_defs)
  have "err_inv ?s'" unfolding err_inv_def
  proof (intro conjI allI ballI)
    show "distinct (error_list ?s')" using dist unfolding lst' by simp
    show "error_bits (threads ?s' u) < 8" for u unfolding thr using lt sub(2) by simp
    show "u \<in> set (error_list ?s') \<longleftrightarrow> error_bits (threads ?s' u) \<noteq> 0" for u
      unfolding thr lst' using mem [of u] t ne by auto
    show "error_bits (threads ?s' u) AND POK_THREAD_ERROR_BIT_SYNC = 0" if u: "u \<in> set (tl (error_list ?s'))" for u
    proof -
      have "u \<in> set ts" using u tl unfolding lst' by (auto split: if_splits)
      then show ?thesis unfolding thr using sync t by (auto simp: error_bit_defs)
    qed
  qed
  show ?thesis
    by (rule exI [of _ ?s'], intro conjI, rule s', rule \<open>err_inv ?s'\<close>)
      (simp_all add: lst upd_thread_def)
qed

lemma copy_error_to_user_eq:
  "\<exists>m. copy_error_to_user e a s = ((error_kind (hm s) e, text_size s e), s\<lparr>umem := m\<rparr>)"
  by (auto simp: copy_error_to_user_def text_size_def Let_def POK_ERROR_MAX_MSG_SIZE_def)

lemma text_size_cong: "hm s' = hm s \<Longrightarrow> text_size s' e = text_size s e"
  by (simp add: text_size_def)

lemma error_status_cong:
  "hm s' = hm s \<Longrightarrow> sync_error s' = sync_error s \<Longrightarrow> sync_error_failed_addr s' = sync_error_failed_addr s \<Longrightarrow>
   (\<forall>u. wait_len (threads s' u) = wait_len (threads s u)) \<Longrightarrow> error_status s' = error_status s"
  by (simp add: error_status_def fun_eq_iff text_size_def)

text \<open>Taking the first error gives its status and, but for the copied text, just clears its bit.\<close>

lemma pok_error_take_status:
  assumes "pending_bits (error_bits (threads s t)) = b # bs" and clear: "thread_clear_error_bit t b s = Some s1"
    and "hm s1 = hm s" "sync_error s1 = sync_error s" "sync_error_failed_addr s1 = sync_error_failed_addr s"
    and "wait_len (threads s1 t) = wait_len (threads s t)"
  shows "\<exists>m. pok_error_take t msg s =
    Some (((es_error_kind (error_status s t b), msg_size (error_status s t b)), failed_addr (error_status s t b)),
      s1\<lparr>umem := m\<rparr>)"
proof -
  let ?n = "error_bits (threads s t)"
  note copy = copy_error_to_user_eq [of _ msg s1]
  consider (sync) "?n AND 1 \<noteq> 0" "b = 1" | (miss) "?n AND 1 = 0" "?n AND 2 \<noteq> 0" "b = 2"
    | (oor) "?n AND 1 = 0" "?n AND 2 = 0" "?n AND 4 \<noteq> 0" "b = 4"
    using assms(1) by (auto simp: pending_bits_def error_bit_defs split: if_splits)
  then show ?thesis
  proof cases
    case sync
    obtain m where "copy_error_to_user (sync_error s) msg s1
        = ((error_kind (hm s) (sync_error s), text_size s (sync_error s)), s1\<lparr>umem := m\<rparr>)"
      using copy [of "sync_error s"] assms(3) text_size_cong by metis
    then show ?thesis using sync assms clear
      by (auto simp: pok_error_take_def error_status_def error_bit_defs)
  next
    case miss
    obtain m where "copy_error_to_user POK_ERROR_ID_DEADLINE_MISSED msg s1
        = ((error_kind (hm s) POK_ERROR_ID_DEADLINE_MISSED, text_size s POK_ERROR_ID_DEADLINE_MISSED), s1\<lparr>umem := m\<rparr>)"
      using copy [of POK_ERROR_ID_DEADLINE_MISSED] assms(3) text_size_cong by metis
    then show ?thesis using miss clear
      by (auto simp: pok_error_take_def error_status_def error_bit_defs Let_def)
  next
    case oor
    obtain m where "copy_error_to_user POK_ERROR_ID_ILLEGAL_REQUEST msg s1
        = ((error_kind (hm s) POK_ERROR_ID_ILLEGAL_REQUEST, text_size s POK_ERROR_ID_ILLEGAL_REQUEST), s1\<lparr>umem := m\<rparr>)"
      using copy [of POK_ERROR_ID_ILLEGAL_REQUEST] assms(3) text_size_cong by metis
    then show ?thesis using oor clear
      by (auto simp: pok_error_take_def error_status_def error_bit_defs Let_def)
  qed
qed

lemma thread_clear_error_bit_access:
  "thread_clear_error_bit t b s = Some s' \<Longrightarrow> user_access s' = user_access s"
  by (auto simp: thread_clear_error_bit_def upd_thread_def Let_def kassert_def split: if_splits)

text \<open>A run of \<open>n\<close> calls of \<open>pok_error_get\<close> with the same buffers; the statuses that were written.\<close>

primrec error_gets :: "nat \<Rightarrow> nat \<Rightarrow> arinc \<Rightarrow> (pok_error_status option list \<times> arinc) option" where
  "error_gets 0 msg s = Some ([], s)"
| "error_gets (Suc n) msg s = do {
     ((ret, st), s) \<leftarrow> pok_error_get True msg s;
     (sts, s) \<leftarrow> error_gets n msg s;
     Some (st # sts, s)
   }"

lemma waiting_statuses_nil: "err_inv s \<Longrightarrow> waiting_statuses s = [] \<longleftrightarrow> error_list s = []"
proof (cases "error_list s")
  case (Cons t ts)
  moreover assume "err_inv s"
  ultimately have "error_bits (threads s t) < 8" "error_bits (threads s t) \<noteq> 0" by (auto simp: err_inv_def)
  from pending_bits_Cons [OF this] Cons show ?thesis by (auto simp: waiting_statuses_def)
qed (simp add: waiting_statuses_def)

lemma pok_error_get_first:
  assumes inv: "err_inv s" and wait: "waiting_statuses s = st # sts" and cur: "thread_current s = thread_error s"
    and acc: "user_access s msg POK_ERROR_MAX_MSG_SIZE"
  shows "\<exists>s'. pok_error_get True msg s = Some ((POK_ERRNO_OK, Some st), s')
     \<and> waiting_statuses s' = sts \<and> err_inv s'
     \<and> thread_current s' = thread_error s' \<and> user_access s' = user_access s"
proof -
  obtain t ts where lst: "error_list s = t # ts"
    using waiting_statuses_nil [OF inv] wait by (cases "error_list s") auto
  let ?n = "error_bits (threads s t)"
  have n: "?n < 8" "?n \<noteq> 0" "t \<notin> set ts" using inv lst by (auto simp: err_inv_def)
  obtain b where b: "pending_bits ?n = b # pending_bits (?n - b)" "b \<in> {1, 2, 4}" "?n AND b \<noteq> 0"
    using pending_bits_Cons [OF n(1,2)] by blast
  obtain s1 where s1: "thread_clear_error_bit t b s = Some s1" "err_inv s1" "hm s1 = hm s"
    "sync_error s1 = sync_error s" "sync_error_failed_addr s1 = sync_error_failed_addr s"
    "\<forall>u. wait_len (threads s1 u) = wait_len (threads s u)"
    "\<forall>u. error_bits (threads s1 u) = (if u = t then ?n - b else error_bits (threads s u))"
    "error_list s1 = (if ?n = b then ts else t # ts)"
    "thread_current s1 = thread_current s" "thread_error s1 = thread_error s"
    using thread_clear_error_bit_first [OF inv b(2) lst b(3)] by blast
  obtain m where take: "pok_error_take t msg s =
    Some (((es_error_kind (error_status s t b), msg_size (error_status s t b)), failed_addr (error_status s t b)),
      s1\<lparr>umem := m\<rparr>)"
    using pok_error_take_status [OF b(1) s1(1,3-5)] s1(6) by blast
  have ft: "failed_thread (error_status s t b) = t" by (simp add: error_status_def Let_def)
  note stat = error_status_cong [OF s1(3-6)]
  have others: "concat (map (\<lambda>u. map (error_status s u) (pending_bits (error_bits (threads s1 u)))) ts)
      = concat (map (\<lambda>u. map (error_status s u) (pending_bits (error_bits (threads s u)))) ts)"
    using n(3) s1(7) by (intro arg_cong [where f = concat] map_cong) auto
  have self: "error_bits (threads s1 t) = ?n - b" using s1(7) by simp
  have st: "st = error_status s t b"
    "sts = map (error_status s t) (pending_bits (?n - b))
       @ concat (map (\<lambda>u. map (error_status s u) (pending_bits (error_bits (threads s u)))) ts)"
    using wait b(1) by (simp_all add: waiting_statuses_def lst)
  have "waiting_statuses (s1\<lparr>umem := m\<rparr>) = waiting_statuses s1"
    using error_status_cong [of "s1\<lparr>umem := m\<rparr>" s1] by (simp add: waiting_statuses_def)
  also have "\<dots> = sts"
    unfolding waiting_statuses_def stat s1(8) st(2) using others self by (auto simp: pending_bits_0)
  finally have sts: "waiting_statuses (s1\<lparr>umem := m\<rparr>) = sts" .
  have "pok_error_get True msg s = Some ((POK_ERRNO_OK, Some st), s1\<lparr>umem := m\<rparr>)"
    using take lst cur acc st(1) ft by (simp add: pok_error_get_def)
  moreover have "err_inv (s1\<lparr>umem := m\<rparr>)" using s1(2) by (simp add: err_inv_def)
  ultimately show ?thesis using sts s1(9,10) cur thread_clear_error_bit_access [OF s1(1)] by auto
qed

lemma error_gets_drain:
  "err_inv s \<Longrightarrow> thread_current s = thread_error s \<Longrightarrow> user_access s msg POK_ERROR_MAX_MSG_SIZE
   \<Longrightarrow> waiting_statuses s = sts
   \<Longrightarrow> \<exists>s'. error_gets (length sts) msg s = Some (map Some sts, s') \<and> waiting_statuses s' = [] \<and> err_inv s'
        \<and> thread_current s' = thread_error s'"
proof (induction sts arbitrary: s)
  case (Cons st sts)
  obtain s1 where "pok_error_get True msg s = Some ((POK_ERRNO_OK, Some st), s1)" "waiting_statuses s1 = sts"
    "err_inv s1" "thread_current s1 = thread_error s1" "user_access s1 = user_access s"
    using pok_error_get_first [OF Cons.prems(1,4,2,3)] by blast
  with Cons.IH [of s1] Cons.prems(3) show ?case by auto
qed simp

text \<open>
  C14: an error handler that calls \<open>pok_error_get\<close> repeatedly gets exactly the waiting statuses,
  each once: those of the threads in the order in which they came into the list; of a thread
  first its synchronous error with the address or the length of the message that goes with it,
  then a missed deadline, then a deadline out of range, each with its kind and the size of its
  text. No call asserts; afterwards the list of errors is empty, every thread is free of error
  bits and a further call says that there is no error.
\<close>

theorem error_handler_drains:
  assumes "err_inv s" and "thread_current s = thread_error s"
    and "user_access s msg POK_ERROR_MAX_MSG_SIZE"
  shows "\<exists>s'. error_gets (length (waiting_statuses s)) msg s = Some (map Some (waiting_statuses s), s')
     \<and> error_list s' = [] \<and> (\<forall>t. error_bits (threads s' t) = 0) \<and> err_inv s'
     \<and> pok_error_get True msg s' = Some ((POK_ERRNO_UNAVAILABLE, None), s')"
proof -
  obtain s' where s': "error_gets (length (waiting_statuses s)) msg s = Some (map Some (waiting_statuses s), s')"
    "waiting_statuses s' = []" "err_inv s'" "thread_current s' = thread_error s'"
    using error_gets_drain [OF assms refl] by blast
  then have "error_list s' = []" using waiting_statuses_nil by blast
  moreover from this s'(3) have "error_bits (threads s' t) = 0" for t by (simp add: err_inv_def)
  ultimately show ?thesis using s' by (simp add: pok_error_get_def)
qed

text \<open>The example partition with thread 2 as error handler and two errors of thread 1.\<close>

definition example_errors :: arinc where
  "example_errors = (upd_thread 1 (\<lambda>th. th\<lparr>error_bits := 6\<rparr>) example_arinc)
     \<lparr>thread_error := Some 2, error_list := [1]\<rparr>"

lemma example_errors_inv: "err_inv example_errors"
  by (simp add: err_inv_def example_errors_def error_bit_defs)
    (simp add: example_arinc_def example_thread_def)

theorem error_handler_drains_witness:
  "\<exists>st1 st2 s'. error_gets 2 1000 example_errors = Some ([Some st1, Some st2], s') \<and> error_list s' = []
     \<and> failed_thread st1 = 1 \<and> failed_thread st2 = 1
     \<and> es_error_kind st1 = error_kind (hm example_errors) POK_ERROR_ID_DEADLINE_MISSED
     \<and> es_error_kind st2 = error_kind (hm example_errors) POK_ERROR_ID_ILLEGAL_REQUEST"
proof -
  have "thread_current example_errors = thread_error example_errors"
    "user_access example_errors 1000 POK_ERROR_MAX_MSG_SIZE"
    "waiting_statuses example_errors = [error_status example_errors 1 2, error_status example_errors 1 4]"
    by (simp_all add: example_errors_def waiting_statuses_def pending_bits_def error_bit_defs upd_thread_def)
      (simp_all add: example_arinc_def example_thread_def)
  from error_handler_drains [OF example_errors_inv this(1,2), unfolded this(3)]
  obtain s' where "error_gets 2 1000 example_errors
      = Some ([Some (error_status example_errors 1 2), Some (error_status example_errors 1 4)], s')"
    "error_list s' = []" by (auto simp: numeral_2_eq_2 simp del: error_gets.simps)
  then show ?thesis
    by (intro exI [of _ "error_status example_errors 1 2"] exI [of _ "error_status example_errors 1 4"] exI [of _ s'])
      (simp add: error_status_def error_bit_defs)
qed

text \<open>
  An application error that a thread raises reaches the error handler. If the error is
  configured to be handled by the thread, the call stops at the end of its critical section with
  a rescheduling due; and the error handler, when it is the running thread, then reads the
  kind of the error, the thread that raised it and the bytes of the message.
\<close>

theorem application_error_roundtrip:
  assumes "err_inv s" and "error_list s = []" and "thread_current s = Some t" and "thread_error s = Some e"
    and "t \<noteq> e" and "mode s = POK_PARTITION_MODE_NORMAL"
    and "pok_error_level_select (partition_hm_selector (hm s)) POK_SYSTEM_STATE_USER POK_ERROR_ID_APPLICATION_ERROR"
    and "0 < n" and "n \<le> POK_ERROR_MAX_MSG_SIZE" and "user_access s msg n"
    and "\<not> preempt_local_disabled (base_part s)" and "user_access s buf POK_ERROR_MAX_MSG_SIZE"
  shows "\<exists>s1 s2. pok_error_raise_application_error msg n s = Some (Return (Leave POK_ERRNO_OK) s1)
     \<and> sched_local_recheck_needed s1 \<and> error_list s1 = [t]
     \<and> pok_error_get True buf (s1\<lparr>thread_current := Some e\<rparr>) =
         Some ((POK_ERRNO_OK, Some \<lparr>es_error_kind = error_kind (hm s) POK_ERROR_ID_APPLICATION_ERROR,
                  failed_thread = t, failed_addr = 0, msg_size = n\<rparr>), s2)
     \<and> mem_read (umem s2) buf n = mem_read (umem s) msg n \<and> error_list s2 = []"
proof -
  have bits: "error_bits (threads s t) = 0" using assms(1,2) by (simp add: err_inv_def)
  have acc: "user_access s msg n" "0 < n" "\<not> POK_ERROR_MAX_MSG_SIZE < n" "n \<noteq> 0" "t \<noteq> e" "e \<noteq> t"
    using assms by auto
  have tle: "process_error_partition POK_SYSTEM_STATE_USER POK_ERROR_ID_APPLICATION_ERROR s = Some (Return False s)"
    using assms by (simp add: process_error_partition_def thread_level_error_def)
  define u where "u = upd_base (\<lambda>part. part\<lparr>preempt_local_disabled := True\<rparr>)
     (upd_thread t (\<lambda>th. th\<lparr>wait_buffer := msg, wait_len := n\<rparr>) s)"
  define s1 where "s1 = pok_sched_local_invalidate ((upd_thread t (\<lambda>th. th\<lparr>error_bits := error_bits th OR 1\<rparr>)
     (u\<lparr>sync_error := POK_ERROR_ID_APPLICATION_ERROR, sync_error_failed_addr := 0\<rparr>))\<lparr>error_list := [t]\<rparr>)"
  have ubits: "error_bits (threads (u\<lparr>sync_error := x, sync_error_failed_addr := y\<rparr>) t) = 0"
    "error_list (u\<lparr>sync_error := x, sync_error_failed_addr := y\<rparr>) = []" for x y
    using bits assms(2) by (simp_all add: u_def)
  have emit: "thread_emit_sync_error t POK_ERROR_ID_APPLICATION_ERROR 0 u = Some s1"
    unfolding thread_emit_sync_error_def s1_def error_bit_defs by (rule thread_add_error_bit_empty [OF ubits])
  have "pok_preemption_local_disable (upd_thread t (\<lambda>th. th\<lparr>wait_buffer := msg, wait_len := n\<rparr>) s) = Some u"
    using assms(11) by (simp add: pok_preemption_local_disable_def u_def)
  then have raise: "pok_error_raise_application_error msg n s = Some (Return (Leave POK_ERRNO_OK) s1)"
    unfolding pok_error_raise_application_error_def
    using acc tle emit assms(3,4) by simp
  have s1t: "threads s1 t = (threads s t)\<lparr>wait_buffer := msg, wait_len := n, error_bits := 1\<rparr>"
    "error_list s1 = [t]" "hm s1 = hm s" "umem s1 = umem s" "user_access s1 = user_access s"
    "sync_error s1 = POK_ERROR_ID_APPLICATION_ERROR" "sync_error_failed_addr s1 = 0" "thread_error s1 = Some e"
    "sched_local_recheck_needed s1"
    using bits assms(4) by (simp_all add: s1_def u_def pok_sched_local_invalidate_def upd_thread_def upd_base_def)
  define m where "m = memcpy (umem s) buf (mem_read (umem s) msg n)"
  define s2 where "s2 = (upd_thread t (\<lambda>th. th\<lparr>error_bits := 0\<rparr>) (s1\<lparr>thread_current := Some e\<rparr>))
     \<lparr>error_list := [], umem := m\<rparr>"
  have get: "pok_error_get True buf (s1\<lparr>thread_current := Some e\<rparr>) =
      Some ((POK_ERRNO_OK, Some \<lparr>es_error_kind = error_kind (hm s) POK_ERROR_ID_APPLICATION_ERROR,
                  failed_thread = t, failed_addr = 0, msg_size = n\<rparr>), s2)"
    using s1t assms(12)
    by (simp add: pok_error_get_def pok_error_take_def thread_clear_error_bit_def Let_def error_bit_defs s2_def m_def)
      (simp add: upd_thread_def)
  have "mem_read (umem s2) buf n = mem_read (umem s) msg n"
    using mem_read_memcpy_same [of "umem s" buf "mem_read (umem s) msg n"] by (simp add: s2_def m_def)
  moreover have "sched_local_recheck_needed s1" "error_list s1 = [t]" "error_list s2 = []"
    using s1t by (simp_all add: s2_def)
  ultimately show ?thesis using raise get by blast
qed

definition example_handler :: arinc where
  "example_handler = example_arinc\<lparr>thread_current := Some 1, thread_error := Some 2\<rparr>"

theorem application_error_roundtrip_witness:
  "\<exists>s1 s2 st. pok_error_raise_application_error 3000 5 example_handler = Some (Return (Leave POK_ERRNO_OK) s1)
     \<and> pok_error_get True 1000 (s1\<lparr>thread_current := Some 2\<rparr>) = Some ((POK_ERRNO_OK, Some st), s2)
     \<and> failed_thread st = 1 \<and> msg_size st = 5"
proof -
  have bits: "error_bits (threads example_handler t) = 0" "error_list example_handler = []" for t
    by (simp_all add: example_handler_def example_arinc_def example_thread_def)
  have inv: "err_inv example_handler" using bits by (simp add: err_inv_def)
  have sel: "thread_current example_handler = Some 1" "thread_error example_handler = Some 2"
    "mode example_handler = POK_PARTITION_MODE_NORMAL" "user_access example_handler = (\<lambda>_ _. True)"
    "partition_hm_selector (hm example_handler) = (\<lambda>_. 127)"
    by (simp_all add: example_handler_def example_arinc_def)
  have "\<not> preempt_local_disabled (base_part example_handler)"
    by (simp add: example_handler_def example_arinc_def example_parts_def example_sched_def example_partition_def)
  moreover have "pok_error_level_select (\<lambda>_. 127) POK_SYSTEM_STATE_USER POK_ERROR_ID_APPLICATION_ERROR"
    by (simp add: pok_error_level_select_def bit_iff_odd)
  ultimately show ?thesis
    using application_error_roundtrip [OF inv bits(2) sel(1,2), of 5 3000 1000] sel
    by (fastforce simp: POK_ERROR_MAX_MSG_SIZE_def)
qed

text \<open>
  Raising an operating system error returns to the caller, which is then told that all is
  well, exactly when the partition's table ignores application errors of the kernel's state and
  no thread is in an unrecoverable state; the header promises that the application never
  continues.
\<close>

theorem raise_os_error_returns:
  "pok_error_raise_os_error msg n s = Some (Return r s') \<longleftrightarrow>
     r = POK_ERRNO_OK \<and> s' = s \<and> nthreads_unrecoverable s = 0
     \<and> partition_hm_table (hm s) POK_SYSTEM_STATE_OS_PART POK_ERROR_ID_APPLICATION_ERROR = POK_ERROR_ACTION_IGNORE"
proof (cases "process_error_partition POK_SYSTEM_STATE_OS_PART POK_ERROR_ID_APPLICATION_ERROR s")
  case None
  then show ?thesis
    by (auto simp: pok_error_raise_os_error_def process_error_partition_def process_error_action_def
        thread_level_error_def take_fixed_action_def)
next
  case (Some res)
  have no: "\<not> thread_level_error POK_SYSTEM_STATE_OS_PART POK_ERROR_ID_APPLICATION_ERROR s"
    by (simp add: thread_level_error_def)
  show ?thesis
  proof (cases res)
    case (Return processed s2)
    then show ?thesis using process_error_cases [OF Some] Some no
      by (auto simp: pok_error_raise_os_error_def split: if_splits)
  next
    case (NoReturn s2)
    have "\<not> (nthreads_unrecoverable s = 0 \<and> partition_hm_table (hm s) POK_SYSTEM_STATE_OS_PART
        POK_ERROR_ID_APPLICATION_ERROR = POK_ERROR_ACTION_IGNORE)"
      using process_error_cases [OF Some] NoReturn by (auto simp: left_partition_def)
    then show ?thesis using Some NoReturn by (simp add: pok_error_raise_os_error_def)
  qed
qed

end
