(* ===== verification/Ports.thy ===== *)
theory Ports
  imports ErrorArinc
begin

section \<open>Ports\<close>

text \<open>
  \<open>kernel/core/port.c\<close>: the system calls on queuing and sampling ports and what the local scheduler
  does for the threads that wait on a port. Pointers of the user are given by what the check
  \<open>jet_user_to_kernel\<close> makes of them: a name is \<open>None\<close> when it cannot be read, a scalar that is
  written is a boolean (accessible or not) and comes back in the result, the buffer for the
  data is an address of the user memory, checked with its length. \<open>None\<close> as a result is a failed
  assertion, or an access through a null pointer or outside of the array of ports.
\<close>

definition upd_channel :: "nat \<Rightarrow> pok_channel_queuing \<Rightarrow> arinc \<Rightarrow> arinc" where
  "upd_channel c ch s = s\<lparr>channels_queuing := (channels_queuing s)(c := ch)\<rparr>"

definition upd_sampling :: "nat \<Rightarrow> pok_channel_sampling \<Rightarrow> arinc \<Rightarrow> arinc" where
  "upd_sampling c ch s = s\<lparr>channels_sampling := (channels_sampling s)(c := ch)\<rparr>"

definition port_channel :: "nat \<Rightarrow> arinc \<Rightarrow> pok_channel_queuing" where
  "port_channel i s = channels_queuing s (pq_channel (ports_queuing s ! i))"

subsection \<open>Queuing ports\<close>

definition find_port_queuing :: "chars \<Rightarrow> arinc \<Rightarrow> nat option" where
  "find_port_queuing k_name s =
     find (\<lambda>i. pok_compare_names (pq_name (ports_queuing s ! i)) k_name = 0) [0..<length (ports_queuing s)]"

text \<open>The test admits the identifier one past the last port, whose slot is outside of the array.\<close>

definition get_port_queuing :: "nat \<Rightarrow> arinc \<Rightarrow> nat option option" where
  "get_port_queuing pid s =
     (if pid > length (ports_queuing s) then Some None
      else do {
        kassert (pid < length (ports_queuing s));
        Some (if pq_is_created (ports_queuing s ! pid) then Some pid else None)
      })"

definition port_queuing_receive :: "nat \<Rightarrow> nat \<Rightarrow> arinc \<Rightarrow> arinc option" where
  "port_queuing_receive i t s = do {
     let c = pq_channel (ports_queuing s ! i);
     (message, ch) \<leftarrow> pok_channel_queuing_r_get_message False (channels_queuing s c);
     (off, message_size) \<leftarrow> message;
     let s = upd_channel c ch s;
     let s = s\<lparr>umem := memcpy (umem s) (wait_buffer (threads s t)) (mem_read (messages ch) off message_size)\<rparr>;
     let s = upd_thread t (\<lambda>th. th\<lparr>wait_len := message_size\<rparr>) s;
     (discarded, ch, ps) \<leftarrow> pok_channel_queuing_r_consume_message (channels_queuing s c, parts s);
     let s = (upd_channel c ch s)\<lparr>parts := ps\<rparr>;
     Some (upd_thread t (\<lambda>th. th\<lparr>wait_result := if discarded then POK_ERRNO_TOOMANY else POK_ERRNO_OK\<rparr>) s)
   }"

definition port_queuing_send :: "nat \<Rightarrow> nat \<Rightarrow> arinc \<Rightarrow> arinc option" where
  "port_queuing_send i t s = do {
     let c = pq_channel (ports_queuing s ! i);
     (message, ch) \<leftarrow> pok_channel_queuing_s_get_message False (channels_queuing s c);
     off \<leftarrow> message;
     let len = wait_len (threads s t);
     let ch = ch\<lparr>messages := memcpy (messages ch) off (mem_read (umem s) (wait_buffer (threads s t)) len)\<rparr>;
     (ch, ps) \<leftarrow> pok_channel_queuing_s_produce_message len (ch, parts s);
     let s = (upd_channel c ch s)\<lparr>parts := ps\<rparr>;
     Some (upd_thread t (\<lambda>th. th\<lparr>wait_result := POK_ERRNO_OK\<rparr>) s)
   }"

definition pok_port_queuing_init :: "nat \<Rightarrow> arinc \<Rightarrow> arinc" where
  "pok_port_queuing_init i = upd_port i (\<lambda>p. p\<lparr>waiters := [], pq_is_created := False\<rparr>)"

definition port_side :: "pok_port_direction \<Rightarrow> channel_side" where
  "port_side d = (case d of POK_PORT_DIRECTION_IN \<Rightarrow> RecvSide | POK_PORT_DIRECTION_OUT \<Rightarrow> SendSide)"

definition pok_port_queuing_create ::
  "chars option \<Rightarrow> nat \<Rightarrow> nat \<Rightarrow> pok_port_direction \<Rightarrow> pok_queuing_discipline \<Rightarrow> bool \<Rightarrow> arinc
     \<Rightarrow> (pok_ret \<times> nat option) \<times> arinc" where
  "pok_port_queuing_create name message_size nb_message direction disc id_ok s =
     (case name of
        None \<Rightarrow> ((POK_ERRNO_EFAULT, None), s)
      | Some k_name \<Rightarrow>
          if \<not> id_ok then ((POK_ERRNO_EFAULT, None), s)
          else case find_port_queuing k_name s of
            None \<Rightarrow> ((POK_ERRNO_UNAVAILABLE, None), s)
          | Some i \<Rightarrow>
              let port = ports_queuing s ! i; c = pq_channel port; ch = channels_queuing s c in
              if pq_is_created port then ((POK_ERRNO_EXISTS, None), s)
              else if message_size \<noteq> max_message_size ch then ((POK_ERRNO_EINVAL, None), s)
              else if direction \<noteq> pq_direction port then ((POK_ERRNO_EINVAL, None), s)
              else if nb_message \<noteq> side_max_nb_message (channel_side_of (port_side direction) ch)
              then ((POK_ERRNO_EINVAL, None), s)
              else if mode s = POK_PARTITION_MODE_NORMAL then ((POK_ERRNO_MODE, None), s)
              else let s = upd_port i (\<lambda>p. p\<lparr>pq_is_created := True, discipline := disc\<rparr>) s;
                       s = upd_channel c (pok_channel_queuing_side_init (port_side direction) i (parts s) ch) s
                   in ((POK_ERRNO_OK, Some i), s))"

record pok_port_queuing_create_arg =
  arg_message_size :: nat
  arg_max_nb_message :: nat
  arg_direction :: pok_port_direction
  arg_discipline :: pok_queuing_discipline

definition pok_port_queuing_create_packed ::
  "chars option \<Rightarrow> pok_port_queuing_create_arg option \<Rightarrow> bool \<Rightarrow> arinc \<Rightarrow> (pok_ret \<times> nat option) \<times> arinc" where
  "pok_port_queuing_create_packed name arg id_ok s =
     (case arg of
        None \<Rightarrow> ((POK_ERRNO_EFAULT, None), s)
      | Some k_arg \<Rightarrow> pok_port_queuing_create name (arg_message_size k_arg) (arg_max_nb_message k_arg)
                        (arg_direction k_arg) (arg_discipline k_arg) id_ok s)"

text \<open>The code to be returned when the thread would have to wait: \<open>POK_ERRNO_OK\<close> allows it.\<close>

definition port_may_wait :: "pok_time \<Rightarrow> pok_ret \<Rightarrow> arinc \<Rightarrow> pok_ret option" where
  "port_may_wait timeout immediate s =
     (if timeout = 0 then Some immediate
      else do {
        allowed \<leftarrow> thread_is_waiting_allowed s;
        Some (if \<not> allowed then POK_ERRNO_MODE else POK_ERRNO_OK)
      })"

text \<open>The result has the length that is stored for the user before preemption is enabled. After a
  \<open>LeaveWait\<close> the thread stores the length and returns as in \<open>port_queuing_received\<close>.\<close>

definition pok_port_queuing_receive ::
  "nat \<Rightarrow> pok_time option \<Rightarrow> nat \<Rightarrow> bool \<Rightarrow> arinc \<Rightarrow> ((sysret \<times> nat option) \<times> arinc) option" where
  "pok_port_queuing_receive pid timeout data len_ok s = do {
     port \<leftarrow> get_port_queuing pid s;
     (case port of
        None \<Rightarrow> Some ((Ret POK_ERRNO_PORT, None), s)
      | Some i \<Rightarrow>
          let c = pq_channel (ports_queuing s ! i) in
          if \<not> user_access s data (max_message_size (channels_queuing s c))
          then Some ((Ret POK_ERRNO_EFAULT, None), s)
          else if \<not> len_ok then Some ((Ret POK_ERRNO_EFAULT, None), s)
          else case timeout of
            None \<Rightarrow> Some ((Ret POK_ERRNO_EFAULT, None), s)
          | Some kernel_timeout \<Rightarrow>
              if pq_direction (ports_queuing s ! i) \<noteq> POK_PORT_DIRECTION_IN
              then Some ((Ret POK_ERRNO_MODE, None), s)
              else do {
                s \<leftarrow> pok_preemption_local_disable s;
                t \<leftarrow> thread_current s;
                ret \<leftarrow> port_may_wait kernel_timeout POK_ERRNO_EMPTY s;
                (message, s) \<leftarrow>
                  (if \<not> pok_thread_wq_is_empty i s then Some (None, s)
                   else do {
                     (m, ch) \<leftarrow> pok_channel_queuing_r_get_message (ret = POK_ERRNO_OK) (channels_queuing s c);
                     Some (m, upd_channel c ch s)
                   });
                if message = None then
                  (if ret \<noteq> POK_ERRNO_OK then Some ((Leave ret, Some 0), s)
                   else do {
                     let s = upd_thread t (\<lambda>th. th\<lparr>wait_buffer := data\<rparr>) s;
                     let s = pok_thread_wq_add_common i t (discipline (ports_queuing s ! i)) s;
                     s \<leftarrow> thread_wait_common t kernel_timeout s;
                     Some ((LeaveWait t, None), s)
                   })
                else do {
                  s \<leftarrow> port_queuing_receive i t (upd_thread t (\<lambda>th. th\<lparr>wait_buffer := data\<rparr>) s);
                  Some ((LeaveWait t, None), s)
                }
              })
   }"

definition port_queuing_received :: "nat \<Rightarrow> arinc \<Rightarrow> nat \<times> pok_ret" where
  "port_queuing_received t s =
     (let r = wait_result (threads s t)
      in (if r = POK_ERRNO_OK \<or> r = POK_ERRNO_TOOMANY then wait_len (threads s t) else 0, r))"

definition pok_port_queuing_send ::
  "nat \<Rightarrow> nat \<Rightarrow> nat \<Rightarrow> pok_time option \<Rightarrow> arinc \<Rightarrow> (sysret \<times> arinc) option" where
  "pok_port_queuing_send pid data len timeout s = do {
     port \<leftarrow> get_port_queuing pid s;
     (case port of
        None \<Rightarrow> Some (Ret POK_ERRNO_PORT, s)
      | Some i \<Rightarrow>
          let c = pq_channel (ports_queuing s ! i) in
          if pq_direction (ports_queuing s ! i) \<noteq> POK_PORT_DIRECTION_OUT then Some (Ret POK_ERRNO_MODE, s)
          else if len = 0 then Some (Ret POK_ERRNO_EINVAL, s)
          else if len > max_message_size (channels_queuing s c) then Some (Ret POK_ERRNO_EINVAL, s)
          else if \<not> user_access s data len then Some (Ret POK_ERRNO_EFAULT, s)
          else case timeout of
            None \<Rightarrow> Some (Ret POK_ERRNO_EFAULT, s)
          | Some kernel_timeout \<Rightarrow> do {
              s \<leftarrow> pok_preemption_local_disable s;
              t \<leftarrow> thread_current s;
              ret \<leftarrow> port_may_wait kernel_timeout POK_ERRNO_FULL s;
              (message, s) \<leftarrow>
                (if \<not> pok_thread_wq_is_empty i s then Some (None, s)
                 else do {
                   (m, ch) \<leftarrow> pok_channel_queuing_s_get_message (ret = POK_ERRNO_OK) (channels_queuing s c);
                   Some (m, upd_channel c ch s)
                 });
              if message = None then
                (if ret \<noteq> POK_ERRNO_OK then Some (Leave ret, s)
                 else do {
                   let s = upd_thread t (\<lambda>th. th\<lparr>wait_len := len, wait_buffer := data\<rparr>) s;
                   let s = pok_thread_wq_add_common i t (discipline (ports_queuing s ! i)) s;
                   s \<leftarrow> thread_wait_common t kernel_timeout s;
                   Some (LeaveWait t, s)
                 })
              else do {
                s \<leftarrow> port_queuing_send i t (upd_thread t (\<lambda>th. th\<lparr>wait_len := len, wait_buffer := data\<rparr>) s);
                Some (LeaveWait t, s)
              }
            })
   }"

record pok_port_queuing_status =
  qs_max_message_size :: nat
  qs_direction :: pok_port_direction
  qs_waiting_processes :: nat
  qs_max_nb_message :: nat
  qs_nb_message :: nat

definition pok_port_queuing_status ::
  "nat \<Rightarrow> bool \<Rightarrow> arinc \<Rightarrow> ((sysret \<times> pok_port_queuing_status option) \<times> arinc) option" where
  "pok_port_queuing_status pid status_ok s =
     (if \<not> status_ok then Some ((Ret POK_ERRNO_EFAULT, None), s)
      else do {
        port \<leftarrow> get_port_queuing pid s;
        (case port of
           None \<Rightarrow> Some ((Ret POK_ERRNO_PORT, None), s)
         | Some i \<Rightarrow> do {
             let ch = port_channel i s;
             let dir = pq_direction (ports_queuing s ! i);
             s \<leftarrow> pok_preemption_local_disable s;
             Some ((Leave POK_ERRNO_OK, Some \<lparr>qs_max_message_size = max_message_size ch, qs_direction = dir,
                qs_waiting_processes = pok_thread_wq_get_nwaits i s,
                qs_max_nb_message = side_max_nb_message (channel_side_of (port_side dir) ch),
                qs_nb_message = (if dir = POK_PORT_DIRECTION_IN then pok_channel_queuing_r_n_messages ch
                                 else pok_channel_queuing_s_n_messages ch)\<rparr>), s)
           })
      })"

definition pok_port_queuing_id :: "chars option \<Rightarrow> bool \<Rightarrow> arinc \<Rightarrow> pok_ret \<times> nat option" where
  "pok_port_queuing_id name id_ok s =
     (case name of
        None \<Rightarrow> (POK_ERRNO_EFAULT, None)
      | Some k_name \<Rightarrow>
          if \<not> id_ok then (POK_ERRNO_EFAULT, None)
          else case find_port_queuing k_name s of
            None \<Rightarrow> (POK_ERRNO_UNAVAILABLE, None)
          | Some i \<Rightarrow> if \<not> pq_is_created (ports_queuing s ! i) then (POK_ERRNO_UNAVAILABLE, None)
                      else (POK_ERRNO_OK, Some i))"

definition pok_port_queuing_clear :: "nat \<Rightarrow> arinc \<Rightarrow> (sysret \<times> arinc) option" where
  "pok_port_queuing_clear pid s = do {
     port \<leftarrow> get_port_queuing pid s;
     (case port of
        None \<Rightarrow> Some (Ret POK_ERRNO_PORT, s)
      | Some i \<Rightarrow>
          if pq_direction (ports_queuing s ! i) \<noteq> POK_PORT_DIRECTION_IN then Some (Ret POK_ERRNO_MODE, s)
          else do {
            s \<leftarrow> pok_preemption_local_disable s;
            Some (Leave POK_ERRNO_OK, upd_channel (pq_channel (ports_queuing s ! i))
               (pok_channel_queuing_side_init RecvSide i (parts s) (port_channel i s)) s)
          })
   }"

subsection \<open>Sampling ports\<close>

definition upd_port_sampling :: "nat \<Rightarrow> (pok_port_sampling \<Rightarrow> pok_port_sampling) \<Rightarrow> arinc \<Rightarrow> arinc" where
  "upd_port_sampling i f s = s\<lparr>ports_sampling := (ports_sampling s)[i := f (ports_sampling s ! i)]\<rparr>"

definition find_port_sampling :: "chars \<Rightarrow> arinc \<Rightarrow> nat option" where
  "find_port_sampling k_name s =
     find (\<lambda>i. pok_compare_names (ps_name (ports_sampling s ! i)) k_name = 0) [0..<length (ports_sampling s)]"

definition get_port_sampling :: "nat \<Rightarrow> arinc \<Rightarrow> nat option option" where
  "get_port_sampling pid s =
     (if pid > length (ports_sampling s) then Some None
      else do {
        kassert (pid < length (ports_sampling s));
        Some (if ps_is_created (ports_sampling s ! pid) then Some pid else None)
      })"

definition pok_port_sampling_init :: "nat \<Rightarrow> arinc \<Rightarrow> arinc" where
  "pok_port_sampling_init i = upd_port_sampling i (\<lambda>p. p\<lparr>ps_is_created := False\<rparr>)"

definition pok_port_sampling_create ::
  "chars option \<Rightarrow> nat \<Rightarrow> pok_port_direction \<Rightarrow> pok_time option \<Rightarrow> bool \<Rightarrow> arinc
     \<Rightarrow> (pok_ret \<times> nat option) \<times> arinc" where
  "pok_port_sampling_create name sz direction refresh id_ok s =
     (if mode s = POK_PARTITION_MODE_NORMAL then ((POK_ERRNO_MODE, None), s)
      else case name of
        None \<Rightarrow> ((POK_ERRNO_EFAULT, None), s)
      | Some k_name \<Rightarrow> (case refresh of
        None \<Rightarrow> ((POK_ERRNO_EFAULT, None), s)
      | Some kernel_refresh \<Rightarrow>
          if \<not> id_ok then ((POK_ERRNO_EFAULT, None), s)
          else case find_port_sampling k_name s of
            None \<Rightarrow> ((POK_ERRNO_UNAVAILABLE, None), s)
          | Some i \<Rightarrow>
              let port = ports_sampling s ! i; c = ps_channel port; ch = channels_sampling s c in
              if ps_is_created port then ((POK_ERRNO_EXISTS, None), s)
              else if sz \<noteq> sc_max_message_size ch then ((POK_ERRNO_EINVAL, None), s)
              else if direction \<noteq> ps_direction port then ((POK_ERRNO_EINVAL, None), s)
              else if pok_time_is_infinity kernel_refresh \<or> kernel_refresh = 0 then ((POK_ERRNO_EINVAL, None), s)
              else let s = upd_port_sampling i (\<lambda>p. p\<lparr>ps_is_created := True, refresh_period := kernel_refresh,
                             last_message_validity := False\<rparr>) s;
                       ch = (if ps_direction port = POK_PORT_DIRECTION_OUT then pok_channel_sampling_s_clear_message ch
                             else pok_channel_sampling_r_clear_message ch)
                   in ((POK_ERRNO_OK, Some i), upd_sampling c ch s)))"

definition pok_port_sampling_write :: "nat \<Rightarrow> nat \<Rightarrow> nat \<Rightarrow> arinc \<Rightarrow> (sysret \<times> arinc) option" where
  "pok_port_sampling_write pid data len s = do {
     port \<leftarrow> get_port_sampling pid s;
     (case port of
        None \<Rightarrow> Some (Ret POK_ERRNO_PORT, s)
      | Some i \<Rightarrow>
          let c = ps_channel (ports_sampling s ! i); ch = channels_sampling s c in
          if len = 0 \<or> len > sc_max_message_size ch then Some (Ret POK_ERRNO_EINVAL, s)
          else if ps_direction (ports_sampling s ! i) \<noteq> POK_PORT_DIRECTION_OUT then Some (Ret POK_ERRNO_MODE, s)
          else if \<not> user_access s data len then Some (Ret POK_ERRNO_EFAULT, s)
          else do {
            s \<leftarrow> pok_preemption_local_disable s;
            off \<leftarrow> pok_channel_sampling_s_get_message ch;
            let ch = ch\<lparr>sc_messages := memcpy (sc_messages ch) off (mem_read (umem s) data len)\<rparr>;
            let (now, s) = jet_system_time s;
            ch \<leftarrow> pok_channel_sampling_send_message now len ch;
            Some (Leave POK_ERRNO_OK, upd_sampling c ch s)
          })
   }"

text \<open>The outputs are the length and the validity. The pointer \<open>valid\<close> is used without a check:
  after its conversion the code tests \<open>k_len\<close> a second time.\<close>

definition pok_port_sampling_read ::
  "nat \<Rightarrow> nat \<Rightarrow> bool \<Rightarrow> bool \<Rightarrow> arinc \<Rightarrow> ((sysret \<times> (nat \<times> bool) option) \<times> arinc) option" where
  "pok_port_sampling_read pid data len_ok valid_ok s = do {
     port \<leftarrow> get_port_sampling pid s;
     (case port of
        None \<Rightarrow> Some ((Ret POK_ERRNO_PORT, None), s)
      | Some i \<Rightarrow>
          let c = ps_channel (ports_sampling s ! i) in
          if ps_direction (ports_sampling s ! i) \<noteq> POK_PORT_DIRECTION_IN
          then Some ((Ret POK_ERRNO_DIRECTION, None), s)
          else if \<not> user_access s data (sc_max_message_size (channels_sampling s c))
          then Some ((Ret POK_ERRNO_EFAULT, None), s)
          else if \<not> len_ok then Some ((Ret POK_ERRNO_EFAULT, None), s)
          else do {
            s \<leftarrow> pok_preemption_local_disable s;
            (message, ch) \<leftarrow> pok_channel_sampling_r_get_message (channels_sampling s c);
            let s = upd_sampling c ch s;
            let (len, ret, s) =
              (case message of
                 Some (off, message_size, ts) \<Rightarrow>
                   (let s = s\<lparr>umem := memcpy (umem s) data (mem_read (sc_messages ch) off message_size)\<rparr>;
                        (current_time, s) = jet_system_time s;
                        valid = (time_add ts (refresh_period (ports_sampling s ! i)) \<ge> current_time)
                    in (message_size, POK_ERRNO_OK, upd_port_sampling i (\<lambda>p. p\<lparr>last_message_validity := valid\<rparr>) s))
               | None \<Rightarrow> (0, POK_ERRNO_EMPTY, upd_port_sampling i (\<lambda>p. p\<lparr>last_message_validity := False\<rparr>) s));
            kassert valid_ok;
            Some ((Leave ret, Some (len, last_message_validity (ports_sampling s ! i))), s)
          })
   }"

definition pok_port_sampling_id :: "chars option \<Rightarrow> bool \<Rightarrow> arinc \<Rightarrow> pok_ret \<times> nat option" where
  "pok_port_sampling_id name id_ok s =
     (case name of
        None \<Rightarrow> (POK_ERRNO_EFAULT, None)
      | Some k_name \<Rightarrow>
          if \<not> id_ok then (POK_ERRNO_EFAULT, None)
          else case find_port_sampling k_name s of
            None \<Rightarrow> (POK_ERRNO_UNAVAILABLE, None)
          | Some i \<Rightarrow> if \<not> ps_is_created (ports_sampling s ! i) then (POK_ERRNO_UNAVAILABLE, None)
                      else (POK_ERRNO_OK, Some i))"

record pok_port_sampling_status =
  ss_size :: nat
  ss_direction :: pok_port_direction
  ss_refresh :: pok_time
  ss_validity :: bool

definition pok_port_sampling_status ::
  "nat \<Rightarrow> bool \<Rightarrow> arinc \<Rightarrow> ((sysret \<times> pok_port_sampling_status option) \<times> arinc) option" where
  "pok_port_sampling_status pid status_ok s = do {
     port \<leftarrow> get_port_sampling pid s;
     (case port of
        None \<Rightarrow> Some ((Ret POK_ERRNO_PORT, None), s)
      | Some i \<Rightarrow>
          if \<not> status_ok then Some ((Ret POK_ERRNO_EFAULT, None), s)
          else do {
            s \<leftarrow> pok_preemption_local_disable s;
            let p = ports_sampling s ! i;
            Some ((Leave POK_ERRNO_OK, Some \<lparr>ss_size = sc_max_message_size (channels_sampling s (ps_channel p)),
               ss_direction = ps_direction p, ss_refresh = refresh_period p,
               ss_validity = last_message_validity p\<rparr>), s)
          })
   }"

definition pok_port_sampling_check :: "nat \<Rightarrow> arinc \<Rightarrow> (sysret \<times> arinc) option" where
  "pok_port_sampling_check pid s = do {
     port \<leftarrow> get_port_sampling pid s;
     (case port of
        None \<Rightarrow> Some (Ret POK_ERRNO_PORT, s)
      | Some i \<Rightarrow>
          if ps_direction (ports_sampling s ! i) \<noteq> POK_PORT_DIRECTION_IN then Some (Ret POK_ERRNO_MODE, s)
          else do {
            s \<leftarrow> pok_preemption_local_disable s;
            let c = ps_channel (ports_sampling s ! i);
            let (new, ch) = pok_channel_sampling_r_check_new_message (channels_sampling s c);
            Some (Leave (if new then POK_ERRNO_OK else POK_ERRNO_EMPTY), upd_sampling c ch s)
          })
   }"

end
