(* ===== verification/SchedArinc.thy ===== *)
theory SchedArinc
  imports Ports
begin

section \<open>The local scheduler of a partition\<close>

text \<open>
  \<open>kernel/core/sched_arinc.c\<close>: handling of the events of a partition, the choice of the thread to
  run, and the ends of critical sections. The loops whose end is not plain from their form are
  partial functions: \<open>None\<close> is a failed assertion or no end, and the lemmas below show that the
  loops end. A context is present (\<open>sp\<close>) or not; the field \<open>fp_store_current\<close> for the registers
  of the floating point unit is left out (the code reads it from the new thread also when there
  is none).
\<close>

lemma kbind_bind:
  "kbind m f = Option.bind m (\<lambda>r. case r of Return x s \<Rightarrow> f x s | NoReturn s \<Rightarrow> Some (NoReturn s))"
  by (cases m rule: kbind_cases) simp_all

lemma kbind_mono [partial_function_mono]:
  assumes "mono_option B" and "\<And>x s. mono_option (\<lambda>f. C x s f)"
  shows "mono_option (\<lambda>f. kbind (B f) (\<lambda>x s. C x s f))"
  unfolding kbind_bind
proof (rule bind_mono)
  show "mono_option (\<lambda>f. case r of Return x s \<Rightarrow> C x s f | NoReturn s \<Rightarrow> Some (NoReturn s))" for r
    using assms(2) by (cases r) (simp_all add: option.const_mono)
qed (rule assms(1))

subsection \<open>Events\<close>

partial_function (option) port_queuing_fired_in :: "nat \<Rightarrow> arinc \<Rightarrow> arinc option" where
  "port_queuing_fired_in i s =
     (if pok_thread_wq_is_empty i s then Some s
      else do {
        (message, ch) \<leftarrow> pok_channel_queuing_r_get_message True (port_channel i s);
        let s = upd_channel (pq_channel (ports_queuing s ! i)) ch s;
        if message = None then Some s
        else do {
          (t, s) \<leftarrow> pok_thread_wq_wake_up i s;
          t \<leftarrow> t;
          s \<leftarrow> port_queuing_receive i t s;
          port_queuing_fired_in i s
        }
      })"

partial_function (option) port_queuing_fired_out :: "nat \<Rightarrow> arinc \<Rightarrow> arinc option" where
  "port_queuing_fired_out i s =
     (if pok_thread_wq_is_empty i s then Some s
      else do {
        (message, ch) \<leftarrow> pok_channel_queuing_s_get_message True (port_channel i s);
        let s = upd_channel (pq_channel (ports_queuing s ! i)) ch s;
        if message = None then Some s
        else do {
          (t, s) \<leftarrow> pok_thread_wq_wake_up i s;
          t \<leftarrow> t;
          s \<leftarrow> port_queuing_send i t s;
          port_queuing_fired_out i s
        }
      })"

definition port_queuing_fired :: "nat \<Rightarrow> arinc \<Rightarrow> arinc option" where
  "port_queuing_fired i s = do {
     kassert (i < length (ports_queuing s));
     (if pq_direction (ports_queuing s ! i) = POK_PORT_DIRECTION_IN
      then port_queuing_fired_in i s else port_queuing_fired_out i s)
   }"

text \<open>\<open>thread_deadline_occured\<close> of \<open>thread_internal.c\<close> and the call of the callback of an event.\<close>

definition thread_deadline_occured :: "nat \<Rightarrow> arinc \<Rightarrow> unit kout option" where
  "thread_deadline_occured hid s = pok_thread_emit_deadline_missed hid s"

definition process_event :: "event_func \<Rightarrow> nat \<Rightarrow> arinc \<Rightarrow> unit kout option" where
  "process_event f hid s =
     (case f of
        Thread_deadline_occured \<Rightarrow> thread_deadline_occured hid s
      | Thread_process_delayed_event \<Rightarrow> kout_of (thread_process_delayed_event hid s))"

text \<open>\<open>delayed_event_queue_check\<close> on the partition's queue, with the real callbacks.\<close>

partial_function (option) check_delayed_events :: "pok_time \<Rightarrow> arinc \<Rightarrow> unit kout option" where
  "check_delayed_events time s =
     (case dq_take time (partition_delayed_events s) of
        None \<Rightarrow> Some (Return () s)
      | Some (k, d) \<Rightarrow>
          kbind (process_event (dq_process d k) (dq_handler d k) (s\<lparr>partition_delayed_events := d\<rparr>))
            (\<lambda>_ s. check_delayed_events time s))"

definition handle_event :: "jet_partition_event \<Rightarrow> arinc \<Rightarrow> unit kout option" where
  "handle_event event s =
     (case event_type event of
        JET_PARTITION_EVENT_TYPE_TIMER \<Rightarrow>
          (let (now, s) = jet_system_time s in check_delayed_events now s)
      | JET_PARTITION_EVENT_TYPE_PORT_SEND_AVAILABLE \<Rightarrow> kout_of (port_queuing_fired (event_handler_id event) s)
      | JET_PARTITION_EVENT_TYPE_PORT_RECEIVE_AVAILABLE \<Rightarrow> kout_of (port_queuing_fired (event_handler_id event) s))"

partial_function (option) drain_events :: "arinc \<Rightarrow> unit kout option" where
  "drain_events s = do {
     (event, part) \<leftarrow> pok_partition_get_event (base_part s);
     let s = upd_base (\<lambda>_. part) s;
     (case event of
        None \<Rightarrow> Some (Return () s)
      | Some ev \<Rightarrow> kbind (handle_event ev s) (\<lambda>_ s. drain_events s))
   }"

text \<open>The part of \<open>sched_arinc\<close> up to the check of \<open>sched_local_recheck_needed\<close>.\<close>

partial_function (option) sched_events :: "arinc \<Rightarrow> unit kout option" where
  "sched_events s =
     kbind (if is_event (base_part s) then drain_events (upd_base (\<lambda>part. part\<lparr>is_event := False\<rparr>) s)
            else Some (Return () s)) (\<lambda>_ s.
       let timer_new = dq_check_time (partition_delayed_events s);
           s = upd_base (pok_partition_set_timer timer_new) s in
       if timer_new = 0 then Some (Return () s)
       else let (time_now, s) = jet_system_time s in
         if time_now \<ge> timer_new
         then kbind (check_delayed_events time_now s) (\<lambda>_ s. sched_events s)
         else Some (Return () s))"

subsection \<open>Choice of the thread\<close>

text \<open>The walk from the waiting thread along the owners of the sections; \<open>n\<close> attempts are left.\<close>

fun select_owner :: "nat \<Rightarrow> nat \<Rightarrow> nat \<Rightarrow> arinc \<Rightarrow> (nat \<times> arinc) option" where
  "select_owner n ws new_thread s =
     (if owner (msections s ws) = None \<or> owner (msections s ws) = Some new_thread
      then Some (new_thread, upd_thread new_thread (\<lambda>th. th\<lparr>msection_entering := None\<rparr>)
                   (upd_msection ws (\<lambda>m. m\<lparr>owner := Some new_thread\<rparr>) s))
      else do {
        own \<leftarrow> owner (msections s ws);
        kassert (own < nthreads_used s);
        kassert (own > POK_PARTITION_ARINC_MAIN_THREAD_ID);
        kassert (state (threads s own) = POK_STATE_RUNNABLE);
        let s = s\<lparr>waiting_section := Some ws\<rparr>;
        (case n of
           0 \<Rightarrow> None
         | Suc m \<Rightarrow> (case msection_entering (threads s own) of
              None \<Rightarrow> Some (own, s)
            | Some ws \<Rightarrow> select_owner m ws own s))
      })"

declare select_owner.simps [simp del]

definition clear_waiting_section :: "arinc \<Rightarrow> arinc" where
  "clear_waiting_section s =
     (case waiting_section s of
        None \<Rightarrow> s
      | Some ws \<Rightarrow> (upd_msection ws (\<lambda>m. m\<lparr>msection_kernel_flags := 0\<rparr>) s)\<lparr>waiting_section := None\<rparr>)"

definition select_thread :: "nat option \<Rightarrow> arinc \<Rightarrow> (nat option \<times> arinc) option" where
  "select_thread selected_thread s =
     (let s = clear_waiting_section (s\<lparr>thread_selected := selected_thread\<rparr>) in
      case selected_thread of
        None \<Rightarrow> Some (None, s)
      | Some t \<Rightarrow> do {
          let new_thread = (case donate_target (threads s t) of None \<Rightarrow> t | Some u \<Rightarrow> u);
          (new_thread, s) \<leftarrow>
            (case msection_entering (threads s new_thread) of
               None \<Rightarrow> Some (new_thread, s)
             | Some ws \<Rightarrow> select_owner 5 ws new_thread s);
          let s = (case waiting_section s of
                     None \<Rightarrow> s
                   | Some ws \<Rightarrow> upd_msection ws (\<lambda>m. m\<lparr>msection_kernel_flags :=
                       MSECTION_KERNEL_FLAG_RESCHED_AFTER_LEAVE\<rparr>) s);
          Some (Some new_thread, s)
        })"

text \<open>The thread that the partition's mode, its error handler, its lock and its queue ask for.\<close>

definition error_handler_start :: "nat \<Rightarrow> arinc \<Rightarrow> arinc" where
  "error_handler_start e s =
     upd_thread e (\<lambda>th. th\<lparr>priority := base_priority th, sp := False, state := POK_STATE_RUNNABLE\<rparr>) s"

definition sched_choice :: "arinc \<Rightarrow> (nat option \<times> arinc) option" where
  "sched_choice s =
     (let s = upd_base (\<lambda>part. part\<lparr>is_error_handler := False\<rparr>) s in
      if mode s \<noteq> POK_PARTITION_MODE_NORMAL then
        (if state (threads s MAIN) = POK_STATE_STOPPED then Some (None, s) else Some (Some MAIN, s))
      else case thread_error s of
        Some e \<Rightarrow>
          if state (threads s e) \<noteq> POK_STATE_STOPPED
          then Some (Some e, upd_base (\<lambda>part. part\<lparr>is_error_handler := True\<rparr>) s)
          else if error_list s \<noteq> []
          then Some (Some e, upd_base (\<lambda>part. part\<lparr>is_error_handler := True\<rparr>) (error_handler_start e s))
          else if lock_level s \<noteq> 0 then Some (thread_locked s, s)
          else Some (case eligible_threads s of [] \<Rightarrow> None | t # _ \<Rightarrow> Some t, s)
      | None \<Rightarrow>
          if error_list s \<noteq> [] then None
          else if lock_level s \<noteq> 0 then Some (thread_locked s, s)
          else Some (case eligible_threads s of [] \<Rightarrow> None | t # _ \<Rightarrow> Some t, s))"

subsection \<open>The switch\<close>

text \<open>What becomes of the running context: it goes on, it is dropped and the error handler starts
  anew on its stack, or another context is entered; then \<open>True\<close> says that the old one is saved.\<close>

datatype switch = Stay | Restart nat | SwitchTo "nat option" bool

definition context_present :: "nat option \<Rightarrow> arinc \<Rightarrow> bool" where
  "context_present t s = (case t of None \<Rightarrow> idle_sp s | Some t \<Rightarrow> sp (threads s t))"

definition context_init :: "nat option \<Rightarrow> arinc \<Rightarrow> arinc" where
  "context_init t s =
     (case t of None \<Rightarrow> s\<lparr>idle_sp := True\<rparr> | Some t \<Rightarrow> upd_thread t (\<lambda>th. th\<lparr>sp := True\<rparr>) s)"

definition sched_switch :: "nat option \<Rightarrow> arinc \<Rightarrow> (switch \<times> arinc) option" where
  "sched_switch new_thread s =
     (if new_thread = thread_current s then
        (case new_thread of
           None \<Rightarrow> Some (Stay, s)
         | Some t \<Rightarrow>
             if sp (threads s t) then Some (Stay, s)
             else do {
               kassert (thread_error s = Some t);
               Some (Restart t, upd_thread t (\<lambda>th. th\<lparr>sp := True\<rparr>) s)
             })
      else let old_thread = thread_current s;
               s = s\<lparr>thread_current := new_thread\<rparr>;
               s = (if new_thread \<noteq> None then s\<lparr>kshd_current_thread_id := new_thread\<rparr> else s);
               s = (if context_present new_thread s then s else context_init new_thread s)
           in Some (SwitchTo new_thread (context_present old_thread s), s))"

definition sched_arinc :: "arinc \<Rightarrow> switch kout option" where
  "sched_arinc s =
     kbind (sched_events s) (\<lambda>_ s.
       if \<not> sched_local_recheck_needed s then Some (Return Stay s)
       else do {
         let s = s\<lparr>sched_local_recheck_needed := False\<rparr>;
         kassert (mode s \<noteq> POK_PARTITION_MODE_IDLE);
         (t, s) \<leftarrow> sched_choice s;
         (t, s) \<leftarrow> select_thread t s;
         (r, s) \<leftarrow> sched_switch t s;
         Some (Return r s)
       })"

text \<open>The loop at the end of a critical section. After a switch the context that goes on is at the
  same place in its own call, or starts and then looks for events in the same way.\<close>

partial_function (option) local_enable_loop :: "arinc \<Rightarrow> unit kout option" where
  "local_enable_loop s =
     kbind (sched_arinc s) (\<lambda>_ s.
       let s = upd_base (\<lambda>part. part\<lparr>preempt_local_disabled := False\<rparr>) s in
       if is_event (base_part s)
       then local_enable_loop (upd_base (\<lambda>part. part\<lparr>preempt_local_disabled := True\<rparr>) s)
       else Some (Return () s))"

definition pok_preemption_local_enable :: "arinc \<Rightarrow> unit kout option" where
  "pok_preemption_local_enable s = do {
     kassert (preempt_local_disabled (base_part s));
     local_enable_loop s
   }"

text \<open>\<open>pok_sched_arinc_on_event\<close>: the section that the interrupted thread was entering is noted.\<close>

definition pok_sched_arinc_on_event :: "arinc \<Rightarrow> switch kout option" where
  "pok_sched_arinc_on_event s =
     (case thread_current s of
        None \<Rightarrow> sched_arinc s
      | Some t \<Rightarrow> (case tshd_msection_entering (tshd s t) of
          None \<Rightarrow> sched_arinc s
        | Some ws \<Rightarrow> do {
            kassert (user_access s ws 2);
            sched_arinc (upd_thread t (\<lambda>th. th\<lparr>msection_entering := Some ws\<rparr>) s)
          }))"

definition sched_arinc_start :: "arinc \<Rightarrow> arinc" where
  "sched_arinc_start s =
     (let s = s\<lparr>idle_sp := False, lock_level := 1, thread_locked := Some MAIN\<rparr>;
          s = upd_thread MAIN (\<lambda>th. th\<lparr>state := POK_STATE_RUNNABLE\<rparr>) s;
          s = s\<lparr>thread_current := Some MAIN, kshd_current_thread_id := Some MAIN\<rparr>
      in upd_thread MAIN (\<lambda>th. th\<lparr>sp := True\<rparr>) s)"

subsection \<open>Leaving a section that others wait for\<close>

text \<open>The donators of a stopped thread, resumed one by one.\<close>

partial_function (option) resume_donators :: "nat \<Rightarrow> arinc \<Rightarrow> arinc option" where
  "resume_donators donator s = do {
     let s = upd_thread donator (\<lambda>th. th\<lparr>donate_target := None\<rparr>) s;
     let s = (if thread_selected s = Some donator then pok_sched_local_invalidate s else s);
     let next = next_donator (threads s donator);
     s \<leftarrow> (if first_donator (threads s donator) \<noteq> None
           then thread_stop donator (upd_thread donator (\<lambda>th. th\<lparr>first_donator := None\<rparr>) s)
           else Some s);
     let s = upd_thread donator (\<lambda>th. th\<lparr>next_donator := None\<rparr>) s;
     (case next of None \<Rightarrow> Some s | Some d \<Rightarrow> resume_donators d s)
   }"

definition jet_resched :: "arinc \<Rightarrow> (sysret \<times> arinc) option" where
  "jet_resched s = do {
     t \<leftarrow> thread_current s;
     s \<leftarrow> pok_preemption_local_disable s;
     let s = (case waiting_section s of
                None \<Rightarrow> s
              | Some ws \<Rightarrow> if owner (msections s ws) = None then pok_sched_local_invalidate s else s);
     s \<leftarrow> (case first_donator (threads s t) of
             None \<Rightarrow> Some s
           | Some donator \<Rightarrow>
               if msection_count (tshd s t) = 0 then do {
                 s \<leftarrow> thread_stop t (upd_thread t (\<lambda>th. th\<lparr>first_donator := None\<rparr>) s);
                 resume_donators donator s
               } else Some s);
     Some (Leave POK_ERRNO_OK, s)
   }"

end
