(* ===== verification/ThreadApi.thy ===== *)
theory ThreadApi
  imports SchedArinc
begin

section \<open>System calls on threads\<close>

text \<open>
  The system calls of \<open>kernel/core/thread.c\<close>, except for those on critical sections (theory
  \<open>ThreadMsection\<close>) and the wait queues of ports (theory \<open>ThreadInternal\<close>). Pointers of the user are
  given as in \<open>Ports\<close>: an argument that is read is \<open>None\<close> when its address is refused, a place that is
  written is a boolean and its value comes back in the result. An identifier has been cut to the
  byte of \<open>pok_thread_id_t\<close> before the call. The result \<open>None\<close> is a failed assertion.
\<close>

subsection \<open>Finding threads\<close>

definition find_thread :: "chars \<Rightarrow> arinc \<Rightarrow> nat option" where
  "find_thread name s =
     find (\<lambda>t. thread_error s \<noteq> Some t \<and> pok_compare_names (thread_name (threads s t)) name = 0)
       [POK_PARTITION_ARINC_MAIN_THREAD_ID + 1..<nthreads_used s]"

definition get_thread_by_id :: "nat \<Rightarrow> arinc \<Rightarrow> nat option" where
  "get_thread_by_id tid s =
     (if tid = 0 \<or> tid \<ge> nthreads_used s \<or> thread_error s = Some tid then None else Some tid)"

definition pok_thread_find :: "chars option \<Rightarrow> bool \<Rightarrow> arinc \<Rightarrow> pok_ret \<times> nat option" where
  "pok_thread_find name id_ok s =
     (case name of
        None \<Rightarrow> (POK_ERRNO_EFAULT, None)
      | Some kernel_name \<Rightarrow>
          if \<not> id_ok then (POK_ERRNO_EFAULT, None)
          else case find_thread kernel_name s of
            None \<Rightarrow> (POK_ERRNO_EINVAL, None)
          | Some t \<Rightarrow> (POK_ERRNO_OK, Some t))"

subsection \<open>Creation\<close>

record pok_thread_attr =
  attr_priority :: nat
  attr_period :: pok_time
  attr_deadline :: pok_deadline
  attr_time_capacity :: pok_time
  attr_stack_size :: nat

definition MIN_PRIORITY_VALUE :: nat where "MIN_PRIORITY_VALUE = 1"
definition MAX_PRIORITY_VALUE :: nat where "MAX_PRIORITY_VALUE = 239"

text \<open>The checks on the attributes that have been stored in the next free thread; the result is
  the code to be returned, or \<open>POK_ERRNO_OK\<close>.\<close>

definition thread_attr_check :: "pok_thread \<Rightarrow> arinc \<Rightarrow> pok_ret" where
  "thread_attr_check th s =
     (if base_priority th > MAX_PRIORITY_VALUE \<or> base_priority th < MIN_PRIORITY_VALUE then POK_ERRNO_EINVAL
      else if thr_period th = 0 then POK_ERRNO_PARAM
      else if time_capacity th = 0 then POK_ERRNO_PARAM
      else if \<not> pok_time_is_infinity (thr_period th) \<and> pok_time_is_infinity (time_capacity th)
      then POK_ERRNO_PARAM
      else if \<not> pok_time_is_infinity (thr_period th) \<and> time_capacity th > thr_period th
      then POK_ERRNO_PARAM
      else if \<not> user_exec s (entry th) then POK_ERRNO_PARAM
      else POK_ERRNO_OK)"

definition pok_thread_create ::
  "chars option \<Rightarrow> nat \<Rightarrow> pok_thread_attr option \<Rightarrow> bool \<Rightarrow> arinc \<Rightarrow> (pok_ret \<times> nat option) \<times> arinc" where
  "pok_thread_create name entry_point attr id_ok s =
     (if mode s = POK_PARTITION_MODE_NORMAL then ((POK_ERRNO_PARTITION_MODE, None), s)
      else case attr of
        None \<Rightarrow> ((POK_ERRNO_EFAULT, None), s)
      | Some k_attr \<Rightarrow>
          if \<not> id_ok then ((POK_ERRNO_EFAULT, None), s)
          else case name of
            None \<Rightarrow> ((POK_ERRNO_EFAULT, None), s)
          | Some k_name \<Rightarrow>
              if nthreads_used s = nthreads s then ((POK_ERRNO_TOOMANY, None), s)
              else let t = nthreads_used s;
                       s = upd_thread t (\<lambda>th. th\<lparr>entry := entry_point, base_priority := attr_priority k_attr,
                             thr_period := attr_period k_attr, time_capacity := attr_time_capacity k_attr,
                             deadline := attr_deadline k_attr\<rparr>) s;
                       ret = thread_attr_check (threads s t) s
                   in if ret \<noteq> POK_ERRNO_OK then ((ret, None), s)
                      else let s = upd_thread t (\<lambda>th. th\<lparr>thread_name :=
                             (\<lambda>i. if i < MAX_NAME_LENGTH then k_name i else thread_name th i)\<rparr>) s
                      in if find_thread (thread_name (threads s t)) s \<noteq> None then ((POK_ERRNO_EXISTS, None), s)
                      else let s = upd_thread t (\<lambda>th. th\<lparr>user_stack_size := attr_stack_size k_attr\<rparr>) s;
                               (created, s) = thread_create t s
                           in if \<not> created then ((POK_ERRNO_UNAVAILABLE, None), s)
                              else ((POK_ERRNO_OK, Some (nthreads_used s)), s\<lparr>nthreads_used := nthreads_used s + 1\<rparr>))"

subsection \<open>Sleeping and yielding\<close>

definition pok_thread_sleep :: "pok_time option \<Rightarrow> arinc \<Rightarrow> (sysret \<times> arinc) option" where
  "pok_thread_sleep time s = do {
     allowed \<leftarrow> thread_is_waiting_allowed s;
     if \<not> allowed then Some (Ret POK_ERRNO_MODE, s)
     else (case time of
        None \<Rightarrow> Some (Ret POK_ERRNO_EFAULT, s)
      | Some kernel_time \<Rightarrow> do {
          s \<leftarrow> pok_preemption_local_disable s;
          t \<leftarrow> thread_current s;
          s \<leftarrow> (if kernel_time = 0 then thread_yield t s else thread_wait_common t kernel_time s);
          Some (Leave POK_ERRNO_OK, s)
        })
   }"

definition pok_thread_yield :: "arinc \<Rightarrow> (sysret \<times> arinc) option" where
  "pok_thread_yield s = do {
     s \<leftarrow> pok_preemption_local_disable s;
     t \<leftarrow> thread_current s;
     s \<leftarrow> thread_yield t s;
     Some (Leave POK_ERRNO_OK, s)
   }"

subsection \<open>Start\<close>

text \<open>What a start in normal mode does to the timers of the thread: when it begins, its next
  activation, its deadline.\<close>

definition thread_start_times :: "nat \<Rightarrow> pok_time \<Rightarrow> arinc \<Rightarrow> (pok_time \<times> arinc) option" where
  "thread_start_times t delay s =
     (if pok_time_is_infinity (thr_period (threads s t))
      then (let (now, s) = jet_system_time s in Some (time_add now delay, s))
      else do {
        periodic_start \<leftarrow> get_next_periodic_processing_start (gsched s);
        let thread_start_time = time_add periodic_start delay;
        Some (thread_start_time, upd_thread t (\<lambda>th. th\<lparr>next_activation :=
           time_add thread_start_time (thr_period th)\<rparr>) s)
      })"

definition thread_delayed_start_internal :: "nat \<Rightarrow> pok_time \<Rightarrow> arinc \<Rightarrow> (pok_ret \<times> arinc) option" where
  "thread_delayed_start_internal t delay s = do {
     kassert (\<not> pok_time_is_infinity delay);
     if state (threads s t) \<noteq> POK_STATE_STOPPED then Some (POK_ERRNO_UNAVAILABLE, s)
     else if \<not> pok_time_is_infinity (thr_period (threads s t)) \<and> delay \<ge> thr_period (threads s t)
     then Some (POK_ERRNO_EINVAL, s)
     else let s = upd_thread t (\<lambda>th. th\<lparr>priority := base_priority th, sp := False\<rparr>) s;
              s = upd_tshd t (\<lambda>d. d\<lparr>msection_count := 0, tshd_msection_entering := None,
                    tshd_priority := priority (threads s t), thread_kernel_flags := 0\<rparr>) s
          in if mode s \<noteq> POK_PARTITION_MODE_NORMAL
             then Some (POK_ERRNO_OK, upd_thread t (\<lambda>th. th\<lparr>delayed_time := delay, state := POK_STATE_WAITING\<rparr>) s)
             else do {
               (thread_start_time, s) \<leftarrow> thread_start_times t delay s;
               let s = (if \<not> pok_time_is_infinity (time_capacity (threads s t))
                        then thread_set_deadline t (time_add thread_start_time (time_capacity (threads s t))) s
                        else s);
               s \<leftarrow> (if delay = 0 \<and> pok_time_is_infinity (thr_period (threads s t))
                      then thread_start t s else thread_wait_timed t thread_start_time s);
               Some (POK_ERRNO_OK, s)
             }
   }"

definition pok_thread_delayed_start :: "nat \<Rightarrow> pok_time option \<Rightarrow> arinc \<Rightarrow> (sysret \<times> arinc) option" where
  "pok_thread_delayed_start tid delay_time s =
     (case get_thread_by_id tid s of
        None \<Rightarrow> Some (Ret POK_ERRNO_PARAM, s)
      | Some t \<Rightarrow> (case delay_time of
          None \<Rightarrow> Some (Ret POK_ERRNO_EFAULT, s)
        | Some kernel_delay_time \<Rightarrow>
            if pok_time_is_infinity kernel_delay_time then Some (Ret POK_ERRNO_EINVAL, s)
            else do {
              s \<leftarrow> pok_preemption_local_disable s;
              (ret, s) \<leftarrow> thread_delayed_start_internal t kernel_delay_time s;
              Some (Leave ret, s)
            }))"

definition pok_thread_start :: "nat \<Rightarrow> arinc \<Rightarrow> (sysret \<times> arinc) option" where
  "pok_thread_start tid s =
     (case get_thread_by_id tid s of
        None \<Rightarrow> Some (Ret POK_ERRNO_PARAM, s)
      | Some t \<Rightarrow> do {
          s \<leftarrow> pok_preemption_local_disable s;
          (ret, s) \<leftarrow> thread_delayed_start_internal t 0 s;
          Some (Leave ret, s)
        })"

subsection \<open>Status and priority\<close>

record pok_thread_status =
  attributes :: pok_thread_attr
  deadline_time :: pok_time
  status_state :: pok_state
  current_priority :: nat

text \<open>The state that the user sees.\<close>

definition thread_status_state :: "nat \<Rightarrow> arinc \<Rightarrow> pok_state" where
  "thread_status_state t s =
     (if state (threads s t) = POK_STATE_RUNNABLE then
        (if suspended (threads s t) then POK_STATE_WAITING
         else if thread_current s = Some t then POK_STATE_RUNNING
         else state (threads s t))
      else state (threads s t))"

definition pok_thread_get_status ::
  "nat \<Rightarrow> bool \<Rightarrow> bool \<Rightarrow> bool \<Rightarrow> arinc \<Rightarrow> ((sysret \<times> (chars \<times> nat \<times> pok_thread_status) option) \<times> arinc) option" where
  "pok_thread_get_status tid name_ok entry_ok status_ok s =
     (case get_thread_by_id tid s of
        None \<Rightarrow> Some ((Ret POK_ERRNO_PARAM, None), s)
      | Some t \<Rightarrow>
          if \<not> status_ok then Some ((Ret POK_ERRNO_EFAULT, None), s)
          else if \<not> entry_ok then Some ((Ret POK_ERRNO_EFAULT, None), s)
          else if \<not> name_ok then Some ((Ret POK_ERRNO_EFAULT, None), s)
          else let th = threads s t;
                   k_attr = \<lparr>attr_priority = base_priority th, attr_period = thr_period th,
                     attr_deadline = deadline th, attr_time_capacity = time_capacity th,
                     attr_stack_size = user_stack_size th\<rparr>
               in do {
                 s \<leftarrow> pok_preemption_local_disable s;
                 let k_status = \<lparr>attributes = k_attr,
                   deadline_time = (if pok_time_is_infinity (time_capacity th) then POK_TIME_INFINITY
                     else dq_time (partition_delayed_events s) (t, Deadline_event)),
                   status_state = thread_status_state t s, current_priority = priority th\<rparr>;
                 Some ((Leave POK_ERRNO_OK, Some (thread_name th, entry th, k_status)), s)
               })"

definition pok_thread_set_priority :: "nat \<Rightarrow> nat \<Rightarrow> arinc \<Rightarrow> (sysret \<times> arinc) option" where
  "pok_thread_set_priority tid prio s =
     (case get_thread_by_id tid s of
        None \<Rightarrow> Some (Ret POK_ERRNO_PARAM, s)
      | Some t \<Rightarrow>
          if prio > MAX_PRIORITY_VALUE then Some (Ret POK_ERRNO_PARAM, s)
          else if prio < MIN_PRIORITY_VALUE then Some (Ret POK_ERRNO_PARAM, s)
          else do {
            s \<leftarrow> pok_preemption_local_disable s;
            if state (threads s t) = POK_STATE_STOPPED then Some (Leave POK_ERRNO_UNAVAILABLE, s)
            else do {
              let s = upd_thread t (\<lambda>th. th\<lparr>priority := prio\<rparr>) s;
              let s = upd_tshd t (\<lambda>d. d\<lparr>tshd_priority := prio\<rparr>) s;
              s \<leftarrow> thread_yield t s;
              Some (Leave POK_ERRNO_OK, s)
            }
          })"

subsection \<open>Suspend and resume\<close>

definition pok_thread_is_periodic :: "pok_thread \<Rightarrow> bool" where
  "pok_thread_is_periodic th \<longleftrightarrow> \<not> pok_time_is_infinity (thr_period th)"

definition pok_thread_resume :: "nat \<Rightarrow> arinc \<Rightarrow> (sysret \<times> arinc) option" where
  "pok_thread_resume tid s =
     (case get_thread_by_id tid s of
        None \<Rightarrow> Some (Ret POK_ERRNO_PARAM, s)
      | Some t \<Rightarrow>
          if thread_current s = Some t then Some (Ret POK_ERRNO_THREADATTR, s)
          else if pok_thread_is_periodic (threads s t) then Some (Ret POK_ERRNO_MODE, s)
          else do {
            s \<leftarrow> pok_preemption_local_disable s;
            if state (threads s t) = POK_STATE_STOPPED then Some (Leave POK_ERRNO_MODE, s)
            else if \<not> suspended (threads s t) then Some (Leave POK_ERRNO_UNAVAILABLE, s)
            else do {
              s \<leftarrow> thread_resume t s;
              Some (Leave POK_ERRNO_OK, s)
            }
          })"

definition pok_thread_suspend_target :: "nat \<Rightarrow> arinc \<Rightarrow> (sysret \<times> arinc) option" where
  "pok_thread_suspend_target tid s =
     (case get_thread_by_id tid s of
        None \<Rightarrow> Some (Ret POK_ERRNO_PARAM, s)
      | Some t \<Rightarrow>
          if thread_current s = Some t then Some (Ret POK_ERRNO_THREADATTR, s)
          else if pok_thread_is_periodic (threads s t) then Some (Ret POK_ERRNO_MODE, s)
          else do {
            s \<leftarrow> pok_preemption_local_disable s;
            if state (threads s t) = POK_STATE_STOPPED then Some (Leave POK_ERRNO_MODE, s)
            else if lock_level s > 0 \<and> thread_locked s = Some t then Some (Leave POK_ERRNO_MODE, s)
            else if suspended (threads s t) then Some (Leave POK_ERRNO_UNAVAILABLE, s)
            else Some (Leave POK_ERRNO_OK, thread_suspend t s)
          })"

definition pok_thread_suspend :: "pok_time option \<Rightarrow> arinc \<Rightarrow> (sysret \<times> arinc) option" where
  "pok_thread_suspend time s = do {
     t \<leftarrow> thread_current s;
     (case time of
        None \<Rightarrow> Some (Ret POK_ERRNO_EFAULT, s)
      | Some kernel_time \<Rightarrow>
          if pok_thread_is_periodic (threads s t) then Some (Ret POK_ERRNO_MODE, s)
          else do {
            allowed \<leftarrow> thread_is_waiting_allowed s;
            if \<not> allowed then Some (Ret POK_ERRNO_MODE, s)
            else do {
              s \<leftarrow> pok_preemption_local_disable s;
              if kernel_time = 0 then Some (Leave POK_ERRNO_OK, s)
              else let s = thread_suspend t s in
                if pok_time_is_infinity kernel_time then Some (Leave POK_ERRNO_OK, s)
                else do {
                  s \<leftarrow> thread_suspend_timed t kernel_time s;
                  Some (LeaveWait t, s)
                }
            }
          })
   }"

subsection \<open>Stop\<close>

text \<open>The three ways to stop another thread that cannot be stopped at once: the caller becomes a
  donator, and does not run before the target is stopped.\<close>

definition join_donators :: "nat \<Rightarrow> nat \<Rightarrow> arinc \<Rightarrow> pok_ret \<times> arinc" where
  "join_donators t cur s =
     (let (ret, s) = (if first_donator (threads s t) = None
                      then (POK_ERRNO_OK, upd_thread t (\<lambda>th. th\<lparr>first_donator := Some cur\<rparr>) s)
                      else (POK_ERRNO_UNAVAILABLE, s));
          s = upd_thread cur (\<lambda>th. th\<lparr>donate_target := donate_target (threads s t)\<rparr>) s;
          s = upd_thread cur (\<lambda>th. th\<lparr>next_donator := next_donator (threads s t)\<rparr>) s
      in (ret, upd_thread t (\<lambda>th. th\<lparr>next_donator := Some cur\<rparr>) s))"

definition add_first_donator :: "nat \<Rightarrow> nat \<Rightarrow> arinc \<Rightarrow> arinc" where
  "add_first_donator t cur s =
     (let s = upd_thread cur (\<lambda>th. th\<lparr>donate_target := Some t\<rparr>) s;
          s = upd_thread cur (\<lambda>th. th\<lparr>next_donator := first_donator (threads s t)\<rparr>) s
      in upd_thread t (\<lambda>th. th\<lparr>first_donator := Some cur\<rparr>) s)"

definition kill_in_section :: "nat \<Rightarrow> nat \<Rightarrow> arinc \<Rightarrow> arinc option" where
  "kill_in_section t cur s = do {
     s \<leftarrow> (if state (threads s t) = POK_STATE_WAITING
           then do {
             s \<leftarrow> thread_wake_up t s;
             Some (upd_thread t (\<lambda>th. th\<lparr>wait_result := POK_ERRNO_CANCELLED\<rparr>) s)
           }
           else Some s);
     let s = upd_thread cur (\<lambda>th. th\<lparr>donate_target := Some t, next_donator := None\<rparr>) s;
     let s = upd_thread t (\<lambda>th. th\<lparr>first_donator := Some cur\<rparr>) s;
     Some (upd_tshd t (\<lambda>d. d\<lparr>thread_kernel_flags := THREAD_KERNEL_FLAG_KILLED\<rparr>) s)
   }"

definition pok_thread_stop_target :: "nat \<Rightarrow> arinc \<Rightarrow> (sysret \<times> arinc) option" where
  "pok_thread_stop_target tid s =
     (case get_thread_by_id tid s of
        None \<Rightarrow> Some (Ret POK_ERRNO_PARAM, s)
      | Some t \<Rightarrow>
          if thread_current s = Some t then Some (Ret POK_ERRNO_THREADATTR, s)
          else do {
            s \<leftarrow> pok_preemption_local_disable s;
            if state (threads s t) = POK_STATE_STOPPED then Some (Leave POK_ERRNO_UNAVAILABLE, s)
            else if donate_target (threads s t) = None \<and> first_donator (threads s t) = None
                    \<and> msection_count (tshd s t) = 0
            then do {
              s \<leftarrow> thread_stop t s;
              Some (Leave POK_ERRNO_OK, s)
            }
            else do {
              cur \<leftarrow> thread_current s;
              (ret, s) \<leftarrow>
                (if donate_target (threads s t) \<noteq> None then Some (join_donators t cur s)
                 else if first_donator (threads s t) \<noteq> None
                 then Some (POK_ERRNO_UNAVAILABLE, add_first_donator t cur s)
                 else do {
                   s \<leftarrow> kill_in_section t cur s;
                   Some (POK_ERRNO_OK, s)
                 });
              Some (Leave ret, pok_sched_local_invalidate s)
            }
          })"

definition pok_thread_stop :: "arinc \<Rightarrow> sysret kout option" where
  "pok_thread_stop s = do {
     t \<leftarrow> thread_current s;
     s \<leftarrow> pok_preemption_local_disable s;
     kassert (donate_target (threads s t) = None);
     kassert (first_donator (threads s t) = None);
     s \<leftarrow> thread_stop t s;
     kbind (if thread_error s = Some t
            then kbind (error_check_after_handler s) (\<lambda>_ s. kout_of (error_ignore_sync s))
            else Some (Return () s))
       (\<lambda>_ s. Some (Return (Leave POK_ERRNO_OK) (pok_sched_local_invalidate s)))
   }"

subsection \<open>Periods and deadlines\<close>

definition pok_sched_end_period :: "arinc \<Rightarrow> (sysret \<times> arinc) option" where
  "pok_sched_end_period s = do {
     t \<leftarrow> thread_current s;
     if \<not> pok_thread_is_periodic (threads s t) then Some (Ret POK_ERRNO_MODE, s)
     else do {
       allowed \<leftarrow> thread_is_waiting_allowed s;
       if \<not> allowed then Some (Ret POK_ERRNO_MODE, s)
       else do {
         s \<leftarrow> pok_preemption_local_disable s;
         let s = upd_thread t (\<lambda>th. th\<lparr>next_activation := time_add (next_activation th) (thr_period th)\<rparr>) s;
         s \<leftarrow> thread_wait_timed t (next_activation (threads s t)) s;
         let s = thread_set_deadline t (time_add (next_activation (threads s t)) (time_capacity (threads s t))) s;
         Some (Leave POK_ERRNO_OK, s)
       }
     }
   }"

text \<open>The field \<open>next_activation\<close> is unsigned in C, so the comparison with it is one of unsigned numbers.\<close>

definition as_unsigned :: "pok_time \<Rightarrow> int" where
  "as_unsigned x = x mod 2 ^ 64"

definition pok_sched_replenish :: "pok_time option \<Rightarrow> arinc \<Rightarrow> (sysret \<times> arinc) option" where
  "pok_sched_replenish budget s =
     (case budget of
        None \<Rightarrow> Some (Ret POK_ERRNO_EFAULT, s)
      | Some kernel_budget \<Rightarrow> do {
          t \<leftarrow> thread_current s;
          if thread_error s = Some t then Some (Ret POK_ERRNO_UNAVAILABLE, s)
          else if mode s \<noteq> POK_PARTITION_MODE_NORMAL then Some (Ret POK_ERRNO_UNAVAILABLE, s)
          else if pok_time_is_infinity (time_capacity (threads s t)) then Some (Ret POK_ERRNO_OK, s)
          else do {
            s \<leftarrow> pok_preemption_local_disable s;
            if pok_time_is_infinity kernel_budget then
              (if \<not> pok_time_is_infinity (thr_period (threads s t)) then Some (Leave POK_ERRNO_MODE, s)
               else Some (Leave POK_ERRNO_OK, upd_events (dq_remove (t, Deadline_event)) s))
            else
              (let (now, s) = jet_system_time s;
                   calculated_deadline = time_add now kernel_budget
               in if \<not> pok_time_is_infinity (thr_period (threads s t))
                     \<and> as_unsigned calculated_deadline \<ge> as_unsigned (next_activation (threads s t))
                  then Some (Leave POK_ERRNO_MODE, s)
                  else Some (Leave POK_ERRNO_OK, thread_set_deadline t calculated_deadline s))
          }
        })"

end
