(* ===== verification/PartitionArinc.thy ===== *)
theory PartitionArinc
  imports ThreadApi
begin

section \<open>Life of an ARINC partition\<close>

text \<open>
  \<open>kernel/core/partition_arinc.c\<close>: the start of a partition, the change of its mode, its status
  and the preemption lock. The functions that leave the partition are in \<open>ErrorArinc\<close>. The mode that
  an application asks for is \<open>None\<close> when it is none of the four modes. Stacks for the kernel,
  stores for floating point registers and the fields for the debugger are not modelled; the ELF
  loader gives the entry point, the space manager the heap.
\<close>

subsection \<open>Start\<close>

definition main_thread_name :: chars where
  "main_thread_name i = (if i < 4 then int (of_char (''main'' ! i)) else 0)"

definition thread_reset :: "nat \<Rightarrow> arinc \<Rightarrow> arinc" where
  "thread_reset t = upd_thread t (\<lambda>th. th\<lparr>thread_name := (thread_name th)(0 := 0)\<rparr>)"

text \<open>A loop \<open>for(int i = a; i < b; i++)\<close> whose body is a step on the state.\<close>

definition for_upto :: "nat \<Rightarrow> nat \<Rightarrow> (nat \<Rightarrow> arinc \<Rightarrow> arinc) \<Rightarrow> arinc \<Rightarrow> arinc" where
  "for_upto a b f s = fold f [a..<b] s"

definition partition_arinc_start :: "arinc \<Rightarrow> arinc option" where
  "partition_arinc_start s =
     (let s = (if restarted_externally (base_part s)
               then (upd_base (\<lambda>part. part\<lparr>restarted_externally := False\<rparr>) s)\<lparr>mode := POK_PARTITION_MODE_INIT_COLD\<rparr>
               else s);
          s = (if heap_size s > 0 then s\<lparr>kshd_heap := Some (user_heap s, user_heap s + heap_size s)\<rparr>
               else s\<lparr>kshd_heap := None\<rparr>);
          s = for_upto 0 (length (ports_queuing s)) pok_port_queuing_init s;
          s = for_upto 0 (length (ports_sampling s)) pok_port_sampling_init s;
          s = s\<lparr>eligible_threads := []\<rparr>;
          s = upd_events (\<lambda>d. d\<lparr>dq_list := []\<rparr>) s;
          s = for_upto 0 (nthreads s) thread_reset s;
          s = s\<lparr>nthreads_used := 0, thread_current := None, thread_error := None, error_list := []\<rparr>;
          s = upd_thread MAIN (\<lambda>th. th\<lparr>entry := elf_entry s, base_priority := 0, thr_period := POK_TIME_INFINITY,
                time_capacity := POK_TIME_INFINITY, deadline := DEADLINE_SOFT,
                thread_name := strncpy (thread_name th) main_thread_name MAX_NAME_LENGTH,
                user_stack_size := main_user_stack_size s\<rparr>) s;
          (created, s) = thread_create MAIN s
      in do {
        kassert created;
        let s = s\<lparr>nthreads_used := POK_PARTITION_ARINC_MAIN_THREAD_ID + 1\<rparr>;
        let s = s\<lparr>kshd_current_thread_id := None, kshd_max_n_threads := nthreads s, kshd_partition_mode := mode s\<rparr>;
        Some (sched_arinc_start s)
      })"

definition pok_partition_arinc_init :: "(nat \<Rightarrow> jet_partition_event) \<Rightarrow> arinc \<Rightarrow> arinc" where
  "pok_partition_arinc_init alloc = upd_base (pok_partition_init alloc)"

subsection \<open>Modes\<close>

text \<open>What the switch to normal mode does for one thread that has been started; the release point
  is computed for the first periodic thread and kept.\<close>

definition release_time :: "pok_time \<Rightarrow> pok_time \<Rightarrow> nat \<Rightarrow> arinc \<Rightarrow> (pok_time \<times> pok_time \<times> arinc) option" where
  "release_time current_time periodic_release_point t s =
     (if pok_time_is_infinity (thr_period (threads s t))
      then Some (time_add current_time (delayed_time (threads s t)), periodic_release_point, s)
      else do {
        periodic_release_point \<leftarrow>
          (if pok_time_is_infinity periodic_release_point then get_next_periodic_processing_start (gsched s)
           else Some periodic_release_point);
        let thread_start_time = time_add periodic_release_point (delayed_time (threads s t));
        Some (thread_start_time, periodic_release_point,
          upd_thread t (\<lambda>th. th\<lparr>next_activation := thread_start_time\<rparr>) s)
      })"

definition release_thread :: "pok_time \<Rightarrow> pok_time \<Rightarrow> nat \<Rightarrow> arinc \<Rightarrow> (pok_time \<times> arinc) option" where
  "release_thread current_time periodic_release_point t s =
     (if state (threads s t) = POK_STATE_STOPPED then Some (periodic_release_point, s)
      else do {
        (thread_start_time, periodic_release_point, s) \<leftarrow> release_time current_time periodic_release_point t s;
        s \<leftarrow> (if thread_start_time \<le> current_time then thread_wake_up t s
              else Some (thread_delay_event t thread_start_time Thread_wake_up s));
        Some (periodic_release_point,
          if \<not> pok_time_is_infinity (time_capacity (threads s t))
          then thread_set_deadline t (time_add thread_start_time (time_capacity (threads s t))) s else s)
      })"

fun release_threads :: "pok_time \<Rightarrow> pok_time \<Rightarrow> nat list \<Rightarrow> arinc \<Rightarrow> arinc option" where
  "release_threads current_time periodic_release_point [] s = Some s"
| "release_threads current_time periodic_release_point (t # ts) s = do {
     (periodic_release_point, s) \<leftarrow> release_thread current_time periodic_release_point t s;
     release_threads current_time periodic_release_point ts s
   }"

definition partition_set_mode_normal :: "arinc \<Rightarrow> arinc option" where
  "partition_set_mode_normal s =
     (let (current_time, s) = jet_system_time s;
          s = pok_sched_local_invalidate (s\<lparr>mode := POK_PARTITION_MODE_NORMAL, lock_level := 0\<rparr>)
      in release_threads current_time POK_TIME_INFINITY
           [POK_PARTITION_ARINC_MAIN_THREAD_ID + 1..<nthreads_used s] s)"

definition partition_set_mode_internal :: "pok_partition_mode option \<Rightarrow> arinc \<Rightarrow> pok_ret kout option" where
  "partition_set_mode_internal m s =
     (case m of
        None \<Rightarrow> Some (Return POK_ERRNO_EINVAL s)
      | Some POK_PARTITION_MODE_INIT_WARM \<Rightarrow>
          if mode s = POK_PARTITION_MODE_INIT_COLD then Some (Return POK_ERRNO_PARTITION_MODE s)
          else kbind (pok_partition_arinc_reset POK_PARTITION_MODE_INIT_WARM
                 (upd_base (\<lambda>part. part\<lparr>start_condition := POK_START_CONDITION_PARTITION_RESTART\<rparr>) s))
                 (\<lambda>_ s. Some (Return POK_ERRNO_OK (s\<lparr>kshd_partition_mode := mode s\<rparr>)))
      | Some POK_PARTITION_MODE_INIT_COLD \<Rightarrow>
          kbind (pok_partition_arinc_reset POK_PARTITION_MODE_INIT_COLD
                 (upd_base (\<lambda>part. part\<lparr>start_condition := POK_START_CONDITION_PARTITION_RESTART\<rparr>) s))
                 (\<lambda>_ s. Some (Return POK_ERRNO_OK (s\<lparr>kshd_partition_mode := mode s\<rparr>)))
      | Some POK_PARTITION_MODE_IDLE \<Rightarrow>
          kbind (pok_partition_arinc_idle s)
                 (\<lambda>_ s. Some (Return POK_ERRNO_OK (s\<lparr>kshd_partition_mode := mode s\<rparr>)))
      | Some POK_PARTITION_MODE_NORMAL \<Rightarrow>
          if mode s = POK_PARTITION_MODE_NORMAL then Some (Return POK_ERRNO_UNAVAILABLE s)
          else kbind (kout_of (partition_set_mode_normal s))
                 (\<lambda>_ s. Some (Return POK_ERRNO_OK (s\<lparr>kshd_partition_mode := mode s\<rparr>))))"

definition pok_partition_set_mode_current :: "pok_partition_mode option \<Rightarrow> arinc \<Rightarrow> sysret kout option" where
  "pok_partition_set_mode_current m s = do {
     s \<leftarrow> pok_preemption_local_disable s;
     kbind (partition_set_mode_internal m s) (\<lambda>res s. Some (Return (Leave res) s))
   }"

subsection \<open>Status and the preemption lock\<close>

record pok_partition_status =
  ps_id :: nat
  ps_period :: nat
  ps_duration :: nat
  ps_lock_level :: nat
  ps_mode :: pok_partition_mode
  ps_start_condition :: pok_start_condition

definition pok_current_partition_get_status :: "bool \<Rightarrow> arinc \<Rightarrow> pok_ret \<times> pok_partition_status option" where
  "pok_current_partition_get_status status_ok s =
     (if \<not> status_ok then (POK_ERRNO_EFAULT, None)
      else (POK_ERRNO_OK, Some \<lparr>ps_id = partition_id (base_part s), ps_period = period (base_part s),
        ps_duration = duration (base_part s), ps_lock_level = lock_level s, ps_mode = mode s,
        ps_start_condition = start_condition (base_part s)\<rparr>))"

definition MAX_LOCK_LEVEL :: nat where "MAX_LOCK_LEVEL = 16"

definition is_lock_level_blocked :: "arinc \<Rightarrow> bool" where
  "is_lock_level_blocked s \<longleftrightarrow> mode s \<noteq> POK_PARTITION_MODE_NORMAL \<or> thread_current s = thread_error s"

text \<open>The value that the two calls store for the user is read after the critical section.\<close>

definition pok_current_partition_inc_lock_level :: "bool \<Rightarrow> arinc \<Rightarrow> (sysret \<times> arinc) option" where
  "pok_current_partition_inc_lock_level lock_level_ok s =
     (if is_lock_level_blocked s then Some (Ret POK_ERRNO_PARTITION_MODE, s)
      else if lock_level s = MAX_LOCK_LEVEL then Some (Ret POK_ERRNO_EINVAL, s)
      else if \<not> lock_level_ok then Some (Ret POK_ERRNO_EFAULT, s)
      else do {
        s \<leftarrow> pok_preemption_local_disable s;
        Some (Leave POK_ERRNO_OK, s\<lparr>lock_level := u32 (lock_level s + 1), thread_locked := thread_current s\<rparr>)
      })"

definition pok_current_partition_dec_lock_level :: "bool \<Rightarrow> arinc \<Rightarrow> (sysret \<times> arinc) option" where
  "pok_current_partition_dec_lock_level lock_level_ok s =
     (if is_lock_level_blocked s then Some (Ret POK_ERRNO_PARTITION_MODE, s)
      else if lock_level s = 0 then Some (Ret POK_ERRNO_EINVAL, s)
      else if \<not> lock_level_ok then Some (Ret POK_ERRNO_EFAULT, s)
      else do {
        s \<leftarrow> pok_preemption_local_disable s;
        let s = s\<lparr>lock_level := lock_level s - 1\<rparr>;
        if lock_level s = 0 then do {
          t \<leftarrow> thread_current s;
          Some (Leave POK_ERRNO_OK, if \<not> first_eligible t s then pok_sched_local_invalidate s else s)
        }
        else Some (Leave POK_ERRNO_OK, s)
      })"

subsection \<open>Clock\<close>

text \<open>\<open>pok_clock_gettime\<close> of \<open>kernel/core/time.c\<close>; only the real-time clock is supported.\<close>

definition pok_clock_gettime :: "bool \<Rightarrow> bool \<Rightarrow> arinc \<Rightarrow> (pok_ret \<times> pok_time option) \<times> arinc" where
  "pok_clock_gettime is_realtime val_ok s =
     (if \<not> val_ok then ((POK_ERRNO_EFAULT, None), s)
      else if is_realtime then (let (now, s) = jet_system_time s in ((POK_ERRNO_OK, Some now), s))
      else ((POK_ERRNO_EINVAL, Some (-1)), s))"

end
