(* ===== verification/PortWaiters.thy ===== *)
theory PortWaiters
  imports SchedArinc
begin

section \<open>Threads that wait on ports\<close>

text \<open>
  What happens to the waiting threads of a port when the channel has messages or room again.
  The first part says which fields of the state the invariant of the local scheduler depends on;
  the second follows a message from the channel into the buffer of a waiting thread, and then
  the loop of \<open>port_queuing_fired\<close> over all that can be served.
\<close>

subsection \<open>Frames\<close>

text \<open>Threads that agree in what the local scheduler looks at.\<close>

definition same_thread :: "pok_thread \<Rightarrow> pok_thread \<Rightarrow> bool" where
  "same_thread a b \<longleftrightarrow> priority a = priority b \<and> state a = state b \<and> suspended a = suspended b
     \<and> thread_delayed_func a = thread_delayed_func b"

definition same_sched :: "arinc \<Rightarrow> arinc \<Rightarrow> bool" where
  "same_sched s s' \<longleftrightarrow> mode s' = mode s \<and> nthreads_used s' = nthreads_used s \<and> nthreads s' = nthreads s
     \<and> thread_error s' = thread_error s \<and> eligible_threads s' = eligible_threads s
     \<and> partition_delayed_events s' = partition_delayed_events s
     \<and> map waiters (ports_queuing s') = map waiters (ports_queuing s)
     \<and> sched_local_recheck_needed s' = sched_local_recheck_needed s
     \<and> (\<forall>t. same_thread (threads s' t) (threads s t))"

lemma same_sched_in_wait_queue: "same_sched s s' \<Longrightarrow> is_in_wait_queue t s' = is_in_wait_queue t s"
  by (simp add: in_wait_queue_concat same_sched_def del: set_concat)

lemma same_sched_may_run: "same_sched s s' \<Longrightarrow> may_run s' t = may_run s t \<and> thread_ok s' t = thread_ok s t"
  by (simp add: thr_simps same_sched_in_wait_queue) (simp add: same_sched_def same_thread_def)

lemma thr_inv_same:
  assumes "same_sched s s'"
  shows "thr_inv X s' = thr_inv X s"
  using same_sched_may_run [OF assms] assms
  by (simp add: thr_inv_def) (simp add: same_sched_def same_thread_def)

lemma keeps_first_same: "same_sched s s' \<Longrightarrow> keeps_first s s'"
  by (simp add: same_sched_def keeps_first_def)

lemma same_sched_refl [simp]: "same_sched s s"
  by (simp add: same_sched_def same_thread_def)

lemma same_sched_trans: "same_sched s t \<Longrightarrow> same_sched t u \<Longrightarrow> same_sched s u"
  by (simp add: same_sched_def same_thread_def)

lemma same_sched_upd_thread:
  "(\<And>th. same_thread (f th) th) \<Longrightarrow> same_sched s (upd_thread t f s)"
  by (simp add: same_sched_def upd_thread_def same_thread_def)

lemma same_sched_fields [simp]:
  "same_sched s (upd_channel c ch s)" "same_sched s (s\<lparr>umem := m\<rparr>)" "same_sched s (s\<lparr>parts := ps\<rparr>)"
  "same_sched s (upd_base f s)" "same_sched s (s\<lparr>clock_pos := n\<rparr>)"
  by (simp_all add: same_sched_def upd_channel_def upd_base_def same_thread_def)

lemma upd_channel_simps [simp]:
  "threads (upd_channel c ch s) = threads s" "ports_queuing (upd_channel c ch s) = ports_queuing s"
  "channels_queuing (upd_channel c ch s) = (channels_queuing s)(c := ch)"
  "parts (upd_channel c ch s) = parts s" "umem (upd_channel c ch s) = umem s" "mode (upd_channel c ch s) = mode s"
  by (simp_all add: upd_channel_def)

text \<open>What waking up a thread leaves alone.\<close>

definition same_ports :: "arinc \<Rightarrow> arinc \<Rightarrow> bool" where
  "same_ports s s' \<longleftrightarrow> channels_queuing s' = channels_queuing s \<and> parts s' = parts s \<and> umem s' = umem s
     \<and> mode s' = mode s \<and> nthreads_used s' = nthreads_used s \<and> thread_error s' = thread_error s
     \<and> length (ports_queuing s') = length (ports_queuing s) \<and> gsched s' = gsched s
     \<and> (\<forall>i < length (ports_queuing s). pq_channel (ports_queuing s' ! i) = pq_channel (ports_queuing s ! i)
          \<and> pq_direction (ports_queuing s' ! i) = pq_direction (ports_queuing s ! i))
     \<and> (\<forall>t. wait_buffer (threads s' t) = wait_buffer (threads s t) \<and> wait_len (threads s' t) = wait_len (threads s t))"

lemma same_ports_trans: "same_ports s t \<Longrightarrow> same_ports t u \<Longrightarrow> same_ports s u"
  by (simp add: same_ports_def)

lemma same_ports_refl [simp]: "same_ports s s" by (simp add: same_ports_def)

lemma same_ports_frame:
  "(\<And>th. wait_buffer (f th) = wait_buffer th \<and> wait_len (f th) = wait_len th) \<Longrightarrow> same_ports s (upd_thread t f s)"
  "same_ports s (upd_events g s)" "same_ports s (pok_thread_wq_remove t s)"
  "same_ports s (pok_sched_local_invalidate s)" "same_ports s (s\<lparr>eligible_threads := e\<rparr>)"
  by (simp_all add: same_ports_def upd_thread_def upd_events_def pok_thread_wq_remove_def pok_sched_local_invalidate_def)

lemma same_ports_set_eligible: "thread_set_eligible t s = Some s' \<Longrightarrow> same_ports s s'"
  by (auto simp: thread_set_eligible_def Let_def same_ports_def pok_sched_local_invalidate_def split: if_splits)

lemma same_ports_cancel_wait: "same_ports s (thread_cancel_wait t s)"
  unfolding thread_cancel_wait_def
  by (auto intro!: same_ports_trans [OF same_ports_frame(3) same_ports_frame(1)] same_ports_frame(1))

lemma same_ports_woken: "same_ports s (woken t s)"
  unfolding woken_def thread_delay_event_cancel_def
  by (intro same_ports_trans [OF _ same_ports_cancel_wait] same_ports_trans [OF same_ports_frame(1) same_ports_frame(2)]) simp

lemma same_ports_wake_up: "thread_wake_up t s = Some s' \<Longrightarrow> same_ports s s'"
  using same_ports_woken [of s t] same_ports_set_eligible same_ports_trans
  by (auto simp: thread_wake_up_eq split: if_splits)

text \<open>A thread that is taken out of the wait queues.\<close>

lemma wq_remove_inv:
  assumes "thr_inv {} s" "state (threads s t) = POK_STATE_WAITING"
  shows "thr_inv {} (pok_thread_wq_remove t s)"
proof -
  have "\<not> may_run s t" using assms(2) by (simp add: may_run_def)
  then have "t \<notin> set (eligible_threads s)" using thr_inv_thread [OF assms(1)] by blast
  from thr_inv_wq_remove [OF thr_inv_open [OF assms(1) this]] show ?thesis
    by (rule thr_inv_close) (use assms thr_inv_thread [OF assms(1), of t] in \<open>auto simp: thr_simps\<close>)
qed

lemma waiting_thread:
  assumes "thr_inv {} s" "i < length (ports_queuing s)" "t \<in> set (waiters (ports_queuing s ! i))"
  shows "state (threads s t) = POK_STATE_WAITING" "ordinary s t" "mode s = POK_PARTITION_MODE_NORMAL"
proof -
  have "is_in_wait_queue t s" using assms(2,3) by (auto simp: is_in_wait_queue_def)
  then show "state (threads s t) = POK_STATE_WAITING" "ordinary s t" "mode s = POK_PARTITION_MODE_NORMAL"
    using thr_inv_thread [OF assms(1), of t] by (auto simp: thread_ok_def)
qed

lemma waiters_distinct:
  assumes "thr_inv {} s" "i < length (ports_queuing s)"
  shows "distinct (waiters (ports_queuing s ! i))"
  using assms distinct_concat_iff [of "map waiters (ports_queuing s)"] by (auto simp: thr_inv_def distinct_concat_iff)

subsection \<open>One thread is served\<close>

lemma wake_up_ports:
  assumes "thread_wake_up t s = Some s'" "\<not> is_in_wait_queue t s"
  shows "ports_queuing s' = ports_queuing s"
proof -
  have "ports_queuing (woken t s) = ports_queuing s"
    using assms(2) by (simp add: woken_def thread_cancel_wait_def thread_delay_event_cancel_def)
  then show ?thesis using assms(1)
    by (auto simp: thread_wake_up_eq thread_set_eligible_def Let_def split: if_splits)
qed

lemma wake_up_threads:
  assumes "thread_wake_up t s = Some s'"
  shows "state (threads s' t) = POK_STATE_RUNNABLE" "u \<noteq> t \<Longrightarrow> threads s' u = threads s u"
proof -
  have "state (threads (woken t s) t) = POK_STATE_RUNNABLE"
    "u \<noteq> t \<Longrightarrow> threads (woken t s) u = threads s u"
    by (simp_all add: woken_def thread_cancel_wait_def thread_delay_event_cancel_def)
  then show "state (threads s' t) = POK_STATE_RUNNABLE" "u \<noteq> t \<Longrightarrow> threads s' u = threads s u"
    using assms by (auto simp: thread_wake_up_eq thread_set_eligible_def Let_def split: if_splits)
qed

lemma wake_first:
  assumes inv: "thr_inv {} s" and i: "i < length (ports_queuing s)" and ws: "waiters (ports_queuing s ! i) = w # ws"
  shows "\<exists>s'. pok_thread_wq_wake_up i s = Some (Some w, s') \<and> thr_inv {} s' \<and> keeps_first s s'
     \<and> same_ports s s' \<and> waiters (ports_queuing s' ! i) = ws \<and> state (threads s' w) = POK_STATE_RUNNABLE
     \<and> (\<forall>u. u \<noteq> w \<longrightarrow> threads s' u = threads s u)"
proof -
  note w = waiting_thread [OF inv i, of w, unfolded ws, simplified]
  let ?r = "pok_thread_wq_remove w s"
  have r: "thr_inv {} ?r" by (rule wq_remove_inv [OF inv w(1)])
  have o: "state (threads ?r w) = POK_STATE_WAITING" "ordinary ?r w" "mode ?r = POK_PARTITION_MODE_NORMAL"
    using w by (simp_all add: ordinary_def)
  obtain s' where s': "thread_wake_up w ?r = Some s'" using thread_wake_up_total [OF r o] by blast
  have "w \<notin> set ws" using waiters_distinct [OF inv i] ws by simp
  then have "waiters (ports_queuing ?r ! i) = ws"
    using i ws by (simp add: pok_thread_wq_remove_def removeAll_id)
  moreover have "ports_queuing s' = ports_queuing ?r" by (rule wake_up_ports [OF s']) simp
  moreover have "same_ports s s'"
    by (rule same_ports_trans [OF same_ports_frame(3) same_ports_wake_up [OF s']])
  moreover have "keeps_first s s'" by (rule keeps_first_trans [OF keeps_first_frame(3) keeps_first_wake_up [OF s']])
  ultimately show ?thesis
    using s' thread_wake_up_inv [OF r o(2,3) s'] wake_up_threads [OF s'] ws
    by (auto simp: pok_thread_wq_wake_up_def)
qed

lemma receive_first:
  assumes op: "chan_open (port_channel i s, parts s)" and m: "channel_msgs (port_channel i s) = m # ms"
  shows "\<exists>s'. port_queuing_receive i t s = Some s' \<and> same_sched s s' \<and> ports_queuing s' = ports_queuing s
     \<and> chan_open (port_channel i s', parts s') \<and> channel_msgs (port_channel i s') = ms
     \<and> umem s' = memcpy (umem s) (wait_buffer (threads s t)) m
     \<and> threads s' = (threads s)(t := (threads s t)\<lparr>wait_len := length m, wait_result :=
          if message_discarded (port_channel i s) then POK_ERRNO_TOOMANY else POK_ERRNO_OK\<rparr>)
     \<and> max_message_size (port_channel i s') = max_message_size (port_channel i s) \<and> gsched s' = gsched s"
proof -
  let ?ch = "port_channel i s" and ?c = "pq_channel (ports_queuing s ! i)"
  obtain ch' ps where r: "channel_receive (?ch, parts s) = Some (Some (m, message_discarded ?ch), ch', ps)"
    "chan_open (ch', ps)" "channel_msgs ch' = ms" "max_message_size ch' = max_message_size ?ch"
    using channel_receive_open [OF op m] by blast
  obtain off sz ch1 where g: "pok_channel_queuing_r_get_message False ?ch = Some (Some (off, sz), ch1)"
    "m = mem_read (messages ch1) off sz"
    "pok_channel_queuing_r_consume_message (ch1, parts s) = Some (message_discarded ?ch, ch', ps)"
    using r(1) by (auto simp: channel_receive_def bind_Some split: option.splits)
  let ?s' = "upd_thread t (\<lambda>th. th\<lparr>wait_result := if message_discarded ?ch then POK_ERRNO_TOOMANY else POK_ERRNO_OK\<rparr>)
     ((upd_channel ?c ch' (upd_thread t (\<lambda>th. th\<lparr>wait_len := sz\<rparr>)
        ((upd_channel ?c ch1 s)\<lparr>umem := memcpy (umem s) (wait_buffer (threads s t)) m\<rparr>)))\<lparr>parts := ps\<rparr>)"
  have s': "port_queuing_receive i t s = Some ?s'"
    using g by (simp add: port_queuing_receive_def port_channel_def Let_def) (simp add: upd_thread_def upd_channel_def)
  have "same_sched s ?s'" by (simp add: same_sched_def same_thread_def upd_thread_def upd_channel_def)
  moreover have "port_channel i ?s' = ch'" "parts ?s' = ps" "ports_queuing ?s' = ports_queuing s"
    "umem ?s' = memcpy (umem s) (wait_buffer (threads s t)) m" "gsched ?s' = gsched s"
    by (simp_all add: port_channel_def upd_thread_def upd_channel_def)
  moreover have "threads ?s' = (threads s)(t := (threads s t)\<lparr>wait_len := sz, wait_result :=
      if message_discarded ?ch then POK_ERRNO_TOOMANY else POK_ERRNO_OK\<rparr>)" "sz = length m"
    by (simp_all add: g(2))
  ultimately show ?thesis using s' r by simp
qed

subsection \<open>All that can be served\<close>

definition areas_apart :: "nat \<Rightarrow> nat \<Rightarrow> nat \<Rightarrow> nat \<Rightarrow> bool" where
  "areas_apart a n b m \<longleftrightarrow> a + n \<le> b \<or> b + m \<le> a"

text \<open>The buffers of the threads do not overlap.\<close>

definition buffers_apart :: "nat list \<Rightarrow> nat \<Rightarrow> arinc \<Rightarrow> bool" where
  "buffers_apart ts n s \<longleftrightarrow> (\<forall>a \<in> set ts. \<forall>b \<in> set ts. a \<noteq> b \<longrightarrow>
     areas_apart (wait_buffer (threads s a)) n (wait_buffer (threads s b)) n)"

lemma message_length:
  assumes "chan_open (ch, ps)" "m \<in> set (channel_msgs ch)"
  shows "length m \<le> max_message_size ch"
  using chan_open_facts(2) [OF assms(1)] assms(2) by (auto simp: channel_msgs_def msg_at_def slots_ok_def)

lemma mem_read_memcpy_apart:
  "areas_apart a n b m \<Longrightarrow> length bs \<le> m \<Longrightarrow> mem_read (memcpy mm b bs) a n = mem_read mm a n"
  by (rule mem_read_memcpy_disj) (auto simp: areas_apart_def)

text \<open>What the loop leaves: \<open>n\<close> threads are served, the others still wait.\<close>

definition served :: "nat \<Rightarrow> nat list \<Rightarrow> byte list list \<Rightarrow> arinc \<Rightarrow> arinc \<Rightarrow> bool" where
  "served L ts ms s s' \<longleftrightarrow>
     (\<forall>k < min (length ts) (length ms). state (threads s' (ts ! k)) = POK_STATE_RUNNABLE
        \<and> wait_len (threads s' (ts ! k)) = length (ms ! k)
        \<and> wait_result (threads s' (ts ! k)) \<in> {POK_ERRNO_OK, POK_ERRNO_TOOMANY}
        \<and> mem_read (umem s') (wait_buffer (threads s (ts ! k))) (length (ms ! k)) = ms ! k)
     \<and> (\<forall>u. u \<notin> set ts \<longrightarrow> threads s' u = threads s u)
     \<and> (\<forall>a n. (\<forall>t \<in> set ts. areas_apart a n (wait_buffer (threads s t)) L)
          \<longrightarrow> mem_read (umem s') a n = mem_read (umem s) a n)"

lemma r_get_message_open:
  assumes "chan_open (ch, ps)"
  shows "channel_msgs ch = [] \<Longrightarrow> pok_channel_queuing_r_get_message True ch =
      Some (None, upd_side RecvSide (\<lambda>s. s\<lparr>is_notify := True\<rparr>) ch)"
    "channel_msgs ch \<noteq> [] \<Longrightarrow> \<exists>m. pok_channel_queuing_r_get_message sub ch = Some (Some m, ch)"
proof -
  note f = chan_open_facts [OF assms]
  have len: "length (channel_msgs ch) = r_count ch + s_count ch" by (rule length_channel_msgs)
  have pos: "0 < side_max_nb_message (recv ch)" using f(1) by (simp add: qc_static_def)
  have r: "r_count ch = 0 \<longleftrightarrow> channel_msgs ch = []"
    using f(6) pos by (cases "s_count ch") (auto simp flip: length_0_conv)
  note e = r_count_0 [OF f(1)]
  show "channel_msgs ch = [] \<Longrightarrow> pok_channel_queuing_r_get_message True ch =
      Some (None, upd_side RecvSide (\<lambda>s. s\<lparr>is_notify := True\<rparr>) ch)"
    using r e by (simp add: pok_channel_queuing_r_get_message_def)
  show "channel_msgs ch \<noteq> [] \<Longrightarrow> \<exists>m. pok_channel_queuing_r_get_message sub ch = Some (Some m, ch)"
    using r e f(1) by (simp add: pok_channel_queuing_r_get_message_def channel_queuing_message_at_def qc_static_def)
qed

lemma served_step:
  assumes wk: "\<forall>u. u \<noteq> w \<longrightarrow> threads s1 u = threads s u" "state (threads s1 w) = POK_STATE_RUNNABLE"
    and sp: "same_ports s s1"
    and s2: "umem s2 = memcpy (umem s1) (wait_buffer (threads s1 w)) m"
      "threads s2 = (threads s1)(w := (threads s1 w)\<lparr>wait_len := length m, wait_result := r\<rparr>)"
    and r: "r \<in> {POK_ERRNO_OK, POK_ERRNO_TOOMANY}" and len: "length m \<le> L"
    and apart: "buffers_apart (w # ts) L s" and w: "w \<notin> set ts"
    and ih: "served L ts ms s2 s3"
  shows "served L (w # ts) (m # ms) s s3"
proof -
  have buf: "wait_buffer (threads s2 u) = wait_buffer (threads s u)"
    "wait_buffer (threads s1 u) = wait_buffer (threads s u)" "umem s1 = umem s" for u
    using sp by (simp_all add: s2(2) same_ports_def)
  have w3: "threads s3 w = threads s2 w" using ih w by (simp add: served_def)
  have far: "areas_apart (wait_buffer (threads s w)) (length m) (wait_buffer (threads s t)) L" if "t \<in> set ts" for t
    using apart that w len by (auto simp: buffers_apart_def areas_apart_def)
  have first: "mem_read (umem s3) (wait_buffer (threads s w)) (length m) = m"
  proof -
    have "mem_read (umem s3) (wait_buffer (threads s w)) (length m) = mem_read (umem s2) (wait_buffer (threads s w)) (length m)"
      using ih far by (simp add: served_def buf)
    then show ?thesis by (simp add: s2(1) buf mem_read_memcpy_same)
  qed
  have mem: "mem_read (umem s3) a n = mem_read (umem s) a n"
    if "\<forall>t \<in> set (w # ts). areas_apart a n (wait_buffer (threads s t)) L" for a n
  proof -
    have "mem_read (umem s3) a n = mem_read (umem s2) a n" using ih that by (simp add: served_def buf)
    then show ?thesis using mem_read_memcpy_apart [OF _ len] that by (simp add: s2(1) buf)
  qed
  have keep: "threads s3 u = threads s u" if "u \<notin> set (w # ts)" for u
    using ih that wk(1) by (simp add: served_def s2(2))
  have kth: "state (threads s3 ((w # ts) ! k)) = POK_STATE_RUNNABLE
        \<and> wait_len (threads s3 ((w # ts) ! k)) = length ((m # ms) ! k)
        \<and> wait_result (threads s3 ((w # ts) ! k)) \<in> {POK_ERRNO_OK, POK_ERRNO_TOOMANY}
        \<and> mem_read (umem s3) (wait_buffer (threads s ((w # ts) ! k))) (length ((m # ms) ! k)) = (m # ms) ! k"
    if "k < min (length (w # ts)) (length (m # ms))" for k
  proof (cases k)
    case 0
    then show ?thesis using w3 first r wk(2) by (simp add: s2(2))
  next
    case (Suc j)
    then have "j < min (length ts) (length ms)" using that by simp
    then show ?thesis using ih Suc by (simp add: served_def buf)
  qed
  show ?thesis unfolding served_def using kth keep mem by blast
qed

lemma fired_in_serves:
  assumes "thr_inv {} s" "i < length (ports_queuing s)" "chan_open (port_channel i s, parts s)"
    "waiters (ports_queuing s ! i) = ts" "channel_msgs (port_channel i s) = ms"
    "max_message_size (port_channel i s) = L" "buffers_apart ts L s"
  shows "\<exists>s'. port_queuing_fired_in i s = Some s' \<and> thr_inv {} s' \<and> keeps_first s s'
     \<and> waiters (ports_queuing s' ! i) = drop (length ms) ts
     \<and> channel_msgs (port_channel i s') = drop (length ts) ms
     \<and> served L ts ms s s' \<and> (length ms < length ts \<longrightarrow> is_notify (recv (port_channel i s')))"
  using assms
proof (induction ts arbitrary: s ms)
  case Nil
  have "port_queuing_fired_in i s = Some s"
    using Nil.prems(4) by (subst port_queuing_fired_in.simps) (simp add: pok_thread_wq_is_empty_def)
  then show ?case using Nil.prems by (simp add: served_def)
next
  case (Cons w ts)
  note inv = Cons.prems(1) and i = Cons.prems(2) and op = Cons.prems(3) and ws = Cons.prems(4)
  have ne: "\<not> pok_thread_wq_is_empty i s" using ws by (simp add: pok_thread_wq_is_empty_def)
  let ?c = "pq_channel (ports_queuing s ! i)" and ?ch = "port_channel i s"
  show ?case
  proof (cases ms)
    case Nil
    let ?s' = "upd_channel ?c (upd_side RecvSide (\<lambda>s. s\<lparr>is_notify := True\<rparr>) ?ch) s"
    have "pok_channel_queuing_r_get_message True ?ch =
        Some (None, upd_side RecvSide (\<lambda>s. s\<lparr>is_notify := True\<rparr>) ?ch)"
      by (rule r_get_message_open(1) [OF op]) (use Nil Cons.prems(5) in simp)
    then have "port_queuing_fired_in i s = Some ?s'"
      using ne by (subst port_queuing_fired_in.simps) (simp add: Let_def)
    moreover have "thr_inv {} ?s'" "keeps_first s ?s'"
      using inv thr_inv_same [of s ?s'] keeps_first_same [of s ?s'] by simp_all
    moreover have ch': "port_channel i ?s' = upd_side RecvSide (\<lambda>s. s\<lparr>is_notify := True\<rparr>) ?ch"
      by (simp add: port_channel_def)
    moreover have "channel_msgs (port_channel i ?s') = []"
    proof -
      have "channel_msgs (upd_side RecvSide (\<lambda>s. s\<lparr>is_notify := True\<rparr>) ?ch) = channel_msgs ?ch"
        by (simp add: channel_msgs_def msg_at_def slot_def r_count_def s_count_def)
      then show ?thesis unfolding ch' using Cons.prems(5) Nil by (rule trans [OF _ trans])
    qed
    ultimately show ?thesis using ws Nil by (auto simp: served_def)
  next
    case (Cons m ms')
    have full: "channel_msgs ?ch = m # ms'" using Cons Cons.prems(5) by (rule trans [rotated])
    then have "channel_msgs ?ch \<noteq> []" by (rule ssubst) simp
    then obtain pos where "pok_channel_queuing_r_get_message True ?ch = Some (Some pos, ?ch)"
      using r_get_message_open(2) [OF op, of True] by blast
    moreover have "upd_channel ?c ?ch s = s" by (simp add: upd_channel_def port_channel_def)
    moreover obtain s1 where s1: "pok_thread_wq_wake_up i s = Some (Some w, s1)" "thr_inv {} s1"
      "keeps_first s s1" "same_ports s s1" "waiters (ports_queuing s1 ! i) = ts"
      "state (threads s1 w) = POK_STATE_RUNNABLE" "\<forall>u. u \<noteq> w \<longrightarrow> threads s1 u = threads s u"
      using wake_first [OF inv i ws] by blast
    moreover have ch1: "port_channel i s1 = ?ch" "parts s1 = parts s" "i < length (ports_queuing s1)"
      using s1(4) i by (simp_all add: same_ports_def port_channel_def)
    moreover obtain s2 where s2: "port_queuing_receive i w s1 = Some s2" "same_sched s1 s2"
      "ports_queuing s2 = ports_queuing s1" "chan_open (port_channel i s2, parts s2)"
      "channel_msgs (port_channel i s2) = ms'" "umem s2 = memcpy (umem s1) (wait_buffer (threads s1 w)) m"
      "threads s2 = (threads s1)(w := (threads s1 w)\<lparr>wait_len := length m, wait_result :=
          if message_discarded (port_channel i s1) then POK_ERRNO_TOOMANY else POK_ERRNO_OK\<rparr>)"
      "max_message_size (port_channel i s2) = max_message_size (port_channel i s1)"
      using receive_first [of i s1 m ms' w] op Cons.prems(5) Cons unfolding ch1(1,2) by blast
    ultimately have step: "port_queuing_fired_in i s = port_queuing_fired_in i s2"
      using ne by (subst port_queuing_fired_in.simps) (simp add: Let_def)
    have buf: "wait_buffer (threads s2 u) = wait_buffer (threads s u)" for u
      using s1(4) by (simp add: s2(7) same_ports_def)
    have w: "w \<notin> set ts" using waiters_distinct [OF inv i] ws by simp
    have "buffers_apart ts L s2" using Cons.prems(7) by (simp add: buffers_apart_def buf)
    then obtain s' where s': "port_queuing_fired_in i s2 = Some s'" "thr_inv {} s'" "keeps_first s2 s'"
      "waiters (ports_queuing s' ! i) = drop (length ms') ts"
      "channel_msgs (port_channel i s') = drop (length ts) ms'" "served L ts ms' s2 s'"
      "length ms' < length ts \<longrightarrow> is_notify (recv (port_channel i s'))"
      using Cons.IH [of s2 ms'] s1(2,5) s2 ch1 thr_inv_same [OF s2(2)] Cons.prems(6) by auto
    have "m \<in> set (channel_msgs ?ch)" using Cons Cons.prems(5) by simp
    then have len: "length m \<le> L" using message_length [OF op] Cons.prems(6) by simp
    have "keeps_first s s'"
      by (rule keeps_first_trans [OF s1(3) keeps_first_trans [OF keeps_first_same [OF s2(2)] s'(3)]])
    moreover have "served L (w # ts) (m # ms') s s'"
      by (rule served_step [OF s1(7,6,4) s2(6,7) _ len Cons.prems(7) w s'(6)]) simp
    ultimately show ?thesis using step s' Cons by simp
  qed
qed

text \<open>
  C15: when a port for receiving is notified, the loop over its waiting threads ends and never
  asserts. The waiting threads are served in the order of their queue, one message each in the
  order of the channel: the thread is runnable again, its result tells of success and its own
  buffer holds the bytes of the message. No thread is left waiting beside a message, and if threads
  are left the port is subscribed to the next notification.
\<close>

theorem port_fired_delivers:
  assumes "thr_inv {} s" and "i < length (ports_queuing s)"
    and "pq_direction (ports_queuing s ! i) = POK_PORT_DIRECTION_IN"
    and "chan_open (port_channel i s, parts s)"
    and "buffers_apart (waiters (ports_queuing s ! i)) (max_message_size (port_channel i s)) s"
  shows "\<exists>s'. port_queuing_fired i s = Some s' \<and> thr_inv {} s' \<and> keeps_first s s'
     \<and> served (max_message_size (port_channel i s)) (waiters (ports_queuing s ! i)) (channel_msgs (port_channel i s)) s s'
     \<and> (waiters (ports_queuing s' ! i) = [] \<or> channel_msgs (port_channel i s') = [])
     \<and> (waiters (ports_queuing s' ! i) \<noteq> [] \<longrightarrow> is_notify (recv (port_channel i s')))"
proof -
  obtain s' where "port_queuing_fired_in i s = Some s'" "thr_inv {} s'" "keeps_first s s'"
     "waiters (ports_queuing s' ! i) = drop (length (channel_msgs (port_channel i s))) (waiters (ports_queuing s ! i))"
     "channel_msgs (port_channel i s') = drop (length (waiters (ports_queuing s ! i))) (channel_msgs (port_channel i s))"
     "served (max_message_size (port_channel i s)) (waiters (ports_queuing s ! i)) (channel_msgs (port_channel i s)) s s'"
     "length (channel_msgs (port_channel i s)) < length (waiters (ports_queuing s ! i))
        \<longrightarrow> is_notify (recv (port_channel i s'))"
    using fired_in_serves [OF assms(1,2,4) refl refl refl assms(5)] by blast
  then show ?thesis using assms(2,3) by (auto simp: port_queuing_fired_def simp del: length_channel_msgs)
qed

text \<open>The example partition with thread 1 waiting on a port whose channel holds two messages.\<close>

definition example_receiver :: arinc where
  "example_receiver = (upd_thread 1 (\<lambda>th. th\<lparr>state := POK_STATE_WAITING, wait_buffer := 500\<rparr>) example_arinc)
     \<lparr>eligible_threads := [2], channels_queuing := (\<lambda>_. example_full_channel),
      ports_queuing := [\<lparr>pq_name = (\<lambda>_. 0), waiters = [1], pq_channel = 0, pq_direction = POK_PORT_DIRECTION_IN,
        discipline = POK_QUEUING_DISCIPLINE_FIFO, pq_is_created = True\<rparr>]\<rparr>"

lemma example_receiver_inv: "thr_inv {} example_receiver"
proof -
  have "t \<in> {2} \<longleftrightarrow> t \<noteq> 1 \<and> 0 < t \<and> t < 3" for t :: nat by auto
  then show ?thesis
    by (auto simp: thr_inv_def example_receiver_def example_arinc_def thr_simps dq_inv_def dq_active_def
        is_in_wait_queue_def upd_thread_def example_thread_def)
qed

lemma example_receiver_fields:
  "ports_queuing example_receiver ! 0 = \<lparr>pq_name = (\<lambda>_. 0), waiters = [1], pq_channel = 0,
     pq_direction = POK_PORT_DIRECTION_IN, discipline = POK_QUEUING_DISCIPLINE_FIFO, pq_is_created = True\<rparr>"
  "length (ports_queuing example_receiver) = 1" "port_channel 0 example_receiver = example_full_channel"
  "parts example_receiver = example_parts" "wait_buffer (threads example_receiver 1) = 500"
  by (simp_all add: example_receiver_def port_channel_def) (simp add: upd_thread_def example_arinc_def)

theorem port_fired_delivers_witness:
  "\<exists>s'. port_queuing_fired 0 example_receiver = Some s' \<and> state (threads s' 1) = POK_STATE_RUNNABLE
     \<and> wait_len (threads s' 1) = 1 \<and> mem_read (umem s') 500 1 = [0]"
proof -
  note f = example_receiver_fields
  have ap: "buffers_apart (waiters (ports_queuing example_receiver ! 0))
      (max_message_size (port_channel 0 example_receiver)) example_receiver"
    unfolding f(1) by (simp add: buffers_apart_def)
  have dir: "pq_direction (ports_queuing example_receiver ! 0) = POK_PORT_DIRECTION_IN"
    and len: "0 < length (ports_queuing example_receiver)" unfolding f by simp_all
  have op: "chan_open (port_channel 0 example_receiver, parts example_receiver)"
    unfolding f by (rule example_full_channel(1))
  obtain s' where s': "port_queuing_fired 0 example_receiver = Some s'"
    "served (max_message_size example_full_channel) [1] [[0], [0]] example_receiver s'"
    using port_fired_delivers [OF example_receiver_inv len dir op ap] f(1,3)
    by (auto simp: example_full_channel(2))
  then show ?thesis using f(5) by (auto simp: served_def)
qed

end
