(* ===== verification/SchedChoice.thy ===== *)
theory SchedChoice
  imports PortWaiters
begin

section \<open>The local scheduler runs the thread it should\<close>

text \<open>
  \<open>chosen\<close> is what the specification of the scheduler asks for: the main thread before normal mode,
  the error handler when it is active or has errors, the thread that holds the preemption lock, the
  first eligible thread. Operations only promise that \<open>sched_local_recheck_needed\<close> is set when this
  choice changes; the lemmas follow the promise through timers, ports and errors, and the last
  property shows that a critical section ends with the chosen thread selected.
\<close>

definition chosen :: "arinc \<Rightarrow> nat option" where
  "chosen s =
     (if mode s \<noteq> POK_PARTITION_MODE_NORMAL
      then (if state (threads s MAIN) = POK_STATE_STOPPED then None else Some MAIN)
      else case thread_error s of
        Some e \<Rightarrow> if state (threads s e) \<noteq> POK_STATE_STOPPED \<or> error_list s \<noteq> [] then Some e
                  else if lock_level s \<noteq> 0 then thread_locked s else hd_opt (eligible_threads s)
      | None \<Rightarrow> if lock_level s \<noteq> 0 then thread_locked s else hd_opt (eligible_threads s))"

definition settled :: "arinc \<Rightarrow> bool" where
  "settled s \<longleftrightarrow> sched_local_recheck_needed s \<or> thread_selected s = chosen s"

subsection \<open>Steps that keep the promise\<close>

definition same_ctl :: "arinc \<Rightarrow> arinc \<Rightarrow> bool" where
  "same_ctl s s' \<longleftrightarrow> mode s' = mode s \<and> thread_error s' = thread_error s \<and> lock_level s' = lock_level s
     \<and> thread_locked s' = thread_locked s \<and> thread_selected s' = thread_selected s"

definition keeps_choice :: "arinc \<Rightarrow> arinc \<Rightarrow> bool" where
  "keeps_choice s s' \<longleftrightarrow> same_ctl s s' \<and> (sched_local_recheck_needed s \<longrightarrow> sched_local_recheck_needed s')
     \<and> (sched_local_recheck_needed s' \<or> (hd_opt (eligible_threads s') = hd_opt (eligible_threads s)
          \<and> (error_list s' = [] \<longleftrightarrow> error_list s = [])))
     \<and> state (threads s' MAIN) = state (threads s MAIN)
     \<and> (\<forall>e. thread_error s = Some e \<longrightarrow> state (threads s' e) = state (threads s e))"

lemma keeps_choice_refl [simp]: "keeps_choice s s"
  by (simp add: keeps_choice_def same_ctl_def)

lemma keeps_choice_trans: "keeps_choice s t \<Longrightarrow> keeps_choice t u \<Longrightarrow> keeps_choice s u"
  unfolding keeps_choice_def same_ctl_def by auto

lemma keeps_choice_settled: "keeps_choice s s' \<Longrightarrow> settled s \<Longrightarrow> settled s'"
  by (auto simp: keeps_choice_def same_ctl_def settled_def chosen_def split: option.splits)

lemma same_ctl_trans: "same_ctl s t \<Longrightarrow> same_ctl t u \<Longrightarrow> same_ctl s u"
  by (simp add: same_ctl_def)

lemma same_ctl_frame:
  "same_ctl s (upd_thread t f s)" "same_ctl s (upd_events g s)" "same_ctl s (pok_thread_wq_remove t s)"
  "same_ctl s (pok_sched_local_invalidate s)" "same_ctl s (s\<lparr>eligible_threads := e\<rparr>)" "same_ctl s s"
  by (simp_all add: same_ctl_def upd_thread_def upd_events_def pok_thread_wq_remove_def pok_sched_local_invalidate_def)

lemma error_list_frame:
  "error_list (upd_events g s) = error_list s" "error_list (pok_thread_wq_remove t s) = error_list s"
  by (simp_all add: upd_events_def pok_thread_wq_remove_def)

lemma set_eligible_ctl:
  "thread_set_eligible t s = Some s' \<Longrightarrow> same_ctl s s' \<and> error_list s' = error_list s \<and> threads s' = threads s"
  by (auto simp: thread_set_eligible_def Let_def same_ctl_def pok_sched_local_invalidate_def split: if_splits)

lemma woken_ctl: "same_ctl s (woken t s) \<and> error_list (woken t s) = error_list s"
  by (simp add: woken_def thread_cancel_wait_def thread_delay_event_cancel_def same_ctl_def
      upd_thread_def upd_events_def pok_thread_wq_remove_def)

lemma wake_up_ctl:
  "thread_wake_up t s = Some s' \<Longrightarrow> same_ctl s s' \<and> error_list s' = error_list s"
  using woken_ctl [of s t] set_eligible_ctl [of t "woken t s" s'] same_ctl_trans
  by (auto simp: thread_wake_up_eq split: if_splits)

lemma resume_waited_ctl:
  "thread_resume_waited t s = Some s' \<Longrightarrow> same_ctl s s' \<and> error_list s' = error_list s \<and> (\<forall>u. u \<noteq> t \<longrightarrow> threads s' u = threads s u)"
  using set_eligible_ctl same_ctl_trans [OF same_ctl_frame(1)]
  by (fastforce simp: thread_resume_waited_def kassert_def split: if_splits)

lemma keeps_choiceI:
  assumes "keeps_first s s'" "same_ctl s s'" "error_list s' = error_list s"
    "\<And>u. \<not> ordinary s u \<Longrightarrow> state (threads s' u) = state (threads s u)"
  shows "keeps_choice s s'"
  using assms(1-3) assms(4) [of MAIN] assms(4)
  by (auto simp: keeps_choice_def keeps_first_def ordinary_def)

lemma wake_up_choice:
  assumes "thread_wake_up t s = Some s'" "ordinary s t"
  shows "keeps_choice s s'"
proof (rule keeps_choiceI)
  show "state (threads s' u) = state (threads s u)" if "\<not> ordinary s u" for u
    using wake_up_threads(2) [OF assms(1), of u] that assms(2) by metis
qed (use keeps_first_wake_up [OF assms(1)] wake_up_ctl [OF assms(1)] in auto)

lemma resume_waited_choice:
  assumes "thread_resume_waited t s = Some s'" "ordinary s t"
  shows "keeps_choice s s'"
  using keeps_first_resume_waited [OF assms(1)] resume_waited_ctl [OF assms(1)] assms(2)
  by (intro keeps_choiceI) (metis+)

lemma same_sched_choice:
  assumes "same_sched s s'" "same_ctl s s'" "error_list s' = error_list s"
  shows "keeps_choice s s'"
proof (rule keeps_choiceI [OF keeps_first_same [OF assms(1)] assms(2,3)])
  show "state (threads s' u) = state (threads s u)" for u
    using assms(1) by (simp add: same_sched_def same_thread_def)
qed

text \<open>What a step of the event loop may do.\<close>

definition sched_good :: "arinc \<Rightarrow> arinc \<Rightarrow> bool" where
  "sched_good s s' \<longleftrightarrow> thr_inv {} s' \<and> keeps_choice s s'"

lemma sched_good_trans: "sched_good s t \<Longrightarrow> sched_good t u \<Longrightarrow> sched_good s u"
  by (auto simp: sched_good_def intro: keeps_choice_trans)

lemma sched_good_inv: "sched_good s s' \<Longrightarrow> thr_inv {} s'"
  by (simp add: sched_good_def)

lemma sched_good_same:
  assumes "thr_inv {} s" "same_sched s s'" "same_ctl s s'" "error_list s' = error_list s"
  shows "sched_good s s'"
  using same_sched_choice [OF assms(2-4)] thr_inv_same [OF assms(2)] assms(1) by (simp add: sched_good_def)

lemma sched_good_base:
  assumes "thr_inv {} s"
  shows "sched_good s (upd_base f s)" "sched_good s (s\<lparr>clock_pos := n\<rparr>)" "sched_good s (upd_channel c ch s)" "sched_good s s"
proof -
  show "sched_good s (upd_base f s)" "sched_good s (s\<lparr>clock_pos := n\<rparr>)"
    by (rule sched_good_same [OF assms]; simp add: same_ctl_def upd_base_def)+
  show "sched_good s (upd_channel c ch s)"
    by (rule sched_good_same [OF assms same_sched_fields(1)]) (simp_all add: same_ctl_def upd_channel_def)
  show "sched_good s s" using assms by (simp add: sched_good_def)
qed

lemma port_queuing_receive_good:
  assumes "thr_inv {} s" "port_queuing_receive i t s = Some s'"
  shows "sched_good s s' \<and> ports_queuing s' = ports_queuing s"
  using assms(2)
  by (auto simp: port_queuing_receive_def bind_Some Let_def same_sched_def same_thread_def same_ctl_def
      upd_thread_def upd_channel_def intro!: sched_good_same [OF assms(1)])

lemma port_queuing_send_good:
  assumes "thr_inv {} s" "port_queuing_send i t s = Some s'"
  shows "sched_good s s' \<and> ports_queuing s' = ports_queuing s"
  using assms(2)
  by (auto simp: port_queuing_send_def bind_Some Let_def same_sched_def same_thread_def same_ctl_def
      upd_thread_def upd_channel_def intro!: sched_good_same [OF assms(1)])

lemma wq_wake_up_good:
  assumes inv: "thr_inv {} s" and i: "i < length (ports_queuing s)"
    and w: "pok_thread_wq_wake_up i s = Some (t, s')"
  shows "sched_good s s' \<and> length (ports_queuing s') = length (ports_queuing s)"
proof (cases "waiters (ports_queuing s ! i)")
  case Nil
  then show ?thesis using w inv by (simp add: pok_thread_wq_wake_up_def sched_good_def)
next
  case (Cons u us)
  note wt = waiting_thread [OF inv i, of u, unfolded Cons, simplified]
  let ?r = "pok_thread_wq_remove u s"
  have s': "thread_wake_up u ?r = Some s'" using w Cons by (auto simp: pok_thread_wq_wake_up_def bind_Some)
  have r: "thr_inv {} ?r" by (rule wq_remove_inv [OF inv wt(1)])
  have o: "ordinary ?r u" "mode ?r = POK_PARTITION_MODE_NORMAL" using wt by (simp_all add: ordinary_def)
  have "keeps_choice s ?r"
    by (rule keeps_choiceI [OF keeps_first_frame(3) same_ctl_frame(3)]) (simp_all add: error_list_frame)
  then have "keeps_choice s s'" using wake_up_choice [OF s' o(1)] keeps_choice_trans by blast
  moreover have "length (ports_queuing s') = length (ports_queuing ?r)"
    using same_ports_wake_up [OF s'] by (simp add: same_ports_def)
  ultimately show ?thesis using thread_wake_up_inv [OF r o s'] by (simp add: sched_good_def pok_thread_wq_remove_def)
qed

text \<open>One turn of the loop over the waiting threads, in either direction.\<close>

lemma fired_in_good:
  assumes "port_queuing_fired_in i s = Some s'" "thr_inv {} s" "i < length (ports_queuing s)"
  shows "sched_good s s'"
proof -
  have "thr_inv {} s \<longrightarrow> i < length (ports_queuing s) \<longrightarrow> sched_good s s'"
  proof (rule port_queuing_fired_in.raw_induct [where P = "\<lambda>i s s'. thr_inv {} s \<longrightarrow>
      i < length (ports_queuing s) \<longrightarrow> sched_good s s'", OF _ assms(1)], intro impI, goal_cases)
    case (1 f i s s')
    note inv = 1(3) and i = 1(4)
    from 1(2) consider (empty) "s' = s"
      | (none) ch where "s' = upd_channel (pq_channel (ports_queuing s ! i)) ch s"
      | (more) ch t s1 s2 where
          "pok_thread_wq_wake_up i (upd_channel (pq_channel (ports_queuing s ! i)) ch s) = Some (Some t, s1)"
          "port_queuing_receive i t s1 = Some s2" "f i s2 = Some s'"
      by (auto simp: bind_Some Let_def split: if_splits)
    then show ?case
    proof cases
      case more
      let ?s = "upd_channel (pq_channel (ports_queuing s ! i)) ch s"
      have g: "sched_good s ?s" by (rule sched_good_base(3) [OF inv])
      note w = wq_wake_up_good [OF sched_good_inv [OF g] _ more(1)]
      have w1: "sched_good ?s s1" "i < length (ports_queuing s1)" using w i by simp_all
      note r = port_queuing_receive_good [OF sched_good_inv [OF w1(1)] more(2)]
      have "sched_good s2 s'" using 1(1) [OF more(3)] r w1(2) sched_good_inv by auto
      then show ?thesis using g w1(1) r by (blast intro: sched_good_trans)
    qed (use sched_good_base [OF inv] in auto)
  qed
  then show ?thesis using assms by blast
qed

lemma fired_out_good:
  assumes "port_queuing_fired_out i s = Some s'" "thr_inv {} s" "i < length (ports_queuing s)"
  shows "sched_good s s'"
proof -
  have "thr_inv {} s \<longrightarrow> i < length (ports_queuing s) \<longrightarrow> sched_good s s'"
  proof (rule port_queuing_fired_out.raw_induct [where P = "\<lambda>i s s'. thr_inv {} s \<longrightarrow>
      i < length (ports_queuing s) \<longrightarrow> sched_good s s'", OF _ assms(1)], intro impI, goal_cases)
    case (1 f i s s')
    note inv = 1(3) and i = 1(4)
    from 1(2) consider (empty) "s' = s"
      | (none) ch where "s' = upd_channel (pq_channel (ports_queuing s ! i)) ch s"
      | (more) ch t s1 s2 where
          "pok_thread_wq_wake_up i (upd_channel (pq_channel (ports_queuing s ! i)) ch s) = Some (Some t, s1)"
          "port_queuing_send i t s1 = Some s2" "f i s2 = Some s'"
      by (auto simp: bind_Some Let_def split: if_splits)
    then show ?case
    proof cases
      case more
      let ?s = "upd_channel (pq_channel (ports_queuing s ! i)) ch s"
      have g: "sched_good s ?s" by (rule sched_good_base(3) [OF inv])
      note w = wq_wake_up_good [OF sched_good_inv [OF g] _ more(1)]
      have w1: "sched_good ?s s1" "i < length (ports_queuing s1)" using w i by simp_all
      note r = port_queuing_send_good [OF sched_good_inv [OF w1(1)] more(2)]
      have "sched_good s2 s'" using 1(1) [OF more(3)] r w1(2) sched_good_inv by auto
      then show ?thesis using g w1(1) r by (blast intro: sched_good_trans)
    qed (use sched_good_base [OF inv] in auto)
  qed
  then show ?thesis using assms by blast
qed

lemma port_queuing_fired_good:
  "port_queuing_fired i s = Some s' \<Longrightarrow> thr_inv {} s \<Longrightarrow> sched_good s s'"
  using fired_in_good fired_out_good by (auto simp: port_queuing_fired_def bind_Some kassert_def split: if_splits)

lemma kout_of_return: "kout_of r = Some (Return x s) \<longleftrightarrow> r = Some s"
  by (auto simp: kout_of_def)

text \<open>A new error: the list of errors of another length asks for a rescheduling.\<close>

lemma add_error_bit_good:
  assumes "thr_inv {} s" "thread_add_error_bit t b s = Some s'"
  shows "sched_good s s'"
proof -
  let ?u = "upd_thread t (\<lambda>th. th\<lparr>error_bits := error_bits th OR b\<rparr>) s"
  have u: "sched_good s ?u"
    by (rule sched_good_same [OF assms(1) same_sched_upd_thread same_ctl_frame(1)]) (simp_all add: same_thread_def)
  have s': "s' = ?u \<or> (t \<notin> set (error_list s) \<and> s' = pok_sched_local_invalidate (?u\<lparr>error_list := error_list ?u @ [t]\<rparr>))"
    using assms(2) by (auto simp: thread_add_error_bit_def Let_def kassert_def split: if_splits)
  have "thr_inv {} (v\<lparr>error_list := l\<rparr>) = thr_inv {} v" for v l
    by (rule thr_inv_same) (simp add: same_sched_def same_thread_def)
  then have "thr_inv {} (pok_sched_local_invalidate (?u\<lparr>error_list := l\<rparr>))" for l
    using sched_good_inv [OF u] by (simp only: thr_inv_invalidate)
  moreover have "keeps_choice ?u (pok_sched_local_invalidate (?u\<lparr>error_list := l\<rparr>))" for l
    by (simp add: keeps_choice_def same_ctl_def pok_sched_local_invalidate_def)
  ultimately have "sched_good ?u (pok_sched_local_invalidate (?u\<lparr>error_list := l\<rparr>))" for l
    by (simp add: sched_good_def)
  then show ?thesis using s' u by (blast intro: sched_good_trans)
qed

lemma deadline_good:
  assumes "thr_inv {} s" "thread_deadline_occured t s = Some (Return x s')"
  shows "sched_good s s'"
proof -
  have "process_error_partition POK_SYSTEM_STATE_USER POK_ERROR_ID_DEADLINE_MISSED s = Some (Return p s1) \<Longrightarrow> s1 = s" for p s1
    using process_error_cases by fastforce
  then show ?thesis using assms(2) add_error_bit_good [OF assms(1)] sched_good_base(4) [OF assms(1)]
    by (auto simp: thread_deadline_occured_def pok_thread_emit_deadline_missed_def kbind_def kout_of_return
        split: option.splits kout.splits if_splits)
qed

text \<open>The removal of a due event from the queue, and its callback.\<close>

lemma dq_take_facts:
  "dq_take time d = Some (k, d') \<Longrightarrow> dq_active d k \<and> (dq_inv d \<longrightarrow> \<not> dq_active d' k)
     \<and> (\<forall>x. x \<noteq> k \<longrightarrow> dq_active d' x = dq_active d x)
     \<and> dq_handler d' = dq_handler d \<and> dq_process d' = dq_process d"
  by (auto simp: dq_take_def dq_active_def dq_inv_def split: list.splits if_splits)

lemma take_event_good:
  assumes inv: "thr_inv {} s" and t: "dq_take time (partition_delayed_events s) = Some (k, d)"
  shows "sched_good s (s\<lparr>partition_delayed_events := d\<rparr>)"
proof -
  let ?s = "s\<lparr>partition_delayed_events := d\<rparr>"
  note f = dq_take_facts [OF t]
  have d: "dq_inv d" using dq_inv_take [OF _ t] inv by (simp add: thr_inv_def)
  have sub: "dq_active d x \<Longrightarrow> dq_active (partition_delayed_events s) x" for x using f by (cases "x = k") auto
  have "thread_ok ?s u" if "thread_ok s u" for u
    using that sub f by (auto simp: thread_ok_def ordinary_def is_in_wait_queue_def)
  moreover have "may_run ?s u = may_run s u" for u by (simp add: may_run_def ordinary_def)
  ultimately have "thr_inv {} ?s" using inv d by (simp add: thr_inv_def)
  then show ?thesis by (simp add: sched_good_def keeps_choice_def same_ctl_def)
qed

lemma process_event_good:
  assumes inv: "thr_inv {} s" and t: "dq_take time (partition_delayed_events s) = Some (k, d)"
    and p: "process_event (dq_process d k) (dq_handler d k) (s\<lparr>partition_delayed_events := d\<rparr>) = Some (Return x s')"
  shows "sched_good s s'"
proof -
  let ?s = "s\<lparr>partition_delayed_events := d\<rparr>"
  note f = dq_take_facts [OF t] and g = take_event_good [OF inv t]
  obtain u kd where k: "k = (u, kd)" by (cases k)
  have nd: "\<not> dq_active d k" using f inv by (simp add: thr_inv_def)
  have ok: "thread_ok s u" using thr_inv_thread [OF inv] by blast
  show ?thesis
  proof (cases kd)
    case Deadline_event
    then have "dq_process d k = Thread_deadline_occured" using ok f k by (simp add: thread_ok_def)
    then have "thread_deadline_occured (dq_handler d k) ?s = Some (Return () s')"
      using p by (simp add: process_event_def)
    from sched_good_trans [OF g deadline_good [OF sched_good_inv [OF g] this]] show ?thesis .
  next
    case Delayed_event
    then have e: "dq_process d k = Thread_process_delayed_event" "dq_handler d k = u"
      "mode s = POK_PARTITION_MODE_NORMAL" "ordinary s u"
      "thread_delayed_func (threads s u) = Thread_resume_waited \<longrightarrow> suspended (threads s u) \<and> \<not> is_in_wait_queue u s"
      using ok f k by (simp_all add: thread_ok_def)
    have o: "ordinary ?s u" "mode ?s = POK_PARTITION_MODE_NORMAL" using e by (simp_all add: ordinary_def)
    have tp: "thread_process_delayed_event u ?s = Some s'" using p e by (simp add: process_event_def kout_of_return)
    show ?thesis
    proof (cases "thread_delayed_func (threads s u)")
      case Thread_wake_up
      then have w: "thread_wake_up u ?s = Some s'" using tp by (simp add: thread_process_delayed_event_def)
      have "sched_good ?s s'"
        using thread_wake_up_inv [OF sched_good_inv [OF g] o w] wake_up_choice [OF w o(1)] by (simp add: sched_good_def)
      then show ?thesis using g by (rule sched_good_trans [rotated])
    next
      case Thread_resume_waited
      then have w: "thread_resume_waited u ?s = Some s'" using tp by (simp add: thread_process_delayed_event_def)
      have "\<not> dq_active (partition_delayed_events ?s) (u, Delayed_event)" "\<not> is_in_wait_queue u ?s"
        using nd k Delayed_event e(5) Thread_resume_waited by (simp_all add: is_in_wait_queue_def)
      from thread_resume_waited_inv [OF sched_good_inv [OF g] o this w] resume_waited_choice [OF w o(1)]
      have "sched_good ?s s'" by (simp add: sched_good_def)
      then show ?thesis using g by (rule sched_good_trans [rotated])
    qed
  qed
qed

lemma kbind_return: "kbind m f = Some (Return y s') \<longleftrightarrow> (\<exists>x s. m = Some (Return x s) \<and> f x s = Some (Return y s'))"
  by (cases m rule: kbind_cases) auto

subsection \<open>The event loops\<close>

text \<open>A computation that keeps the promise whenever it returns.\<close>

definition returns_good :: "arinc \<Rightarrow> 'a kout option \<Rightarrow> bool" where
  "returns_good s r \<longleftrightarrow> (thr_inv {} s \<longrightarrow> (\<forall>x s'. r = Some (Return x s') \<longrightarrow> sched_good s s'))"

lemma returns_good_bind:
  assumes "returns_good s m" "\<And>x s'. m = Some (Return x s') \<Longrightarrow> returns_good s' (f x s')"
  shows "returns_good s (kbind m f)"
  using assms unfolding returns_good_def by (auto simp: kbind_return intro: sched_good_trans dest: sched_good_inv)

lemma returns_good_frame:
  assumes "thr_inv {} s \<Longrightarrow> sched_good s s1" "returns_good s1 r"
  shows "returns_good s r"
  using assms unfolding returns_good_def by (auto intro: sched_good_trans dest: sched_good_inv)

lemma returns_good_Return [simp]: "returns_good s (Some (Return x s))"
  by (simp add: returns_good_def sched_good_base)

lemma returns_good_None [simp]: "returns_good s None"
  by (simp add: returns_good_def)

lemma check_delayed_events_good: "returns_good s (check_delayed_events time s)"
proof (cases "check_delayed_events time s")
  case (Some r)
  have "returns_good s (Some r)"
  proof (rule check_delayed_events.raw_induct [where P = "\<lambda>_ s r. returns_good s (Some r)", OF _ Some], goal_cases)
    case (1 f time s r)
    show ?case
    proof (cases "dq_take time (partition_delayed_events s)")
      case None
      then show ?thesis using 1(2) by auto
    next
      case (Some kd)
      obtain k d where kd: "kd = (k, d)" by (cases kd)
      have "returns_good s (kbind (process_event (dq_process d k) (dq_handler d k) (s\<lparr>partition_delayed_events := d\<rparr>))
          (\<lambda>_ s. f time s))"
      proof (rule returns_good_bind)
        show "returns_good s (process_event (dq_process d k) (dq_handler d k) (s\<lparr>partition_delayed_events := d\<rparr>))"
          using process_event_good [OF _ Some [unfolded kd]] by (auto simp: returns_good_def)
        show "returns_good s' (f time s')" for s' using 1(1) by (cases "f time s'") simp_all
      qed
      then show ?thesis using 1(2) Some kd by simp
    qed
  qed
  then show ?thesis using Some by simp
qed simp

lemma handle_event_good: "returns_good s (handle_event ev s)"
proof (cases "event_type ev")
  case JET_PARTITION_EVENT_TYPE_TIMER
  have "returns_good s (check_delayed_events (clock s (clock_pos s)) (s\<lparr>clock_pos := clock_pos s + 1\<rparr>))"
    by (rule returns_good_frame [OF sched_good_base(2) check_delayed_events_good])
  then show ?thesis using JET_PARTITION_EVENT_TYPE_TIMER by (simp add: handle_event_def jet_system_time_def)
qed (auto simp: handle_event_def returns_good_def kout_of_return intro: port_queuing_fired_good)

lemma drain_events_good: "returns_good s (drain_events s)"
proof (cases "drain_events s")
  case (Some r)
  have "returns_good s (Some r)"
  proof (rule drain_events.raw_induct [where P = "\<lambda>s r. returns_good s (Some r)", OF _ Some], goal_cases)
    case (1 f s r)
    from 1(2) obtain ev part where e: "pok_partition_get_event (base_part s) = Some (ev, part)"
      and r: "(case ev of None \<Rightarrow> Some (Return () (upd_base (\<lambda>_. part) s))
        | Some ev \<Rightarrow> kbind (handle_event ev (upd_base (\<lambda>_. part) s)) (\<lambda>_ s. f s)) = Some r"
      by (auto simp: bind_Some Let_def)
    have "returns_good (upd_base (\<lambda>_. part) s) (Some r)"
      unfolding r [symmetric]
    proof (cases ev)
      case (Some e)
      have "returns_good s' (f s')" for s' using 1(1) by (cases "f s'") simp_all
      then show "returns_good (upd_base (\<lambda>_. part) s) (case ev of None \<Rightarrow> Some (Return () (upd_base (\<lambda>_. part) s))
        | Some ev \<Rightarrow> kbind (handle_event ev (upd_base (\<lambda>_. part) s)) (\<lambda>_ s. f s))"
        unfolding Some by (auto intro: returns_good_bind handle_event_good)
    qed simp
    from returns_good_frame [OF sched_good_base(1) this] show ?case by blast
  qed
  then show ?thesis using Some by simp
qed simp

lemma sched_events_good: "returns_good s (sched_events s)"
proof (cases "sched_events s")
  case (Some r)
  have "returns_good s (Some r)"
  proof (rule sched_events.raw_induct [where P = "\<lambda>s r. returns_good s (Some r)", OF _ Some], goal_cases)
    case (1 f s r)
    have f: "returns_good s' (f s')" for s' using 1(1) by (cases "f s'") simp_all
    show ?case unfolding 1(2) [symmetric]
    proof (rule returns_good_bind)
      show "returns_good s (if is_event (base_part s) then drain_events (upd_base (\<lambda>part. part\<lparr>is_event := False\<rparr>) s)
          else Some (Return () s))"
        by (auto intro: returns_good_frame [OF sched_good_base(1) drain_events_good])
    next
      fix x and s1 :: arinc
      let ?t = "dq_check_time (partition_delayed_events s1)"
      let ?s = "upd_base (pok_partition_set_timer ?t) s1"
      let ?s2 = "?s\<lparr>clock_pos := clock_pos ?s + 1\<rparr>"
      have "returns_good ?s2 (kbind (check_delayed_events (clock ?s (clock_pos ?s)) ?s2) (\<lambda>_ s. f s))"
        by (intro returns_good_bind check_delayed_events_good f)
      then have "returns_good ?s (let (time_now, s) = jet_system_time ?s in
          if time_now \<ge> ?t then kbind (check_delayed_events time_now s) (\<lambda>_ s. f s) else Some (Return () s))"
        by (auto simp: jet_system_time_def
            intro: returns_good_frame [OF sched_good_base(2)] returns_good_frame [OF sched_good_base(2) returns_good_Return])
      then show "returns_good s1 (let timer_new = ?t; s = upd_base (pok_partition_set_timer timer_new) s1 in
          if timer_new = 0 then Some (Return () s)
          else let (time_now, s) = jet_system_time s in
            if time_now \<ge> timer_new then kbind (check_delayed_events time_now s) (\<lambda>_ s. f s)
            else Some (Return () s))"
        by (auto simp: Let_def intro: returns_good_frame [OF sched_good_base(1)]
            returns_good_frame [OF sched_good_base(1) returns_good_Return])
    qed
  qed
  then show ?thesis using Some by simp
qed simp

subsection \<open>The choice\<close>

text \<open>The implementation of the choice agrees with the specification, and starting the error handler
  keeps the invariant: it is not an ordinary thread.\<close>

lemma error_handler_start_inv:
  assumes "thr_inv {} s" "thread_error s = Some e"
  shows "thr_inv {} (error_handler_start e s)"
proof -
  have no: "\<not> ordinary s e" using assms(2) by (simp add: ordinary_def)
  then have ne: "e \<notin> set (eligible_threads s)" using thr_inv_thread [OF assms(1), of e] by (simp add: may_run_def)
  have "thr_inv {e} (error_handler_start e s)"
    unfolding error_handler_start_def by (rule thr_inv_upd_thread [OF thr_inv_open [OF assms(1) ne]])
  then show ?thesis
    by (rule thr_inv_close) (use no thr_inv_thread [OF assms(1), of e] in
        \<open>auto simp: error_handler_start_def thr_simps is_in_wait_queue_def\<close>)
qed

lemma chosen_cong:
  assumes "mode s' = mode s" "thread_error s' = thread_error s" "lock_level s' = lock_level s"
    "thread_locked s' = thread_locked s" "eligible_threads s' = eligible_threads s" "error_list s' = error_list s"
    "\<And>u. state (threads s' u) = state (threads s u)"
  shows "chosen s' = chosen s"
  by (simp only: chosen_def assms)

lemma sched_choice_spec:
  assumes "sched_choice s = Some (t, s')" "thr_inv {} s"
  shows "t = chosen s \<and> chosen s' = chosen s \<and> thr_inv {} s'
     \<and> sched_local_recheck_needed s' = sched_local_recheck_needed s \<and> thread_current s' = thread_current s"
proof -
  have base: "thr_inv {} (upd_base f s) = thr_inv {} s" for f s by (rule thr_inv_same) simp
  have hd: "(case eligible_threads u of [] \<Rightarrow> None | t # _ \<Rightarrow> Some t) = hd_opt (eligible_threads u)" for u :: arinc
    by (cases "eligible_threads u") simp_all
  show ?thesis
  proof (cases "mode s = POK_PARTITION_MODE_NORMAL \<and> (\<exists>e. thread_error s = Some e \<and> state (threads s e) = POK_STATE_STOPPED
      \<and> error_list s \<noteq> [])")
    case True
    then obtain e where e: "mode s = POK_PARTITION_MODE_NORMAL" "thread_error s = Some e"
      "state (threads s e) = POK_STATE_STOPPED" "error_list s \<noteq> []" by blast
    have s': "t = Some e" "s' = upd_base (\<lambda>part. part\<lparr>is_error_handler := True\<rparr>)
        (error_handler_start e (upd_base (\<lambda>part. part\<lparr>is_error_handler := False\<rparr>) s))"
      using assms(1) e by (simp_all add: sched_choice_def Let_def)
    have "thr_inv {} s'" unfolding s'(2) base
      by (rule error_handler_start_inv) (use assms(2) e(2) in \<open>simp_all add: base\<close>)
    then show ?thesis using e by (simp add: s' chosen_def error_handler_start_def)
  next
    case False
    let ?u = "upd_base (\<lambda>part. part\<lparr>is_error_handler := False\<rparr>) s"
    have ch: "chosen (upd_base f v) = chosen v" for f v by (rule chosen_cong) simp_all
    consider (init) "mode s \<noteq> POK_PARTITION_MODE_NORMAL"
      | (handler) e where "mode s = POK_PARTITION_MODE_NORMAL" "thread_error s = Some e"
          "state (threads s e) \<noteq> POK_STATE_STOPPED"
      | (other) "mode s = POK_PARTITION_MODE_NORMAL" "error_list s = []"
          "\<forall>e. thread_error s = Some e \<longrightarrow> state (threads s e) = POK_STATE_STOPPED"
      | (none) "mode s = POK_PARTITION_MODE_NORMAL" "error_list s \<noteq> []" "thread_error s = None"
      using False by (cases "thread_error s") auto
    then show ?thesis
    proof cases
      case init
      then have "s' = ?u" "t = chosen s"
        using assms(1) by (auto simp: sched_choice_def Let_def chosen_def split: if_splits)
      then show ?thesis using assms(2) by (simp add: base ch)
    next
      case handler
      have "sched_choice s = Some (Some e, upd_base (\<lambda>part. part\<lparr>is_error_handler := True\<rparr>) ?u)" "chosen s = Some e"
        using handler by (simp_all add: sched_choice_def Let_def chosen_def)
      then have "s' = upd_base (\<lambda>part. part\<lparr>is_error_handler := True\<rparr>) ?u" "t = chosen s"
        using assms(1) by simp_all
      then show ?thesis using assms(2) by (simp add: base ch)
    next
      case other
      then have "s' = ?u" "t = chosen s"
        using assms(1) by (auto simp: sched_choice_def Let_def chosen_def hd split: if_splits option.splits)
      then show ?thesis using assms(2) by (simp add: base ch)
    next
      case none
      then show ?thesis using assms(1) by (simp add: sched_choice_def Let_def)
    qed
  qed
qed

lemma msection_frame:
  "chosen (upd_msection w f s) = chosen s" "chosen (s\<lparr>waiting_section := x\<rparr>) = chosen s"
  "chosen (s\<lparr>thread_selected := y\<rparr>) = chosen s"
  "chosen (upd_thread t (\<lambda>th. th\<lparr>msection_entering := z\<rparr>) s) = chosen s"
  "chosen (upd_thread t (\<lambda>th. th\<lparr>sp := b\<rparr>) s) = chosen s"
  "chosen (s\<lparr>thread_current := c\<rparr>) = chosen s" "chosen (s\<lparr>kshd_current_thread_id := c\<rparr>) = chosen s"
  "chosen (s\<lparr>idle_sp := d\<rparr>) = chosen s" "chosen (s\<lparr>sched_local_recheck_needed := False\<rparr>) = chosen s"
  by (rule chosen_cong; simp add: upd_msection_def upd_thread_def)+

lemma msection_frame_inv:
  "thr_inv {} (upd_msection w f s) = thr_inv {} s" "thr_inv {} (s\<lparr>waiting_section := x\<rparr>) = thr_inv {} s"
  "thr_inv {} (s\<lparr>thread_selected := y\<rparr>) = thr_inv {} s"
  "thr_inv {} (upd_thread t (\<lambda>th. th\<lparr>msection_entering := z\<rparr>) s) = thr_inv {} s"
  "thr_inv {} (upd_thread t (\<lambda>th. th\<lparr>sp := b\<rparr>) s) = thr_inv {} s"
  "thr_inv {} (s\<lparr>thread_current := c\<rparr>) = thr_inv {} s" "thr_inv {} (s\<lparr>kshd_current_thread_id := c\<rparr>) = thr_inv {} s"
  "thr_inv {} (s\<lparr>idle_sp := d\<rparr>) = thr_inv {} s"
  by (rule thr_inv_same; simp add: same_sched_def same_thread_def upd_msection_def upd_thread_def)+

lemma thr_inv_recheck: "thr_inv {} (s\<lparr>sched_local_recheck_needed := b\<rparr>) = thr_inv {} s"
  by (simp add: thr_inv_def thr_simps is_in_wait_queue_def)

text \<open>What the walk along the owners changes.\<close>

definition selects_like :: "arinc \<Rightarrow> arinc \<Rightarrow> bool" where
  "selects_like s s' \<longleftrightarrow> chosen s' = chosen s \<and> thr_inv {} s' = thr_inv {} s
     \<and> sched_local_recheck_needed s' = sched_local_recheck_needed s \<and> thread_selected s' = thread_selected s
     \<and> thread_current s' = thread_current s"

lemma selects_like_trans: "selects_like s t \<Longrightarrow> selects_like t u \<Longrightarrow> selects_like s u"
  by (simp add: selects_like_def)

lemma selects_like_frame [simp]:
  "selects_like s (upd_msection w f s)" "selects_like s (s\<lparr>waiting_section := x\<rparr>)"
  "selects_like s (upd_thread t (\<lambda>th. th\<lparr>msection_entering := z\<rparr>) s)" "selects_like s s"
  by (simp_all add: selects_like_def msection_frame msection_frame_inv) (simp_all add: upd_msection_def upd_thread_def)

lemma select_owner_like: "select_owner n ws t s = Some (u, s') \<Longrightarrow> selects_like s s'"
proof (induction n ws t s rule: select_owner.induct)
  case (1 n ws t s)
  show ?case
  proof (cases "owner (msections s ws) = None \<or> owner (msections s ws) = Some t")
    case True
    then have "s' = upd_thread t (\<lambda>th. th\<lparr>msection_entering := None\<rparr>) (upd_msection ws (\<lambda>m. m\<lparr>owner := Some t\<rparr>) s)"
      using 1(2) by (auto simp: select_owner.simps)
    then show ?thesis using selects_like_trans [OF selects_like_frame(1) selects_like_frame(3)] by simp
  next
    case False
    then obtain own where own: "owner (msections s ws) = Some own" by (cases "owner (msections s ws)") auto
    let ?s = "s\<lparr>waiting_section := Some ws\<rparr>"
    have s': "own < nthreads_used s" "0 < own" "state (threads s own) = POK_STATE_RUNNABLE"
      "(case n of 0 \<Rightarrow> None | Suc m \<Rightarrow> (case msection_entering (threads ?s own) of None \<Rightarrow> Some (own, ?s)
         | Some ws \<Rightarrow> select_owner m ws own ?s)) = Some (u, s')"
      using 1(2) False own
      by (auto simp: select_owner.simps [of n ws t s] Let_def kassert_def split: if_splits)
    then obtain m where m: "n = Suc m" by (cases n) auto
    show ?thesis
    proof (cases "msection_entering (threads ?s own)")
      case None
      then show ?thesis using s'(4) m by auto
    next
      case (Some ws')
      then have r: "select_owner m ws' own ?s = Some (u, s')" using s'(4) m by simp
      have "selects_like ?s s'"
        using 1(1) [OF False own _ _ _ refl m _ r, of "()" "()" "()"] s'(1-3) Some own by simp
      then show ?thesis using selects_like_trans [OF selects_like_frame(2)] by blast
    qed
  qed
qed

lemma clear_waiting_section_like: "selects_like s (clear_waiting_section s)"
  unfolding clear_waiting_section_def
  by (auto split: option.splits intro: selects_like_trans [OF selects_like_frame(1) selects_like_frame(2)])

lemma select_thread_spec:
  assumes "select_thread t s = Some (u, s')"
  shows "chosen s' = chosen s \<and> thr_inv {} s' = thr_inv {} s \<and> thread_selected s' = t
     \<and> sched_local_recheck_needed s' = sched_local_recheck_needed s"
proof -
  let ?s = "s\<lparr>thread_selected := t\<rparr>"
  have "selects_like ?s s'"
  proof (cases t)
    case None
    then show ?thesis using assms clear_waiting_section_like by (auto simp: select_thread_def Let_def)
  next
    case (Some x)
    let ?c = "clear_waiting_section ?s"
    let ?new = "case donate_target (threads ?c x) of None \<Rightarrow> x | Some u \<Rightarrow> u"
    from assms Some obtain new s2 where sel: "(case msection_entering (threads ?c ?new) of None \<Rightarrow> Some (?new, ?c)
         | Some ws \<Rightarrow> select_owner 5 ws ?new ?c) = Some (new, s2)"
      and s': "s' = (case waiting_section s2 of None \<Rightarrow> s2
         | Some ws \<Rightarrow> upd_msection ws (\<lambda>m. m\<lparr>msection_kernel_flags := MSECTION_KERNEL_FLAG_RESCHED_AFTER_LEAVE\<rparr>) s2)"
      by (auto simp: select_thread_def Let_def bind_Some)
    have "selects_like ?c s2" using sel select_owner_like by (auto split: option.splits)
    moreover have "selects_like s2 s'" using s' by (auto split: option.splits)
    ultimately show ?thesis using clear_waiting_section_like selects_like_trans by blast
  qed
  then show ?thesis by (simp add: selects_like_def msection_frame msection_frame_inv)
qed

lemma sched_switch_spec:
  assumes "sched_switch t s = Some (r, s')"
  shows "chosen s' = chosen s \<and> thr_inv {} s' = thr_inv {} s \<and> thread_selected s' = thread_selected s
     \<and> sched_local_recheck_needed s' = sched_local_recheck_needed s \<and> thread_current s' = t"
proof -
  have sp: "thread_selected (upd_thread x f s) = thread_selected s" for x f s by (simp add: upd_thread_def)
  have init: "chosen (context_init t s) = chosen s \<and> thr_inv {} (context_init t s) = thr_inv {} s
     \<and> thread_selected (context_init t s) = thread_selected s
     \<and> sched_local_recheck_needed (context_init t s) = sched_local_recheck_needed s
     \<and> thread_current (context_init t s) = thread_current s" for s
    by (cases t) (simp_all add: context_init_def msection_frame msection_frame_inv sp)
  show ?thesis
  proof (cases "t = thread_current s")
    case True
    then show ?thesis using assms
      by (auto simp: sched_switch_def kassert_def msection_frame msection_frame_inv sp split: option.splits if_splits)
  next
    case False
    define s1 where "s1 = (let s = s\<lparr>thread_current := t\<rparr> in
        if t \<noteq> None then s\<lparr>kshd_current_thread_id := t\<rparr> else s)"
    have s1: "chosen s1 = chosen s" "thr_inv {} s1 = thr_inv {} s" "thread_selected s1 = thread_selected s"
      "sched_local_recheck_needed s1 = sched_local_recheck_needed s" "thread_current s1 = t"
      by (simp_all add: s1_def Let_def msection_frame msection_frame_inv)
    have "s' = (if context_present t s1 then s1 else context_init t s1)"
      using assms False unfolding sched_switch_def Let_def s1_def by (simp split: if_splits)
    then show ?thesis using s1 init [of s1] by (simp split: if_splits)
  qed
qed

lemma sched_arinc_settles:
  assumes "sched_arinc s = Some (Return r s')" "thr_inv {} s" "settled s"
  shows "thr_inv {} s' \<and> thread_selected s' = chosen s' \<and> \<not> sched_local_recheck_needed s'"
proof -
  from assms(1) obtain x s1 where ev: "sched_events s = Some (Return x s1)"
    and r: "(if \<not> sched_local_recheck_needed s1 then Some (Return Stay s1)
       else do {
         let s = s1\<lparr>sched_local_recheck_needed := False\<rparr>;
         kassert (mode s \<noteq> POK_PARTITION_MODE_IDLE);
         (t, s) \<leftarrow> sched_choice s;
         (t, s) \<leftarrow> select_thread t s;
         (r, s) \<leftarrow> sched_switch t s;
         Some (Return r s)
       }) = Some (Return r s')"
    by (auto simp: sched_arinc_def kbind_return)
  have g: "sched_good s s1" using sched_events_good [of s] ev assms(2) by (auto simp: returns_good_def)
  have inv: "thr_inv {} s1" and st: "settled s1"
    using g keeps_choice_settled assms(3) by (auto simp: sched_good_def)
  show ?thesis
  proof (cases "sched_local_recheck_needed s1")
    case False
    then show ?thesis using r inv st by (simp add: settled_def)
  next
    case True
    let ?s = "s1\<lparr>sched_local_recheck_needed := False\<rparr>"
    obtain t s2 u s3 where c: "sched_choice ?s = Some (t, s2)" and sl: "select_thread t s2 = Some (u, s3)"
      and sw: "sched_switch u s3 = Some (r, s')"
      using r True by (auto simp: bind_Some Let_def kassert_def split: if_splits)
    have i: "thr_inv {} ?s" using inv by (simp add: thr_inv_recheck)
    show ?thesis
      using sched_choice_spec [OF c i] select_thread_spec [OF sl] sched_switch_spec [OF sw] by simp
  qed
qed

lemma local_enable_settles:
  assumes "pok_preemption_local_enable s = Some (Return x s')" and "thr_inv {} s" and "settled s"
  shows "thr_inv {} s' \<and> thread_selected s' = chosen s' \<and> \<not> preempt_local_disabled (base_part s')
     \<and> \<not> is_event (base_part s')"
proof -
  have base: "thr_inv {} (upd_base f s) = thr_inv {} s" "chosen (upd_base f s) = chosen s"
    "thread_selected (upd_base f s) = thread_selected s" for f s
    by (rule thr_inv_same, simp) (rule chosen_cong, simp_all add: upd_base_def)
  have loop: "local_enable_loop s = Some (Return x s')" using assms(1)
    by (auto simp: pok_preemption_local_enable_def kassert_def split: if_splits)
  have "thr_inv {} s \<longrightarrow> settled s \<longrightarrow> thr_inv {} s' \<and> thread_selected s' = chosen s'
      \<and> \<not> preempt_local_disabled (base_part s') \<and> \<not> is_event (base_part s')"
  proof (rule local_enable_loop.raw_induct [where P = "\<lambda>s r. \<forall>x s'. r = Return x s' \<longrightarrow> thr_inv {} s \<longrightarrow>
      settled s \<longrightarrow> thr_inv {} s' \<and> thread_selected s' = chosen s'
      \<and> \<not> preempt_local_disabled (base_part s') \<and> \<not> is_event (base_part s')", OF _ loop, THEN spec, THEN spec, THEN mp, OF _ refl],
      intro allI impI, goal_cases)
    case (1 f s r x s')
    let ?off = "upd_base (\<lambda>part. part\<lparr>preempt_local_disabled := False\<rparr>)"
      and ?on = "upd_base (\<lambda>part. part\<lparr>preempt_local_disabled := True\<rparr>)"
    from 1(2,3) obtain sw s1 where sw: "sched_arinc s = Some (Return sw s1)"
      and r: "(if is_event (base_part (?off s1)) then f (?on (?off s1)) else Some (Return () (?off s1))) = Some (Return x s')"
      by (auto simp: kbind_return Let_def)
    note st = sched_arinc_settles [OF sw 1(4,5)]
    show ?case
    proof (cases "is_event (base_part (?off s1))")
      case True
      then have "f (?on (?off s1)) = Some (Return x s')" using r by simp
      from 1(1) [OF this, THEN spec, THEN spec, THEN mp, OF refl] st show ?thesis by (simp add: base settled_def)
    next
      case False
      then have "s' = ?off s1" using r by simp
      then show ?thesis using st False by (simp add: base)
    qed
  qed
  then show ?thesis using assms(2,3) by blast
qed

text \<open>
  C16: a critical section that ends, whatever timers, ports and errors were served at its end,
  leaves the invariant of the local scheduler, no event unserved, preemption enabled, and the
  right thread selected: before normal mode the main thread, the error handler while it is active
  or has errors, the holder of the preemption lock, or else a thread that may run with no thread of
  higher priority that may run; none is selected only if none may run. It is assumed that at the
  beginning a wrong selection is marked by the flag for a new check, as all operations promise.
\<close>

theorem local_enable_selects:
  assumes "pok_preemption_local_enable s = Some (Return x s')" and "thr_inv {} s" and "settled s"
  shows "thr_inv {} s' \<and> settled s' \<and> thread_selected s' = chosen s'
     \<and> \<not> preempt_local_disabled (base_part s') \<and> \<not> is_event (base_part s')
     \<and> (mode s' = POK_PARTITION_MODE_NORMAL \<and> thread_error s' = None \<and> lock_level s' = 0 \<longrightarrow>
          (case thread_selected s' of
             None \<Rightarrow> \<forall>u. \<not> may_run s' u
           | Some t \<Rightarrow> may_run s' t \<and> (\<forall>u. may_run s' u \<longrightarrow> priority (threads s' u) \<le> priority (threads s' t))))"
proof -
  note res = local_enable_settles [OF assms]
  have "thread_selected s' = hd_opt (eligible_threads s')"
    if "mode s' = POK_PARTITION_MODE_NORMAL" "thread_error s' = None" "lock_level s' = 0"
    using res that by (simp add: chosen_def)
  then show ?thesis using res highest_first [of s'] by (auto simp: settled_def)
qed

text \<open>The example partition at the end of a critical section in which thread 2 became eligible.\<close>

definition example_leaving :: arinc where
  "example_leaving = upd_base (\<lambda>part. part\<lparr>preempt_local_disabled := True\<rparr>)
     (example_arinc\<lparr>sched_local_recheck_needed := True, thread_selected := Some 1, thread_current := Some 1\<rparr>)"

theorem local_enable_selects_witness:
  "\<exists>s'. pok_preemption_local_enable example_leaving = Some (Return () s') \<and> thread_selected s' = Some 2
     \<and> thread_current s' = Some 2 \<and> thread_selected s' = chosen s'"
proof -
  have inv: "thr_inv {} example_leaving" and set: "settled example_leaving"
  proof -
    have "thr_inv {} example_leaving = thr_inv {} (pok_sched_local_invalidate example_arinc)"
      by (rule thr_inv_same) (simp add: same_sched_def same_thread_def example_leaving_def upd_base_def)
    then show "thr_inv {} example_leaving" using example_arinc_inv by (simp add: thr_inv_invalidate)
    show "settled example_leaving" by (simp add: settled_def example_leaving_def upd_base_def)
  qed
  obtain s' where s': "pok_preemption_local_enable example_leaving = Some (Return () s')"
    "thread_selected s' = Some 2" "thread_current s' = Some 2"
    by (simp add: pok_preemption_local_enable_def kassert_def local_enable_loop.simps sched_arinc_def
        sched_events.simps sched_choice_def select_thread_def sched_switch_def Let_def example_leaving_def
        clear_waiting_section_def context_present_def upd_base_def example_arinc_def example_parts_def example_partition_def
        example_sched_def example_thread_def dq_check_time_def pok_partition_set_timer_def)
  then show ?thesis using local_enable_selects [OF s'(1) inv set] by blast
qed

end
