(* ===== verification/ThreadCalls.thy ===== *)
theory ThreadCalls
  imports ThreadApi SchedChoice
begin

section \<open>System calls on threads keep the local scheduler right\<close>

text \<open>
  Every system call of \<open>ThreadApi\<close>, made by a running thread, keeps the invariant of the local
  scheduler and the promise that a change of the thread to be run is announced. With the last
  property of \<open>SchedChoice\<close>, the end of the critical section then selects the right thread.
\<close>

subsection \<open>Frames\<close>

lemma upd_tshd_simps [simp]:
  "threads (upd_tshd t f s) = threads s" "mode (upd_tshd t f s) = mode s"
  "eligible_threads (upd_tshd t f s) = eligible_threads s" "nthreads_used (upd_tshd t f s) = nthreads_used s"
  "nthreads (upd_tshd t f s) = nthreads s" "thread_error (upd_tshd t f s) = thread_error s"
  "partition_delayed_events (upd_tshd t f s) = partition_delayed_events s"
  "ports_queuing (upd_tshd t f s) = ports_queuing s" "thread_current (upd_tshd t f s) = thread_current s"
  "sched_local_recheck_needed (upd_tshd t f s) = sched_local_recheck_needed s"
  "gsched (upd_tshd t f s) = gsched s" "error_list (upd_tshd t f s) = error_list s"
  "lock_level (upd_tshd t f s) = lock_level s" "thread_locked (upd_tshd t f s) = thread_locked s"
  "thread_selected (upd_tshd t f s) = thread_selected s"
  by (simp_all add: upd_tshd_def)

lemma same_sched_tshd [simp]: "same_sched s (upd_tshd t f s)"
  by (simp add: same_sched_def same_thread_def)

lemma thr_inv_tshd [simp]: "thr_inv X (upd_tshd t f s) = thr_inv X s"
  by (rule thr_inv_same) simp

lemma frames_tshd:
  "is_in_wait_queue u (upd_tshd t f s) = is_in_wait_queue u s" "ordinary (upd_tshd t f s) u = ordinary s u"
  "deadline_ok (upd_tshd t f s) u = deadline_ok s u"
  by (simp_all add: is_in_wait_queue_def ordinary_def deadline_ok_def)

text \<open>The step from the call to its critical section.\<close>

lemma local_disable_spec:
  assumes "pok_preemption_local_disable s = Some s'"
  shows "s' = upd_base (\<lambda>part. part\<lparr>preempt_local_disabled := True\<rparr>) s"
  using assms by (simp add: pok_preemption_local_disable_def kassert_def split: if_splits)

lemma upd_base_frame:
  "thr_inv X (upd_base f s) = thr_inv X s" "settled (upd_base f s) = settled s"
  "ordinary (upd_base f s) t = ordinary s t" "deadline_ok (upd_base f s) t = deadline_ok s t"
  "get_thread_by_id n (upd_base f s) = get_thread_by_id n s"
proof -
  show "thr_inv X (upd_base f s) = thr_inv X s" by (rule thr_inv_same) simp
  have "chosen (upd_base f s) = chosen s" by (rule chosen_cong) (simp_all add: upd_base_def)
  then show "settled (upd_base f s) = settled s" by (simp add: settled_def upd_base_def)
qed (simp_all add: ordinary_def deadline_ok_def get_thread_by_id_def upd_base_def)

subsection \<open>One operation\<close>

text \<open>What every call has to establish, and a way to establish its second half: only the state of
  ordinary threads has changed.\<close>

definition call_good :: "arinc \<Rightarrow> bool" where
  "call_good s \<longleftrightarrow> thr_inv {} s \<and> settled s"

lemma call_good_base [simp]: "call_good (upd_base f s) = call_good s"
  by (simp add: call_good_def upd_base_frame)

definition same_rest :: "arinc \<Rightarrow> arinc \<Rightarrow> bool" where
  "same_rest s s' \<longleftrightarrow> same_ctl s s' \<and> error_list s' = error_list s
     \<and> (\<forall>u. \<not> ordinary s u \<longrightarrow> state (threads s' u) = state (threads s u))"

lemma same_rest_refl [simp]: "same_rest s s"
  by (simp add: same_rest_def same_ctl_def)

lemma settled_rest: "keeps_first s s' \<Longrightarrow> same_rest s s' \<Longrightarrow> settled s \<Longrightarrow> settled s'"
  by (rule keeps_choice_settled [OF keeps_choiceI]) (simp_all add: same_rest_def)

lemma settled_invalidate [simp]: "settled (pok_sched_local_invalidate s)"
  by (simp add: settled_def)

lemma same_rest_step:
  assumes "same_rest s t" "same_ctl t u" "error_list u = error_list t"
    "\<And>x. \<not> ordinary s x \<Longrightarrow> state (threads u x) = state (threads t x)"
  shows "same_rest s u"
  using assms by (auto simp: same_rest_def intro: same_ctl_trans)

lemma same_rest_frame:
  "same_rest s u \<Longrightarrow> ordinary s t \<Longrightarrow> same_rest s (upd_thread t f u)"
  "same_rest s u \<Longrightarrow> (\<And>th. state (f th) = state th) \<Longrightarrow> same_rest s (upd_thread t f u)"
  "same_rest s u \<Longrightarrow> same_rest s (upd_events g u)"
  "same_rest s u \<Longrightarrow> same_rest s (upd_tshd t h u)"
  "same_rest s u \<Longrightarrow> same_rest s (u\<lparr>clock_pos := n\<rparr>)"
  "same_rest s u \<Longrightarrow> same_rest s (thread_set_uneligible t u)"
  by (erule same_rest_step; auto simp: same_ctl_def upd_thread_def upd_events_def upd_tshd_def
      thread_set_uneligible_def pok_sched_local_invalidate_def Let_def)+

lemma same_rest_set_eligible:
  "same_rest s u \<Longrightarrow> thread_set_eligible t u = Some u' \<Longrightarrow> same_rest s u'"
  using set_eligible_ctl [of t u u'] by (auto intro: same_rest_step)

lemmas same_rest_ord = same_rest_frame(1,3-6)

lemma same_rest_wait: "same_rest s u \<Longrightarrow> ordinary s t \<Longrightarrow> thread_wait t u = Some u' \<Longrightarrow> same_rest s u'"
  unfolding thread_wait_def kassert_def by (auto intro!: same_rest_ord split: if_splits)

lemma same_rest_delay: "same_rest s u \<Longrightarrow> ordinary s t \<Longrightarrow> same_rest s (thread_delay_event t time f u)"
  unfolding thread_delay_event_def by (intro same_rest_ord)

lemma same_rest_wait_timed:
  "same_rest s u \<Longrightarrow> ordinary s t \<Longrightarrow> thread_wait_timed t time u = Some u' \<Longrightarrow> same_rest s u'"
  by (auto simp: thread_wait_timed_def kassert_def bind_Some intro: same_rest_delay same_rest_wait split: if_splits)

lemma same_rest_wait_common:
  assumes "same_rest s u" "ordinary s t" "thread_wait_common t time u = Some u'"
  shows "same_rest s u'"
proof (cases "pok_time_is_infinity time")
  case True
  then show ?thesis using assms same_rest_wait by (simp add: thread_wait_common_def kassert_def split: if_splits)
next
  case False
  then have "thread_wait_timed t (time_add (clock u (clock_pos u)) time) (u\<lparr>clock_pos := clock_pos u + 1\<rparr>) = Some u'"
    using assms(3) by (simp add: thread_wait_common_def jet_system_time_def kassert_def split: if_splits)
  from same_rest_wait_timed [OF same_rest_frame(5) [OF assms(1)] assms(2) this] show ?thesis .
qed

lemma same_rest_start: "same_rest s u \<Longrightarrow> ordinary s t \<Longrightarrow> thread_start t u = Some u' \<Longrightarrow> same_rest s u'"
  by (auto simp: thread_start_def Let_def intro: same_rest_frame same_rest_set_eligible split: if_splits)

lemma same_rest_yield: "same_rest s u \<Longrightarrow> thread_yield t u = Some u' \<Longrightarrow> same_rest s u'"
  by (auto simp: thread_yield_eq intro: same_rest_frame same_rest_set_eligible split: if_splits)

lemma same_rest_suspend: "same_rest s u \<Longrightarrow> same_rest s (thread_suspend t u)"
  unfolding thread_suspend_def by (intro same_rest_frame) simp_all

lemma same_rest_suspend_timed:
  "same_rest s u \<Longrightarrow> ordinary s t \<Longrightarrow> thread_suspend_timed t time u = Some u' \<Longrightarrow> same_rest s u'"
  by (auto simp: thread_suspend_timed_def jet_system_time_def bind_Some Let_def
      intro!: same_rest_delay same_rest_ord intro: same_rest_wait [OF same_rest_suspend])

lemma same_rest_resume:
  assumes "same_rest s u" "ordinary s t" "thread_resume t u = Some u'"
  shows "same_rest s u'"
proof -
  define v where "v = upd_thread t (\<lambda>th. th\<lparr>suspended := False\<rparr>) u"
  define w where "w = upd_thread t (\<lambda>th. th\<lparr>wait_result := POK_ERRNO_OK\<rparr>)
      (thread_delay_event_cancel t (upd_thread t (\<lambda>th. th\<lparr>state := POK_STATE_RUNNABLE\<rparr>) v))"
  have v: "same_rest s v" unfolding v_def by (intro same_rest_ord assms(1,2))
  have w: "same_rest s w" unfolding w_def thread_delay_event_cancel_def by (intro same_rest_ord v assms(2))
  from assms(3) have "u' \<in> {v, w} \<or> thread_set_eligible t v = Some u' \<or> thread_set_eligible t w = Some u'"
    by (simp add: thread_resume_def Let_def v_def w_def split: if_splits)
  then show ?thesis using v w same_rest_set_eligible by blast
qed

subsection \<open>The caller and its target\<close>

text \<open>The thread that makes a system call: before normal mode it is the main thread, which holds
  the preemption lock and no other thread has entered a section.\<close>

definition running :: "arinc \<Rightarrow> nat \<Rightarrow> bool" where
  "running s t \<longleftrightarrow> thread_current s = Some t \<and> t < nthreads_used s \<and> state (threads s t) = POK_STATE_RUNNABLE
     \<and> (t = MAIN \<longleftrightarrow> mode s \<noteq> POK_PARTITION_MODE_NORMAL)
     \<and> (mode s \<noteq> POK_PARTITION_MODE_NORMAL \<longrightarrow> lock_level s \<noteq> 0
          \<and> (\<forall>u. ordinary s u \<longrightarrow> msection_count (tshd s u) = 0))
     \<and> (\<forall>e. thread_error s = Some e \<longrightarrow> e < nthreads_used s)"

lemma running_base [simp]: "running (upd_base f s) t = running s t"
  by (simp add: running_def upd_base_frame)

lemma get_thread_ordinary: "get_thread_by_id n s = Some t \<longleftrightarrow> t = n \<and> ordinary s n"
  by (auto simp: get_thread_by_id_def ordinary_def)

lemma waiting_allowed_ordinary:
  "running s t \<Longrightarrow> thread_is_waiting_allowed s = Some True \<Longrightarrow> ordinary s t \<and> mode s = POK_PARTITION_MODE_NORMAL"
  by (auto simp: running_def thread_is_waiting_allowed_def ordinary_def split: if_splits)

lemma idle_thread:
  assumes "thr_inv {} s" "state (threads s t) \<noteq> POK_STATE_WAITING"
  shows "\<not> dq_active (partition_delayed_events s) (t, Delayed_event)" "\<not> is_in_wait_queue t s"
  using thr_inv_thread [OF assms(1), of t] assms(2) by (auto simp: thread_ok_def)

lemma call_good_rest:
  "call_good s \<Longrightarrow> keeps_first s s' \<Longrightarrow> same_rest s s' \<Longrightarrow> thr_inv {} s' \<Longrightarrow> call_good s'"
  unfolding call_good_def using settled_rest by blast

subsection \<open>The calls one by one\<close>

lemma wait_common_good:
  assumes "call_good s" "ordinary s t" "state (threads s t) = POK_STATE_RUNNABLE" "thread_wait_common t time s = Some s'"
  shows "call_good s'"
proof (rule call_good_rest [OF assms(1)])
  have inv: "thr_inv {} s" using assms(1) by (simp add: call_good_def)
  show "thr_inv {} s'"
    by (rule thread_wait_common_inv [OF inv _ assms(2) thr_inv_deadline_ok [OF inv] _ assms(4)])
      (use idle_thread [OF inv, of t] assms(3) in auto)
  show "same_rest s s'" by (rule same_rest_wait_common [OF same_rest_refl assms(2,4)])
  have timed: "thread_wait_timed t tp u = Some u' \<Longrightarrow> keeps_first u u'" for tp u u'
    by (auto simp: thread_wait_timed_def bind_Some intro: keeps_first_trans [OF keeps_first_wait keeps_first_frame(5)] split: if_splits)
  have "keeps_first s (s\<lparr>clock_pos := n\<rparr>)" for n by (simp add: keeps_first_def)
  then show "keeps_first s s'" using assms(4) timed keeps_first_trans
    by (fastforce simp: thread_wait_common_def jet_system_time_def intro: keeps_first_wait split: if_splits)
qed

lemma yield_good:
  assumes "call_good s" "thread_yield t (upd_thread t f s) = Some s'"
    and f: "\<And>th. state (f th) = state th \<and> suspended (f th) = suspended th \<and> thread_delayed_func (f th) = thread_delayed_func th"
  shows "call_good s'"
proof (rule call_good_rest [OF assms(1)])
  show "thr_inv {} s'" using thread_yield_inv [OF _ f assms(2)] assms(1) by (simp add: call_good_def)
  show "same_rest s s'" by (rule same_rest_yield [OF same_rest_frame(2) [OF same_rest_refl] assms(2)]) (simp add: f)
  show "keeps_first s s'" by (rule keeps_first_trans [OF keeps_first_frame(1) keeps_first_yield [OF assms(2)]])
qed

lemma suspend_good: "call_good s \<Longrightarrow> call_good (thread_suspend t s)"
  using call_good_rest [OF _ keeps_first_suspend same_rest_suspend [OF same_rest_refl]]
  by (simp add: call_good_def thread_suspend_inv)

lemma suspend_timed_good:
  assumes "call_good s" "ordinary s t" "state (threads s t) = POK_STATE_RUNNABLE" "thread_suspend_timed t time s = Some s'"
  shows "call_good s'"
proof (rule call_good_rest [OF assms(1)])
  show "thr_inv {} s'" using thread_suspend_timed_inv [OF _ assms(2,3,4)] assms(1) by (simp add: call_good_def)
  show "same_rest s s'" by (rule same_rest_suspend_timed [OF same_rest_refl assms(2,4)])
  from assms(4) obtain y where y: "thread_wait t (thread_suspend t s) = Some y"
    and s': "s' = thread_delay_event t (time_add (clock y (clock_pos y)) time) Thread_resume_waited
      (y\<lparr>clock_pos := clock_pos y + 1\<rparr>)"
    by (auto simp: thread_suspend_timed_def jet_system_time_def bind_Some Let_def)
  have "keeps_first y (y\<lparr>clock_pos := n\<rparr>)" for n by (simp add: keeps_first_def)
  then show "keeps_first s s'" unfolding s'
    by (rule keeps_first_trans [OF keeps_first_trans [OF keeps_first_trans [OF keeps_first_suspend keeps_first_wait [OF y]]]
          keeps_first_frame(5)])
qed

lemma resume_good:
  assumes "call_good s" "ordinary s t" "suspended (threads s t)" "thread_resume t s = Some s'"
  shows "call_good s'"
proof (rule call_good_rest [OF assms(1) keeps_first_resume [OF assms(4)] same_rest_resume [OF same_rest_refl assms(2,4)]])
  have inv: "thr_inv {} s" using assms(1) by (simp add: call_good_def)
  show "thr_inv {} s'"
  proof (cases "mode s = POK_PARTITION_MODE_NORMAL")
    case True
    then show ?thesis by (rule thread_resume_inv [OF inv assms(2) _ assms(3,4)])
  next
    case False
    let ?u = "upd_thread t (\<lambda>th. th\<lparr>suspended := False\<rparr>) s"
    have ok: "thread_ok s t" "t \<notin> set (eligible_threads s)" using thr_inv_thread [OF inv, of t] False by (simp_all add: may_run_def)
    then have s': "s' = ?u" using assms(2,4) False by (auto simp: thread_resume_def thread_ok_def Let_def)
    have "\<not> may_run ?u t" "thread_ok ?u t" using ok(1) False by (auto simp: thr_simps)
    then show ?thesis unfolding s'
      using thr_inv_close [OF thr_inv_upd_thread [OF thr_inv_open [OF inv ok(2)]]] by blast
  qed
qed

lemma stop_good:
  assumes "call_good s" "ordinary s t" "thread_stop t s = Some s'"
  shows "call_good s'"
proof -
  have inv: "thr_inv {} s'" using thread_stop_inv [OF _ empty_subsetI assms(3)] assms(1) by (simp add: call_good_def)
  define u where "u = pok_thread_wq_remove t (upd_events (dq_remove (t, Deadline_event))
     (thread_delay_event_cancel t (thread_set_uneligible t (upd_thread t (\<lambda>th. th\<lparr>state := POK_STATE_STOPPED\<rparr>) s))))"
  have s': "s' = upd_thread t (\<lambda>th. th\<lparr>msection_entering := None\<rparr>) (thread_stop_recoverable t (thread_stop_unlock t u))"
    using assms(3) by (simp add: thread_stop_def u_def kassert_def Let_def split: if_splits)
  have u: "same_rest s u" unfolding u_def thread_delay_event_cancel_def
    by (rule same_rest_step [OF _ same_ctl_frame(3)])
      (intro same_rest_ord same_rest_refl assms(2), simp_all add: error_list_frame)
  show ?thesis
  proof (cases "lock_level u \<noteq> 0 \<and> thread_locked u = Some t")
    case True
    then have "sched_local_recheck_needed s'"
      unfolding s' by (simp add: thread_stop_unlock_def thread_stop_recoverable_def)
    then show ?thesis using inv by (simp add: call_good_def settled_def)
  next
    case False
    have rec: "same_rest s (thread_stop_recoverable t v)" if "same_rest s v" for v
      by (rule same_rest_step [OF that]) (auto simp: thread_stop_recoverable_def same_ctl_def upd_thread_def)
    have un: "thread_stop_unlock t u = u" using False by (auto simp: thread_stop_unlock_def)
    have "same_rest s s'" unfolding s' un by (rule same_rest_ord(1) [OF rec [OF u] assms(2)])
    from call_good_rest [OF assms(1) keeps_first_stop [OF assms(3)] this inv] show ?thesis .
  qed
qed

text \<open>The part of a start that both kinds of threads share: a stopped thread whose fields and timers
  have been set.\<close>

definition start_ready :: "arinc \<Rightarrow> nat \<Rightarrow> arinc \<Rightarrow> bool" where
  "start_ready s t u \<longleftrightarrow> thr_inv {t} u \<and> ordinary u t \<and> mode u = POK_PARTITION_MODE_NORMAL \<and> deadline_ok u t
     \<and> \<not> dq_active (partition_delayed_events u) (t, Delayed_event) \<and> \<not> is_in_wait_queue t u
     \<and> same_rest s u \<and> keeps_first s u"

lemma start_ready_frame:
  assumes "start_ready s t u" "ordinary s t"
  shows "start_ready s t (upd_thread t f u)" "start_ready s t (upd_tshd t h u)"
    "start_ready s t (u\<lparr>clock_pos := n\<rparr>)" "start_ready s t (thread_set_deadline t tp u)"
proof -
  note i = assms(1) [unfolded start_ready_def]
  show "start_ready s t (upd_thread t f u)" using i assms(2)
    by (auto simp: start_ready_def thr_inv_upd_thread ordinary_def deadline_ok_def intro: same_rest_ord
        keeps_first_trans [OF _ keeps_first_frame(1)])
  show "start_ready s t (upd_tshd t h u)" using i
    by (auto simp: start_ready_def frames_tshd intro: same_rest_ord) (simp add: keeps_first_def)
  show "start_ready s t (u\<lparr>clock_pos := n\<rparr>)" using i
    by (auto simp: start_ready_def ordinary_def deadline_ok_def is_in_wait_queue_def intro: same_rest_ord)
      (simp_all add: keeps_first_def)
  have "thr_inv {t} (thread_set_deadline t tp u)"
    unfolding thread_set_deadline_def using i by (intro thr_inv_delayed_ops(2)) simp
  then show "start_ready s t (thread_set_deadline t tp u)" using i thr_inv_bounds [of "{t}" u t]
    by (auto simp: start_ready_def thread_set_deadline_def ordinary_def deadline_ok_def is_in_wait_queue_def
        intro: same_rest_ord keeps_first_trans [OF _ keeps_first_frame(2)])
qed

lemma thread_start_good:
  assumes "call_good s" "ordinary s t" "start_ready s t u" "thread_start t u = Some s'"
  shows "call_good s'"
proof (rule call_good_rest [OF assms(1)])
  note i = assms(3) [unfolded start_ready_def]
  show "thr_inv {} s'" by (rule thread_start_inv [OF _ _ _ _ _ _ assms(4)]) (use i in auto)
  show "same_rest s s'" by (rule same_rest_start [OF _ assms(2,4)]) (use i in auto)
  show "keeps_first s s'" by (rule keeps_first_trans [OF _ keeps_first_start [OF assms(4)]]) (use i in auto)
qed

lemma thread_wait_timed_good:
  assumes "call_good s" "ordinary s t" "start_ready s t u" "thread_wait_timed t tp u = Some s'"
  shows "call_good s'"
proof (rule call_good_rest [OF assms(1)])
  note i = assms(3) [unfolded start_ready_def]
  show "thr_inv {} s'" by (rule thread_wait_timed_inv [OF _ _ _ _ assms(4)]) (use i in auto)
  show "same_rest s s'" by (rule same_rest_wait_timed [OF _ assms(2,4)]) (use i in auto)
  have "keeps_first u s'" using assms(4)
    by (auto simp: thread_wait_timed_def bind_Some intro: keeps_first_trans [OF keeps_first_wait keeps_first_frame(5)]
        split: if_splits)
  then show "keeps_first s s'" using i keeps_first_trans by blast
qed

lemma start_internal_good:
  assumes "call_good s" "ordinary s t" "thread_delayed_start_internal t delay s = Some (r, s')"
  shows "call_good s'"
proof (cases "state (threads s t) \<noteq> POK_STATE_STOPPED
    \<or> \<not> pok_time_is_infinity (thr_period (threads s t)) \<and> delay \<ge> thr_period (threads s t)")
  case True
  then show ?thesis using assms(1,3) by (auto simp: thread_delayed_start_internal_def split: if_splits)
next
  case False
  have inv: "thr_inv {} s" using assms(1) by (simp add: call_good_def)
  have ne: "t \<notin> set (eligible_threads s)" and ok: "thread_ok s t"
    using thr_inv_thread [OF inv, of t] False by (auto simp: may_run_def)
  define u where "u = upd_tshd t (\<lambda>d. d\<lparr>msection_count := 0, tshd_msection_entering := None,
      tshd_priority := base_priority (threads s t), thread_kernel_flags := 0\<rparr>)
      (upd_thread t (\<lambda>th. th\<lparr>priority := base_priority th, sp := False\<rparr>) s)"
  have r: "(if mode u \<noteq> POK_PARTITION_MODE_NORMAL
       then Some (POK_ERRNO_OK, upd_thread t (\<lambda>th. th\<lparr>delayed_time := delay, state := POK_STATE_WAITING\<rparr>) u)
       else do {
         (thread_start_time, s) \<leftarrow> thread_start_times t delay u;
         let s = (if \<not> pok_time_is_infinity (time_capacity (threads s t))
                  then thread_set_deadline t (time_add thread_start_time (time_capacity (threads s t))) s
                  else s);
         s \<leftarrow> (if delay = 0 \<and> pok_time_is_infinity (thr_period (threads s t))
                then thread_start t s else thread_wait_timed t thread_start_time s);
         Some (POK_ERRNO_OK, s)
       }) = Some (r, s')"
    using assms(3) False by (simp add: thread_delayed_start_internal_def u_def kassert_def Let_def split: if_splits)
  show ?thesis
  proof (cases "mode s = POK_PARTITION_MODE_NORMAL")
    case False
    let ?f = "\<lambda>th. th\<lparr>delayed_time := delay, state := POK_STATE_WAITING\<rparr>"
    have s': "s' = upd_thread t ?f u" using r False by (simp add: u_def)
    have i: "thr_inv {t} s'" unfolding s' u_def by (intro thr_inv_upd_thread) (simp add: thr_inv_upd_thread thr_inv_open [OF inv ne])
    have "thr_inv {} s'" by (rule thr_inv_close [OF i]) (use ok False in \<open>auto simp: s' u_def thr_simps frames_tshd\<close>)
    moreover have "same_rest s s'" unfolding s' u_def by (intro same_rest_ord assms(2) same_rest_refl)
    moreover have "keeps_first s s'" by (simp add: s' u_def keeps_first_def upd_thread_def)
    ultimately show ?thesis using call_good_rest [OF assms(1)] by blast
  next
    case True
    have "start_ready s t s"
      using thr_inv_open [OF inv ne] assms(2) True thr_inv_deadline_ok [OF inv] idle_thread [OF inv, of t] \<open>\<not> (_ \<or> _)\<close>
      by (simp add: start_ready_def)
    then have u: "start_ready s t u" unfolding u_def by (intro start_ready_frame assms(2))
    from r True obtain tp v v' where v: "thread_start_times t delay u = Some (tp, v)"
      and v': "v' = (if \<not> pok_time_is_infinity (time_capacity (threads v t))
                  then thread_set_deadline t (time_add tp (time_capacity (threads v t))) v else v)"
      and s': "thread_start t v' = Some s' \<or> thread_wait_timed t tp v' = Some s'"
      by (auto simp: u_def bind_Some Let_def split: if_splits)
    have "start_ready s t v" using v u assms(2)
      by (auto simp: thread_start_times_def jet_system_time_def bind_Some Let_def intro: start_ready_frame split: if_splits)
    then have "start_ready s t v'" unfolding v' using assms(2) by (auto intro: start_ready_frame)
    then show ?thesis using s' thread_start_good [OF assms(1,2)] thread_wait_timed_good [OF assms(1,2)] by blast
  qed
qed

lemma create_good:
  assumes "call_good s" "running s cur" "pok_thread_create name ent attr ok s = (r, s')"
  shows "call_good s'"
proof (cases "mode s = POK_PARTITION_MODE_NORMAL")
  case True
  then show ?thesis using assms(1,3) by (simp add: pok_thread_create_def)
next
  case False
  define t where "t = nthreads_used s"
  have inv: "thr_inv {} s" using assms(1) by (simp add: call_good_def)
  have no: "\<not> ordinary s t" "t \<noteq> 0" using assms(2) by (auto simp: running_def t_def ordinary_def)
  have ne: "t \<notin> set (eligible_threads s)" and ok: "thread_ok s t"
    using thr_inv_thread [OF inv, of t] no by (auto simp: may_run_def)
  have st: "settled (upd_thread t f v) = settled v" "mode (upd_thread t f v) \<noteq> POK_PARTITION_MODE_NORMAL"
    if "mode v \<noteq> POK_PARTITION_MODE_NORMAL" for f and v :: arinc
    using that no(2) by (simp_all add: settled_def chosen_def) (simp add: upd_thread_def)
  have keep: "call_good (upd_thread t f v) \<and> nthreads_used (upd_thread t f v) = t
      \<and> mode (upd_thread t f v) \<noteq> POK_PARTITION_MODE_NORMAL \<and> thread_error (upd_thread t f v) = thread_error v"
    if "call_good v" "nthreads_used v = t" "mode v \<noteq> POK_PARTITION_MODE_NORMAL" for f and v :: arinc
  proof -
    have i: "thr_inv {} v" using that(1) by (simp add: call_good_def)
    have n: "\<not> ordinary v t" using that(2) by (simp add: ordinary_def)
    then have "t \<notin> set (eligible_threads v)" "thread_ok v t" using thr_inv_thread [OF i, of t] by (auto simp: may_run_def)
    then have "thr_inv {} (upd_thread t f v)"
      using thr_inv_close [OF thr_inv_upd_thread [OF thr_inv_open [OF i]]] n that(3) by (auto simp: thr_simps)
    then show ?thesis using that st(1) by (simp add: call_good_def)
  qed
  have tshd: "call_good (upd_tshd t h v) = call_good v" for h v
  proof -
    have "chosen (upd_tshd t h v) = chosen v" by (rule chosen_cong) simp_all
    then show ?thesis by (simp add: call_good_def settled_def)
  qed
  have inc: "call_good (v\<lparr>nthreads_used := Suc t\<rparr>)"
    if "call_good v" "nthreads_used v = t" "mode v \<noteq> POK_PARTITION_MODE_NORMAL" "state (threads v t) = POK_STATE_STOPPED"
      "t < nthreads v" for v :: arinc
  proof -
    have i: "thr_inv {} v" using that(1) by (simp add: call_good_def)
    have "may_run (v\<lparr>nthreads_used := Suc t\<rparr>) u = may_run v u" for u using that(3) by (simp add: may_run_def)
    moreover have "thread_ok (v\<lparr>nthreads_used := Suc t\<rparr>) u" for u
      using thr_inv_thread [OF i, of u] that(2-4)
      by (cases "u = t") (auto simp: thread_ok_def ordinary_def is_in_wait_queue_def)
    ultimately have "thr_inv {} (v\<lparr>nthreads_used := Suc t\<rparr>)" using i that(5) by (simp add: thr_inv_def)
    then show ?thesis using that(1,3) by (simp add: call_good_def settled_def chosen_def)
  qed
  have nth: "nthreads_used s \<le> nthreads s" using inv by (simp add: thr_inv_def)
  define u where "u = upd_thread t (\<lambda>th. th\<lparr>entry := ent, base_priority := attr_priority (the attr),
      thr_period := attr_period (the attr), time_capacity := attr_time_capacity (the attr),
      deadline := attr_deadline (the attr)\<rparr>) s"
  define v where "v = upd_thread t (\<lambda>th. th\<lparr>thread_name :=
      (\<lambda>i. if i < MAX_NAME_LENGTH then the name i else thread_name th i)\<rparr>) u"
  define w where "w = upd_thread t (\<lambda>th. th\<lparr>user_stack_size := attr_stack_size (the attr)\<rparr>) v"
  define good where "good x \<longleftrightarrow> call_good x \<and> nthreads_used x = t \<and> mode x \<noteq> POK_PARTITION_MODE_NORMAL" for x
  have up: "good x \<Longrightarrow> good (upd_thread t f x)" "good x \<Longrightarrow> good (upd_tshd t h x)" for x f h
    using keep by (simp_all add: good_def tshd)
  have uvw: "good u" "good v" "good w"
    unfolding u_def v_def w_def using assms(1) False by (intro up; simp add: good_def t_def)+
  have "s' \<in> {s, u, v} \<or> thread_create t w = (False, s')
      \<or> (\<exists>x. thread_create t w = (True, x) \<and> s' = x\<lparr>nthreads_used := nthreads_used x + 1\<rparr> \<and> t < nthreads s)"
  proof (cases "attr = None \<or> name = None \<or> \<not> ok \<or> nthreads_used s = nthreads s")
    case True
    then show ?thesis using assms(3) False by (auto simp: pok_thread_create_def split: option.splits if_splits)
  next
    case ok: False
    then obtain a nm where an: "attr = Some a" "name = Some nm" by auto
    have "pok_thread_create name ent attr ok s =
       (if thread_attr_check (threads u t) u \<noteq> POK_ERRNO_OK then ((thread_attr_check (threads u t) u, None), u)
        else if find_thread (thread_name (threads v t)) v \<noteq> None then ((POK_ERRNO_EXISTS, None), v)
        else case thread_create t w of (created, x) \<Rightarrow>
          if \<not> created then ((POK_ERRNO_UNAVAILABLE, None), x)
          else ((POK_ERRNO_OK, Some (nthreads_used x)), x\<lparr>nthreads_used := nthreads_used x + 1\<rparr>))"
      using ok False unfolding pok_thread_create_def u_def v_def w_def t_def Let_def an option.case option.sel
      by (simp only: if_False if_True de_Morgan_disj not_not not_True_eq_False)
    then show ?thesis using assms(3) nth ok by (auto simp: t_def split: if_splits prod.splits)
  qed
  then show ?thesis
  proof (elim disjE exE conjE)
    assume "s' \<in> {s, u, v}"
    then show ?thesis using uvw assms(1) by (auto simp: good_def)
  next
    assume "thread_create t w = (False, s')"
    then have "good s'" using uvw(3) by (auto simp: thread_create_def Let_def intro: up split: if_splits)
    then show ?thesis by (simp add: good_def)
  next
    fix x assume x: "thread_create t w = (True, x)" "s' = x\<lparr>nthreads_used := nthreads_used x + 1\<rparr>" "t < nthreads s"
    have "good x" using x(1) uvw(3) by (auto simp: thread_create_def Let_def intro!: up split: if_splits)
    moreover have "state (threads x t) = POK_STATE_STOPPED" "nthreads x = nthreads s"
      using x(1) by (auto simp: thread_create_def Let_def w_def v_def u_def split: if_splits)
    ultimately show ?thesis using inc [of x] x(2,3) by (simp add: good_def)
  qed
qed

lemma set_priority_good:
  assumes "call_good s" "pok_thread_set_priority n prio s = Some (r, s')"
  shows "call_good s'"
proof -
  have tshd: "thread_yield t (upd_tshd t h v) = Some w \<Longrightarrow> \<exists>w'. thread_yield t v = Some w' \<and> w = upd_tshd t h w'" for t h v w
    by (auto simp: thread_yield_def thread_set_eligible_def thread_is_eligible_def first_eligible_def
        upd_tshd_def pok_sched_local_invalidate_def kassert_def Let_def split: if_splits list.splits)
  have good: "call_good (upd_tshd t h v) = call_good v" for t h v
  proof -
    have "chosen (upd_tshd t h v) = chosen v" by (rule chosen_cong) simp_all
    then show ?thesis by (simp add: call_good_def settled_def)
  qed
  have "call_good w" if "thread_yield t (upd_thread t (\<lambda>th. th\<lparr>priority := prio\<rparr>) (upd_base f s)) = Some w" for t f w
    by (rule yield_good [OF _ that]) (simp_all add: assms(1))
  then show ?thesis using assms
    by (auto simp: pok_thread_set_priority_def bind_Some Let_def good dest!: local_disable_spec tshd
        split: option.splits if_splits)
qed

text \<open>Timers of deadlines.\<close>

lemma deadline_event_good:
  assumes "call_good s" "\<And>d. dq_inv d \<Longrightarrow> dq_inv (g d)" "\<And>u. thread_ok s u \<Longrightarrow> thread_ok (upd_events g s) u"
  shows "call_good (upd_events g s)"
proof (rule call_good_rest [OF assms(1) keeps_first_frame(2)])
  have "may_run (upd_events g s) u = may_run s u" for u by (simp add: thr_simps)
  moreover have "thr_inv {} s" using assms(1) by (simp add: call_good_def)
  ultimately show "thr_inv {} (upd_events g s)"
    using assms(2,3) by (simp add: thr_inv_def)
  show "same_rest s (upd_events g s)" by (rule same_rest_ord(2) [OF same_rest_refl])
qed

lemma set_deadline_good:
  assumes "call_good s" "ordinary s t" "mode s = POK_PARTITION_MODE_NORMAL" "state (threads s t) \<noteq> POK_STATE_STOPPED"
  shows "call_good (thread_set_deadline t tp s)"
  unfolding thread_set_deadline_def
proof (rule deadline_event_good [OF assms(1) dq_inv_add])
  have u16: "u16 t = t" using thr_inv_bounds [OF _ assms(2)] assms(1) by (auto simp: call_good_def)
  have q: "is_in_wait_queue u (upd_events g s) = is_in_wait_queue u s" for u g by (simp add: is_in_wait_queue_def)
  show "thread_ok (upd_events (dq_add (t, Deadline_event) tp (u16 t) Thread_deadline_occured) s) u" if "thread_ok s u" for u
    using that assms(2-4) by (simp add: thr_simps q u16)
qed

lemma remove_deadline_good: "call_good s \<Longrightarrow> call_good (upd_events (dq_remove (t, Deadline_event)) s)"
proof (rule deadline_event_good [OF _ dq_inv_remove])
  have q: "is_in_wait_queue u (upd_events g s) = is_in_wait_queue u s" for u g by (simp add: is_in_wait_queue_def)
  show "thread_ok (upd_events (dq_remove (t, Deadline_event)) s) u" if "thread_ok s u" for u
    using that by (simp add: thr_simps q)
qed

lemma same_thread_good:
  assumes "\<And>th. same_thread (f th) th"
  shows "call_good (upd_thread t f s) = call_good s"
proof -
  have "thr_inv {} (upd_thread t f s) = thr_inv {} s" by (rule thr_inv_same [OF same_sched_upd_thread [OF assms]])
  moreover have "chosen (upd_thread t f s) = chosen s"
    by (rule chosen_cong) (simp_all add: assms [unfolded same_thread_def])
  ultimately show ?thesis by (simp add: call_good_def settled_def) (simp add: upd_thread_def)
qed

lemma running_wait_timed_good:
  assumes "call_good s" "ordinary s t" "thread_wait_timed t tp s = Some s'"
  shows "call_good s' \<and> ordinary s' t \<and> mode s' = POK_PARTITION_MODE_NORMAL \<and> state (threads s' t) = POK_STATE_WAITING"
proof (intro conjI)
  have inv: "thr_inv {} s" using assms(1) by (simp add: call_good_def)
  from assms(3) obtain w where w: "thread_wait t s = Some w" and s': "s' = thread_delay_event t tp Thread_wake_up w"
    by (auto simp: thread_wait_timed_def bind_Some kassert_def split: if_splits)
  show "call_good s'"
  proof (rule call_good_rest [OF assms(1)])
    show "thr_inv {} s'" by (rule thread_wait_timed_inv [OF inv _ assms(2) thr_inv_deadline_ok [OF inv] assms(3)]) simp
    show "same_rest s s'" by (rule same_rest_wait_timed [OF same_rest_refl assms(2,3)])
    show "keeps_first s s'" unfolding s' by (rule keeps_first_trans [OF keeps_first_wait [OF w] keeps_first_frame(5)])
  qed
  show "ordinary s' t" "mode s' = POK_PARTITION_MODE_NORMAL" "state (threads s' t) = POK_STATE_WAITING"
    using w assms(2) by (auto simp: s' thread_wait_def kassert_def ordinary_def split: if_splits)
qed

lemma end_period_good:
  assumes "call_good s" "running s t" "pok_sched_end_period s = Some (r, s')"
  shows "call_good s'"
proof -
  have cur: "thread_current s = Some t" using assms(2) by (simp add: running_def)
  let ?b = "upd_base (\<lambda>part. part\<lparr>preempt_local_disabled := True\<rparr>) s"
  let ?u = "upd_thread t (\<lambda>th. th\<lparr>next_activation := time_add (next_activation th) (thr_period th)\<rparr>) ?b"
  from assms(3) consider "s' = s" | w where "thread_is_waiting_allowed s = Some True"
      "thread_wait_timed t (next_activation (threads ?u t)) ?u = Some w"
      "s' = thread_set_deadline t (time_add (next_activation (threads w t)) (time_capacity (threads w t))) w"
    by (auto simp: pok_sched_end_period_def cur bind_Some Let_def dest!: local_disable_spec split: if_splits)
  then show ?thesis
  proof cases
    case (2 w)
    have "ordinary s t" using waiting_allowed_ordinary [OF assms(2) 2(1)] by auto
    then have o: "ordinary ?u t" by (simp add: ordinary_def)
    have "call_good ?u = call_good ?b" by (rule same_thread_good) (simp add: same_thread_def)
    then have "call_good ?u" using assms(1) by simp
    from running_wait_timed_good [OF this o 2(2)] show ?thesis unfolding 2(3)
      by (intro set_deadline_good) auto
  qed (use assms(1) in simp)
qed

lemma replenish_good:
  assumes "call_good s" "running s t" "pok_sched_replenish budget s = Some (r, s')"
  shows "call_good s'"
proof -
  let ?b = "upd_base (\<lambda>part. part\<lparr>preempt_local_disabled := True\<rparr>) s"
  have cur: "thread_current s = Some t" "state (threads s t) = POK_STATE_RUNNABLE" using assms(2) by (simp_all add: running_def)
  have clk: "call_good (?b\<lparr>clock_pos := n\<rparr>)" for n
  proof -
    have "chosen (?b\<lparr>clock_pos := n\<rparr>) = chosen ?b" by (rule chosen_cong) simp_all
    moreover have "call_good ?b" using assms(1) by simp
    ultimately show ?thesis by (simp add: call_good_def settled_def)
  qed
  let ?c = "?b\<lparr>clock_pos := clock_pos s + 1\<rparr>"
  have clock: "clock_pos ?b = clock_pos s" "clock ?b = clock s" by (simp_all add: upd_base_def)
  have r: "s' = s \<or> s' = ?b \<or> s' = ?c \<or> s' = upd_events (dq_remove (t, Deadline_event)) ?b
     \<or> thread_error s \<noteq> Some t \<and> mode s = POK_PARTITION_MODE_NORMAL
        \<and> s' = thread_set_deadline t (time_add (clock s (clock_pos s)) (the budget)) ?c"
  proof (cases budget)
    case None
    then show ?thesis using assms(3) by (simp add: pok_sched_replenish_def)
  next
    case (Some b)
    show ?thesis
    proof (cases "pok_preemption_local_disable s")
      case None
      then show ?thesis using assms(3) Some by (simp add: pok_sched_replenish_def cur split: if_splits)
    next
      case (Some b)
      from local_disable_spec [OF this] show ?thesis
        using assms(3) \<open>budget = _\<close> Some
        by (simp add: pok_sched_replenish_def cur jet_system_time_def clock Let_def split: if_splits)
    qed
  qed
  have "ordinary ?c t" if "thread_error s \<noteq> Some t" "mode s = POK_PARTITION_MODE_NORMAL"
    using that assms(2) by (simp add: ordinary_def running_def)
  then show ?thesis using r
    by (elim disjE) (use assms(1) clk remove_deadline_good cur(2) in \<open>auto intro: set_deadline_good\<close>)
qed

text \<open>Stopping: when the target cannot be stopped at once, a rescheduling is asked for.\<close>

lemma call_good_invalidate: "thr_inv {} s \<Longrightarrow> call_good (pok_sched_local_invalidate s)"
  by (simp add: call_good_def)

lemma same_thread_inv: "(\<And>th. same_thread (f th) th) \<Longrightarrow> thr_inv {} (upd_thread t f s) = thr_inv {} s"
  by (rule thr_inv_same [OF same_sched_upd_thread])

lemma join_donators_inv: "thr_inv {} s \<Longrightarrow> join_donators t cur s = (r, s') \<Longrightarrow> thr_inv {} s'"
  by (auto simp: join_donators_def same_thread_inv same_thread_def Let_def split: if_splits)

lemma add_first_donator_inv: "thr_inv {} s \<Longrightarrow> thr_inv {} (add_first_donator t cur s)"
  by (simp add: add_first_donator_def same_thread_inv same_thread_def Let_def)

lemma kill_in_section_inv:
  assumes "thr_inv {} s" "ordinary s t" "mode s = POK_PARTITION_MODE_NORMAL" "kill_in_section t cur s = Some s'"
  shows "thr_inv {} s'"
  using assms(4) thread_wake_up_inv [OF assms(1-3)] assms(1)
  by (auto simp: kill_in_section_def same_thread_inv same_thread_def bind_Some Let_def split: if_splits)

lemma stop_target_good:
  assumes "call_good s" "running s cur" "pok_thread_stop_target n s = Some (r, s')"
  shows "call_good s'"
proof -
  let ?b = "upd_base (\<lambda>part. part\<lparr>preempt_local_disabled := True\<rparr>) s"
  have b: "call_good ?b" "thr_inv {} ?b" using assms(1) by simp (use assms(1) in \<open>simp add: call_good_def upd_base_frame\<close>)
  have o: "ordinary ?b t" "mode s = POK_PARTITION_MODE_NORMAL" if "get_thread_by_id n s = Some t" "msection_count (tshd s t) \<noteq> 0" for t
    using that assms(2) by (auto simp: get_thread_ordinary upd_base_frame running_def)
  show ?thesis
  proof (cases "get_thread_by_id n s = None \<or> thread_current s = get_thread_by_id n s")
    case True
    then show ?thesis using assms(1,3) by (auto simp: pok_thread_stop_target_def split: option.splits)
  next
    case False
    then obtain t where t: "get_thread_by_id n s = Some t" "thread_current s \<noteq> Some t" by auto
    have cur: "thread_current ?b = Some cur" using assms(2) by (simp add: running_def)
    obtain d where "pok_preemption_local_disable s = Some d" using assms(3) t
      by (cases "pok_preemption_local_disable s") (auto simp: pok_thread_stop_target_def)
    with local_disable_spec [OF this] have d: "pok_preemption_local_disable s = Some ?b" by simp
    show ?thesis
    proof (cases "state (threads ?b t) = POK_STATE_STOPPED \<or> donate_target (threads ?b t) = None
        \<and> first_donator (threads ?b t) = None \<and> msection_count (tshd ?b t) = 0")
      case True
      then have "s' = ?b \<or> thread_stop t ?b = Some s'"
        using assms(3) t d by (auto simp: pok_thread_stop_target_def bind_Some split: if_splits)
      then show ?thesis using stop_good [OF b(1), of t] t(1) b(1) by (auto simp: get_thread_ordinary upd_base_frame)
    next
      case False
      let ?m = "if donate_target (threads ?b t) \<noteq> None then Some (join_donators t cur ?b)
           else if first_donator (threads ?b t) \<noteq> None then Some (POK_ERRNO_UNAVAILABLE, add_first_donator t cur ?b)
           else do { v \<leftarrow> kill_in_section t cur ?b; Some (POK_ERRNO_OK, v) }"
      from False obtain ret v where m: "?m = Some (ret, v)" and s': "s' = pok_sched_local_invalidate v"
        using assms(3) t d cur by (auto simp: pok_thread_stop_target_def bind_Some split: if_splits)
      have "thr_inv {} v"
      proof (cases "donate_target (threads ?b t) = None")
        case dt: True
        show ?thesis
        proof (cases "first_donator (threads ?b t) = None")
          case True
          then have "kill_in_section t cur ?b = Some v" "msection_count (tshd s t) \<noteq> 0"
            using m dt False by (simp_all add: bind_Some)
          then show ?thesis using kill_in_section_inv [OF b(2)] o [OF t(1)] by simp
        next
          case False
          then show ?thesis using m dt add_first_donator_inv [OF b(2)] by auto
        qed
      next
        case False
        then have "join_donators t cur ?b = (ret, v)" using m by simp
        then show ?thesis by (rule join_donators_inv [OF b(2)])
      qed
      then show ?thesis unfolding s' by (rule call_good_invalidate)
    qed
  qed
qed

lemma error_ignore_sync_inv: "thr_inv {} s \<Longrightarrow> error_ignore_sync s = Some s' \<Longrightarrow> thr_inv {} s'"
proof -
  have l: "thr_inv {} (v\<lparr>error_list := l\<rparr>) = thr_inv {} v" for v l
    by (rule thr_inv_same) (simp add: same_sched_def same_thread_def)
  show "thr_inv {} s \<Longrightarrow> error_ignore_sync s = Some s' \<Longrightarrow> thr_inv {} s'"
    by (auto simp: error_ignore_sync_def thread_clear_error_bit_def kassert_def Let_def l same_thread_inv
        same_thread_def split: list.splits if_splits)
qed

lemma error_check_return: "error_check_after_handler s = Some (Return x s') \<Longrightarrow> s' = s"
  using process_error_cases by (fastforce simp: error_check_after_handler_def kbind_return split: if_splits)

lemma thread_stop_self_good:
  assumes "call_good s" "pok_thread_stop s = Some (Return r s')"
  shows "call_good s'"
proof -
  let ?b = "upd_base (\<lambda>part. part\<lparr>preempt_local_disabled := True\<rparr>) s"
  have inv: "thr_inv {} ?b" using assms(1) by (simp add: call_good_def upd_base_frame)
  from assms(2) obtain t w v where w: "thread_stop t ?b = Some w" and s': "s' = pok_sched_local_invalidate v"
    and v: "v = w \<or> (\<exists>x u. error_check_after_handler w = Some (Return x u) \<and> error_ignore_sync u = Some v)"
    by (auto simp: pok_thread_stop_def bind_Some kbind_return kout_of_return kassert_def
        dest!: local_disable_spec split: if_splits)
  have "thr_inv {} w" by (rule thread_stop_inv [OF inv empty_subsetI w])
  then have "thr_inv {} v" using v error_check_return error_ignore_sync_inv by blast
  then show ?thesis unfolding s' by (rule call_good_invalidate)
qed

subsection \<open>Any call\<close>

datatype thread_syscall =
    Call_create "chars option" nat "pok_thread_attr option" bool
  | Call_find "chars option" bool
  | Call_sleep "pok_time option" | Call_yield
  | Call_delayed_start nat "pok_time option" | Call_start nat
  | Call_get_status nat bool bool bool | Call_set_priority nat nat
  | Call_resume nat | Call_suspend_target nat | Call_suspend "pok_time option"
  | Call_stop_target nat | Call_stop
  | Call_end_period | Call_replenish "pok_time option"

definition call_result :: "('a \<times> arinc) option \<Rightarrow> unit kout option" where
  "call_result r = map_option (\<lambda>(_, s). Return () s) r"

fun thread_call :: "thread_syscall \<Rightarrow> arinc \<Rightarrow> unit kout option" where
  "thread_call (Call_create name ent attr ok) s = call_result (Some (pok_thread_create name ent attr ok s))"
| "thread_call (Call_find name ok) s = call_result (Some (pok_thread_find name ok s, s))"
| "thread_call (Call_sleep time) s = call_result (pok_thread_sleep time s)"
| "thread_call Call_yield s = call_result (pok_thread_yield s)"
| "thread_call (Call_delayed_start n delay) s = call_result (pok_thread_delayed_start n delay s)"
| "thread_call (Call_start n) s = call_result (pok_thread_start n s)"
| "thread_call (Call_get_status n a b c) s = call_result (pok_thread_get_status n a b c s)"
| "thread_call (Call_set_priority n prio) s = call_result (pok_thread_set_priority n prio s)"
| "thread_call (Call_resume n) s = call_result (pok_thread_resume n s)"
| "thread_call (Call_suspend_target n) s = call_result (pok_thread_suspend_target n s)"
| "thread_call (Call_suspend time) s = call_result (pok_thread_suspend time s)"
| "thread_call (Call_stop_target n) s = call_result (pok_thread_stop_target n s)"
| "thread_call Call_stop s = kbind (pok_thread_stop s) (\<lambda>_ s. Some (Return () s))"
| "thread_call Call_end_period s = call_result (pok_sched_end_period s)"
| "thread_call (Call_replenish budget) s = call_result (pok_sched_replenish budget s)"

lemma call_result_Some: "call_result r = Some (Return () s') \<longleftrightarrow> (\<exists>x. r = Some (x, s'))"
  by (auto simp: call_result_def)

lemma sleep_good:
  assumes "call_good s" "running s t" "pok_thread_sleep time s = Some (r, s')"
  shows "call_good s'"
proof -
  let ?b = "upd_base (\<lambda>part. part\<lparr>preempt_local_disabled := True\<rparr>) s"
  have b: "call_good ?b" using assms(1) by simp
  have cur: "thread_current s = Some t" "state (threads s t) = POK_STATE_RUNNABLE" using assms(2) by (simp_all add: running_def)
  from assms(3) consider "s' = s" | "thread_yield t ?b = Some s'"
    | d where "thread_is_waiting_allowed s = Some True" "thread_wait_common t d ?b = Some s'"
    by (auto simp: pok_thread_sleep_def bind_Some cur dest!: local_disable_spec split: option.splits if_splits)
  then show ?thesis
  proof cases
    case 2
    have "upd_thread t (\<lambda>th. th) ?b = ?b" by (simp add: upd_thread_def)
    then show ?thesis using yield_good [OF b, of t "\<lambda>th. th" s'] 2 by simp
  next
    case (3 d)
    have "ordinary ?b t" using waiting_allowed_ordinary [OF assms(2) 3(1)] by (simp add: upd_base_frame)
    then show ?thesis using wait_common_good [OF b _ _ 3(2)] cur(2) by simp
  qed (use assms(1) in simp)
qed

lemma suspend_call_good:
  assumes "call_good s" "running s t" "pok_thread_suspend time s = Some (r, s')"
  shows "call_good s'"
proof -
  let ?b = "upd_base (\<lambda>part. part\<lparr>preempt_local_disabled := True\<rparr>) s"
  have b: "call_good ?b" using assms(1) by simp
  have cur: "thread_current s = Some t" "state (threads s t) = POK_STATE_RUNNABLE" using assms(2) by (simp_all add: running_def)
  from assms(3) consider "s' \<in> {s, ?b}" | "s' = thread_suspend t ?b"
    | d where "thread_is_waiting_allowed s = Some True" "thread_suspend_timed t d (thread_suspend t ?b) = Some s'"
    by (cases time) (auto simp: pok_thread_suspend_def bind_Some Let_def cur dest!: local_disable_spec split: if_splits)
  then show ?thesis
  proof cases
    case 2
    then show ?thesis using suspend_good [OF b] by simp
  next
    case (3 d)
    have "ordinary (thread_suspend t ?b) t" using waiting_allowed_ordinary [OF assms(2) 3(1)] by (simp add: ordinary_def)
    then show ?thesis using suspend_timed_good [OF suspend_good [OF b] _ _ 3(2)] cur(2) by simp
  qed (use assms(1) b in auto)
qed

lemma resume_call_good:
  assumes "call_good s" "pok_thread_resume n s = Some (r, s')"
  shows "call_good s'"
proof -
  let ?b = "upd_base (\<lambda>part. part\<lparr>preempt_local_disabled := True\<rparr>) s"
  have b: "call_good ?b" using assms(1) by simp
  from assms(2) consider "s' \<in> {s, ?b}"
    | t where "get_thread_by_id n s = Some t" "suspended (threads ?b t)" "thread_resume t ?b = Some s'"
    by (auto simp: pok_thread_resume_def bind_Some dest!: local_disable_spec split: option.splits if_splits)
  then show ?thesis
  proof cases
    case (2 t)
    then show ?thesis using resume_good [OF b _ 2(2,3)] by (simp add: get_thread_ordinary upd_base_frame)
  qed (use assms(1) b in auto)
qed

lemma simple_calls_good:
  assumes "call_good s"
  shows "pok_thread_suspend_target n s = Some (r, s') \<Longrightarrow> call_good s'"
    and "pok_thread_get_status n x y z s = Some (r', s') \<Longrightarrow> call_good s'"
    and "pok_thread_yield s = Some (r, s') \<Longrightarrow> call_good s'"
proof -
  let ?b = "upd_base (\<lambda>part. part\<lparr>preempt_local_disabled := True\<rparr>) s"
  have b: "call_good ?b" using assms(1) by simp
  have id: "upd_thread t (\<lambda>th. th) v = v" for t v by (simp add: upd_thread_def)
  show "pok_thread_suspend_target n s = Some (r, s') \<Longrightarrow> call_good s'"
    using assms suspend_good [OF b]
    by (auto simp: pok_thread_suspend_target_def bind_Some dest!: local_disable_spec split: option.splits if_splits)
  show "pok_thread_get_status n x y z s = Some (r', s') \<Longrightarrow> call_good s'" using assms
    by (auto simp: pok_thread_get_status_def bind_Some Let_def dest!: local_disable_spec split: option.splits if_splits)
  show "pok_thread_yield s = Some (r, s') \<Longrightarrow> call_good s'"
    using yield_good [OF b, where f = "\<lambda>th. th"]
    by (auto simp: pok_thread_yield_def bind_Some id dest!: local_disable_spec)
qed

lemma start_calls_good:
  assumes "call_good s"
  shows "pok_thread_delayed_start n d s = Some (r, s') \<Longrightarrow> call_good s'"
    and "pok_thread_start n s = Some (r, s') \<Longrightarrow> call_good s'"
proof -
  let ?b = "upd_base (\<lambda>part. part\<lparr>preempt_local_disabled := True\<rparr>) s"
  have b: "call_good ?b" using assms(1) by simp
  have st: "thread_delayed_start_internal t d ?b = Some (x, s') \<Longrightarrow> get_thread_by_id n s = Some t \<Longrightarrow> call_good s'" for t d x
    using start_internal_good [OF b] by (auto simp: get_thread_ordinary upd_base_frame)
  show "pok_thread_delayed_start n d s = Some (r, s') \<Longrightarrow> call_good s'" using assms st
    by (auto simp: pok_thread_delayed_start_def bind_Some dest!: local_disable_spec split: option.splits if_splits)
  show "pok_thread_start n s = Some (r, s') \<Longrightarrow> call_good s'" using assms st
    by (auto simp: pok_thread_start_def bind_Some dest!: local_disable_spec split: option.splits)
qed

lemma thread_call_good:
  assumes "call_good s" "running s cur" "thread_call c s = Some (Return () s')"
  shows "call_good s'"
proof -
  note facts = create_good [OF assms(1,2)] sleep_good [OF assms(1,2)] suspend_call_good [OF assms(1,2)]
    resume_call_good [OF assms(1)] stop_target_good [OF assms(1,2)] end_period_good [OF assms(1,2)]
    replenish_good [OF assms(1,2)] simple_calls_good [OF assms(1)] start_calls_good [OF assms(1)]
    set_priority_good [OF assms(1)] thread_stop_self_good [OF assms(1)] assms(1)
  show ?thesis
    by (cases c) (use assms(1,3) in \<open>auto simp: call_result_Some kbind_return intro: facts\<close>)
qed

text \<open>
  Whatever system call on threads a running thread makes, if it returns to its end, the
  invariant of the local scheduler holds, a change of the thread that has to run is announced,
  and so the scheduler at the end of the critical section selects the right thread. Before
  normal mode the caller is the main thread, holding the preemption lock.
\<close>

theorem thread_calls_keep_scheduler:
  assumes "thread_call c s = Some (Return () s')" and "running s cur" and "thr_inv {} s" and "settled s"
  shows "thr_inv {} s' \<and> settled s'
     \<and> (pok_preemption_local_enable s' = Some (Return x s'') \<longrightarrow>
          thr_inv {} s'' \<and> thread_selected s'' = chosen s'')"
proof -
  have "call_good s'" using thread_call_good [OF _ assms(2,1)] assms(3,4) by (simp add: call_good_def)
  then show ?thesis using local_enable_settles by (auto simp: call_good_def)
qed

text \<open>In the example partition thread 2, which runs, goes to sleep.\<close>

theorem thread_calls_keep_scheduler_witness:
  "\<exists>s'. thread_call (Call_sleep (Some 5)) example_arinc = Some (Return () s') \<and> thr_inv {} s' \<and> settled s'
     \<and> state (threads s' 2) = POK_STATE_WAITING"
proof -
  have run: "running example_arinc 2" by (simp add: running_def example_arinc_def example_thread_def)
  have "settled example_arinc" by (simp add: settled_def chosen_def example_arinc_def)
  obtain s' where s': "thread_call (Call_sleep (Some 5)) example_arinc = Some (Return () s')"
    "state (threads s' 2) = POK_STATE_WAITING"
    by (simp add: call_result_def pok_thread_sleep_def thread_is_waiting_allowed_def pok_preemption_local_disable_def
        kassert_def thread_wait_common_def pok_time_is_infinity_def jet_system_time_def thread_wait_timed_def
        thread_wait_def time_add_def time_wrap_def example_arinc_def upd_base_def example_parts_def
        example_partition_def example_thread_def)
  then show ?thesis
    using thread_calls_keep_scheduler [OF s'(1) run example_arinc_inv \<open>settled example_arinc\<close>] by blast
qed

end
