(* ===== verification/ModeSwitch.thy ===== *)
theory ModeSwitch
  imports PartitionArinc ThreadCalls
begin

section \<open>The switch to normal mode\<close>

text \<open>
  What \<open>partition_set_mode_normal\<close> does for the threads that were started before: each is released
  at its time, with its timers. Then the start of the next period is followed for a periodic
  thread, once when it was started before the switch and once when it was started after it.
\<close>

text \<open>The time at which a thread starts, when \<open>R\<close> is the next periodic processing start.\<close>

definition thread_start_at :: "pok_time \<Rightarrow> pok_time \<Rightarrow> pok_thread \<Rightarrow> pok_time" where
  "thread_start_at now R th =
     time_add (if pok_time_is_infinity (thr_period th) then now else R) (delayed_time th)"

definition timer_at :: "nat \<times> event_kind \<Rightarrow> arinc \<Rightarrow> pok_time option" where
  "timer_at k s = (if dq_active (partition_delayed_events s) k then Some (dq_time (partition_delayed_events s) k) else None)"

text \<open>The state of a thread after the switch, given its state before.\<close>

definition released :: "pok_time \<Rightarrow> pok_time \<Rightarrow> nat \<Rightarrow> pok_thread \<Rightarrow> arinc \<Rightarrow> bool" where
  "released now R t th s \<longleftrightarrow>
     (if state th = POK_STATE_STOPPED then threads s t = th \<and> timer_at (t, Delayed_event) s = None
      else (if thread_start_at now R th \<le> now
            then state (threads s t) = POK_STATE_RUNNABLE \<and> timer_at (t, Delayed_event) s = None
            else state (threads s t) = POK_STATE_WAITING
              \<and> timer_at (t, Delayed_event) s = Some (thread_start_at now R th)
              \<and> thread_delayed_func (threads s t) = Thread_wake_up)
        \<and> timer_at (t, Deadline_event) s =
            (if pok_time_is_infinity (time_capacity th) then None
             else Some (time_add (thread_start_at now R th) (time_capacity th)))
        \<and> suspended (threads s t) = suspended th
        \<and> (\<not> pok_time_is_infinity (thr_period th) \<longrightarrow> next_activation (threads s t) = thread_start_at now R th))"

subsection \<open>One thread\<close>

text \<open>A step that concerns one thread leaves the other threads, their timers and the frame alone.\<close>

definition only_thread :: "nat \<Rightarrow> arinc \<Rightarrow> arinc \<Rightarrow> bool" where
  "only_thread t s s' \<longleftrightarrow> (\<forall>u. u \<noteq> t \<longrightarrow> threads s' u = threads s u \<and> (\<forall>k. timer_at (u, k) s' = timer_at (u, k) s))
     \<and> mode s' = mode s \<and> thread_error s' = thread_error s \<and> nthreads_used s' = nthreads_used s
     \<and> gsched s' = gsched s \<and> lock_level s' = lock_level s
     \<and> (sched_local_recheck_needed s \<longrightarrow> sched_local_recheck_needed s')"

lemma only_thread_refl [simp]: "only_thread t s s"
  by (simp add: only_thread_def)

lemma only_thread_trans: "only_thread t s u \<Longrightarrow> only_thread t u v \<Longrightarrow> only_thread t s v"
  by (simp add: only_thread_def)

lemma timer_at_frame [simp]:
  "timer_at k (upd_thread t f s) = timer_at k s"
  by (simp add: timer_at_def)

lemma timer_at_add:
  "timer_at j (upd_events (dq_add k tp hid f) s) = (if j = k then Some tp else timer_at j s)"
  by (simp add: timer_at_def) (simp add: dq_add_def)

lemma timer_at_remove:
  "timer_at j (upd_events (dq_remove k) s) = (if j = k then None else timer_at j s)"
  by (simp add: timer_at_def) (simp add: dq_remove_def)

lemma upd_events_more [simp]: "gsched (upd_events f s) = gsched s" "lock_level (upd_events f s) = lock_level s"
  "sched_local_recheck_needed (upd_events f s) = sched_local_recheck_needed s"
  by (simp_all add: upd_events_def)

lemma only_thread_frame:
  "only_thread t s u \<Longrightarrow> only_thread t s (upd_thread t f u)"
  "only_thread t s u \<Longrightarrow> only_thread t s (upd_events (dq_add (t, k) tp hid g) u)"
  "only_thread t s u \<Longrightarrow> only_thread t s (upd_events (dq_remove (t, k)) u)"
  by (simp_all add: only_thread_def timer_at_add timer_at_remove)

lemma set_eligible_only:
  assumes "thread_set_eligible t s = Some s'"
  shows "threads s' = threads s \<and> only_thread u s s' \<and> (\<forall>k. timer_at k s' = timer_at k s)"
proof -
  define v where "v = s\<lparr>eligible_threads := insert_before_first
               (\<lambda>other. priority (threads s other) < priority (threads s t)) t (eligible_threads s)\<rparr>"
  have "s' = v \<or> s' = pok_sched_local_invalidate v"
    using assms by (auto simp: thread_set_eligible_def Let_def v_def split: if_splits)
  then show ?thesis by (auto simp: only_thread_def timer_at_def v_def)
qed

lemma timer_at_cong: "partition_delayed_events s' = partition_delayed_events s \<Longrightarrow> timer_at k s' = timer_at k s"
  by (simp add: timer_at_def)

lemma cancel_wait_only:
  "only_thread t s (thread_cancel_wait t s) \<and> (\<forall>k. timer_at k (thread_cancel_wait t s) = timer_at k s)
   \<and> (\<exists>r. threads (thread_cancel_wait t s) t = (threads s t)\<lparr>wait_result := r\<rparr>)"
proof -
  have 0: "\<exists>r. threads s t = (threads s t)\<lparr>wait_result := r\<rparr>" by (rule exI [of _ "wait_result (threads s t)"]) simp
  have rem: "only_thread t s (pok_thread_wq_remove t s)" "timer_at k (pok_thread_wq_remove t s) = timer_at k s" for k
    by (simp_all add: only_thread_def timer_at_def pok_thread_wq_remove_def)
  let ?f = "\<lambda>th. th\<lparr>wait_result := POK_ERRNO_TIMEOUT\<rparr>"
  have "thread_cancel_wait t s \<in> {s, upd_thread t ?f s, upd_thread t ?f (pok_thread_wq_remove t s)}"
    by (simp add: thread_cancel_wait_def)
  then consider "thread_cancel_wait t s = s" | "thread_cancel_wait t s = upd_thread t ?f s"
    | "thread_cancel_wait t s = upd_thread t ?f (pok_thread_wq_remove t s)" by blast
  then show ?thesis
  proof cases
    case 1
    then show ?thesis using 0 by simp
  next
    case 2
    show ?thesis unfolding 2 using only_thread_frame(1) [OF only_thread_refl] by auto
  next
    case 3
    show ?thesis unfolding 3 using only_thread_frame(1) [OF rem(1)] rem(2) by auto
  qed
qed

lemma wake_up_only:
  assumes "thread_wake_up t s = Some s'"
  shows "only_thread t s s' \<and> timer_at (t, Delayed_event) s' = None
     \<and> timer_at (t, Deadline_event) s' = timer_at (t, Deadline_event) s
     \<and> (\<exists>r. threads s' t = (threads s t)\<lparr>state := POK_STATE_RUNNABLE, wait_result := r\<rparr>)"
proof -
  define v where "v = thread_delay_event_cancel t (upd_thread t (\<lambda>th. th\<lparr>state := POK_STATE_RUNNABLE\<rparr>) s)"
  have v: "only_thread t s v" "timer_at (t, Delayed_event) v = None"
    "timer_at (t, Deadline_event) v = timer_at (t, Deadline_event) s" "threads v t = (threads s t)\<lparr>state := POK_STATE_RUNNABLE\<rparr>"
    unfolding v_def thread_delay_event_cancel_def by (intro only_thread_frame) (simp_all add: timer_at_remove)
  define w where "w = thread_cancel_wait t v"
  note c = cancel_wait_only [of t v, folded w_def]
  have w: "woken t s = w" by (simp add: woken_def w_def v_def)
  have e: "s' = w \<or> thread_set_eligible t w = Some s'"
    using assms by (auto simp: thread_wake_up_eq w split: if_splits)
  have fr: "threads s' = threads w \<and> only_thread t w s' \<and> (\<forall>k. timer_at k s' = timer_at k w)"
    using e
  proof
    assume "s' = w"
    then show ?thesis by simp
  next
    assume "thread_set_eligible t w = Some s'"
    then show ?thesis by (rule set_eligible_only)
  qed
  then have f: "threads s' = threads w" "only_thread t w s'" "timer_at k s' = timer_at k w" for k by blast+
  obtain r where r: "threads w t = (threads v t)\<lparr>wait_result := r\<rparr>" using c by blast
  show ?thesis
  proof (intro conjI)
    show "only_thread t s s'" by (rule only_thread_trans [OF only_thread_trans [OF v(1) conjunct1 [OF c]] f(2)])
    show "timer_at (t, Delayed_event) s' = None" "timer_at (t, Deadline_event) s' = timer_at (t, Deadline_event) s"
      using c f(3) v(2,3) by simp_all
    show "\<exists>r. threads s' t = (threads s t)\<lparr>state := POK_STATE_RUNNABLE, wait_result := r\<rparr>"
      by (rule exI [of _ r]) (simp only: f(1) r v(4))
  qed
qed

lemma delay_event_inv:
  assumes "thr_inv {} s" "ordinary s t" "mode s = POK_PARTITION_MODE_NORMAL" "state (threads s t) = POK_STATE_WAITING"
  shows "thr_inv {} (thread_delay_event t tp Thread_wake_up s)"
proof (rule thr_inv_close)
  have ne: "t \<notin> set (eligible_threads s)" and ok: "thread_ok s t"
    using thr_inv_thread [OF assms(1), of t] assms(4) by (simp_all add: may_run_def)
  show "thr_inv {t} (thread_delay_event t tp Thread_wake_up s)"
    by (rule thr_inv_delayed_ops(3) [OF thr_inv_open [OF assms(1) ne]])
  show "\<not> may_run (thread_delay_event t tp Thread_wake_up s) t" using assms(4) by (simp add: may_run_def)
  have q: "is_in_wait_queue u (upd_events g v) = is_in_wait_queue u v" for u g v by (simp add: is_in_wait_queue_def)
  show "thread_ok (thread_delay_event t tp Thread_wake_up s) t"
    using ok assms thr_inv_bounds [OF assms(1,2)]
    by (simp add: thread_delay_event_def thread_ok_def ordinary_def q)
qed

lemma release_thread_spec:
  assumes inv: "thr_inv {} s" "mode s = POK_PARTITION_MODE_NORMAL" "sched_local_recheck_needed s"
    and t: "state (threads s t) = POK_STATE_STOPPED \<or> state (threads s t) = POK_STATE_WAITING \<and> ordinary s t"
    and timers: "\<And>k. timer_at (t, k) s = None"
    and R: "get_next_periodic_processing_start (gsched s) = Some R" "\<not> pok_time_is_infinity R"
    and c: "pok_time_is_infinity c \<or> c = R"
  shows "\<exists>c' s'. release_thread now c t s = Some (c', s') \<and> (pok_time_is_infinity c' \<or> c' = R)
     \<and> thr_inv {} s' \<and> only_thread t s s' \<and> released now R t (threads s t) s'"
proof (cases "state (threads s t) = POK_STATE_STOPPED")
  case True
  then show ?thesis using inv c timers by (simp add: release_thread_def released_def)
next
  case False
  then have w: "state (threads s t) = POK_STATE_WAITING" "ordinary s t" using t by auto
  let ?st = "thread_start_at now R (threads s t)"
  define s1 where "s1 = (if pok_time_is_infinity (thr_period (threads s t)) then s
     else upd_thread t (\<lambda>th. th\<lparr>next_activation := ?st\<rparr>) s)"
  define c' where "c' = (if pok_time_is_infinity (thr_period (threads s t)) then c else R)"
  have c': "release_time now c t s = Some (?st, c', s1)" "pok_time_is_infinity c' \<or> c' = R"
    using c R by (auto simp: release_time_def s1_def c'_def thread_start_at_def Let_def)
  have same: "same_thread (th\<lparr>next_activation := x\<rparr>) th" for th x by (simp add: same_thread_def)
  have i1: "thr_inv {} s1" using inv(1) by (simp add: s1_def same_thread_inv same)
  have o1: "only_thread t s s1" by (simp add: s1_def only_thread_frame)
  have f1: "state (threads s1 t) = POK_STATE_WAITING" "ordinary s1 t" "mode s1 = POK_PARTITION_MODE_NORMAL"
    "timer_at k s1 = timer_at k s" "suspended (threads s1 t) = suspended (threads s t)" 
    "time_capacity (threads s1 t) = time_capacity (threads s t)"
    "\<not> pok_time_is_infinity (thr_period (threads s t)) \<longrightarrow> next_activation (threads s1 t) = ?st" for k
    using w inv(2) by (simp_all add: s1_def ordinary_def)
  define go where "go s2 \<longleftrightarrow> (if ?st \<le> now then thread_wake_up t s1
     else Some (thread_delay_event t ?st Thread_wake_up s1)) = Some s2" for s2
  have "\<exists>s2. go s2" using thread_wake_up_total [OF i1 f1(1-3)] by (simp add: go_def)
  then obtain s2 where s2: "go s2" ..
  have i2: "thr_inv {} s2" using s2 thread_wake_up_inv [OF i1 f1(2,3)] delay_event_inv [OF i1 f1(2,3,1)]
    by (auto simp: go_def split: if_splits)
  have o2: "only_thread t s1 s2" using s2 wake_up_only [of t s1 s2]
    by (auto simp: go_def thread_delay_event_def intro!: only_thread_frame split: if_splits)
  have f2: "timer_at (t, Deadline_event) s2 = None" "suspended (threads s2 t) = suspended (threads s t)"
    "time_capacity (threads s2 t) = time_capacity (threads s t)" 
    "\<not> pok_time_is_infinity (thr_period (threads s t)) \<longrightarrow> next_activation (threads s2 t) = ?st"
    "if ?st \<le> now then state (threads s2 t) = POK_STATE_RUNNABLE \<and> timer_at (t, Delayed_event) s2 = None
     else state (threads s2 t) = POK_STATE_WAITING \<and> timer_at (t, Delayed_event) s2 = Some ?st
        \<and> thread_delayed_func (threads s2 t) = Thread_wake_up"
    using s2 wake_up_only [of t s1 s2] f1 timers
    by (auto simp: go_def thread_delay_event_def timer_at_add split: if_splits)
  define s3 where "s3 = (if \<not> pok_time_is_infinity (time_capacity (threads s2 t))
     then thread_set_deadline t (time_add ?st (time_capacity (threads s2 t))) s2 else s2)"
  have r: "release_thread now c t s = Some (c', s3)"
    using s2 c'(1) False by (simp add: release_thread_def go_def s3_def split: if_splits)
  have "only_thread t s s2" by (rule only_thread_trans [OF o1 o2])
  then have o3: "only_thread t s s3" by (simp add: s3_def thread_set_deadline_def only_thread_frame)
  have "call_good s2" using i2 o2 o1 inv(3) by (simp add: call_good_def settled_def only_thread_def)
  moreover have "ordinary s2 t" "mode s2 = POK_PARTITION_MODE_NORMAL" "state (threads s2 t) \<noteq> POK_STATE_STOPPED"
    using o2 f1(2,3) f2(5) by (auto simp: only_thread_def ordinary_def split: if_splits)
  ultimately have "thr_inv {} s3" using set_deadline_good i2 by (simp add: s3_def call_good_def)
  moreover have "released now R t (threads s t) s3"
    using f2 False by (auto simp: released_def s3_def thread_set_deadline_def timer_at_add split: if_splits)
  ultimately show ?thesis using r c'(2) o3 by blast
qed

subsection \<open>All threads\<close>

lemma released_other: "released now R t th s \<Longrightarrow> only_thread u s s' \<Longrightarrow> t \<noteq> u \<Longrightarrow> released now R t th s'"
  by (simp add: released_def only_thread_def)

definition to_release :: "arinc \<Rightarrow> nat \<Rightarrow> bool" where
  "to_release s t \<longleftrightarrow> (state (threads s t) = POK_STATE_STOPPED \<or> state (threads s t) = POK_STATE_WAITING \<and> ordinary s t)
     \<and> (\<forall>k. timer_at (t, k) s = None)"

lemma to_release_other: "to_release s t \<Longrightarrow> only_thread u s s' \<Longrightarrow> t \<noteq> u \<Longrightarrow> to_release s' t"
  by (simp add: to_release_def only_thread_def ordinary_def)

lemma release_threads_spec:
  assumes "distinct ts" "thr_inv {} s" "mode s = POK_PARTITION_MODE_NORMAL" "sched_local_recheck_needed s"
    "\<And>t. t \<in> set ts \<Longrightarrow> to_release s t"
    "get_next_periodic_processing_start (gsched s) = Some R" "\<not> pok_time_is_infinity R"
    "pok_time_is_infinity c \<or> c = R"
  shows "\<exists>s'. release_threads now c ts s = Some s' \<and> thr_inv {} s' \<and> mode s' = POK_PARTITION_MODE_NORMAL
     \<and> sched_local_recheck_needed s' \<and> lock_level s' = lock_level s
     \<and> (\<forall>t \<in> set ts. released now R t (threads s t) s')
     \<and> (\<forall>t th. t \<notin> set ts \<longrightarrow> released now R t th s \<longrightarrow> released now R t th s')"
  using assms
proof (induction ts arbitrary: s c)
  case (Cons t ts)
  have tr: "to_release s t" using Cons.prems(5) by simp
  obtain c' u where u: "release_thread now c t s = Some (c', u)" "pok_time_is_infinity c' \<or> c' = R"
    "thr_inv {} u" "only_thread t s u" "released now R t (threads s t) u"
    using release_thread_spec [OF Cons.prems(2-4) _ _ Cons.prems(6-8), of t now] tr by (auto simp: to_release_def)
  have f: "mode u = POK_PARTITION_MODE_NORMAL" "sched_local_recheck_needed u" "gsched u = gsched s" "lock_level u = lock_level s"
    using u(4) Cons.prems(3,4) by (simp_all add: only_thread_def)
  have oth: "to_release u v" if "v \<in> set ts" for v
    using to_release_other [OF Cons.prems(5) u(4)] that Cons.prems(1) by auto
  from Cons.IH [OF _ u(3) f(1,2) oth _ Cons.prems(7) u(2)] Cons.prems(1,6) f(3)
  obtain s' where s': "release_threads now c' ts u = Some s'" "thr_inv {} s'" "mode s' = POK_PARTITION_MODE_NORMAL"
    "sched_local_recheck_needed s'" "lock_level s' = lock_level u"
    "\<forall>t \<in> set ts. released now R t (threads u t) s'"
    "\<forall>t th. t \<notin> set ts \<longrightarrow> released now R t th u \<longrightarrow> released now R t th s'"
    by auto
  have "threads u v = threads s v" if "v \<in> set ts" for v using that u(4) Cons.prems(1) by (auto simp: only_thread_def)
  then show ?case using s' u f(4) Cons.prems(1) released_other [OF _ u(4)] by (intro exI [of _ s']) auto
qed simp

lemma mode_normal_inv:
  assumes "thr_inv {} s" "mode s \<noteq> POK_PARTITION_MODE_NORMAL"
    "\<And>t. ordinary s t \<Longrightarrow> state (threads s t) \<in> {POK_STATE_STOPPED, POK_STATE_WAITING}"
  shows "thr_inv {} (pok_sched_local_invalidate (s\<lparr>clock_pos := n, mode := POK_PARTITION_MODE_NORMAL, lock_level := 0\<rparr>))"
    and "timer_at (t, k) s = None"
proof -
  have th: "t \<notin> set (eligible_threads s)" "\<not> dq_active (partition_delayed_events s) (t, k)" "\<not> is_in_wait_queue t s" for t k
    using thr_inv_thread [OF assms(1), of t] assms(2) by (cases k; auto simp: may_run_def thread_ok_def)+
  then show "timer_at (t, k) s = None" by (simp add: timer_at_def)
  let ?s = "s\<lparr>clock_pos := n, mode := POK_PARTITION_MODE_NORMAL, lock_level := 0\<rparr>"
  have "\<not> may_run ?s u" for u
    using assms(3) [of u] by (cases "ordinary s u") (auto simp: may_run_def ordinary_def)
  moreover have "thread_ok ?s u" for u using th [of u] by (simp add: thread_ok_def) (simp add: is_in_wait_queue_def)
  ultimately have "thr_inv {} ?s" using assms(1) th by (simp add: thr_inv_def)
  then show "thr_inv {} (pok_sched_local_invalidate ?s)" by simp
qed

lemma mode_normal_spec:
  assumes "thr_inv {} s" and "mode s \<noteq> POK_PARTITION_MODE_NORMAL"
    and "\<And>t. ordinary s t \<Longrightarrow> state (threads s t) \<in> {POK_STATE_STOPPED, POK_STATE_WAITING}"
    and "\<And>e. thread_error s = Some e \<Longrightarrow> state (threads s e) = POK_STATE_STOPPED"
    and "get_next_periodic_processing_start (gsched s) = Some R" and "\<not> pok_time_is_infinity R"
  shows "\<exists>s'. partition_set_mode_normal s = Some s' \<and> thr_inv {} s' \<and> mode s' = POK_PARTITION_MODE_NORMAL
     \<and> lock_level s' = 0 \<and> sched_local_recheck_needed s'
     \<and> (\<forall>t. ordinary s t \<longrightarrow> released (clock s (clock_pos s)) R t (threads s t) s')"
proof -
  let ?s = "pok_sched_local_invalidate (s\<lparr>clock_pos := clock_pos s + 1, mode := POK_PARTITION_MODE_NORMAL, lock_level := 0\<rparr>)"
  note inv = mode_normal_inv [OF assms(1-3)]
  have tn: "timer_at (t, k) ?s = None" for t k using inv(2) timer_at_cong [of ?s s] by simp
  have tr: "to_release ?s t" if "t \<in> set [1..<nthreads_used s]" for t
  proof (cases "thread_error s = Some t")
    case True
    then show ?thesis using assms(4) tn by (simp add: to_release_def)
  next
    case False
    then have "ordinary s t" using that by (simp add: ordinary_def)
    then show ?thesis using assms(3) [of t] tn by (auto simp: to_release_def ordinary_def)
  qed
  obtain s' where s': "release_threads (clock s (clock_pos s)) POK_TIME_INFINITY [1..<nthreads_used s] ?s = Some s'"
    "thr_inv {} s'" "mode s' = POK_PARTITION_MODE_NORMAL" "sched_local_recheck_needed s'" "lock_level s' = 0"
    "\<forall>t \<in> set [1..<nthreads_used s]. released (clock s (clock_pos s)) R t (threads s t) s'"
    using release_threads_spec [where ts = "[1..<nthreads_used s]" and s = ?s and R = R and c = POK_TIME_INFINITY
      and now = "clock s (clock_pos s)", OF distinct_upt inv(1) _ _ tr] assms(5,6)
    by (auto simp del: set_upt One_nat_def)
  have "partition_set_mode_normal s = Some s'"
    using s'(1) by (simp add: partition_set_mode_normal_def jet_system_time_def Let_def)
  moreover have "ordinary s t \<Longrightarrow> t \<in> set [1..<nthreads_used s]" for t by (simp add: ordinary_def)
  ultimately show ?thesis using s' by blast
qed

text \<open>
  C17: the switch to normal mode never fails an assertion, keeps the invariant of the local
  scheduler, unlocks preemption and asks for a rescheduling. Every thread that had been started
  runs if its time, counted from now or from the next periodic processing start, has come, and
  waits with a timer for that time if not; its deadline is set from its start, and the activation
  that is recorded for a periodic thread is its start. Stopped threads are not touched.
\<close>

theorem mode_normal_releases:
  assumes "thr_inv {} s" and "mode s \<noteq> POK_PARTITION_MODE_NORMAL"
    and "\<And>t. ordinary s t \<Longrightarrow> state (threads s t) \<in> {POK_STATE_STOPPED, POK_STATE_WAITING}"
    and "\<And>e. thread_error s = Some e \<Longrightarrow> state (threads s e) = POK_STATE_STOPPED"
    and "get_next_periodic_processing_start (gsched s) = Some R" and "\<not> pok_time_is_infinity R"
  shows "\<exists>s'. partition_set_mode_normal s = Some s' \<and> thr_inv {} s' \<and> mode s' = POK_PARTITION_MODE_NORMAL
     \<and> lock_level s' = 0 \<and> sched_local_recheck_needed s'
     \<and> (\<forall>t. ordinary s t \<longrightarrow> released (clock s (clock_pos s)) R t (threads s t) s')"
  by (rule mode_normal_spec [OF assms])

text \<open>The example partition before the switch: thread 1 periodic and started, thread 2 stopped.\<close>

definition example_init :: arinc where
  "example_init = (upd_thread 1 (\<lambda>th. th\<lparr>state := POK_STATE_WAITING, thr_period := 200, time_capacity := 40\<rparr>)
     (upd_thread 2 (\<lambda>th. th\<lparr>state := POK_STATE_STOPPED\<rparr>) example_arinc))
     \<lparr>mode := POK_PARTITION_MODE_INIT_COLD, lock_level := 1, thread_current := Some 0, thread_selected := Some 0,
      eligible_threads := []\<rparr>"

lemma example_init_fields:
  "threads example_init 1 = (example_thread 1)\<lparr>state := POK_STATE_WAITING, thr_period := 200, time_capacity := 40\<rparr>"
  "threads example_init 2 = (example_thread 2)\<lparr>state := POK_STATE_STOPPED\<rparr>" "nthreads_used example_init = 3"
  "thread_error example_init = None" "mode example_init = POK_PARTITION_MODE_INIT_COLD" "gsched example_init = example_sched"
  "clock example_init (clock_pos example_init) = 10"
  by (simp_all add: example_init_def) (simp_all add: upd_thread_def example_arinc_def)

lemma example_init_inv: "thr_inv {} example_init"
  by (auto simp: thr_inv_def example_init_def example_arinc_def thr_simps dq_inv_def dq_active_def
      is_in_wait_queue_def upd_thread_def example_thread_def)

lemma example_sched_start: "get_next_periodic_processing_start example_sched = Some 100"
  by (simp add: get_next_periodic_processing_start_def example_sched_def numeral_2_eq_2 Let_def
      time_add_def time_wrap_def)

theorem mode_normal_releases_witness:
  "\<exists>s'. partition_set_mode_normal example_init = Some s' \<and> thr_inv {} s' \<and> mode s' = POK_PARTITION_MODE_NORMAL
     \<and> timer_at (1, Delayed_event) s' = Some 100 \<and> timer_at (1, Deadline_event) s' = Some 140
     \<and> next_activation (threads s' 1) = 100 \<and> state (threads s' 2) = POK_STATE_STOPPED"
proof -
  note f = example_init_fields
  have o: "ordinary example_init 1" "ordinary example_init 2" by (simp_all add: ordinary_def f)
  have st: "state (threads example_init t) \<in> {POK_STATE_STOPPED, POK_STATE_WAITING}" if "ordinary example_init t" for t
  proof -
    have "t = 1 \<or> t = 2" using that by (auto simp: ordinary_def f)
    then show ?thesis using f by auto
  qed
  obtain s' where s': "partition_set_mode_normal example_init = Some s'" "thr_inv {} s'" "mode s' = POK_PARTITION_MODE_NORMAL"
    "\<forall>t. ordinary example_init t \<longrightarrow> released 10 100 t (threads example_init t) s'"
    using mode_normal_releases [OF example_init_inv _ st, of 100] example_sched_start f
    by (auto simp: pok_time_is_infinity_def)
  from s'(4) o have "released 10 100 1 (threads example_init 1) s'" "released 10 100 2 (threads example_init 2) s'" by simp_all
  then show ?thesis using s'(1-3)
    by (simp add: released_def f thread_start_at_def example_thread_def pok_time_is_infinity_def time_add_def time_wrap_def
        del: One_nat_def)
qed

subsection \<open>The next activation of a periodic thread\<close>

lemma wait_timed_timers:
  assumes "thread_wait_timed t tp s = Some s'"
  shows "timer_at (t, Delayed_event) s' = Some tp" "next_activation (threads s' t) = next_activation (threads s t)"
    "time_capacity (threads s' t) = time_capacity (threads s t)" "thr_period (threads s' t) = thr_period (threads s t)"
  using assms
  by (auto simp: thread_wait_timed_def thread_wait_def thread_delay_event_def timer_at_add bind_Some split: if_splits)

lemma timer_at_other: "timer_at (t, Delayed_event) (thread_set_deadline t tp s) = timer_at (t, Delayed_event) s"
  by (simp add: thread_set_deadline_def timer_at_add)

lemma end_period_timer:
  assumes "pok_sched_end_period s = Some (Leave r, s')" "thread_current s = Some t"
  shows "timer_at (t, Delayed_event) s' = Some (time_add (next_activation (threads s t)) (thr_period (threads s t)))"
proof -
  let ?u = "upd_thread t (\<lambda>th. th\<lparr>next_activation := time_add (next_activation th) (thr_period th)\<rparr>)
      (upd_base (\<lambda>part. part\<lparr>preempt_local_disabled := True\<rparr>) s)"
  obtain w tp where "thread_wait_timed t (next_activation (threads ?u t)) ?u = Some w" "s' = thread_set_deadline t tp w"
    using assms by (auto simp: pok_sched_end_period_def bind_Some Let_def dest!: local_disable_spec split: if_splits)
  then show ?thesis using wait_timed_timers(1) by (simp add: timer_at_other)
qed

lemma normal_start_periodic:
  assumes "thread_delayed_start_internal t 0 s = Some (POK_ERRNO_OK, s')" "mode s = POK_PARTITION_MODE_NORMAL"
    "0 < thr_period (threads s t)" "get_next_periodic_processing_start (gsched s) = Some R" "is_time R"
  shows "timer_at (t, Delayed_event) s' = Some R
     \<and> next_activation (threads s' t) = time_add R (thr_period (threads s t)) \<and> thr_period (threads s' t) = thr_period (threads s t)"
proof -
  have per: "\<not> pok_time_is_infinity (thr_period (threads s t))" using assms(3) by (simp add: pok_time_is_infinity_def)
  have R0: "time_add R 0 = R" using assms(5) by (simp add: time_add_exact)
  define u where "u = upd_tshd t (\<lambda>d. d\<lparr>msection_count := 0, tshd_msection_entering := None,
      tshd_priority := base_priority (threads s t), thread_kernel_flags := 0\<rparr>)
      (upd_thread t (\<lambda>th. th\<lparr>priority := base_priority th, sp := False\<rparr>) s)"
  define v where "v = upd_thread t (\<lambda>th. th\<lparr>next_activation := time_add R (thr_period th)\<rparr>) u"
  have f: "thr_period (threads v t) = thr_period (threads s t)" "next_activation (threads v t) = time_add R (thr_period (threads s t))"
    "thread_start_times t 0 u = Some (R, v)" "mode u = mode s" "thr_period (threads u t) = thr_period (threads s t)"
    using per assms(4) by (simp_all add: v_def u_def thread_start_times_def R0 Let_def)
  define w where "w = (if \<not> pok_time_is_infinity (time_capacity (threads v t))
     then thread_set_deadline t (time_add R (time_capacity (threads v t))) v else v)"
  have sd: "threads (thread_set_deadline t tp x) = threads x" for tp x by (simp add: thread_set_deadline_def)
  have w: "threads w = threads v" by (simp add: w_def sd)
  have "thread_wait_timed t R w = Some s'"
    using assms(1,2) per f by (simp add: thread_delayed_start_internal_def w_def sd bind_Some Let_def pok_time_is_infinity_def
        flip: u_def split: if_splits)
  from wait_timed_timers [OF this] show ?thesis by (simp add: w f)
qed

text \<open>
  A periodic thread that is started in normal mode misses its second period. It begins at the
  next periodic processing start \<open>R\<close>; when it has done its work, the end of its period lets it wait
  until \<open>R + 2 * P\<close> and not until \<open>R + P\<close>, because the start has recorded \<open>R + P\<close> as its activation
  where the switch to normal mode records the start itself, and the end of a period adds \<open>P\<close>.
\<close>

theorem start_in_normal_mode_skips_period:
  assumes "pok_thread_start n s = Some (Leave POK_ERRNO_OK, s1)" and "mode s = POK_PARTITION_MODE_NORMAL"
    and "get_next_periodic_processing_start (gsched s) = Some R"
    and "thr_period (threads s n) = P" and "0 < P" and "0 \<le> R" and "R + 2 * P < 2 ^ 63"
    and "pok_sched_end_period s2 = Some (Leave POK_ERRNO_OK, s3)" and "thread_current s2 = Some n"
    and "next_activation (threads s2 n) = next_activation (threads s1 n)"
    and "thr_period (threads s2 n) = thr_period (threads s1 n)"
  shows "timer_at (n, Delayed_event) s1 = Some R \<and> timer_at (n, Delayed_event) s3 = Some (R + 2 * P)"
proof -
  let ?b = "upd_base (\<lambda>part. part\<lparr>preempt_local_disabled := True\<rparr>) s"
  have "thread_delayed_start_internal n 0 ?b = Some (POK_ERRNO_OK, s1)"
    using assms(1) by (auto simp: pok_thread_start_def bind_Some get_thread_ordinary dest!: local_disable_spec split: option.splits)
  moreover have R: "is_time R" "is_time (R + P)" "is_time (R + P + P)" using assms(5-7) by (simp_all add: is_time_def)
  ultimately have s1: "timer_at (n, Delayed_event) s1 = Some R" "next_activation (threads s1 n) = R + P" "thr_period (threads s1 n) = P"
    using normal_start_periodic [of n ?b s1 R] assms(2-5) by (simp_all add: time_add_exact)
  show ?thesis using s1 end_period_timer [OF assms(8,9)] assms(10,11) R(3) by (simp add: time_add_exact)
qed

definition example_periodic :: arinc where
  "example_periodic = (upd_thread 1 (\<lambda>th. th\<lparr>state := POK_STATE_STOPPED, thr_period := 200, time_capacity := 40\<rparr>)
     example_arinc)\<lparr>eligible_threads := [2]\<rparr>"

text \<open>Thread 1 in its first period, after the start above.\<close>

definition example_first_period :: arinc where
  "example_first_period = (upd_thread 1 (\<lambda>th. th\<lparr>thr_period := 200, time_capacity := 40, next_activation := 300\<rparr>)
     example_arinc)\<lparr>thread_current := Some 1\<rparr>"

theorem start_in_normal_mode_skips_period_witness:
  "\<exists>s1 s3. pok_thread_start 1 example_periodic = Some (Leave POK_ERRNO_OK, s1)
     \<and> pok_sched_end_period example_first_period = Some (Leave POK_ERRNO_OK, s3)
     \<and> timer_at (1, Delayed_event) s1 = Some 100 \<and> timer_at (1, Delayed_event) s3 = Some 500"
proof -
  have m: "mode example_periodic = POK_PARTITION_MODE_NORMAL" "gsched example_periodic = example_sched"
    "thr_period (threads example_periodic 1) = 200"
    by (simp_all add: example_periodic_def) (simp_all add: example_arinc_def upd_thread_def)
  obtain s1 where s1: "pok_thread_start 1 example_periodic = Some (Leave POK_ERRNO_OK, s1)"
    "next_activation (threads s1 1) = 300" "thr_period (threads s1 1) = 200"
  proof -
    let ?b = "upd_base (\<lambda>part. part\<lparr>preempt_local_disabled := True\<rparr>) example_periodic"
    have st: "state (threads ?b 1) = POK_STATE_STOPPED" "thr_period (threads ?b 1) = 200" "gsched ?b = example_sched"
      "mode ?b = POK_PARTITION_MODE_NORMAL"
      by (simp_all add: example_periodic_def) (simp_all add: example_arinc_def)
    have "\<exists>x. thread_delayed_start_internal 1 0 ?b = Some (POK_ERRNO_OK, x)"
      using st by (simp add: thread_delayed_start_internal_def pok_time_is_infinity_def thread_start_times_def
          example_sched_start thread_wait_timed_def thread_wait_def kassert_def time_add_def time_wrap_def Let_def
          thread_set_deadline_def upd_events_def)
    then obtain x where x: "thread_delayed_start_internal 1 0 ?b = Some (POK_ERRNO_OK, x)" by blast
    have "is_time 100" by (simp add: is_time_def)
    from normal_start_periodic [OF x _ _ _ this] st example_sched_start
    have "next_activation (threads x 1) = 300" "thr_period (threads x 1) = 200"
      by (simp_all add: time_add_def time_wrap_def)
    moreover have "pok_thread_start 1 example_periodic = Some (Leave POK_ERRNO_OK, x)"
    proof -
      have "get_thread_by_id 1 example_periodic = Some 1" "pok_preemption_local_disable example_periodic = Some ?b"
        by (simp_all add: get_thread_by_id_def pok_preemption_local_disable_def kassert_def example_periodic_def)
          (simp_all add: example_arinc_def upd_thread_def example_parts_def example_partition_def example_sched_def)
      then show ?thesis using x by (simp add: pok_thread_start_def)
    qed
    ultimately show thesis using that by blast
  qed
  have "\<exists>s3. pok_sched_end_period example_first_period = Some (Leave POK_ERRNO_OK, s3)"
    by (simp add: pok_sched_end_period_def example_first_period_def example_arinc_def upd_thread_def example_thread_def
        pok_thread_is_periodic_def pok_time_is_infinity_def thread_is_waiting_allowed_def pok_preemption_local_disable_def
        kassert_def thread_wait_timed_def thread_wait_def time_add_def time_wrap_def upd_base_def
        example_parts_def example_partition_def Let_def del: One_nat_def)
  then obtain s3 where s3: "pok_sched_end_period example_first_period = Some (Leave POK_ERRNO_OK, s3)" by blast
  have f: "thread_current example_first_period = Some 1" "next_activation (threads example_first_period 1) = 300"
    "thr_period (threads example_first_period 1) = 200"
    by (simp_all add: example_first_period_def)
  from start_in_normal_mode_skips_period [OF s1(1) m(1) _ m(3) _ _ _ s3 f(1), of 100] s1 f m(2) example_sched_start s3
  show ?thesis by simp
qed

text \<open>
  \<open>pok_sched_replenish\<close> of a thread with a time capacity. A finite budget moves the deadline to
  the end of the budget, counted from now, unless the thread is periodic and this is not before
  its recorded activation; an infinite budget takes the deadline away from an aperiodic thread.
  In the refused cases the deadline stays. So a periodic thread that was started before the switch
  to normal mode, whose recorded activation is its release, can never replenish in its first period.
\<close>

theorem replenish_outcome:
  assumes "thread_current s = Some t" and "thread_error s \<noteq> Some t" and "mode s = POK_PARTITION_MODE_NORMAL"
    and "\<not> preempt_local_disabled (base_part s)" and "\<not> pok_time_is_infinity (time_capacity (threads s t))"
    and "is_time (clock s (clock_pos s) + budget)"
  shows "\<exists>r s'. pok_sched_replenish (Some budget) s = Some (Leave r, s')
     \<and> (if pok_time_is_infinity budget then r = (if pok_time_is_infinity (thr_period (threads s t)) then POK_ERRNO_OK else POK_ERRNO_MODE)
        else r = (if pok_time_is_infinity (thr_period (threads s t))
                     \<or> as_unsigned (clock s (clock_pos s) + budget) < as_unsigned (next_activation (threads s t))
                  then POK_ERRNO_OK else POK_ERRNO_MODE))
     \<and> timer_at (t, Deadline_event) s' =
         (if r = POK_ERRNO_MODE then timer_at (t, Deadline_event) s
          else if pok_time_is_infinity budget then None else Some (clock s (clock_pos s) + budget))
     \<and> (\<forall>k. k \<noteq> (t, Deadline_event) \<longrightarrow> timer_at k s' = timer_at k s) \<and> threads s' = threads s"
proof -
  let ?b = "upd_base (\<lambda>part. part\<lparr>preempt_local_disabled := True\<rparr>) s"
  have d: "pok_preemption_local_disable s = Some ?b" using assms(4) by (simp add: pok_preemption_local_disable_def)
  have b: "clock ?b = clock s" "clock_pos ?b = clock_pos s" "threads ?b = threads s" "timer_at k ?b = timer_at k s"
    "timer_at k (s\<lparr>clock_pos := n\<rparr>) = timer_at k s" "timer_at k (?b\<lparr>clock_pos := n\<rparr>) = timer_at k s" for k n
    by (simp_all add: timer_at_def upd_base_def)
  show ?thesis
    using assms(1-3,5) time_add_exact [OF assms(6)]
    by (cases "pok_time_is_infinity budget")
      (auto simp: pok_sched_replenish_def d jet_system_time_def b thread_set_deadline_def timer_at_add timer_at_remove)
qed

theorem replenish_outcome_witness:
  "\<exists>s'. pok_sched_replenish (Some 50) example_first_period = Some (Leave POK_ERRNO_OK, s')
     \<and> timer_at (1, Deadline_event) s' = Some 60"
proof -
  have f: "thread_current example_first_period = Some 1" "thread_error example_first_period \<noteq> Some 1"
    "mode example_first_period = POK_PARTITION_MODE_NORMAL" "\<not> preempt_local_disabled (base_part example_first_period)"
    "next_activation (threads example_first_period 1) = 300" "time_capacity (threads example_first_period 1) = 40"
    "clock example_first_period (clock_pos example_first_period) = 10" "thr_period (threads example_first_period 1) = 200"
    by (simp_all add: example_first_period_def)
      (simp_all add: upd_thread_def example_arinc_def example_parts_def example_partition_def)
  from replenish_outcome [OF f(1-4), of 50] f(5-8) show ?thesis
    by (auto simp: pok_time_is_infinity_def is_time_def as_unsigned_def)
qed

end
