(* ===== verification/PartitionLife.thy ===== *)
theory PartitionLife
  imports ModeSwitch
begin

section \<open>Restarts and the preemption lock\<close>

text \<open>
  The state in which a partition starts, and what of its former life it keeps; then the bounds
  of the preemption lock and its effect on the choice of the thread.
\<close>

subsection \<open>The start of a partition\<close>

lemma for_upto_induct:
  assumes "P s" "\<And>i s. P s \<Longrightarrow> P (f i s)"
  shows "P (for_upto a b f s)"
proof -
  have "P (fold f xs s)" for xs using assms by (induction xs arbitrary: s) auto
  then show ?thesis by (simp add: for_upto_def)
qed

lemma port_init_loop:
  "length (ports_queuing (for_upto 0 n pok_port_queuing_init s)) = length (ports_queuing s)
   \<and> (\<forall>i < length (ports_queuing s). i < n \<longrightarrow> waiters (ports_queuing (for_upto 0 n pok_port_queuing_init s) ! i) = []
        \<and> \<not> pq_is_created (ports_queuing (for_upto 0 n pok_port_queuing_init s) ! i))"
  by (induction n) (auto simp: for_upto_def pok_port_queuing_init_def upd_port_def nth_list_update less_Suc_eq)

text \<open>The frame of the loops over ports and threads.\<close>

definition start_frame :: "arinc \<Rightarrow> arinc \<Rightarrow> bool" where
  "start_frame s s' \<longleftrightarrow> mode s' = mode s \<and> nthreads s' = nthreads s \<and> threads s' = threads s
     \<and> nthreads_unrecoverable s' = nthreads_unrecoverable s \<and> gsched s' = gsched s \<and> parts s' = parts s"

lemma start_frame_loops:
  "start_frame s (for_upto 0 n pok_port_queuing_init s)" "start_frame s (for_upto 0 n pok_port_sampling_init s)"
proof -
  show "start_frame s (for_upto 0 n pok_port_queuing_init s)"
    by (rule for_upto_induct) (simp_all add: start_frame_def pok_port_queuing_init_def upd_port_def)
  show "start_frame s (for_upto 0 n pok_port_sampling_init s)"
    by (rule for_upto_induct) (simp_all add: start_frame_def pok_port_sampling_init_def upd_port_sampling_def)
qed

lemma sampling_loop_ports: "ports_queuing (for_upto 0 n pok_port_sampling_init s) = ports_queuing s"
  by (rule for_upto_induct [where P = "\<lambda>v. ports_queuing v = ports_queuing s"])
    (simp_all add: pok_port_sampling_init_def upd_port_sampling_def)

definition reset_frame :: "arinc \<Rightarrow> arinc \<Rightarrow> bool" where
  "reset_frame s s' \<longleftrightarrow> mode s' = mode s \<and> nthreads s' = nthreads s
     \<and> nthreads_unrecoverable s' = nthreads_unrecoverable s \<and> ports_queuing s' = ports_queuing s
     \<and> eligible_threads s' = eligible_threads s \<and> partition_delayed_events s' = partition_delayed_events s
     \<and> (\<forall>t. error_bits (threads s' t) = error_bits (threads s t) \<and> is_unrecoverable (threads s' t) = is_unrecoverable (threads s t))"

lemma reset_loop: "reset_frame s (for_upto 0 n thread_reset s)"
  by (rule for_upto_induct) (simp_all add: reset_frame_def thread_reset_def)

text \<open>The state of a partition that has just started.\<close>

definition just_started :: "arinc \<Rightarrow> bool" where
  "just_started s \<longleftrightarrow> mode s \<noteq> POK_PARTITION_MODE_NORMAL \<and> thread_current s = Some MAIN \<and> nthreads_used s = 1
     \<and> thread_error s = None \<and> error_list s = [] \<and> lock_level s = 1 \<and> thread_locked s = Some MAIN
     \<and> eligible_threads s = [] \<and> dq_list (partition_delayed_events s) = []
     \<and> (\<forall>p \<in> set (ports_queuing s). waiters p = [] \<and> \<not> pq_is_created p)
     \<and> state (threads s MAIN) = POK_STATE_RUNNABLE \<and> msection_count (tshd s MAIN) = 0"

lemma partition_start_spec:
  assumes "partition_arinc_start s = Some s'" "mode s \<noteq> POK_PARTITION_MODE_NORMAL \<or> restarted_externally (base_part s)"
  shows "just_started s' \<and> nthreads s' = nthreads s \<and> nthreads_unrecoverable s' = nthreads_unrecoverable s
     \<and> (\<forall>t. error_bits (threads s' t) = error_bits (threads s t) \<and> is_unrecoverable (threads s' t) = is_unrecoverable (threads s t))"
proof -
  define s1 where "s1 = (if restarted_externally (base_part s)
               then (upd_base (\<lambda>part. part\<lparr>restarted_externally := False\<rparr>) s)\<lparr>mode := POK_PARTITION_MODE_INIT_COLD\<rparr>
               else s)"
  define s2 where "s2 = (if heap_size s1 > 0 then s1\<lparr>kshd_heap := Some (user_heap s1, user_heap s1 + heap_size s1)\<rparr>
               else s1\<lparr>kshd_heap := None\<rparr>)"
  define s3 where "s3 = for_upto 0 (length (ports_queuing s2)) pok_port_queuing_init s2"
  define s4 where "s4 = for_upto 0 (length (ports_sampling s3)) pok_port_sampling_init s3"
  define s5 where "s5 = upd_events (\<lambda>d. d\<lparr>dq_list := []\<rparr>) (s4\<lparr>eligible_threads := []\<rparr>)"
  define s6 where "s6 = for_upto 0 (nthreads s5) thread_reset s5"
  define s7 where "s7 = s6\<lparr>nthreads_used := 0, thread_current := None, thread_error := None, error_list := []\<rparr>"
  define s8 where "s8 = upd_thread MAIN (\<lambda>th. th\<lparr>entry := elf_entry s7, base_priority := 0, thr_period := POK_TIME_INFINITY,
                time_capacity := POK_TIME_INFINITY, deadline := DEADLINE_SOFT,
                thread_name := strncpy (thread_name th) main_thread_name MAX_NAME_LENGTH,
                user_stack_size := main_user_stack_size s7\<rparr>) s7"
  have eq: "partition_arinc_start s = (case thread_create MAIN s8 of (created, x) \<Rightarrow> do {
      kassert created;
      Some (sched_arinc_start (x\<lparr>nthreads_used := POK_PARTITION_ARINC_MAIN_THREAD_ID + 1, kshd_current_thread_id := None,
        kshd_max_n_threads := nthreads x, kshd_partition_mode := mode x\<rparr>))
    })"
    unfolding partition_arinc_start_def Let_def s8_def s7_def s6_def s5_def s4_def s3_def s2_def s1_def
    by (intro arg_cong [where f = "\<lambda>g. case_prod g _"] ext) simp
  obtain s9 where s9: "thread_create MAIN s8 = (True, s9)"
    and s': "s' = sched_arinc_start (s9\<lparr>nthreads_used := 1, kshd_current_thread_id := None,
       kshd_max_n_threads := nthreads s9, kshd_partition_mode := mode s9\<rparr>)"
    using assms(1) unfolding eq by (auto split: prod.splits if_splits)
  have m: "mode s1 \<noteq> POK_PARTITION_MODE_NORMAL" "threads s1 = threads s" "nthreads s1 = nthreads s"
    "nthreads_unrecoverable s1 = nthreads_unrecoverable s"
    using assms(2) by (auto simp: s1_def)
  have f2: "start_frame s1 s2" by (simp add: s2_def start_frame_def)
  have f4: "start_frame s2 s4" unfolding s4_def s3_def using start_frame_loops by (simp add: start_frame_def)
  have p3: "waiters p = [] \<and> \<not> pq_is_created p" if "p \<in> set (ports_queuing s3)" for p
    using that port_init_loop [of "length (ports_queuing s2)" s2] by (auto simp: s3_def in_set_conv_nth)
  have p4: "ports_queuing s4 = ports_queuing s3" by (simp add: s4_def sampling_loop_ports)
  have f6: "reset_frame s5 s6" unfolding s6_def by (rule reset_loop)
  have e: "eligible_threads s6 = []" "dq_list (partition_delayed_events s6) = []" "ports_queuing s6 = ports_queuing s3"
    using f6 p4 by (auto simp: reset_frame_def s5_def upd_events_def)
  have f: "mode s6 \<noteq> POK_PARTITION_MODE_NORMAL" "nthreads s6 = nthreads s" "nthreads_unrecoverable s6 = nthreads_unrecoverable s"
    "error_bits (threads s6 t) = error_bits (threads s t)" "is_unrecoverable (threads s6 t) = is_unrecoverable (threads s t)" for t
    using f6 f4 f2 m by (simp_all add: reset_frame_def start_frame_def s5_def) (simp_all add: upd_events_def)
  have c: "s9 = upd_thread MAIN (\<lambda>th. th\<lparr>sp := False, priority := base_priority th, state := POK_STATE_STOPPED,
       suspended := False, donate_target := None, first_donator := None, next_donator := None, msection_entering := None\<rparr>)
      (upd_tshd MAIN (\<lambda>d. d\<lparr>msection_count := 0, tshd_msection_entering := None\<rparr>)
        (upd_thread MAIN (\<lambda>th. th\<lparr>init_stack_addr := ustack s8 MAIN (user_stack_size (threads s8 MAIN))\<rparr>) s8))"
    using s9 by (auto simp: thread_create_def Let_def split: if_splits)
  show ?thesis using f e p3
    by (simp add: s' c just_started_def sched_arinc_start_def Let_def s8_def s7_def) (simp add: upd_tshd_def)
qed

lemma just_started_inv:
  assumes "just_started s" "0 < nthreads s" "nthreads s < 65536"
  shows "thr_inv {} s" "chosen s = Some MAIN" "running s MAIN"
proof -
  have no: "\<not> ordinary s t" for t using assms(1) by (auto simp: just_started_def ordinary_def)
  have wq: "\<not> is_in_wait_queue t s" for t using assms(1) by (auto simp: just_started_def is_in_wait_queue_def)
  have cw: "concat (map waiters (ports_queuing s)) = []" using assms(1) by (simp add: just_started_def)
  show "thr_inv {} s" unfolding thr_inv_def cw using assms no wq
    by (simp add: just_started_def may_run_def thread_ok_def dq_active_def dq_inv_def)
  show "chosen s = Some MAIN" using assms(1) by (simp add: just_started_def chosen_def)
  show "running s MAIN" using assms(1) no by (simp add: just_started_def running_def)
qed

text \<open>
  C18: a partition starts, or starts anew, in an initialization mode with nothing left of threads,
  timers, wait queues and created ports; the main thread runs, holds the preemption lock and is
  the thread that the scheduler would choose, and the invariant of the local scheduler holds.
\<close>

theorem partition_start_initial:
  assumes "partition_arinc_start s = Some s'" and "0 < nthreads s" and "nthreads s < 65536"
    and "mode s \<noteq> POK_PARTITION_MODE_NORMAL \<or> restarted_externally (base_part s)"
  shows "thr_inv {} s' \<and> mode s' \<noteq> POK_PARTITION_MODE_NORMAL \<and> chosen s' = Some MAIN \<and> running s' MAIN
     \<and> nthreads_used s' = 1 \<and> eligible_threads s' = [] \<and> error_list s' = [] \<and> thread_error s' = None
     \<and> dq_list (partition_delayed_events s') = [] \<and> (\<forall>p \<in> set (ports_queuing s'). waiters p = [] \<and> \<not> pq_is_created p)"
proof -
  have s': "just_started s'" "nthreads s' = nthreads s" using partition_start_spec [OF assms(1,4)] by auto
  from just_started_inv [OF s'(1)] s' assms(2,3) show ?thesis by (simp add: just_started_def)
qed

text \<open>The example partition at a cold start, with an error of thread 1 that was not fetched.\<close>

definition example_restart :: arinc where
  "example_restart = (upd_thread 1 (\<lambda>th. th\<lparr>error_bits := 2\<rparr>) example_arinc)\<lparr>mode := POK_PARTITION_MODE_INIT_COLD\<rparr>"

lemma partition_start_total:
  assumes "\<And>t n. ustack s t n \<noteq> 0"
  shows "\<exists>s'. partition_arinc_start s = Some s'"
proof -
  have loops: "ustack (for_upto a b pok_port_queuing_init x) = ustack x" "ustack (for_upto a b pok_port_sampling_init x) = ustack x"
    "ustack (for_upto a b thread_reset x) = ustack x" for a b x
    by (rule for_upto_induct [where P = "\<lambda>v. ustack v = ustack x"];
        simp add: pok_port_queuing_init_def upd_port_def pok_port_sampling_init_def upd_port_sampling_def
          thread_reset_def upd_thread_def)+
  have steps: "ustack (upd_thread t f x) = ustack x" "ustack (upd_events g x) = ustack x" "ustack (upd_base h x) = ustack x"
    for t f g h x by (simp_all add: upd_thread_def upd_events_def upd_base_def)
  have created: "thread_create t x = (True, snd (thread_create t x))" if "ustack x = ustack s" for t x
    using assms that by (simp add: thread_create_def Let_def)
  show ?thesis unfolding partition_arinc_start_def Let_def
    by (subst created) (simp_all add: loops steps)
qed

lemma example_restart_start: "\<exists>s'. partition_arinc_start example_restart = Some s'"
  by (rule partition_start_total) (simp add: example_restart_def upd_thread_def example_arinc_def)

theorem partition_start_initial_witness:
  "\<exists>s'. partition_arinc_start example_restart = Some s' \<and> thr_inv {} s' \<and> chosen s' = Some MAIN"
proof -
  obtain s' where s': "partition_arinc_start example_restart = Some s'" using example_restart_start ..
  have "nthreads example_restart = 4" "mode example_restart = POK_PARTITION_MODE_INIT_COLD"
    by (simp_all add: example_restart_def example_arinc_def upd_thread_def)
  then show ?thesis using partition_start_initial [OF s'] s' by simp
qed

subsection \<open>What a restart does not reset\<close>

definition same_errors :: "arinc \<Rightarrow> arinc \<Rightarrow> bool" where
  "same_errors s s' \<longleftrightarrow> nthreads_unrecoverable s' = nthreads_unrecoverable s
     \<and> (\<forall>t. error_bits (threads s' t) = error_bits (threads s t))"

lemma same_errors_refl [simp]: "same_errors s s"
  by (simp add: same_errors_def)

lemma same_errors_trans: "same_errors s t \<Longrightarrow> same_errors t u \<Longrightarrow> same_errors s u"
  by (simp add: same_errors_def)

lemma same_errors_frame:
  "same_errors s u \<Longrightarrow> (\<And>th. error_bits (f th) = error_bits th) \<Longrightarrow> same_errors s (upd_thread t f u)"
  "same_errors s u \<Longrightarrow> same_errors s (upd_events g u)" "same_errors s u \<Longrightarrow> same_errors s (upd_tshd t h u)"
  "same_errors s u \<Longrightarrow> same_errors s (thread_set_uneligible t u)"
  "same_errors s u \<Longrightarrow> same_errors s (pok_thread_wq_remove t u)"
  by (simp_all add: same_errors_def)
    (simp_all add: upd_events_def upd_tshd_def thread_set_uneligible_def pok_sched_local_invalidate_def
      pok_thread_wq_remove_def Let_def)

lemma same_errors_set_eligible: "same_errors s u \<Longrightarrow> thread_set_eligible t u = Some u' \<Longrightarrow> same_errors s u'"
  by (auto simp: thread_set_eligible_def same_errors_def Let_def split: if_splits)

lemma same_errors_create: "same_errors s u \<Longrightarrow> thread_create t u = (b, u') \<Longrightarrow> same_errors s u'"
  by (auto simp: thread_create_def Let_def intro!: same_errors_frame split: if_splits)

lemma same_errors_wake_up:
  assumes "same_errors s u" "thread_wake_up t u = Some u'"
  shows "same_errors s u'"
proof -
  have "same_errors s (thread_cancel_wait t v)" if "same_errors s v" for v
    unfolding thread_cancel_wait_def using that by (auto intro!: same_errors_frame)
  moreover have "same_errors s (thread_delay_event_cancel t (upd_thread t (\<lambda>th. th\<lparr>state := POK_STATE_RUNNABLE\<rparr>) u))"
    unfolding thread_delay_event_cancel_def by (intro same_errors_frame assms(1)) simp
  ultimately have "same_errors s (woken t u)" unfolding woken_def by blast
  then show ?thesis using assms(2) same_errors_set_eligible by (auto simp: thread_wake_up_eq split: if_splits)
qed

lemma same_errors_delay:
  "same_errors s u \<Longrightarrow> same_errors s (thread_delay_event t tp f u)"
  "same_errors s u \<Longrightarrow> same_errors s (thread_set_deadline t tp u)"
  unfolding thread_delay_event_def thread_set_deadline_def by (intro same_errors_frame; simp)+

lemma same_errors_wait_timed: "same_errors s u \<Longrightarrow> thread_wait_timed t tp u = Some u' \<Longrightarrow> same_errors s u'"
  by (auto simp: thread_wait_timed_def thread_wait_def bind_Some intro!: same_errors_delay same_errors_frame split: if_splits)

lemma same_errors_start: "same_errors s u \<Longrightarrow> thread_start t u = Some u' \<Longrightarrow> same_errors s u'"
  by (auto simp: thread_start_def Let_def intro!: same_errors_frame split: if_splits
      elim!: same_errors_set_eligible [OF same_errors_frame(1), rotated 2])

lemma same_errors_start_times: "same_errors s u \<Longrightarrow> thread_start_times t d u = Some (tp, u') \<Longrightarrow> same_errors s u'"
  by (auto simp: thread_start_times_def jet_system_time_def bind_Some Let_def same_errors_def split: if_splits)

lemma same_errors_delayed_start:
  assumes "thread_delayed_start_internal t d s = Some (r, s')"
  shows "same_errors s s'"
proof -
  let ?u = "upd_tshd t (\<lambda>x. x\<lparr>msection_count := 0, tshd_msection_entering := None,
      tshd_priority := base_priority (threads s t), thread_kernel_flags := 0\<rparr>)
      (upd_thread t (\<lambda>th. th\<lparr>priority := base_priority th, sp := False\<rparr>) s)"
  have u: "same_errors s ?u" by (intro same_errors_frame same_errors_refl) simp
  show ?thesis
  proof (cases "mode s = POK_PARTITION_MODE_NORMAL")
    case False
    then have "s' = s \<or> s' = upd_thread t (\<lambda>th. th\<lparr>delayed_time := d, state := POK_STATE_WAITING\<rparr>) ?u"
      using assms by (auto simp: thread_delayed_start_internal_def Let_def split: if_splits)
    then show ?thesis using same_errors_frame(1) [OF u] by auto
  next
    case True
    have "s' = s \<or> (\<exists>tp v w. thread_start_times t d ?u = Some (tp, v)
        \<and> (w = v \<or> (\<exists>x. w = thread_set_deadline t x v)) \<and> (thread_start t w = Some s' \<or> thread_wait_timed t tp w = Some s'))"
      using assms True by (auto simp: thread_delayed_start_internal_def Let_def bind_Some split: if_splits)
    then show ?thesis
      using u same_errors_refl same_errors_start_times same_errors_delay(2) same_errors_start same_errors_wait_timed by blast
  qed
qed

lemma same_errors_release: "release_thread now c t s = Some (c', s') \<Longrightarrow> same_errors s s'"
proof -
  assume r: "release_thread now c t s = Some (c', s')"
  have rt: "same_errors s u" if "release_time now c t s = Some (tp, x, u)" for tp x u
    using that by (auto simp: release_time_def bind_Some Let_def intro!: same_errors_frame split: if_splits)
  show ?thesis using r
    by (auto simp: release_thread_def bind_Some dest!: rt
        intro: same_errors_delay same_errors_wake_up [rotated] split: if_splits)
qed

lemma same_errors_releases: "release_threads now c ts s = Some s' \<Longrightarrow> same_errors s s'"
proof (induction ts arbitrary: c s)
  case (Cons t ts)
  then show ?case using same_errors_release same_errors_trans by (fastforce simp: bind_Some)
qed simp

lemma same_errors_normal: "partition_set_mode_normal s = Some s' \<Longrightarrow> same_errors s s'"
  using same_errors_releases
  by (fastforce simp: partition_set_mode_normal_def jet_system_time_def same_errors_def Let_def)

text \<open>What the application does until its threads run: it creates threads and the error handler,
  starts threads, and switches to normal mode.\<close>

inductive setup_step :: "arinc \<Rightarrow> arinc \<Rightarrow> bool" where
  create: "pok_thread_create name ent attr ok s = (r, s') \<Longrightarrow> setup_step s s'"
| error_create: "pok_error_thread_create sz ent s = (r, s') \<Longrightarrow> setup_step s s'"
| start: "thread_delayed_start_internal t d s = Some (r, s') \<Longrightarrow> setup_step s s'"
| normal: "partition_set_mode_normal s = Some s' \<Longrightarrow> setup_step s s'"

inductive_cases setup_stepE: "setup_step s s'"

lemma same_errors_upd_create:
  "thread_create t (upd_thread u f s) = (b, s') \<Longrightarrow> (\<And>th. error_bits (f th) = error_bits th) \<Longrightarrow> same_errors s s'"
  by (rule same_errors_create [OF same_errors_frame(1) [OF same_errors_refl]])

lemma same_errors_used: "same_errors s u \<Longrightarrow> same_errors s (u\<lparr>nthreads_used := n\<rparr>)"
  by (simp add: same_errors_def)

lemma setup_same_errors: "setup_step s s' \<Longrightarrow> same_errors s s'"
proof (erule setup_stepE)
  fix name ent attr ok r
  assume c: "pok_thread_create name ent attr ok s = (r, s')"
  have fr: "same_errors s (upd_thread t f s)" "same_errors s (upd_thread t g (upd_thread t f s))"
    "same_errors s (upd_thread t h (upd_thread t g (upd_thread t f s)))"
    if "\<And>th. error_bits (f th) = error_bits th" "\<And>th. error_bits (g th) = error_bits th" "\<And>th. error_bits (h th) = error_bits th"
    for t f g h using that by (simp_all add: same_errors_frame)
  from c show "same_errors s s'" unfolding pok_thread_create_def Let_def
    by (auto intro!: fr same_errors_used elim!: same_errors_create [rotated] split: if_splits option.splits prod.splits)
next
  fix sz ent r assume c: "pok_error_thread_create sz ent s = (r, s')"
  have used: "same_errors s (u\<lparr>kshd_error_thread_id := a, nthreads_used := b, thread_error := c\<rparr>)" if "same_errors s u" for u a b c
    using that by (simp add: same_errors_def)
  from c show "same_errors s s'" unfolding pok_error_thread_create_def Let_def
    by (auto intro!: used elim!: same_errors_upd_create split: if_splits prod.splits)
qed (auto intro: same_errors_delayed_start same_errors_normal)

lemma setup_steps_same_errors: "setup_step\<^sup>*\<^sup>* s s' \<Longrightarrow> same_errors s s'"
  by (induction rule: rtranclp_induct) (auto intro: same_errors_trans setup_same_errors)

text \<open>
  A restart empties the list of errors but leaves the error bits of the threads. If a thread
  had an error that the error handler has not fetched when the partition is restarted, then, after
  the new start and whatever creations and starts of threads and the switch to normal mode, the
  next error of that kind for the thread with the same index is not reported: its bit is already
  set, and the assertion of \<open>thread_add_error_bit\<close> fails; for a deadline this happens in the callback
  of the timer. The count of unrecoverable threads is kept as well.
\<close>

theorem restart_keeps_error_bits:
  assumes "partition_arinc_start s = Some s1" and "mode s \<noteq> POK_PARTITION_MODE_NORMAL \<or> restarted_externally (base_part s)"
    and "setup_step\<^sup>*\<^sup>* s1 s2" and "error_bits (threads s t) AND b \<noteq> 0"
  shows "thread_add_error_bit t b s2 = None \<and> nthreads_unrecoverable s2 = nthreads_unrecoverable s
     \<and> (b = POK_THREAD_ERROR_BIT_DEADLINE \<and> thread_level_error POK_SYSTEM_STATE_USER POK_ERROR_ID_DEADLINE_MISSED s2
          \<longrightarrow> thread_deadline_occured t s2 = None)"
proof -
  have "error_bits (threads s2 t) = error_bits (threads s t)" "nthreads_unrecoverable s2 = nthreads_unrecoverable s"
    using partition_start_spec [OF assms(1,2)] setup_steps_same_errors [OF assms(3)] by (simp_all add: same_errors_def)
  then show ?thesis using assms(4)
    by (auto simp: thread_add_error_bit_def kassert_def thread_deadline_occured_def pok_thread_emit_deadline_missed_def
        process_error_partition_def kout_of_def)
qed

theorem restart_keeps_error_bits_witness:
  "\<exists>s'. partition_arinc_start example_restart = Some s' \<and> thread_add_error_bit 1 POK_THREAD_ERROR_BIT_DEADLINE s' = None"
proof -
  obtain s' where s': "partition_arinc_start example_restart = Some s'" using example_restart_start ..
  have "mode example_restart = POK_PARTITION_MODE_INIT_COLD" "error_bits (threads example_restart 1) = 2"
    by (simp_all add: example_restart_def)
  then show ?thesis
    using restart_keeps_error_bits [OF s' _ rtranclp.rtrancl_refl, of 1 POK_THREAD_ERROR_BIT_DEADLINE] s'
    by (simp add: POK_THREAD_ERROR_BIT_DEADLINE_def)
qed

subsection \<open>The preemption lock\<close>

lemma lock_change:
  assumes "thr_inv {} s" "settled s" "mode s = POK_PARTITION_MODE_NORMAL" "thread_error s \<noteq> Some t"
    "thread_selected s = Some t"
    "n \<noteq> 0 \<Longrightarrow> l = Some t" "n = 0 \<Longrightarrow> sched_local_recheck_needed s \<or> first_eligible t s"
  shows "thr_inv {} ((upd_base f s)\<lparr>lock_level := n, thread_locked := l\<rparr>)"
    "settled ((upd_base f s)\<lparr>lock_level := n, thread_locked := l\<rparr>)"
proof -
  let ?s = "(upd_base f s)\<lparr>lock_level := n, thread_locked := l\<rparr>"
  have "thr_inv {} ?s = thr_inv {} (upd_base f s)"
    by (rule thr_inv_same) (simp add: same_sched_def same_thread_def)
  then show "thr_inv {} ?s" using assms(1) by (simp add: upd_base_frame)
  have flag: "sched_local_recheck_needed ?s = sched_local_recheck_needed s" "thread_selected ?s = thread_selected s"
    by (simp_all add: upd_base_def)
  have "chosen ?s = Some t" if "\<not> sched_local_recheck_needed s"
  proof -
    have c: "chosen s = Some t" using assms(2,5) that by (simp add: settled_def)
    have "hd_opt (eligible_threads s) = Some t" if "n = 0"
      using assms(7) [OF that] \<open>\<not> sched_local_recheck_needed s\<close> by (simp add: first_eligible_hd)
    then show ?thesis using c assms(3,4,6) by (auto simp: chosen_def split: option.splits if_splits)
  qed
  then show "settled ?s" using flag assms(5) by (cases "sched_local_recheck_needed s") (simp_all add: settled_def)
qed

lemma inc_lock_cases:
  assumes "pok_current_partition_inc_lock_level ok s = Some (r, s')" "thread_current s = Some t"
  shows "(s' = s \<and> r \<noteq> Leave POK_ERRNO_OK) \<or> (r = Leave POK_ERRNO_OK \<and> \<not> is_lock_level_blocked s
     \<and> lock_level s \<noteq> MAX_LOCK_LEVEL \<and> s' = (upd_base (\<lambda>part. part\<lparr>preempt_local_disabled := True\<rparr>) s)
         \<lparr>lock_level := u32 (lock_level s + 1), thread_locked := Some t\<rparr>)"
proof (cases "pok_preemption_local_disable s")
  case None
  then show ?thesis using assms by (auto simp: pok_current_partition_inc_lock_level_def split: if_splits)
next
  case (Some b)
  from local_disable_spec [OF Some] have b: "lock_level b = lock_level s" "thread_current b = Some t"
    using assms(2) by (simp_all add: upd_base_def)
  show ?thesis using assms(1) Some b local_disable_spec [OF Some]
    by (auto simp: pok_current_partition_inc_lock_level_def split: if_splits)
qed

lemma dec_lock_cases:
  assumes "pok_current_partition_dec_lock_level ok s = Some (r, s')" "thread_current s = Some t"
  shows "(s' = s \<and> r \<noteq> Leave POK_ERRNO_OK) \<or> (r = Leave POK_ERRNO_OK \<and> \<not> is_lock_level_blocked s
     \<and> lock_level s \<noteq> 0 \<and> s' = (let v = (upd_base (\<lambda>part. part\<lparr>preempt_local_disabled := True\<rparr>) s)
           \<lparr>lock_level := lock_level s - 1\<rparr>
         in if lock_level s = 1 \<and> \<not> first_eligible t s then pok_sched_local_invalidate v else v))"
proof (cases "pok_preemption_local_disable s")
  case None
  then show ?thesis using assms by (auto simp: pok_current_partition_dec_lock_level_def split: if_splits)
next
  case (Some b)
  from local_disable_spec [OF Some] have b: "lock_level b = lock_level s" "thread_current b = Some t"
    "first_eligible t (b\<lparr>lock_level := n\<rparr>) = first_eligible t s" for n
    using assms(2) by (simp_all add: upd_base_def first_eligible_def)
  have "lock_level s - 1 = 0 \<longleftrightarrow> lock_level s = 1" if "lock_level s \<noteq> 0" using that by arith
  then show ?thesis using assms(1) Some b local_disable_spec [OF Some]
    by (auto simp: pok_current_partition_dec_lock_level_def Let_def simp del: One_nat_def split: if_splits)
qed

lemma lock_level_spec:
  assumes "thr_inv {} s" and "settled s" and "lock_level s \<le> MAX_LOCK_LEVEL"
    and "thread_current s = Some t" and "thread_selected s = Some t" and "lock_level s \<noteq> 0 \<longrightarrow> thread_locked s = Some t"
    and "(pok_current_partition_inc_lock_level ok s = Some (r, s') \<and> d = 1)
         \<or> (pok_current_partition_dec_lock_level ok s = Some (r, s') \<and> d = -1)"
  shows "thr_inv {} s' \<and> settled s' \<and> lock_level s' \<le> MAX_LOCK_LEVEL
     \<and> (if r = Leave POK_ERRNO_OK
        then int (lock_level s') = int (lock_level s) + d \<and> (lock_level s' \<noteq> 0 \<longrightarrow> thread_locked s' = Some t)
        else s' = s)"
proof -
  let ?b = "upd_base (\<lambda>part. part\<lparr>preempt_local_disabled := True\<rparr>)"
  have same: "(?b s)\<lparr>lock_level := n\<rparr> = (?b s)\<lparr>lock_level := n, thread_locked := thread_locked s\<rparr>" for n
    by (simp add: upd_base_def)
  from assms(4,7) consider "s' = s" "r \<noteq> Leave POK_ERRNO_OK"
    | (inc) "r = Leave POK_ERRNO_OK" "d = 1" "\<not> is_lock_level_blocked s" "lock_level s \<noteq> MAX_LOCK_LEVEL"
        "s' = (?b s)\<lparr>lock_level := u32 (lock_level s + 1), thread_locked := Some t\<rparr>"
    | (dec) "r = Leave POK_ERRNO_OK" "d = -1" "\<not> is_lock_level_blocked s" "lock_level s \<noteq> 0"
        "s' = (let v = (?b s)\<lparr>lock_level := lock_level s - 1\<rparr>
               in if lock_level s = 1 \<and> \<not> first_eligible t s then pok_sched_local_invalidate v else v)"
    using inc_lock_cases [OF _ assms(4)] dec_lock_cases [OF _ assms(4)] by blast
  then show ?thesis
  proof cases
    case 1
    then show ?thesis using assms(1-3) by auto
  next
    case inc
    then have "mode s = POK_PARTITION_MODE_NORMAL" "thread_error s \<noteq> Some t" using assms(4) by (auto simp: is_lock_level_blocked_def)
    moreover have "u32 (lock_level s + 1) = lock_level s + 1" "lock_level s < MAX_LOCK_LEVEL"
      using assms(3) inc(4) by (simp_all add: u32_def MAX_LOCK_LEVEL_def)
    ultimately show ?thesis using lock_change [OF assms(1,2) _ _ assms(5), of "lock_level s + 1" "Some t"] inc by simp
  next
    case dec
    then have m: "mode s = POK_PARTITION_MODE_NORMAL" "thread_error s \<noteq> Some t" using assms(4) by (auto simp: is_lock_level_blocked_def)
    let ?v = "(?b s)\<lparr>lock_level := lock_level s - 1\<rparr>"
    have "thr_inv {} ?v = thr_inv {} (?b s)" by (rule thr_inv_same) (simp add: same_sched_def same_thread_def)
    then have v: "thr_inv {} ?v" using assms(1) by (simp add: upd_base_frame)
    show ?thesis
    proof (cases "lock_level s = 1 \<and> \<not> first_eligible t s")
      case True
      then show ?thesis using dec v assms(3) by simp
    next
      case False
      have "settled ?v"
        by (subst same, rule lock_change(2) [OF assms(1,2) m assms(5)]) (use False assms(6) dec(4) in auto)
      then show ?thesis using False dec v assms(3,6) by (auto simp: upd_base_def)
    qed
  qed
qed

text \<open>When a call is accepted, and what it counts, for any caller.\<close>

lemma lock_call_accepted:
  assumes "thread_current s = Some t"
    and "(pok_current_partition_inc_lock_level ok s = Some (r, s') \<and> d = 1)
         \<or> (pok_current_partition_dec_lock_level ok s = Some (r, s') \<and> d = -1)"
  shows "r = Leave POK_ERRNO_OK \<longleftrightarrow> mode s = POK_PARTITION_MODE_NORMAL \<and> thread_error s \<noteq> Some t \<and> ok
     \<and> lock_level s \<noteq> (if d = (1 :: int) then MAX_LOCK_LEVEL else 0)"
  using assms(2)
proof
  assume "pok_current_partition_inc_lock_level ok s = Some (r, s') \<and> d = 1"
  then show ?thesis using assms(1)
    by (auto simp: pok_current_partition_inc_lock_level_def is_lock_level_blocked_def split: if_splits bind_splits)
next
  assume "pok_current_partition_dec_lock_level ok s = Some (r, s') \<and> d = -1"
  then show ?thesis using assms(1)
    by (auto simp: pok_current_partition_dec_lock_level_def is_lock_level_blocked_def Let_def split: if_splits bind_splits)
qed

lemma lock_call_counts:
  assumes "thr_inv {} s" and "lock_level s \<le> MAX_LOCK_LEVEL" and "thread_current s = Some t"
    and "(pok_current_partition_inc_lock_level ok s = Some (r, s') \<and> d = 1)
         \<or> (pok_current_partition_dec_lock_level ok s = Some (r, s') \<and> d = -1)"
  shows "thr_inv {} s' \<and> lock_level s' \<le> MAX_LOCK_LEVEL
     \<and> (if r = Leave POK_ERRNO_OK
        then int (lock_level s') = int (lock_level s) + d \<and> thread_locked s' = (if d = 1 then Some t else thread_locked s)
        else s' = s)"
proof -
  let ?b = "upd_base (\<lambda>part. part\<lparr>preempt_local_disabled := True\<rparr>)"
  have inv: "thr_inv {} ((?b s)\<lparr>lock_level := n, thread_locked := l\<rparr>)" "thr_inv {} ((?b s)\<lparr>lock_level := n\<rparr>)" for n l
  proof -
    have "thr_inv {} ((?b s)\<lparr>lock_level := n, thread_locked := l\<rparr>) = thr_inv {} (?b s)"
      "thr_inv {} ((?b s)\<lparr>lock_level := n\<rparr>) = thr_inv {} (?b s)"
      by (rule thr_inv_same; simp add: same_sched_def same_thread_def)+
    then show "thr_inv {} ((?b s)\<lparr>lock_level := n, thread_locked := l\<rparr>)" "thr_inv {} ((?b s)\<lparr>lock_level := n\<rparr>)"
      using assms(1) by (simp_all add: upd_base_frame)
  qed
  from assms(3,4) consider "s' = s" "r \<noteq> Leave POK_ERRNO_OK"
    | (inc) "r = Leave POK_ERRNO_OK" "d = 1" "lock_level s \<noteq> MAX_LOCK_LEVEL"
        "s' = (?b s)\<lparr>lock_level := u32 (lock_level s + 1), thread_locked := Some t\<rparr>"
    | (dec) "r = Leave POK_ERRNO_OK" "d = -1" "lock_level s \<noteq> 0"
        "s' = (let v = (?b s)\<lparr>lock_level := lock_level s - 1\<rparr>
               in if lock_level s = 1 \<and> \<not> first_eligible t s then pok_sched_local_invalidate v else v)"
    using inc_lock_cases [OF _ assms(3)] dec_lock_cases [OF _ assms(3)] by blast
  then show ?thesis
  proof cases
    case inc
    have "u32 (lock_level s + 1) = lock_level s + 1" "lock_level s < MAX_LOCK_LEVEL"
      using assms(2) inc(3) by (simp_all add: u32_def MAX_LOCK_LEVEL_def)
    then show ?thesis using inc inv(1) by simp
  next
    case dec
    then show ?thesis using inv(2) assms(2)
      by (auto simp: Let_def)
  qed (use assms(1,2) in auto)
qed

lemma donated_lock_unsettled:
  assumes "settled s" and "lock_level s \<le> MAX_LOCK_LEVEL" and "thread_current s = Some t"
    and "pok_current_partition_inc_lock_level ok s = Some (Leave POK_ERRNO_OK, s')"
    and "\<not> sched_local_recheck_needed s" and "thread_selected s \<noteq> Some t"
    and "thread_error s = None \<or> thread_selected s \<noteq> thread_error s"
  shows "\<not> settled s'"
proof -
  from inc_lock_cases [OF assms(4,3)] have b: "\<not> is_lock_level_blocked s"
    and s': "s' = (upd_base (\<lambda>part. part\<lparr>preempt_local_disabled := True\<rparr>) s)
         \<lparr>lock_level := u32 (lock_level s + 1), thread_locked := Some t\<rparr>" by simp_all
  have ne: "u32 (lock_level s + 1) \<noteq> 0" using assms(2) by (simp add: u32_def MAX_LOCK_LEVEL_def)
  have m: "mode s = POK_PARTITION_MODE_NORMAL" using b by (simp add: is_lock_level_blocked_def)
  have "chosen s = thread_selected s" using assms(1,5) by (simp add: settled_def)
  then have "chosen s' = Some t"
    using m assms(7) ne by (auto simp: s' chosen_def split: option.splits if_splits)
  moreover have "\<not> sched_local_recheck_needed s'" "thread_selected s' = thread_selected s"
    using assms(5) by (simp_all add: s' upd_base_def)
  ultimately show ?thesis using assms(6) by (simp add: settled_def)
qed



end
