(* ===== verification/ThreadMsection.thy ===== *)
theory ThreadMsection
  imports ThreadCalls
begin

section \<open>System calls on critical sections\<close>

text \<open>
  The second half of the system calls of \<open>kernel/core/thread.c\<close>: entering a section that has an
  owner, waiting in a section and waking up those who wait. Sections and their wait queues lie in
  user memory; the links of a wait queue are fields of the shared data of the threads, so the kernel
  follows links that the user has written. Addresses name sections, wait queues and sizes; their
  contents are kept apart from each other and from the shared data. The loops over a wait queue may
  run for ever on corrupt links, and have no result then.
\<close>

definition upd_wq :: "nat \<Rightarrow> (msection_wq \<Rightarrow> msection_wq) \<Rightarrow> arinc \<Rightarrow> arinc" where
  "upd_wq a f s = s\<lparr>msection_wqs := (msection_wqs s)(a := f (msection_wqs s a))\<rparr>"

definition assert_thread_id :: "nat \<Rightarrow> arinc \<Rightarrow> unit option" where
  "assert_thread_id tid s = kassert (tid < nthreads_used s)"

subsection \<open>Entering and waiting\<close>

definition jet_msection_enter_helper :: "nat \<Rightarrow> arinc \<Rightarrow> (sysret \<times> arinc) option" where
  "jet_msection_enter_helper section s = do {
     t \<leftarrow> thread_current s;
     kassert (user_access s section 2);
     s \<leftarrow> pok_preemption_local_disable s;
     let s = (if owner (msections s section) \<noteq> None \<and> owner (msections s section) \<noteq> Some t
       then pok_sched_local_invalidate (upd_thread t (\<lambda>th. th\<lparr>msection_entering := Some section\<rparr>) s)
       else s);
     Some (Leave POK_ERRNO_OK, s)
   }"

definition jet_msection_wait :: "nat \<Rightarrow> pok_time option \<Rightarrow> arinc \<Rightarrow> (sysret \<times> arinc) option" where
  "jet_msection_wait section timeout s =
     (case timeout of
        None \<Rightarrow> Some (Ret POK_ERRNO_EFAULT, s)
      | Some kernel_timeout \<Rightarrow> do {
          t \<leftarrow> thread_current s;
          kassert (user_access s section 2);
          kassert (owner (msections s section) = Some t);
          kassert (msection_count (tshd s t) = 1);
          if lock_level s \<noteq> 0 \<or> thread_error s = Some t then Some (Ret POK_ERRNO_MODE, s)
          else do {
            s \<leftarrow> pok_preemption_local_disable s;
            if first_donator (threads s t) \<noteq> None
            then Some (LeaveWait t, upd_thread t (\<lambda>th. th\<lparr>wait_result := POK_ERRNO_CANCELLED\<rparr>) s)
            else do {
              let s = upd_thread t (\<lambda>th. th\<lparr>msection_entering := Some section\<rparr>) s;
              let s = upd_msection section (\<lambda>m. m\<lparr>owner := None\<rparr>) s;
              s \<leftarrow> thread_wait_common t kernel_timeout s;
              Some (LeaveWait t, pok_sched_local_invalidate s)
            }
          }
        })"

subsection \<open>Waking up\<close>

text \<open>\<open>thread_wake_up\<close> with the result that the waiting thread gets.\<close>

definition wake_up_ok :: "nat \<Rightarrow> arinc \<Rightarrow> arinc option" where
  "wake_up_ok t s = do {
     s \<leftarrow> thread_wake_up t s;
     Some (upd_thread t (\<lambda>th. th\<lparr>wait_result := POK_ERRNO_OK\<rparr>) s)
   }"

definition jet_msection_notify :: "nat \<Rightarrow> nat \<Rightarrow> arinc \<Rightarrow> (sysret \<times> arinc) option" where
  "jet_msection_notify section t s = do {
     kassert (user_access s section 2);
     cur \<leftarrow> thread_current s;
     assert_thread_id t s;
     s \<leftarrow> pok_preemption_local_disable s;
     if state (threads s t) \<noteq> POK_STATE_WAITING then Some (Leave POK_ERRNO_EXISTS, s)
     else do {
       kassert (msection_entering (threads s t) = Some section);
       kassert (owner (msections s section) = Some cur);
       s \<leftarrow> wake_up_ok t s;
       Some (Leave POK_ERRNO_OK, s)
     }
   }"

text \<open>The assignments of \<open>msection_wq_del\<close>: the neighbours of the thread are linked to each other,
  where the ends of the queue take the place of missing ones.\<close>

definition wq_unlink :: "nat \<Rightarrow> nat \<Rightarrow> arinc \<Rightarrow> arinc" where
  "wq_unlink wq t s =
     (let next_id = wq_next (tshd s t);
          prev_id = wq_prev (tshd s t);
          s = (case next_id of None \<Rightarrow> upd_wq wq (\<lambda>w. w\<lparr>wq_last := prev_id\<rparr>) s
               | Some n \<Rightarrow> upd_tshd n (\<lambda>d. d\<lparr>wq_prev := prev_id\<rparr>) s);
          s = (case prev_id of None \<Rightarrow> upd_wq wq (\<lambda>w. w\<lparr>wq_first := next_id\<rparr>) s
               | Some p \<Rightarrow> upd_tshd p (\<lambda>d. d\<lparr>wq_next := next_id\<rparr>) s)
      in upd_tshd t (\<lambda>d. d\<lparr>wq_next := None, wq_prev := None\<rparr>) s)"

definition msection_wq_del :: "nat \<Rightarrow> nat \<Rightarrow> arinc \<Rightarrow> arinc option" where
  "msection_wq_del wq t s = do {
     (case wq_next (tshd s t) of None \<Rightarrow> Some () | Some n \<Rightarrow> assert_thread_id n s);
     (case wq_prev (tshd s t) of None \<Rightarrow> Some () | Some p \<Rightarrow> assert_thread_id p s);
     Some (wq_unlink wq t s)
   }"

text \<open>The loop of \<open>jet_msection_wq_notify\<close> from the thread \<open>thread_id\<close> on.\<close>

partial_function (option) wq_notify_loop ::
  "nat \<Rightarrow> nat \<Rightarrow> bool \<Rightarrow> nat option \<Rightarrow> pok_ret \<Rightarrow> arinc \<Rightarrow> (pok_ret \<times> arinc) option" where
  "wq_notify_loop section wq is_all thread_id ret s =
     (case thread_id of
        None \<Rightarrow> Some (ret, s)
      | Some t \<Rightarrow> do {
          assert_thread_id t s;
          kassert (msection_entering (threads s t) = Some section);
          let next = wq_next (tshd s t);
          if state (threads s t) \<noteq> POK_STATE_WAITING then do {
            s \<leftarrow> msection_wq_del wq t s;
            wq_notify_loop section wq is_all next ret s
          } else do {
            s \<leftarrow> wake_up_ok t s;
            if is_all then wq_notify_loop section wq is_all next POK_ERRNO_OK s
            else Some (POK_ERRNO_OK, s)
          }
        })"

definition jet_msection_wq_notify :: "nat \<Rightarrow> nat \<Rightarrow> bool \<Rightarrow> arinc \<Rightarrow> (sysret \<times> arinc) option" where
  "jet_msection_wq_notify section wq is_all s = do {
     kassert (user_access s section 2);
     kassert (user_access s wq 2);
     cur \<leftarrow> thread_current s;
     kassert (owner (msections s section) = Some cur);
     s \<leftarrow> pok_preemption_local_disable s;
     (ret, s) \<leftarrow> wq_notify_loop section wq is_all (wq_first (msection_wqs s wq)) POK_ERRNO_EMPTY s;
     Some (Leave ret, s)
   }"

partial_function (option) wq_size_loop ::
  "nat \<Rightarrow> nat \<Rightarrow> nat option \<Rightarrow> nat \<Rightarrow> arinc \<Rightarrow> (nat \<times> arinc) option" where
  "wq_size_loop section wq thread_id count s =
     (case thread_id of
        None \<Rightarrow> Some (count, s)
      | Some t \<Rightarrow> do {
          assert_thread_id t s;
          kassert (msection_entering (threads s t) = Some section);
          let next = wq_next (tshd s t);
          if state (threads s t) \<noteq> POK_STATE_WAITING then do {
            s \<leftarrow> msection_wq_del wq t s;
            wq_size_loop section wq next count s
          } else wq_size_loop section wq next (u32 (count + 1)) s
        })"

definition jet_msection_wq_size :: "nat \<Rightarrow> nat \<Rightarrow> bool \<Rightarrow> arinc \<Rightarrow> ((sysret \<times> nat) \<times> arinc) option" where
  "jet_msection_wq_size section wq size_ok s = do {
     kassert (user_access s section 2);
     kassert (user_access s wq 2);
     kassert size_ok;
     cur \<leftarrow> thread_current s;
     kassert (owner (msections s section) = Some cur);
     s \<leftarrow> pok_preemption_local_disable s;
     (count, s) \<leftarrow> wq_size_loop section wq (wq_first (msection_wqs s wq)) 0 s;
     Some ((Leave POK_ERRNO_OK, count), s)
   }"

subsection \<open>Well-formed queues\<close>

text \<open>\<open>wq_seg d p xs n\<close>: the links of the threads \<open>xs\<close> in \<open>d\<close> chain them, between \<open>p\<close> and \<open>n\<close>.\<close>

definition first_of :: "nat list \<Rightarrow> nat option \<Rightarrow> nat option" where
  "first_of xs n = (case xs of [] \<Rightarrow> n | x # _ \<Rightarrow> Some x)"

definition last_of :: "nat option \<Rightarrow> nat list \<Rightarrow> nat option" where
  "last_of p xs = (if xs = [] then p else Some (last xs))"

fun wq_seg :: "(nat \<Rightarrow> jet_thread_shared_data) \<Rightarrow> nat option \<Rightarrow> nat list \<Rightarrow> nat option \<Rightarrow> bool" where
  "wq_seg d p [] n \<longleftrightarrow> True"
| "wq_seg d p (x # xs) n \<longleftrightarrow> wq_prev (d x) = p \<and> wq_next (d x) = first_of xs n \<and> wq_seg d (Some x) xs n"

definition wq_list :: "arinc \<Rightarrow> nat \<Rightarrow> nat list \<Rightarrow> bool" where
  "wq_list s wq xs \<longleftrightarrow> distinct xs \<and> wq_first (msection_wqs s wq) = first_of xs None
     \<and> wq_last (msection_wqs s wq) = last_of None xs \<and> wq_seg (tshd s) None xs None"

lemma first_of_simps [simp]:
  "first_of [] n = n" "first_of (x # xs) n = Some x" "first_of (xs @ ys) n = first_of xs (first_of ys n)"
  by (simp_all add: first_of_def split: list.splits)

lemma last_of_simps [simp]:
  "last_of p [] = p" "last_of p (xs @ [x]) = Some x" "last_of p (xs @ ys) = last_of (last_of p xs) ys"
  "last_of p (x # xs) = last_of (Some x) xs"
  by (simp_all add: last_of_def)

lemma wq_seg_append:
  "wq_seg d p (xs @ ys) n \<longleftrightarrow> wq_seg d p xs (first_of ys n) \<and> wq_seg d (last_of p xs) ys n"
  by (induction xs arbitrary: p) auto

lemma wq_seg_cong:
  "(\<And>x. x \<in> set xs \<Longrightarrow> wq_prev (d' x) = wq_prev (d x) \<and> wq_next (d' x) = wq_next (d x)) \<Longrightarrow>
   wq_seg d' p xs n = wq_seg d p xs n"
  by (induction xs arbitrary: p) auto

lemma wq_seg_other [simp]: "x \<notin> set xs \<Longrightarrow> wq_seg (d(x := v)) p xs n = wq_seg d p xs n"
  by (rule wq_seg_cong) auto

text \<open>The end of a segment can be linked anew.\<close>

lemma wq_seg_next:
  assumes "wq_seg d p xs n" "distinct xs" "last_of None xs = Some l"
  shows "wq_seg (d(l := (d l)\<lparr>wq_next := n'\<rparr>)) p xs n'"
  using assms
proof (induction xs arbitrary: p)
  case (Cons x xs)
  show ?case
  proof (cases xs)
    case (Cons y ys)
    then have "l \<in> set xs" "last_of None xs = Some l" using Cons.prems(3) by (auto simp: last_of_def)
    then show ?thesis using Cons.IH [of "Some x"] Cons.prems Cons by auto
  qed (use Cons.prems in auto)
qed simp

lemma wq_seg_prev:
  assumes "wq_seg d p xs n" "distinct xs" "first_of xs None = Some f"
  shows "wq_seg (d(f := (d f)\<lparr>wq_prev := p'\<rparr>)) p' xs n"
proof (cases xs)
  case (Cons x ys)
  have "wq_seg (d(f := (d f)\<lparr>wq_prev := p'\<rparr>)) (Some f) ys n = wq_seg d (Some f) ys n"
    by (rule wq_seg_cong) (use assms Cons in auto)
  with assms Cons show ?thesis by simp
qed (use assms in simp)

text \<open>Unlinking takes the thread out of the list of a well-formed queue.\<close>

lemma wq_list_unlink:
  assumes "wq_list s wq (xs @ t # ys)"
  shows "wq_list (wq_unlink wq t s) wq (xs @ ys)"
proof -
  let ?d = "tshd s" and ?n = "first_of ys None" and ?p = "last_of None xs"
  have d: "distinct xs" "distinct ys" "t \<notin> set xs" "t \<notin> set ys" "set xs \<inter> set ys = {}"
    and w: "wq_first (msection_wqs s wq) = first_of (xs @ [t]) None" "wq_last (msection_wqs s wq) = last_of (Some t) ys"
    and l: "wq_next (?d t) = ?n" "wq_prev (?d t) = ?p" and sx: "wq_seg ?d None xs (Some t)" and sy: "wq_seg ?d (Some t) ys None"
    using assms by (auto simp: wq_list_def wq_seg_append)
  define d1 where "d1 = (case ?n of None \<Rightarrow> ?d | Some n \<Rightarrow> ?d(n := (?d n)\<lparr>wq_prev := ?p\<rparr>))"
  define d2 where "d2 = (case ?p of None \<Rightarrow> d1 | Some p \<Rightarrow> d1(p := (d1 p)\<lparr>wq_next := ?n\<rparr>))"
  have f: "first_of ys None = Some n \<Longrightarrow> n \<in> set ys" for n by (auto simp: first_of_def split: list.splits)
  have g: "last_of None xs = Some n \<Longrightarrow> n \<in> set xs" for n by (auto simp: last_of_def split: if_splits)
  have "wq_seg d1 ?p ys None"
    using wq_seg_prev [OF sy d(2)] sy by (cases ys) (auto simp: d1_def)
  moreover have "wq_seg d1 None xs (Some t)"
  proof -
    have "d1 x = ?d x" if "x \<in> set xs" for x using that f d(5) by (auto simp: d1_def split: option.split)
    then show ?thesis using sx wq_seg_cong [of xs d1 ?d None "Some t"] by simp
  qed
  moreover have "d2 x = d1 x" if "x \<in> set ys" for x using that g d(5) by (auto simp: d2_def split: option.split)
  ultimately have "wq_seg d2 ?p ys None" "wq_seg d2 None xs ?n"
    using wq_seg_cong [of ys d2 d1 ?p None] wq_seg_next [of d1 None xs "Some t" _ ?n] d(1)
    by (auto simp: d2_def last_of_def split: option.splits if_splits)
  moreover have "tshd (wq_unlink wq t s) = d2(t := (d2 t)\<lparr>wq_next := None, wq_prev := None\<rparr>)"
    by (simp add: wq_unlink_def Let_def l d1_def d2_def upd_tshd_def upd_wq_def split: option.split)
  ultimately have "wq_seg (tshd (wq_unlink wq t s)) None (xs @ ys) None"
    using d(3,4) by (simp add: wq_seg_append)
  moreover have "wq_first (msection_wqs (wq_unlink wq t s) wq) = first_of (xs @ ys) None"
    "wq_last (msection_wqs (wq_unlink wq t s) wq) = last_of None (xs @ ys)"
    using w l by (auto simp: wq_unlink_def Let_def upd_tshd_def upd_wq_def first_of_def last_of_def
        split: option.splits list.splits)
  ultimately show ?thesis using d by (auto simp: wq_list_def)
qed


text \<open>What linking, unlinking and waking up leave alone: everything that the user sees but the links
  of the threads \<open>X\<close> and the ends of the queue.\<close>

definition user_frame :: "nat \<Rightarrow> nat set \<Rightarrow> arinc \<Rightarrow> arinc \<Rightarrow> bool" where
  "user_frame wq X s s' \<longleftrightarrow> mode s' = mode s \<and> nthreads_used s' = nthreads_used s \<and> thread_error s' = thread_error s
     \<and> thread_current s' = thread_current s \<and> kshd_current_thread_id s' = kshd_current_thread_id s
     \<and> lock_level s' = lock_level s \<and> msections s' = msections s \<and> umem s' = umem s \<and> user_access s' = user_access s
     \<and> parts s' = parts s \<and> gsched s' = gsched s
     \<and> (\<forall>q. q \<noteq> wq \<longrightarrow> msection_wqs s' q = msection_wqs s q)
     \<and> (\<forall>t. (tshd s' t)\<lparr>wq_next := None, wq_prev := None\<rparr> = (tshd s t)\<lparr>wq_next := None, wq_prev := None\<rparr>)
     \<and> (\<forall>t. t \<notin> X \<longrightarrow> tshd s' t = tshd s t)
     \<and> (\<forall>t. msection_entering (threads s' t) = msection_entering (threads s t))"

lemma user_frame_refl [simp]: "user_frame wq X s s"
  by (simp add: user_frame_def)

lemma user_frame_trans: "user_frame wq X s t \<Longrightarrow> user_frame wq X t u \<Longrightarrow> user_frame wq X s u"
  by (simp add: user_frame_def)

lemma user_frame_mono: "user_frame wq X s t \<Longrightarrow> X \<subseteq> Y \<Longrightarrow> user_frame wq Y s t"
  by (auto simp: user_frame_def)

lemma user_frame_ordinary: "user_frame wq X s s' \<Longrightarrow> ordinary s' t = ordinary s t"
  by (simp add: user_frame_def ordinary_def)

lemma wq_list_frame:
  assumes "user_frame wq X s s'" "q \<noteq> wq" "set xs \<inter> X = {}"
  shows "wq_list s' q xs = wq_list s q xs"
proof -
  have "wq_seg (tshd s') None xs None = wq_seg (tshd s) None xs None"
    by (rule wq_seg_cong) (use assms in \<open>auto simp: user_frame_def\<close>)
  then show ?thesis using assms(1,2) by (simp add: wq_list_def user_frame_def)
qed

lemma wq_list_same: "tshd s' = tshd s \<Longrightarrow> msection_wqs s' = msection_wqs s \<Longrightarrow> wq_list s' q xs = wq_list s q xs"
  by (simp add: wq_list_def)

lemma wq_unlink_same:
  "same_sched s (wq_unlink wq t s)" "threads (wq_unlink wq t s) = threads s"
  "call_good (wq_unlink wq t s) = call_good s" "nthreads_used (wq_unlink wq t s) = nthreads_used s"
  "mode (wq_unlink wq t s) = mode s" "ordinary (wq_unlink wq t s) u = ordinary s u"
proof -
  let ?u = "wq_unlink wq t s"
  note d = wq_unlink_def Let_def upd_wq_def upd_tshd_def
  show same: "same_sched s ?u" by (simp add: d same_sched_def same_thread_def split: option.split)
  have "chosen ?u = chosen s" by (rule chosen_cong) (simp_all add: d split: option.split)
  moreover have "sched_local_recheck_needed ?u = sched_local_recheck_needed s" "thread_selected ?u = thread_selected s"
    by (simp_all add: d split: option.split)
  ultimately show "call_good ?u = call_good s" using thr_inv_same [OF same] by (simp add: call_good_def settled_def)
  show "threads ?u = threads s" "nthreads_used ?u = nthreads_used s" "mode ?u = mode s" "ordinary ?u u = ordinary s u"
    by (simp_all add: d ordinary_def split: option.split)
qed

lemma wq_unlink_frame:
  assumes "wq_list s wq (xs @ t # ys)"
  shows "user_frame wq (set (xs @ t # ys)) s (wq_unlink wq t s)"
proof -
  have "wq_next (tshd s t) = first_of ys None" "wq_prev (tshd s t) = last_of None xs"
    using assms by (auto simp: wq_list_def wq_seg_append)
  then have "\<And>n. wq_next (tshd s t) = Some n \<Longrightarrow> n \<in> set ys" "\<And>n. wq_prev (tshd s t) = Some n \<Longrightarrow> n \<in> set xs"
    by (auto simp: first_of_def last_of_def split: list.splits if_splits)
  then show ?thesis
    by (auto simp: user_frame_def wq_unlink_def Let_def upd_wq_def upd_tshd_def split: option.split)
qed

lemma msection_wq_del_unlink:
  assumes "wq_list s wq (xs @ t # ys)" "\<forall>u \<in> set (xs @ ys). u < nthreads_used s"
  shows "msection_wq_del wq t s = Some (wq_unlink wq t s)"
proof -
  have l: "wq_next (tshd s t) = first_of ys None" "wq_prev (tshd s t) = last_of None xs"
    using assms by (auto simp: wq_list_def wq_seg_append)
  show ?thesis using assms(2) unfolding msection_wq_del_def l
    by (cases ys; cases xs rule: rev_cases) (auto simp: assert_thread_id_def kassert_def)
qed

text \<open>Waking up a thread that waits in a section.\<close>

lemma wake_up_ok_spec:
  assumes "call_good s" "ordinary s t" "mode s = POK_PARTITION_MODE_NORMAL" "state (threads s t) = POK_STATE_WAITING"
  shows "\<exists>s'. wake_up_ok t s = Some s' \<and> call_good s' \<and> user_frame wq {} s s' \<and> tshd s' = tshd s
     \<and> msection_wqs s' = msection_wqs s
     \<and> state (threads s' t) = POK_STATE_RUNNABLE \<and> wait_result (threads s' t) = POK_ERRNO_OK
     \<and> (\<forall>u. u \<noteq> t \<longrightarrow> threads s' u = threads s u)"
proof -
  have inv: "thr_inv {} s" using assms(1) by (simp add: call_good_def)
  obtain v where v: "thread_wake_up t s = Some v" using thread_wake_up_total [OF inv assms(4,2,3)] by blast
  let ?s' = "upd_thread t (\<lambda>th. th\<lparr>wait_result := POK_ERRNO_OK\<rparr>) v"
  have w: "v = woken t s \<or> thread_set_eligible t (woken t s) = Some v"
    using v by (auto simp: thread_wake_up_eq split: if_splits)
  have f: "user_frame wq {} s (woken t s) \<and> tshd (woken t s) = tshd s \<and> msection_wqs (woken t s) = msection_wqs s"
    by (simp add: woken_def user_frame_def thread_cancel_wait_def thread_delay_event_cancel_def upd_thread_def
        upd_events_def pok_thread_wq_remove_def)
  then have g: "user_frame wq {} s v \<and> tshd v = tshd s \<and> msection_wqs v = msection_wqs s"
    using w by (auto simp: thread_set_eligible_def Let_def user_frame_def pok_sched_local_invalidate_def split: if_splits)
  have "call_good v" using thread_wake_up_inv [OF inv assms(2,3) v] assms(1)
      keeps_choice_settled [OF wake_up_choice [OF v assms(2)]] by (simp add: call_good_def)
  then have "call_good ?s'" by (simp add: same_thread_good same_thread_def)
  then show ?thesis using g wake_up_threads [OF v] v
    by (intro exI [of _ ?s']) (auto simp: wake_up_ok_def user_frame_def upd_thread_def)
qed


subsection \<open>The loops over a well-formed queue\<close>

abbreviation waiting :: "arinc \<Rightarrow> nat \<Rightarrow> bool" where
  "waiting s t \<equiv> state (threads s t) = POK_STATE_WAITING"

text \<open>A queue whose threads all wait, or have waited, in the section.\<close>

definition section_queue :: "arinc \<Rightarrow> nat \<Rightarrow> nat \<Rightarrow> nat list \<Rightarrow> bool" where
  "section_queue s section wq xs \<longleftrightarrow> wq_list s wq xs
     \<and> (\<forall>t \<in> set xs. ordinary s t \<and> msection_entering (threads s t) = Some section)"

lemma section_queue_frame:
  "user_frame q X s s' \<Longrightarrow> wq_list s' wq ys \<Longrightarrow> set ys \<subseteq> set xs \<Longrightarrow> section_queue s section wq xs \<Longrightarrow>
   section_queue s' section wq ys"
  by (auto simp: section_queue_def user_frame_ordinary) (auto simp: user_frame_def)

lemma section_queue_bound: "section_queue s section wq xs \<Longrightarrow> \<forall>t \<in> set xs. t < nthreads_used s"
  by (simp add: section_queue_def ordinary_def)

text \<open>A thread that does not wait any more is taken out.\<close>

definition unlinked :: "arinc \<Rightarrow> nat \<Rightarrow> bool" where
  "unlinked s t \<longleftrightarrow> wq_next (tshd s t) = None \<and> wq_prev (tshd s t) = None"

lemma unlinked_wq_unlink: "unlinked (wq_unlink wq t s) t"
  by (simp add: unlinked_def wq_unlink_def Let_def upd_tshd_def)

lemma stale_step:
  assumes "section_queue s section wq (as @ t # bs)" "call_good s"
  shows "msection_wq_del wq t s = Some (wq_unlink wq t s)" "section_queue (wq_unlink wq t s) section wq (as @ bs)"
    "user_frame wq (set (as @ t # bs)) s (wq_unlink wq t s)" "call_good (wq_unlink wq t s)"
proof -
  have w: "wq_list s wq (as @ t # bs)" using assms(1) by (simp add: section_queue_def)
  show "msection_wq_del wq t s = Some (wq_unlink wq t s)"
    by (rule msection_wq_del_unlink [OF w]) (use section_queue_bound [OF assms(1)] in auto)
  show f: "user_frame wq (set (as @ t # bs)) s (wq_unlink wq t s)" by (rule wq_unlink_frame [OF w])
  show "section_queue (wq_unlink wq t s) section wq (as @ bs)"
    by (rule section_queue_frame [OF f wq_list_unlink [OF w] _ assms(1)]) auto
  show "call_good (wq_unlink wq t s)" using assms(2) by (simp add: wq_unlink_same)
qed

text \<open>Which threads a notification wakes up and which it leaves in the queue.\<close>

definition notified :: "bool \<Rightarrow> arinc \<Rightarrow> nat list \<Rightarrow> nat list" where
  "notified is_all s xs = (if is_all then filter (waiting s) xs else take 1 (filter (waiting s) xs))"

definition left_queued :: "bool \<Rightarrow> arinc \<Rightarrow> nat list \<Rightarrow> nat list" where
  "left_queued is_all s xs = (if is_all then filter (waiting s) xs else dropWhile (\<lambda>t. \<not> waiting s t) xs)"

definition woken_by_notify :: "nat list \<Rightarrow> arinc \<Rightarrow> arinc \<Rightarrow> bool" where
  "woken_by_notify W s s' \<longleftrightarrow>
     (\<forall>t. if t \<in> set W then state (threads s' t) = POK_STATE_RUNNABLE \<and> wait_result (threads s' t) = POK_ERRNO_OK
          else threads s' t = threads s t)"

lemma wq_notify_loop_spec:
  assumes "section_queue s section wq (as @ bs)" "call_good s" "mode s = POK_PARTITION_MODE_NORMAL"
  shows "\<exists>s'. wq_notify_loop section wq is_all (first_of bs None) ret s
       = Some (if \<exists>t \<in> set bs. waiting s t then POK_ERRNO_OK else ret, s')
     \<and> section_queue s' section wq (as @ left_queued is_all s bs) \<and> call_good s'
     \<and> user_frame wq (set (as @ bs)) s s' \<and> woken_by_notify (notified is_all s bs) s s'
     \<and> (\<forall>t \<in> set bs - set (left_queued is_all s bs). unlinked s' t)"
  using assms
proof (induction bs arbitrary: as s ret)
  case Nil
  then show ?case
    by (subst wq_notify_loop.simps) (simp add: left_queued_def notified_def woken_by_notify_def)
next
  case (Cons t bs)
  have t: "t < nthreads_used s" "ordinary s t" "msection_entering (threads s t) = Some section"
    and d: "t \<notin> set bs" "distinct (as @ t # bs)"
    and next': "wq_next (tshd s t) = first_of bs None"
    using Cons.prems(1) by (auto simp: section_queue_def wq_list_def wq_seg_append ordinary_def)
  note loop = wq_notify_loop.simps [of "section" wq _ "Some t"]
  show ?case
  proof (cases "waiting s t")
    case False
    let ?u = "wq_unlink wq t s"
    note st = stale_step [OF Cons.prems(1,2)]
    have eq: "left_queued is_all ?u = left_queued is_all s" "notified is_all ?u = notified is_all s"
      "woken_by_notify W ?u = woken_by_notify W s" for W
      by (simp_all add: fun_eq_iff left_queued_def notified_def woken_by_notify_def wq_unlink_same)
    obtain s' where s': "wq_notify_loop section wq is_all (first_of bs None) ret ?u
        = Some (if \<exists>t \<in> set bs. waiting s t then POK_ERRNO_OK else ret, s')"
      "section_queue s' section wq (as @ left_queued is_all s bs)" "call_good s'"
      "user_frame wq (set (as @ bs)) ?u s'" "woken_by_notify (notified is_all s bs) s s'"
      "\<forall>v \<in> set bs - set (left_queued is_all s bs). unlinked s' v"
      using Cons.IH [OF st(2,4), of ret] Cons.prems(3) unfolding eq by (auto simp: wq_unlink_same)
    have "user_frame wq (set (as @ t # bs)) s s'"
      using user_frame_trans [OF st(3)] user_frame_mono [OF s'(4), of "set (as @ t # bs)"] by auto
    moreover have "left_queued is_all s (t # bs) = left_queued is_all s bs"
      "notified is_all s (t # bs) = notified is_all s bs"
      using False by (simp_all add: left_queued_def notified_def)
    moreover have "unlinked s' t"
    proof -
      have "t \<notin> set (as @ bs)" using d by auto
      then have "tshd s' t = tshd ?u t" using s'(4) unfolding user_frame_def by blast
      then show ?thesis using unlinked_wq_unlink [of wq t s] by (simp add: unlinked_def)
    qed
    ultimately show ?thesis using False s' st(1) t next'
      by (intro exI [of _ s']) (simp add: loop assert_thread_id_def insert_Diff_if)
  next
    case True
    obtain u where u: "wake_up_ok t s = Some u" "call_good u" "user_frame wq {} s u" "tshd u = tshd s"
      "msection_wqs u = msection_wqs s" "state (threads u t) = POK_STATE_RUNNABLE"
      "wait_result (threads u t) = POK_ERRNO_OK" "\<forall>v. v \<noteq> t \<longrightarrow> threads u v = threads s v"
      using wake_up_ok_spec [OF Cons.prems(2) t(2) Cons.prems(3) True] by blast
    have f: "user_frame wq (set (as @ t # bs)) s u" by (rule user_frame_mono [OF u(3)]) simp
    have q: "section_queue u section wq ((as @ [t]) @ bs)"
      by (rule section_queue_frame [OF u(3) _ _ Cons.prems(1)])
        (use Cons.prems(1) wq_list_same [OF u(4,5)] in \<open>auto simp: section_queue_def\<close>)
    have same: "waiting u v = waiting s v" if "v \<in> set bs" for v using that u(8) d(1) by metis
    show ?thesis
    proof (cases is_all)
      case False
      then show ?thesis using True u(1,2,6-8) q f t
        by (intro exI [of _ u]) (auto simp: loop assert_thread_id_def left_queued_def notified_def woken_by_notify_def)
    next
      case all: True
      have fl: "filter (waiting u) bs = filter (waiting s) bs" by (rule filter_cong) (use same in auto)
      obtain s' where s': "wq_notify_loop section wq is_all (first_of bs None) POK_ERRNO_OK u = Some (POK_ERRNO_OK, s')"
        "section_queue s' section wq ((as @ [t]) @ filter (waiting s) bs)" "call_good s'"
        "user_frame wq (set (as @ t # bs)) u s'" "woken_by_notify (filter (waiting s) bs) u s'"
        "\<forall>v \<in> set bs - set (filter (waiting s) bs). unlinked s' v"
        using Cons.IH [OF q u(2), of POK_ERRNO_OK] f Cons.prems(3) all fl
        by (auto simp: left_queued_def notified_def user_frame_def)
      have "woken_by_notify (t # filter (waiting s) bs) s s'"
        using s'(5) u(6-8) by (auto simp: woken_by_notify_def split: if_splits)
      then show ?thesis using True all s' user_frame_trans [OF f s'(4)] u(1) t next'
        by (intro exI [of _ s']) (simp add: loop assert_thread_id_def left_queued_def notified_def)
    qed
  qed
qed

lemma wq_size_loop_spec:
  assumes "section_queue s section wq (as @ bs)" "call_good s" "n + length bs < 2 ^ 32"
  shows "\<exists>s'. wq_size_loop section wq (first_of bs None) n s = Some (n + length (filter (waiting s) bs), s')
     \<and> section_queue s' section wq (as @ filter (waiting s) bs) \<and> call_good s'
     \<and> user_frame wq (set (as @ bs)) s s' \<and> threads s' = threads s"
  using assms
proof (induction bs arbitrary: as s n)
  case Nil
  then show ?case by (subst wq_size_loop.simps) simp
next
  case (Cons t bs)
  have t: "t < nthreads_used s" "msection_entering (threads s t) = Some section"
    and next': "wq_next (tshd s t) = first_of bs None"
    using Cons.prems(1) by (auto simp: section_queue_def wq_list_def wq_seg_append ordinary_def)
  note loop = wq_size_loop.simps [of "section" wq "Some t"]
  show ?case
  proof (cases "waiting s t")
    case False
    let ?u = "wq_unlink wq t s"
    note st = stale_step [OF Cons.prems(1,2)]
    obtain s' where s': "wq_size_loop section wq (first_of bs None) n ?u = Some (n + length (filter (waiting s) bs), s')"
      "section_queue s' section wq (as @ filter (waiting s) bs)" "call_good s'"
      "user_frame wq (set (as @ bs)) ?u s'" "threads s' = threads s"
      using Cons.IH [OF st(2,4), of n] Cons.prems(3) by (auto simp: wq_unlink_same)
    have "user_frame wq (set (as @ t # bs)) s s'"
      using user_frame_trans [OF st(3)] user_frame_mono [OF s'(4), of "set (as @ t # bs)"] by auto
    then show ?thesis using False s' st(1) t next'
      by (intro exI [of _ s']) (simp add: loop assert_thread_id_def)
  next
    case True
    have "section_queue s section wq ((as @ [t]) @ bs)" using Cons.prems(1) by simp
    from Cons.IH [OF this Cons.prems(2), of "n + 1"] Cons.prems(3) show ?thesis
      using True t next' by (simp add: loop assert_thread_id_def)
  qed
qed

text \<open>Both calls disable local preemption first.\<close>

lemma local_disable_frame:
  "\<not> preempt_local_disabled (base_part s) \<Longrightarrow>
   pok_preemption_local_disable s = Some (upd_base (\<lambda>part. part\<lparr>preempt_local_disabled := True\<rparr>) s)"
  by (simp add: pok_preemption_local_disable_def)

lemma section_queue_base [simp]: "section_queue (upd_base f s) section wq xs = section_queue s section wq xs"
  by (simp add: section_queue_def upd_base_frame wq_list_def) (simp add: upd_base_def)

lemma upd_base_user [simp]:
  "threads (upd_base f s) = threads s" "mode (upd_base f s) = mode s" "msection_wqs (upd_base f s) = msection_wqs s"
  "tshd (upd_base f s) = tshd s" "msections (upd_base f s) = msections s" "umem (upd_base f s) = umem s"
  "thread_current (upd_base f s) = thread_current s" "user_access (upd_base f s) = user_access s"
  "kshd_current_thread_id (upd_base f s) = kshd_current_thread_id s" "nthreads_used (upd_base f s) = nthreads_used s"
  "lock_level (upd_base f s) = lock_level s" "thread_error (upd_base f s) = thread_error s"
  by (simp_all add: upd_base_def)

lemma wq_notify_spec:
  assumes "section_queue s section wq xs" "call_good s" "mode s = POK_PARTITION_MODE_NORMAL"
    "\<not> preempt_local_disabled (base_part s)" "user_access s section 2" "user_access s wq 2"
    "thread_current s = Some cur" "owner (msections s section) = Some cur"
  shows "\<exists>s'. jet_msection_wq_notify section wq is_all s
       = Some (Leave (if \<exists>t \<in> set xs. waiting s t then POK_ERRNO_OK else POK_ERRNO_EMPTY), s')
     \<and> section_queue s' section wq (left_queued is_all s xs) \<and> call_good s'
     \<and> user_frame wq (set xs) (upd_base (\<lambda>part. part\<lparr>preempt_local_disabled := True\<rparr>) s) s'
     \<and> woken_by_notify (notified is_all s xs) s s'
     \<and> (\<forall>t \<in> set xs - set (left_queued is_all s xs). unlinked s' t)"
proof -
  let ?b = "upd_base (\<lambda>part. part\<lparr>preempt_local_disabled := True\<rparr>) s"
  have first: "wq_first (msection_wqs s wq) = first_of xs None"
    using assms(1) by (simp add: section_queue_def wq_list_def)
  have "section_queue ?b section wq ([] @ xs)" "call_good ?b" "mode ?b = POK_PARTITION_MODE_NORMAL" using assms(1-3) by simp_all
  from wq_notify_loop_spec [OF this, of is_all POK_ERRNO_EMPTY] show ?thesis
    using assms(4-8) first
    by (auto simp: jet_msection_wq_notify_def local_disable_frame left_queued_def notified_def woken_by_notify_def cong: if_cong)
qed

lemma wq_size_spec:
  assumes "section_queue s section wq xs" "call_good s" "length xs < 2 ^ 32"
    "\<not> preempt_local_disabled (base_part s)" "user_access s section 2" "user_access s wq 2"
    "thread_current s = Some cur" "owner (msections s section) = Some cur"
  shows "\<exists>s'. jet_msection_wq_size section wq True s = Some ((Leave POK_ERRNO_OK, length (filter (waiting s) xs)), s')
     \<and> section_queue s' section wq (filter (waiting s) xs) \<and> call_good s' \<and> threads s' = threads s"
proof -
  let ?b = "upd_base (\<lambda>part. part\<lparr>preempt_local_disabled := True\<rparr>) s"
  have first: "wq_first (msection_wqs s wq) = first_of xs None"
    using assms(1) by (simp add: section_queue_def wq_list_def)
  have "section_queue ?b section wq ([] @ xs)" "call_good ?b" using assms(1-3) by simp_all
  from wq_size_loop_spec [OF this, of 0] show ?thesis
    using assms(3-8) first by (auto simp: jet_msection_wq_size_def local_disable_frame)
qed

text \<open>
  C21: on a wait queue with correct links the loops of the kernel end and no assertion fails.
  A notification wakes up the waiting threads, all or only the first, with the result \<open>POK_ERRNO_OK\<close>,
  touches no other thread, says whether there was one, and takes the threads out that have stopped
  waiting and stand before the last one looked at; so after a single notification the woken thread
  is the first of the queue. The size is the number of waiting threads, and only those are left.
\<close>

theorem section_queue_calls:
  assumes "section_queue s section wq xs" and "call_good s" and "mode s = POK_PARTITION_MODE_NORMAL"
    and "\<not> preempt_local_disabled (base_part s)" and "user_access s section 2" and "user_access s wq 2"
    and "thread_current s = Some cur" and "owner (msections s section) = Some cur" and "length xs < 2 ^ 32"
  shows "\<exists>s' s''. jet_msection_wq_notify section wq is_all s
       = Some (Leave (if \<exists>t \<in> set xs. waiting s t then POK_ERRNO_OK else POK_ERRNO_EMPTY), s')
     \<and> section_queue s' section wq (left_queued is_all s xs) \<and> call_good s'
     \<and> woken_by_notify (notified is_all s xs) s s' \<and> (\<forall>t \<in> set xs - set (left_queued is_all s xs). unlinked s' t)
     \<and> jet_msection_wq_size section wq True s = Some ((Leave POK_ERRNO_OK, length (filter (waiting s) xs)), s'')
     \<and> section_queue s'' section wq (filter (waiting s) xs) \<and> call_good s'' \<and> threads s'' = threads s"
  using wq_notify_spec [OF assms(1-8), of is_all] wq_size_spec [OF assms(1,2,9,4-8)] by blast

text \<open>A section at address 100 with its queue at 102: thread 1 is in the section, thread 2 has been
  woken up by its timeout, threads 3 and 4 wait.\<close>

definition example_section :: arinc where
  "example_section = example_arinc\<lparr>nthreads_used := 5, nthreads := 5,
     threads := (\<lambda>t. if t = 0 \<or> 4 < t then (example_thread t)\<lparr>state := POK_STATE_STOPPED\<rparr>
        else if t = 1 then example_thread t
        else if t = 2 then (example_thread t)\<lparr>msection_entering := Some 100, wait_result := POK_ERRNO_TIMEOUT\<rparr>
        else (example_thread t)\<lparr>state := POK_STATE_WAITING, msection_entering := Some 100\<rparr>),
     thread_current := Some 1, sched_local_recheck_needed := True, kshd_current_thread_id := Some 1,
     tshd := (\<lambda>t. (tshd example_arinc t)\<lparr>msection_count := (if t = 0 then 0 else 1),
        wq_next := (if t = 2 \<or> t = 3 then Some (t + 1) else None),
        wq_prev := (if t = 3 \<or> t = 4 then Some (t - 1) else None)\<rparr>),
     msections := (\<lambda>_. \<lparr>owner = Some 1, msection_kernel_flags = 1\<rparr>),
     msection_wqs := (\<lambda>_. \<lparr>wq_first = Some 2, wq_last = Some 4\<rparr>)\<rparr>"

lemma example_section_fields:
  "nthreads_used example_section = 5" "thread_error example_section = None"
  "mode example_section = POK_PARTITION_MODE_NORMAL" "thread_current example_section = Some 1"
  "kshd_current_thread_id example_section = Some 1" "user_access example_section = (\<lambda>_ _. True)"
  "msections example_section = (\<lambda>_. \<lparr>owner = Some 1, msection_kernel_flags = 1\<rparr>)"
  "\<not> preempt_local_disabled (base_part example_section)" "lock_level example_section = 0"
  "state (threads example_section t) = (if t = 0 \<or> 4 < t then POK_STATE_STOPPED
     else if t < 3 then POK_STATE_RUNNABLE else POK_STATE_WAITING)"
  "msection_entering (threads example_section t) = (if 2 \<le> t \<and> t \<le> 4 then Some 100 else None)"
  by (auto simp: example_section_def example_arinc_def example_thread_def example_parts_def example_partition_def example_sched_def)

lemma example_section_queue: "section_queue example_section 100 102 [2, 3, 4]"
proof -
  have "wq_list example_section 102 [2, 3, 4]" by (simp add: wq_list_def example_section_def)
  then show ?thesis by (simp add: section_queue_def ordinary_def example_section_fields)
qed

lemma example_section_good: "call_good example_section"
proof -
  have "t \<in> {2, 1} \<longleftrightarrow> 0 < t \<and> t < 3" for t :: nat by auto
  then have "thr_inv {} example_section"
    by (auto simp: thr_inv_def example_section_def example_arinc_def thr_simps dq_inv_def dq_active_def is_in_wait_queue_def
        example_thread_def)
  then show ?thesis by (simp add: call_good_def settled_def example_section_def)
qed

theorem section_queue_calls_witness:
  "\<exists>s'. jet_msection_wq_notify 100 102 False example_section = Some (Leave POK_ERRNO_OK, s')
     \<and> section_queue s' 100 102 [3, 4] \<and> \<not> waiting s' 3 \<and> waiting s' 4"
proof -
  obtain s' where s': "jet_msection_wq_notify 100 102 False example_section = Some (Leave POK_ERRNO_OK, s')"
    "section_queue s' 100 102 [3, 4]" "woken_by_notify [3] example_section s'"
    using section_queue_calls [OF example_section_queue example_section_good, of 1 False]
    by (auto simp: example_section_fields left_queued_def notified_def)
  from s'(3) have "state (threads s' 3) = POK_STATE_RUNNABLE" "threads s' 4 = threads example_section 4"
    by (auto simp: woken_by_notify_def)
  then show ?thesis using s' by (simp add: example_section_fields)
qed

end
