(* ===== verification/PartitionRun.thy ===== *)
theory PartitionRun
  imports PartitionLife ThreadMsection
begin

section \<open>Life of a partition in normal mode\<close>

text \<open>
  The remaining system calls keep the promises of the local scheduler as well; together with the
  calls on threads, the handling of events and the choice of a thread they make up the steps of a
  partition in normal mode, and the last property speaks of all states these steps reach.
\<close>

subsection \<open>Frames\<close>

lemma call_good_step: "call_good s \<Longrightarrow> sched_good s s' \<Longrightarrow> call_good s'"
  unfolding call_good_def sched_good_def by (elim conjE, rule conjI, assumption, rule keeps_choice_settled)

lemma call_good_same:
  "call_good s \<Longrightarrow> same_sched s s' \<Longrightarrow> same_ctl s s' \<Longrightarrow> error_list s' = error_list s \<Longrightarrow> call_good s'"
  by (rule call_good_step [OF _ sched_good_same]) (simp_all add: call_good_def)

lemma call_good_inv: "call_good s \<Longrightarrow> thr_inv {} s"
  by (simp add: call_good_def)

lemma call_good_upd_channel [simp]: "call_good s \<Longrightarrow> call_good (upd_channel c ch s)"
  using sched_good_base(3) by (blast intro: call_good_step call_good_inv)

subsection \<open>Waiting on a port\<close>

text \<open>A thread is put into the wait queue before it waits; the two steps commute.\<close>

lemma upd_port_commute:
  "upd_port i f (upd_thread t g s) = upd_thread t g (upd_port i f s)"
  "thread_set_uneligible t (upd_port i f s) = upd_port i f (thread_set_uneligible t s)"
  "upd_events h (upd_port i f s) = upd_port i f (upd_events h s)"
  "(upd_port i f s)\<lparr>clock_pos := n\<rparr> = upd_port i f (s\<lparr>clock_pos := n\<rparr>)"
  by (simp_all add: upd_port_def upd_thread_def upd_events_def thread_set_uneligible_def thread_is_eligible_def first_eligible_def
      pok_sched_local_invalidate_def Let_def)

text \<open>The priorities by which a thread is placed: its own is noted first.\<close>

definition queue_priority :: "nat \<Rightarrow> arinc \<Rightarrow> nat \<Rightarrow> nat" where
  "queue_priority t s = (\<lambda>u. wait_priority (threads s u))(t := priority (threads s t))"

definition place_by :: "(nat \<Rightarrow> nat) \<Rightarrow> nat \<Rightarrow> pok_port_queuing \<Rightarrow> pok_port_queuing" where
  "place_by w t p = p\<lparr>waiters := insert_before_first (\<lambda>other. w other < w t) t (waiters p)\<rparr>"

definition note_priority :: "pok_thread \<Rightarrow> pok_thread" where
  "note_priority th = th\<lparr>wait_priority := priority th\<rparr>"

lemma wq_add_eq:
  "pok_thread_wq_add_common i t disc s =
     (if disc = POK_QUEUING_DISCIPLINE_FIFO then upd_port i (\<lambda>p. p\<lparr>waiters := waiters p @ [t]\<rparr>) s
      else upd_port i (place_by (queue_priority t s) t) (upd_thread t note_priority s))"
proof -
  have "wait_priority (threads (upd_thread t (\<lambda>th. th\<lparr>wait_priority := priority th\<rparr>) s) u) = queue_priority t s u" for u
    by (simp add: queue_priority_def)
  moreover have "queue_priority t s t = priority (threads s t)" by (simp add: queue_priority_def)
  ultimately show ?thesis unfolding pok_thread_wq_add_common_def pok_thread_wq_add_def pok_thread_wq_add_prio_def Let_def
    by (simp add: place_by_def [abs_def] note_priority_def [abs_def] cong: if_cong)
qed

lemma queue_priority_frame:
  "(\<And>th. priority (f th) = priority th) \<Longrightarrow> queue_priority t (upd_thread t f s) = queue_priority t s"
  "queue_priority t (upd_events h s) = queue_priority t s"
  "queue_priority t (thread_set_uneligible t s) = queue_priority t s"
  by (simp_all add: queue_priority_def fun_eq_iff)

lemma note_priority_commute:
  "upd_thread t note_priority (upd_thread t (\<lambda>th. th\<lparr>state := x\<rparr>) s) = upd_thread t (\<lambda>th. th\<lparr>state := x\<rparr>) (upd_thread t note_priority s)"
  "upd_thread t note_priority (upd_thread t (\<lambda>th. th\<lparr>thread_delayed_func := y\<rparr>) s)
     = upd_thread t (\<lambda>th. th\<lparr>thread_delayed_func := y\<rparr>) (upd_thread t note_priority s)"
  "upd_events h (upd_thread u f s) = upd_thread u f (upd_events h s)"
proof -
  have "note_priority (th\<lparr>state := x\<rparr>) = (note_priority th)\<lparr>state := x\<rparr>"
    "note_priority (th\<lparr>thread_delayed_func := y\<rparr>) = (note_priority th)\<lparr>thread_delayed_func := y\<rparr>" for th
    by (cases th; simp add: note_priority_def)+
  then show "upd_thread t note_priority (upd_thread t (\<lambda>th. th\<lparr>state := x\<rparr>) s) = upd_thread t (\<lambda>th. th\<lparr>state := x\<rparr>) (upd_thread t note_priority s)"
    "upd_thread t note_priority (upd_thread t (\<lambda>th. th\<lparr>thread_delayed_func := y\<rparr>) s)
       = upd_thread t (\<lambda>th. th\<lparr>thread_delayed_func := y\<rparr>) (upd_thread t note_priority s)"
    "upd_events h (upd_thread u f s) = upd_thread u f (upd_events h s)"
    by (simp_all add: upd_thread_def upd_events_def)
qed

lemma wait_in_queue:
  "thread_wait t (pok_thread_wq_add_common i t disc s) = map_option (pok_thread_wq_add_common i t disc) (thread_wait t s)"
proof -
  have m: "mode (pok_thread_wq_add_common i t disc s) = mode s" by (simp add: wq_add_eq upd_port_def)
  have "thread_set_uneligible t (upd_thread t (\<lambda>th. th\<lparr>state := POK_STATE_WAITING\<rparr>) (pok_thread_wq_add_common i t disc s))
      = pok_thread_wq_add_common i t disc (thread_set_uneligible t (upd_thread t (\<lambda>th. th\<lparr>state := POK_STATE_WAITING\<rparr>) s))"
    by (simp add: wq_add_eq upd_port_commute uneligible_upd_thread note_priority_commute queue_priority_frame)
  then show ?thesis by (simp add: thread_wait_def kassert_def m)
qed

lemma wait_common_in_queue:
  "thread_wait_common t dur (pok_thread_wq_add_common i t disc s)
     = map_option (pok_thread_wq_add_common i t disc) (thread_wait_common t dur s)"
proof -
  let ?q = "pok_thread_wq_add_common i t disc"
  have c: "(?q v)\<lparr>clock_pos := n\<rparr> = ?q (v\<lparr>clock_pos := n\<rparr>)" "clock (?q v) = clock v" "clock_pos (?q v) = clock_pos v" for v n
    by (simp_all add: wq_add_eq upd_port_def queue_priority_def) (simp_all add: upd_thread_def)
  have d: "thread_delay_event t tp Thread_wake_up (?q v) = ?q (thread_delay_event t tp Thread_wake_up v)" for tp v
    by (simp add: wq_add_eq thread_delay_event_def upd_port_commute note_priority_commute queue_priority_frame)
  show ?thesis
    by (simp add: thread_wait_common_def thread_wait_timed_def kassert_def jet_system_time_def c wait_in_queue d
        option.map_comp comp_def split: option.split Option.bind_split)
qed

text \<open>A thread that waits, perhaps for a time, may also be in a wait queue.\<close>

lemma distinct_concat_update:
  assumes "distinct (concat xss)" "i < length xss" "distinct ys" "set ys = insert t (set (xss ! i))" "t \<notin> set (concat xss)"
  shows "distinct (concat (xss[i := ys])) \<and> set (concat (xss[i := ys])) = insert t (set (concat xss))"
proof -
  have x: "xss = take i xss @ xss ! i # drop (Suc i) xss" using assms(2) by (rule id_take_nth_drop)
  have u: "xss[i := ys] = take i xss @ ys # drop (Suc i) xss" using assms(2) by (rule upd_conv_take_nth_drop)
  have "concat xss = concat (take i xss) @ xss ! i @ concat (drop (Suc i) xss)" by (subst x) simp
  then show ?thesis unfolding u using assms by auto
qed

lemma enqueue_inv:
  assumes "thr_inv {} s" "ordinary s t" "mode s = POK_PARTITION_MODE_NORMAL" "state (threads s t) = POK_STATE_WAITING"
    "i < length (ports_queuing s)" "\<not> is_in_wait_queue t s"
    "dq_active (partition_delayed_events s) (t, Delayed_event) \<Longrightarrow> thread_delayed_func (threads s t) = Thread_wake_up"
  shows "thr_inv {} (pok_thread_wq_add_common i t disc s)"
proof -
  obtain ys f where e: "pok_thread_wq_add_common i t disc s = upd_port i (\<lambda>p. p\<lparr>waiters := ys\<rparr>) (upd_thread t f s)"
    and ys: "distinct ys" "set ys = insert t (set (waiters (ports_queuing s ! i)))"
    and f: "\<And>th. same_thread (f th) th"
  proof (cases "disc = POK_QUEUING_DISCIPLINE_FIFO")
    case True
    have "upd_thread t (\<lambda>th. th) s = s" by (simp add: upd_thread_def)
    then show ?thesis using True assms(1,5,6) that [of "waiters (ports_queuing s ! i) @ [t]" "\<lambda>th. th"]
      by (simp add: wq_add_eq upd_port_def same_thread_def is_in_wait_queue_def thr_inv_def distinct_concat_iff)
  next
    case False
    then show ?thesis using assms(1,5,6)
        that [of "waiters (place_by (queue_priority t s) t (ports_queuing s ! i))" note_priority]
      by (simp add: wq_add_eq upd_port_def same_thread_def is_in_wait_queue_def thr_inv_def distinct_concat_iff
          place_by_def note_priority_def)
  qed
  let ?s = "upd_thread t f s" and ?u = "upd_port i (\<lambda>p. p\<lparr>waiters := ys\<rparr>) (upd_thread t f s)"
  have s: "thr_inv {} ?s" using assms(1) by (simp add: same_thread_inv f)
  have c: "distinct (concat (map waiters (ports_queuing ?u)))"
    "is_in_wait_queue v ?u \<longleftrightarrow> v = t \<or> is_in_wait_queue v ?s" for v
    using distinct_concat_update [of "map waiters (ports_queuing s)" i ys t] assms(1,5,6) ys
    by (auto simp: in_wait_queue_concat upd_port_def map_update thr_inv_def simp del: set_concat)
  have m: "may_run ?u v = may_run ?s v" for v by (simp add: may_run_def upd_port_def ordinary_def)
  have "thread_ok ?u v" for v
  proof (cases "v = t")
    case True
    then show ?thesis using thr_inv_thread [OF s, of t] assms(2-4,7) f [unfolded same_thread_def]
      by (simp add: thread_ok_def c ordinary_def) (simp add: upd_port_def)
  next
    case False
    then show ?thesis using thr_inv_thread [OF s, of v]
      by (simp add: thread_ok_def c ordinary_def) (simp add: upd_port_def)
  qed
  then show ?thesis unfolding e using s c(1) m by (simp add: thr_inv_def) (simp add: upd_port_def)
qed

lemma wait_common_fields:
  assumes "thread_wait_common t dur s = Some s'"
  shows "mode s = POK_PARTITION_MODE_NORMAL" "mode s' = mode s" "nthreads_used s' = nthreads_used s"
    "thread_error s' = thread_error s" "ports_queuing s' = ports_queuing s" "state (threads s' t) = POK_STATE_WAITING"
    "dq_active (partition_delayed_events s') (t, Delayed_event) \<Longrightarrow>
       dq_active (partition_delayed_events s) (t, Delayed_event) \<or> thread_delayed_func (threads s' t) = Thread_wake_up"
  using assms
  by (auto simp: thread_wait_common_def thread_wait_timed_def thread_wait_def kassert_def jet_system_time_def bind_Some
      thread_delay_event_def split: if_splits)

lemma wait_on_port_good:
  assumes "call_good s" "ordinary s t" "state (threads s t) = POK_STATE_RUNNABLE" "i < length (ports_queuing s)"
    "thread_wait_common t dur (pok_thread_wq_add_common i t disc s) = Some s'"
  shows "call_good s'"
proof -
  obtain w where w: "thread_wait_common t dur s = Some w" and s': "s' = pok_thread_wq_add_common i t disc w"
    using assms(5) by (auto simp: wait_common_in_queue)
  note f = wait_common_fields [OF w]
  have g: "call_good w" by (rule wait_common_good [OF assms(1-3) w])
  have idle: "\<not> dq_active (partition_delayed_events s) (t, Delayed_event)" "\<not> is_in_wait_queue t s"
    using idle_thread [OF call_good_inv [OF assms(1)], of t] assms(3) by simp_all
  have "thr_inv {} s'" unfolding s'
    by (rule enqueue_inv [OF call_good_inv [OF g]]) (use f assms(2,4) idle in \<open>auto simp: ordinary_def is_in_wait_queue_def\<close>)
  moreover have "chosen s' = chosen w"
    unfolding s' by (rule chosen_cong) (simp_all add: wq_add_eq upd_port_def note_priority_def)
  moreover have "sched_local_recheck_needed s' = sched_local_recheck_needed w" "thread_selected s' = thread_selected w"
    by (simp_all add: s' wq_add_eq upd_port_def upd_thread_def)
  ultimately show ?thesis using g by (simp add: call_good_def settled_def)
qed

subsection \<open>Calls on ports\<close>

abbreviation "disabled \<equiv> upd_base (\<lambda>part. part\<lparr>preempt_local_disabled := True\<rparr>)"

lemma disabled_current: "thread_current (disabled s) = thread_current s" by (simp add: upd_base_def)

lemma get_port_bound: "get_port_queuing pid s = Some (Some i) \<Longrightarrow> i = pid \<and> pid < length (ports_queuing s)"
  by (auto simp: get_port_queuing_def kassert_def split: if_splits)

text \<open>The common part of the two calls: \<open>take\<close> takes a message of the channel or a free place in it.\<close>

definition port_transfer ::
  "pok_ret \<Rightarrow> (bool \<Rightarrow> pok_channel_queuing \<Rightarrow> ('m option \<times> pok_channel_queuing) option) \<Rightarrow> (nat \<Rightarrow> nat \<Rightarrow> arinc \<Rightarrow> arinc option)
     \<Rightarrow> (arinc \<Rightarrow> arinc) \<Rightarrow> nat \<Rightarrow> nat \<Rightarrow> pok_time \<Rightarrow> arinc \<Rightarrow> arinc option" where
  "port_transfer imm get transfer note i t dur s = do {
     ret \<leftarrow> port_may_wait dur imm s;
     (message, s) \<leftarrow>
       (if \<not> pok_thread_wq_is_empty i s then Some (None, s)
        else do {
          (m, ch) \<leftarrow> get (ret = POK_ERRNO_OK) (port_channel i s);
          Some (m, upd_channel (pq_channel (ports_queuing s ! i)) ch s)
        });
     if message = None then
       (if ret \<noteq> POK_ERRNO_OK then Some s
        else thread_wait_common t dur (pok_thread_wq_add_common i t (discipline (ports_queuing s ! i)) (note s)))
     else transfer i t (note s)
   }"

lemma port_receive_transfer:
  assumes "pok_port_queuing_receive pid timeout data ok s = Some (r, s')" "thread_current s = Some t"
  shows "s' = s \<or> (\<exists>dur. pid < length (ports_queuing s) \<and> port_transfer POK_ERRNO_EMPTY pok_channel_queuing_r_get_message
     port_queuing_receive (upd_thread t (\<lambda>th. th\<lparr>wait_buffer := data\<rparr>)) pid t dur (disabled s) = Some s')"
proof -
  obtain port where gp: "get_port_queuing pid s = Some port"
    using assms(1) by (cases "get_port_queuing pid s") (simp_all add: pok_port_queuing_receive_def)
  have ports: "ports_queuing (disabled s) = ports_queuing s" "channels_queuing (disabled s) = channels_queuing s"
    by (simp_all add: upd_base_def)
  show ?thesis
  proof (cases "port = None \<or> timeout = None \<or> pok_preemption_local_disable s = None")
    case True
    then show ?thesis using assms(1) gp
      by (cases port; cases timeout) (simp_all add: pok_port_queuing_receive_def Let_def split: if_splits)
  next
    case False
    then obtain i kt b where i: "port = Some i" "timeout = Some kt" "pok_preemption_local_disable s = Some b" by auto
    have b: "b = disabled s" using local_disable_spec [OF i(3)] .
    note p = get_port_bound [OF gp [unfolded i(1)]]
    show ?thesis using assms i b p gp
      by (auto simp: pok_port_queuing_receive_def port_transfer_def Let_def disabled_current port_channel_def ports
          split: if_splits bind_splits prod.splits)
  qed
qed

lemma port_send_transfer:
  assumes "pok_port_queuing_send pid data len timeout s = Some (r, s')" "thread_current s = Some t"
  shows "s' = s \<or> (\<exists>dur. pid < length (ports_queuing s) \<and> port_transfer POK_ERRNO_FULL pok_channel_queuing_s_get_message
     port_queuing_send (upd_thread t (\<lambda>th. th\<lparr>wait_len := len, wait_buffer := data\<rparr>)) pid t dur (disabled s) = Some s')"
proof -
  obtain port where gp: "get_port_queuing pid s = Some port"
    using assms(1) by (cases "get_port_queuing pid s") (simp_all add: pok_port_queuing_send_def)
  have ports: "ports_queuing (disabled s) = ports_queuing s" "channels_queuing (disabled s) = channels_queuing s"
    by (simp_all add: upd_base_def)
  show ?thesis
  proof (cases "port = None \<or> timeout = None \<or> pok_preemption_local_disable s = None")
    case True
    then show ?thesis using assms(1) gp
      by (cases port; cases timeout) (simp_all add: pok_port_queuing_send_def Let_def split: if_splits)
  next
    case False
    then obtain i kt b where i: "port = Some i" "timeout = Some kt" "pok_preemption_local_disable s = Some b" by auto
    have b: "b = disabled s" using local_disable_spec [OF i(3)] .
    note p = get_port_bound [OF gp [unfolded i(1)]]
    show ?thesis using assms i b p gp
      by (auto simp: pok_port_queuing_send_def port_transfer_def Let_def disabled_current port_channel_def ports
          split: if_splits bind_splits prod.splits)
  qed
qed

lemma port_transfer_good:
  assumes "port_transfer imm get transfer (upd_thread t f) i t dur (disabled s) = Some s'" "call_good s" "running s t"
    and "imm \<noteq> POK_ERRNO_OK" and f: "\<And>th. same_thread (f th) th" and i: "i < length (ports_queuing s)"
    and tr: "\<And>v v'. thr_inv {} v \<Longrightarrow> transfer i t v = Some v' \<Longrightarrow> sched_good v v'"
  shows "call_good s'"
proof -
  obtain ret where r: "port_may_wait dur imm (disabled s) = Some ret"
    using assms(1) by (cases "port_may_wait dur imm (disabled s)") (simp_all add: port_transfer_def)
  obtain v where v: "v = disabled s \<or> (\<exists>c ch. v = upd_channel c ch (disabled s))"
    and s': "s' = v \<or> transfer i t (upd_thread t f v) = Some s'
      \<or> ret = POK_ERRNO_OK \<and> thread_wait_common t dur (pok_thread_wq_add_common i t (discipline (ports_queuing v ! i)) (upd_thread t f v)) = Some s'"
  proof (cases "pok_thread_wq_is_empty i (disabled s)")
    case False
    then show ?thesis using assms(1) r that [of "disabled s"] by (simp add: port_transfer_def split: if_splits)
  next
    case True
    then obtain m ch where "get (ret = POK_ERRNO_OK) (port_channel i (disabled s)) = Some (m, ch)"
      using assms(1) r by (cases "get (ret = POK_ERRNO_OK) (port_channel i (disabled s))") (auto simp: port_transfer_def)
    then show ?thesis using assms(1) r True that [of "upd_channel (pq_channel (ports_queuing (disabled s) ! i)) ch (disabled s)"]
      by (auto simp: port_transfer_def split: if_splits)
  qed
  have g: "call_good (upd_thread t f v)" "call_good v" using v assms(2) by (auto simp: same_thread_good f)
  have st: "state (threads s t) = POK_STATE_RUNNABLE" using assms(3) by (simp add: running_def)
  have e: "state (threads (upd_thread t f v) t) = POK_STATE_RUNNABLE" "i < length (ports_queuing (upd_thread t f v))"
    "ordinary (upd_thread t f v) u = ordinary s u" for u
    using v st i f [unfolded same_thread_def] by (auto simp: upd_base_frame ordinary_def upd_channel_def)
  from s' consider "s' = v" | "transfer i t (upd_thread t f v) = Some s'"
    | "ret = POK_ERRNO_OK" "thread_wait_common t dur (pok_thread_wq_add_common i t (discipline (ports_queuing v ! i)) (upd_thread t f v)) = Some s'"
    by blast
  then show ?thesis
  proof cases
    case 2
    then show ?thesis using tr call_good_inv call_good_step g(1) by blast
  next
    case 3
    have "thread_is_waiting_allowed (disabled s) = Some True"
      using r 3(1) assms(4) by (auto simp: port_may_wait_def split: if_splits bind_splits)
    then have "ordinary s t" using waiting_allowed_ordinary [of "disabled s" t] assms(3) by (auto simp: upd_base_frame)
    then show ?thesis using wait_on_port_good [OF g(1) _ e(1,2) 3(2)] e(3) by simp
  qed (use g in simp)
qed

lemma port_calls_good:
  assumes "call_good s"
  shows "running s cur \<Longrightarrow> pok_port_queuing_receive pid timeout data ok s = Some (r, s') \<Longrightarrow> call_good s'"
    and "running s cur \<Longrightarrow> pok_port_queuing_send pid data len timeout s = Some (r', s') \<Longrightarrow> call_good s'"
    and "pok_port_queuing_status pid ok s = Some (q, s') \<Longrightarrow> call_good s'"
    and "pok_port_queuing_clear pid s = Some (r', s') \<Longrightarrow> call_good s'"
proof -
  assume run: "running s cur"
  then have cur: "thread_current s = Some cur" by (simp add: running_def)
  show "call_good s'" if "pok_port_queuing_receive pid timeout data ok s = Some (r, s')"
    using port_receive_transfer [OF that cur]
    by (auto intro: port_transfer_good [OF _ assms run] simp: same_thread_def port_queuing_receive_good assms)
  show "call_good s'" if "pok_port_queuing_send pid data len timeout s = Some (r', s')"
    using port_send_transfer [OF that cur]
    by (auto intro: port_transfer_good [OF _ assms run] simp: same_thread_def port_queuing_send_good assms)
next
  show "call_good s'" if "pok_port_queuing_status pid ok s = Some (q, s')"
    using that assms by (auto simp: pok_port_queuing_status_def Let_def dest!: local_disable_spec split: bind_splits if_splits option.splits)
  show "call_good s'" if "pok_port_queuing_clear pid s = Some (r', s')"
    using that assms by (auto simp: pok_port_queuing_clear_def Let_def dest!: local_disable_spec split: bind_splits if_splits option.splits)
qed

subsection \<open>Errors\<close>

text \<open>Fetching an error may empty the list of errors, but the error handler, which runs, stays chosen.\<close>

lemma clear_error_bit_good:
  assumes "call_good s" "running s e" "thread_error s = Some e" "mode s = POK_PARTITION_MODE_NORMAL"
    "thread_clear_error_bit t b s = Some s'"
  shows "call_good s'"
proof -
  let ?n = "error_bits (threads s t) - b"
  have "(upd_thread t f s)\<lparr>error_list := error_list s\<rparr> = upd_thread t f s" for f by (simp add: upd_thread_def)
  then have "s' = (upd_thread t (\<lambda>th. th\<lparr>error_bits := ?n\<rparr>) s)\<lparr>error_list := if ?n = 0 then removeAll t (error_list s) else error_list s\<rparr>"
    using assms(5) by (simp add: thread_clear_error_bit_def kassert_def upd_thread_def Let_def split: if_splits)
  then obtain l n where s': "s' = (upd_thread t (\<lambda>th. th\<lparr>error_bits := n\<rparr>) s)\<lparr>error_list := l\<rparr>" by blast
  have "thr_inv {} s' = thr_inv {} s"
    unfolding s' by (rule thr_inv_same) (simp add: same_sched_def same_thread_def upd_thread_def)
  moreover have "chosen s' = chosen s" using assms(2-4) by (auto simp: s' chosen_def running_def)
  ultimately show ?thesis using assms(1) by (simp add: call_good_def settled_def s') (simp add: upd_thread_def)
qed

lemma error_get_good:
  assumes "call_good s" "running s cur" "mode s = POK_PARTITION_MODE_NORMAL" "pok_error_get ok msg s = Some (r, s')"
  shows "call_good s'"
proof -
  have u: "call_good (v\<lparr>umem := m\<rparr>)" if "call_good v" for v m
    by (rule call_good_same [OF that]) (simp_all add: same_ctl_def)
  have cp: "copy_error_to_user e m v = (x, v') \<Longrightarrow> call_good v \<Longrightarrow> call_good v'" for e m v v' x
    using u by (auto simp: copy_error_to_user_def Let_def)
  show ?thesis
  proof (cases "thread_current s = thread_error s")
    case False
    then show ?thesis using assms(1,4) by (simp add: pok_error_get_def)
  next
    case True
    then have e: "thread_error s = Some cur" using assms(2) by (simp add: running_def)
    note c = clear_error_bit_good [OF assms(1,2) e assms(3)]
    have t: "call_good v" if "pok_error_take t m s = Some (x, v)" for t m x v
      using that u cp c by (auto simp: pok_error_take_def Let_def split: if_splits prod.splits bind_splits)
    show ?thesis using assms(1,4) t by (auto simp: pok_error_get_def split: if_splits list.splits bind_splits)
  qed
qed

lemma sync_error_good:
  assumes "call_good s" "thread_emit_sync_error t e a s = Some s'"
  shows "call_good s'"
proof -
  have "call_good (s\<lparr>sync_error := e, sync_error_failed_addr := a\<rparr>)"
    by (rule call_good_same [OF assms(1)]) (simp_all add: same_sched_def same_thread_def same_ctl_def)
  then show ?thesis using assms(2) add_error_bit_good call_good_step call_good_inv
    unfolding thread_emit_sync_error_def by blast
qed

lemma raise_error_good:
  assumes "call_good s"
  shows "pok_error_raise_application_error msg n s = Some (Return r s') \<Longrightarrow> call_good s'"
    and "pok_partition_arinc_process_error st e a s = Some (Return x s') \<Longrightarrow> call_good s'"
proof -
  have p: "process_error_partition st e s = Some (Return y v) \<Longrightarrow> v = s" for st e y v
    using process_error_cases [of st e s "Return y v"] by simp
  have n: "thread_emit_sync_error t e a (disabled (upd_thread t (\<lambda>th. th\<lparr>wait_buffer := b, wait_len := l\<rparr>) s)) = Some v
      \<Longrightarrow> call_good v" for t b l e a v
    by (erule sync_error_good [rotated]) (use assms in \<open>simp add: same_thread_good same_thread_def\<close>)
  show "pok_error_raise_application_error msg n s = Some (Return r s') \<Longrightarrow> call_good s'"
    using assms n
    by (auto simp: pok_error_raise_application_error_def kbind_return Let_def dest!: p local_disable_spec
        split: if_splits bind_splits)
  show "pok_partition_arinc_process_error st e a s = Some (Return x s') \<Longrightarrow> call_good s'"
    using assms sync_error_good [of "disabled s"]
    by (auto simp: pok_partition_arinc_process_error_def kbind_return dest!: p local_disable_spec split: if_splits bind_splits)
qed

subsection \<open>Sections\<close>

lemma section_calls_good:
  assumes "call_good s" "running s cur"
  shows "jet_msection_enter_helper section s = Some (r, s') \<Longrightarrow> call_good s'"
    and "jet_msection_wait section timeout s = Some (r, s') \<Longrightarrow> call_good s'"
proof -
  have cur: "thread_current s = Some cur" "state (threads s cur) = POK_STATE_RUNNABLE" using assms(2) by (simp_all add: running_def)
  have inv: "thr_inv {} (pok_sched_local_invalidate (upd_thread t (\<lambda>th. th\<lparr>msection_entering := x\<rparr>) (disabled s)))" for t x
    using call_good_inv [OF assms(1)] by (simp add: same_thread_inv same_thread_def upd_base_frame)
  show "jet_msection_enter_helper section s = Some (r, s') \<Longrightarrow> call_good s'"
    using assms(1) inv
    by (auto simp: jet_msection_enter_helper_def call_good_invalidate Let_def dest!: local_disable_spec split: bind_splits if_splits)
  assume w: "jet_msection_wait section timeout s = Some (r, s')"
  define v where "v = upd_msection section (\<lambda>m. m\<lparr>owner := None\<rparr>) (upd_thread cur (\<lambda>th. th\<lparr>msection_entering := Some section\<rparr>) (disabled s))"
  from w consider "s' = s" | "s' = upd_thread cur (\<lambda>th. th\<lparr>wait_result := POK_ERRNO_CANCELLED\<rparr>) (disabled s)"
    | dur u where "thread_wait_common cur dur v = Some u" "s' = pok_sched_local_invalidate u" "lock_level s = 0" "thread_error s \<noteq> Some cur"
    by (auto simp: jet_msection_wait_def cur kassert_def Let_def v_def dest!: local_disable_spec
        split: option.splits bind_splits if_splits)
  then show "call_good s'"
  proof cases
    case (3 dur u)
    have f: "ordinary v t = ordinary s t" "mode v = mode s" "state (threads v cur) = POK_STATE_RUNNABLE" "thr_inv {} v" for t
      using call_good_inv [OF assms(1)] cur
      by (simp_all add: v_def ordinary_def upd_msection_def) (simp add: msection_frame_inv upd_base_frame flip: upd_msection_def)
    have "mode s = POK_PARTITION_MODE_NORMAL" using wait_common_fields(1) [OF 3(1)] f(2) by simp
    then have "ordinary v cur" using assms(2) 3(4) f(1) by (auto simp: running_def ordinary_def)
    then have "thr_inv {} u"
      using thread_wait_common_inv [OF f(4) _ _ thr_inv_deadline_ok [OF f(4)] _ 3(1)] idle_thread [OF f(4), of cur] f(3) by simp
    then show ?thesis unfolding 3(2) by (rule call_good_invalidate)
  qed (use assms(1) in \<open>simp_all add: same_thread_good same_thread_def\<close>)
qed

subsection \<open>Leaving a section\<close>

text \<open>Only ordinary threads can be stopped by others, so only they have donators.\<close>

definition donators_ok :: "arinc \<Rightarrow> bool" where
  "donators_ok s \<longleftrightarrow> (\<forall>t. first_donator (threads s t) \<noteq> None \<longrightarrow> ordinary s t)"

lemma donators_ok_frame:
  assumes "donators_ok s" "\<And>th. first_donator (f th) \<in> {None, first_donator th}"
  shows "donators_ok (upd_thread t f s)"
proof -
  have "first_donator (f (threads s t)) \<noteq> None \<Longrightarrow> first_donator (threads s t) \<noteq> None"
    using assms(2) [of "threads s t"] by auto
  then have "first_donator (threads (upd_thread t f s) u) \<noteq> None \<Longrightarrow> first_donator (threads s u) \<noteq> None" for u
    by (cases "u = t") simp_all
  moreover have "ordinary (upd_thread t f s) u = ordinary s u" for u by (simp add: ordinary_def)
  ultimately show ?thesis using assms(1) unfolding donators_ok_def by blast
qed

lemma donators_ok_stop:
  assumes "thread_stop t s = Some s'" "donators_ok s"
  shows "donators_ok s'"
proof -
  have "first_donator (threads s' u) = first_donator (threads s u)" "ordinary s' u = ordinary s u" for u
    using assms(1)
    by (auto simp: thread_stop_def kassert_def Let_def thread_stop_recoverable_def thread_stop_unlock_def
        thread_delay_event_cancel_def ordinary_def split: if_splits)
  then show ?thesis using assms(2) by (simp add: donators_ok_def)
qed

lemma call_good_stop_donator:
  "call_good s \<Longrightarrow> ordinary s t \<Longrightarrow> thread_stop t (upd_thread t (\<lambda>th. th\<lparr>first_donator := None\<rparr>) s) = Some s' \<Longrightarrow> call_good s'"
  using stop_good [of "upd_thread t (\<lambda>th. th\<lparr>first_donator := None\<rparr>) s" t s'] by (simp add: same_thread_good same_thread_def ordinary_def)

text \<open>One donator on its way out, up to the next one.\<close>

lemma release_donator_good:
  assumes g: "call_good s" "donators_ok s"
    and v: "v = s \<or> v = pok_sched_local_invalidate s"
    and w: "(if first_donator (threads v d) \<noteq> None then thread_stop d (upd_thread d (\<lambda>th. th\<lparr>first_donator := None\<rparr>) v) else Some v) = Some w"
  shows "call_good w \<and> donators_ok w"
proof -
  have i: "call_good v" "donators_ok v" using v g call_good_invalidate [OF call_good_inv [OF g(1)]]
    by (auto simp: donators_ok_def ordinary_def)
  show ?thesis
  proof (cases "first_donator (threads v d) = None")
    case True
    then show ?thesis using w i by simp
  next
    case False
    then have st: "thread_stop d (upd_thread d (\<lambda>th. th\<lparr>first_donator := None\<rparr>) v) = Some w" and o: "ordinary v d"
      using w i(2) by (auto simp: donators_ok_def)
    have "donators_ok (upd_thread d (\<lambda>th. th\<lparr>first_donator := None\<rparr>) v)" by (rule donators_ok_frame [OF i(2)]) simp
    then show ?thesis using call_good_stop_donator [OF i(1) o st] donators_ok_stop [OF st] by blast
  qed
qed

lemma donator_frame:
  "call_good s \<and> donators_ok s \<Longrightarrow> (\<And>th. same_thread (f th) th \<and> first_donator (f th) \<in> {None, first_donator th}) \<Longrightarrow>
   call_good (upd_thread t f s) \<and> donators_ok (upd_thread t f s)"
  by (simp add: same_thread_good donators_ok_frame)

lemma resume_donators_good:
  assumes "resume_donators d s = Some s'" "call_good s \<and> donators_ok s"
  shows "call_good s'"
proof -
  have "call_good s \<and> donators_ok s \<longrightarrow> call_good s'"
  proof (rule resume_donators.raw_induct [where P = "\<lambda>d s s'. call_good s \<and> donators_ok s \<longrightarrow> call_good s'", OF _ assms(1)],
      intro impI, goal_cases)
    case (1 f d s s')
    define u where "u = upd_thread d (\<lambda>th. th\<lparr>donate_target := None\<rparr>) s"
    define v where "v = (if thread_selected u = Some d then pok_sched_local_invalidate u else u)"
    have u: "call_good u" "donators_ok u"
      using donator_frame [OF 1(3), of "\<lambda>th. th\<lparr>donate_target := None\<rparr>" d] by (simp_all add: u_def same_thread_def)
    from 1(2) obtain w where w: "(if first_donator (threads v d) \<noteq> None
         then thread_stop d (upd_thread d (\<lambda>th. th\<lparr>first_donator := None\<rparr>) v) else Some v) = Some w"
      and s': "(case next_donator (threads v d) of None \<Rightarrow> Some (upd_thread d (\<lambda>th. th\<lparr>next_donator := None\<rparr>) w)
         | Some e \<Rightarrow> f e (upd_thread d (\<lambda>th. th\<lparr>next_donator := None\<rparr>) w)) = Some s'"
      unfolding u_def [symmetric] v_def [symmetric] Let_def bind_eq_Some_conv by blast
    have "call_good w \<and> donators_ok w" by (rule release_donator_good [OF u _ w]) (simp add: v_def)
    then have "call_good (upd_thread d (\<lambda>th. th\<lparr>next_donator := None\<rparr>) w) \<and> donators_ok (upd_thread d (\<lambda>th. th\<lparr>next_donator := None\<rparr>) w)"
      by (rule donator_frame) (simp add: same_thread_def)
    then show ?case using s' 1(1) by (auto split: option.splits)
  qed
  then show ?thesis using assms(2) by blast
qed

lemma resched_good:
  assumes "call_good s" "donators_ok s" "jet_resched s = Some (r, s')"
  shows "call_good s'"
proof -
  have b: "call_good (disabled s)" "donators_ok (disabled s)"
    using assms(1,2) by (simp_all add: donators_ok_def upd_base_frame)
  then have i: "call_good (pok_sched_local_invalidate (disabled s))" "donators_ok (pok_sched_local_invalidate (disabled s))"
    using call_good_invalidate [OF call_good_inv [OF b(1)]] by (simp_all add: donators_ok_def ordinary_def)
  have st: "call_good s'"
    if "first_donator (threads s t) = Some y" "v = disabled s \<or> v = pok_sched_local_invalidate (disabled s)"
      "thread_stop t (upd_thread t (\<lambda>th. th\<lparr>first_donator := None\<rparr>) v) = Some w" "resume_donators d w = Some s'" for v t w d y
  proof -
    have "first_donator (threads v t) \<noteq> None" using that(1,2) by auto
    then show ?thesis
      using release_donator_good [of v v t w] resume_donators_good [OF that(4)] that(2,3) b i by auto
  qed
  show ?thesis
    using assms(1,3) i(1)
    by (auto simp: jet_resched_def Let_def dest!: local_disable_spec split: bind_splits option.splits if_splits
        intro: st [OF _ disjI1 [OF refl]] st [OF _ disjI2 [OF refl]])
qed

subsection \<open>The local scheduler and the preemption lock\<close>

lemma on_event_good:
  assumes "call_good s" "pok_sched_arinc_on_event s = Some (Return r s')"
  shows "call_good s'"
proof -
  have g: "sched_arinc v = Some (Return r s') \<Longrightarrow> call_good v \<Longrightarrow> call_good s'" for v
    using sched_arinc_settles [of v r s'] by (simp add: call_good_def settled_def)
  show ?thesis using assms g
    by (auto simp: pok_sched_arinc_on_event_def same_thread_good same_thread_def split: option.splits if_splits bind_splits)
qed

lemma local_enable_good:
  "call_good s \<Longrightarrow> pok_preemption_local_enable s = Some (Return x s') \<Longrightarrow> call_good s' \<and> thread_selected s' = chosen s'"
  using local_enable_settles [of s x s'] by (auto simp: call_good_def settled_def)

lemma lock_calls_good:
  assumes "call_good s" "lock_level s \<le> MAX_LOCK_LEVEL" "thread_current s = Some t" "thread_selected s = Some t"
    "lock_level s \<noteq> 0 \<longrightarrow> thread_locked s = Some t"
  shows "pok_current_partition_inc_lock_level ok s = Some (r, s') \<Longrightarrow> call_good s'"
    and "pok_current_partition_dec_lock_level ok s = Some (r, s') \<Longrightarrow> call_good s'"
  using lock_level_spec [OF _ _ assms(2-5), of ok r s' 1] lock_level_spec [OF _ _ assms(2-5), of ok r s' "-1"] assms(1)
  by (simp_all add: call_good_def)

lemma outside_good:
  assumes "call_good s"
  shows "call_good (s\<lparr>parts := ps, channels_queuing := cq, channels_sampling := cs, gsched := g, clock := c, umem := m,
    tshd := d, msections := ms, msection_wqs := wq\<rparr>)"
  by (rule call_good_same [OF assms]) (simp_all add: same_sched_def same_thread_def same_ctl_def)

subsection \<open>All steps\<close>

text \<open>
  The states of a partition from its switch to normal mode on. Calls are made by the thread that runs;
  the ends of critical sections, interrupts and errors that interrupts detect come between them, and
  so does whatever changes the memory of the partition, the clock, the channels and the base parts of
  the partitions. Operations on wait queues in user memory follow links that the library keeps
  correct; the lock is changed by a thread that runs for itself and not for one that waits for it.
\<close>

inductive normal_life :: "arinc \<Rightarrow> bool" where
  switch: "thr_inv {} s \<Longrightarrow> mode s \<noteq> POK_PARTITION_MODE_NORMAL
     \<Longrightarrow> (\<And>t. ordinary s t \<Longrightarrow> state (threads s t) \<in> {POK_STATE_STOPPED, POK_STATE_WAITING})
     \<Longrightarrow> (\<And>e. thread_error s = Some e \<Longrightarrow> state (threads s e) = POK_STATE_STOPPED)
     \<Longrightarrow> get_next_periodic_processing_start (gsched s) = Some R \<Longrightarrow> \<not> pok_time_is_infinity R
     \<Longrightarrow> partition_set_mode_normal s = Some s' \<Longrightarrow> normal_life s'"
| on_thread: "normal_life s \<Longrightarrow> running s cur \<Longrightarrow> thread_call c s = Some (Return () s') \<Longrightarrow> normal_life s'"
| receive: "normal_life s \<Longrightarrow> running s cur \<Longrightarrow> pok_port_queuing_receive pid timeout data ok s = Some (out, s') \<Longrightarrow> normal_life s'"
| send: "normal_life s \<Longrightarrow> running s cur \<Longrightarrow> pok_port_queuing_send pid data len timeout s = Some (r, s') \<Longrightarrow> normal_life s'"
| status: "normal_life s \<Longrightarrow> pok_port_queuing_status pid ok s = Some (q, s') \<Longrightarrow> normal_life s'"
| clear: "normal_life s \<Longrightarrow> pok_port_queuing_clear pid s = Some (r, s') \<Longrightarrow> normal_life s'"
| error_get: "normal_life s \<Longrightarrow> running s cur \<Longrightarrow> mode s = POK_PARTITION_MODE_NORMAL \<Longrightarrow> pok_error_get ok msg s = Some (e, s') \<Longrightarrow> normal_life s'"
| raise_error: "normal_life s \<Longrightarrow> pok_error_raise_application_error msg n s = Some (Return r s') \<Longrightarrow> normal_life s'"
| error_found: "normal_life s \<Longrightarrow> pok_partition_arinc_process_error st e a s = Some (Return x s') \<Longrightarrow> normal_life s'"
| enter: "normal_life s \<Longrightarrow> running s cur \<Longrightarrow> jet_msection_enter_helper section s = Some (r, s') \<Longrightarrow> normal_life s'"
| wait: "normal_life s \<Longrightarrow> running s cur \<Longrightarrow> jet_msection_wait section timeout s = Some (r, s') \<Longrightarrow> normal_life s'"
| notify: "normal_life s \<Longrightarrow> mode s = POK_PARTITION_MODE_NORMAL \<Longrightarrow> section_queue s section wq xs
     \<Longrightarrow> jet_msection_wq_notify section wq is_all s = Some (r, s') \<Longrightarrow> normal_life s'"
| resched: "normal_life s \<Longrightarrow> donators_ok s \<Longrightarrow> jet_resched s = Some (r, s') \<Longrightarrow> normal_life s'"
| lock: "normal_life s \<Longrightarrow> lock_level s \<le> MAX_LOCK_LEVEL \<Longrightarrow> thread_current s = Some t \<Longrightarrow> thread_selected s = Some t
     \<Longrightarrow> lock_level s \<noteq> 0 \<longrightarrow> thread_locked s = Some t \<Longrightarrow> pok_current_partition_inc_lock_level ok s = Some (r, s') \<Longrightarrow> normal_life s'"
| unlock: "normal_life s \<Longrightarrow> lock_level s \<le> MAX_LOCK_LEVEL \<Longrightarrow> thread_current s = Some t \<Longrightarrow> thread_selected s = Some t
     \<Longrightarrow> lock_level s \<noteq> 0 \<longrightarrow> thread_locked s = Some t \<Longrightarrow> pok_current_partition_dec_lock_level ok s = Some (r, s') \<Longrightarrow> normal_life s'"
| leave: "normal_life s \<Longrightarrow> pok_preemption_local_enable s = Some (Return () s') \<Longrightarrow> normal_life s'"
| interrupt: "normal_life s \<Longrightarrow> pok_sched_arinc_on_event s = Some (Return w s') \<Longrightarrow> normal_life s'"
| outside: "normal_life s \<Longrightarrow> normal_life (s\<lparr>parts := ps, channels_queuing := cq, channels_sampling := cs, gsched := g, clock := c,
     umem := m, tshd := d, msections := ms, msection_wqs := wq\<rparr>)"

lemma wq_notify_good:
  assumes "call_good s" "mode s = POK_PARTITION_MODE_NORMAL" "section_queue s section wq xs"
    "jet_msection_wq_notify section wq is_all s = Some (r, s')"
  shows "call_good s'"
proof -
  obtain cur where "user_access s section 2" "user_access s wq 2" "thread_current s = Some cur" "owner (msections s section) = Some cur"
    "\<not> preempt_local_disabled (base_part s)"
    using assms(4) by (auto simp: jet_msection_wq_notify_def kassert_def pok_preemption_local_disable_def split: bind_splits if_splits)
  from wq_notify_spec [OF assms(3,1,2) this(5,1-4), of is_all] show ?thesis using assms(4) by auto
qed

lemma normal_life_good: "normal_life s \<Longrightarrow> call_good s"
proof (induction rule: normal_life.induct)
  case (switch s R s')
  from mode_normal_spec [OF switch(1-6)] switch(7) show ?case by (auto simp: call_good_def settled_def)
next
  case (on_thread s cur c s')
  show ?case by (rule thread_call_good [OF on_thread(4,2,3)])
next
  case (receive s cur pid timeout data ok out s')
  show ?case by (rule port_calls_good(1) [OF receive(4,2,3)])
next
  case (send s cur pid data len timeout r s')
  show ?case by (rule port_calls_good(2) [OF send(4,2,3)])
next
  case (status s pid ok q s')
  show ?case by (rule port_calls_good(3) [OF status(3,2)])
next
  case (clear s pid r s')
  show ?case by (rule port_calls_good(4) [OF clear(3,2)])
next
  case (error_get s cur ok msg e s')
  show ?case by (rule error_get_good [OF error_get(5,2-4)])
next
  case (raise_error s msg n r s')
  show ?case by (rule raise_error_good(1) [OF raise_error(3,2)])
next
  case (error_found s st e a x s')
  show ?case by (rule raise_error_good(2) [OF error_found(3,2)])
next
  case (enter s cur sn r s')
  show ?case by (rule section_calls_good(1) [OF enter(4,2,3)])
next
  case (wait s cur sn timeout r s')
  show ?case by (rule section_calls_good(2) [OF wait(4,2,3)])
next
  case (notify s sn wq xs is_all r s')
  show ?case by (rule wq_notify_good [OF notify(5,2-4)])
next
  case (resched s r s')
  show ?case by (rule resched_good [OF resched(4,2,3)])
next
  case (lock s t ok r s')
  show ?case by (rule lock_calls_good(1) [OF lock(7,2-6)])
next
  case (unlock s t ok r s')
  show ?case by (rule lock_calls_good(2) [OF unlock(7,2-6)])
next
  case (leave s s')
  from local_enable_good [OF leave(3,2)] show ?case by simp
next
  case (interrupt s w s')
  show ?case by (rule on_event_good [OF interrupt(3,2)])
next
  case outside
  then show ?case by (simp add: outside_good)
qed



end
