(* ===== verification/ErrorModule.thy ===== *)
theory ErrorModule
  imports ArincState
begin

section \<open>Errors of the module\<close>

text \<open>
  \<open>kernel/core/error.c\<close>: on which level an error is handled. The state is that of the file and of the
  configuration (\<open>deployment.c\<close> gives the tables), with the flag of the processor that allows
  preemption, and the state of the global scheduler and the partitions. The call of
  \<open>pok_sched\<close> inside \<open>pok_preemption_enable\<close>, which may let other partitions run, is left out here.
\<close>

datatype pok_error_module_action =
    POK_ERROR_MODULE_ACTION_IGNORE | POK_ERROR_MODULE_ACTION_SHUTDOWN | POK_ERROR_MODULE_ACTION_RESET
  | POK_ERROR_MODULE_ACTION_OTHER nat

type_synonym action_table = "pok_system_state \<Rightarrow> pok_error_id \<Rightarrow> pok_error_module_action"

record hm_module =
  kernel_state :: pok_system_state
  pok_hm_module_selector :: "pok_error_id \<Rightarrow> nat"
  pok_hm_module_table :: action_table
  multi_partition_hm_selector :: "nat \<Rightarrow> pok_error_id \<Rightarrow> nat"
  multi_partition_hm_table :: "nat \<Rightarrow> action_table"
  has_process_partition_error :: "nat \<Rightarrow> bool"
  preempt_enabled :: bool
  module_gs :: gsched
  module_parts :: partitions

abbreviation current_part :: "hm_module \<Rightarrow> nat" where
  "current_part m \<equiv> current_partition (module_gs m)"

text \<open>How a function of this file ends: it returns, the processor loops for ever, or the whole
  module has been started anew.\<close>

datatype 'a module_out = Returned 'a hm_module | Halted | Restarted run_context gstate

definition perform_module_action ::
  "nat set \<Rightarrow> pok_time \<Rightarrow> pok_error_module_action \<Rightarrow> hm_module \<Rightarrow> unit module_out option" where
  "perform_module_action all now action m =
     (if action = POK_ERROR_MODULE_ACTION_IGNORE then Some (Returned () m)
      else let m = m\<lparr>preempt_enabled := False\<rparr> in
        case action of
          POK_ERROR_MODULE_ACTION_RESET \<Rightarrow> do {
            (ctx, g) \<leftarrow> pok_sched_restart all now (module_gs m, module_parts m);
            Some (Restarted ctx g)
          }
        | POK_ERROR_MODULE_ACTION_SHUTDOWN \<Rightarrow> Some Halted
        | _ \<Rightarrow> Some Halted)"

definition get_current_state :: "bool \<Rightarrow> hm_module \<Rightarrow> pok_system_state" where
  "get_current_state user_space m =
     (if kernel_state m \<noteq> POK_SYSTEM_STATE_OS_PART then kernel_state m
      else if \<not> user_space then POK_SYSTEM_STATE_OS_PART
      else if is_error_handler (module_parts m (current_part m)) then POK_SYSTEM_STATE_ERROR_HANDLER
      else POK_SYSTEM_STATE_USER)"

definition process_error_module ::
  "nat set \<Rightarrow> pok_time \<Rightarrow> pok_system_state \<Rightarrow> pok_error_id \<Rightarrow> hm_module \<Rightarrow> bool module_out option" where
  "process_error_module all now system_state error_id m =
     (if pok_error_level_select (pok_hm_module_selector m) system_state error_id
         \<and> pok_error_level_select (multi_partition_hm_selector m (current_part m)) system_state error_id
      then Some (Returned False m)
      else let action = (if pok_error_level_select (pok_hm_module_selector m) system_state error_id
                         then multi_partition_hm_table m (current_part m) system_state error_id
                         else pok_hm_module_table m system_state error_id)
        in map_option (\<lambda>r. case r of Returned _ m \<Rightarrow> Returned True m | Halted \<Rightarrow> Halted | Restarted c g \<Rightarrow> Restarted c g)
             (perform_module_action all now action m))"

text \<open>The call of \<open>process_partition_error\<close> that ends \<open>pok_raise_error\<close>, if there is one.\<close>

record partition_error_call =
  call_system_state :: pok_system_state
  call_error_id :: pok_error_id
  call_preempt_local :: bool
  call_failed_address :: nat

definition pok_raise_error ::
  "nat set \<Rightarrow> pok_time \<Rightarrow> pok_error_id \<Rightarrow> bool \<Rightarrow> nat \<Rightarrow> hm_module \<Rightarrow> partition_error_call option module_out option" where
  "pok_raise_error all now error_id user_space failed_address m =
     (let preempt_local_disabled_old = (\<not> preempt_enabled m);
          m = (if \<not> preempt_local_disabled_old then m\<lparr>preempt_enabled := False\<rparr> else m);
          system_state = get_current_state user_space m
      in do {
        r \<leftarrow> process_error_module all now system_state error_id m;
        (case r of
           Halted \<Rightarrow> Some Halted
         | Restarted ctx g \<Rightarrow> Some (Restarted ctx g)
         | Returned processed m \<Rightarrow>
             let part = current_part m;
                 need_call = (\<not> processed \<and> has_process_partition_error m part);
                 preempt_local_disabled_old =
                   (if need_call then preempt_local_disabled (module_parts m part) else preempt_local_disabled_old);
                 m = (if need_call
                      then m\<lparr>module_parts := (module_parts m)(part := (module_parts m part)\<lparr>preempt_local_disabled := False\<rparr>)\<rparr>
                      else m);
                 m = (if \<not> preempt_local_disabled_old then m\<lparr>preempt_enabled := True\<rparr> else m)
             in Some (Returned
                  (if need_call then Some \<lparr>call_system_state = system_state, call_error_id = error_id,
                     call_preempt_local = preempt_local_disabled_old, call_failed_address = failed_address\<rparr> else None) m))
      })"

definition pok_raise_error_by_partition ::
  "nat set \<Rightarrow> pok_time \<Rightarrow> pok_system_state \<Rightarrow> pok_error_id \<Rightarrow> hm_module \<Rightarrow> bool module_out option" where
  "pok_raise_error_by_partition all now system_state error_id m = do {
     kassert (system_state_number system_state \<ge> system_state_number POK_SYSTEM_STATE_OS_PART);
     process_error_module all now system_state error_id m
   }"

text \<open>The default tables. The initializer of the table gives the first action of each row only;
  the others are zero.\<close>

definition pok_hm_multi_partition_selector_default :: "pok_error_id \<Rightarrow> nat" where
  "pok_hm_multi_partition_selector_default error_id = 127"

definition pok_hm_multi_partition_table_default :: action_table where
  "pok_hm_multi_partition_table_default system_state error_id =
     (if error_id = POK_ERROR_ID_MODPOSTPROCEVENT_ELIST then POK_ERROR_MODULE_ACTION_SHUTDOWN
      else POK_ERROR_MODULE_ACTION_IGNORE)"

subsection \<open>Properties\<close>

definition error_level :: "pok_system_state \<Rightarrow> pok_error_id \<Rightarrow> hm_module \<Rightarrow> pok_error_module_action option" where
  "error_level st e m =
     (if \<not> bit (pok_hm_module_selector m e) (system_state_number st) then Some (pok_hm_module_table m st e)
      else if \<not> bit (multi_partition_hm_selector m (current_part m) e) (system_state_number st)
      then Some (multi_partition_hm_table m (current_part m) st e)
      else None)"

lemma process_error_module_eq:
  "process_error_module all now st e m =
     (case error_level st e m of
        None \<Rightarrow> Some (Returned False m)
      | Some POK_ERROR_MODULE_ACTION_IGNORE \<Rightarrow> Some (Returned True m)
      | Some POK_ERROR_MODULE_ACTION_RESET \<Rightarrow>
          map_option (\<lambda>(c, g). Restarted c g) (pok_sched_restart all now (module_gs m, module_parts m))
      | Some _ \<Rightarrow> Some Halted)"
proof (cases "error_level st e m")
  case None
  then show ?thesis by (simp add: process_error_module_def error_level_def pok_error_level_select_def split: if_splits)
next
  case (Some a)
  then have eq: "process_error_module all now st e m
     = map_option (\<lambda>r. case r of Returned _ m \<Rightarrow> Returned True m | Halted \<Rightarrow> Halted | Restarted c g \<Rightarrow> Restarted c g)
         (perform_module_action all now a m)"
    by (simp add: process_error_module_def error_level_def pok_error_level_select_def split: if_splits)
  show ?thesis
  proof (cases a)
    case POK_ERROR_MODULE_ACTION_RESET
    then show ?thesis unfolding eq Some
      by (cases "pok_sched_restart all now (module_gs m, module_parts m)")
        (auto simp: perform_module_action_def split: prod.splits)
  qed (simp_all add: eq Some perform_module_action_def)
qed

lemma preempt_frame [simp]:
  "error_level st e (m\<lparr>preempt_enabled := b\<rparr>) = error_level st e m"
  "get_current_state u (m\<lparr>preempt_enabled := b\<rparr>) = get_current_state u m"
  by (simp_all add: error_level_def get_current_state_def)

text \<open>A module that leaves all errors to the partitions, with an error in its second partition while
  preemption was disabled by the kernel.\<close>

definition example_module :: hm_module where
  "example_module = \<lparr>kernel_state = POK_SYSTEM_STATE_OS_PART, pok_hm_module_selector = (\<lambda>_. 127),
     pok_hm_module_table = (\<lambda>_ _. POK_ERROR_MODULE_ACTION_SHUTDOWN),
     multi_partition_hm_selector = (\<lambda>_. pok_hm_multi_partition_selector_default),
     multi_partition_hm_table = (\<lambda>_. pok_hm_multi_partition_table_default),
     has_process_partition_error = (\<lambda>_. True), preempt_enabled = False,
     module_gs = example_sched, module_parts = example_parts\<rparr>"

lemma example_module_facts:
  "error_level POK_SYSTEM_STATE_USER e example_module = None"
  "get_current_state True example_module = POK_SYSTEM_STATE_USER"
  "\<not> preempt_local_disabled (module_parts example_module (current_part example_module))"
proof -
  have "bit (127 :: nat) 6" by (simp add: bit_iff_odd)
  then show "error_level POK_SYSTEM_STATE_USER e example_module = None"
    by (simp add: error_level_def example_module_def pok_hm_multi_partition_selector_default_def)
qed (simp_all add: get_current_state_def example_module_def example_parts_def example_partition_def example_sched_def)

text \<open>
  C20: who handles an error. The system state is that of the kernel until the partitions run;
  then it is the partition's kernel part, its error handler or its threads. The module's selector
  and then the selector of the running partition choose the level: on the first two the action of
  the table is taken, and only the action to ignore returns; otherwise the partition is called,
  with the system state, the error, the flag of its local preemption as it was and the address that failed;
  nothing of the module is changed before the call but this flag, which is cleared, and the flag of
  preemption. A partition without a handler is not called and nothing changes.
\<close>

theorem raise_error_levels:
  shows "case error_level (get_current_state user_space m) e m of
      Some POK_ERROR_MODULE_ACTION_IGNORE \<Rightarrow> pok_raise_error all now e user_space failed_address m = Some (Returned None m)
    | Some POK_ERROR_MODULE_ACTION_RESET \<Rightarrow> pok_raise_error all now e user_space failed_address m =
        map_option (\<lambda>(c, g). Restarted c g) (pok_sched_restart all now (module_gs m, module_parts m))
    | Some _ \<Rightarrow> pok_raise_error all now e user_space failed_address m = Some Halted
    | None \<Rightarrow>
        (let part = current_part m; local = preempt_local_disabled (module_parts m part)
         in if has_process_partition_error m part
            then pok_raise_error all now e user_space failed_address m = Some (Returned
              (Some \<lparr>call_system_state = get_current_state user_space m, call_error_id = e, call_preempt_local = local,
                 call_failed_address = failed_address\<rparr>)
              (m\<lparr>preempt_enabled := \<not> local,
                 module_parts := (module_parts m)(part := (module_parts m part)\<lparr>preempt_local_disabled := False\<rparr>)\<rparr>))
            else pok_raise_error all now e user_space failed_address m = Some (Returned None m))"
proof (cases "error_level (get_current_state user_space m) e m")
  case None
  have "m\<lparr>preempt_enabled := preempt_enabled m\<rparr> = m" by simp
  then show ?thesis using None
    by (cases "preempt_enabled m") (simp_all add: pok_raise_error_def process_error_module_eq Let_def)
next
  case (Some a)
  have same: "preempt_enabled m \<Longrightarrow> m\<lparr>preempt_enabled := True\<rparr> = m" by simp
  from Some show ?thesis
    by (cases "preempt_enabled m"; cases a; cases "pok_sched_restart all now (module_gs m, module_parts m)")
      (auto simp: pok_raise_error_def process_error_module_eq Let_def same)
qed

theorem raise_error_levels_witness:
  "\<exists>c m'. pok_raise_error {} 0 POK_ERROR_ID_NUMERIC_ERROR True 4096 example_module = Some (Returned (Some c) m')
     \<and> call_system_state c = POK_SYSTEM_STATE_USER \<and> call_error_id c = POK_ERROR_ID_NUMERIC_ERROR \<and> call_failed_address c = 4096"
proof -
  have "has_process_partition_error example_module = (\<lambda>_. True)" by (simp add: example_module_def)
  then show ?thesis
    using raise_error_levels [where user_space = True and m = example_module and e = POK_ERROR_ID_NUMERIC_ERROR
        and all = "{}" and now = 0 and failed_address = 4096]
    by (simp add: example_module_facts Let_def)
qed

text \<open>
  What becomes of preemption. For an error handled by the module it is as before; but when the
  partition is called, it is enabled exactly if the partition had not disabled its own, local
  preemption, whatever it was before: an error inside a section without preemption ends the
  section early, and one in a local section leaves preemption disabled for the partition's handling.
\<close>

theorem raise_error_preemption:
  assumes "pok_raise_error all now e user_space failed_address m = Some (Returned c m')"
  shows "preempt_enabled m' = (case c of None \<Rightarrow> preempt_enabled m | Some x \<Rightarrow> \<not> call_preempt_local x)"
proof (cases "error_level (get_current_state user_space m) e m")
  case None
  then show ?thesis using assms
    by (cases "preempt_enabled m") (auto simp: pok_raise_error_def process_error_module_eq Let_def split: if_splits)
next
  case (Some a)
  then show ?thesis using assms
    by (cases "preempt_enabled m"; cases a; cases "pok_sched_restart all now (module_gs m, module_parts m)")
      (auto simp: pok_raise_error_def process_error_module_eq Let_def)
qed

theorem raise_error_preemption_witness:
  "\<exists>c m'. pok_raise_error {} 0 POK_ERROR_ID_NUMERIC_ERROR True 4096 example_module = Some (Returned (Some c) m')
     \<and> \<not> preempt_enabled example_module \<and> preempt_enabled m'"
proof -
  have ex: "has_process_partition_error example_module = (\<lambda>_. True)" "\<not> preempt_enabled example_module"
    by (simp_all add: example_module_def)
  obtain c m' where r: "pok_raise_error {} 0 POK_ERROR_ID_NUMERIC_ERROR True 4096 example_module = Some (Returned (Some c) m')"
    "\<not> call_preempt_local c"
    by (simp add: pok_raise_error_def process_error_module_eq example_module_facts ex Let_def)
  from raise_error_preemption [OF r(1)] r ex show ?thesis by auto
qed

end
