(* ===== verification/ArincTypes.thy ===== *)
theory ArincTypes
  imports ThreadMsection
begin

section \<open>The state of the ARINC library\<close>

text \<open>
  The part of \<open>libpok\<close> that runs in the partition itself: types of \<open>arinc653/*.h\<close> and the variables
  of \<open>semaphore.c\<close>, \<open>event.c\<close>, \<open>buffer.c\<close>, \<open>blackboard.c\<close> and \<open>arinc_alloc.c\<close>, on top of the state
  \<open>kern\<close> of the kernel, which holds what both share: the data of the threads, sections, wait queues
  and user memory. The section and the wait queue inside an object are given by their addresses.
  Integers of the interface are signed; the values that pass the checks are stored as naturals.
\<close>

datatype RETURN_CODE_TYPE =
  NO_ERROR | NO_ACTION | NOT_AVAILABLE | INVALID_PARAM | INVALID_CONFIG | INVALID_MODE | TIMED_OUT

datatype EVENT_STATE_TYPE = UP | DOWN

definition SYSTEM_LIMIT_NUMBER_OF_MESSAGES :: nat where "SYSTEM_LIMIT_NUMBER_OF_MESSAGES = 512"
definition SYSTEM_LIMIT_MESSAGE_SIZE :: nat where "SYSTEM_LIMIT_MESSAGE_SIZE = 8192"
definition MAX_SEMAPHORE_VALUE :: int where "MAX_SEMAPHORE_VALUE = 32767"

text \<open>The values of \<open>QUEUING_DISCIPLINE_TYPE\<close> at the interface.\<close>

definition to_discipline :: "int \<Rightarrow> pok_queuing_discipline option" where
  "to_discipline d = (if d = 0 then Some POK_QUEUING_DISCIPLINE_FIFO
     else if d = 1 then Some POK_QUEUING_DISCIPLINE_PRIORITY else None)"

record arinc_semaphore =
  semaphore_name :: chars
  current_value :: int
  maximum_value :: int
  sem_discipline :: pok_queuing_discipline
  sem_section :: nat
  sem_queue :: nat

record arinc_event =
  event_name :: chars
  event_state :: EVENT_STATE_TYPE
  ev_section :: nat
  ev_queue :: nat

record arinc_buffer =
  buffer_name :: chars
  buf_max_message_size :: nat
  buf_max_nb_message :: nat
  nb_message :: nat
  message_stride :: nat
  messages :: nat
  messages_size :: "nat \<Rightarrow> nat"
  base_offset :: nat
  buf_discipline :: pok_queuing_discipline
  buf_section :: nat
  buf_queue :: nat

record arinc_blackboard =
  blackboard_name :: chars
  bb_max_message_size :: nat
  message :: nat
  message_size :: nat
  bb_section :: nat
  bb_queue :: nat

record libjet =
  kern :: arinc
  arinc_semaphores :: "nat \<Rightarrow> arinc_semaphore"
  nsemaphores_used :: nat
  arinc_config_nsemaphores :: nat
  arinc_events :: "nat \<Rightarrow> arinc_event"
  nevents_used :: nat
  arinc_config_nevents :: nat
  arinc_buffers :: "nat \<Rightarrow> arinc_buffer"
  nbuffers_used :: nat
  arinc_config_nbuffers :: nat
  arinc_blackboards :: "nat \<Rightarrow> arinc_blackboard"
  nblackboards_used :: nat
  arinc_config_nblackboards :: nat
  arinc_intra_heap :: nat
  arinc_intra_heap_size_current :: nat
  arinc_config_messages_memory_size :: nat

definition upd_kern :: "(arinc \<Rightarrow> arinc) \<Rightarrow> libjet \<Rightarrow> libjet" where
  "upd_kern f u = u\<lparr>kern := f (kern u)\<rparr>"

subsection \<open>System calls\<close>

text \<open>
  A system call that comes to \<open>pok_preemption_local_enable()\<close> may be followed by steps of other
  threads before the caller returns to its code. The parameter \<open>resume\<close> stands for them: it takes
  the state at the end of the call to the one in which the caller runs again.
\<close>

type_synonym resume = "libjet \<Rightarrow> libjet option"

definition sys_return :: "resume \<Rightarrow> (arinc \<Rightarrow> (sysret \<times> arinc) option) \<Rightarrow> libjet \<Rightarrow> (pok_ret \<times> libjet) option" where
  "sys_return resume call u = do {
     (r, k) \<leftarrow> call (kern u);
     let u = u\<lparr>kern := k\<rparr>;
     (case r of
        Ret e \<Rightarrow> Some (e, u)
      | Leave e \<Rightarrow> do { u \<leftarrow> resume u; Some (e, u) }
      | LeaveWait t \<Rightarrow> do { u \<leftarrow> resume u; Some (wait_result (threads (kern u) t), u) })
   }"

subsection \<open>Names\<close>

text \<open>\<open>strncasecmp\<close> of \<open>libpok/libc/string\<close>, with \<open>tolower\<close> as \<open>ctype_c.yaml\<close> defines it.\<close>

definition tolower :: "int \<Rightarrow> int" where
  "tolower c = (if 65 \<le> c \<and> c \<le> 90 then c - 65 + 97 else c)"

fun strncasecmp_lib_from :: "chars \<Rightarrow> chars \<Rightarrow> nat \<Rightarrow> nat \<Rightarrow> int" where
  "strncasecmp_lib_from s1 s2 i 0 = 0"
| "strncasecmp_lib_from s1 s2 i (Suc n) =
     (if s1 i = 0 \<and> s2 i = 0 then 0
      else if tolower (s1 i) - tolower (s2 i) \<noteq> 0 then tolower (s1 i) - tolower (s2 i)
      else strncasecmp_lib_from s1 s2 (i + 1) n)"

definition strncasecmp_lib :: "chars \<Rightarrow> chars \<Rightarrow> nat \<Rightarrow> int" where
  "strncasecmp_lib s1 s2 n = strncasecmp_lib_from s1 s2 0 n"

text \<open>The name that \<open>memcpy\<close> leaves in a field.\<close>

definition copy_name :: "chars \<Rightarrow> chars \<Rightarrow> chars" where
  "copy_name name old = (\<lambda>i. if i < MAX_NAME_LENGTH then name i else old i)"

text \<open>The first of \<open>n\<close> objects with the name.\<close>

definition find_name :: "(nat \<Rightarrow> chars) \<Rightarrow> nat \<Rightarrow> chars \<Rightarrow> nat option" where
  "find_name names n name = find (\<lambda>i. strncasecmp_lib (names i) name MAX_NAME_LENGTH = 0) [0..<n]"

lemma strncasecmp_lib_same: "(\<And>i. i < n \<Longrightarrow> s1 i = s2 i) \<Longrightarrow> strncasecmp_lib s1 s2 n = 0"
proof -
  have "(\<And>j. i \<le> j \<Longrightarrow> j < i + n \<Longrightarrow> s1 j = s2 j) \<Longrightarrow> strncasecmp_lib_from s1 s2 i n = 0" for i
    by (induction n arbitrary: i) auto
  then show "(\<And>i. i < n \<Longrightarrow> s1 i = s2 i) \<Longrightarrow> strncasecmp_lib s1 s2 n = 0" by (simp add: strncasecmp_lib_def)
qed

lemma find_append: "find P (xs @ ys) = (case find P xs of None \<Rightarrow> find P ys | Some x \<Rightarrow> Some x)"
  by (induction xs) auto

text \<open>An object that is created under a new name is found under it.\<close>

lemma find_name_created:
  assumes "find_name names n name = None" "\<And>i. i < n \<Longrightarrow> names' i = names i" "names' n = copy_name name old"
  shows "find_name names' (Suc n) name = Some n"
proof -
  have "find (\<lambda>i. strncasecmp_lib (names' i) name MAX_NAME_LENGTH = 0) [0..<n] = None"
    using assms(1,2) by (auto simp: find_name_def find_None_iff)
  moreover have "strncasecmp_lib (names' n) name MAX_NAME_LENGTH = 0"
    unfolding assms(3) by (rule strncasecmp_lib_same) (simp add: copy_name_def)
  ultimately show ?thesis by (simp add: find_name_def find_append)
qed

lemma find_name_cong: "(\<And>i. i < n \<Longrightarrow> names' i = names i) \<Longrightarrow> find_name names' n name = find_name names n name"
  unfolding find_name_def by (rule find_cong) auto

end
