(* ===== verification/Msection.thy ===== *)
theory Msection
  imports ArincTypes
begin

section \<open>Critical sections in user space\<close>

text \<open>
  \<open>libpok/core/msection.c\<close> and \<open>libpok/arinc653/arinc_process_queue.c\<close>: entering and leaving a section
  without a system call unless another thread is concerned, and the wait queues, which the library
  links itself. Every thread finds its own number in \<open>kshd.current_thread_id\<close>.
\<close>

definition msection_init :: "nat \<Rightarrow> libjet \<Rightarrow> libjet" where
  "msection_init section = upd_kern (upd_msection section (\<lambda>m. m\<lparr>owner := None, msection_kernel_flags := 0\<rparr>))"

definition msection_enter :: "resume \<Rightarrow> nat \<Rightarrow> libjet \<Rightarrow> libjet option" where
  "msection_enter resume section u = do {
     cur \<leftarrow> kshd_current_thread_id (kern u);
     let u = upd_kern (upd_tshd cur (\<lambda>d. d\<lparr>msection_count := u16 (msection_count d + 1),
        tshd_msection_entering := Some section\<rparr>)) u;
     u \<leftarrow> (case owner (msections (kern u) section) of
        None \<Rightarrow> Some (upd_kern (upd_msection section (\<lambda>m. m\<lparr>owner := Some cur\<rparr>)) u)
      | Some t \<Rightarrow> if t \<noteq> cur
                 then map_option snd (sys_return resume (jet_msection_enter_helper section) u)
                 else Some u);
     Some (upd_kern (upd_tshd cur (\<lambda>d. d\<lparr>tshd_msection_entering := None\<rparr>)) u)
   }"

definition msection_leave :: "resume \<Rightarrow> nat \<Rightarrow> libjet \<Rightarrow> libjet option" where
  "msection_leave resume section u = do {
     cur \<leftarrow> kshd_current_thread_id (kern u);
     let u = upd_kern (upd_msection section (\<lambda>m. m\<lparr>owner := None\<rparr>)) u;
     let u = upd_kern (upd_tshd cur (\<lambda>d. d\<lparr>msection_count := u16 (msection_count d + 65535)\<rparr>)) u;
     let d = tshd (kern u) cur;
     if msection_count d = 0 \<and> thread_kernel_flags d AND THREAD_KERNEL_FLAG_KILLED \<noteq> 0
     then map_option snd (sys_return resume jet_resched u)
     else if msection_kernel_flags (msections (kern u) section) AND MSECTION_KERNEL_FLAG_RESCHED_AFTER_LEAVE \<noteq> 0
     then map_option snd (sys_return resume jet_resched u)
     else Some u
   }"

definition msection_wait :: "resume \<Rightarrow> nat \<Rightarrow> pok_time \<Rightarrow> libjet \<Rightarrow> (pok_ret \<times> libjet) option" where
  "msection_wait resume section timeout = sys_return resume (jet_msection_wait section (Some timeout))"

definition msection_notify :: "resume \<Rightarrow> nat \<Rightarrow> nat \<Rightarrow> libjet \<Rightarrow> (pok_ret \<times> libjet) option" where
  "msection_notify resume section thread_id = sys_return resume (jet_msection_notify section thread_id)"

definition msection_wq_notify :: "resume \<Rightarrow> nat \<Rightarrow> nat \<Rightarrow> bool \<Rightarrow> libjet \<Rightarrow> (pok_ret \<times> libjet) option" where
  "msection_wq_notify resume section wq is_all = sys_return resume (jet_msection_wq_notify section wq is_all)"

text \<open>The size is written by the kernel just before the call returns.\<close>

definition msection_wq_size :: "resume \<Rightarrow> nat \<Rightarrow> nat \<Rightarrow> libjet \<Rightarrow> (nat \<times> libjet) option" where
  "msection_wq_size resume section wq u = do {
     ((r, size), k) \<leftarrow> jet_msection_wq_size section wq True (kern u);
     (e, u) \<leftarrow> sys_return resume (\<lambda>_. Some (r, k)) u;
     Some (size, u)
   }"

subsection \<open>Wait queues\<close>

definition msection_wq_init :: "nat \<Rightarrow> libjet \<Rightarrow> libjet" where
  "msection_wq_init wq = upd_kern (upd_wq wq (\<lambda>w. w\<lparr>wq_first := None, wq_last := None\<rparr>))"

definition set_wq_next :: "nat \<Rightarrow> nat option \<Rightarrow> nat option \<Rightarrow> arinc \<Rightarrow> arinc" where
  "set_wq_next wq prev t k = (case prev of None \<Rightarrow> upd_wq wq (\<lambda>w. w\<lparr>wq_first := t\<rparr>) k
     | Some p \<Rightarrow> upd_tshd p (\<lambda>d. d\<lparr>wq_next := t\<rparr>) k)"

definition set_wq_prev :: "nat \<Rightarrow> nat option \<Rightarrow> nat option \<Rightarrow> arinc \<Rightarrow> arinc" where
  "set_wq_prev wq next t k = (case next of None \<Rightarrow> upd_wq wq (\<lambda>w. w\<lparr>wq_last := t\<rparr>) k
     | Some n \<Rightarrow> upd_tshd n (\<lambda>d. d\<lparr>wq_prev := t\<rparr>) k)"

definition wq_link :: "nat \<Rightarrow> nat option \<Rightarrow> nat option \<Rightarrow> nat \<Rightarrow> arinc \<Rightarrow> arinc" where
  "wq_link wq prev next cur k =
     (let k = upd_tshd cur (\<lambda>d. d\<lparr>wq_next := next, wq_prev := prev\<rparr>) k;
          k = set_wq_next wq prev (Some cur) k
      in set_wq_prev wq next (Some cur) k)"

definition msection_wq_add :: "nat \<Rightarrow> nat option \<Rightarrow> nat \<Rightarrow> arinc \<Rightarrow> arinc" where
  "msection_wq_add wq next cur k =
     (let prev = (case next of None \<Rightarrow> wq_last (msection_wqs k wq) | Some n \<Rightarrow> wq_prev (tshd k n))
      in wq_link wq prev next cur k)"

definition msection_wq_add_after :: "nat \<Rightarrow> nat option \<Rightarrow> nat \<Rightarrow> arinc \<Rightarrow> arinc" where
  "msection_wq_add_after wq prev cur k =
     (let next = (case prev of None \<Rightarrow> wq_first (msection_wqs k wq) | Some p \<Rightarrow> wq_next (tshd k p))
      in wq_link wq prev next cur k)"

definition msection_wq_del :: "nat \<Rightarrow> nat \<Rightarrow> arinc \<Rightarrow> arinc" where
  "msection_wq_del wq t k =
     (let next = wq_next (tshd k t);
          prev = wq_prev (tshd k t);
          k = set_wq_prev wq next prev k;
          k = set_wq_next wq prev next k
      in upd_tshd t (\<lambda>d. d\<lparr>wq_next := None, wq_prev := None\<rparr>) k)"

text \<open>The loop of \<open>arinc_process_queue_add_common\<close> backwards through the queue.\<close>

partial_function (option) find_prev :: "arinc \<Rightarrow> nat \<Rightarrow> nat option \<Rightarrow> nat option option" where
  "find_prev k prio prev =
     (case prev of
        None \<Rightarrow> Some None
      | Some p \<Rightarrow> if wq_priority (tshd k p) \<ge> prio then Some (Some p)
                 else find_prev k prio (wq_prev (tshd k p)))"

definition arinc_process_queue_add_common :: "nat \<Rightarrow> pok_queuing_discipline \<Rightarrow> arinc \<Rightarrow> arinc option" where
  "arinc_process_queue_add_common wq disc k = do {
     cur \<leftarrow> kshd_current_thread_id k;
     if disc = POK_QUEUING_DISCIPLINE_PRIORITY then do {
       let prio = tshd_priority (tshd k cur);
       prev \<leftarrow> find_prev k prio (wq_last (msection_wqs k wq));
       let k = msection_wq_add_after wq prev cur k;
       Some (upd_tshd cur (\<lambda>d. d\<lparr>wq_priority := prio\<rparr>) k)
     } else Some (msection_wq_add wq None cur k)
   }"

text \<open>What a thread does that comes back from waiting: unless it has been notified it takes itself
  out of the queue. The same lines stand in \<open>semaphore.c\<close>, \<open>event.c\<close>, \<open>buffer.c\<close> and
  \<open>blackboard.c\<close>.\<close>

definition waited :: "nat \<Rightarrow> nat \<Rightarrow> pok_ret \<Rightarrow> libjet \<Rightarrow> (RETURN_CODE_TYPE \<times> libjet) option" where
  "waited wq t r u =
     (case r of
        POK_ERRNO_OK \<Rightarrow> Some (NO_ERROR, u)
      | POK_ERRNO_MODE \<Rightarrow> Some (INVALID_MODE, upd_kern (msection_wq_del wq t) u)
      | POK_ERRNO_CANCELLED \<Rightarrow> Some (INVALID_MODE, upd_kern (msection_wq_del wq t) u)
      | POK_ERRNO_TIMEOUT \<Rightarrow> Some (TIMED_OUT, upd_kern (msection_wq_del wq t) u)
      | _ \<Rightarrow> None)"

text \<open>An operation inside the section of an object.\<close>

definition in_its_section ::
  "resume \<Rightarrow> nat \<Rightarrow> (libjet \<Rightarrow> ('a \<times> libjet) option) \<Rightarrow> libjet \<Rightarrow> ('a \<times> libjet) option" where
  "in_its_section resume section body u = do {
     u \<leftarrow> msection_enter resume section u;
     (x, u) \<leftarrow> body u;
     u \<leftarrow> msection_leave resume section u;
     Some (x, u)
   }"

subsection \<open>The queue as a list\<close>

lemma msection_wq_del_eq: "msection_wq_del wq t k = wq_unlink wq t k"
  by (simp add: msection_wq_del_def wq_unlink_def set_wq_prev_def set_wq_next_def Let_def)

lemma wq_link_ends:
  "wq_first (msection_wqs (wq_link wq p n t k) wq) = (if p = None then Some t else wq_first (msection_wqs k wq))"
  "wq_last (msection_wqs (wq_link wq p n t k) wq) = (if n = None then Some t else wq_last (msection_wqs k wq))"
  by (simp_all add: wq_link_def set_wq_next_def set_wq_prev_def Let_def upd_tshd_def upd_wq_def split: option.split)

lemma wq_list_link:
  assumes "wq_list k wq (xs @ ys)" "t \<notin> set (xs @ ys)"
  shows "wq_list (wq_link wq (last_of None xs) (first_of ys None) t k) wq (xs @ t # ys)"
proof -
  let ?k = "wq_link wq (last_of None xs) (first_of ys None) t k" and ?p = "last_of None xs" and ?n = "first_of ys None"
  have d: "distinct xs" "distinct ys" "set xs \<inter> set ys = {}" "t \<notin> set xs" "t \<notin> set ys"
    and sx: "wq_seg (tshd k) None xs ?n" and sy: "wq_seg (tshd k) ?p ys None"
    and w: "wq_first (msection_wqs k wq) = first_of xs ?n" "wq_last (msection_wqs k wq) = last_of ?p ys"
    using assms by (auto simp: wq_list_def wq_seg_append)
  define d0 where "d0 = (tshd k)(t := (tshd k t)\<lparr>wq_next := ?n, wq_prev := ?p\<rparr>)"
  define d1 where "d1 = (case ?p of None \<Rightarrow> d0 | Some p \<Rightarrow> d0(p := (d0 p)\<lparr>wq_next := Some t\<rparr>))"
  define d2 where "d2 = (case ?n of None \<Rightarrow> d1 | Some n \<Rightarrow> d1(n := (d1 n)\<lparr>wq_prev := Some t\<rparr>))"
  have f: "?n = Some n \<Longrightarrow> n \<in> set ys" and g: "?p = Some n \<Longrightarrow> n \<in> set xs" for n
    by (auto simp: first_of_def last_of_def split: list.splits if_splits)
  have "wq_seg d0 None xs ?n" "wq_seg d0 ?p ys None" using sx sy d(4,5) by (simp_all add: d0_def)
  moreover have "d1 x = d0 x" if "x \<in> set ys" for x using that g d(3) by (auto simp: d1_def split: option.split)
  ultimately have "wq_seg d1 None xs (Some t)" "wq_seg d1 ?p ys None"
    using wq_seg_cong [of ys d1 d0 ?p None] wq_seg_next [of d0 None xs ?n _ "Some t"] d(1)
    by (auto simp: d1_def last_of_def split: option.splits if_splits)
  moreover have "d2 x = d1 x" if "x \<in> set xs" for x using that f d(3) by (auto simp: d2_def split: option.split)
  ultimately have "wq_seg d2 None xs (Some t)" "wq_seg d2 (Some t) ys None"
    using wq_seg_cong [of xs d2 d1 None "Some t"] wq_seg_prev [of d1 ?p ys None _ "Some t"] d(2)
    by (auto simp: d2_def first_of_def split: option.splits list.splits)
  moreover have "wq_next (d2 t) = ?n" "wq_prev (d2 t) = ?p"
    using f g d(4,5) by (auto simp: d2_def d1_def d0_def split: option.split)
  moreover have "tshd ?k = d2"
    by (simp add: wq_link_def set_wq_next_def set_wq_prev_def Let_def upd_tshd_def upd_wq_def d0_def d1_def d2_def
        split: option.split)
  moreover have "wq_first (msection_wqs ?k wq) = first_of (xs @ [t]) None" "wq_last (msection_wqs ?k wq) = last_of (Some t) ys"
    using w by (cases xs; cases ys; simp add: wq_link_ends last_of_def)+
  ultimately show ?thesis using d by (auto simp: wq_list_def wq_seg_append)
qed

text \<open>What queueing leaves alone, besides the threads.\<close>

definition queue_frame :: "arinc \<Rightarrow> arinc \<Rightarrow> bool" where
  "queue_frame k k' \<longleftrightarrow> k = k'\<lparr>tshd := tshd k, msection_wqs := msection_wqs k\<rparr>
     \<and> (\<forall>t. msection_count (tshd k' t) = msection_count (tshd k t) \<and> wq_buffer (tshd k' t) = wq_buffer (tshd k t)
          \<and> wq_len (tshd k' t) = wq_len (tshd k t))"

lemma queue_frame_fields:
  assumes "queue_frame k k'"
  shows "mode k' = mode k" "parts k' = parts k" "gsched k' = gsched k" "user_access k' = user_access k"
    "thread_current k' = thread_current k" "msections k' = msections k" "nthreads_used k' = nthreads_used k"
    "thread_error k' = thread_error k" "lock_level k' = lock_level k" "clock k' = clock k" "clock_pos k' = clock_pos k"
    "msection_count (tshd k' t) = msection_count (tshd k t)" "ordinary k' t = ordinary k t" "threads k' = threads k"
    "umem k' = umem k" "wq_buffer (tshd k' t) = wq_buffer (tshd k t)" "wq_len (tshd k' t) = wq_len (tshd k t)"
proof -
  have eq: "k = k'\<lparr>tshd := tshd k, msection_wqs := msection_wqs k\<rparr>" using assms by (simp add: queue_frame_def)
  show "mode k' = mode k" "parts k' = parts k" "gsched k' = gsched k" "user_access k' = user_access k"
    "thread_current k' = thread_current k" "msections k' = msections k" "nthreads_used k' = nthreads_used k"
    "thread_error k' = thread_error k" "lock_level k' = lock_level k" "clock k' = clock k" "clock_pos k' = clock_pos k"
    "ordinary k' t = ordinary k t" "threads k' = threads k" "umem k' = umem k"
    by (subst eq, simp add: ordinary_def)+
  show "msection_count (tshd k' t) = msection_count (tshd k t)" "wq_buffer (tshd k' t) = wq_buffer (tshd k t)"
    "wq_len (tshd k' t) = wq_len (tshd k t)" using assms by (simp_all add: queue_frame_def)
qed

lemma wq_link_frame:
  "user_frame wq (insert t (set (xs @ ys))) k (wq_link wq (last_of None xs) (first_of ys None) t k)"
  "threads (wq_link wq prev next t k) = threads k" "call_good (wq_link wq prev next t k) = call_good k"
  "queue_frame k (wq_link wq prev next t k)"
proof -
  show "user_frame wq (insert t (set (xs @ ys))) k (wq_link wq (last_of None xs) (first_of ys None) t k)"
    by (cases ys; cases xs rule: rev_cases)
      (simp_all add: user_frame_def wq_link_def set_wq_next_def set_wq_prev_def Let_def upd_tshd_def upd_wq_def)
  let ?u = "wq_link wq prev next t k"
  note d = wq_link_def set_wq_next_def set_wq_prev_def Let_def upd_wq_def upd_tshd_def
  have same: "same_sched k ?u" by (simp add: d same_sched_def same_thread_def split: option.split)
  have "chosen ?u = chosen k" by (rule chosen_cong) (simp_all add: d split: option.split)
  moreover have "sched_local_recheck_needed ?u = sched_local_recheck_needed k" "thread_selected ?u = thread_selected k"
    by (simp_all add: d split: option.split)
  ultimately show "call_good ?u = call_good k" using thr_inv_same [OF same] by (simp add: call_good_def settled_def)
  show "threads ?u = threads k" by (simp add: d split: option.split)
  show "queue_frame k ?u" by (simp add: queue_frame_def d split: option.split)
qed

lemma queue_frame_priority: "queue_frame k k1 \<Longrightarrow> queue_frame k (upd_tshd t (\<lambda>d. d\<lparr>wq_priority := p\<rparr>) k1)"
proof -
  assume f: "queue_frame k k1"
  then have "k = k1\<lparr>tshd := tshd k, msection_wqs := msection_wqs k\<rparr>" by (simp add: queue_frame_def)
  also have "\<dots> = (upd_tshd t (\<lambda>d. d\<lparr>wq_priority := p\<rparr>) k1)\<lparr>tshd := tshd k, msection_wqs := msection_wqs k\<rparr>"
    by (simp add: upd_tshd_def)
  finally show ?thesis using f by (simp add: queue_frame_def) (simp add: upd_tshd_def)
qed

lemma wq_add_link:
  assumes "wq_list k wq (xs @ ys)"
  shows "msection_wq_add wq (first_of ys None) t k = wq_link wq (last_of None xs) (first_of ys None) t k"
    "msection_wq_add_after wq (last_of None xs) t k = wq_link wq (last_of None xs) (first_of ys None) t k"
  using assms by (cases ys; cases xs rule: rev_cases;
    auto simp: wq_list_def wq_seg_append msection_wq_add_def msection_wq_add_after_def first_of_def split: list.splits)+

text \<open>The wait queues of the library implement the contract of a linked queue.\<close>

interpretation wq: linked_queue wq_list "\<lambda>_ _. True" "\<lambda>wq t. msection_wq_add wq None t" msection_wq_del
proof unfold_locales
  show "distinct xs" if "wq_list k wq xs" for k wq xs using that by (simp add: wq_list_def)
  show "wq_list (msection_wq_add wq None t k) wq (xs @ [t])" if "wq_list k wq xs" "t \<notin> set xs" for k wq xs t
    using that wq_list_link [of k wq xs "[]" t] wq_add_link(1) [of k wq xs "[]" t] by simp
  show "wq_list (msection_wq_del wq t k) wq (xs @ ys)" if "wq_list k wq (xs @ t # ys)" for k wq xs ys t
    using wq_list_unlink [OF that] by (simp add: msection_wq_del_eq)
qed

lemma upd_tshd_good: "call_good (upd_tshd t h k) = call_good k"
proof -
  have "chosen (upd_tshd t h k) = chosen k" by (rule chosen_cong) simp_all
  then show ?thesis by (simp add: call_good_def settled_def)
qed

subsection \<open>The order of the queue\<close>

lemma find_prev_spec:
  "wq_seg (tshd k) None xs n \<Longrightarrow> prio_sorted f xs \<Longrightarrow> \<forall>x \<in> set xs. wq_priority (tshd k x) = f x \<Longrightarrow>
   find_prev k p (last_of None xs) = Some (last_of None (takeWhile (\<lambda>x. \<not> f x < p) xs))"
proof (induction xs arbitrary: n rule: rev_induct)
  case Nil
  then show ?case by (subst find_prev.simps) simp
next
  case (snoc x xs)
  have l: "wq_prev (tshd k x) = last_of None xs" "wq_seg (tshd k) None xs (Some x)" "wq_priority (tshd k x) = f x"
    "prio_sorted f xs" "\<forall>y \<in> set xs. f x \<le> f y"
    using snoc.prems by (auto simp: wq_seg_append prio_sorted_append)
  have s: "find_prev k p (last_of None (xs @ [x])) = (if f x \<ge> p then Some (Some x) else find_prev k p (last_of None xs))"
    using l by (subst find_prev.simps) simp
  show ?case
  proof (cases "f x \<ge> p")
    case True
    then have "takeWhile (\<lambda>x. \<not> f x < p) (xs @ [x]) = xs @ [x]" using l(5) by (auto simp: takeWhile_eq_all_conv)
    then show ?thesis using s True by simp
  next
    case False
    then have "takeWhile (\<lambda>x. \<not> f x < p) (xs @ [x]) = takeWhile (\<lambda>x. \<not> f x < p) xs"
      by (simp add: takeWhile_tail)
    then show ?thesis using s False snoc.IH [OF l(2,4)] snoc.prems(3) by simp
  qed
qed

text \<open>Where a thread is queued.\<close>

definition queue_place :: "pok_queuing_discipline \<Rightarrow> arinc \<Rightarrow> nat \<Rightarrow> nat list \<Rightarrow> nat list" where
  "queue_place disc k t xs = (if disc = POK_QUEUING_DISCIPLINE_PRIORITY
     then insert_before_first (\<lambda>x. wq_priority (tshd k x) < tshd_priority (tshd k t)) t xs else xs @ [t])"

lemma set_queue_place [simp]: "set (queue_place disc k t xs) = insert t (set xs)"
  by (auto simp: queue_place_def)

lemma process_queue_add_spec:
  assumes "wq_list k wq xs" "t \<notin> set xs" "kshd_current_thread_id k = Some t"
    and "disc = POK_QUEUING_DISCIPLINE_PRIORITY \<Longrightarrow> prio_sorted (\<lambda>x. wq_priority (tshd k x)) xs"
  shows "\<exists>k'. arinc_process_queue_add_common wq disc k = Some k' \<and> wq_list k' wq (queue_place disc k t xs)
     \<and> threads k' = threads k \<and> call_good k' = call_good k \<and> queue_frame k k'
     \<and> (disc = POK_QUEUING_DISCIPLINE_PRIORITY \<longrightarrow> prio_sorted (\<lambda>x. wq_priority (tshd k' x)) (queue_place disc k t xs))"
proof (cases "disc = POK_QUEUING_DISCIPLINE_PRIORITY")
  case False
  have "msection_wq_add wq None t k = wq_link wq (last_of None xs) None t k" using wq_add_link(1) [of k wq xs "[]"] assms(1) by simp
  then show ?thesis using False wq.holds_enq [OF assms(1,2) TrueI] assms(3) wq_link_frame(2-4)
    by (simp add: arinc_process_queue_add_common_def queue_place_def)
next
  case True
  let ?p = "tshd_priority (tshd k t)" and ?f = "\<lambda>x. wq_priority (tshd k x)"
  let ?as = "takeWhile (\<lambda>x. \<not> ?f x < ?p) xs" and ?bs = "dropWhile (\<lambda>x. \<not> ?f x < ?p) xs"
  have q: "wq_list k wq (?as @ ?bs)" "t \<notin> set (?as @ ?bs)" using assms(1,2) by simp_all
  have place: "queue_place disc k t xs = ?as @ t # ?bs" using True by (simp add: queue_place_def insert_before_first_split)
  have fp: "find_prev k ?p (wq_last (msection_wqs k wq)) = Some (last_of None ?as)"
    using find_prev_spec [of k xs None ?f ?p] assms(1) assms(4) [OF True] by (simp add: wq_list_def)
  define k1 where "k1 = wq_link wq (last_of None ?as) (first_of ?bs None) t k"
  define k2 where "k2 = upd_tshd t (\<lambda>d. d\<lparr>wq_priority := ?p\<rparr>) k1"
  have eq: "arinc_process_queue_add_common wq disc k = Some k2"
    using True assms(3) fp wq_add_link(2) [OF q(1), of t]
    by (simp add: arinc_process_queue_add_common_def k1_def k2_def Let_def)
  have "wq_list k1 wq (?as @ t # ?bs)" unfolding k1_def by (rule wq_list_link [OF q])
  moreover have "wq_seg (tshd k2) None ys None = wq_seg (tshd k1) None ys None" for ys
    by (rule wq_seg_cong) (simp add: k2_def upd_tshd_def)
  ultimately have l: "wq_list k2 wq (?as @ t # ?bs)" by (simp add: wq_list_def k2_def upd_tshd_def)
  have fr: "user_frame wq (insert t (set (?as @ ?bs))) k k1" unfolding k1_def by (rule wq_link_frame(1))
  have w: "wq_priority (tshd k1 x) = ?f x" for x
  proof -
    have "(tshd k1 x)\<lparr>wq_next := None, wq_prev := None\<rparr> = (tshd k x)\<lparr>wq_next := None, wq_prev := None\<rparr>"
      using fr by (simp add: user_frame_def)
    then show ?thesis by (metis jet_thread_shared_data.select_convs(9) jet_thread_shared_data.surjective
          jet_thread_shared_data.update_convs(5,6))
  qed
  have "prio_sorted (\<lambda>x. if x = t then ?p else ?f x) (insert_before_first (\<lambda>x. (if x = t then ?p else ?f x) < (if t = t then ?p else ?f t)) t xs)"
    by (rule prio_sorted_insert) (use assms(2) assms(4) [OF True] prio_sorted_cong [of xs ?f "\<lambda>x. if x = t then ?p else ?f x"] in auto)
  moreover have "insert_before_first (\<lambda>x. (if x = t then ?p else ?f x) < (if t = t then ?p else ?f t)) t xs = queue_place disc k t xs"
    using assms(2) True by (simp add: queue_place_def) (induction xs; simp)
  moreover have "wq_priority (tshd k2 x) = (if x = t then ?p else ?f x)" for x by (simp add: k2_def upd_tshd_def w)
  ultimately have "prio_sorted (\<lambda>x. wq_priority (tshd k2 x)) (queue_place disc k t xs)" by simp
  moreover have "threads k2 = threads k" "call_good k2 = call_good k" "queue_frame k k2"
    unfolding k2_def k1_def by (simp_all add: wq_link_frame upd_tshd_good queue_frame_priority)
  ultimately show ?thesis using eq l place True by (intro exI [of _ k2]) simp
qed

subsection \<open>Inside a section\<close>

text \<open>Thread \<open>cur\<close> runs in the section, whose wait queue holds \<open>xs\<close>.\<close>

definition in_section :: "nat \<Rightarrow> nat \<Rightarrow> nat \<Rightarrow> nat list \<Rightarrow> arinc \<Rightarrow> bool" where
  "in_section cur sec wq xs k \<longleftrightarrow> section_queue k sec wq xs \<and> call_good k \<and> mode k = POK_PARTITION_MODE_NORMAL
     \<and> \<not> preempt_local_disabled (base_part k) \<and> user_access k sec 2 \<and> user_access k wq 2
     \<and> thread_current k = Some cur \<and> kshd_current_thread_id k = Some cur \<and> owner (msections k sec) = Some cur"

text \<open>
  What the steps of other threads leave alone while one is in the section: the section and its
  queue, the threads that wait for it, except that waiting may come to its end, and the objects
  that the section protects.
\<close>

definition others_ran :: "nat \<Rightarrow> nat \<Rightarrow> libjet \<Rightarrow> libjet \<Rightarrow> bool" where
  "others_ran sec wq u u' \<longleftrightarrow> (let k = kern u; k' = kern u' in
     \<not> preempt_local_disabled (base_part k') \<and> mode k' = mode k \<and> thread_current k' = thread_current k
     \<and> kshd_current_thread_id k' = kshd_current_thread_id k \<and> nthreads_used k' = nthreads_used k
     \<and> thread_error k' = thread_error k \<and> user_access k' = user_access k \<and> (call_good k \<longrightarrow> call_good k')
     \<and> owner (msections k' sec) = owner (msections k sec) \<and> msection_wqs k' wq = msection_wqs k wq
     \<and> (\<forall>t. msection_entering (threads k t) = Some sec \<longrightarrow>
          tshd k' t = tshd k t \<and> msection_entering (threads k' t) = Some sec
          \<and> (\<not> waiting k t \<longrightarrow> \<not> waiting k' t \<and> wait_result (threads k' t) = wait_result (threads k t)))
     \<and> (\<forall>i. sem_section (arinc_semaphores u i) = sec \<longrightarrow> arinc_semaphores u' i = arinc_semaphores u i)
     \<and> (\<forall>i. ev_section (arinc_events u i) = sec \<longrightarrow> arinc_events u' i = arinc_events u i)
     \<and> (\<forall>i. buf_section (arinc_buffers u i) = sec \<longrightarrow> arinc_buffers u' i = arinc_buffers u i)
     \<and> (\<forall>i. bb_section (arinc_blackboards u i) = sec \<longrightarrow> arinc_blackboards u' i = arinc_blackboards u i))"

definition section_kept :: "resume \<Rightarrow> nat \<Rightarrow> nat \<Rightarrow> bool" where
  "section_kept resume sec wq \<longleftrightarrow> (\<forall>u. \<exists>u'. resume u = Some u' \<and> others_ran sec wq u u')"

text \<open>A caller that goes on at once is an instance.\<close>

definition resume_alone :: resume where
  "resume_alone u = Some (upd_kern (upd_base (\<lambda>part. part\<lparr>preempt_local_disabled := False\<rparr>)) u)"

lemma resume_alone_kept: "section_kept resume_alone sec wq"
  by (simp add: section_kept_def resume_alone_def others_ran_def Let_def upd_kern_def)

lemma section_queue_others:
  assumes "others_ran sec wq u u'" "section_queue (kern u) sec wq xs"
  shows "section_queue (kern u') sec wq xs"
proof -
  have t: "\<forall>t \<in> set xs. tshd (kern u') t = tshd (kern u) t \<and> msection_entering (threads (kern u') t) = Some sec"
    using assms by (auto simp: others_ran_def section_queue_def Let_def)
  then have "wq_seg (tshd (kern u')) None xs None = wq_seg (tshd (kern u)) None xs None" by (intro wq_seg_cong) auto
  moreover have "ordinary (kern u') t = ordinary (kern u) t" for t
    using assms(1) by (simp add: others_ran_def ordinary_def Let_def)
  ultimately show ?thesis using assms t by (simp add: section_queue_def wq_list_def others_ran_def Let_def)
qed

text \<open>A notification as the library sees it. The threads that are left in the queue may have been
  reached by their timeouts before the caller goes on; the woken ones keep their result.\<close>

lemma section_notify_frame:
  assumes "in_section cur sec wq xs (kern u)" "section_kept resume sec wq"
  shows "\<exists>u' k. msection_wq_notify resume sec wq is_all u
       = Some (if \<exists>t \<in> set xs. waiting (kern u) t then POK_ERRNO_OK else POK_ERRNO_EMPTY, u')
     \<and> in_section cur sec wq (left_queued is_all (kern u) xs) (kern u') \<and> others_ran sec wq (u\<lparr>kern := k\<rparr>) u'
     \<and> woken_by_notify (notified is_all (kern u) xs) (kern u) k
     \<and> (\<forall>t \<in> set (notified is_all (kern u) xs). \<not> waiting (kern u') t \<and> wait_result (threads (kern u') t) = POK_ERRNO_OK)
     \<and> (\<forall>t \<in> set xs - set (left_queued is_all (kern u) xs). unlinked (kern u') t)
     \<and> resume (u\<lparr>kern := k\<rparr>) = Some u'
     \<and> user_frame wq (set xs) (upd_base (\<lambda>part. part\<lparr>preempt_local_disabled := True\<rparr>) (kern u)) k"
proof -
  note i = assms(1) [unfolded in_section_def]
  let ?r = "if \<exists>t \<in> set xs. waiting (kern u) t then POK_ERRNO_OK else POK_ERRNO_EMPTY"
  let ?b = "upd_base (\<lambda>part. part\<lparr>preempt_local_disabled := True\<rparr>) (kern u)"
  obtain k where k: "jet_msection_wq_notify sec wq is_all (kern u) = Some (Leave ?r, k)"
    "section_queue k sec wq (left_queued is_all (kern u) xs)" "call_good k" "user_frame wq (set xs) ?b k"
    "woken_by_notify (notified is_all (kern u) xs) (kern u) k"
    "\<forall>t \<in> set xs - set (left_queued is_all (kern u) xs). unlinked k t"
    using wq_notify_spec [of "kern u" sec wq xs cur is_all] i by auto
  obtain u' where u': "resume (u\<lparr>kern := k\<rparr>) = Some u'" "others_ran sec wq (u\<lparr>kern := k\<rparr>) u'"
    using assms(2) by (auto simp: section_kept_def)
  have "msection_wq_notify resume sec wq is_all u = Some (?r, u')"
    using k(1) u'(1) by (simp add: msection_wq_notify_def sys_return_def)
  moreover have "in_section cur sec wq (left_queued is_all (kern u) xs) (kern u')"
    using i k(2-4) u'(2) section_queue_others [OF u'(2)]
    by (simp add: in_section_def others_ran_def Let_def user_frame_def)
  moreover have e: "msection_entering (threads k t) = Some sec" if "t \<in> set xs" for t
    using that i k(4) by (auto simp: section_queue_def user_frame_def)
  moreover have "unlinked (kern u') t" if "t \<in> set xs - set (left_queued is_all (kern u) xs)" for t
    using that k(6) e [of t] u'(2) by (auto simp: others_ran_def Let_def unlinked_def)
  moreover have "\<not> waiting (kern u') t \<and> wait_result (threads (kern u') t) = POK_ERRNO_OK"
    if "t \<in> set (notified is_all (kern u) xs)" for t
  proof -
    have "t \<in> set xs" using that by (auto simp: notified_def dest: in_set_takeD split: if_splits)
    then have "msection_entering (threads k t) = Some sec" by (rule e)
    moreover have "state (threads k t) = POK_STATE_RUNNABLE" "wait_result (threads k t) = POK_ERRNO_OK"
      using k(5) that by (simp_all add: woken_by_notify_def)
    ultimately show ?thesis using u'(2) by (simp add: others_ran_def Let_def)
  qed
  ultimately show ?thesis using u' k(4,5) by blast
qed

lemma section_notify:
  assumes "in_section cur sec wq xs (kern u)" "section_kept resume sec wq"
  shows "\<exists>u' k. msection_wq_notify resume sec wq is_all u
       = Some (if \<exists>t \<in> set xs. waiting (kern u) t then POK_ERRNO_OK else POK_ERRNO_EMPTY, u')
     \<and> in_section cur sec wq (left_queued is_all (kern u) xs) (kern u') \<and> others_ran sec wq (u\<lparr>kern := k\<rparr>) u'
     \<and> woken_by_notify (notified is_all (kern u) xs) (kern u) k
     \<and> (\<forall>t \<in> set (notified is_all (kern u) xs). \<not> waiting (kern u') t \<and> wait_result (threads (kern u') t) = POK_ERRNO_OK)
     \<and> (\<forall>t \<in> set xs - set (left_queued is_all (kern u) xs). unlinked (kern u') t)"
  using section_notify_frame [OF assms] by blast

text \<open>Taking a thread out in user space.\<close>

lemma section_unlink:
  assumes "in_section cur sec wq (xs @ t # ys) k"
  shows "in_section cur sec wq (xs @ ys) (msection_wq_del wq t k)" "threads (msection_wq_del wq t k) = threads k"
    "user_frame wq (set (xs @ t # ys)) k (msection_wq_del wq t k)"
proof -
  note i = assms [unfolded in_section_def]
  have w: "wq_list k wq (xs @ t # ys)" using i by (simp add: section_queue_def)
  note st = stale_step [of k sec wq xs t ys] wq_unlink_same(2) [of wq t k]
  show "threads (msection_wq_del wq t k) = threads k" "user_frame wq (set (xs @ t # ys)) k (msection_wq_del wq t k)"
    using st(3,5) i by (simp_all add: msection_wq_del_eq)
  then show "in_section cur sec wq (xs @ ys) (msection_wq_del wq t k)"
    using i st(2,4) by (simp add: in_section_def msection_wq_del_eq user_frame_def)
qed

lemma notified_none:
  "filter (waiting k) xs = [] \<Longrightarrow> left_queued is_all k xs = [] \<and> notified is_all k xs = []"
proof -
  assume f: "filter (waiting k) xs = []"
  then have "dropWhile (\<lambda>t. \<not> waiting k t) xs = []" unfolding dropWhile_eq_Nil_conv filter_empty_conv .
  then show ?thesis unfolding left_queued_def notified_def f by simp
qed

lemma notified_one:
  assumes "filter (waiting k) xs = w # ws"
  obtains qs where "left_queued False k xs = w # qs" "notified False k xs = [w]" "filter (waiting k) qs = ws"
proof -
  obtain us vs where xs: "xs = us @ w # vs" "\<forall>u \<in> set us. \<not> waiting k u" "waiting k w" "ws = filter (waiting k) vs"
    using assms by (auto simp: filter_eq_Cons_iff)
  have "left_queued False k xs = w # vs" unfolding xs(1) using xs(2,3) by (simp add: left_queued_def dropWhile_append2)
  then show thesis
    by (rule that) (simp_all add: notified_def assms flip: xs(4))
qed

subsection \<open>Waiting in a section\<close>

lemma call_good_current:
  "call_good (upd_msection sec f (k\<lparr>thread_current := c, kshd_current_thread_id := c'\<rparr>)) = call_good k"
proof -
  let ?k = "upd_msection sec f (k\<lparr>thread_current := c, kshd_current_thread_id := c'\<rparr>)"
  have "same_sched k ?k" by (simp add: same_sched_def same_thread_def upd_msection_def)
  moreover have "chosen ?k = chosen k" by (rule chosen_cong) (simp_all add: upd_msection_def)
  moreover have "sched_local_recheck_needed ?k = sched_local_recheck_needed k" "thread_selected ?k = thread_selected k"
    by (simp_all add: upd_msection_def)
  ultimately show ?thesis using thr_inv_same [of k ?k] by (simp add: call_good_def settled_def)
qed

lemma wait_common_frame:
  assumes "thread_wait_common t time k = Some k'"
  shows "tshd k' = tshd k \<and> umem k' = umem k \<and> msection_wqs k' = msection_wqs k \<and> msections k' = msections k \<and> nthreads_used k' = nthreads_used k
     \<and> thread_error k' = thread_error k \<and> waiting k' t \<and> (\<forall>v. v \<noteq> t \<longrightarrow> threads k' v = threads k v)
     \<and> (\<forall>v. msection_entering (threads k' v) = msection_entering (threads k v))"
  using assms
  by (auto simp: thread_wait_common_def thread_wait_timed_def thread_wait_def jet_system_time_def thread_delay_event_def
      thread_set_uneligible_def pok_sched_local_invalidate_def upd_events_def upd_thread_def Let_def split: if_splits)

lemma wait_common_total:
  assumes "mode k = POK_PARTITION_MODE_NORMAL" "time \<noteq> 0"
    "pok_time_is_infinity time \<or> \<not> pok_time_is_infinity (time_add (clock k (clock_pos k)) time)"
  shows "\<exists>k'. thread_wait_common t time k = Some k'"
  using assms by (auto simp: thread_wait_common_def thread_wait_timed_def thread_wait_def jet_system_time_def Let_def)

lemma section_queue_same:
  assumes "section_queue k sec wq xs" "tshd k' = tshd k" "msection_wqs k' = msection_wqs k" "nthreads_used k' = nthreads_used k"
    "thread_error k' = thread_error k" "\<And>t. t \<in> set xs \<Longrightarrow> msection_entering (threads k' t) = msection_entering (threads k t)"
  shows "section_queue k' sec wq xs"
  using assms by (simp add: section_queue_def wq_list_def ordinary_def)

text \<open>The system call of a thread that waits in its section.\<close>

lemma msection_wait_spec:
  assumes "wq_list k wq ys" "call_good k" "mode k = POK_PARTITION_MODE_NORMAL" "\<not> preempt_local_disabled (base_part k)"
    "user_access k sec 2" "thread_current k = Some t" "owner (msections k sec) = Some t" "ordinary k t" "lock_level k = 0"
    "state (threads k t) = POK_STATE_RUNNABLE" "first_donator (threads k t) = None" "msection_count (tshd k t) = 1"
    "\<forall>v \<in> set ys. v \<noteq> t \<longrightarrow> ordinary k v \<and> msection_entering (threads k v) = Some sec" "time \<noteq> 0"
    "pok_time_is_infinity time \<or> \<not> pok_time_is_infinity (time_add (clock k (clock_pos k)) time)"
  shows "\<exists>k'. jet_msection_wait sec (Some time) k = Some (LeaveWait t, k') \<and> section_queue k' sec wq ys \<and> call_good k'
     \<and> waiting k' t \<and> owner (msections k' sec) = None \<and> sched_local_recheck_needed k'
     \<and> (\<forall>v. v \<noteq> t \<longrightarrow> threads k' v = threads k v) \<and> tshd k' = tshd k \<and> umem k' = umem k"
proof -
  define b where "b = upd_base (\<lambda>part. part\<lparr>preempt_local_disabled := True\<rparr>) k"
  define e where "e = upd_thread t (\<lambda>th. th\<lparr>msection_entering := Some sec\<rparr>) b"
  define m where "m = upd_msection sec (\<lambda>m. m\<lparr>owner := None\<rparr>) e"
  have m: "mode m = mode k" "clock m = clock k" "clock_pos m = clock_pos k" "tshd m = tshd k" "msection_wqs m = msection_wqs k"
    "nthreads_used m = nthreads_used k" "thread_error m = thread_error k" "umem m = umem k" "owner (msections m sec) = None"
    "threads m = (threads k)(t := (threads k t)\<lparr>msection_entering := Some sec\<rparr>)"
    by (simp_all add: m_def e_def b_def upd_msection_def upd_thread_def upd_base_def)
  obtain k1 where k1: "thread_wait_common t time m = Some k1"
    using wait_common_total [of m time t] m assms(3,14,15) by auto
  note f = wait_common_frame [OF k1]
  have "call_good m"
  proof -
    have "call_good e" using assms(2) by (simp add: e_def b_def same_thread_good same_thread_def)
    moreover have "call_good m = call_good e"
      using call_good_current [of sec "\<lambda>m. m\<lparr>owner := None\<rparr>" "kshd_current_thread_id e" "thread_current e" e] by (simp add: m_def)
    ultimately show ?thesis by simp
  qed
  then have "call_good k1"
    by (rule wait_common_good [OF _ _ _ k1]) (use assms(8,10) m in \<open>simp_all add: ordinary_def\<close>)
  then have g: "call_good (pok_sched_local_invalidate k1)" by (simp add: call_good_def call_good_invalidate)
  have "section_queue (pok_sched_local_invalidate k1) sec wq ys"
    using assms(1,8,13) f m by (auto simp: section_queue_def wq_list_def ordinary_def pok_sched_local_invalidate_def)
  moreover have "jet_msection_wait sec (Some time) k = Some (LeaveWait t, pok_sched_local_invalidate k1)"
    using assms(4-9,11,12) k1 [unfolded m_def e_def b_def]
    by (simp add: jet_msection_wait_def local_disable_frame ordinary_def)
  ultimately show ?thesis using g f m by (auto simp: pok_sched_local_invalidate_def)
qed

text \<open>A thread in the section queues itself and waits, as every operation does that cannot go on.\<close>

definition may_wait :: "nat \<Rightarrow> pok_time \<Rightarrow> pok_queuing_discipline \<Rightarrow> nat list \<Rightarrow> arinc \<Rightarrow> bool" where
  "may_wait t T disc xs k \<longleftrightarrow> t \<notin> set xs
     \<and> (disc = POK_QUEUING_DISCIPLINE_PRIORITY \<longrightarrow> prio_sorted (\<lambda>v. wq_priority (tshd k v)) xs)
     \<and> ordinary k t \<and> lock_level k = 0 \<and> state (threads k t) = POK_STATE_RUNNABLE
     \<and> first_donator (threads k t) = None \<and> msection_count (tshd k t) = 1
     \<and> (pok_time_is_infinity T \<or> \<not> pok_time_is_infinity (time_add (clock k (clock_pos k)) T))"

definition began_to_wait :: "nat \<Rightarrow> nat \<Rightarrow> nat \<Rightarrow> nat list \<Rightarrow> arinc \<Rightarrow> arinc \<Rightarrow> bool" where
  "began_to_wait t sec wq ys k k' \<longleftrightarrow> section_queue k' sec wq ys \<and> waiting k' t
     \<and> owner (msections k' sec) = None \<and> call_good k' \<and> sched_local_recheck_needed k'
     \<and> (\<forall>v. v \<noteq> t \<longrightarrow> threads k' v = threads k v) \<and> umem k' = umem k
     \<and> (\<forall>v. wq_buffer (tshd k' v) = wq_buffer (tshd k v) \<and> wq_len (tshd k' v) = wq_len (tshd k v))"

lemma queue_and_wait:
  assumes "in_section t sec wq xs k" "may_wait t T disc xs k" "T \<noteq> 0"
  shows "\<exists>k1 k2. arinc_process_queue_add_common wq disc k = Some k1
     \<and> jet_msection_wait sec (Some T) k1 = Some (LeaveWait t, k2) \<and> began_to_wait t sec wq (queue_place disc k t xs) k k2"
proof -
  note i = assms(1) [unfolded in_section_def section_queue_def]
  obtain k1 where k1: "arinc_process_queue_add_common wq disc k = Some k1" "wq_list k1 wq (queue_place disc k t xs)"
    "threads k1 = threads k" "call_good k1 = call_good k" "queue_frame k k1"
    using process_queue_add_spec [of k wq xs t disc] i assms(2) by (auto simp: may_wait_def)
  note f = queue_frame_fields [OF k1(5)]
  obtain k2 where k2: "jet_msection_wait sec (Some T) k1 = Some (LeaveWait t, k2)"
     "section_queue k2 sec wq (queue_place disc k t xs)" "call_good k2" "waiting k2 t" "owner (msections k2 sec) = None"
     "sched_local_recheck_needed k2" "\<forall>v. v \<noteq> t \<longrightarrow> threads k2 v = threads k1 v" "tshd k2 = tshd k1" "umem k2 = umem k1"
    using msection_wait_spec [OF k1(2), of sec t T] i f k1(4) assms(2,3) by (auto simp: may_wait_def)
  then show ?thesis using k1(1,3) f by (intro exI [of _ k1] exI [of _ k2]) (simp add: began_to_wait_def)
qed

subsection \<open>An example\<close>

text \<open>A partition with an object of each kind; section and queue of the semaphore and of the buffer are those of \<open>example_section\<close>.\<close>

definition example_semaphore :: arinc_semaphore where
  "example_semaphore = \<lparr>semaphore_name = (\<lambda>_. 0), current_value = 0, maximum_value = 5,
     sem_discipline = POK_QUEUING_DISCIPLINE_FIFO, sem_section = 100, sem_queue = 102\<rparr>"

definition example_lib :: libjet where
  "example_lib = \<lparr>kern = example_section, arinc_semaphores = (\<lambda>_. example_semaphore), nsemaphores_used = 1,
     arinc_config_nsemaphores = 2,
     arinc_events = (\<lambda>_. \<lparr>event_name = (\<lambda>_. 0), event_state = DOWN, ev_section = 200, ev_queue = 202\<rparr>),
     nevents_used = 1, arinc_config_nevents = 1,
     arinc_buffers = (\<lambda>_. \<lparr>buffer_name = (\<lambda>_. 0), buf_max_message_size = 4, buf_max_nb_message = 2, nb_message = 0,
       message_stride = 4, messages = 3000, messages_size = (\<lambda>_. 0), base_offset = 0,
       buf_discipline = POK_QUEUING_DISCIPLINE_FIFO, buf_section = 100, buf_queue = 102\<rparr>),
     nbuffers_used = 1, arinc_config_nbuffers = 1,
     arinc_blackboards = (\<lambda>_. \<lparr>blackboard_name = (\<lambda>_. 0), bb_max_message_size = 4, message = 4000, message_size = 0,
       bb_section = 400, bb_queue = 402\<rparr>),
     nblackboards_used = 1, arinc_config_nblackboards = 1,
     arinc_intra_heap = 3000, arinc_intra_heap_size_current = 0, arinc_config_messages_memory_size = 2000\<rparr>"

lemma example_lib_section: "in_section 1 100 102 [2, 3, 4] (kern example_lib)"
  using example_section_queue example_section_good by (simp add: in_section_def example_lib_def example_section_fields)

lemma example_may_wait: "may_wait 1 (-1) POK_QUEUING_DISCIPLINE_FIFO [2, 3, 4] (kern example_lib)"
proof -
  have "ordinary (kern example_lib) 1" "lock_level (kern example_lib) = 0" "state (threads (kern example_lib) 1) = POK_STATE_RUNNABLE"
    "first_donator (threads (kern example_lib) 1) = None" "msection_count (tshd (kern example_lib) 1) = 1"
    by (simp_all add: example_lib_def example_section_fields ordinary_def) (simp_all add: example_section_def example_arinc_def example_thread_def)
  then show ?thesis by (simp add: may_wait_def pok_time_is_infinity_def)
qed

end
