(* ===== verification/ArincSemaphore.thy ===== *)
theory ArincSemaphore
  imports Msection
begin

section \<open>Semaphores\<close>

text \<open>
  \<open>libpok/arinc653/semaphore.c\<close>. The operations on a semaphore run in its section; what stands
  between \<open>msection_enter\<close> and \<open>msection_leave\<close> is a definition of its own. Out parameters are
  returned; \<open>None\<close> as an identifier says that nothing has been written.
\<close>

definition upd_sem :: "nat \<Rightarrow> (arinc_semaphore \<Rightarrow> arinc_semaphore) \<Rightarrow> libjet \<Rightarrow> libjet" where
  "upd_sem i f u = u\<lparr>arinc_semaphores := (arinc_semaphores u)(i := f (arinc_semaphores u i))\<rparr>"

definition find_semaphore :: "chars \<Rightarrow> libjet \<Rightarrow> nat option" where
  "find_semaphore name u = find_name (\<lambda>i. semaphore_name (arinc_semaphores u i)) (nsemaphores_used u) name"

definition CREATE_SEMAPHORE ::
  "chars \<Rightarrow> int \<Rightarrow> int \<Rightarrow> int \<Rightarrow> libjet \<Rightarrow> RETURN_CODE_TYPE \<times> nat option \<times> libjet" where
  "CREATE_SEMAPHORE name CURRENT_VALUE MAXIMUM_VALUE QUEUING_DISCIPLINE u =
     (if kshd_partition_mode (kern u) = POK_PARTITION_MODE_NORMAL then (INVALID_MODE, None, u)
      else if find_semaphore name u \<noteq> None then (NO_ACTION, None, u)
      else if nsemaphores_used u = arinc_config_nsemaphores u then (INVALID_CONFIG, None, u)
      else if MAXIMUM_VALUE < 0 \<or> MAXIMUM_VALUE > MAX_SEMAPHORE_VALUE then (INVALID_PARAM, None, u)
      else if CURRENT_VALUE < 0 \<or> CURRENT_VALUE > MAXIMUM_VALUE then (INVALID_PARAM, None, u)
      else case to_discipline QUEUING_DISCIPLINE of
        None \<Rightarrow> (INVALID_PARAM, None, u)
      | Some d \<Rightarrow>
          let i = nsemaphores_used u;
              u = upd_sem i (\<lambda>x. x\<lparr>semaphore_name := copy_name name (semaphore_name x), maximum_value := MAXIMUM_VALUE,
                    current_value := CURRENT_VALUE, sem_discipline := d\<rparr>) u;
              u = msection_init (sem_section (arinc_semaphores u i)) u;
              u = msection_wq_init (sem_queue (arinc_semaphores u i)) u
          in (NO_ERROR, Some (i + 1), u\<lparr>nsemaphores_used := i + 1\<rparr>))"

definition wait_semaphore :: "resume \<Rightarrow> nat \<Rightarrow> pok_time \<Rightarrow> libjet \<Rightarrow> (RETURN_CODE_TYPE \<times> libjet) option" where
  "wait_semaphore resume i TIME_OUT u =
     (let x = arinc_semaphores u i
      in if current_value x > 0 then Some (NO_ERROR, upd_sem i (\<lambda>x. x\<lparr>current_value := current_value x - 1\<rparr>) u)
      else if TIME_OUT = 0 then Some (NOT_AVAILABLE, u)
      else do {
        t \<leftarrow> kshd_current_thread_id (kern u);
        k \<leftarrow> arinc_process_queue_add_common (sem_queue x) (sem_discipline x) (kern u);
        (r, u) \<leftarrow> msection_wait resume (sem_section x) TIME_OUT (u\<lparr>kern := k\<rparr>);
        waited (sem_queue x) t r u
      })"

definition signal_semaphore :: "resume \<Rightarrow> nat \<Rightarrow> libjet \<Rightarrow> (RETURN_CODE_TYPE \<times> libjet) option" where
  "signal_semaphore resume i u = do {
     let wq = sem_queue (arinc_semaphores u i);
     (r, u) \<leftarrow> msection_wq_notify resume (sem_section (arinc_semaphores u i)) wq False u;
     if r = POK_ERRNO_OK then do {
       t_awoken \<leftarrow> wq_first (msection_wqs (kern u) wq);
       Some (NO_ERROR, upd_kern (msection_wq_del wq t_awoken) u)
     }
     else if current_value (arinc_semaphores u i) = maximum_value (arinc_semaphores u i) then Some (NO_ACTION, u)
     else Some (NO_ERROR, upd_sem i (\<lambda>x. x\<lparr>current_value := current_value x + 1\<rparr>) u)
   }"

definition WAIT_SEMAPHORE :: "resume \<Rightarrow> int \<Rightarrow> pok_time \<Rightarrow> libjet \<Rightarrow> (RETURN_CODE_TYPE \<times> libjet) option" where
  "WAIT_SEMAPHORE resume SEMAPHORE_ID TIME_OUT u =
     (if SEMAPHORE_ID \<le> 0 \<or> SEMAPHORE_ID > int (nsemaphores_used u) then Some (INVALID_PARAM, u)
      else let i = nat (SEMAPHORE_ID - 1)
      in in_its_section resume (sem_section (arinc_semaphores u i)) (wait_semaphore resume i TIME_OUT) u)"

definition SIGNAL_SEMAPHORE :: "resume \<Rightarrow> int \<Rightarrow> libjet \<Rightarrow> (RETURN_CODE_TYPE \<times> libjet) option" where
  "SIGNAL_SEMAPHORE resume SEMAPHORE_ID u =
     (if SEMAPHORE_ID \<le> 0 \<or> SEMAPHORE_ID > int (nsemaphores_used u) then Some (INVALID_PARAM, u)
      else let i = nat (SEMAPHORE_ID - 1)
      in in_its_section resume (sem_section (arinc_semaphores u i)) (signal_semaphore resume i) u)"

definition GET_SEMAPHORE_ID :: "chars \<Rightarrow> libjet \<Rightarrow> RETURN_CODE_TYPE \<times> nat option" where
  "GET_SEMAPHORE_ID name u =
     (case find_semaphore name u of None \<Rightarrow> (INVALID_CONFIG, None) | Some i \<Rightarrow> (NO_ERROR, Some (i + 1)))"

record SEMAPHORE_STATUS_TYPE =
  SEM_CURRENT_VALUE :: int
  SEM_MAXIMUM_VALUE :: int
  SEM_WAITING_PROCESSES :: nat

definition GET_SEMAPHORE_STATUS ::
  "resume \<Rightarrow> int \<Rightarrow> libjet \<Rightarrow> ((RETURN_CODE_TYPE \<times> SEMAPHORE_STATUS_TYPE option) \<times> libjet) option" where
  "GET_SEMAPHORE_STATUS resume SEMAPHORE_ID u =
     (if SEMAPHORE_ID \<le> 0 \<or> SEMAPHORE_ID > int (nsemaphores_used u) then Some ((INVALID_PARAM, None), u)
      else let i = nat (SEMAPHORE_ID - 1); sec = sem_section (arinc_semaphores u i);
               maximum = maximum_value (arinc_semaphores u i)
      in in_its_section resume sec (\<lambda>u. do {
           let value = current_value (arinc_semaphores u i);
           (n, u) \<leftarrow> msection_wq_size resume sec (sem_queue (arinc_semaphores u i)) u;
           Some ((NO_ERROR, Some \<lparr>SEM_CURRENT_VALUE = value, SEM_MAXIMUM_VALUE = maximum, SEM_WAITING_PROCESSES = n\<rparr>), u)
         }) u)"

subsection \<open>Signalling\<close>

lemma others_sem: "others_ran sec wq u u' \<Longrightarrow> sem_section (arinc_semaphores u i) = sec \<Longrightarrow> arinc_semaphores u' i = arinc_semaphores u i"
  by (simp add: others_ran_def Let_def)

lemma kern_upd_sem [simp]: "kern (upd_sem i f u) = kern u"
  by (simp add: upd_sem_def)

lemma signal_spec:
  assumes "in_section cur (sem_section x) (sem_queue x) xs (kern u)" "section_kept resume (sem_section x) (sem_queue x)"
    "arinc_semaphores u i = x"
  shows "\<exists>rc u'. signal_semaphore resume i u = Some (rc, u') \<and>
     (\<forall>t \<in> set xs - set (left_queued False (kern u) xs). unlinked (kern u') t) \<and>
     (case filter (waiting (kern u)) xs of
        [] \<Rightarrow> in_section cur (sem_section x) (sem_queue x) [] (kern u')
          \<and> rc = (if current_value x = maximum_value x then NO_ACTION else NO_ERROR)
          \<and> arinc_semaphores u' i = x\<lparr>current_value := current_value x + (if current_value x = maximum_value x then 0 else 1)\<rparr>
      | w # ws \<Rightarrow> rc = NO_ERROR \<and> arinc_semaphores u' i = x
          \<and> \<not> waiting (kern u') w \<and> wait_result (threads (kern u') w) = POK_ERRNO_OK
          \<and> (\<exists>qs. in_section cur (sem_section x) (sem_queue x) qs (kern u') \<and> filter (waiting (kern u)) qs = ws))"
proof -
  let ?sec = "sem_section x" and ?wq = "sem_queue x"
  obtain u1 k where n: "msection_wq_notify resume ?sec ?wq False u
       = Some (if \<exists>t \<in> set xs. waiting (kern u) t then POK_ERRNO_OK else POK_ERRNO_EMPTY, u1)"
    "in_section cur ?sec ?wq (left_queued False (kern u) xs) (kern u1)" "others_ran ?sec ?wq (u\<lparr>kern := k\<rparr>) u1"
    "\<forall>t \<in> set (notified False (kern u) xs). \<not> waiting (kern u1) t \<and> wait_result (threads (kern u1) t) = POK_ERRNO_OK"
    "\<forall>t \<in> set xs - set (left_queued False (kern u) xs). unlinked (kern u1) t"
    using section_notify [OF assms(1,2), of False] by blast
  have x: "arinc_semaphores u1 i = x" using others_sem [OF n(3), of i] assms(3) by simp
  show ?thesis
  proof (cases "filter (waiting (kern u)) xs")
    case Nil
    then have "\<not> (\<exists>t \<in> set xs. waiting (kern u) t)" by (simp add: filter_empty_conv)
    then have r: "signal_semaphore resume i u = Some (if current_value x = maximum_value x then (NO_ACTION, u1)
        else (NO_ERROR, upd_sem i (\<lambda>x. x\<lparr>current_value := current_value x + 1\<rparr>) u1))"
      using n(1) x assms(3) by (simp add: signal_semaphore_def)
    have q: "in_section cur ?sec ?wq [] (kern u1)" using n(2) notified_none [OF Nil, of False] by simp
    show ?thesis
    proof (cases "current_value x = maximum_value x")
      case True
      with r q x n(5) show ?thesis unfolding Nil list.case by (intro exI [of _ NO_ACTION] exI [of _ u1]) simp
    next
      case False
      let ?u = "upd_sem i (\<lambda>x. x\<lparr>current_value := current_value x + 1\<rparr>) u1"
      have "arinc_semaphores ?u i = x\<lparr>current_value := current_value x + 1\<rparr>" by (simp add: upd_sem_def x)
      with r q False n(5) show ?thesis unfolding Nil list.case by (intro exI [of _ NO_ERROR] exI [of _ ?u]) simp
    qed
  next
    case (Cons w ws)
    then have "w \<in> set (filter (waiting (kern u)) xs)" by simp
    then have "\<exists>t \<in> set xs. waiting (kern u) t" unfolding set_filter by blast
    moreover obtain qs where q: "left_queued False (kern u) xs = w # qs" "notified False (kern u) xs = [w]"
      "filter (waiting (kern u)) qs = ws"
      using notified_one [OF Cons] by blast
    moreover have "wq_first (msection_wqs (kern u1) ?wq) = Some w"
      using n(2) q(1) by (simp add: in_section_def section_queue_def wq_list_def)
    ultimately have eq: "signal_semaphore resume i u = Some (NO_ERROR, upd_kern (msection_wq_del ?wq w) u1)"
      using n(1) assms(3) by (simp add: signal_semaphore_def)
    have "in_section cur ?sec ?wq ([] @ w # qs) (kern u1)" using n(2) q(1) by simp
    note d = section_unlink [OF this]
    have "unlinked (msection_wq_del ?wq w (kern u1)) t" if "t \<in> set xs - set (w # qs)" for t
    proof -
      have "tshd (msection_wq_del ?wq w (kern u1)) t = tshd (kern u1) t"
        using d(3) that unfolding user_frame_def by simp
      then show ?thesis using that n(5) q(1) by (simp add: unlinked_def)
    qed
    then show ?thesis using d eq x Cons q n(4) by (auto simp: upd_kern_def)
  qed
qed

text \<open>
  C22: a signal of a semaphore by the thread in its section. If threads wait, the first waiting
  one of the queue is woken up with a successful result, it leaves the queue, the order of the others
  stays and the value too; if none waits, the value is incremented, but never beyond the maximum,
  which is reported as \<open>NO_ACTION\<close>. No thread that has stopped waiting takes the signal.
\<close>

theorem signal_semaphore_outcome:
  assumes "in_section cur (sem_section x) (sem_queue x) xs (kern u)"
    and "section_kept resume (sem_section x) (sem_queue x)" and "arinc_semaphores u i = x"
    and "current_value x \<le> maximum_value x"
  shows "\<exists>rc u'. signal_semaphore resume i u = Some (rc, u') \<and> current_value (arinc_semaphores u' i) \<le> maximum_value x \<and>
     (case filter (waiting (kern u)) xs of
        [] \<Rightarrow> in_section cur (sem_section x) (sem_queue x) [] (kern u')
          \<and> rc = (if current_value x = maximum_value x then NO_ACTION else NO_ERROR)
          \<and> arinc_semaphores u' i = x\<lparr>current_value := current_value x + (if current_value x = maximum_value x then 0 else 1)\<rparr>
      | w # ws \<Rightarrow> rc = NO_ERROR \<and> arinc_semaphores u' i = x
          \<and> \<not> waiting (kern u') w \<and> wait_result (threads (kern u') w) = POK_ERRNO_OK
          \<and> (\<exists>qs. in_section cur (sem_section x) (sem_queue x) qs (kern u') \<and> filter (waiting (kern u)) qs = ws))"
proof -
  from signal_spec [OF assms(1-3)] obtain rc u' where r: "signal_semaphore resume i u = Some (rc, u')"
     "case filter (waiting (kern u)) xs of
        [] \<Rightarrow> in_section cur (sem_section x) (sem_queue x) [] (kern u')
          \<and> rc = (if current_value x = maximum_value x then NO_ACTION else NO_ERROR)
          \<and> arinc_semaphores u' i = x\<lparr>current_value := current_value x + (if current_value x = maximum_value x then 0 else 1)\<rparr>
      | w # ws \<Rightarrow> rc = NO_ERROR \<and> arinc_semaphores u' i = x
          \<and> \<not> waiting (kern u') w \<and> wait_result (threads (kern u') w) = POK_ERRNO_OK
          \<and> (\<exists>qs. in_section cur (sem_section x) (sem_queue x) qs (kern u') \<and> filter (waiting (kern u)) qs = ws)"
    by blast
  then have "current_value (arinc_semaphores u' i) \<le> maximum_value x"
    using assms(4) by (cases "filter (waiting (kern u)) xs") auto
  then show ?thesis using r by blast
qed

theorem signal_semaphore_outcome_witness:
  "\<exists>u'. signal_semaphore resume_alone 0 example_lib = Some (NO_ERROR, u')
     \<and> \<not> waiting (kern u') 3 \<and> wait_result (threads (kern u') 3) = POK_ERRNO_OK \<and> current_value (arinc_semaphores u' 0) = 0"
proof -
  have x: "arinc_semaphores example_lib 0 = example_semaphore" "sem_section example_semaphore = 100"
    "sem_queue example_semaphore = 102" "current_value example_semaphore = 0" "maximum_value example_semaphore = 5"
    by (simp_all add: example_lib_def example_semaphore_def)
  have w: "waiting (kern example_lib) t \<longleftrightarrow> t = 3 \<or> t = 4" for t
    by (auto simp: example_lib_def example_section_fields)
  show ?thesis
    using signal_semaphore_outcome [of 1 example_semaphore "[2, 3, 4]" example_lib resume_alone 0]
      example_lib_section resume_alone_kept x w by auto
qed

subsection \<open>Waiting\<close>

lemma stale_del:
  assumes "wq_next (tshd k t) = None" "wq_prev (tshd k t) = None"
  shows "msection_wqs (msection_wq_del wq t k) = (msection_wqs k)(wq := \<lparr>wq_first = None, wq_last = None\<rparr>)"
    "tshd (msection_wq_del wq t k) = tshd k" "threads (msection_wq_del wq t k) = threads k"
proof -
  show "msection_wqs (msection_wq_del wq t k) = (msection_wqs k)(wq := \<lparr>wq_first = None, wq_last = None\<rparr>)"
    using assms by (auto simp: msection_wq_del_def set_wq_prev_def set_wq_next_def upd_wq_def upd_tshd_def)
  show "tshd (msection_wq_del wq t k) = tshd k"
    using assms by (auto simp: msection_wq_del_def set_wq_prev_def set_wq_next_def upd_wq_def upd_tshd_def)
  show "threads (msection_wq_del wq t k) = threads k" by (simp add: msection_wq_del_eq wq_unlink_same)
qed

text \<open>The thread and the section after a change of the running thread.\<close>

definition hand_over :: "nat \<Rightarrow> nat \<Rightarrow> libjet \<Rightarrow> libjet" where
  "hand_over sec t = upd_kern (\<lambda>k. upd_msection sec (\<lambda>m. m\<lparr>owner := Some t\<rparr>)
     (k\<lparr>thread_current := Some t, kshd_current_thread_id := Some t\<rparr>))"

text \<open>
  C23: a wait that is timed out while another thread is in the section can lose all other waiting
  threads. Thread \<open>t\<close>, first in the queue, has been woken up by its timeout and waits to get into the
  section; \<open>cur\<close>, which is in it, signals, so the kernel takes \<open>t\<close> out of the queue and wakes up \<open>w\<close>.
  When \<open>t\<close> gets into the section it takes itself out a second time, and since its links say that it
  is the only one, the queue becomes empty although the threads \<open>ws\<close> wait in it. The next signal finds
  nobody and increments the value instead.
\<close>

theorem timeout_loses_waiters:
  assumes "in_section cur (sem_section x) (sem_queue x) (t # w # ws) (kern u)" and "arinc_semaphores u i = x"
    and "section_kept resume (sem_section x) (sem_queue x)" and "\<not> waiting (kern u) t" and "waiting (kern u) w"
    and "signal_semaphore resume i u = Some (rc1, u1)"
    and "tshd (kern u2) t = tshd (kern u1) t" and "waited (sem_queue x) t POK_ERRNO_TIMEOUT u2 = Some (rc2, u3)"
    and "msection_wqs (kern u4) (sem_queue x) = msection_wqs (kern u3) (sem_queue x)"
    and "\<exists>ys. in_section cur' (sem_section x) (sem_queue x) ys (kern u4)"
    and "arinc_semaphores u4 i = x\<lparr>current_value := v\<rparr>" and "v < maximum_value x"
    and "signal_semaphore resume i u4 = Some (rc3, u5)"
  shows "rc1 = NO_ERROR \<and> section_queue (kern u1) (sem_section x) (sem_queue x) ws
     \<and> rc2 = TIMED_OUT \<and> threads (kern u3) = threads (kern u2) \<and> tshd (kern u3) = tshd (kern u2)
     \<and> section_queue (kern u4) (sem_section x) (sem_queue x) []
     \<and> rc3 = NO_ERROR \<and> current_value (arinc_semaphores u5 i) = v + 1"
proof -
  let ?sec = "sem_section x" and ?wq = "sem_queue x"
  have q: "left_queued False (kern u) (t # w # ws) = w # ws" "notified False (kern u) (t # w # ws) = [w]"
    using assms(4,5) by (simp_all add: left_queued_def notified_def)
  obtain v1 k where n: "msection_wq_notify resume ?sec ?wq False u = Some (POK_ERRNO_OK, v1)"
    "in_section cur ?sec ?wq (w # ws) (kern v1)" "unlinked (kern v1) t" "t \<notin> set (w # ws)"
    using section_notify [OF assms(1,3), of False] q assms(1,5)
    by (auto simp: in_section_def section_queue_def wq_list_def)
  have "wq_first (msection_wqs (kern v1) ?wq) = Some w"
    using n(2) by (simp add: in_section_def section_queue_def wq_list_def)
  then have u1: "rc1 = NO_ERROR" "u1 = upd_kern (msection_wq_del ?wq w) v1"
    using assms(2,6) n(1) by (simp_all add: signal_semaphore_def)
  have "in_section cur ?sec ?wq ([] @ w # ws) (kern v1)" using n(2) by simp
  note d = section_unlink [OF this]
  have "tshd (kern u1) t = tshd (kern v1) t" using d(3) n(4) u1(2) by (simp add: user_frame_def upd_kern_def)
  then have un: "wq_next (tshd (kern u2) t) = None" "wq_prev (tshd (kern u2) t) = None"
    using n(3) assms(7) by (simp_all add: unlinked_def)
  have u3: "rc2 = TIMED_OUT" "u3 = upd_kern (msection_wq_del ?wq t) u2" using assms(8) by (simp_all add: waited_def)
  note s = stale_del [OF un, of ?wq]
  obtain ys where ys: "in_section cur' ?sec ?wq ys (kern u4)" using assms(10) by blast
  have "wq_first (msection_wqs (kern u4) ?wq) = None" using assms(9) u3(2) s(1) by (simp add: upd_kern_def)
  then have "ys = []" using ys by (cases ys) (auto simp: in_section_def section_queue_def wq_list_def)
  then have e: "in_section cur' ?sec ?wq [] (kern u4)" using ys by simp
  have "rc3 = NO_ERROR \<and> current_value (arinc_semaphores u5 i) = v + 1"
    using signal_spec [of cur' "x\<lparr>current_value := v\<rparr>" "[]" u4 resume i] e assms(3,11-13) by auto
  then show ?thesis using u1 u3 s(2,3) d(1) e by (simp add: in_section_def upd_kern_def)
qed

lemma signal_alone_threads:
  assumes "in_section cur (sem_section x) (sem_queue x) xs (kern u)" "arinc_semaphores u i = x"
    "signal_semaphore resume_alone i u = Some (rc, u')" "t \<notin> set (notified False (kern u) xs)"
  shows "threads (kern u') t = threads (kern u) t"
proof -
  obtain r k where k: "jet_msection_wq_notify (sem_section x) (sem_queue x) False (kern u) = Some (Leave r, k)"
    "woken_by_notify (notified False (kern u) xs) (kern u) k"
    using wq_notify_spec [of "kern u" "sem_section x" "sem_queue x" xs cur False] assms(1)
    by (auto simp: in_section_def)
  have "threads k t = threads (kern u) t" using k(2) assms(4) by (simp add: woken_by_notify_def)
  then show ?thesis using assms(2,3) k(1)
    by (auto simp: signal_semaphore_def msection_wq_notify_def sys_return_def resume_alone_def upd_kern_def Let_def
        msection_wq_del_eq wq_unlink_same split: if_splits option.splits bind_splits)
qed

lemma in_section_hand_over:
  assumes "in_section cur sec wq xs k" "section_queue k' sec wq ys" "call_good k'" "mode k' = mode k"
    "parts k' = parts k" "gsched k' = gsched k" "user_access k' = user_access k"
  shows "in_section t sec wq ys (kern (hand_over sec t (u\<lparr>kern := k'\<rparr>)))"
  using assms by (simp add: in_section_def hand_over_def upd_kern_def call_good_current section_queue_def wq_list_def
      ordinary_def) (simp add: upd_msection_def)

theorem timeout_loses_waiters_witness:
  "\<exists>u1 u3 u5. signal_semaphore resume_alone 0 example_lib = Some (NO_ERROR, u1)
     \<and> waited 102 2 POK_ERRNO_TIMEOUT (hand_over 100 2 u1) = Some (TIMED_OUT, u3) \<and> waiting (kern u3) 4
     \<and> signal_semaphore resume_alone 0 (hand_over 100 1 u3) = Some (NO_ERROR, u5)
     \<and> current_value (arinc_semaphores u5 0) = 1"
proof -
  have x: "arinc_semaphores example_lib 0 = example_semaphore" "sem_section example_semaphore = 100"
    "sem_queue example_semaphore = 102" "current_value example_semaphore = 0" "maximum_value example_semaphore = 5"
    by (simp_all add: example_lib_def example_semaphore_def)
  have w: "waiting (kern example_lib) t \<longleftrightarrow> t = 3 \<or> t = 4" for t
    by (auto simp: example_lib_def example_section_fields)
  have sec: "in_section 1 (sem_section example_semaphore) (sem_queue example_semaphore) [2, 3, 4] (kern example_lib)"
    using example_lib_section x by simp
  note kept = resume_alone_kept [of "sem_section example_semaphore" "sem_queue example_semaphore"]
  have f: "filter (waiting (kern example_lib)) [2, 3, 4] = [3, 4]" "notified False (kern example_lib) [2, 3, 4] = [3]"
    "left_queued False (kern example_lib) [2, 3, 4] = [3, 4]"
    using w by (simp_all add: notified_def left_queued_def)
  obtain u1 qs where u1: "signal_semaphore resume_alone 0 example_lib = Some (NO_ERROR, u1)" "arinc_semaphores u1 0 = example_semaphore"
    "in_section 1 100 102 qs (kern u1)" "unlinked (kern u1) 2"
    using signal_spec [OF sec kept x(1)] f x by auto
  have w1: "waiting (kern u1) 4" using signal_alone_threads [OF sec x(1) u1(1), of 4] f(2) w [of 4] by simp
  let ?u2 = "hand_over 100 2 u1"
  let ?u3 = "upd_kern (msection_wq_del 102 2) ?u2"
  have un: "wq_next (tshd (kern ?u2) 2) = None" "wq_prev (tshd (kern ?u2) 2) = None"
    using u1(4) by (simp_all add: unlinked_def hand_over_def upd_kern_def upd_msection_def)
  note st = stale_del [OF un, of 102]
  have u3: "waited 102 2 POK_ERRNO_TIMEOUT ?u2 = Some (TIMED_OUT, ?u3)" by (simp add: waited_def)
  have fields: "mode (kern ?u3) = mode (kern u1)" "parts (kern ?u3) = parts (kern u1)" "gsched (kern ?u3) = gsched (kern u1)"
    "user_access (kern ?u3) = user_access (kern u1)"
    by (simp_all add: upd_kern_def hand_over_def msection_wq_del_eq wq_unlink_def Let_def upd_tshd_def upd_wq_def upd_msection_def
        split: option.split)
  have "section_queue (kern ?u3) 100 102 []" using st by (simp add: section_queue_def wq_list_def upd_kern_def)
  moreover have "call_good (kern ?u3)" using u1(3)
    by (simp add: upd_kern_def msection_wq_del_eq wq_unlink_same in_section_def) (simp add: hand_over_def upd_kern_def call_good_current)
  ultimately have u4: "in_section 1 100 102 [] (kern (hand_over 100 1 ?u3))"
    using in_section_hand_over [OF u1(3) _ _ fields, of "[]" 1 ?u3] by simp
  have x4: "arinc_semaphores (hand_over 100 1 ?u3) 0 = example_semaphore\<lparr>current_value := 0\<rparr>"
    using u1(2) by (simp add: hand_over_def upd_kern_def example_semaphore_def)
  obtain rc u5 where u5: "signal_semaphore resume_alone 0 (hand_over 100 1 ?u3) = Some (rc, u5)"
    using signal_spec [of 1 "example_semaphore\<lparr>current_value := 0\<rparr>" "[]" "hand_over 100 1 ?u3" resume_alone 0] u4 x4 x kept by auto
  have "rc = NO_ERROR \<and> current_value (arinc_semaphores u5 0) = 0 + 1"
    by (rule timeout_loses_waiters [OF sec x(1) kept _ _ u1(1) _ u3 [folded x(3)] _ _ x4 _ u5, THEN conjunct2, THEN conjunct2,
          THEN conjunct2, THEN conjunct2, THEN conjunct2, THEN conjunct2])
      (use w u4 x in \<open>auto simp: hand_over_def upd_kern_def upd_msection_def\<close>)
  moreover have "waiting (kern ?u3) 4" using w1 st(3) by (simp add: upd_kern_def hand_over_def upd_msection_def)
  ultimately show ?thesis using u1(1) u3 u5 by auto
qed

text \<open>
  Waiting for a semaphore. A positive value is decremented at once; with the value zero a thread
  that does not want to wait is told so and nothing changes. Otherwise the thread takes its place in
  the queue, last or behind the threads of its own and of higher priority, and begins to wait and
  leaves the section in one step, so that no signal can come in between; what it returns depends on
  how its waiting ended.
\<close>

theorem wait_semaphore_outcome:
  assumes "in_section t (sem_section x) (sem_queue x) xs (kern u)" and "arinc_semaphores u i = x"
    and "may_wait t T (sem_discipline x) xs (kern u)"
  shows "if current_value x > 0
     then wait_semaphore resume i T u = Some (NO_ERROR, upd_sem i (\<lambda>_. x\<lparr>current_value := current_value x - 1\<rparr>) u)
     else if T = 0 then wait_semaphore resume i T u = Some (NOT_AVAILABLE, u)
     else \<exists>k. wait_semaphore resume i T u = do {
            u' \<leftarrow> resume (u\<lparr>kern := k\<rparr>);
            waited (sem_queue x) t (wait_result (threads (kern u') t)) u'
          } \<and> began_to_wait t (sem_section x) (sem_queue x) (queue_place (sem_discipline x) (kern u) t xs) (kern u) k"
proof (cases "current_value x > 0 \<or> T = 0")
  case True
  then show ?thesis using assms(2) by (auto simp: wait_semaphore_def upd_sem_def Let_def)
next
  case False
  then obtain k1 k2 where k: "arinc_process_queue_add_common (sem_queue x) (sem_discipline x) (kern u) = Some k1"
     "jet_msection_wait (sem_section x) (Some T) k1 = Some (LeaveWait t, k2)"
     "began_to_wait t (sem_section x) (sem_queue x) (queue_place (sem_discipline x) (kern u) t xs) (kern u) k2"
    using queue_and_wait [OF assms(1,3)] by blast
  have "kshd_current_thread_id (kern u) = Some t" using assms(1) by (simp add: in_section_def)
  then show ?thesis using False assms(2) k
    by (auto simp: wait_semaphore_def msection_wait_def sys_return_def intro!: exI [of _ k2])
qed

theorem wait_semaphore_outcome_witness:
  "\<exists>k. wait_semaphore Some 0 (-1) example_lib = waited 102 1 (wait_result (threads k 1)) (example_lib\<lparr>kern := k\<rparr>)
     \<and> section_queue k 100 102 [2, 3, 4, 1] \<and> waiting k 1 \<and> owner (msections k 100) = None"
proof -
  have x: "arinc_semaphores example_lib 0 = example_semaphore" "sem_section example_semaphore = 100"
    "sem_queue example_semaphore = 102" "current_value example_semaphore = 0"
    "sem_discipline example_semaphore = POK_QUEUING_DISCIPLINE_FIFO"
    by (simp_all add: example_lib_def example_semaphore_def)
  have sec: "in_section 1 (sem_section example_semaphore) (sem_queue example_semaphore) [2, 3, 4] (kern example_lib)"
    using example_lib_section x by simp
  have m: "may_wait 1 (-1) (sem_discipline example_semaphore) [2, 3, 4] (kern example_lib)"
    unfolding x(5) by (rule example_may_wait)
  show ?thesis
    using wait_semaphore_outcome [OF sec x(1) m, of Some] x by (auto simp: queue_place_def began_to_wait_def)
qed

end
