(* ===== verification/ArincAlloc.thy ===== *)
theory ArincAlloc
  imports Msection
begin

section \<open>Memory of the ARINC library\<close>

text \<open>
  The allocator of \<open>arinc_alloc.c\<close>, from which buffers and blackboards take the memory for their
  messages, and copies inside the memory of the partition. \<open>size_t\<close> and \<open>unsigned long\<close> have 32 bits.
\<close>

definition ALIGN :: "nat \<Rightarrow> nat \<Rightarrow> nat" where
  "ALIGN val align = u32 (ALIGN_VAL val align)"

definition arinc_alloc :: "nat \<Rightarrow> nat \<Rightarrow> libjet \<Rightarrow> nat option \<times> libjet" where
  "arinc_alloc sz alignment u =
     (let size_start = ALIGN (arinc_intra_heap_size_current u) alignment;
          size_end = u32 (size_start + sz)
      in if size_end > arinc_config_messages_memory_size u then (None, u)
      else (Some (arinc_intra_heap u + size_start), u\<lparr>arinc_intra_heap_size_current := size_end\<rparr>))"

definition arinc_allocator_get_state :: "libjet \<Rightarrow> nat" where
  "arinc_allocator_get_state u = arinc_intra_heap_size_current u"

definition arinc_allocator_reset_state :: "nat \<Rightarrow> libjet \<Rightarrow> libjet" where
  "arinc_allocator_reset_state st u = u\<lparr>arinc_intra_heap_size_current := st\<rparr>"

definition copy_user :: "nat \<Rightarrow> nat \<Rightarrow> nat \<Rightarrow> libjet \<Rightarrow> libjet" where
  "copy_user dst src n = upd_kern (\<lambda>k. k\<lparr>umem := memcpy (umem k) dst (mem_read (umem k) src n)\<rparr>)"

subsection \<open>Allocation\<close>

lemma ALIGN_4: "v + 3 < 2 ^ 32 \<Longrightarrow> v \<le> ALIGN v 4 \<and> ALIGN v 4 < v + 4 \<and> 4 dvd ALIGN v 4"
proof -
  assume v: "v + 3 < 2 ^ 32"
  have "ALIGN_VAL v 4 < 2 ^ 32" using v ALIGN_VAL_4_lt [of v] by linarith
  then have "ALIGN v 4 = ALIGN_VAL v 4" by (simp add: ALIGN_def u32_def)
  then show ?thesis using ALIGN_VAL_4_ge ALIGN_VAL_4_lt ALIGN_VAL_4_dvd by simp
qed

text \<open>What the allocator promises for requests that cannot wrap around.\<close>

lemma arinc_alloc_spec:
  assumes "arinc_alloc sz 4 u = (r, u')" "arinc_intra_heap_size_current u \<le> arinc_config_messages_memory_size u"
    "arinc_config_messages_memory_size u + sz + 4 \<le> 2 ^ 32"
  shows "case r of
      None \<Rightarrow> u' = u \<and> arinc_config_messages_memory_size u < arinc_intra_heap_size_current u + sz + 4
    | Some p \<Rightarrow> arinc_intra_heap u + arinc_intra_heap_size_current u \<le> p
        \<and> p + sz = arinc_intra_heap u + arinc_intra_heap_size_current u'
        \<and> arinc_intra_heap_size_current u' \<le> arinc_config_messages_memory_size u \<and> 4 dvd p - arinc_intra_heap u
        \<and> u' = u\<lparr>arinc_intra_heap_size_current := arinc_intra_heap_size_current u'\<rparr>"
proof -
  let ?c = "arinc_intra_heap_size_current u"
  have a: "?c \<le> ALIGN ?c 4" "ALIGN ?c 4 < ?c + 4" "4 dvd ALIGN ?c 4" using ALIGN_4 [of ?c] assms(2,3) by auto
  have "u32 (ALIGN ?c 4 + sz) = ALIGN ?c 4 + sz" using a(2) assms(2,3) by (simp add: u32_def)
  then show ?thesis using assms(1) a by (auto simp: arinc_alloc_def Let_def split: if_splits)
qed

subsection \<open>Copies\<close>

text \<open>Memory that the steps of other threads leave alone.\<close>

definition mem_kept :: "resume \<Rightarrow> nat set \<Rightarrow> bool" where
  "mem_kept resume A \<longleftrightarrow> (\<forall>u u'. resume u = Some u' \<longrightarrow> (\<forall>a \<in> A. umem (kern u') a = umem (kern u) a))"

lemma resume_alone_mem: "mem_kept resume_alone A"
  by (auto simp: mem_kept_def resume_alone_def upd_kern_def)

lemma mem_read_cong: "(\<And>a. p \<le> a \<Longrightarrow> a < p + n \<Longrightarrow> m a = m' a) \<Longrightarrow> mem_read m p n = mem_read m' p n"
  by (simp add: mem_read_def)

lemma copy_user_fields [simp]:
  "umem (kern (copy_user dst src n u)) = memcpy (umem (kern u)) dst (mem_read (umem (kern u)) src n)"
  "tshd (kern (copy_user dst src n u)) = tshd (kern u)" "threads (kern (copy_user dst src n u)) = threads (kern u)"
  "msection_wqs (kern (copy_user dst src n u)) = msection_wqs (kern u)"
  "msections (kern (copy_user dst src n u)) = msections (kern u)"
  "arinc_buffers (copy_user dst src n u) = arinc_buffers u" "arinc_blackboards (copy_user dst src n u) = arinc_blackboards u"
  by (simp_all add: copy_user_def upd_kern_def)

lemma call_good_umem: "call_good (k\<lparr>umem := m\<rparr>) = call_good k"
proof -
  have "same_sched k (k\<lparr>umem := m\<rparr>)" by (simp add: same_sched_def same_thread_def)
  moreover have "chosen (k\<lparr>umem := m\<rparr>) = chosen k" by (rule chosen_cong) simp_all
  ultimately show ?thesis using thr_inv_same [of k "k\<lparr>umem := m\<rparr>"] by (simp add: call_good_def settled_def)
qed

lemma in_section_umem: "in_section cur sec wq xs (k\<lparr>umem := m\<rparr>) = in_section cur sec wq xs k"
  by (simp add: in_section_def call_good_umem section_queue_def wq_list_def ordinary_def)

lemma in_section_copy [simp]: "in_section cur sec wq xs (kern (copy_user dst src n u)) = in_section cur sec wq xs (kern u)"
  by (simp add: copy_user_def upd_kern_def in_section_umem)

text \<open>A change of what a thread leaves in the shared data for the one that wakes it up.\<close>

lemma in_section_shared:
  assumes "\<And>d. wq_next (h d) = wq_next d \<and> wq_prev (h d) = wq_prev d"
  shows "in_section cur sec wq xs (upd_tshd t h k) = in_section cur sec wq xs k"
proof -
  have "wq_seg (tshd (upd_tshd t h k)) p xs q = wq_seg (tshd k) p xs q" for p q
    by (rule wq_seg_cong) (simp add: upd_tshd_def assms)
  then show ?thesis by (simp add: in_section_def upd_tshd_good section_queue_def wq_list_def ordinary_def)
      (simp add: upd_tshd_def)
qed

lemma in_section_len [simp]:
  "in_section cur sec wq xs (upd_tshd t (\<lambda>d. d\<lparr>wq_len := n\<rparr>) k) = in_section cur sec wq xs k"
  "in_section cur sec wq xs (upd_tshd t (\<lambda>d. d\<lparr>wq_buffer := a\<rparr>) k) = in_section cur sec wq xs k"
  "in_section cur sec wq xs (upd_tshd t (\<lambda>d. d\<lparr>wq_buffer := a, wq_len := n\<rparr>) k) = in_section cur sec wq xs k"
  by (simp_all add: in_section_shared)

lemma may_wait_shared:
  assumes "\<And>d. wq_priority (h d) = wq_priority d \<and> msection_count (h d) = msection_count d \<and> tshd_priority (h d) = tshd_priority d"
  shows "may_wait t T disc xs (upd_tshd v h k) = may_wait t T disc xs k"
    "queue_place disc (upd_tshd v h k) t xs = queue_place disc k t xs"
proof -
  have "wq_priority (tshd (upd_tshd v h k) y) = wq_priority (tshd k y)" "msection_count (tshd (upd_tshd v h k) y) = msection_count (tshd k y)"
    "tshd_priority (tshd (upd_tshd v h k) y) = tshd_priority (tshd k y)" for y
    using assms by (simp_all add: upd_tshd_def)
  moreover have "clock (upd_tshd v h k) = clock k" "clock_pos (upd_tshd v h k) = clock_pos k" by (simp_all add: upd_tshd_def)
  ultimately show "may_wait t T disc xs (upd_tshd v h k) = may_wait t T disc xs k"
    "queue_place disc (upd_tshd v h k) t xs = queue_place disc k t xs"
    by (simp_all add: may_wait_def queue_place_def ordinary_def)
qed

text \<open>Threads that wait with a message or with a place for one.\<close>

lemma queue_and_wait_shared:
  assumes "in_section t sec wq xs k" "may_wait t T disc xs k" "T \<noteq> 0"
    "\<And>d. wq_next (h d) = wq_next d \<and> wq_prev (h d) = wq_prev d \<and> wq_priority (h d) = wq_priority d
       \<and> msection_count (h d) = msection_count d \<and> tshd_priority (h d) = tshd_priority d"
  obtains k1 k2 where "arinc_process_queue_add_common wq disc (upd_tshd t h k) = Some k1"
    "jet_msection_wait sec (Some T) k1 = Some (LeaveWait t, k2)"
    "began_to_wait t sec wq (queue_place disc k t xs) (upd_tshd t h k) k2"
proof -
  have "in_section t sec wq xs (upd_tshd t h k)" using assms(1,4) by (simp add: in_section_shared)
  moreover have "may_wait t T disc xs (upd_tshd t h k)" "queue_place disc (upd_tshd t h k) t xs = queue_place disc k t xs"
    using assms(2,4) by (simp_all add: may_wait_shared)
  ultimately show thesis using queue_and_wait [of t sec wq xs "upd_tshd t h k" T disc] assms(3) that by auto
qed

text \<open>A notification by a thread that works with the memory \<open>A\<close>: neither the kernel nor the others
  change it, or what the waiting threads have left in the shared data.\<close>

lemma user_frame_wq:
  "user_frame wq X s s' \<Longrightarrow> wq_buffer (tshd s' t) = wq_buffer (tshd s t) \<and> wq_len (tshd s' t) = wq_len (tshd s t)"
proof -
  assume "user_frame wq X s s'"
  then have "(tshd s' t)\<lparr>wq_next := None, wq_prev := None\<rparr> = (tshd s t)\<lparr>wq_next := None, wq_prev := None\<rparr>"
    by (simp add: user_frame_def)
  then show ?thesis
    by (metis jet_thread_shared_data.select_convs(7,8) jet_thread_shared_data.surjective
        jet_thread_shared_data.update_convs(5,6))
qed

definition notify_done :: "nat \<Rightarrow> nat \<Rightarrow> nat \<Rightarrow> bool \<Rightarrow> nat list \<Rightarrow> nat set \<Rightarrow> libjet \<Rightarrow> libjet \<Rightarrow> bool" where
  "notify_done cur sec wq is_all xs A u u' \<longleftrightarrow>
     in_section cur sec wq (left_queued is_all (kern u) xs) (kern u')
     \<and> (\<forall>t \<in> set (notified is_all (kern u) xs). \<not> waiting (kern u') t \<and> wait_result (threads (kern u') t) = POK_ERRNO_OK)
     \<and> (\<forall>a \<in> A. umem (kern u') a = umem (kern u) a)
     \<and> (\<forall>t \<in> set xs. wq_buffer (tshd (kern u') t) = wq_buffer (tshd (kern u) t)
          \<and> wq_len (tshd (kern u') t) = wq_len (tshd (kern u) t))
     \<and> (\<forall>i. buf_section (arinc_buffers u i) = sec \<longrightarrow> arinc_buffers u' i = arinc_buffers u i)
     \<and> (\<forall>i. bb_section (arinc_blackboards u i) = sec \<longrightarrow> arinc_blackboards u' i = arinc_blackboards u i)
     \<and> (\<forall>i. ev_section (arinc_events u i) = sec \<longrightarrow> arinc_events u' i = arinc_events u i)"

lemma section_notify_mem:
  assumes "in_section cur sec wq xs (kern u)" "section_kept resume sec wq" "mem_kept resume A"
  shows "\<exists>u'. msection_wq_notify resume sec wq is_all u
       = Some (if \<exists>t \<in> set xs. waiting (kern u) t then POK_ERRNO_OK else POK_ERRNO_EMPTY, u')
     \<and> notify_done cur sec wq is_all xs A u u'"
proof -
  let ?b = "upd_base (\<lambda>part. part\<lparr>preempt_local_disabled := True\<rparr>) (kern u)"
  obtain u' k where n: "msection_wq_notify resume sec wq is_all u
       = Some (if \<exists>t \<in> set xs. waiting (kern u) t then POK_ERRNO_OK else POK_ERRNO_EMPTY, u')"
    "in_section cur sec wq (left_queued is_all (kern u) xs) (kern u')" "others_ran sec wq (u\<lparr>kern := k\<rparr>) u'"
    "\<forall>t \<in> set (notified is_all (kern u) xs). \<not> waiting (kern u') t \<and> wait_result (threads (kern u') t) = POK_ERRNO_OK"
    "resume (u\<lparr>kern := k\<rparr>) = Some u'" "user_frame wq (set xs) ?b k"
    using section_notify_frame [OF assms(1,2), of is_all] by blast
  have e: "tshd (kern u') t = tshd k t" if "t \<in> set xs" for t
  proof -
    have "msection_entering (threads k t) = Some sec"
      using that assms(1) n(6) by (auto simp: user_frame_def in_section_def section_queue_def)
    then show ?thesis using n(3) by (simp add: others_ran_def Let_def)
  qed
  have "\<forall>a \<in> A. umem (kern u') a = umem (kern u) a" using assms(3) n(5,6) by (auto simp: mem_kept_def user_frame_def)
  moreover have "\<forall>t \<in> set xs. wq_buffer (tshd (kern u') t) = wq_buffer (tshd (kern u) t)
      \<and> wq_len (tshd (kern u') t) = wq_len (tshd (kern u) t)"
    using e user_frame_wq [OF n(6)] by simp
  ultimately have "notify_done cur sec wq is_all xs A u u'"
    unfolding notify_done_def using n(2-4) by (simp add: others_ran_def Let_def)
  then show ?thesis using n(1) by blast
qed

end
