(* ===== verification/ArincEvent.thy ===== *)
theory ArincEvent
  imports ArincAlloc
begin

section \<open>Events\<close>

text \<open>
  \<open>libpok/arinc653/event.c\<close>. An event that is set wakes up all threads that wait for it; the loop that
  then empties the queue, which \<open>blackboard.c\<close> has too with a delivery to every thread, is
  \<open>wq_drain\<close>.
\<close>

definition upd_ev :: "nat \<Rightarrow> (arinc_event \<Rightarrow> arinc_event) \<Rightarrow> libjet \<Rightarrow> libjet" where
  "upd_ev i f u = u\<lparr>arinc_events := (arinc_events u)(i := f (arinc_events u i))\<rparr>"

definition find_event :: "chars \<Rightarrow> libjet \<Rightarrow> nat option" where
  "find_event name u = find_name (\<lambda>i. event_name (arinc_events u i)) (nevents_used u) name"

definition CREATE_EVENT :: "chars \<Rightarrow> libjet \<Rightarrow> RETURN_CODE_TYPE \<times> nat option \<times> libjet" where
  "CREATE_EVENT name u =
     (if kshd_partition_mode (kern u) = POK_PARTITION_MODE_NORMAL then (INVALID_MODE, None, u)
      else if find_event name u \<noteq> None then (NO_ACTION, None, u)
      else if nevents_used u = arinc_config_nevents u then (INVALID_CONFIG, None, u)
      else let i = nevents_used u;
               u = upd_ev i (\<lambda>x. x\<lparr>event_name := copy_name name (event_name x)\<rparr>) u;
               u = msection_init (ev_section (arinc_events u i)) u;
               u = msection_wq_init (ev_queue (arinc_events u i)) u;
               u = upd_ev i (\<lambda>x. x\<lparr>event_state := DOWN\<rparr>) u
      in (NO_ERROR, Some (i + 1), u\<lparr>nevents_used := i + 1\<rparr>))"

partial_function (option) wq_drain :: "(nat \<Rightarrow> libjet \<Rightarrow> libjet) \<Rightarrow> nat \<Rightarrow> nat \<Rightarrow> libjet \<Rightarrow> libjet option" where
  "wq_drain deliver wq t u =
     (let u = upd_kern (msection_wq_del wq t) (deliver t u)
      in case wq_first (msection_wqs (kern u) wq) of
        None \<Rightarrow> Some u
      | Some t \<Rightarrow> wq_drain deliver wq t u)"

definition set_event :: "resume \<Rightarrow> nat \<Rightarrow> libjet \<Rightarrow> (RETURN_CODE_TYPE \<times> libjet) option" where
  "set_event resume i u = do {
     let u = upd_ev i (\<lambda>x. x\<lparr>event_state := UP\<rparr>) u;
     let wq = ev_queue (arinc_events u i);
     (r, u) \<leftarrow> msection_wq_notify resume (ev_section (arinc_events u i)) wq True u;
     if r = POK_ERRNO_OK then do {
       t \<leftarrow> wq_first (msection_wqs (kern u) wq);
       u \<leftarrow> wq_drain (\<lambda>_ u. u) wq t u;
       Some (NO_ERROR, u)
     } else Some (NO_ERROR, u)
   }"

definition reset_event :: "nat \<Rightarrow> libjet \<Rightarrow> (RETURN_CODE_TYPE \<times> libjet) option" where
  "reset_event i u = Some (NO_ERROR, upd_ev i (\<lambda>x. x\<lparr>event_state := DOWN\<rparr>) u)"

definition wait_event :: "resume \<Rightarrow> nat \<Rightarrow> pok_time \<Rightarrow> libjet \<Rightarrow> (RETURN_CODE_TYPE \<times> libjet) option" where
  "wait_event resume i TIME_OUT u =
     (let x = arinc_events u i
      in if event_state x = UP then Some (NO_ERROR, u)
      else if TIME_OUT = 0 then Some (NOT_AVAILABLE, u)
      else do {
        t \<leftarrow> kshd_current_thread_id (kern u);
        k \<leftarrow> arinc_process_queue_add_common (ev_queue x) POK_QUEUING_DISCIPLINE_PRIORITY (kern u);
        (r, u) \<leftarrow> msection_wait resume (ev_section x) TIME_OUT (u\<lparr>kern := k\<rparr>);
        waited (ev_queue x) t r u
      })"

definition in_event ::
  "resume \<Rightarrow> int \<Rightarrow> (nat \<Rightarrow> libjet \<Rightarrow> (RETURN_CODE_TYPE \<times> libjet) option) \<Rightarrow> libjet \<Rightarrow> (RETURN_CODE_TYPE \<times> libjet) option" where
  "in_event resume EVENT_ID body u =
     (if EVENT_ID \<le> 0 \<or> EVENT_ID > int (nevents_used u) then Some (INVALID_PARAM, u)
      else let i = nat (EVENT_ID - 1)
      in in_its_section resume (ev_section (arinc_events u i)) (body i) u)"

definition SET_EVENT :: "resume \<Rightarrow> int \<Rightarrow> libjet \<Rightarrow> (RETURN_CODE_TYPE \<times> libjet) option" where
  "SET_EVENT resume EVENT_ID = in_event resume EVENT_ID (set_event resume)"

definition RESET_EVENT :: "resume \<Rightarrow> int \<Rightarrow> libjet \<Rightarrow> (RETURN_CODE_TYPE \<times> libjet) option" where
  "RESET_EVENT resume EVENT_ID = in_event resume EVENT_ID reset_event"

definition WAIT_EVENT :: "resume \<Rightarrow> int \<Rightarrow> pok_time \<Rightarrow> libjet \<Rightarrow> (RETURN_CODE_TYPE \<times> libjet) option" where
  "WAIT_EVENT resume EVENT_ID TIME_OUT = in_event resume EVENT_ID (\<lambda>i. wait_event resume i TIME_OUT)"

definition GET_EVENT_ID :: "chars \<Rightarrow> libjet \<Rightarrow> RETURN_CODE_TYPE \<times> nat option" where
  "GET_EVENT_ID name u =
     (case find_event name u of None \<Rightarrow> (INVALID_CONFIG, None) | Some i \<Rightarrow> (NO_ERROR, Some (i + 1)))"

definition GET_EVENT_STATUS ::
  "resume \<Rightarrow> int \<Rightarrow> libjet \<Rightarrow> ((RETURN_CODE_TYPE \<times> (EVENT_STATE_TYPE \<times> nat) option) \<times> libjet) option" where
  "GET_EVENT_STATUS resume EVENT_ID u =
     (if EVENT_ID \<le> 0 \<or> EVENT_ID > int (nevents_used u) then Some ((INVALID_PARAM, None), u)
      else let i = nat (EVENT_ID - 1); sec = ev_section (arinc_events u i)
      in in_its_section resume sec (\<lambda>u. do {
           let st = event_state (arinc_events u i);
           (n, u) \<leftarrow> msection_wq_size resume sec (ev_queue (arinc_events u i)) u;
           Some ((NO_ERROR, Some (st, n)), u)
         }) u)"

subsection \<open>Emptying a queue\<close>

text \<open>A property \<open>P\<close> of the threads still to come and the state, kept by every round, holds at the end,
  when the queue is empty.\<close>

lemma wq_drain_rule:
  assumes "in_section cur sec wq (t # ts) (kern u)" "P (t # ts) u"
    "\<And>t ts u. in_section cur sec wq (t # ts) (kern u) \<Longrightarrow> P (t # ts) u \<Longrightarrow>
       in_section cur sec wq (t # ts) (kern (deliver t u)) \<and> P ts (upd_kern (msection_wq_del wq t) (deliver t u))"
  shows "\<exists>u'. wq_drain deliver wq t u = Some u' \<and> in_section cur sec wq [] (kern u') \<and> P [] u'"
  using assms(1,2)
proof (induction ts arbitrary: t u)
  case Nil
  let ?u = "upd_kern (msection_wq_del wq t) (deliver t u)"
  have "in_section cur sec wq ([] @ t # []) (kern (deliver t u))" "P [] ?u" using assms(3) [OF Nil] by simp_all
  moreover from this have i: "in_section cur sec wq [] (kern ?u)" using section_unlink(1) [of cur sec wq "[]" t "[]"] by (simp add: upd_kern_def)
  moreover have "wq_first (msection_wqs (kern ?u) wq) = None" using i by (simp add: in_section_def section_queue_def wq_list_def)
  ultimately show ?case by (subst wq_drain.simps) (simp add: Let_def)
next
  case (Cons t' ts)
  let ?u = "upd_kern (msection_wq_del wq t) (deliver t u)"
  have "in_section cur sec wq ([] @ t # t' # ts) (kern (deliver t u))" and p: "P (t' # ts) ?u" using assms(3) [OF Cons.prems] by simp_all
  then have i: "in_section cur sec wq (t' # ts) (kern ?u)" using section_unlink(1) [of cur sec wq "[]" t "t' # ts"] by (simp add: upd_kern_def)
  then have "wq_first (msection_wqs (kern ?u) wq) = Some t'" by (simp add: in_section_def section_queue_def wq_list_def)
  then have "wq_drain deliver wq t u = wq_drain deliver wq t' ?u" by (subst wq_drain.simps) (simp add: Let_def)
  then show ?case using Cons.IH [OF i p] by simp
qed

text \<open>What the removal of a thread leaves alone.\<close>

lemma del_frame:
  "threads (msection_wq_del wq t k) = threads k" "umem (msection_wq_del wq t k) = umem k"
  "wq_buffer (tshd (msection_wq_del wq t k) v) = wq_buffer (tshd k v)" "wq_len (tshd (msection_wq_del wq t k) v) = wq_len (tshd k v)"
  by (simp_all add: msection_wq_del_def set_wq_prev_def set_wq_next_def Let_def upd_wq_def upd_tshd_def split: option.split)

subsection \<open>Setting and waiting\<close>

lemma kern_upd_ev [simp]: "kern (upd_ev i f u) = kern u" "arinc_events (upd_ev i f u) i = f (arinc_events u i)"
  by (simp_all add: upd_ev_def)

text \<open>
  C25: setting an event by the thread in its section. The event is up, every thread that waits for it is
  woken up with success, and the queue is empty, whatever had stopped waiting before.
\<close>

theorem set_event_outcome:
  assumes "in_section cur (ev_section x) (ev_queue x) xs (kern u)" and "section_kept resume (ev_section x) (ev_queue x)"
    and "arinc_events u i = x"
  shows "\<exists>u'. set_event resume i u = Some (NO_ERROR, u') \<and> arinc_events u' i = x\<lparr>event_state := UP\<rparr>
     \<and> in_section cur (ev_section x) (ev_queue x) [] (kern u')
     \<and> (\<forall>t \<in> set xs. waiting (kern u) t \<longrightarrow> \<not> waiting (kern u') t \<and> wait_result (threads (kern u') t) = POK_ERRNO_OK)"
proof -
  let ?sec = "ev_section x" and ?wq = "ev_queue x"
  define u0 where "u0 = upd_ev i (\<lambda>x. x\<lparr>event_state := UP\<rparr>) u"
  have e0: "arinc_events u0 i = x\<lparr>event_state := UP\<rparr>" "kern u0 = kern u" using assms(3) by (simp_all add: u0_def)
  obtain v where v: "msection_wq_notify resume ?sec ?wq True u0
       = Some (if \<exists>t \<in> set xs. waiting (kern u) t then POK_ERRNO_OK else POK_ERRNO_EMPTY, v)"
    and d: "notify_done cur ?sec ?wq True xs {} u0 v"
    using section_notify_mem [of cur ?sec ?wq xs u0 resume "{}" True] assms(1,2) e0(2) by (auto simp: mem_kept_def)
  have q: "in_section cur ?sec ?wq (filter (waiting (kern u)) xs) (kern v)" and ev: "arinc_events v i = x\<lparr>event_state := UP\<rparr>"
    and wk: "\<forall>t \<in> set xs. waiting (kern u) t \<longrightarrow> \<not> waiting (kern v) t \<and> wait_result (threads (kern v) t) = POK_ERRNO_OK"
    using d e0 by (auto simp: notify_done_def left_queued_def notified_def)
  show ?thesis
  proof (cases "filter (waiting (kern u)) xs")
    case Nil
    then have "\<not> (\<exists>t \<in> set xs. waiting (kern u) t)" by (simp add: filter_empty_conv)
    then have "set_event resume i u = Some (NO_ERROR, v)"
      using v e0(1) unfolding set_event_def Let_def by (simp flip: u0_def)
    then show ?thesis using q wk ev Nil by auto
  next
    case (Cons w ws)
    then have i: "in_section cur ?sec ?wq (w # ws) (kern v)" using q by simp
    let ?P = "\<lambda>_ y. threads (kern y) = threads (kern v) \<and> arinc_events y i = x\<lparr>event_state := UP\<rparr>"
    obtain u' where u': "wq_drain (\<lambda>_ u. u) ?wq w v = Some u'" "in_section cur ?sec ?wq [] (kern u')" "?P [] u'"
      using wq_drain_rule [OF i, of ?P "\<lambda>_ u. u"] ev by (auto simp: upd_kern_def del_frame)
    have "w \<in> set (filter (waiting (kern u)) xs)" using Cons by simp
    then have "\<exists>t \<in> set xs. waiting (kern u) t" unfolding set_filter by blast
    moreover have "wq_first (msection_wqs (kern v) ?wq) = Some w" using i by (simp add: in_section_def section_queue_def wq_list_def)
    ultimately have "set_event resume i u = Some (NO_ERROR, u')"
      using v e0(1) u'(1) unfolding set_event_def Let_def by (simp flip: u0_def)
    then show ?thesis using u' wk by auto
  qed
qed

theorem set_event_outcome_witness:
  "\<exists>u'. set_event resume_alone 0 (upd_ev 0 (\<lambda>x. x\<lparr>ev_section := 100, ev_queue := 102\<rparr>) example_lib) = Some (NO_ERROR, u')
     \<and> event_state (arinc_events u' 0) = UP \<and> wq_list (kern u') 102 []
     \<and> \<not> waiting (kern u') 3 \<and> \<not> waiting (kern u') 4"
proof -
  let ?u = "upd_ev 0 (\<lambda>x. x\<lparr>ev_section := 100, ev_queue := 102\<rparr>) example_lib" and ?x = "arinc_events example_lib 0\<lparr>ev_section := 100, ev_queue := 102\<rparr>"
  have "in_section 1 (ev_section ?x) (ev_queue ?x) [2, 3, 4] (kern ?u)" using example_lib_section by simp
  moreover have "waiting (kern ?u) 3" "waiting (kern ?u) 4" by (simp_all add: example_lib_def example_section_fields)
  ultimately show ?thesis
    using set_event_outcome [of 1 ?x "[2, 3, 4]" ?u resume_alone 0] resume_alone_kept [of 100 102]
    by (auto simp: in_section_def section_queue_def)
qed

text \<open>Waiting for an event: nothing to wait for, a refusal, or a place in the queue by priority.\<close>

lemma wait_event_outcome:
  assumes "in_section t (ev_section x) (ev_queue x) xs (kern u)" and "arinc_events u i = x"
    and "may_wait t T POK_QUEUING_DISCIPLINE_PRIORITY xs (kern u)"
  shows "if event_state x = UP then wait_event resume i T u = Some (NO_ERROR, u)
     else if T = 0 then wait_event resume i T u = Some (NOT_AVAILABLE, u)
     else \<exists>k. wait_event resume i T u = do {
            u' \<leftarrow> resume (u\<lparr>kern := k\<rparr>);
            waited (ev_queue x) t (wait_result (threads (kern u') t)) u'
          } \<and> began_to_wait t (ev_section x) (ev_queue x) (queue_place POK_QUEUING_DISCIPLINE_PRIORITY (kern u) t xs) (kern u) k"
proof (cases "event_state x = UP \<or> T = 0")
  case True
  then show ?thesis using assms(2) by (auto simp: wait_event_def Let_def)
next
  case False
  then obtain k1 k2 where k: "arinc_process_queue_add_common (ev_queue x) POK_QUEUING_DISCIPLINE_PRIORITY (kern u) = Some k1"
     "jet_msection_wait (ev_section x) (Some T) k1 = Some (LeaveWait t, k2)"
     "began_to_wait t (ev_section x) (ev_queue x) (queue_place POK_QUEUING_DISCIPLINE_PRIORITY (kern u) t xs) (kern u) k2"
    using queue_and_wait [OF assms(1,3)] by blast
  have "kshd_current_thread_id (kern u) = Some t" using assms(1) by (simp add: in_section_def)
  then show ?thesis using False assms(2) k
    by (auto simp: wait_event_def msection_wait_def sys_return_def Let_def intro!: exI [of _ k2])
qed

end
