(* ===== verification/ArincBuffer.thy ===== *)
theory ArincBuffer
  imports ArincAlloc
begin

section \<open>Buffers\<close>

text \<open>
  \<open>libpok/arinc653/buffer.c\<close>: a ring of messages of bounded size in the memory of the partition, in
  which senders wait when it is full and receivers when it is empty, in the same queue. A waiting
  thread leaves the address of its message, or of the place for one, in \<open>wq_buffer\<close>, and whoever wakes
  it up does the copy.
\<close>

definition upd_buf :: "nat \<Rightarrow> (arinc_buffer \<Rightarrow> arinc_buffer) \<Rightarrow> libjet \<Rightarrow> libjet" where
  "upd_buf i f u = u\<lparr>arinc_buffers := (arinc_buffers u)(i := f (arinc_buffers u i))\<rparr>"

definition find_buffer :: "chars \<Rightarrow> libjet \<Rightarrow> nat option" where
  "find_buffer name u = find_name (\<lambda>i. buffer_name (arinc_buffers u i)) (nbuffers_used u) name"

definition message_index :: "arinc_buffer \<Rightarrow> nat \<Rightarrow> nat" where
  "message_index x offset =
     (let res = base_offset x + offset in if res \<ge> buf_max_nb_message x then res - buf_max_nb_message x else res)"

definition message_at :: "arinc_buffer \<Rightarrow> nat \<Rightarrow> nat" where
  "message_at x index = messages x + message_stride x * index"

definition CREATE_BUFFER :: "chars \<Rightarrow> int \<Rightarrow> int \<Rightarrow> int \<Rightarrow> libjet \<Rightarrow> RETURN_CODE_TYPE \<times> nat option \<times> libjet" where
  "CREATE_BUFFER name MAX_MESSAGE_SIZE MAX_NB_MESSAGE QUEUING_DISCIPLINE u =
     (if kshd_partition_mode (kern u) = POK_PARTITION_MODE_NORMAL then (INVALID_MODE, None, u)
      else if find_buffer name u \<noteq> None then (NO_ACTION, None, u)
      else if nbuffers_used u = arinc_config_nbuffers u then (INVALID_CONFIG, None, u)
      else if MAX_MESSAGE_SIZE \<le> 0 \<or> MAX_MESSAGE_SIZE > int SYSTEM_LIMIT_MESSAGE_SIZE then (INVALID_PARAM, None, u)
      else if MAX_NB_MESSAGE \<le> 0 \<or> MAX_NB_MESSAGE > int SYSTEM_LIMIT_NUMBER_OF_MESSAGES then (INVALID_PARAM, None, u)
      else case to_discipline QUEUING_DISCIPLINE of
        None \<Rightarrow> (INVALID_PARAM, None, u)
      | Some d \<Rightarrow>
          let i = nbuffers_used u;
              u = upd_buf i (\<lambda>x. x\<lparr>buf_max_message_size := nat MAX_MESSAGE_SIZE,
                    message_stride := ALIGN (nat MAX_MESSAGE_SIZE) 4, buf_max_nb_message := nat MAX_NB_MESSAGE\<rparr>) u;
              x = arinc_buffers u i;
              astate = arinc_allocator_get_state u;
              (p, u) = arinc_alloc (message_stride x * buf_max_nb_message x) 4 u;
              (q, u) = arinc_alloc (buf_max_nb_message x * 4) 4 u;
              u = upd_buf i (\<lambda>x. x\<lparr>messages := (case p of None \<Rightarrow> 0 | Some a \<Rightarrow> a)\<rparr>) u
          in if p = None \<or> q = None then (INVALID_CONFIG, None, arinc_allocator_reset_state astate u)
          else let
              u = upd_buf i (\<lambda>x. x\<lparr>buffer_name := copy_name name (buffer_name x)\<rparr>) u;
              u = msection_init (buf_section x) u;
              u = msection_wq_init (buf_queue x) u;
              u = upd_buf i (\<lambda>x. x\<lparr>base_offset := 0, buf_discipline := d\<rparr>) u
          in (NO_ERROR, Some (i + 1), u\<lparr>nbuffers_used := i + 1\<rparr>))"

definition send_buffer :: "resume \<Rightarrow> nat \<Rightarrow> nat \<Rightarrow> nat \<Rightarrow> pok_time \<Rightarrow> libjet \<Rightarrow> (RETURN_CODE_TYPE \<times> libjet) option" where
  "send_buffer resume i MESSAGE_ADDR LENGTH TIME_OUT u =
     (let x = arinc_buffers u i; wq = buf_queue x
      in if nb_message x < buf_max_nb_message x then do {
        (r, u) \<leftarrow> msection_wq_notify resume (buf_section x) wq False u;
        if r = POK_ERRNO_OK then do {
          t_awoken \<leftarrow> wq_first (msection_wqs (kern u) wq);
          let dst = wq_buffer (tshd (kern u) t_awoken);
          let u = copy_user dst MESSAGE_ADDR LENGTH u;
          let u = upd_kern (upd_tshd t_awoken (\<lambda>d. d\<lparr>wq_len := LENGTH\<rparr>)) u;
          Some (NO_ERROR, upd_kern (msection_wq_del wq t_awoken) u)
        } else do {
          let x = arinc_buffers u i;
          let index = message_index x (nb_message x);
          let u = copy_user (message_at x index) MESSAGE_ADDR LENGTH u;
          Some (NO_ERROR, upd_buf i (\<lambda>x. x\<lparr>messages_size := (messages_size x)(index := LENGTH),
            nb_message := nb_message x + 1\<rparr>) u)
        }
      }
      else if TIME_OUT = 0 then Some (NOT_AVAILABLE, u)
      else do {
        t \<leftarrow> kshd_current_thread_id (kern u);
        let k = upd_tshd t (\<lambda>d. d\<lparr>wq_buffer := MESSAGE_ADDR, wq_len := LENGTH\<rparr>) (kern u);
        k \<leftarrow> arinc_process_queue_add_common wq (buf_discipline x) k;
        (r, u) \<leftarrow> msection_wait resume (buf_section x) TIME_OUT (u\<lparr>kern := k\<rparr>);
        waited wq t r u
      })"

text \<open>The second component of the result is the value written to \<open>LENGTH\<close>.\<close>

definition receive_buffer ::
  "resume \<Rightarrow> nat \<Rightarrow> pok_time \<Rightarrow> nat \<Rightarrow> libjet \<Rightarrow> ((RETURN_CODE_TYPE \<times> nat) \<times> libjet) option" where
  "receive_buffer resume i TIME_OUT MESSAGE_ADDR u =
     (let x = arinc_buffers u i; wq = buf_queue x
      in if nb_message x > 0 then do {
        let index = message_index x 0;
        let len = messages_size x index;
        let u = copy_user MESSAGE_ADDR (message_at x index) len u;
        let u = upd_buf i (\<lambda>x. x\<lparr>base_offset := message_index x 1, nb_message := nb_message x - 1\<rparr>) u;
        (r, u) \<leftarrow> msection_wq_notify resume (buf_section x) wq False u;
        if r = POK_ERRNO_OK then do {
          t_awoken \<leftarrow> wq_first (msection_wqs (kern u) wq);
          let x = arinc_buffers u i;
          let w_index = message_index x (nb_message x);
          let w_len = wq_len (tshd (kern u) t_awoken);
          let u = copy_user (message_at x w_index) (wq_buffer (tshd (kern u) t_awoken)) w_len u;
          let u = upd_buf i (\<lambda>x. x\<lparr>messages_size := (messages_size x)(w_index := w_len),
            nb_message := nb_message x + 1\<rparr>) u;
          Some ((NO_ERROR, len), upd_kern (msection_wq_del wq t_awoken) u)
        } else Some ((NO_ERROR, len), u)
      }
      else if TIME_OUT = 0 then Some ((NOT_AVAILABLE, 0), u)
      else do {
        t \<leftarrow> kshd_current_thread_id (kern u);
        let k = upd_tshd t (\<lambda>d. d\<lparr>wq_buffer := MESSAGE_ADDR\<rparr>) (kern u);
        k \<leftarrow> arinc_process_queue_add_common wq (buf_discipline x) k;
        (r, u) \<leftarrow> msection_wait resume (buf_section x) TIME_OUT (u\<lparr>kern := k\<rparr>);
        (rc, v) \<leftarrow> waited wq t r u;
        Some ((rc, if r = POK_ERRNO_OK then wq_len (tshd (kern u) t) else 0), v)
      })"

definition SEND_BUFFER :: "resume \<Rightarrow> int \<Rightarrow> nat \<Rightarrow> int \<Rightarrow> pok_time \<Rightarrow> libjet \<Rightarrow> (RETURN_CODE_TYPE \<times> libjet) option" where
  "SEND_BUFFER resume BUFFER_ID MESSAGE_ADDR LENGTH TIME_OUT u =
     (if BUFFER_ID \<le> 0 \<or> BUFFER_ID > int (nbuffers_used u) then Some (INVALID_PARAM, u)
      else let i = nat (BUFFER_ID - 1); x = arinc_buffers u i
      in if LENGTH \<le> 0 \<or> LENGTH > int (buf_max_message_size x) then Some (INVALID_PARAM, u)
      else in_its_section resume (buf_section x) (send_buffer resume i MESSAGE_ADDR (nat LENGTH) TIME_OUT) u)"

definition RECEIVE_BUFFER ::
  "resume \<Rightarrow> int \<Rightarrow> pok_time \<Rightarrow> nat \<Rightarrow> libjet \<Rightarrow> ((RETURN_CODE_TYPE \<times> nat option) \<times> libjet) option" where
  "RECEIVE_BUFFER resume BUFFER_ID TIME_OUT MESSAGE_ADDR u =
     (if BUFFER_ID \<le> 0 \<or> BUFFER_ID > int (nbuffers_used u) then Some ((INVALID_PARAM, None), u)
      else let i = nat (BUFFER_ID - 1)
      in do {
        ((rc, len), u) \<leftarrow> in_its_section resume (buf_section (arinc_buffers u i)) (receive_buffer resume i TIME_OUT MESSAGE_ADDR) u;
        Some ((rc, Some len), u)
      })"

definition GET_BUFFER_ID :: "chars \<Rightarrow> libjet \<Rightarrow> RETURN_CODE_TYPE \<times> nat option" where
  "GET_BUFFER_ID name u =
     (case find_buffer name u of None \<Rightarrow> (INVALID_CONFIG, None) | Some i \<Rightarrow> (NO_ERROR, Some (i + 1)))"

record BUFFER_STATUS_TYPE =
  BUF_NB_MESSAGE :: nat
  BUF_MAX_NB_MESSAGE :: nat
  BUF_MAX_MESSAGE_SIZE :: nat
  BUF_WAITING_PROCESSES :: nat

definition GET_BUFFER_STATUS ::
  "resume \<Rightarrow> int \<Rightarrow> libjet \<Rightarrow> ((RETURN_CODE_TYPE \<times> BUFFER_STATUS_TYPE option) \<times> libjet) option" where
  "GET_BUFFER_STATUS resume BUFFER_ID u =
     (if BUFFER_ID \<le> 0 \<or> BUFFER_ID > int (nbuffers_used u) then Some ((INVALID_PARAM, None), u)
      else let i = nat (BUFFER_ID - 1); sec = buf_section (arinc_buffers u i)
      in in_its_section resume sec (\<lambda>u. do {
           let x = arinc_buffers u i;
           (n, u) \<leftarrow> msection_wq_size resume sec (buf_queue x) u;
           Some ((NO_ERROR, Some \<lparr>BUF_NB_MESSAGE = nb_message x, BUF_MAX_NB_MESSAGE = buf_max_nb_message x,
             BUF_MAX_MESSAGE_SIZE = buf_max_message_size x, BUF_WAITING_PROCESSES = n\<rparr>), u)
         }) u)"

subsection \<open>The ring of messages\<close>

definition buffer_ok :: "arinc_buffer \<Rightarrow> bool" where
  "buffer_ok x \<longleftrightarrow> base_offset x < buf_max_nb_message x \<and> nb_message x \<le> buf_max_nb_message x
     \<and> buf_max_message_size x \<le> message_stride x
     \<and> (\<forall>j < nb_message x. messages_size x (message_index x j) \<le> buf_max_message_size x)"

definition stored :: "mem \<Rightarrow> arinc_buffer \<Rightarrow> nat \<Rightarrow> byte list" where
  "stored m x ix = mem_read m (message_at x ix) (messages_size x ix)"

text \<open>The messages of a buffer, the oldest first, and the memory they may occupy.\<close>

definition contents :: "mem \<Rightarrow> arinc_buffer \<Rightarrow> byte list list" where
  "contents m x = map (\<lambda>j. stored m x (message_index x j)) [0..<nb_message x]"

definition storage :: "arinc_buffer \<Rightarrow> nat set" where
  "storage x = {messages x ..< messages x + message_stride x * buf_max_nb_message x}"

lemma message_index_mod: "base_offset x < buf_max_nb_message x \<Longrightarrow> j \<le> buf_max_nb_message x \<Longrightarrow>
  message_index x j = (base_offset x + j) mod buf_max_nb_message x"
  by (auto simp: message_index_def Let_def mod_if)

lemma message_index_less: "base_offset x < buf_max_nb_message x \<Longrightarrow> j < buf_max_nb_message x \<Longrightarrow>
  message_index x j < buf_max_nb_message x"
  by (auto simp: message_index_def Let_def)

lemma message_index_inj:
  "base_offset x < buf_max_nb_message x \<Longrightarrow> j < buf_max_nb_message x \<Longrightarrow> j' < buf_max_nb_message x \<Longrightarrow>
   message_index x j = message_index x j' \<Longrightarrow> j = j'"
  by (auto simp: message_index_def Let_def split: if_splits)

lemma slots_apart:
  "ix \<noteq> ix' \<Longrightarrow> n \<le> message_stride x \<Longrightarrow> n' \<le> message_stride x \<Longrightarrow>
   message_at x ix + n \<le> message_at x ix' \<or> message_at x ix' + n' \<le> message_at x ix"
proof -
  assume n: "n \<le> message_stride x" "n' \<le> message_stride x" and "ix \<noteq> ix'"
  then consider "Suc ix \<le> ix'" | "Suc ix' \<le> ix" by linarith
  then show ?thesis
  proof cases
    case 1
    then have "message_stride x * Suc ix \<le> message_stride x * ix'" by (rule mult_le_mono2)
    then show ?thesis using n by (simp add: message_at_def)
  next
    case 2
    then have "message_stride x * Suc ix' \<le> message_stride x * ix" by (rule mult_le_mono2)
    then show ?thesis using n by (simp add: message_at_def)
  qed
qed

lemma slot_in_storage:
  assumes "ix < buf_max_nb_message x" "n \<le> message_stride x"
  shows "{message_at x ix ..< message_at x ix + n} \<subseteq> storage x"
proof -
  have "message_stride x * Suc ix \<le> message_stride x * buf_max_nb_message x"
    by (rule mult_le_mono2) (use assms(1) in simp)
  then show ?thesis using assms(2) by (auto simp: storage_def message_at_def)
qed

lemma stored_slot:
  assumes "buffer_ok x" "j < nb_message x"
  shows "message_index x j < buf_max_nb_message x" "messages_size x (message_index x j) \<le> message_stride x"
proof -
  have "j < buf_max_nb_message x" using assms by (simp add: buffer_ok_def)
  then show "message_index x j < buf_max_nb_message x" using assms(1) message_index_less [of x j] by (simp add: buffer_ok_def)
  show "messages_size x (message_index x j) \<le> message_stride x"
    using assms unfolding buffer_ok_def by (metis le_trans)
qed

lemma contents_cong:
  assumes "buffer_ok x" "\<And>a. a \<in> storage x \<Longrightarrow> m a = m' a"
  shows "contents m x = contents m' x"
proof -
  have "stored m x (message_index x j) = stored m' x (message_index x j)" if "j < nb_message x" for j
    unfolding stored_def
    by (rule mem_read_cong) (use slot_in_storage [OF stored_slot [OF assms(1) that]] assms(2) in auto)
  then show ?thesis by (simp add: contents_def)
qed

text \<open>Adding a message at the end, as a sender does and a receiver for a waiting sender.\<close>

definition put_message :: "nat \<Rightarrow> arinc_buffer \<Rightarrow> arinc_buffer" where
  "put_message n x = x\<lparr>messages_size := (messages_size x)(message_index x (nb_message x) := n),
     nb_message := nb_message x + 1\<rparr>"

lemma put_message_index: "message_index (put_message n x) j = message_index x j"
  by (simp add: put_message_def message_index_def Let_def)

lemma put_message_spec:
  assumes "buffer_ok x" "nb_message x < buf_max_nb_message x" "length bs \<le> buf_max_message_size x"
    "m' = memcpy m (message_at x (message_index x (nb_message x))) bs"
  shows "buffer_ok (put_message (length bs) x)" "contents m' (put_message (length bs) x) = contents m x @ [bs]"
proof -
  let ?ix = "message_index x (nb_message x)" and ?y = "put_message (length bs) x"
  have b: "base_offset x < buf_max_nb_message x" "buf_max_message_size x \<le> message_stride x"
    using assms(1) by (simp_all add: buffer_ok_def)
  have ne: "message_index x j \<noteq> ?ix" if "j < nb_message x" for j
    using that message_index_inj [OF b(1), of j "nb_message x"] assms(2) by auto
  have f: "base_offset ?y = base_offset x" "nb_message ?y = Suc (nb_message x)" "buf_max_nb_message ?y = buf_max_nb_message x"
    "buf_max_message_size ?y = buf_max_message_size x" "message_stride ?y = message_stride x"
    "messages_size ?y = (messages_size x)(?ix := length bs)" "message_at ?y = message_at x"
    by (simp_all add: put_message_def message_at_def fun_eq_iff)
  show "buffer_ok ?y"
    using assms(1-3) ne by (auto simp: buffer_ok_def f put_message_index less_Suc_eq)
  have "stored m' ?y (message_index x j) = stored m x (message_index x j)" if "j < nb_message x" for j
  proof -
    note j = stored_slot [OF assms(1) that]
    have "message_at x (message_index x j) + messages_size x (message_index x j) \<le> message_at x ?ix
        \<or> message_at x ?ix + length bs \<le> message_at x (message_index x j)"
      using slots_apart [OF ne [OF that] j(2), of "length bs"] assms(3) b(2) by auto
    then show ?thesis using ne [OF that] by (simp add: stored_def f assms(4) mem_read_memcpy_disj)
  qed
  moreover have "stored m' ?y ?ix = bs" by (simp add: stored_def f assms(4) mem_read_memcpy_same)
  ultimately show "contents m' ?y = contents m x @ [bs]" by (simp add: contents_def f put_message_index)
qed

definition drop_message :: "arinc_buffer \<Rightarrow> arinc_buffer" where
  "drop_message x = x\<lparr>base_offset := message_index x 1, nb_message := nb_message x - 1\<rparr>"

lemma drop_message_index:
  assumes "buffer_ok x" "Suc j \<le> buf_max_nb_message x"
  shows "message_index (drop_message x) j = message_index x (Suc j)"
  using assms by (auto simp: drop_message_def message_index_def buffer_ok_def Let_def)

lemma drop_message_spec:
  assumes "buffer_ok x" "nb_message x > 0"
  shows "buffer_ok (drop_message x)" "contents m x = stored m x (message_index x 0) # contents m (drop_message x)"
proof -
  let ?y = "drop_message x"
  have f: "nb_message ?y = nb_message x - 1" "buf_max_nb_message ?y = buf_max_nb_message x"
    "buf_max_message_size ?y = buf_max_message_size x" "message_stride ?y = message_stride x"
    "messages_size ?y = messages_size x" "message_at ?y = message_at x" "stored m ?y = stored m x"
    by (simp_all add: drop_message_def message_at_def stored_def fun_eq_iff)
  have b: "base_offset ?y < buf_max_nb_message x"
    using assms by (auto simp: drop_message_def buffer_ok_def message_index_def Let_def)
  have i: "message_index ?y j = message_index x (Suc j)" if "j < nb_message x - 1" for j
    using that assms by (intro drop_message_index) (auto simp: buffer_ok_def)
  show "buffer_ok ?y" using assms b i by (auto simp: buffer_ok_def f)
  have "[0..<nb_message x] = 0 # map Suc [0..<nb_message x - 1]"
    using assms(2) by (simp add: upt_conv_Cons map_Suc_upt)
  then show "contents m x = stored m x (message_index x 0) # contents m ?y"
    using i by (simp add: contents_def f)
qed

subsection \<open>An example\<close>

text \<open>The example of \<open>example_lib\<close> with memory that tells addresses apart and a message of thread 3.\<close>

definition example_buffers :: libjet where
  "example_buffers = upd_kern (\<lambda>k. upd_tshd 3 (\<lambda>d. d\<lparr>wq_buffer := 5000, wq_len := 2\<rparr>) (k\<lparr>umem := \<lambda>a. a mod 256\<rparr>)) example_lib"

lemma example_buffers_kern:
  "in_section 1 100 102 [2, 3, 4] (kern example_buffers)"
  "may_wait 1 (-1) POK_QUEUING_DISCIPLINE_FIFO [2, 3, 4] (kern example_buffers)"
  "waiting (kern example_buffers) t \<longleftrightarrow> t = 3 \<or> t = 4" "umem (kern example_buffers) = (\<lambda>a. a mod 256)"
  "wq_buffer (tshd (kern example_buffers) t) = (if t = 3 then 5000 else 0)"
  "wq_len (tshd (kern example_buffers) t) = (if t = 3 then 2 else 0)"
proof -
  show "in_section 1 100 102 [2, 3, 4] (kern example_buffers)"
    using example_lib_section by (simp add: example_buffers_def upd_kern_def in_section_umem)
  have "may_wait 1 (-1) POK_QUEUING_DISCIPLINE_FIFO [2, 3, 4] ((kern example_lib)\<lparr>umem := \<lambda>a. a mod 256\<rparr>)"
    using example_may_wait by (simp add: may_wait_def ordinary_def)
  then show "may_wait 1 (-1) POK_QUEUING_DISCIPLINE_FIFO [2, 3, 4] (kern example_buffers)"
    by (simp add: example_buffers_def upd_kern_def may_wait_shared)
  show "waiting (kern example_buffers) t \<longleftrightarrow> t = 3 \<or> t = 4"
    by (auto simp: example_buffers_def upd_kern_def example_lib_def example_section_fields)
qed (simp_all add: example_buffers_def upd_kern_def upd_tshd_def example_lib_def example_section_def example_arinc_def)

definition example_buffer :: arinc_buffer where
  "example_buffer = arinc_buffers example_lib 0"

lemma example_buffer_fields:
  "buf_max_message_size example_buffer = 4" "buf_max_nb_message example_buffer = 2" "nb_message example_buffer = 0"
  "message_stride example_buffer = 4" "messages example_buffer = 3000" "base_offset example_buffer = 0"
  "buf_discipline example_buffer = POK_QUEUING_DISCIPLINE_FIFO" "buf_section example_buffer = 100"
  "buf_queue example_buffer = 102" "arinc_buffers example_buffers i = example_buffer"
  by (simp_all add: example_buffer_def example_lib_def example_buffers_def upd_kern_def)


subsection \<open>Creation\<close>

lemma kern_upd_buf [simp]: "kern (upd_buf i f u) = kern u" "arinc_buffers (upd_buf i f u) i = f (arinc_buffers u i)"
  by (simp_all add: upd_buf_def)

lemma ALIGN_VAL_le: "v \<le> 8192 \<Longrightarrow> v \<le> ALIGN v 4 \<and> ALIGN v 4 \<le> 8192"
proof -
  assume "v \<le> 8192"
  then have "ALIGN_VAL v 4 \<le> 8192" unfolding ALIGN_VAL_4 by presburger
  then show ?thesis using ALIGN_VAL_4_ge [of v] by (simp add: ALIGN_def u32_def)
qed

definition fresh_buffer :: "chars \<Rightarrow> pok_queuing_discipline \<Rightarrow> nat \<Rightarrow> nat \<Rightarrow> nat \<Rightarrow> arinc_buffer \<Rightarrow> arinc_buffer" where
  "fresh_buffer name d sz nb p x = x\<lparr>buf_max_message_size := sz, message_stride := ALIGN sz 4, buf_max_nb_message := nb,
     messages := p, buffer_name := copy_name name (buffer_name x), base_offset := 0, buf_discipline := d\<rparr>"

lemma create_buffer_spec:
  assumes "CREATE_BUFFER name sz nb disc u = (rc, bid, u')" "rc = NO_ERROR"
    "arinc_intra_heap_size_current u \<le> arinc_config_messages_memory_size u" "arinc_config_messages_memory_size u \<le> 2 ^ 31"
  shows "\<exists>d p. let i = nbuffers_used u; x = fresh_buffer name d (nat sz) (nat nb) p (arinc_buffers u i) in
     to_discipline disc = Some d \<and> 0 < sz \<and> sz \<le> 8192 \<and> 0 < nb \<and> find_buffer name u = None \<and> i \<noteq> arinc_config_nbuffers u
     \<and> kshd_partition_mode (kern u) \<noteq> POK_PARTITION_MODE_NORMAL
     \<and> bid = Some (i + 1) \<and> arinc_buffers u' = (arinc_buffers u)(i := x) \<and> nbuffers_used u' = i + 1
     \<and> storage x \<subseteq> {arinc_intra_heap u + arinc_intra_heap_size_current u ..< arinc_intra_heap u + arinc_intra_heap_size_current u'}
     \<and> arinc_intra_heap_size_current u' \<le> arinc_config_messages_memory_size u
     \<and> kern u' = kern (msection_wq_init (buf_queue x) (msection_init (buf_section x) u))"
proof -
  let ?i = "nbuffers_used u"
  have g: "kshd_partition_mode (kern u) \<noteq> POK_PARTITION_MODE_NORMAL" "find_buffer name u = None"
    "nbuffers_used u \<noteq> arinc_config_nbuffers u" "0 < sz" "sz \<le> 8192" "0 < nb" "nb \<le> 512"
    using assms(1,2) by (auto simp: CREATE_BUFFER_def SYSTEM_LIMIT_MESSAGE_SIZE_def SYSTEM_LIMIT_NUMBER_OF_MESSAGES_def split: if_splits)
  obtain d where d: "to_discipline disc = Some d"
    using assms(1,2) by (auto simp: CREATE_BUFFER_def split: if_splits option.splits)
  define st where "st = ALIGN (nat sz) 4"
  define u1 where "u1 = upd_buf ?i (\<lambda>x. x\<lparr>buf_max_message_size := nat sz, message_stride := st, buf_max_nb_message := nat nb\<rparr>) u"
  obtain p v where p: "arinc_alloc (st * nat nb) 4 u1 = (p, v)" by fastforce
  obtain q w where q: "arinc_alloc (nat nb * 4) 4 v = (q, w)" by fastforce
  have c: "CREATE_BUFFER name sz nb disc u = (let u = upd_buf ?i (\<lambda>x. x\<lparr>messages := (case p of None \<Rightarrow> 0 | Some a \<Rightarrow> a)\<rparr>) w
      in if p = None \<or> q = None then (INVALID_CONFIG, None, arinc_allocator_reset_state (arinc_allocator_get_state u1) u)
      else let u = upd_buf ?i (\<lambda>x. x\<lparr>buffer_name := copy_name name (buffer_name x)\<rparr>) u;
              u = msection_init (buf_section (arinc_buffers u1 ?i)) u;
              u = msection_wq_init (buf_queue (arinc_buffers u1 ?i)) u;
              u = upd_buf ?i (\<lambda>x. x\<lparr>base_offset := 0, buf_discipline := d\<rparr>) u
          in (NO_ERROR, Some (?i + 1), u\<lparr>nbuffers_used := ?i + 1\<rparr>))"
    using g d p q unfolding u1_def st_def
    by (simp add: CREATE_BUFFER_def SYSTEM_LIMIT_MESSAGE_SIZE_def SYSTEM_LIMIT_NUMBER_OF_MESSAGES_def Let_def)
  obtain a b where ab: "p = Some a" "q = Some b" using assms(1,2) c by (auto simp: Let_def split: if_splits)
  have "st * nat nb \<le> 8192 * 512" using ALIGN_VAL_le [of "nat sz"] g(5,7) unfolding st_def by (intro mult_le_mono) auto
  then have pv: "arinc_intra_heap u + arinc_intra_heap_size_current u \<le> a"
    "a + st * nat nb = arinc_intra_heap u + arinc_intra_heap_size_current v"
    "arinc_intra_heap_size_current v \<le> arinc_config_messages_memory_size u"
    "v = u1\<lparr>arinc_intra_heap_size_current := arinc_intra_heap_size_current v\<rparr>"
    using arinc_alloc_spec [OF p] assms(3,4) ab(1) by (auto simp: u1_def upd_buf_def)
  have f: "arinc_intra_heap v = arinc_intra_heap u" "arinc_config_messages_memory_size v = arinc_config_messages_memory_size u"
    "arinc_buffers v = arinc_buffers u1" "kern v = kern u"
    by (subst pv(4), simp add: u1_def upd_buf_def)+
  have "nat nb * 4 \<le> 2048" using g(7) by simp
  then have s: "arinc_intra_heap u + arinc_intra_heap_size_current v \<le> b"
    "b + nat nb * 4 = arinc_intra_heap u + arinc_intra_heap_size_current w"
    "arinc_intra_heap_size_current w \<le> arinc_config_messages_memory_size u"
    "w = v\<lparr>arinc_intra_heap_size_current := arinc_intra_heap_size_current w\<rparr>"
    using arinc_alloc_spec [OF q] f pv(3) assms(4) ab(2) by auto
  have qw: "arinc_intra_heap_size_current v \<le> arinc_intra_heap_size_current w"
    "arinc_intra_heap_size_current w \<le> arinc_config_messages_memory_size u"
    using s(1-3) by linarith+
  have fw: "arinc_buffers w = arinc_buffers u1" "kern w = kern u" by (subst s(4), simp add: f)+
  let ?x = "fresh_buffer name d (nat sz) (nat nb) a (arinc_buffers u ?i)"
  have r: "u' = upd_buf ?i (\<lambda>x. x\<lparr>base_offset := 0, buf_discipline := d\<rparr>)
      (msection_wq_init (buf_queue ?x) (msection_init (buf_section ?x)
        (upd_buf ?i (\<lambda>x. x\<lparr>buffer_name := copy_name name (buffer_name x)\<rparr>)
          (upd_buf ?i (\<lambda>x. x\<lparr>messages := a\<rparr>) w))))\<lparr>nbuffers_used := ?i + 1\<rparr>" "bid = Some (?i + 1)"
    using assms(1,2) c ab by (auto simp: Let_def fresh_buffer_def u1_def)
  have "arinc_buffers u' = (arinc_buffers u)(?i := ?x)"
    unfolding r(1) by (simp add: upd_buf_def msection_wq_init_def msection_init_def upd_kern_def fw)
      (simp add: u1_def upd_buf_def fresh_buffer_def st_def fun_eq_iff)
  moreover have "kern u' = kern (msection_wq_init (buf_queue ?x) (msection_init (buf_section ?x) u))"
    unfolding r(1) by (simp add: upd_buf_def msection_wq_init_def msection_init_def upd_kern_def fw)
  moreover have "nbuffers_used u' = ?i + 1" "arinc_intra_heap_size_current u' = arinc_intra_heap_size_current w"
    unfolding r(1) by (simp_all add: upd_buf_def msection_wq_init_def msection_init_def upd_kern_def)
  moreover have "storage ?x = {a ..< a + st * nat nb}" by (simp add: storage_def fresh_buffer_def st_def)
  moreover have "{a ..< a + st * nat nb} \<subseteq> {arinc_intra_heap u + arinc_intra_heap_size_current u ..< arinc_intra_heap u + arinc_intra_heap_size_current w}"
    using pv(1,2) qw(1) by auto
  ultimately show ?thesis using g d qw(2) r(2) unfolding Let_def by (intro exI [of _ d] exI [of _ a]) simp
qed

text \<open>
  \<open>CREATE_BUFFER\<close>. A refused call creates nothing. A successful one creates an empty buffer with the
  next identifier, which \<open>GET_BUFFER_ID\<close> then returns for the name; its messages lie in a part of the
  heap of the library that no earlier object has, its section is free and its queue empty, and the
  buffers created before are not touched. The number of messages is never set: it is the zero that the
  memory starts with.
\<close>

theorem create_buffer_outcome:
  assumes "CREATE_BUFFER name sz nb disc u = (rc, bid, u')"
    and "arinc_intra_heap_size_current u \<le> arinc_config_messages_memory_size u" and "arinc_config_messages_memory_size u \<le> 2 ^ 31"
    and "nb_message (arinc_buffers u (nbuffers_used u)) = 0"
  shows "case bid of
      None \<Rightarrow> rc \<noteq> NO_ERROR \<and> nbuffers_used u' = nbuffers_used u \<and> kern u' = kern u
        \<and> arinc_intra_heap_size_current u' = arinc_intra_heap_size_current u
        \<and> (\<forall>i < nbuffers_used u. arinc_buffers u' i = arinc_buffers u i)
    | Some n \<Rightarrow> rc = NO_ERROR \<and> n = nbuffers_used u + 1 \<and> nbuffers_used u' = n \<and> GET_BUFFER_ID name u = (INVALID_CONFIG, None)
        \<and> GET_BUFFER_ID name u' = (NO_ERROR, Some n) \<and> (\<forall>i < nbuffers_used u. arinc_buffers u' i = arinc_buffers u i)
        \<and> (let x = arinc_buffers u' (n - 1) in
             buffer_ok x \<and> contents (umem (kern u')) x = [] \<and> buf_max_message_size x = nat sz \<and> buf_max_nb_message x = nat nb
             \<and> storage x \<subseteq> {arinc_intra_heap u + arinc_intra_heap_size_current u ..< arinc_intra_heap u + arinc_intra_heap_size_current u'}
             \<and> arinc_intra_heap_size_current u' \<le> arinc_config_messages_memory_size u
             \<and> owner (msections (kern u') (buf_section x)) = None \<and> wq_list (kern u') (buf_queue x) [])"
proof (cases "rc = NO_ERROR")
  case False
  then show ?thesis using assms(1)
    by (auto simp: CREATE_BUFFER_def arinc_alloc_def arinc_allocator_get_state_def arinc_allocator_reset_state_def upd_buf_def Let_def
        split: if_splits option.splits prod.splits)
next
  case True
  let ?i = "nbuffers_used u"
  obtain d p where s: "0 < sz" "sz \<le> 8192" "0 < nb" "find_buffer name u = None" "bid = Some (?i + 1)" "nbuffers_used u' = ?i + 1"
    "arinc_intra_heap_size_current u' \<le> arinc_config_messages_memory_size u"
    and x: "arinc_buffers u' = (arinc_buffers u)(?i := fresh_buffer name d (nat sz) (nat nb) p (arinc_buffers u ?i))"
    and st: "storage (fresh_buffer name d (nat sz) (nat nb) p (arinc_buffers u ?i))
       \<subseteq> {arinc_intra_heap u + arinc_intra_heap_size_current u ..< arinc_intra_heap u + arinc_intra_heap_size_current u'}"
    and k: "kern u' = kern (msection_wq_init (buf_queue (fresh_buffer name d (nat sz) (nat nb) p (arinc_buffers u ?i)))
       (msection_init (buf_section (fresh_buffer name d (nat sz) (nat nb) p (arinc_buffers u ?i))) u))"
    using create_buffer_spec [OF assms(1) True assms(2,3)] unfolding Let_def by blast
  let ?x = "fresh_buffer name d (nat sz) (nat nb) p (arinc_buffers u ?i)"
  have ok: "buffer_ok ?x" using s(1-3) ALIGN_VAL_le [of "nat sz"] assms(4) by (auto simp: buffer_ok_def fresh_buffer_def)
  have "find_buffer name u' = Some ?i"
    using find_name_created [of "\<lambda>i. buffer_name (arinc_buffers u i)" ?i name "\<lambda>i. buffer_name (arinc_buffers u' i)" "buffer_name (arinc_buffers u ?i)"]
      s(4,6) by (simp add: find_buffer_def x fresh_buffer_def)
  moreover have "owner (msections (kern u') (buf_section ?x)) = None" "wq_list (kern u') (buf_queue ?x) []"
    unfolding k by (simp_all add: msection_wq_init_def msection_init_def upd_kern_def upd_msection_def upd_wq_def wq_list_def)
  moreover have "contents m ?x = []" for m using assms(4) by (simp add: contents_def fresh_buffer_def)
  moreover have "buf_max_message_size ?x = nat sz" "buf_max_nb_message ?x = nat nb" by (simp_all add: fresh_buffer_def)
  ultimately show ?thesis using True s(4-7) x ok st by (simp add: GET_BUFFER_ID_def)
qed

theorem create_buffer_outcome_witness:
  "\<exists>u'. CREATE_BUFFER (\<lambda>i. if i = 0 then 66 else 0) 5 2 0
       (example_buffers\<lparr>nbuffers_used := 0, kern := (kern example_buffers)\<lparr>kshd_partition_mode := POK_PARTITION_MODE_INIT_COLD\<rparr>\<rparr>)
       = (NO_ERROR, Some 1, u') \<and> GET_BUFFER_ID (\<lambda>i. if i = 0 then 66 else 0) u' = (NO_ERROR, Some 1)
     \<and> storage (arinc_buffers u' 0) \<subseteq> {3000 ..< 5000}"
proof -
  let ?n = "\<lambda>i::nat. if i = 0 then 66 else 0 :: int"
  let ?u = "example_buffers\<lparr>nbuffers_used := 0, kern := (kern example_buffers)\<lparr>kshd_partition_mode := POK_PARTITION_MODE_INIT_COLD\<rparr>\<rparr>"
  obtain rc b u' where c: "CREATE_BUFFER ?n 5 2 0 ?u = (rc, b, u')" using prod_cases3 by blast
  have al: "ALIGN 5 4 = 8" "ALIGN 0 4 = 0" "ALIGN 16 4 = 16" by (simp_all add: ALIGN_def ALIGN_VAL_4 u32_def)
  have h: "arinc_intra_heap ?u = 3000" "arinc_intra_heap_size_current ?u = 0" "arinc_config_messages_memory_size ?u = 2000"
    "nb_message (arinc_buffers ?u (nbuffers_used ?u)) = 0" "nbuffers_used ?u = 0"
    using example_buffer_fields(3,10) by (simp_all add: example_buffers_def upd_kern_def example_lib_def)
  have "fst (CREATE_BUFFER ?n 5 2 0 ?u) = NO_ERROR"
    by (simp add: CREATE_BUFFER_def find_buffer_def find_name_def to_discipline_def SYSTEM_LIMIT_MESSAGE_SIZE_def
        SYSTEM_LIMIT_NUMBER_OF_MESSAGES_def arinc_alloc_def upd_buf_def al Let_def u32_def)
      (simp add: example_buffers_def upd_kern_def example_lib_def al)
  then show ?thesis using create_buffer_outcome [OF c] c h by (auto split: option.splits simp: Let_def)
qed

subsection \<open>Sending\<close>

lemma contents_put:
  assumes "buffer_ok x" "nb_message x < buf_max_nb_message x" "n \<le> buf_max_message_size x"
  shows "contents (memcpy m (message_at x (message_index x (nb_message x))) (mem_read m' a n)) (put_message n x)
     = contents m x @ [mem_read m' a n]" "buffer_ok (put_message n x)"
  using put_message_spec [OF assms(1,2), of "mem_read m' a n"] assms(3) by simp_all

text \<open>The first waiting thread after a notification, and the queue once it is taken out.\<close>

lemma first_waiting:
  assumes "in_section cur sec wq (left_queued False k xs) k1" "filter (waiting k) xs = w # ws"
  obtains qs where "wq_first (msection_wqs k1 wq) = Some w" "w \<in> set xs" "waiting k w" "w \<in> set (notified False k xs)"
    "in_section cur sec wq qs (msection_wq_del wq w k1)" "filter (waiting k) qs = ws"
    "threads (msection_wq_del wq w k1) = threads k1"
    "user_frame wq (set (w # qs)) k1 (msection_wq_del wq w k1)"
proof -
  obtain qs where q: "left_queued False k xs = w # qs" "notified False k xs = [w]" "filter (waiting k) qs = ws"
    using notified_one [OF assms(2)] by blast
  have "w \<in> set (filter (waiting k) xs)" using assms(2) by simp
  then have w: "w \<in> set xs" "waiting k w" unfolding set_filter by blast+
  have i: "in_section cur sec wq ([] @ w # qs) k1" using assms(1) q(1) by simp
  note d = section_unlink [OF i]
  have "wq_first (msection_wqs k1 wq) = Some w" using i by (simp add: in_section_def section_queue_def wq_list_def)
  then show thesis using that w q d by simp
qed

lemma send_spec:
  assumes "in_section cur (buf_section x) (buf_queue x) xs (kern u)" "section_kept resume (buf_section x) (buf_queue x)"
    "mem_kept resume (storage x \<union> {a ..< a + n})" "arinc_buffers u i = x" "buffer_ok x" "n \<le> buf_max_message_size x"
    "nb_message x < buf_max_nb_message x"
    "\<And>w. w \<in> set xs \<Longrightarrow> waiting (kern u) w \<Longrightarrow>
       {wq_buffer (tshd (kern u) w) ..< wq_buffer (tshd (kern u) w) + n} \<inter> storage x = {}"
  shows "\<exists>u'. send_buffer resume i a n T u = Some (NO_ERROR, u') \<and>
     (case filter (waiting (kern u)) xs of
        [] \<Rightarrow> arinc_buffers u' i = put_message n x \<and> in_section cur (buf_section x) (buf_queue x) [] (kern u')
          \<and> contents (umem (kern u')) (put_message n x) = contents (umem (kern u)) x @ [mem_read (umem (kern u)) a n]
      | w # ws \<Rightarrow> arinc_buffers u' i = x \<and> contents (umem (kern u')) x = contents (umem (kern u)) x
          \<and> \<not> waiting (kern u') w \<and> wait_result (threads (kern u') w) = POK_ERRNO_OK \<and> wq_len (tshd (kern u') w) = n
          \<and> mem_read (umem (kern u')) (wq_buffer (tshd (kern u) w)) n = mem_read (umem (kern u)) a n
          \<and> (\<exists>qs. in_section cur (buf_section x) (buf_queue x) qs (kern u') \<and> filter (waiting (kern u)) qs = ws))"
proof -
  let ?sec = "buf_section x" and ?wq = "buf_queue x"
  obtain v where v0: "msection_wq_notify resume ?sec ?wq False u
       = Some (if \<exists>t \<in> set xs. waiting (kern u) t then POK_ERRNO_OK else POK_ERRNO_EMPTY, v)"
    and d: "notify_done cur ?sec ?wq False xs (storage x \<union> {a ..< a + n}) u v"
    using section_notify_mem [OF assms(1-3), of False] by blast
  note v = v0 d [unfolded notify_done_def, THEN conjunct1] d [unfolded notify_done_def, THEN conjunct2, THEN conjunct1, rule_format]
  have v4: "umem (kern v) b = umem (kern u) b" if "b \<in> storage x \<union> {a ..< a + n}" for b
    using d that by (simp add: notify_done_def)
  have v5: "wq_buffer (tshd (kern v) t) = wq_buffer (tshd (kern u) t)" if "t \<in> set xs" for t
    using d that by (simp add: notify_done_def)
  have v6: "arinc_buffers v i = x" using d assms(4) by (simp add: notify_done_def)
  have msg: "mem_read (umem (kern v)) a n = mem_read (umem (kern u)) a n" by (rule mem_read_cong) (use v4 in auto)
  have old: "contents (umem (kern v)) x = contents (umem (kern u)) x"
    by (rule contents_cong [OF assms(5)]) (use v4 in auto)
  show ?thesis
  proof (cases "filter (waiting (kern u)) xs")
    case Nil
    then have "\<not> (\<exists>t \<in> set xs. waiting (kern u) t)" by (simp add: filter_empty_conv)
    moreover define ix where "ix = message_index x (nb_message x)"
    moreover define u' where "u' = upd_buf i (\<lambda>x. x\<lparr>messages_size := (messages_size x)(ix := n),
        nb_message := nb_message x + 1\<rparr>) (copy_user (message_at x ix) a n v)"
    ultimately have "send_buffer resume i a n T u = Some (NO_ERROR, u')"
      using v(1) v6 assms(4,7) by (simp add: send_buffer_def Let_def)
    moreover have "arinc_buffers u' i = put_message n x" using v6 by (simp add: u'_def put_message_def ix_def)
    moreover have "in_section cur ?sec ?wq [] (kern u')"
      using v(2) notified_none [OF Nil, of False] by (simp add: u'_def)
    moreover have "contents (umem (kern u')) (put_message n x) = contents (umem (kern u)) x @ [mem_read (umem (kern u)) a n]"
      using contents_put(1) [OF assms(5,7,6), of "umem (kern v)" "umem (kern v)" a] old msg by (simp add: u'_def ix_def)
    ultimately show ?thesis unfolding Nil list.case by blast
  next
    case (Cons w ws)
    obtain w: "wq_first (msection_wqs (kern v) ?wq) = Some w" "w \<in> set xs" "waiting (kern u) w"
      "w \<in> set (notified False (kern u) xs)" by (rule first_waiting [OF v(2) Cons])
    define dst where "dst = wq_buffer (tshd (kern u) w)"
    define v1 where "v1 = upd_kern (upd_tshd w (\<lambda>d. d\<lparr>wq_len := n\<rparr>)) (copy_user dst a n v)"
    have "in_section cur ?sec ?wq (left_queued False (kern u) xs) (kern v1)"
      using v(2) by (simp add: v1_def upd_kern_def)
    then obtain qs where q: "in_section cur ?sec ?wq qs (msection_wq_del ?wq w (kern v1))" "filter (waiting (kern u)) qs = ws"
      "threads (msection_wq_del ?wq w (kern v1)) = threads (kern v1)"
      "user_frame ?wq (set (w # qs)) (kern v1) (msection_wq_del ?wq w (kern v1))"
      by (rule first_waiting [OF _ Cons])
    let ?u = "upd_kern (msection_wq_del ?wq w) v1"
    have "\<exists>t \<in> set xs. waiting (kern u) t" using w(2,3) by blast
    then have eq: "send_buffer resume i a n T u = Some (NO_ERROR, ?u)"
      using v(1) v6 v5 [OF w(2)] assms(4,7) w(1) by (simp add: send_buffer_def Let_def v1_def dst_def)
    have m: "umem (kern ?u) = memcpy (umem (kern v)) dst (mem_read (umem (kern u)) a n)"
      using q(4) msg by (simp add: user_frame_def upd_kern_def) (simp add: v1_def upd_kern_def upd_tshd_def)
    then have r: "mem_read (umem (kern ?u)) dst n = mem_read (umem (kern u)) a n"
      using mem_read_memcpy_same [of _ dst "mem_read (umem (kern u)) a n"] by simp
    have c: "contents (umem (kern ?u)) x = contents (umem (kern u)) x"
      unfolding m old [symmetric]
      by (rule contents_cong [OF assms(5)]) (use assms(8) [OF w(2,3)] in \<open>auto simp: memcpy_def dst_def\<close>)
    have l: "wq_len (tshd (kern ?u) w) = n"
      using user_frame_wq [OF q(4), of w] by (simp add: upd_kern_def) (simp add: v1_def upd_kern_def upd_tshd_def)
    have t: "threads (kern ?u) = threads (kern v)" using q(3) by (simp add: v1_def upd_kern_def)
    have x: "arinc_buffers ?u i = x" using v6 by (simp add: v1_def upd_kern_def copy_user_def)
    have s: "in_section cur ?sec ?wq qs (kern ?u)" using q(1) by (simp add: upd_kern_def)
    show ?thesis unfolding Cons list.case
      by (rule exI [of _ ?u], intro conjI exI [of _ qs])
        (simp_all only: eq x c t v(3) [OF w(4)] l r [unfolded dst_def] s q(2) simp_thms)
  qed
qed

subsection \<open>Receiving\<close>

text \<open>The memory of the messages of the threads \<open>xs\<close>.\<close>

definition outgoing :: "arinc \<Rightarrow> nat \<Rightarrow> nat set" where
  "outgoing k t = {wq_buffer (tshd k t) ..< wq_buffer (tshd k t) + wq_len (tshd k t)}"

abbreviation sent_message :: "arinc \<Rightarrow> nat \<Rightarrow> byte list" where
  "sent_message k t \<equiv> mem_read (umem k) (wq_buffer (tshd k t)) (wq_len (tshd k t))"

lemma drop_message_fields [simp]:
  "storage (drop_message x) = storage x" "buf_section (drop_message x) = buf_section x" "buf_queue (drop_message x) = buf_queue x"
  "buf_max_nb_message (drop_message x) = buf_max_nb_message x" "buf_max_message_size (drop_message x) = buf_max_message_size x"
  by (simp_all add: drop_message_def storage_def)

text \<open>A receiver that finds a message: what stands between taking it and the end of the notification.\<close>

definition take_first :: "nat \<Rightarrow> nat \<Rightarrow> arinc_buffer \<Rightarrow> libjet \<Rightarrow> libjet" where
  "take_first i a x u = upd_buf i (\<lambda>x. x\<lparr>base_offset := message_index x 1, nb_message := nb_message x - 1\<rparr>)
     (copy_user a (message_at x (message_index x 0)) (messages_size x (message_index x 0)) u)"

lemma receive_notify:
  assumes "in_section cur (buf_section x) (buf_queue x) xs (kern u)" "section_kept resume (buf_section x) (buf_queue x)"
    "mem_kept resume (storage x \<union> {a ..< a + n} \<union> (\<Union>t \<in> set xs. outgoing (kern u) t))"
    "arinc_buffers u i = x" "buffer_ok x" "nb_message x > 0" "n = messages_size x (message_index x 0)"
    "{a ..< a + n} \<inter> storage x = {}"
    "\<And>w. w \<in> set xs \<Longrightarrow> waiting (kern u) w \<Longrightarrow>
       wq_len (tshd (kern u) w) \<le> buf_max_message_size x \<and> outgoing (kern u) w \<inter> {a ..< a + n} = {}"
  shows "\<exists>v. msection_wq_notify resume (buf_section x) (buf_queue x) False (take_first i a x u)
       = Some (if \<exists>t \<in> set xs. waiting (kern u) t then POK_ERRNO_OK else POK_ERRNO_EMPTY, v)
     \<and> in_section cur (buf_section x) (buf_queue x) (left_queued False (kern u) xs) (kern v) \<and> arinc_buffers v i = drop_message x
     \<and> (\<forall>t \<in> set xs. wq_buffer (tshd (kern v) t) = wq_buffer (tshd (kern u) t) \<and> wq_len (tshd (kern v) t) = wq_len (tshd (kern u) t))
     \<and> (\<forall>t \<in> set (notified False (kern u) xs). \<not> waiting (kern v) t \<and> wait_result (threads (kern v) t) = POK_ERRNO_OK)
     \<and> contents (umem (kern v)) (drop_message x) = contents (umem (kern u)) (drop_message x)
     \<and> mem_read (umem (kern v)) a n = stored (umem (kern u)) x (message_index x 0)
     \<and> (\<forall>t \<in> set xs. waiting (kern u) t \<longrightarrow>
          mem_read (umem (kern v)) (wq_buffer (tshd (kern u) t)) (wq_len (tshd (kern u) t)) = sent_message (kern u) t)"
proof -
  let ?sec = "buf_section x" and ?wq = "buf_queue x" and ?x = "drop_message x"
  let ?A = "storage x \<union> {a ..< a + n} \<union> (\<Union>t \<in> set xs. outgoing (kern u) t)" and ?u1 = "take_first i a x u"
  have u1: "arinc_buffers ?u1 i = ?x" "umem (kern ?u1) = memcpy (umem (kern u)) a (stored (umem (kern u)) x (message_index x 0))"
    "tshd (kern ?u1) = tshd (kern u)" "threads (kern ?u1) = threads (kern u)"
    using assms(4,7) by (simp_all add: take_first_def drop_message_def stored_def)
  note dr = drop_message_spec [OF assms(5,6)]
  have s1: "in_section cur ?sec ?wq xs (kern ?u1)" using assms(1) by (simp add: take_first_def)
  obtain v where v: "msection_wq_notify resume ?sec ?wq False ?u1
       = Some (if \<exists>t \<in> set xs. waiting (kern u) t then POK_ERRNO_OK else POK_ERRNO_EMPTY, v)"
    and d: "notify_done cur ?sec ?wq False xs ?A ?u1 v"
    using section_notify_mem [OF s1 assms(2,3), of False] unfolding u1(4) by blast
  have q: "in_section cur ?sec ?wq (left_queued False (kern u) xs) (kern v)"
    using d by (simp add: notify_done_def left_queued_def u1(4))
  have w5: "wq_buffer (tshd (kern v) t) = wq_buffer (tshd (kern u) t) \<and> wq_len (tshd (kern v) t) = wq_len (tshd (kern u) t)"
    if "t \<in> set xs" for t using d that by (simp add: notify_done_def u1(3))
  have bv: "arinc_buffers v i = ?x" using d u1(1) by (simp add: notify_done_def)
  have len: "length (stored (umem (kern u)) x (message_index x 0)) = n" using assms(7) by (simp add: stored_def)
  have st: "umem (kern v) b = umem (kern u) b" if "b \<in> storage x" for b
  proof -
    have "umem (kern v) b = umem (kern ?u1) b" using d that by (simp add: notify_done_def)
    then show ?thesis using that assms(8) len by (auto simp: u1(2) memcpy_def)
  qed
  have out: "umem (kern v) b = umem (kern u) b" if "t \<in> set xs" "waiting (kern u) t" "b \<in> outgoing (kern u) t" for b t
  proof -
    have "umem (kern v) b = umem (kern ?u1) b" using d that by (auto simp: notify_done_def)
    then show ?thesis using that assms(9) [OF that(1,2)] len by (auto simp: u1(2) memcpy_def)
  qed
  have got: "mem_read (umem (kern v)) a n = stored (umem (kern u)) x (message_index x 0)"
  proof -
    have "mem_read (umem (kern v)) a n = mem_read (umem (kern ?u1)) a n"
      by (rule mem_read_cong) (use d in \<open>auto simp: notify_done_def\<close>)
    then show ?thesis using mem_read_memcpy_same [of "umem (kern u)" a "stored (umem (kern u)) x (message_index x 0)"] len u1(2) by simp
  qed
  have cv: "contents (umem (kern v)) ?x = contents (umem (kern u)) ?x" by (rule contents_cong [OF dr(1)]) (use st in simp)
  have wk: "\<forall>t \<in> set (notified False (kern u) xs). \<not> waiting (kern v) t \<and> wait_result (threads (kern v) t) = POK_ERRNO_OK"
    using d by (simp add: notify_done_def notified_def u1(4))
  have "mem_read (umem (kern v)) (wq_buffer (tshd (kern u) t)) (wq_len (tshd (kern u) t)) = sent_message (kern u) t"
    if "t \<in> set xs" "waiting (kern u) t" for t
    by (rule mem_read_cong) (use out [OF that] in \<open>simp add: outgoing_def\<close>)
  then show ?thesis using v q w5 bv cv got wk by blast
qed

lemma receive_spec:
  assumes "in_section cur (buf_section x) (buf_queue x) xs (kern u)" "section_kept resume (buf_section x) (buf_queue x)"
    "mem_kept resume (storage x \<union> {a ..< a + n} \<union> (\<Union>t \<in> set xs. outgoing (kern u) t))"
    "arinc_buffers u i = x" "buffer_ok x" "nb_message x > 0" "n = messages_size x (message_index x 0)"
    "{a ..< a + n} \<inter> storage x = {}"
    "\<And>w. w \<in> set xs \<Longrightarrow> waiting (kern u) w \<Longrightarrow>
       wq_len (tshd (kern u) w) \<le> buf_max_message_size x \<and> outgoing (kern u) w \<inter> {a ..< a + n} = {}"
  shows "\<exists>u' rest. receive_buffer resume i T a u = Some ((NO_ERROR, n), u')
     \<and> contents (umem (kern u)) x = mem_read (umem (kern u')) a n # rest \<and>
     (case filter (waiting (kern u)) xs of
        [] \<Rightarrow> arinc_buffers u' i = drop_message x \<and> contents (umem (kern u')) (drop_message x) = rest
          \<and> in_section cur (buf_section x) (buf_queue x) [] (kern u')
      | w # ws \<Rightarrow> arinc_buffers u' i = put_message (wq_len (tshd (kern u) w)) (drop_message x)
          \<and> contents (umem (kern u')) (arinc_buffers u' i) = rest @ [sent_message (kern u) w]
          \<and> \<not> waiting (kern u') w \<and> wait_result (threads (kern u') w) = POK_ERRNO_OK
          \<and> (\<exists>qs. in_section cur (buf_section x) (buf_queue x) qs (kern u') \<and> filter (waiting (kern u)) qs = ws))"
proof -
  let ?sec = "buf_section x" and ?wq = "buf_queue x" and ?x = "drop_message x"
  let ?rest = "contents (umem (kern u)) ?x"
  note dr = drop_message_spec [OF assms(5,6)]
  obtain v where v: "msection_wq_notify resume ?sec ?wq False (take_first i a x u)
       = Some (if \<exists>t \<in> set xs. waiting (kern u) t then POK_ERRNO_OK else POK_ERRNO_EMPTY, v)"
    and q: "in_section cur ?sec ?wq (left_queued False (kern u) xs) (kern v)" and bv: "arinc_buffers v i = ?x"
    and w5: "\<forall>t \<in> set xs. wq_buffer (tshd (kern v) t) = wq_buffer (tshd (kern u) t) \<and> wq_len (tshd (kern v) t) = wq_len (tshd (kern u) t)"
    and wk: "\<forall>t \<in> set (notified False (kern u) xs). \<not> waiting (kern v) t \<and> wait_result (threads (kern v) t) = POK_ERRNO_OK"
    and cv: "contents (umem (kern v)) ?x = ?rest" and got: "mem_read (umem (kern v)) a n = stored (umem (kern u)) x (message_index x 0)"
    and out: "\<forall>t \<in> set xs. waiting (kern u) t \<longrightarrow>
          mem_read (umem (kern v)) (wq_buffer (tshd (kern u) t)) (wq_len (tshd (kern u) t)) = sent_message (kern u) t"
    using receive_notify [OF assms] by blast
  have call: "receive_buffer resume i T a u = do {
      (r, u) \<leftarrow> msection_wq_notify resume ?sec ?wq False (take_first i a x u);
      if r = POK_ERRNO_OK then do {
        t \<leftarrow> wq_first (msection_wqs (kern u) ?wq);
        let x = arinc_buffers u i;
        let w_index = message_index x (nb_message x);
        let w_len = wq_len (tshd (kern u) t);
        let u = copy_user (message_at x w_index) (wq_buffer (tshd (kern u) t)) w_len u;
        let u = upd_buf i (\<lambda>x. x\<lparr>messages_size := (messages_size x)(w_index := w_len), nb_message := nb_message x + 1\<rparr>) u;
        Some ((NO_ERROR, n), upd_kern (msection_wq_del ?wq t) u)
      } else Some ((NO_ERROR, n), u)}"
    using assms(4,6) unfolding receive_buffer_def take_first_def assms(7) by (simp add: Let_def)
  show ?thesis
  proof (cases "filter (waiting (kern u)) xs")
    case Nil
    then have "\<not> (\<exists>t \<in> set xs. waiting (kern u) t)" by (simp add: filter_empty_conv)
    then have "receive_buffer resume i T a u = Some ((NO_ERROR, n), v)" using v call by simp
    moreover have "in_section cur ?sec ?wq [] (kern v)" using q notified_none [OF Nil, of False] by simp
    ultimately show ?thesis unfolding Nil list.case using bv cv got dr(2) by (intro exI [of _ v] exI [of _ ?rest]) simp
  next
    case (Cons w ws)
    obtain w: "wq_first (msection_wqs (kern v) ?wq) = Some w" "w \<in> set xs" "waiting (kern u) w"
      "w \<in> set (notified False (kern u) xs)" by (rule first_waiting [OF q Cons])
    define l where "l = wq_len (tshd (kern u) w)"
    define ix where "ix = message_index ?x (nb_message ?x)"
    define v1 where "v1 = upd_buf i (\<lambda>x. x\<lparr>messages_size := (messages_size x)(ix := l), nb_message := nb_message x + 1\<rparr>)
      (copy_user (message_at ?x ix) (wq_buffer (tshd (kern u) w)) l v)"
    have "in_section cur ?sec ?wq (left_queued False (kern u) xs) (kern v1)" using q by (simp add: v1_def)
    then obtain qs where q1: "in_section cur ?sec ?wq qs (msection_wq_del ?wq w (kern v1))" "filter (waiting (kern u)) qs = ws"
      "threads (msection_wq_del ?wq w (kern v1)) = threads (kern v1)"
      "user_frame ?wq (set (w # qs)) (kern v1) (msection_wq_del ?wq w (kern v1))"
      by (rule first_waiting [OF _ Cons])
    let ?u = "upd_kern (msection_wq_del ?wq w) v1"
    have "\<exists>t \<in> set xs. waiting (kern u) t" using w(2,3) by blast
    then have eq: "receive_buffer resume i T a u = Some ((NO_ERROR, n), ?u)"
      unfolding call using v w(1) w5 w(2) bv by (simp add: Let_def v1_def ix_def l_def)
    have msg: "mem_read (umem (kern v)) (wq_buffer (tshd (kern u) w)) l = sent_message (kern u) w"
      using out w(2,3) by (simp add: l_def)
    have m: "umem (kern ?u) = memcpy (umem (kern v)) (message_at ?x ix) (sent_message (kern u) w)"
      using q1(4) by (simp add: user_frame_def upd_kern_def v1_def msg)
    have b: "arinc_buffers ?u i = put_message l ?x"
      using bv by (simp add: upd_kern_def) (simp add: v1_def put_message_def ix_def)
    have room: "nb_message ?x < buf_max_nb_message ?x" "l \<le> buf_max_message_size ?x"
      using assms(5,6) assms(9) [OF w(2,3)] by (auto simp: drop_message_def buffer_ok_def l_def)
    have c: "contents (umem (kern ?u)) (put_message l ?x) = ?rest @ [sent_message (kern u) w]"
      unfolding m using put_message_spec(2) [OF dr(1) room(1), of "sent_message (kern u) w"] room(2) cv by (simp add: ix_def l_def)
    have r: "mem_read (umem (kern ?u)) a n = stored (umem (kern u)) x (message_index x 0)"
    proof -
      have ixl: "ix < buf_max_nb_message x" unfolding ix_def
        using message_index_less [of ?x "nb_message ?x"] dr(1) room(1) by (simp add: buffer_ok_def)
      have ls: "l \<le> message_stride x" using room(2) assms(5) by (simp add: buffer_ok_def)
      have "{message_at x ix ..< message_at x ix + l} \<inter> {a ..< a + n} = {}"
        using slot_in_storage [OF ixl ls] assms(8) by blast
      moreover have "message_at ?x ix = message_at x ix" by (simp add: message_at_def drop_message_def)
      ultimately have "mem_read (umem (kern ?u)) a n = mem_read (umem (kern v)) a n"
        unfolding m by (intro mem_read_cong) (auto simp: memcpy_def l_def)
      then show ?thesis using got by simp
    qed
    have t: "threads (kern ?u) = threads (kern v)" using q1(3) by (simp add: v1_def upd_kern_def)
    have wk1: "\<not> waiting (kern v) w \<and> wait_result (threads (kern v) w) = POK_ERRNO_OK" using wk w(4) by blast
    have s: "in_section cur ?sec ?wq qs (kern ?u)" using q1(1) by (simp add: upd_kern_def)
    show ?thesis unfolding Cons list.case
      by (rule exI [of _ ?u], rule exI [of _ ?rest], intro conjI exI [of _ qs])
        (simp_all only: eq r dr(2) b c t wk1 s q1(2) l_def [symmetric] simp_thms)
  qed
qed

subsection \<open>The outcome of the operations\<close>

text \<open>
  C24: sending to a buffer by the thread in its section. While there is room the call succeeds: the
  message is appended to the contents, or it goes straight into the place of the first thread that
  waits for one, which is woken up with its length; the message is the one the sender gave, and
  nothing else in the buffer changes. A full buffer refuses a sender that does not want to wait.
  Otherwise the sender takes its place in the queue with its message registered and begins to wait and
  leaves the section in one step.
\<close>

theorem send_buffer_outcome:
  assumes "in_section t (buf_section x) (buf_queue x) xs (kern u)" and "section_kept resume (buf_section x) (buf_queue x)"
    and "mem_kept resume (storage x \<union> {a ..< a + n})" and "arinc_buffers u i = x" and "buffer_ok x"
    and "n \<le> buf_max_message_size x" and "may_wait t T (buf_discipline x) xs (kern u)"
    and "\<And>w. w \<in> set xs \<Longrightarrow> waiting (kern u) w \<Longrightarrow>
       {wq_buffer (tshd (kern u) w) ..< wq_buffer (tshd (kern u) w) + n} \<inter> storage x = {}"
  shows "if nb_message x < buf_max_nb_message x then
     \<exists>u'. send_buffer resume i a n T u = Some (NO_ERROR, u') \<and> buffer_ok (arinc_buffers u' i) \<and>
     (case filter (waiting (kern u)) xs of
        [] \<Rightarrow> contents (umem (kern u')) (arinc_buffers u' i) = contents (umem (kern u)) x @ [mem_read (umem (kern u)) a n]
          \<and> in_section t (buf_section x) (buf_queue x) [] (kern u')
      | w # ws \<Rightarrow> contents (umem (kern u')) (arinc_buffers u' i) = contents (umem (kern u)) x
          \<and> \<not> waiting (kern u') w \<and> wait_result (threads (kern u') w) = POK_ERRNO_OK \<and> wq_len (tshd (kern u') w) = n
          \<and> mem_read (umem (kern u')) (wq_buffer (tshd (kern u) w)) n = mem_read (umem (kern u)) a n
          \<and> (\<exists>qs. in_section t (buf_section x) (buf_queue x) qs (kern u') \<and> filter (waiting (kern u)) qs = ws))
   else if T = 0 then send_buffer resume i a n T u = Some (NOT_AVAILABLE, u)
   else \<exists>k. send_buffer resume i a n T u = do {
            u' \<leftarrow> resume (u\<lparr>kern := k\<rparr>);
            waited (buf_queue x) t (wait_result (threads (kern u') t)) u'
          } \<and> began_to_wait t (buf_section x) (buf_queue x) (queue_place (buf_discipline x) (kern u) t xs)
            (upd_tshd t (\<lambda>d. d\<lparr>wq_buffer := a, wq_len := n\<rparr>) (kern u)) k
        \<and> sent_message k t = mem_read (umem (kern u)) a n"
proof (cases "nb_message x < buf_max_nb_message x")
  case True
  show ?thesis
    using send_spec [OF assms(1-6) True assms(8), of T] True assms(5) contents_put(2) [OF assms(5) True assms(6)]
    by (cases "filter (waiting (kern u)) xs") auto
next
  case full: False
  show ?thesis
  proof (cases "T = 0")
    case True
    then show ?thesis using full assms(4) by (simp add: send_buffer_def Let_def)
  next
    case False
    let ?h = "\<lambda>d. d\<lparr>wq_buffer := a, wq_len := n\<rparr>"
    obtain k1 k2 where k: "arinc_process_queue_add_common (buf_queue x) (buf_discipline x) (upd_tshd t ?h (kern u)) = Some k1"
      "jet_msection_wait (buf_section x) (Some T) k1 = Some (LeaveWait t, k2)"
      "began_to_wait t (buf_section x) (buf_queue x) (queue_place (buf_discipline x) (kern u) t xs) (upd_tshd t ?h (kern u)) k2"
      by (rule queue_and_wait_shared [OF assms(1,7) False, of ?h]) simp_all
    have "sent_message k2 t = mem_read (umem (kern u)) a n"
      using k(3) by (simp add: began_to_wait_def) (simp add: upd_tshd_def)
    moreover have "kshd_current_thread_id (kern u) = Some t" using assms(1) by (simp add: in_section_def)
    ultimately show ?thesis using full False assms(4) k
      by (auto simp: send_buffer_def msection_wait_def sys_return_def Let_def intro!: exI [of _ k2])
  qed
qed

theorem send_buffer_outcome_witness:
  "\<exists>u'. send_buffer resume_alone 0 7000 3 (-1) example_buffers = Some (NO_ERROR, u') \<and> \<not> waiting (kern u') 3
     \<and> wq_len (tshd (kern u') 3) = 3 \<and> mem_read (umem (kern u')) 5000 3 = [88, 89, 90]"
proof -
  let ?x = example_buffer
  have i: "in_section 1 (buf_section ?x) (buf_queue ?x) [2, 3, 4] (kern example_buffers)"
    and m: "may_wait 1 (-1) (buf_discipline ?x) [2, 3, 4] (kern example_buffers)"
    using example_buffers_kern(1,2) by (simp_all add: example_buffer_fields)
  have ok: "buffer_ok ?x" by (simp add: buffer_ok_def example_buffer_fields)
  have f: "filter (waiting (kern example_buffers)) [2, 3, 4] = [3, 4]" by (simp add: example_buffers_kern)
  have r: "mem_read (umem (kern example_buffers)) 7000 3 = [88, 89, 90]"
    by (simp add: mem_read_def example_buffers_kern upt_conv_Cons)
  show ?thesis
    using send_buffer_outcome [OF i resume_alone_kept resume_alone_mem example_buffer_fields(10) [of 0] ok _ m, of 3 7000] f r
    by (auto simp: example_buffer_fields storage_def example_buffers_kern)
qed

text \<open>
  Receiving from a buffer by the thread in its section. A message that is there, the oldest, is
  copied to the caller and leaves the buffer; if a sender waits, the first one is woken up with
  success and its message is appended to the others. An empty buffer refuses a receiver that does not
  want to wait, otherwise the receiver takes its place in the queue with the address registered, and
  begins to wait and leaves the section in one step.
\<close>

theorem receive_buffer_outcome:
  assumes "in_section t (buf_section x) (buf_queue x) xs (kern u)" and "section_kept resume (buf_section x) (buf_queue x)"
    and "mem_kept resume (storage x \<union> {a ..< a + messages_size x (message_index x 0)} \<union> (\<Union>v \<in> set xs. outgoing (kern u) v))"
    and "arinc_buffers u i = x" and "buffer_ok x" and "may_wait t T (buf_discipline x) xs (kern u)"
    and "{a ..< a + messages_size x (message_index x 0)} \<inter> storage x = {}"
    and "\<And>w. w \<in> set xs \<Longrightarrow> waiting (kern u) w \<Longrightarrow> wq_len (tshd (kern u) w) \<le> buf_max_message_size x
       \<and> outgoing (kern u) w \<inter> {a ..< a + messages_size x (message_index x 0)} = {}"
  shows "if nb_message x > 0 then
     \<exists>u' m rest. contents (umem (kern u)) x = m # rest \<and> receive_buffer resume i T a u = Some ((NO_ERROR, length m), u')
     \<and> mem_read (umem (kern u')) a (length m) = m \<and> buffer_ok (arinc_buffers u' i) \<and>
     (case filter (waiting (kern u)) xs of
        [] \<Rightarrow> contents (umem (kern u')) (arinc_buffers u' i) = rest
          \<and> in_section t (buf_section x) (buf_queue x) [] (kern u')
      | w # ws \<Rightarrow> contents (umem (kern u')) (arinc_buffers u' i) = rest @ [sent_message (kern u) w]
          \<and> \<not> waiting (kern u') w \<and> wait_result (threads (kern u') w) = POK_ERRNO_OK
          \<and> (\<exists>qs. in_section t (buf_section x) (buf_queue x) qs (kern u') \<and> filter (waiting (kern u)) qs = ws))
   else if T = 0 then receive_buffer resume i T a u = Some ((NOT_AVAILABLE, 0), u)
   else \<exists>k. receive_buffer resume i T a u = do {
            u' \<leftarrow> resume (u\<lparr>kern := k\<rparr>);
            let r = wait_result (threads (kern u') t);
            (rc, v) \<leftarrow> waited (buf_queue x) t r u';
            Some ((rc, if r = POK_ERRNO_OK then wq_len (tshd (kern u') t) else 0), v)
          } \<and> began_to_wait t (buf_section x) (buf_queue x) (queue_place (buf_discipline x) (kern u) t xs)
            (upd_tshd t (\<lambda>d. d\<lparr>wq_buffer := a\<rparr>) (kern u)) k \<and> wq_buffer (tshd k t) = a"
proof (cases "nb_message x > 0")
  case True
  let ?n = "messages_size x (message_index x 0)"
  obtain u' rest where r: "receive_buffer resume i T a u = Some ((NO_ERROR, ?n), u')"
    "contents (umem (kern u)) x = mem_read (umem (kern u')) a ?n # rest"
    "case filter (waiting (kern u)) xs of
        [] \<Rightarrow> arinc_buffers u' i = drop_message x \<and> contents (umem (kern u')) (drop_message x) = rest
          \<and> in_section t (buf_section x) (buf_queue x) [] (kern u')
      | w # ws \<Rightarrow> arinc_buffers u' i = put_message (wq_len (tshd (kern u) w)) (drop_message x)
          \<and> contents (umem (kern u')) (arinc_buffers u' i) = rest @ [sent_message (kern u) w]
          \<and> \<not> waiting (kern u') w \<and> wait_result (threads (kern u') w) = POK_ERRNO_OK
          \<and> (\<exists>qs. in_section t (buf_section x) (buf_queue x) qs (kern u') \<and> filter (waiting (kern u)) qs = ws)"
    using receive_spec [OF assms(1-5) True refl assms(7,8), of T] by blast
  have room: "nb_message (drop_message x) < buf_max_nb_message (drop_message x)"
    using True assms(5) by (auto simp: drop_message_def buffer_ok_def)
  have "buffer_ok (arinc_buffers u' i)"
  proof (cases "filter (waiting (kern u)) xs")
    case Nil
    then show ?thesis using r(3) drop_message_spec(1) [OF assms(5) True] by simp
  next
    case (Cons w ws)
    then have "w \<in> set (filter (waiting (kern u)) xs)" by simp
    then have "w \<in> set xs" "waiting (kern u) w" unfolding set_filter by blast+
    then show ?thesis
      using r(3) Cons contents_put(2) [OF drop_message_spec(1) [OF assms(5) True] room, of "wq_len (tshd (kern u) w)"] assms(8) [of w]
      by simp
  qed
  then show ?thesis using True r by (cases "filter (waiting (kern u)) xs") auto
next
  case empty: False
  show ?thesis
  proof (cases "T = 0")
    case True
    then show ?thesis using empty assms(4) by (simp add: receive_buffer_def Let_def)
  next
    case False
    let ?h = "\<lambda>d. d\<lparr>wq_buffer := a\<rparr>"
    obtain k1 k2 where k: "arinc_process_queue_add_common (buf_queue x) (buf_discipline x) (upd_tshd t ?h (kern u)) = Some k1"
      "jet_msection_wait (buf_section x) (Some T) k1 = Some (LeaveWait t, k2)"
      "began_to_wait t (buf_section x) (buf_queue x) (queue_place (buf_discipline x) (kern u) t xs) (upd_tshd t ?h (kern u)) k2"
      by (rule queue_and_wait_shared [OF assms(1,6) False, of ?h]) simp_all
    have "wq_buffer (tshd k2 t) = a" using k(3) by (simp add: began_to_wait_def) (simp add: upd_tshd_def)
    moreover have "kshd_current_thread_id (kern u) = Some t" using assms(1) by (simp add: in_section_def)
    ultimately show ?thesis using empty False assms(4) k
      by (auto simp: receive_buffer_def msection_wait_def sys_return_def Let_def intro!: exI [of _ k2])
  qed
qed

theorem receive_buffer_outcome_witness:
  "\<exists>u'. receive_buffer resume_alone 0 (-1) 7000 (upd_buf 0 (\<lambda>x. x\<lparr>nb_message := 2, base_offset := 1,
       messages_size := \<lambda>j. j + 1\<rparr>) example_buffers) = Some ((NO_ERROR, 2), u')
     \<and> mem_read (umem (kern u')) 7000 2 = [188, 189] \<and> \<not> waiting (kern u') 3
     \<and> contents (umem (kern u')) (arinc_buffers u' 0) = [[184], [136, 137]]"
proof -
  let ?x = "example_buffer\<lparr>nb_message := 2, base_offset := 1, messages_size := \<lambda>j. j + 1\<rparr>"
  let ?u = "upd_buf 0 (\<lambda>x. x\<lparr>nb_message := 2, base_offset := 1, messages_size := \<lambda>j. j + 1\<rparr>) example_buffers"
  have i: "in_section 1 (buf_section ?x) (buf_queue ?x) [2, 3, 4] (kern ?u)"
    and m: "may_wait 1 (-1) (buf_discipline ?x) [2, 3, 4] (kern ?u)" and x: "arinc_buffers ?u 0 = ?x"
    using example_buffers_kern(1,2) by (simp_all add: example_buffer_fields)
  have ix: "message_index ?x 0 = 1" "message_index ?x (Suc 0) = 0" by (simp_all add: message_index_def example_buffer_fields)
  have "messages_size ?x (message_index ?x j) \<le> 4" if "j < 2" for j
    using that ix by (cases j) (auto simp: less_Suc_eq)
  then have ok: "buffer_ok ?x" by (simp add: buffer_ok_def example_buffer_fields)
  have f: "filter (waiting (kern ?u)) [2, 3, 4] = [3, 4]" by (simp add: example_buffers_kern)
  have c: "contents (umem (kern ?u)) ?x = [[188, 189], [184]]"
    using ix by (simp add: contents_def stored_def message_at_def mem_read_def example_buffers_kern example_buffer_fields upt_conv_Cons)
  have s: "sent_message (kern ?u) 3 = [136, 137]"
    by (simp add: mem_read_def example_buffers_kern upt_conv_Cons)
  have w: "wq_len (tshd (kern ?u) w) \<le> buf_max_message_size ?x
      \<and> outgoing (kern ?u) w \<inter> {7000 ..< 7000 + messages_size ?x (message_index ?x 0)} = {}" for w
    using ix by (simp add: example_buffer_fields example_buffers_kern outgoing_def)
  have a: "{7000 ..< 7000 + messages_size ?x (message_index ?x 0)} \<inter> storage ?x = {}"
    using ix by (simp add: example_buffer_fields storage_def)
  show ?thesis
    using receive_buffer_outcome [OF i resume_alone_kept resume_alone_mem x ok m a w] f s c ix
    by (auto simp: numeral_2_eq_2)
qed

end
