(* ===== verification/ArincBlackboard.thy ===== *)
theory ArincBlackboard
  imports ArincEvent ArincBuffer
begin

section \<open>Blackboards\<close>

text \<open>
  \<open>libpok/arinc653/blackboard.c\<close>: one message that is displayed until it is overwritten or cleared.
  Readers of an empty blackboard wait, and the one that displays a message copies it to all of them.
\<close>

definition upd_bb :: "nat \<Rightarrow> (arinc_blackboard \<Rightarrow> arinc_blackboard) \<Rightarrow> libjet \<Rightarrow> libjet" where
  "upd_bb i f u = u\<lparr>arinc_blackboards := (arinc_blackboards u)(i := f (arinc_blackboards u i))\<rparr>"

definition find_blackboard :: "chars \<Rightarrow> libjet \<Rightarrow> nat option" where
  "find_blackboard name u = find_name (\<lambda>i. blackboard_name (arinc_blackboards u i)) (nblackboards_used u) name"

definition CREATE_BLACKBOARD :: "chars \<Rightarrow> int \<Rightarrow> libjet \<Rightarrow> RETURN_CODE_TYPE \<times> nat option \<times> libjet" where
  "CREATE_BLACKBOARD name MAX_MESSAGE_SIZE u =
     (if kshd_partition_mode (kern u) = POK_PARTITION_MODE_NORMAL then (INVALID_MODE, None, u)
      else if find_blackboard name u \<noteq> None then (NO_ACTION, None, u)
      else if nblackboards_used u = arinc_config_nblackboards u then (INVALID_CONFIG, None, u)
      else if MAX_MESSAGE_SIZE \<le> 0 \<or> MAX_MESSAGE_SIZE > int SYSTEM_LIMIT_MESSAGE_SIZE then (INVALID_PARAM, None, u)
      else let
          i = nblackboards_used u;
          u = upd_bb i (\<lambda>x. x\<lparr>bb_max_message_size := nat MAX_MESSAGE_SIZE\<rparr>) u;
          (p, u) = arinc_alloc (nat MAX_MESSAGE_SIZE) 4 u
      in case p of
        None \<Rightarrow> (INVALID_CONFIG, None, upd_bb i (\<lambda>x. x\<lparr>message := 0\<rparr>) u)
      | Some a \<Rightarrow>
          let u = upd_bb i (\<lambda>x. x\<lparr>message := a, blackboard_name := copy_name name (blackboard_name x), message_size := 0\<rparr>) u;
              u = msection_init (bb_section (arinc_blackboards u i)) u;
              u = msection_wq_init (bb_queue (arinc_blackboards u i)) u
          in (NO_ERROR, Some (i + 1), u\<lparr>nblackboards_used := i + 1\<rparr>))"

text \<open>The body of the loop over the readers that have been woken up.\<close>

definition deliver_message :: "nat \<Rightarrow> nat \<Rightarrow> libjet \<Rightarrow> libjet" where
  "deliver_message i t u =
     (let x = arinc_blackboards u i
      in upd_kern (upd_tshd t (\<lambda>d. d\<lparr>wq_len := message_size x\<rparr>))
           (copy_user (wq_buffer (tshd (kern u) t)) (message x) (message_size x) u))"

definition display_blackboard :: "resume \<Rightarrow> nat \<Rightarrow> nat \<Rightarrow> nat \<Rightarrow> libjet \<Rightarrow> (RETURN_CODE_TYPE \<times> libjet) option" where
  "display_blackboard resume i MESSAGE_ADDR LENGTH u = do {
     let u = copy_user (message (arinc_blackboards u i)) MESSAGE_ADDR LENGTH u;
     let u = upd_bb i (\<lambda>x. x\<lparr>message_size := LENGTH\<rparr>) u;
     let wq = bb_queue (arinc_blackboards u i);
     (r, u) \<leftarrow> msection_wq_notify resume (bb_section (arinc_blackboards u i)) wq True u;
     if r = POK_ERRNO_OK then do {
       t \<leftarrow> wq_first (msection_wqs (kern u) wq);
       u \<leftarrow> wq_drain (deliver_message i) wq t u;
       Some (NO_ERROR, u)
     } else Some (NO_ERROR, u)
   }"

definition read_blackboard ::
  "resume \<Rightarrow> nat \<Rightarrow> pok_time \<Rightarrow> nat \<Rightarrow> libjet \<Rightarrow> ((RETURN_CODE_TYPE \<times> nat) \<times> libjet) option" where
  "read_blackboard resume i TIME_OUT MESSAGE_ADDR u =
     (let x = arinc_blackboards u i; wq = bb_queue x
      in if message_size x > 0 then Some ((NO_ERROR, message_size x), copy_user MESSAGE_ADDR (message x) (message_size x) u)
      else if TIME_OUT = 0 then Some ((NOT_AVAILABLE, 0), u)
      else do {
        t \<leftarrow> kshd_current_thread_id (kern u);
        let k = upd_tshd t (\<lambda>d. d\<lparr>wq_buffer := MESSAGE_ADDR\<rparr>) (kern u);
        k \<leftarrow> arinc_process_queue_add_common wq POK_QUEUING_DISCIPLINE_PRIORITY k;
        (r, u) \<leftarrow> msection_wait resume (bb_section x) TIME_OUT (u\<lparr>kern := k\<rparr>);
        (rc, v) \<leftarrow> waited wq t r u;
        Some ((rc, if r = POK_ERRNO_OK then wq_len (tshd (kern u) t) else 0), v)
      })"

definition DISPLAY_BLACKBOARD :: "resume \<Rightarrow> int \<Rightarrow> nat \<Rightarrow> int \<Rightarrow> libjet \<Rightarrow> (RETURN_CODE_TYPE \<times> libjet) option" where
  "DISPLAY_BLACKBOARD resume BLACKBOARD_ID MESSAGE_ADDR LENGTH u =
     (if BLACKBOARD_ID \<le> 0 \<or> BLACKBOARD_ID > int (nblackboards_used u) then Some (INVALID_PARAM, u)
      else let i = nat (BLACKBOARD_ID - 1); x = arinc_blackboards u i
      in if LENGTH \<le> 0 \<or> LENGTH > int (bb_max_message_size x) then Some (INVALID_PARAM, u)
      else in_its_section resume (bb_section x) (display_blackboard resume i MESSAGE_ADDR (nat LENGTH)) u)"

definition READ_BLACKBOARD ::
  "resume \<Rightarrow> int \<Rightarrow> pok_time \<Rightarrow> nat \<Rightarrow> libjet \<Rightarrow> ((RETURN_CODE_TYPE \<times> nat option) \<times> libjet) option" where
  "READ_BLACKBOARD resume BLACKBOARD_ID TIME_OUT MESSAGE_ADDR u =
     (if BLACKBOARD_ID \<le> 0 \<or> BLACKBOARD_ID > int (nblackboards_used u) then Some ((INVALID_PARAM, None), u)
      else let i = nat (BLACKBOARD_ID - 1)
      in do {
        ((rc, len), u) \<leftarrow> in_its_section resume (bb_section (arinc_blackboards u i)) (read_blackboard resume i TIME_OUT MESSAGE_ADDR) u;
        Some ((rc, Some len), u)
      })"

definition CLEAR_BLACKBOARD :: "resume \<Rightarrow> int \<Rightarrow> libjet \<Rightarrow> (RETURN_CODE_TYPE \<times> libjet) option" where
  "CLEAR_BLACKBOARD resume BLACKBOARD_ID u =
     (if BLACKBOARD_ID \<le> 0 \<or> BLACKBOARD_ID > int (nblackboards_used u) then Some (INVALID_PARAM, u)
      else let i = nat (BLACKBOARD_ID - 1)
      in in_its_section resume (bb_section (arinc_blackboards u i))
           (\<lambda>u. Some (NO_ERROR, upd_bb i (\<lambda>x. x\<lparr>message_size := 0\<rparr>) u)) u)"

definition GET_BLACKBOARD_ID :: "chars \<Rightarrow> libjet \<Rightarrow> RETURN_CODE_TYPE \<times> nat option" where
  "GET_BLACKBOARD_ID name u =
     (case find_blackboard name u of None \<Rightarrow> (INVALID_CONFIG, None) | Some i \<Rightarrow> (NO_ERROR, Some (i + 1)))"

record BLACKBOARD_STATUS_TYPE =
  BB_EMPTY :: bool
  BB_MAX_MESSAGE_SIZE :: nat
  BB_WAITING_PROCESSES :: nat

definition GET_BLACKBOARD_STATUS ::
  "resume \<Rightarrow> int \<Rightarrow> libjet \<Rightarrow> ((RETURN_CODE_TYPE \<times> BLACKBOARD_STATUS_TYPE option) \<times> libjet) option" where
  "GET_BLACKBOARD_STATUS resume BLACKBOARD_ID u =
     (if BLACKBOARD_ID \<le> 0 \<or> BLACKBOARD_ID > int (nblackboards_used u) then Some ((INVALID_PARAM, None), u)
      else let i = nat (BLACKBOARD_ID - 1); sec = bb_section (arinc_blackboards u i);
               sz = bb_max_message_size (arinc_blackboards u i)
      in in_its_section resume sec (\<lambda>u. do {
           let e = (message_size (arinc_blackboards u i) = 0);
           (n, u) \<leftarrow> msection_wq_size resume sec (bb_queue (arinc_blackboards u i)) u;
           Some ((NO_ERROR, Some \<lparr>BB_EMPTY = e, BB_MAX_MESSAGE_SIZE = sz, BB_WAITING_PROCESSES = n\<rparr>), u)
         }) u)"

subsection \<open>Displaying\<close>

lemma kern_upd_bb [simp]: "kern (upd_bb i f u) = kern u" "arinc_blackboards (upd_bb i f u) i = f (arinc_blackboards u i)"
  by (simp_all add: upd_bb_def)

text \<open>Readers whose places for a message, of \<open>n\<close> bytes, are apart from each other and from the message.\<close>

definition places_apart :: "nat \<Rightarrow> nat \<Rightarrow> (nat \<Rightarrow> nat) \<Rightarrow> nat set \<Rightarrow> bool" where
  "places_apart src n B W \<longleftrightarrow> (\<forall>t \<in> W. {B t ..< B t + n} \<inter> {src ..< src + n} = {}
     \<and> (\<forall>v \<in> W. v \<noteq> t \<longrightarrow> {B t ..< B t + n} \<inter> {B v ..< B v + n} = {}))"

text \<open>How far the loop has come: the readers \<open>ts\<close> of \<open>W\<close> are still to be served.\<close>

definition serving :: "nat \<Rightarrow> arinc_blackboard \<Rightarrow> byte list \<Rightarrow> (nat \<Rightarrow> nat) \<Rightarrow> nat set \<Rightarrow> libjet \<Rightarrow> nat list \<Rightarrow> libjet \<Rightarrow> bool" where
  "serving i x msg B W v ts y \<longleftrightarrow> threads (kern y) = threads (kern v) \<and> arinc_blackboards y i = x \<and> set ts \<subseteq> W \<and> distinct ts
     \<and> mem_read (umem (kern y)) (message x) (message_size x) = msg \<and> (\<forall>t \<in> W. wq_buffer (tshd (kern y) t) = B t)
     \<and> (\<forall>t \<in> W - set ts. wq_len (tshd (kern y) t) = message_size x \<and> mem_read (umem (kern y)) (B t) (message_size x) = msg)"

lemma mem_read_apart:
  "{q ..< q + n} \<inter> {p ..< p + length bs} = {} \<Longrightarrow> mem_read (memcpy m p bs) q n = mem_read m q n"
  by (rule mem_read_cong) (auto simp: memcpy_def)

lemma deliver_fields:
  "umem (kern (deliver_message i t u)) = memcpy (umem (kern u)) (wq_buffer (tshd (kern u) t))
     (mem_read (umem (kern u)) (message (arinc_blackboards u i)) (message_size (arinc_blackboards u i)))"
  "tshd (kern (deliver_message i t u)) = (tshd (kern u))(t := (tshd (kern u) t)\<lparr>wq_len := message_size (arinc_blackboards u i)\<rparr>)"
  "threads (kern (deliver_message i t u)) = threads (kern u)" "arinc_blackboards (deliver_message i t u) = arinc_blackboards u"
  "in_section cur sec wq xs (kern (deliver_message i t u)) = in_section cur sec wq xs (kern u)"
  by (simp_all add: deliver_message_def Let_def upd_kern_def) (simp_all add: upd_tshd_def copy_user_def upd_kern_def)

lemma serving_step:
  assumes "serving i x msg B W v (t # ts) y" "places_apart (message x) (message_size x) B W"
  shows "serving i x msg B W v ts (upd_kern (msection_wq_del wq t) (deliver_message i t y))"
proof -
  let ?y = "upd_kern (msection_wq_del wq t) (deliver_message i t y)" and ?n = "message_size x"
  note s = assms(1) [unfolded serving_def]
  have t: "t \<in> W" "length msg = ?n" using s by auto
  have m: "umem (kern ?y) = memcpy (umem (kern y)) (B t) msg"
    using s t(1) by (simp add: upd_kern_def del_frame deliver_fields)
  have l: "wq_buffer (tshd (kern ?y) z) = wq_buffer (tshd (kern y) z)"
    "wq_len (tshd (kern ?y) z) = (if z = t then ?n else wq_len (tshd (kern y) z))" for z
    using s by (simp_all add: upd_kern_def del_frame deliver_fields)
  have src: "mem_read (umem (kern ?y)) (message x) ?n = msg"
    unfolding m using s t assms(2) mem_read_apart [of "message x" ?n "B t" msg "umem (kern y)"]
    by (simp add: places_apart_def Int_commute)
  have old: "mem_read (umem (kern ?y)) (B z) ?n = msg" if "z \<in> W - set ts" for z
  proof (cases "z = t")
    case True
    then show ?thesis unfolding m using mem_read_memcpy_same [of "umem (kern y)" "B t" msg] t(2) by simp
  next
    case False
    then have "mem_read (umem (kern y)) (B z) ?n = msg" using s that by simp
    moreover have "{B z ..< B z + ?n} \<inter> {B t ..< B t + ?n} = {}"
      using assms(2) that t(1) False by (auto simp: places_apart_def)
    ultimately show ?thesis unfolding m using mem_read_apart [of "B z" ?n "B t" msg "umem (kern y)"] t(2) by simp
  qed
  have "threads (kern ?y) = threads (kern v)" "arinc_blackboards ?y i = x"
    using s by (simp_all add: upd_kern_def del_frame deliver_fields)
  then show ?thesis unfolding serving_def using s src old l by auto
qed

text \<open>The loop over the readers that were woken up serves them all.\<close>

lemma all_served:
  assumes "in_section cur sec wq (w # ws) (kern v)" and "arinc_blackboards v i = x"
    and "mem_read (umem (kern v)) (message x) (message_size x) = msg" "\<forall>t \<in> set (w # ws). wq_buffer (tshd (kern v) t) = B t"
    and "places_apart (message x) (message_size x) B (set (w # ws))"
  obtains u' where "wq_first (msection_wqs (kern v) wq) = Some w" "wq_drain (deliver_message i) wq w v = Some u'"
    "in_section cur sec wq [] (kern u')" "serving i x msg B (set (w # ws)) v [] u'"
proof -
  have q: "distinct (w # ws)" "wq_first (msection_wqs (kern v) wq) = Some w"
    using assms(1) by (simp_all add: in_section_def section_queue_def wq_list_def)
  have "serving i x msg B (set (w # ws)) v (w # ws) v" using q(1) assms(2-4) by (auto simp: serving_def)
  then show thesis
    using wq_drain_rule [where P = "serving i x msg B (set (w # ws)) v" and deliver = "deliver_message i", OF assms(1)]
      serving_step [OF _ assms(5)] q(2) that by (auto simp: deliver_fields)
qed

text \<open>
  C26: displaying a message by the thread in its section. The blackboard holds the message, and every
  reader that waits is woken up with success, with the message in the place it has registered and its
  length; the queue is empty then.
\<close>

theorem display_blackboard_outcome:
  assumes "in_section cur (bb_section x) (bb_queue x) xs (kern u)" and "section_kept resume (bb_section x) (bb_queue x)"
    and "mem_kept resume {message x ..< message x + n}" and "arinc_blackboards u i = x"
    and "places_apart (message x) n (\<lambda>t. wq_buffer (tshd (kern u) t)) {t \<in> set xs. waiting (kern u) t}"
  shows "\<exists>u'. display_blackboard resume i a n u = Some (NO_ERROR, u') \<and> arinc_blackboards u' i = x\<lparr>message_size := n\<rparr>
     \<and> mem_read (umem (kern u')) (message x) n = mem_read (umem (kern u)) a n
     \<and> in_section cur (bb_section x) (bb_queue x) [] (kern u')
     \<and> (\<forall>t \<in> set xs. waiting (kern u) t \<longrightarrow> \<not> waiting (kern u') t \<and> wait_result (threads (kern u') t) = POK_ERRNO_OK
          \<and> wq_len (tshd (kern u') t) = n
          \<and> mem_read (umem (kern u')) (wq_buffer (tshd (kern u) t)) n = mem_read (umem (kern u)) a n)"
proof -
  let ?sec = "bb_section x" and ?wq = "bb_queue x" and ?x = "x\<lparr>message_size := n\<rparr>"
  let ?msg = "mem_read (umem (kern u)) a n" and ?B = "\<lambda>t. wq_buffer (tshd (kern u) t)"
  define u0 where "u0 = upd_bb i (\<lambda>x. x\<lparr>message_size := n\<rparr>) (copy_user (message x) a n u)"
  have e0: "arinc_blackboards u0 i = ?x" "tshd (kern u0) = tshd (kern u)" "threads (kern u0) = threads (kern u)"
    "umem (kern u0) = memcpy (umem (kern u)) (message x) ?msg"
    using assms(4) by (simp_all add: u0_def)
  have "in_section cur ?sec ?wq xs (kern u0)" using assms(1) by (simp add: u0_def)
  then obtain v where v: "msection_wq_notify resume ?sec ?wq True u0
       = Some (if \<exists>t \<in> set xs. waiting (kern u) t then POK_ERRNO_OK else POK_ERRNO_EMPTY, v)"
    and d: "notify_done cur ?sec ?wq True xs {message x ..< message x + n} u0 v"
    using section_notify_mem [of cur ?sec ?wq xs u0 resume _ True] assms(2,3) e0(3) by auto
  have q: "in_section cur ?sec ?wq (filter (waiting (kern u)) xs) (kern v)" and bb: "arinc_blackboards v i = ?x"
    and wk: "\<forall>t \<in> set xs. waiting (kern u) t \<longrightarrow> \<not> waiting (kern v) t \<and> wait_result (threads (kern v) t) = POK_ERRNO_OK"
    and bf: "\<forall>t \<in> set xs. wq_buffer (tshd (kern v) t) = ?B t"
    using d e0 by (auto simp: notify_done_def left_queued_def notified_def)
  have src: "mem_read (umem (kern v)) (message x) n = ?msg"
  proof -
    have "mem_read (umem (kern v)) (message x) n = mem_read (umem (kern u0)) (message x) n"
      by (rule mem_read_cong) (use d in \<open>simp add: notify_done_def\<close>)
    then show ?thesis using mem_read_memcpy_same [of "umem (kern u)" "message x" ?msg] e0(4) by simp
  qed
  have bq: "bb_queue ?x = ?wq" "bb_section ?x = ?sec" by simp_all
  have call: "display_blackboard resume i a n u = (do {
      (r, u) \<leftarrow> msection_wq_notify resume ?sec ?wq True u0;
      if r = POK_ERRNO_OK then do {
        t \<leftarrow> wq_first (msection_wqs (kern u) ?wq);
        u \<leftarrow> wq_drain (deliver_message i) ?wq t u;
        Some (NO_ERROR, u)
      } else Some (NO_ERROR, u)})"
    unfolding display_blackboard_def Let_def assms(4) u0_def [symmetric] e0(1) bq by simp
  show ?thesis
  proof (cases "filter (waiting (kern u)) xs")
    case Nil
    then have n: "\<not> (\<exists>t \<in> set xs. waiting (kern u) t)" by (simp add: filter_empty_conv)
    then have "display_blackboard resume i a n u = Some (NO_ERROR, v)" using call v by simp
    then show ?thesis using q bb src Nil n by auto
  next
    case (Cons w ws)
    have W: "set (w # ws) = {t \<in> set xs. waiting (kern u) t}" using arg_cong [OF Cons, of set] by (simp add: set_filter)
    obtain u' where u': "wq_first (msection_wqs (kern v) ?wq) = Some w" "wq_drain (deliver_message i) ?wq w v = Some u'"
      "in_section cur ?sec ?wq [] (kern u')" "serving i ?x ?msg ?B (set (w # ws)) v [] u'"
    proof (rule all_served)
      show "in_section cur ?sec ?wq (w # ws) (kern v)" using q Cons by simp
      show "places_apart (message ?x) (message_size ?x) ?B (set (w # ws))" using assms(5) W by simp
    qed (use bb src bf W in auto)
    have "w \<in> {t \<in> set xs. waiting (kern u) t}" using W by auto
    then have "display_blackboard resume i a n u = Some (NO_ERROR, u')" using call v u'(1,2) by auto
    then show ?thesis using u'(3,4) wk unfolding serving_def W by auto
  qed
qed

theorem display_blackboard_outcome_witness:
  "\<exists>u'. display_blackboard resume_alone 0 7000 3
       (upd_kern (upd_tshd 4 (\<lambda>d. d\<lparr>wq_buffer := 6000\<rparr>)) (upd_bb 0 (\<lambda>x. x\<lparr>bb_section := 100, bb_queue := 102\<rparr>) example_buffers))
       = Some (NO_ERROR, u') \<and> \<not> waiting (kern u') 3 \<and> \<not> waiting (kern u') 4 \<and> wq_list (kern u') 102 []
     \<and> mem_read (umem (kern u')) 5000 3 = [88, 89, 90] \<and> mem_read (umem (kern u')) 6000 3 = [88, 89, 90]"
proof -
  let ?u = "upd_kern (upd_tshd 4 (\<lambda>d. d\<lparr>wq_buffer := 6000\<rparr>)) (upd_bb 0 (\<lambda>x. x\<lparr>bb_section := 100, bb_queue := 102\<rparr>) example_buffers)"
  let ?x = "arinc_blackboards example_buffers 0\<lparr>bb_section := 100, bb_queue := 102\<rparr>"
  have x: "arinc_blackboards ?u 0 = ?x" "message ?x = 4000"
    by (simp_all add: upd_kern_def) (simp add: example_buffers_def upd_kern_def example_lib_def)
  have i: "in_section 1 (bb_section ?x) (bb_queue ?x) [2, 3, 4] (kern ?u)"
    using example_buffers_kern(1) by (simp add: upd_kern_def)
  have w: "waiting (kern ?u) t \<longleftrightarrow> t = 3 \<or> t = 4" for t using example_buffers_kern(3) by (simp add: upd_kern_def)
  have b: "wq_buffer (tshd (kern ?u) t) = (if t = 4 then 6000 else if t = 3 then 5000 else 0)" for t
    using example_buffers_kern(5) by (simp add: upd_kern_def) (simp add: upd_tshd_def)
  have m: "mem_read (umem (kern ?u)) 7000 3 = [88, 89, 90]"
    using example_buffers_kern(4) by (simp add: upd_kern_def) (simp add: upd_tshd_def mem_read_def upt_conv_Cons)
  have "places_apart (message ?x) 3 (\<lambda>t. wq_buffer (tshd (kern ?u) t)) {t \<in> set [2, 3, 4]. waiting (kern ?u) t}"
    unfolding x(2) by (auto simp: places_apart_def b w)
  then show ?thesis
    using display_blackboard_outcome [OF i resume_alone_kept resume_alone_mem x(1), of 3 7000] w b [of 3] b [of 4] m
    by (auto simp: in_section_def section_queue_def)
qed

subsection \<open>Reading\<close>

text \<open>
  Reading from a blackboard: the message that is displayed, as often as it is read; a refusal; or a
  place in the queue by priority with the address registered, where a later display delivers.
\<close>

lemma read_blackboard_outcome:
  assumes "in_section t (bb_section x) (bb_queue x) xs (kern u)" and "arinc_blackboards u i = x"
    and "may_wait t T POK_QUEUING_DISCIPLINE_PRIORITY xs (kern u)"
  shows "if message_size x > 0 then \<exists>u'. read_blackboard resume i T a u = Some ((NO_ERROR, message_size x), u')
       \<and> mem_read (umem (kern u')) a (message_size x) = mem_read (umem (kern u)) (message x) (message_size x)
       \<and> arinc_blackboards u' = arinc_blackboards u \<and> in_section t (bb_section x) (bb_queue x) xs (kern u')
     else if T = 0 then read_blackboard resume i T a u = Some ((NOT_AVAILABLE, 0), u)
     else \<exists>k. read_blackboard resume i T a u = do {
            u' \<leftarrow> resume (u\<lparr>kern := k\<rparr>);
            let r = wait_result (threads (kern u') t);
            (rc, v) \<leftarrow> waited (bb_queue x) t r u';
            Some ((rc, if r = POK_ERRNO_OK then wq_len (tshd (kern u') t) else 0), v)
          } \<and> began_to_wait t (bb_section x) (bb_queue x) (queue_place POK_QUEUING_DISCIPLINE_PRIORITY (kern u) t xs)
            (upd_tshd t (\<lambda>d. d\<lparr>wq_buffer := a\<rparr>) (kern u)) k \<and> wq_buffer (tshd k t) = a"
proof (cases "message_size x > 0 \<or> T = 0")
  case True
  then show ?thesis
    using assms(1,2) mem_read_memcpy_same [of "umem (kern u)" a "mem_read (umem (kern u)) (message x) (message_size x)"]
    by (auto simp: read_blackboard_def Let_def)
next
  case False
  let ?h = "\<lambda>d. d\<lparr>wq_buffer := a\<rparr>" and ?d = POK_QUEUING_DISCIPLINE_PRIORITY
  have "T \<noteq> 0" using False by simp
  then obtain k1 k2 where k: "arinc_process_queue_add_common (bb_queue x) ?d (upd_tshd t ?h (kern u)) = Some k1"
    "jet_msection_wait (bb_section x) (Some T) k1 = Some (LeaveWait t, k2)"
    "began_to_wait t (bb_section x) (bb_queue x) (queue_place ?d (kern u) t xs) (upd_tshd t ?h (kern u)) k2"
    by (rule queue_and_wait_shared [OF assms(1,3), of ?h]) simp_all
  have "wq_buffer (tshd k2 t) = a" using k(3) by (simp add: began_to_wait_def) (simp add: upd_tshd_def)
  moreover have "kshd_current_thread_id (kern u) = Some t" using assms(1) by (simp add: in_section_def)
  ultimately show ?thesis using False assms(2) k
    by (auto simp: read_blackboard_def msection_wait_def sys_return_def Let_def intro!: exI [of _ k2])
qed

end
