(* ===== verification/ArincProcess.thy ===== *)
theory ArincProcess
  imports Msection PartitionLife
begin

section \<open>Processes, time, partition and errors\<close>

text \<open>
  The services of \<open>process.c\<close>, \<open>time.c\<close>, \<open>partition.c\<close> and \<open>error.c\<close> of \<open>libpok/arinc653\<close>: they check
  arguments, make one system call and translate its result. A process has the number of its thread
  plus one; the system calls take a thread number of 8 bits, so the C conversion of the argument keeps
  the lower byte. Out parameters are part of the result, \<open>None\<close> if nothing is written; the addresses
  the library itself passes are accessible.
\<close>

subsection \<open>Results\<close>

text \<open>The tables that \<open>MAP_ERROR\<close> and \<open>MAP_ERROR_DEFAULT\<close> write down.\<close>

definition map_error :: "(pok_ret \<times> RETURN_CODE_TYPE) list \<Rightarrow> RETURN_CODE_TYPE \<Rightarrow> pok_ret \<Rightarrow> RETURN_CODE_TYPE" where
  "map_error table dflt r = (case map_of table r of Some c \<Rightarrow> c | None \<Rightarrow> dflt)"

definition to_thread_id :: "int \<Rightarrow> nat" where
  "to_thread_id i = nat (i mod 256)"

text \<open>System calls that also return a value, and system calls that may not return at all.\<close>

definition sys_out :: "resume \<Rightarrow> (arinc \<Rightarrow> ((sysret \<times> 'a) \<times> arinc) option) \<Rightarrow> libjet \<Rightarrow> ((pok_ret \<times> 'a) \<times> libjet) option" where
  "sys_out resume call u = do {
     ((r, out), k) \<leftarrow> call (kern u);
     (e, u) \<leftarrow> sys_return resume (\<lambda>_. Some (r, k)) u;
     Some ((e, out), u)
   }"

definition sys_leave :: "resume \<Rightarrow> (arinc \<Rightarrow> sysret kout option) \<Rightarrow> libjet \<Rightarrow> (pok_ret option \<times> libjet) option" where
  "sys_leave resume call u = do {
     r \<leftarrow> call (kern u);
     (case r of
        NoReturn k \<Rightarrow> Some (None, u\<lparr>kern := k\<rparr>)
      | Return x k \<Rightarrow> do { (e, u) \<leftarrow> sys_return resume (\<lambda>_. Some (x, k)) u; Some (Some e, u) })
   }"

text \<open>A service that is one system call and a table.\<close>

definition service ::
  "resume \<Rightarrow> (arinc \<Rightarrow> (sysret \<times> arinc) option) \<Rightarrow> (pok_ret \<times> RETURN_CODE_TYPE) list \<Rightarrow> libjet
     \<Rightarrow> (RETURN_CODE_TYPE \<times> libjet) option" where
  "service resume call table u = do {
     (r, u) \<leftarrow> sys_return resume call u;
     Some (map_error table INVALID_PARAM r, u)
   }"

definition check_process_id ::
  "int \<Rightarrow> (libjet \<Rightarrow> (RETURN_CODE_TYPE \<times> libjet) option) \<Rightarrow> libjet \<Rightarrow> (RETURN_CODE_TYPE \<times> libjet) option" where
  "check_process_id process_id body u = (if process_id = 0 then Some (INVALID_PARAM, u) else body u)"

subsection \<open>Processes\<close>

record PROCESS_ATTRIBUTE_TYPE =
  PROC_NAME :: chars
  ENTRY_POINT :: nat
  STACK_SIZE :: nat
  BASE_PRIORITY :: int
  PERIOD :: pok_time
  TIME_CAPACITY :: pok_time
  PROC_DEADLINE :: int

datatype PROCESS_STATE_TYPE = DORMANT | READY | RUNNING | WAITING

record PROCESS_STATUS_TYPE =
  ATTRIBUTES :: PROCESS_ATTRIBUTE_TYPE
  CURRENT_PRIORITY :: int
  DEADLINE_TIME :: pok_time
  PROCESS_STATE :: PROCESS_STATE_TYPE

definition GET_PROCESS_ID :: "chars \<Rightarrow> libjet \<Rightarrow> RETURN_CODE_TYPE \<times> nat option" where
  "GET_PROCESS_ID process_name u =
     (case pok_thread_find (Some process_name) True (kern u) of
        (r, tid) \<Rightarrow> if r = POK_ERRNO_OK then (NO_ERROR, map_option Suc tid) else (INVALID_CONFIG, None))"

definition GET_MY_ID :: "libjet \<Rightarrow> RETURN_CODE_TYPE \<times> nat option" where
  "GET_MY_ID u =
     (if kshd_partition_mode (kern u) \<noteq> POK_PARTITION_MODE_NORMAL then (INVALID_MODE, None)
      else if kshd_current_thread_id (kern u) = kshd_error_thread_id (kern u) then (INVALID_MODE, None)
      else (NO_ERROR, map_option Suc (kshd_current_thread_id (kern u))))"

definition map_status :: "pok_state \<Rightarrow> PROCESS_STATE_TYPE" where
  "map_status st = (case st of POK_STATE_STOPPED \<Rightarrow> DORMANT | POK_STATE_RUNNABLE \<Rightarrow> READY
     | POK_STATE_WAITING \<Rightarrow> WAITING | POK_STATE_RUNNING \<Rightarrow> RUNNING)"

definition GET_PROCESS_STATUS ::
  "resume \<Rightarrow> int \<Rightarrow> libjet \<Rightarrow> ((RETURN_CODE_TYPE \<times> PROCESS_STATUS_TYPE option) \<times> libjet) option" where
  "GET_PROCESS_STATUS resume process_id u = do {
     ((r, out), u) \<leftarrow> sys_out resume (pok_thread_get_status (to_thread_id (process_id - 1)) True True True) u;
     Some ((map_error [(POK_ERRNO_OK, NO_ERROR)] INVALID_PARAM r,
       (if r \<noteq> POK_ERRNO_OK then None
        else map_option (\<lambda>(name, ent, st). \<lparr>
          ATTRIBUTES = \<lparr>PROC_NAME = name, ENTRY_POINT = ent, STACK_SIZE = attr_stack_size (attributes st),
            BASE_PRIORITY = int (attr_priority (attributes st)), PERIOD = attr_period (attributes st),
            TIME_CAPACITY = attr_time_capacity (attributes st),
            PROC_DEADLINE = (if attr_deadline (attributes st) = DEADLINE_SOFT then 0 else 1)\<rparr>,
          CURRENT_PRIORITY = int (current_priority st), DEADLINE_TIME = deadline_time st,
          PROCESS_STATE = map_status (status_state st)\<rparr>) out)), u)
   }"

definition create_errors :: "(pok_ret \<times> RETURN_CODE_TYPE) list" where
  "create_errors = [(POK_ERRNO_OK, NO_ERROR), (POK_ERRNO_EXISTS, NO_ACTION), (POK_ERRNO_PARAM, INVALID_PARAM),
     (POK_ERRNO_EINVAL, INVALID_CONFIG), (POK_ERRNO_UNAVAILABLE, INVALID_CONFIG), (POK_ERRNO_TOOMANY, INVALID_CONFIG),
     (POK_ERRNO_PARTITION_MODE, INVALID_MODE)]"

definition CREATE_PROCESS :: "PROCESS_ATTRIBUTE_TYPE \<Rightarrow> libjet \<Rightarrow> RETURN_CODE_TYPE \<times> nat option \<times> libjet" where
  "CREATE_PROCESS attrs u =
     (if PROC_NAME attrs 0 = 0 then (INVALID_PARAM, None, u)
      else if PROC_DEADLINE attrs \<noteq> 0 \<and> PROC_DEADLINE attrs \<noteq> 1 then (INVALID_PARAM, None, u)
      else let
          core_attr = \<lparr>attr_priority = nat (BASE_PRIORITY attrs mod 256), attr_period = PERIOD attrs,
            attr_deadline = (if PROC_DEADLINE attrs = 0 then DEADLINE_SOFT else DEADLINE_HARD),
            attr_time_capacity = TIME_CAPACITY attrs, attr_stack_size = STACK_SIZE attrs\<rparr>;
          ((r, tid), k) = pok_thread_create (Some (PROC_NAME attrs)) (ENTRY_POINT attrs) (Some core_attr) True (kern u);
          u = u\<lparr>kern := k\<rparr>
      in (map_error create_errors INVALID_PARAM r, (if r \<noteq> POK_ERRNO_OK then None else map_option Suc tid), u))"

definition STOP_SELF :: "resume \<Rightarrow> libjet \<Rightarrow> libjet option" where
  "STOP_SELF resume u = map_option snd (sys_leave resume pok_thread_stop u)"

definition SET_PRIORITY :: "resume \<Rightarrow> int \<Rightarrow> int \<Rightarrow> libjet \<Rightarrow> (RETURN_CODE_TYPE \<times> libjet) option" where
  "SET_PRIORITY resume process_id prio = check_process_id process_id (\<lambda>u.
     if prio < int MIN_PRIORITY_VALUE \<or> prio > int MAX_PRIORITY_VALUE then Some (INVALID_PARAM, u)
     else service resume (pok_thread_set_priority (to_thread_id (process_id - 1)) (nat prio))
            [(POK_ERRNO_OK, NO_ERROR), (POK_ERRNO_UNAVAILABLE, INVALID_MODE)] u)"

definition SUSPEND_SELF :: "resume \<Rightarrow> pok_time \<Rightarrow> libjet \<Rightarrow> (RETURN_CODE_TYPE \<times> libjet) option" where
  "SUSPEND_SELF resume time_out = service resume (pok_thread_suspend (Some time_out))
     [(POK_ERRNO_OK, NO_ERROR), (POK_ERRNO_TIMEOUT, TIMED_OUT), (POK_ERRNO_MODE, INVALID_MODE)]"

definition SUSPEND :: "resume \<Rightarrow> int \<Rightarrow> libjet \<Rightarrow> (RETURN_CODE_TYPE \<times> libjet) option" where
  "SUSPEND resume process_id = check_process_id process_id
     (service resume (pok_thread_suspend_target (to_thread_id (process_id - 1)))
       [(POK_ERRNO_OK, NO_ERROR), (POK_ERRNO_MODE, INVALID_MODE), (POK_ERRNO_UNAVAILABLE, NO_ACTION)])"

definition RESUME :: "resume \<Rightarrow> int \<Rightarrow> libjet \<Rightarrow> (RETURN_CODE_TYPE \<times> libjet) option" where
  "RESUME resume process_id = check_process_id process_id
     (service resume (pok_thread_resume (to_thread_id (process_id - 1)))
       [(POK_ERRNO_OK, NO_ERROR), (POK_ERRNO_UNAVAILABLE, NO_ACTION), (POK_ERRNO_MODE, INVALID_MODE)])"

definition STOP :: "resume \<Rightarrow> int \<Rightarrow> libjet \<Rightarrow> (RETURN_CODE_TYPE \<times> libjet) option" where
  "STOP resume process_id = check_process_id process_id
     (service resume (pok_thread_stop_target (to_thread_id (process_id - 1)))
       [(POK_ERRNO_OK, NO_ERROR), (POK_ERRNO_UNAVAILABLE, NO_ACTION)])"

definition DELAYED_START :: "resume \<Rightarrow> int \<Rightarrow> pok_time \<Rightarrow> libjet \<Rightarrow> (RETURN_CODE_TYPE \<times> libjet) option" where
  "DELAYED_START resume process_id delay_time = check_process_id process_id
     (service resume (pok_thread_delayed_start (to_thread_id (process_id - 1)) (Some delay_time))
       [(POK_ERRNO_OK, NO_ERROR), (POK_ERRNO_UNAVAILABLE, NO_ACTION)])"

definition START :: "resume \<Rightarrow> int \<Rightarrow> libjet \<Rightarrow> (RETURN_CODE_TYPE \<times> libjet) option" where
  "START resume process_id = DELAYED_START resume process_id 0"

text \<open>The lock level is stored by the kernel after its critical section.\<close>

definition LOCK_PREEMPTION :: "resume \<Rightarrow> libjet \<Rightarrow> ((RETURN_CODE_TYPE \<times> nat option) \<times> libjet) option" where
  "LOCK_PREEMPTION resume u = do {
     (r, u) \<leftarrow> sys_return resume (pok_current_partition_inc_lock_level True) u;
     Some ((map_error [(POK_ERRNO_OK, NO_ERROR), (POK_ERRNO_PARTITION_MODE, NO_ACTION), (POK_ERRNO_EINVAL, INVALID_CONFIG)]
       INVALID_PARAM r, if r = POK_ERRNO_OK then Some (lock_level (kern u)) else None), u)
   }"

definition UNLOCK_PREEMPTION :: "resume \<Rightarrow> libjet \<Rightarrow> ((RETURN_CODE_TYPE \<times> nat option) \<times> libjet) option" where
  "UNLOCK_PREEMPTION resume u = do {
     (r, u) \<leftarrow> sys_return resume (pok_current_partition_dec_lock_level True) u;
     Some ((map_error [(POK_ERRNO_OK, NO_ERROR), (POK_ERRNO_PARTITION_MODE, NO_ACTION), (POK_ERRNO_EINVAL, NO_ACTION)]
       INVALID_PARAM r, if r = POK_ERRNO_OK then Some (lock_level (kern u)) else None), u)
   }"

subsection \<open>Time\<close>

definition TIMED_WAIT :: "resume \<Rightarrow> pok_time \<Rightarrow> libjet \<Rightarrow> (RETURN_CODE_TYPE \<times> libjet) option" where
  "TIMED_WAIT resume delay_time u =
     (if delay_time < 0 then Some (INVALID_PARAM, u)
      else service resume (pok_thread_sleep (Some delay_time)) [(POK_ERRNO_OK, NO_ERROR), (POK_ERRNO_MODE, INVALID_MODE)] u)"

definition PERIODIC_WAIT :: "resume \<Rightarrow> libjet \<Rightarrow> (RETURN_CODE_TYPE \<times> libjet) option" where
  "PERIODIC_WAIT resume = service resume pok_sched_end_period [(POK_ERRNO_OK, NO_ERROR), (POK_ERRNO_MODE, INVALID_MODE)]"

definition GET_TIME :: "libjet \<Rightarrow> (RETURN_CODE_TYPE \<times> pok_time option) \<times> libjet" where
  "GET_TIME u = (let ((r, now), k) = pok_clock_gettime True True (kern u) in ((NO_ERROR, now), u\<lparr>kern := k\<rparr>))"

definition REPLENISH :: "resume \<Rightarrow> pok_time \<Rightarrow> libjet \<Rightarrow> (RETURN_CODE_TYPE \<times> libjet) option" where
  "REPLENISH resume budget_time = service resume (pok_sched_replenish (Some budget_time))
     [(POK_ERRNO_OK, NO_ERROR), (POK_ERRNO_UNAVAILABLE, NO_ACTION), (POK_ERRNO_MODE, INVALID_MODE)]"

subsection \<open>Partition\<close>

datatype OPERATING_MODE_TYPE = IDLE | COLD_START | WARM_START | NORMAL

definition map_mode :: "pok_partition_mode \<Rightarrow> OPERATING_MODE_TYPE" where
  "map_mode m = (case m of POK_PARTITION_MODE_IDLE \<Rightarrow> IDLE | POK_PARTITION_MODE_NORMAL \<Rightarrow> NORMAL
     | POK_PARTITION_MODE_INIT_COLD \<Rightarrow> COLD_START | POK_PARTITION_MODE_INIT_WARM \<Rightarrow> WARM_START)"

text \<open>The values of \<open>OPERATING_MODE_TYPE\<close> at the interface.\<close>

definition to_core_mode :: "int \<Rightarrow> pok_partition_mode option" where
  "to_core_mode m = (if m = 0 then Some POK_PARTITION_MODE_IDLE else if m = 3 then Some POK_PARTITION_MODE_NORMAL
     else if m = 1 then Some POK_PARTITION_MODE_INIT_COLD else if m = 2 then Some POK_PARTITION_MODE_INIT_WARM else None)"

record PARTITION_STATUS_TYPE =
  IDENTIFIER :: nat
  PART_PERIOD :: nat
  DURATION :: nat
  LOCK_LEVEL :: nat
  OPERATING_MODE :: OPERATING_MODE_TYPE
  START_CONDITION :: pok_start_condition

definition GET_PARTITION_STATUS :: "libjet \<Rightarrow> RETURN_CODE_TYPE \<times> PARTITION_STATUS_TYPE option" where
  "GET_PARTITION_STATUS u =
     (let (r, st) = pok_current_partition_get_status True (kern u)
      in (NO_ERROR, map_option (\<lambda>st. \<lparr>IDENTIFIER = ps_id st, PART_PERIOD = ps_period st, DURATION = ps_duration st,
           LOCK_LEVEL = ps_lock_level st, OPERATING_MODE = map_mode (ps_mode st), START_CONDITION = ps_start_condition st\<rparr>) st))"

definition SET_PARTITION_MODE :: "resume \<Rightarrow> int \<Rightarrow> libjet \<Rightarrow> (RETURN_CODE_TYPE option \<times> libjet) option" where
  "SET_PARTITION_MODE resume operating_mode u =
     (case to_core_mode operating_mode of
        None \<Rightarrow> Some (Some INVALID_PARAM, u)
      | Some core_mode \<Rightarrow> do {
          (r, u) \<leftarrow> sys_leave resume (pok_partition_set_mode_current (Some core_mode)) u;
          Some (map_option (map_error [(POK_ERRNO_OK, NO_ERROR), (POK_ERRNO_UNAVAILABLE, NO_ACTION),
            (POK_ERRNO_PARTITION_MODE, INVALID_MODE)] INVALID_PARAM) r, u)
        })"

subsection \<open>Errors\<close>

definition MAX_ERROR_MESSAGE_SIZE :: int where "MAX_ERROR_MESSAGE_SIZE = 128"

text \<open>\<open>ERROR_CODE_TYPE\<close> has the numbers of its constants: \<open>DEADLINE_MISSED\<close> is 0,
  \<open>APPLICATION_ERROR\<close> 1.\<close>

definition error_pok_to_arinc :: "nat \<Rightarrow> nat" where
  "error_pok_to_arinc pok_error = (if 10 \<le> pok_error \<and> pok_error \<le> 17 then pok_error - 10 else 0)"

definition REPORT_APPLICATION_MESSAGE :: "int \<Rightarrow> RETURN_CODE_TYPE" where
  "REPORT_APPLICATION_MESSAGE LENGTH = (if LENGTH < 0 \<or> LENGTH > MAX_ERROR_MESSAGE_SIZE then INVALID_PARAM else NO_ERROR)"

definition CREATE_ERROR_HANDLER :: "nat \<Rightarrow> nat \<Rightarrow> libjet \<Rightarrow> RETURN_CODE_TYPE \<times> libjet" where
  "CREATE_ERROR_HANDLER entry_point stack_size u =
     (let (r, k) = pok_error_thread_create stack_size entry_point (kern u)
      in (map_error [(POK_ERRNO_OK, NO_ERROR), (POK_ERRNO_EXISTS, NO_ACTION), (POK_ERRNO_PARTITION_MODE, INVALID_MODE),
            (POK_ERRNO_EINVAL, INVALID_CONFIG)] INVALID_CONFIG r, u\<lparr>kern := k\<rparr>))"

record ERROR_STATUS_TYPE =
  ERROR_CODE :: nat
  ERR_LENGTH :: nat
  FAILED_PROCESS_ID :: nat
  FAILED_ADDRESS :: nat

definition GET_ERROR_STATUS :: "nat \<Rightarrow> libjet \<Rightarrow> ((RETURN_CODE_TYPE \<times> ERROR_STATUS_TYPE option) \<times> libjet) option" where
  "GET_ERROR_STATUS MESSAGE u = do {
     ((r, st), k) \<leftarrow> pok_error_get True MESSAGE (kern u);
     Some ((map_error [(POK_ERRNO_OK, NO_ERROR), (POK_ERRNO_THREAD, INVALID_CONFIG), (POK_ERRNO_UNAVAILABLE, NO_ACTION)]
         NOT_AVAILABLE r,
       map_option (\<lambda>st. \<lparr>ERROR_CODE = error_pok_to_arinc (es_error_kind st), ERR_LENGTH = msg_size st,
         FAILED_PROCESS_ID = failed_thread st + 1, FAILED_ADDRESS = failed_addr st\<rparr>) st), u\<lparr>kern := k\<rparr>)
   }"

definition RAISE_APPLICATION_ERROR :: "resume \<Rightarrow> int \<Rightarrow> nat \<Rightarrow> int \<Rightarrow> libjet \<Rightarrow> (RETURN_CODE_TYPE option \<times> libjet) option" where
  "RAISE_APPLICATION_ERROR resume error_code MESSAGE LENGTH u =
     (if LENGTH < 0 \<or> LENGTH > MAX_ERROR_MESSAGE_SIZE then Some (Some INVALID_PARAM, u)
      else if error_code \<noteq> 1 then Some (Some INVALID_PARAM, u)
      else do {
        (r, u) \<leftarrow> sys_leave resume (pok_error_raise_application_error MESSAGE (nat LENGTH)) u;
        Some (map_option (\<lambda>_. NO_ERROR) r, u)
      })"

subsection \<open>Creating and finding processes\<close>

lemma strncasecmp_from_cong:
  "(\<And>j. i \<le> j \<Longrightarrow> j < i + n \<Longrightarrow> s1 j = s1' j \<and> s2 j = s2' j) \<Longrightarrow>
   strncasecmp_from s1 s2 i n = strncasecmp_from s1' s2' i n"
  by (induction n arbitrary: i) auto

lemma pok_compare_names_cong:
  assumes "\<And>i. i < MAX_NAME_LENGTH \<Longrightarrow> a i = a' i" "\<And>i. i < MAX_NAME_LENGTH \<Longrightarrow> b i = b' i"
  shows "pok_compare_names a b = pok_compare_names a' b'"
  unfolding pok_compare_names_def strncasecmp_def by (rule strncasecmp_from_cong) (use assms in auto)

lemma pok_compare_names_refl: "pok_compare_names a a = 0"
  by (simp add: pok_compare_names_def strncasecmp_def strncasecmp_from_0)

lemma thread_create_names:
  "thread_create t s = (True, s') \<Longrightarrow>
   (\<forall>v. thread_name (threads s' v) = thread_name (threads s v)) \<and> nthreads_used s' = nthreads_used s
   \<and> thread_error s' = thread_error s \<and> state (threads s' t) = POK_STATE_STOPPED
   \<and> base_priority (threads s' t) = base_priority (threads s t)"
  by (auto simp: thread_create_def Let_def upd_tshd_def split: if_splits)

text \<open>What a successful creation leaves behind.\<close>

lemma thread_create_spec:
  assumes "pok_thread_create (Some name) ent (Some attr) True s = ((POK_ERRNO_OK, tid), s')"
  defines "t \<equiv> nthreads_used s"
  shows "tid = Some t \<and> nthreads_used s' = Suc t \<and> thread_error s' = thread_error s
    \<and> (\<forall>i < MAX_NAME_LENGTH. thread_name (threads s' t) i = name i)
    \<and> (\<forall>v. v \<noteq> t \<longrightarrow> thread_name (threads s' v) = thread_name (threads s v)) \<and> find_thread name s = None
    \<and> state (threads s' t) = POK_STATE_STOPPED \<and> base_priority (threads s' t) = attr_priority attr
    \<and> MIN_PRIORITY_VALUE \<le> attr_priority attr \<and> attr_priority attr \<le> MAX_PRIORITY_VALUE \<and> mode s \<noteq> POK_PARTITION_MODE_NORMAL"
proof -
  define s1 where "s1 = upd_thread t (\<lambda>th. th\<lparr>entry := ent, base_priority := attr_priority attr,
    thr_period := attr_period attr, time_capacity := attr_time_capacity attr, deadline := attr_deadline attr\<rparr>) s"
  define s2 where "s2 = upd_thread t (\<lambda>th. th\<lparr>thread_name := (\<lambda>i. if i < MAX_NAME_LENGTH then name i else thread_name th i)\<rparr>) s1"
  define s3 where "s3 = upd_thread t (\<lambda>th. th\<lparr>user_stack_size := attr_stack_size attr\<rparr>) s2"
  obtain c s4 where c: "thread_create t s3 = (c, s4)" by fastforce
  have eq: "pok_thread_create (Some name) ent (Some attr) True s =
      (if mode s = POK_PARTITION_MODE_NORMAL then ((POK_ERRNO_PARTITION_MODE, None), s)
       else if t = nthreads s then ((POK_ERRNO_TOOMANY, None), s)
       else if thread_attr_check (threads s1 t) s1 \<noteq> POK_ERRNO_OK then ((thread_attr_check (threads s1 t) s1, None), s1)
       else if find_thread (thread_name (threads s2 t)) s2 \<noteq> None then ((POK_ERRNO_EXISTS, None), s2)
       else if \<not> c then ((POK_ERRNO_UNAVAILABLE, None), s4)
       else ((POK_ERRNO_OK, Some (nthreads_used s4)), s4\<lparr>nthreads_used := nthreads_used s4 + 1\<rparr>))"
    using c unfolding pok_thread_create_def t_def [symmetric] Let_def option.case s1_def [symmetric] s2_def [symmetric] s3_def [symmetric]
    by simp
  have g: "mode s \<noteq> POK_PARTITION_MODE_NORMAL" "thread_attr_check (threads s1 t) s1 = POK_ERRNO_OK"
    "find_thread (thread_name (threads s2 t)) s2 = None" "c" "tid = Some (nthreads_used s4)" "s' = s4\<lparr>nthreads_used := nthreads_used s4 + 1\<rparr>"
    using assms(1) unfolding eq by (auto split: if_splits)
  have f: "nthreads_used s3 = t" "thread_error s3 = thread_error s" "base_priority (threads s3 t) = attr_priority attr"
    by (simp_all add: s3_def s2_def s1_def t_def)
  have n3: "thread_name (threads s3 v) = (if v = t then (\<lambda>i. if i < MAX_NAME_LENGTH then name i else thread_name (threads s t) i)
      else thread_name (threads s v))" for v
    by (simp add: s3_def s2_def s1_def fun_eq_iff)
  note s4 = thread_create_names [OF c [unfolded g(4) [THEN eqTrueI]]]
  have "find_thread name s = None"
  proof -
    have "pok_compare_names (thread_name (threads s v)) (thread_name (threads s2 t)) = pok_compare_names (thread_name (threads s v)) name" for v
      by (rule pok_compare_names_cong) (simp_all add: s2_def)
    moreover have "thread_name (threads s2 v) = thread_name (threads s v)" if "v < t" for v using that by (simp add: s2_def s1_def)
    moreover have "thread_error s2 = thread_error s" "nthreads_used s2 = t" by (simp_all add: s2_def s1_def t_def)
    ultimately show ?thesis using g(3) unfolding find_thread_def t_def [symmetric] find_None_iff by auto
  qed
  moreover have "MIN_PRIORITY_VALUE \<le> attr_priority attr" "attr_priority attr \<le> MAX_PRIORITY_VALUE"
    using g(2) by (auto simp: thread_attr_check_def s1_def split: if_splits)
  ultimately show ?thesis using g(1,5,6) s4 f n3 by simp
qed

text \<open>
  C27: a process that has been created is found by its name, under the number that
  \<open>CREATE_PROCESS\<close> gave and that no process had before; it is dormant. Its base priority is the
  requested one modulo 256, and it is only this remainder that has been checked.
\<close>

theorem create_process_then_find:
  assumes "CREATE_PROCESS attrs u = (NO_ERROR, pid, u')" and "0 < nthreads_used (kern u)"
    and "thread_error (kern u) \<noteq> Some (nthreads_used (kern u))"
  shows "GET_PROCESS_ID (PROC_NAME attrs) u = (INVALID_CONFIG, None) \<and> GET_PROCESS_ID (PROC_NAME attrs) u' = (NO_ERROR, pid)
    \<and> pid = Some (nthreads_used (kern u) + 1) \<and> nthreads_used (kern u') = nthreads_used (kern u) + 1
    \<and> state (threads (kern u') (nthreads_used (kern u))) = POK_STATE_STOPPED
    \<and> int (base_priority (threads (kern u') (nthreads_used (kern u)))) = BASE_PRIORITY attrs mod 256
    \<and> 1 \<le> BASE_PRIORITY attrs mod 256 \<and> BASE_PRIORITY attrs mod 256 \<le> 239"
proof -
  let ?s = "kern u" and ?n = "PROC_NAME attrs" and ?t = "nthreads_used (kern u)"
  let ?a = "\<lparr>attr_priority = nat (BASE_PRIORITY attrs mod 256), attr_period = PERIOD attrs,
            attr_deadline = (if PROC_DEADLINE attrs = 0 then DEADLINE_SOFT else DEADLINE_HARD),
            attr_time_capacity = TIME_CAPACITY attrs, attr_stack_size = STACK_SIZE attrs\<rparr>"
  obtain r tid k where c: "pok_thread_create (Some ?n) (ENTRY_POINT attrs) (Some ?a) True ?s = ((r, tid), k)"
    by (metis surj_pair)
  have "map_error create_errors INVALID_PARAM r = NO_ERROR" and p: "pid = (if r \<noteq> POK_ERRNO_OK then None else map_option Suc tid)"
    and u': "u' = u\<lparr>kern := k\<rparr>"
    using assms(1) c by (auto simp: CREATE_PROCESS_def Let_def split: if_splits)
  then have r: "r = POK_ERRNO_OK" by (auto simp: map_error_def create_errors_def split: if_splits)
  note s = thread_create_spec [OF c [unfolded r]]
  have same: "pok_compare_names (thread_name (threads k ?t)) ?n = 0"
    using pok_compare_names_cong [of "thread_name (threads k ?t)" ?n ?n ?n] s pok_compare_names_refl [of ?n] by auto
  have "find (\<lambda>v. thread_error k \<noteq> Some v \<and> pok_compare_names (thread_name (threads k v)) ?n = 0) [POK_PARTITION_ARINC_MAIN_THREAD_ID + 1..<?t] = None"
    using s by (auto simp: find_thread_def find_None_iff)
  moreover have "[POK_PARTITION_ARINC_MAIN_THREAD_ID + 1..<nthreads_used k] = [POK_PARTITION_ARINC_MAIN_THREAD_ID + 1..<?t] @ [?t]"
    using s assms(2) by (simp add: POK_PARTITION_ARINC_MAIN_THREAD_ID_def)
  ultimately have "find_thread ?n k = Some ?t" using s same assms(3) by (simp add: find_thread_def find_append)
  moreover have "1 \<le> BASE_PRIORITY attrs mod 256 \<and> BASE_PRIORITY attrs mod 256 \<le> 239"
    using s by (auto simp: MIN_PRIORITY_VALUE_def MAX_PRIORITY_VALUE_def)
  ultimately show ?thesis using s p r u' by (simp add: GET_PROCESS_ID_def pok_thread_find_def)
qed

definition example_process :: PROCESS_ATTRIBUTE_TYPE where
  "example_process = \<lparr>PROC_NAME = (\<lambda>i. if i = 0 then 65 else 0), ENTRY_POINT = 100, STACK_SIZE = 1024, BASE_PRIORITY = 300,
     PERIOD = -1, TIME_CAPACITY = -1, PROC_DEADLINE = 0\<rparr>"

definition example_init :: libjet where
  "example_init = upd_kern (\<lambda>k. k\<lparr>mode := POK_PARTITION_MODE_INIT_COLD, nthreads := 6, user_exec := \<lambda>_. True, ustack := \<lambda>_ _. 9000\<rparr>)
     example_lib"

theorem create_process_then_find_witness:
  "\<exists>u'. CREATE_PROCESS example_process example_init = (NO_ERROR, Some 6, u')
     \<and> GET_PROCESS_ID (PROC_NAME example_process) u' = (NO_ERROR, Some 6) \<and> base_priority (threads (kern u') 5) = 44"
proof -
  obtain rc pid u' where c: "CREATE_PROCESS example_process example_init = (rc, pid, u')" using prod_cases3 by blast
  have f: "nthreads_used (kern example_init) = 5" "thread_error (kern example_init) = None"
    by (simp_all add: example_init_def upd_kern_def example_lib_def example_section_fields)
  have "pok_compare_names (\<lambda>_. int v) n \<noteq> 0" if "v < 5" "n 0 = 65" for v n
  proof -
    have "strncasecmp_from (\<lambda>_. int v) n 0 (Suc m) \<noteq> 0" for m
      using that by (simp add: strncasecmp_turn_def islower_ascii_def cmp3_def)
    from this [of 29] show ?thesis by (simp add: pok_compare_names_def strncasecmp_def MAX_NAME_LENGTH_def)
  qed
  moreover have "thread_name (threads (kern example_init) v) = (\<lambda>_. int v)" if "v < 5" for v
    using that by (simp add: example_init_def upd_kern_def example_lib_def example_section_def example_arinc_def example_thread_def)
  ultimately have n: "find_thread n (upd_thread 5 g (upd_thread 5 h (kern example_init))) = None" if "n 0 = 65" for n g h
    using that by (simp add: find_thread_def find_None_iff f)
  have k: "mode (kern example_init) = POK_PARTITION_MODE_INIT_COLD" "nthreads (kern example_init) = 6"
    "user_exec (kern example_init) = (\<lambda>_. True)" "ustack (kern example_init) = (\<lambda>_ _. 9000)"
    by (simp_all add: example_init_def upd_kern_def)
  have e: "user_exec (upd_thread t g s) = user_exec s" "ustack (upd_thread t g s) = ustack s" for t g s
    by (simp_all add: upd_thread_def)
  have "rc = NO_ERROR"
    using c n
    by (simp add: CREATE_PROCESS_def example_process_def pok_thread_create_def f k e thread_attr_check_def thread_create_def
        pok_time_is_infinity_def MIN_PRIORITY_VALUE_def MAX_PRIORITY_VALUE_def MAX_NAME_LENGTH_def map_error_def create_errors_def)
  then show ?thesis using create_process_then_find [of example_process example_init pid u'] c f by (simp add: example_process_def)
qed

text \<open>
  The number of a process is cut to 8 bits on its way into the kernel. A number that is 256 too
  high, which no process has, is not refused: every service does with it what it does with the
  process it happens to be equal to.
\<close>

theorem process_ids_wrap:
  assumes "0 < p"
  shows "SET_PRIORITY resume (p + 256) prio u = SET_PRIORITY resume p prio u \<and> SUSPEND resume (p + 256) u = SUSPEND resume p u
    \<and> RESUME resume (p + 256) u = RESUME resume p u \<and> STOP resume (p + 256) u = STOP resume p u
    \<and> DELAYED_START resume (p + 256) d u = DELAYED_START resume p d u
    \<and> GET_PROCESS_STATUS resume (p + 256) u = GET_PROCESS_STATUS resume p u"
proof -
  have "to_thread_id (p + 256 - 1) = to_thread_id (p - 1)"
    unfolding to_thread_id_def by (metis add.commute add_diff_eq mod_add_self1)
  then show ?thesis using assms
    by (simp add: SET_PRIORITY_def SUSPEND_def RESUME_def STOP_def DELAYED_START_def GET_PROCESS_STATUS_def check_process_id_def)
qed

theorem process_ids_wrap_witness:
  "\<exists>u'. SET_PRIORITY resume_alone 260 7 example_lib = Some (NO_ERROR, u') \<and> priority (threads (kern u') 3) = 7"
proof -
  have "SET_PRIORITY resume_alone (4 + 256) 7 example_lib = SET_PRIORITY resume_alone 4 7 example_lib"
    using process_ids_wrap [of 4 resume_alone 7 example_lib] by simp
  moreover have "\<exists>u'. SET_PRIORITY resume_alone 4 7 example_lib = Some (NO_ERROR, u') \<and> priority (threads (kern u') 3) = 7"
  proof -
    have "get_thread_by_id 3 (kern example_lib) = Some 3" "\<not> preempt_local_disabled (base_part (kern example_lib))"
      "state (threads (kern example_lib) 3) = POK_STATE_WAITING" "3 \<notin> set (eligible_threads (kern example_lib))"
      by (simp_all add: get_thread_by_id_def example_lib_def example_section_fields)
        (simp add: example_section_def example_arinc_def)
    then show ?thesis
      by (simp add: Let_def SET_PRIORITY_def check_process_id_def service_def to_thread_id_def MIN_PRIORITY_VALUE_def MAX_PRIORITY_VALUE_def
          pok_thread_set_priority_def sys_return_def pok_preemption_local_disable_def thread_yield_def thread_is_eligible_def
          resume_alone_def map_error_def upd_kern_def)
  qed
  ultimately show ?thesis by simp
qed

end
