(* ===== verification/ArincPorts.thy ===== *)
theory ArincPorts
  imports ArincProcess
begin

section \<open>Ports in the ARINC library\<close>

text \<open>
  \<open>queueing.c\<close> and \<open>sampling.c\<close> of \<open>libpok/arinc653\<close>. An identifier is the number of the port plus one;
  the system calls take it in 8 bits, lengths in 32 and refresh periods in 64. \<open>len_ok\<close> and \<open>valid_ok\<close>
  say whether an address the application gave is accessible. When the kernel refuses to create a port
  the library still stores a number, computed from an uninitialised variable; the result has none.
\<close>

definition to_port_id :: "int \<Rightarrow> nat" where "to_port_id i = nat (i mod 256)"
definition to_size :: "int \<Rightarrow> nat" where "to_size i = nat (i mod 2 ^ 32)"

text \<open>The values of \<open>PORT_DIRECTION_TYPE\<close> at the interface: \<open>SOURCE\<close> is 0, \<open>DESTINATION\<close> 1.\<close>

definition to_direction :: "int \<Rightarrow> pok_port_direction option" where
  "to_direction d = (if d = 0 then Some POK_PORT_DIRECTION_OUT else if d = 1 then Some POK_PORT_DIRECTION_IN else None)"

subsection \<open>Queuing ports\<close>

definition CREATE_QUEUING_PORT ::
  "chars \<Rightarrow> int \<Rightarrow> int \<Rightarrow> int \<Rightarrow> int \<Rightarrow> libjet \<Rightarrow> RETURN_CODE_TYPE \<times> nat option \<times> libjet" where
  "CREATE_QUEUING_PORT name MAX_MESSAGE_SIZE MAX_NB_MESSAGE PORT_DIRECTION QUEUING_DISCIPLINE u =
     (case to_discipline QUEUING_DISCIPLINE of
        None \<Rightarrow> (INVALID_CONFIG, None, u)
      | Some disc \<Rightarrow> (case to_direction PORT_DIRECTION of
          None \<Rightarrow> (INVALID_CONFIG, None, u)
        | Some dir \<Rightarrow>
            let arg = \<lparr>arg_message_size = to_size MAX_MESSAGE_SIZE, arg_max_nb_message = to_size MAX_NB_MESSAGE,
                  arg_direction = dir, arg_discipline = disc\<rparr>;
                ((r, pid), k) = pok_port_queuing_create_packed (Some name) (Some arg) True (kern u)
            in (map_error [(POK_ERRNO_OK, NO_ERROR), (POK_ERRNO_EXISTS, NO_ACTION), (POK_ERRNO_MODE, INVALID_MODE)]
                  INVALID_CONFIG r, map_option Suc pid, u\<lparr>kern := k\<rparr>)))"

definition SEND_QUEUING_MESSAGE ::
  "resume \<Rightarrow> int \<Rightarrow> nat \<Rightarrow> int \<Rightarrow> pok_time \<Rightarrow> libjet \<Rightarrow> (RETURN_CODE_TYPE \<times> libjet) option" where
  "SEND_QUEUING_MESSAGE resume QUEUING_PORT_ID MESSAGE_ADDR LENGTH TIME_OUT u =
     (if QUEUING_PORT_ID \<le> 0 then Some (INVALID_PARAM, u)
      else do {
        (r, u) \<leftarrow> sys_return resume (pok_port_queuing_send (to_port_id (QUEUING_PORT_ID - 1)) MESSAGE_ADDR (to_size LENGTH)
          (Some TIME_OUT)) u;
        Some (map_error [(POK_ERRNO_OK, NO_ERROR), (POK_ERRNO_DIRECTION, INVALID_MODE), (POK_ERRNO_MODE, INVALID_MODE),
          (POK_ERRNO_FULL, NOT_AVAILABLE), (POK_ERRNO_TIMEOUT, TIMED_OUT), (POK_ERRNO_PARAM, INVALID_CONFIG)] INVALID_CONFIG r, u)
      })"

text \<open>After waiting, the kernel stores the length that \<open>port_queuing_received\<close> gives.\<close>

definition RECEIVE_QUEUING_MESSAGE ::
  "resume \<Rightarrow> int \<Rightarrow> pok_time \<Rightarrow> nat \<Rightarrow> bool \<Rightarrow> libjet \<Rightarrow> ((RETURN_CODE_TYPE \<times> nat option) \<times> libjet) option" where
  "RECEIVE_QUEUING_MESSAGE resume QUEUING_PORT_ID TIME_OUT MESSAGE_ADDR len_ok u =
     (if QUEUING_PORT_ID \<le> 0 then Some ((INVALID_PARAM, None), u)
      else do {
        ((r, len), k) \<leftarrow> pok_port_queuing_receive (to_port_id (QUEUING_PORT_ID - 1)) (Some TIME_OUT) MESSAGE_ADDR len_ok (kern u);
        (e, u) \<leftarrow> sys_return resume (\<lambda>_. Some (r, k)) u;
        let len = (case r of LeaveWait t \<Rightarrow> Some (fst (port_queuing_received t (kern u))) | _ \<Rightarrow> len);
        Some ((map_error [(POK_ERRNO_OK, NO_ERROR), (POK_ERRNO_DIRECTION, INVALID_MODE), (POK_ERRNO_MODE, INVALID_MODE),
          (POK_ERRNO_EMPTY, NOT_AVAILABLE), (POK_ERRNO_TIMEOUT, TIMED_OUT), (POK_ERRNO_TOOMANY, INVALID_CONFIG)]
          INVALID_CONFIG e, len), u)
      })"

definition GET_QUEUING_PORT_ID :: "chars \<Rightarrow> libjet \<Rightarrow> RETURN_CODE_TYPE \<times> nat option" where
  "GET_QUEUING_PORT_ID name u =
     (let (r, pid) = pok_port_queuing_id (Some name) True (kern u)
      in (map_error [(POK_ERRNO_OK, NO_ERROR)] INVALID_CONFIG r, if r = POK_ERRNO_OK then map_option Suc pid else None))"

record QUEUING_PORT_STATUS_TYPE =
  QP_NB_MESSAGE :: nat
  QP_MAX_NB_MESSAGE :: nat
  QP_MAX_MESSAGE_SIZE :: nat
  QP_PORT_DIRECTION :: pok_port_direction
  QP_WAITING_PROCESSES :: nat

definition GET_QUEUING_PORT_STATUS ::
  "resume \<Rightarrow> int \<Rightarrow> libjet \<Rightarrow> ((RETURN_CODE_TYPE \<times> QUEUING_PORT_STATUS_TYPE option) \<times> libjet) option" where
  "GET_QUEUING_PORT_STATUS resume QUEUING_PORT_ID u =
     (if QUEUING_PORT_ID \<le> 0 then Some ((INVALID_PARAM, None), u)
      else do {
        ((r, st), u) \<leftarrow> sys_out resume (pok_port_queuing_status (to_port_id (QUEUING_PORT_ID - 1)) True) u;
        Some ((if r = POK_ERRNO_OK then NO_ERROR else INVALID_PARAM,
          if r = POK_ERRNO_OK then map_option (\<lambda>st. \<lparr>QP_NB_MESSAGE = qs_nb_message st, QP_MAX_NB_MESSAGE = qs_max_nb_message st,
            QP_MAX_MESSAGE_SIZE = qs_max_message_size st, QP_PORT_DIRECTION = qs_direction st,
            QP_WAITING_PROCESSES = qs_waiting_processes st\<rparr>) st else None), u)
      })"

definition CLEAR_QUEUING_PORT :: "resume \<Rightarrow> int \<Rightarrow> libjet \<Rightarrow> (RETURN_CODE_TYPE \<times> libjet) option" where
  "CLEAR_QUEUING_PORT resume QUEUING_PORT_ID u = do {
     (r, u) \<leftarrow> sys_return resume (pok_port_queuing_clear (to_port_id (QUEUING_PORT_ID - 1))) u;
     Some (map_error [(POK_ERRNO_OK, NO_ERROR), (POK_ERRNO_PORT, INVALID_PARAM), (POK_ERRNO_MODE, INVALID_MODE)] INVALID_CONFIG r, u)
   }"

subsection \<open>Sampling ports\<close>

definition CREATE_SAMPLING_PORT ::
  "chars \<Rightarrow> int \<Rightarrow> int \<Rightarrow> pok_time \<Rightarrow> libjet \<Rightarrow> RETURN_CODE_TYPE \<times> nat option \<times> libjet" where
  "CREATE_SAMPLING_PORT name MAX_MESSAGE_SIZE PORT_DIRECTION REFRESH_PERIOD u =
     (if MAX_MESSAGE_SIZE \<le> 0 \<or> REFRESH_PERIOD < 0 then (INVALID_CONFIG, None, u)
      else case to_direction PORT_DIRECTION of
        None \<Rightarrow> (INVALID_CONFIG, None, u)
      | Some dir \<Rightarrow>
          if REFRESH_PERIOD > (2 ^ 32 - 1) * 1000000 then (INVALID_CONFIG, None, u)
          else let ((r, pid), k) = pok_port_sampling_create (Some name) (to_size MAX_MESSAGE_SIZE) dir (Some REFRESH_PERIOD) True (kern u)
            in (map_error [(POK_ERRNO_OK, NO_ERROR), (POK_ERRNO_EINVAL, INVALID_CONFIG), (POK_ERRNO_EXISTS, NO_ACTION),
                  (POK_ERRNO_MODE, INVALID_MODE)] INVALID_CONFIG r, map_option Suc pid, u\<lparr>kern := k\<rparr>))"

definition WRITE_SAMPLING_MESSAGE :: "resume \<Rightarrow> int \<Rightarrow> nat \<Rightarrow> int \<Rightarrow> libjet \<Rightarrow> (RETURN_CODE_TYPE \<times> libjet) option" where
  "WRITE_SAMPLING_MESSAGE resume SAMPLING_PORT_ID MESSAGE_ADDR LENGTH u =
     (if LENGTH \<le> 0 then Some (INVALID_PARAM, u)
      else if SAMPLING_PORT_ID \<le> 0 then Some (INVALID_PARAM, u)
      else do {
        (r, u) \<leftarrow> sys_return resume (pok_port_sampling_write (to_port_id (SAMPLING_PORT_ID - 1)) MESSAGE_ADDR (to_size LENGTH)) u;
        Some (map_error [(POK_ERRNO_OK, NO_ERROR), (POK_ERRNO_PORT, INVALID_PARAM), (POK_ERRNO_EINVAL, INVALID_CONFIG),
          (POK_ERRNO_DIRECTION, INVALID_MODE)] INVALID_CONFIG r, u)
      })"

text \<open>The out parameters are the length, stored by the kernel, and the validity.\<close>

definition READ_SAMPLING_MESSAGE ::
  "resume \<Rightarrow> int \<Rightarrow> nat \<Rightarrow> bool \<Rightarrow> libjet \<Rightarrow> ((RETURN_CODE_TYPE \<times> nat option \<times> bool option) \<times> libjet) option" where
  "READ_SAMPLING_MESSAGE resume SAMPLING_PORT_ID MESSAGE_ADDR len_ok u =
     (if SAMPLING_PORT_ID \<le> 0 then Some ((INVALID_PARAM, None, None), u)
      else do {
        ((r, out), u) \<leftarrow> sys_out resume (pok_port_sampling_read (to_port_id (SAMPLING_PORT_ID - 1)) MESSAGE_ADDR len_ok True) u;
        Some ((map_error [(POK_ERRNO_OK, NO_ERROR), (POK_ERRNO_EMPTY, NO_ACTION), (POK_ERRNO_EINVAL, INVALID_PARAM),
          (POK_ERRNO_DIRECTION, INVALID_MODE)] INVALID_CONFIG r,
          map_option fst out, if r = POK_ERRNO_OK then map_option snd out else None), u)
      })"

definition GET_SAMPLING_PORT_ID :: "chars \<Rightarrow> libjet \<Rightarrow> RETURN_CODE_TYPE \<times> nat option" where
  "GET_SAMPLING_PORT_ID name u =
     (let (r, pid) = pok_port_sampling_id (Some name) True (kern u)
      in (map_error [(POK_ERRNO_OK, NO_ERROR)] INVALID_CONFIG r, map_option Suc pid))"

record SAMPLING_PORT_STATUS_TYPE =
  SP_MAX_MESSAGE_SIZE :: nat
  SP_PORT_DIRECTION :: pok_port_direction
  SP_REFRESH_PERIOD :: pok_time
  SP_LAST_MSG_VALIDITY :: bool

definition GET_SAMPLING_PORT_STATUS ::
  "resume \<Rightarrow> int \<Rightarrow> libjet \<Rightarrow> ((RETURN_CODE_TYPE \<times> SAMPLING_PORT_STATUS_TYPE option) \<times> libjet) option" where
  "GET_SAMPLING_PORT_STATUS resume SAMPLING_PORT_ID u =
     (if SAMPLING_PORT_ID \<le> 0 then Some ((INVALID_PARAM, None), u)
      else do {
        ((r, st), u) \<leftarrow> sys_out resume (pok_port_sampling_status (to_port_id (SAMPLING_PORT_ID - 1)) True) u;
        Some ((map_error [(POK_ERRNO_OK, NO_ERROR)] INVALID_PARAM r,
          if r = POK_ERRNO_OK then map_option (\<lambda>st. \<lparr>SP_MAX_MESSAGE_SIZE = ss_size st, SP_PORT_DIRECTION = ss_direction st,
            SP_REFRESH_PERIOD = ss_refresh st, SP_LAST_MSG_VALIDITY = ss_validity st\<rparr>) st else None), u)
      })"

text \<open>The result of the system call, an error number, is returned as a boolean: \<open>POK_ERRNO_OK\<close>, which
  is 0, as false and every other number as true.\<close>

definition SYS_SAMPLING_PORT_CHECK_IS_NEW_DATA :: "resume \<Rightarrow> int \<Rightarrow> libjet \<Rightarrow> (bool \<times> libjet) option" where
  "SYS_SAMPLING_PORT_CHECK_IS_NEW_DATA resume SAMPLING_PORT_ID u = do {
     (r, u) \<leftarrow> sys_return resume (pok_port_sampling_check (to_port_id (SAMPLING_PORT_ID - 1))) u;
     Some (r \<noteq> POK_ERRNO_OK, u)
   }"

subsection \<open>Results of the services of sampling ports\<close>

text \<open>A port that the identifier \<open>p + 1\<close> names.\<close>

definition sampling_port :: "nat \<Rightarrow> pok_port_direction \<Rightarrow> arinc \<Rightarrow> bool" where
  "sampling_port p dir k \<longleftrightarrow> p < 256 \<and> p < length (ports_sampling k) \<and> ps_is_created (ports_sampling k ! p)
     \<and> ps_direction (ports_sampling k ! p) = dir"

lemma sampling_port_get: "sampling_port p dir k \<Longrightarrow> get_port_sampling (to_port_id (int p + 1 - 1)) k = Some (Some p)"
  by (simp add: sampling_port_def get_port_sampling_def to_port_id_def)

lemma sys_return_Ret: "call (kern u) = Some (Ret e, k) \<Longrightarrow> sys_return resume call u = Some (e, u\<lparr>kern := k\<rparr>)"
  by (simp add: sys_return_def)

lemma sys_return_Leave:
  "call (kern u) = Some (Leave e, k) \<Longrightarrow> sys_return resume call u = do { u \<leftarrow> resume (u\<lparr>kern := k\<rparr>); Some (e, u) }"
  by (simp add: sys_return_def)

text \<open>
  The question whether there is new data in a sampling port is answered with the opposite: the
  system call returns the number 0 if there is, which the library passes on as the boolean false.
\<close>

theorem new_data_check_inverted:
  assumes "SYS_SAMPLING_PORT_CHECK_IS_NEW_DATA resume (int p + 1) u = Some (answer, u')"
    and "sampling_port p POK_PORT_DIRECTION_IN (kern u)"
    and "ch = channels_sampling (kern u) (ps_channel (ports_sampling (kern u) ! p))"
  shows "answer \<longleftrightarrow> \<not> fst (pok_channel_sampling_r_check_new_message ch)"
proof -
  have d: "ps_direction (ports_sampling (kern u) ! p) = POK_PORT_DIRECTION_IN" using assms(2) by (simp add: sampling_port_def)
  obtain s where s: "pok_preemption_local_disable (kern u) = Some s"
    using assms(1) sampling_port_get [OF assms(2)] d
    by (auto simp: SYS_SAMPLING_PORT_CHECK_IS_NEW_DATA_def sys_return_def pok_port_sampling_check_def split: bind_splits)
  have f: "ports_sampling s = ports_sampling (kern u)" "channels_sampling s = channels_sampling (kern u)"
    using s by (auto simp: pok_preemption_local_disable_def upd_base_def split: if_splits)
  obtain new c' where n: "pok_channel_sampling_r_check_new_message ch = (new, c')" by fastforce
  have "pok_port_sampling_check (to_port_id (int p + 1 - 1)) (kern u)
     = Some (Leave (if new then POK_ERRNO_OK else POK_ERRNO_EMPTY), upd_sampling (ps_channel (ports_sampling (kern u) ! p)) c' s)"
    using sampling_port_get [OF assms(2)] d s f n assms(3) by (simp add: pok_port_sampling_check_def Let_def)
  then show ?thesis
    using assms(1) n by (auto simp: SYS_SAMPLING_PORT_CHECK_IS_NEW_DATA_def sys_return_Leave split: bind_splits if_splits)
qed

definition example_sampled :: libjet where
  "example_sampled = upd_kern (\<lambda>k. k\<lparr>ports_sampling := [\<lparr>ps_name = (\<lambda>_. 0), ps_channel = 0, ps_direction = POK_PORT_DIRECTION_IN,
     ps_is_created = True, refresh_period = 1000, last_message_validity = False\<rparr>],
     channels_sampling := (\<lambda>c. (channels_sampling k c)\<lparr>read_pos := 0, read_pos_next := 1\<rparr>)\<rparr>) example_lib"

theorem new_data_check_inverted_witness:
  "\<exists>u'. SYS_SAMPLING_PORT_CHECK_IS_NEW_DATA resume_alone 1 example_sampled = Some (False, u')"
proof -
  let ?ch = "channels_sampling (kern example_sampled) 0"
  have p: "sampling_port 0 POK_PORT_DIRECTION_IN (kern example_sampled)"
    by (simp add: sampling_port_def example_sampled_def upd_kern_def)
  have new: "fst (pok_channel_sampling_r_check_new_message ?ch)"
    by (simp add: pok_channel_sampling_r_check_new_message_def example_sampled_def upd_kern_def)
  have "\<not> preempt_local_disabled (base_part (kern example_sampled))"
    using example_section_fields(8) by (simp add: example_sampled_def upd_kern_def example_lib_def)
  then have "\<exists>r. SYS_SAMPLING_PORT_CHECK_IS_NEW_DATA resume_alone (int 0 + 1) example_sampled = Some r"
    using p by (simp add: SYS_SAMPLING_PORT_CHECK_IS_NEW_DATA_def sys_return_def pok_port_sampling_check_def
        get_port_sampling_def to_port_id_def sampling_port_def pok_preemption_local_disable_def resume_alone_def Let_def
        split: prod.split)
  then obtain answer u' where r: "SYS_SAMPLING_PORT_CHECK_IS_NEW_DATA resume_alone (int 0 + 1) example_sampled = Some (answer, u')"
    by fastforce
  have "ps_channel (ports_sampling (kern example_sampled) ! 0) = 0" by (simp add: example_sampled_def upd_kern_def)
  then show ?thesis using new_data_check_inverted [OF r p refl] new r by simp
qed

text \<open>What a refused call to write a message returns. The table of the library has a line for a port of
  the wrong direction, but for another error number than the kernel's.\<close>

lemma write_sampling_refused:
  "n \<le> 0 \<Longrightarrow> WRITE_SAMPLING_MESSAGE resume pid a n u = Some (INVALID_PARAM, u)"
  "pid \<le> 0 \<Longrightarrow> WRITE_SAMPLING_MESSAGE resume pid a n u = Some (INVALID_PARAM, u)"
  "sampling_port p POK_PORT_DIRECTION_IN (kern u) \<Longrightarrow> 0 < n \<Longrightarrow> n < 2 ^ 31 \<Longrightarrow>
     WRITE_SAMPLING_MESSAGE resume (int p + 1) a n u = Some (INVALID_CONFIG, u)"
proof -
  show "n \<le> 0 \<Longrightarrow> WRITE_SAMPLING_MESSAGE resume pid a n u = Some (INVALID_PARAM, u)"
    "pid \<le> 0 \<Longrightarrow> WRITE_SAMPLING_MESSAGE resume pid a n u = Some (INVALID_PARAM, u)"
    by (simp_all add: WRITE_SAMPLING_MESSAGE_def)
  assume p: "sampling_port p POK_PORT_DIRECTION_IN (kern u)" and n: "0 < n" "n < 2 ^ 31"
  have d: "ps_direction (ports_sampling (kern u) ! p) \<noteq> POK_PORT_DIRECTION_OUT" using p by (simp add: sampling_port_def)
  have "\<exists>e. e \<in> {POK_ERRNO_EINVAL, POK_ERRNO_MODE} \<and> pok_port_sampling_write (to_port_id (int p + 1 - 1)) a (to_size n) (kern u) = Some (Ret e, kern u)"
    using sampling_port_get [OF p] d by (auto simp: pok_port_sampling_write_def Let_def)
  then show "WRITE_SAMPLING_MESSAGE resume (int p + 1) a n u = Some (INVALID_CONFIG, u)"
    using n(1) by (auto simp: WRITE_SAMPLING_MESSAGE_def sys_return_Ret map_error_def)
qed

end
