(* ===== verification/NetBytes.thy ===== *)
theory NetBytes
  imports Prelude "HOL-Library.Word"
begin

section \<open>Bytes and byte order of the network code\<close>

text \<open>
  The network components (\<open>syspart/components\<close>) write headers into memory by packed structures.
  Memory is a map from addresses to bytes; a field of 16 or 32 bits is loaded and stored in the byte
  order of the processor, which the parameter \<open>le\<close> gives (\<open>__BYTE_ORDER__\<close>: little endian or not).
  The functions of \<open>net/byteorder.h\<close> turn values of that order into network order and back.
\<close>

type_synonym net_mem = "nat \<Rightarrow> 8 word"

named_theorems net_simps \<open>loads from memory after stores\<close>

subsection \<open>Words of two and four bytes\<close>

definition join2 :: "8 word \<Rightarrow> 8 word \<Rightarrow> 16 word" where
  "join2 hi lo = push_bit 8 (ucast hi) OR ucast lo"

definition byte1 :: "16 word \<Rightarrow> 8 word" where
  "byte1 x = ucast (drop_bit 8 x)"

definition byte0 :: "16 word \<Rightarrow> 8 word" where
  "byte0 x = ucast x"

definition join4 :: "16 word \<Rightarrow> 16 word \<Rightarrow> 32 word" where
  "join4 hi lo = push_bit 16 (ucast hi) OR ucast lo"

definition half1 :: "32 word \<Rightarrow> 16 word" where
  "half1 x = ucast (drop_bit 16 x)"

definition half0 :: "32 word \<Rightarrow> 16 word" where
  "half0 x = ucast x"

lemma join2_bytes [simp]: "join2 (byte1 x) (byte0 x) = x"
  by (rule bit_word_eqI) (auto simp: join2_def byte1_def byte0_def bit_simps)

lemma bytes_join2 [simp]: "byte1 (join2 h l) = h" "byte0 (join2 h l) = l"
  by (rule bit_word_eqI; auto simp: join2_def byte1_def byte0_def bit_simps dest: bit_imp_le_length)+

lemma join4_halves [simp]: "join4 (half1 x) (half0 x) = x"
  by (rule bit_word_eqI) (auto simp: join4_def half1_def half0_def bit_simps)

lemma halves_join4 [simp]: "half1 (join4 h l) = h" "half0 (join4 h l) = l"
  by (rule bit_word_eqI; auto simp: join4_def half1_def half0_def bit_simps dest: bit_imp_le_length)+

lemma join2_inject [simp]: "join2 a b = join2 c d \<longleftrightarrow> a = c \<and> b = d"
  using bytes_join2 by metis

lemma unat_byte: "unat b < 256" for b :: "8 word"
  using unsigned_less [of b, where 'a = nat] by simp

lemma unat_half: "unat x < 65536" for x :: "16 word"
  using unsigned_less [of x, where 'a = nat] by simp

lemma unat_join2: "unat (join2 h l) = 256 * unat h + unat l"
proof -
  have "push_bit 8 (ucast h :: 16 word) AND ucast l = 0" by (rule bit_word_eqI) (auto simp: bit_simps dest: bit_imp_le_length)
  then have "join2 h l = push_bit 8 (ucast h) + ucast l" by (simp add: join2_def disjunctive_add_eq_or)
  moreover have "unat h < 256" "unat l < 256" by (rule unat_byte)+
  ultimately show ?thesis
    by (simp add: unat_word_ariths push_bit_eq_mult unsigned_ucast_eq take_bit_eq_mod)
qed

lemma bytes_0 [simp]: "byte1 0 = 0" "byte0 0 = 0" "join2 0 0 = 0"
  by (simp_all add: byte1_def byte0_def join2_def)

subsection \<open>Loads and stores\<close>

definition load16 :: "bool \<Rightarrow> net_mem \<Rightarrow> nat \<Rightarrow> 16 word" where
  "load16 le m a = (if le then join2 (m (a + 1)) (m a) else join2 (m a) (m (a + 1)))"

definition store16 :: "bool \<Rightarrow> nat \<Rightarrow> 16 word \<Rightarrow> net_mem \<Rightarrow> net_mem" where
  "store16 le a v m = (if le then m(a := byte0 v, a + 1 := byte1 v) else m(a := byte1 v, a + 1 := byte0 v))"

definition load32 :: "bool \<Rightarrow> net_mem \<Rightarrow> nat \<Rightarrow> 32 word" where
  "load32 le m a = (if le then join4 (load16 le m (a + 2)) (load16 le m a) else join4 (load16 le m a) (load16 le m (a + 2)))"

definition store32 :: "bool \<Rightarrow> nat \<Rightarrow> 32 word \<Rightarrow> net_mem \<Rightarrow> net_mem" where
  "store32 le a v m = (if le then store16 le (a + 2) (half1 v) (store16 le a (half0 v) m)
     else store16 le (a + 2) (half0 v) (store16 le a (half1 v) m))"

definition read_bytes :: "net_mem \<Rightarrow> nat \<Rightarrow> nat \<Rightarrow> 8 word list" where
  "read_bytes m a n = map (\<lambda>i. m (a + i)) [0..<n]"

definition write_bytes :: "nat \<Rightarrow> 8 word list \<Rightarrow> net_mem \<Rightarrow> net_mem" where
  "write_bytes a bs m = (\<lambda>x. if a \<le> x \<and> x < a + length bs then bs ! (x - a) else m x)"

lemma read_bytes_length [simp]: "length (read_bytes m a n) = n"
  by (simp add: read_bytes_def)

lemma read_bytes_nth [simp]: "i < n \<Longrightarrow> read_bytes m a n ! i = m (a + i)"
  by (simp add: read_bytes_def)

lemma read_bytes_eq: "read_bytes m a n = read_bytes m' a' n \<longleftrightarrow> (\<forall>i < n. m (a + i) = m' (a' + i))"
  by (auto simp: list_eq_iff_nth_eq)

lemma read_bytes_add: "read_bytes m a (n + k) = read_bytes m a n @ read_bytes m (a + n) k"
  by (rule nth_equalityI) (auto simp: nth_append)

lemma write_read_bytes [simp]: "read_bytes (write_bytes a bs m) a (length bs) = bs"
  by (rule nth_equalityI) (simp_all add: write_bytes_def)

lemma write_bytes_out: "x < a \<or> a + length bs \<le> x \<Longrightarrow> write_bytes a bs m x = m x"
  by (auto simp: write_bytes_def)

lemma list6: "length xs = 6 \<Longrightarrow> xs = [xs ! 0, xs ! 1, xs ! 2, xs ! 3, xs ! 4, xs ! 5]"
  by (intro nth_equalityI) (auto simp: less_Suc_eq numeral_eq_Suc)

subsection \<open>Network byte order\<close>

definition bswap32 :: "32 word \<Rightarrow> 32 word" where
  "bswap32 x = join4 (join2 (byte0 (half0 x)) (byte1 (half0 x))) (join2 (byte0 (half1 x)) (byte1 (half1 x)))"

definition hton16 :: "bool \<Rightarrow> 16 word \<Rightarrow> 16 word" where
  "hton16 le x = (if le then (drop_bit 8 x AND 0xFF) OR push_bit 8 (x AND 0xFF) else x)"

definition ntoh16 :: "bool \<Rightarrow> 16 word \<Rightarrow> 16 word" where
  "ntoh16 le x = (if le then hton16 le x else x)"

definition hton32 :: "bool \<Rightarrow> 32 word \<Rightarrow> 32 word" where
  "hton32 le x = (if le then bswap32 x else x)"

definition ntoh32 :: "bool \<Rightarrow> 32 word \<Rightarrow> 32 word" where
  "ntoh32 le x = (if le then bswap32 x else x)"

lemma hton16_swap: "hton16 le x = (if le then join2 (byte0 x) (byte1 x) else x)"
proof -
  have m: "y AND 0xFF = take_bit 8 y" for y :: "16 word" by (simp add: take_bit_eq_mask mask_eq_exp_minus_1)
  show ?thesis
    by (cases le; intro bit_word_eqI)
      (auto simp: hton16_def m join2_def byte1_def byte0_def bit_simps dest: bit_imp_le_length)
qed

lemma hton16_inject [simp]: "hton16 le x = hton16 le y \<longleftrightarrow> x = y"
  unfolding hton16_swap by (metis join2_bytes join2_inject)

lemma ntoh16_is_hton16: "ntoh16 le x = hton16 le x"
  by (simp add: ntoh16_def hton16_def)

lemma ntoh_hton [simp]: "ntoh16 le (hton16 le x) = x" "ntoh32 le (hton32 le y) = y"
  by (simp_all add: ntoh16_is_hton16 hton16_swap ntoh32_def hton32_def bswap32_def)

text \<open>Between memory and network order the byte order of the processor cancels out.\<close>

definition net16 :: "net_mem \<Rightarrow> nat \<Rightarrow> 16 word" where
  "net16 m a = join2 (m a) (m (a + 1))"

definition net32 :: "net_mem \<Rightarrow> nat \<Rightarrow> 32 word" where
  "net32 m a = join4 (net16 m a) (net16 m (a + 2))"

lemma ntoh_load [simp]: "ntoh16 le (load16 le m a) = net16 m a" "ntoh32 le (load32 le m a) = net32 m a"
  by (simp_all add: ntoh16_is_hton16 hton16_swap load16_def net16_def ntoh32_def load32_def net32_def bswap32_def)

lemma load_eq_hton: "load16 le m a = hton16 le v \<longleftrightarrow> net16 m a = v"
  by (metis ntoh_hton(1) ntoh_load(1) ntoh16_is_hton16 hton16_inject)

lemma store16_hton: "store16 le a (hton16 le v) m = m(a := byte1 v, a + 1 := byte0 v)"
  by (simp add: store16_def hton16_swap fun_upd_twist)

lemma store32_hton: "store32 le a (hton32 le v) m
    = m(a := byte1 (half1 v), a + 1 := byte0 (half1 v), a + 2 := byte1 (half0 v), a + 3 := byte0 (half0 v))"
  by (auto simp: store32_def store16_def hton32_def bswap32_def fun_upd_twist numeral_3_eq_3 fun_eq_iff)

lemma load_store16 [simp]: "load16 le (store16 le a v m) a = v"
  by (simp add: load16_def store16_def)

lemma store16_out [net_simps]: "x \<noteq> a \<Longrightarrow> x \<noteq> a + 1 \<Longrightarrow> store16 le a v m x = m x"
  by (simp add: store16_def)

lemma load16_out [net_simps]: "x + 2 \<le> a \<or> a + 2 \<le> x \<Longrightarrow> load16 le (store16 le a v m) x = load16 le m x"
  by (auto simp: load16_def store16_def)

lemma load16_copy: "m' b = m a \<Longrightarrow> m' (b + 1) = m (a + 1) \<Longrightarrow> load16 le m' b = load16 le m a"
  by (simp add: load16_def)

lemma net16_copy: "m' b = m a \<Longrightarrow> m' (b + 1) = m (a + 1) \<Longrightarrow> net16 m' b = net16 m a"
  by (simp add: net16_def)

end
