(* ===== verification/NetStack.thy ===== *)
theory NetStack
  imports NetBytes
begin

section \<open>UDP, IP and Ethernet in the system partition\<close>

text \<open>
  The components \<open>UDP_IP_SENDER\<close>, \<open>MAC_SENDER\<close>, \<open>MAC_RECEIVER\<close>, \<open>UDP_RECEIVER\<close> and \<open>ROUTER\<close>
  (\<open>syspart/components/udp_ip\<close>, \<open>syspart/components/mac\<close>). A payload is handed down by pointer; each
  component writes its header in front of it, in the space that \<open>max_backstep\<close> promises. The
  component behind a port is given by the configuration; the pointer to its function is a parameter.
  A pointer is an address, \<open>size_t\<close> has 32 bits; the buffers do not reach the end of the address space.
\<close>

datatype ret_t = EOK | EINVAL | EAGAIN

datatype ethertype = ETH_P_IP | ETH_P_ARP

definition ethertype_value :: "ethertype \<Rightarrow> 16 word" where
  "ethertype_value type = (case type of ETH_P_IP \<Rightarrow> 0x0800 | ETH_P_ARP \<Rightarrow> 0x0806)"

text \<open>What the components act on: memory, and whatever lies behind the last port.\<close>

record 'd net =
  bytes :: net_mem
  device :: 'd

abbreviation upd_bytes :: "(net_mem \<Rightarrow> net_mem) \<Rightarrow> 'd net \<Rightarrow> 'd net" where
  "upd_bytes f s \<equiv> s\<lparr>bytes := f (bytes s)\<rparr>"

subsection \<open>Checksum of the IP header\<close>

definition ip_header_words :: "net_mem \<Rightarrow> nat \<Rightarrow> nat" where
  "ip_header_words m a = unat (m a AND 0xf) * 2"

definition ip_hdr_checksum :: "bool \<Rightarrow> net_mem \<Rightarrow> nat \<Rightarrow> 16 word" where
  "ip_hdr_checksum le m a =
     (let acc = fold (\<lambda>i acc. acc + ucast (load16 le m (a + 2 * i))) [0..<ip_header_words m a] (0 :: 32 word)
      in ucast (NOT ((acc AND 0xFFFF) + drop_bit 16 acc)))"

subsection \<open>Sending a datagram\<close>

record UDP_IP_SENDER_state =
  src_ip :: "32 word"
  dst_ip :: "32 word"
  src_port :: "16 word"
  dst_port :: "16 word"
  dst_mac :: "8 word list"

definition UDP_IP_HEADER_SIZE :: nat where
  "UDP_IP_HEADER_SIZE = 20 + 8"

definition fill_in_udp_ip_header :: "bool \<Rightarrow> UDP_IP_SENDER_state \<Rightarrow> nat \<Rightarrow> nat \<Rightarrow> net_mem \<Rightarrow> net_mem" where
  "fill_in_udp_ip_header le state packet payload_size m =
     (let m = m(packet := push_bit 4 4 OR 5, packet + 1 := 0);
          m = store16 le (packet + 2) (hton16 le (of_nat (20 + 8 + payload_size))) m;
          m = store16 le (packet + 10) 0 m;
          m = store16 le (packet + 4) 0 m;
          m = store16 le (packet + 6) 0 m;
          m = m(packet + 8 := 32, packet + 9 := 17);
          m = store32 le (packet + 12) (hton32 le (src_ip state)) m;
          m = store32 le (packet + 16) (hton32 le (dst_ip state)) m;
          m = store16 le (packet + 10) (ip_hdr_checksum le m packet) m;
          m = store16 le (packet + 20) (hton16 le (src_port state)) m;
          m = store16 le (packet + 22) (hton16 le (dst_port state)) m;
          m = store16 le (packet + 24) (hton16 le (of_nat (payload_size + 8))) m
      in store16 le (packet + 26) 0 m)"

definition udp_ip_send ::
  "bool \<Rightarrow> (nat \<Rightarrow> nat \<Rightarrow> nat \<Rightarrow> 8 word list \<Rightarrow> ethertype \<Rightarrow> 'd net \<Rightarrow> ret_t \<times> 'd net)
   \<Rightarrow> UDP_IP_SENDER_state \<Rightarrow> nat \<Rightarrow> nat \<Rightarrow> nat \<Rightarrow> 'd net \<Rightarrow> ret_t \<times> 'd net" where
  "udp_ip_send le portB_mac_send state payload payload_size max_backstep s =
     (if max_backstep < UDP_IP_HEADER_SIZE then (EINVAL, s)
      else
        (let udp_packet = payload - UDP_IP_HEADER_SIZE;
             s = upd_bytes (fill_in_udp_ip_header le state udp_packet payload_size) s
         in portB_mac_send udp_packet (payload_size + UDP_IP_HEADER_SIZE) (max_backstep - UDP_IP_HEADER_SIZE)
              (dst_mac state) ETH_P_IP s))"

subsection \<open>Sending a frame\<close>

definition MAC_HEADER_SIZE :: nat where
  "MAC_HEADER_SIZE = 14"

definition ETH_ALEN :: nat where
  "ETH_ALEN = 6"

definition fill_in_mac_header :: "bool \<Rightarrow> 8 word list \<Rightarrow> nat \<Rightarrow> 8 word list \<Rightarrow> ethertype \<Rightarrow> net_mem \<Rightarrow> net_mem" where
  "fill_in_mac_header le src_mac packet dst type m =
     (let m = fold (\<lambda>i m. m(packet + ETH_ALEN + i := src_mac ! i, packet + i := dst ! i)) [0..<ETH_ALEN] m
      in store16 le (packet + 2 * ETH_ALEN) (hton16 le (ethertype_value type)) m)"

definition mac_send ::
  "bool \<Rightarrow> (nat \<Rightarrow> nat \<Rightarrow> nat \<Rightarrow> 'd net \<Rightarrow> ret_t \<times> 'd net) \<Rightarrow> 8 word list
   \<Rightarrow> nat \<Rightarrow> nat \<Rightarrow> nat \<Rightarrow> 8 word list \<Rightarrow> ethertype \<Rightarrow> 'd net \<Rightarrow> ret_t \<times> 'd net" where
  "mac_send le portB_send src_mac payload payload_size max_backstep dst type s =
     (if max_backstep < MAC_HEADER_SIZE then (EINVAL, s)
      else
        (let mac_packet = payload - MAC_HEADER_SIZE;
             s = upd_bytes (fill_in_mac_header le src_mac mac_packet dst type) s
         in (EOK, snd (portB_send mac_packet (payload_size + MAC_HEADER_SIZE) (max_backstep - MAC_HEADER_SIZE) s))))"

subsection \<open>Receiving\<close>

definition ether_is_multicast :: "net_mem \<Rightarrow> nat \<Rightarrow> bool" where
  "ether_is_multicast m addr \<longleftrightarrow> m addr AND 0x01 \<noteq> 0"

definition mac_receive ::
  "bool \<Rightarrow> 8 word list \<Rightarrow> (nat \<Rightarrow> nat \<Rightarrow> 'd net \<Rightarrow> ret_t \<times> 'd net) \<Rightarrow> (nat \<Rightarrow> nat \<Rightarrow> 'd net \<Rightarrow> ret_t \<times> 'd net)
   \<Rightarrow> nat \<Rightarrow> nat \<Rightarrow> 'd net \<Rightarrow> ret_t \<times> 'd net" where
  "mac_receive le my_mac port_ARP_handle port_UDP_handle data len s =
     (if len < MAC_HEADER_SIZE then (EINVAL, s)
      else if \<not> ether_is_multicast (bytes s) data \<and> read_bytes (bytes s) data ETH_ALEN \<noteq> my_mac then (EINVAL, s)
      else if load16 le (bytes s) (data + 2 * ETH_ALEN) = hton16 le (ethertype_value ETH_P_ARP)
      then port_ARP_handle (data + MAC_HEADER_SIZE) (len - MAC_HEADER_SIZE) s
      else if load16 le (bytes s) (data + 2 * ETH_ALEN) = hton16 le (ethertype_value ETH_P_IP)
      then port_UDP_handle (data + MAC_HEADER_SIZE) (len - MAC_HEADER_SIZE) s
      else (EINVAL, s))"

text \<open>The subtraction of the header's length from \<open>len\<close> wraps at 32 bits.\<close>

definition size_sub :: "nat \<Rightarrow> nat \<Rightarrow> nat" where
  "size_sub a b = (a + 2 ^ 32 - b) mod 2 ^ 32"

lemma size_sub_le: "b \<le> a \<Longrightarrow> a < 2 ^ 32 \<Longrightarrow> size_sub a b = a - b"
proof -
  assume a: "b \<le> a" "a < 2 ^ 32"
  then have "a + 2 ^ 32 - b = (a - b) + 2 ^ 32" by simp
  then show ?thesis using a by (simp only: size_sub_def mod_add_self2) (rule mod_less, simp)
qed

lemma size_sub_wrap: "a < b \<Longrightarrow> b < 2 ^ 16 \<Longrightarrow> 2 ^ 16 \<le> size_sub a b"
  by (simp add: size_sub_def)

definition udp_receive ::
  "bool \<Rightarrow> (nat \<Rightarrow> nat \<Rightarrow> 32 word \<Rightarrow> 16 word \<Rightarrow> 'd net \<Rightarrow> ret_t \<times> 'd net) \<Rightarrow> nat \<Rightarrow> nat \<Rightarrow> 'd net \<Rightarrow> ret_t \<times> 'd net" where
  "udp_receive le portB_udp_message_handle data len s =
     (let m = bytes s;
          header_len = unat (m data AND 0xf) * 4;
          ip_len = unat (ntoh16 le (load16 le m (data + 2))) in
      if len < 20 \<or> len < header_len then (EINVAL, s)
      else if len < ip_len then (EINVAL, s)
      else
        (let len = size_sub ip_len header_len;
             udp = data + header_len in
         if ip_hdr_checksum le m data \<noteq> 0 then (EINVAL, s)
         else if m (data + 9) \<noteq> 17 then (EINVAL, s)
         else if len < 8 then (EINVAL, s)
         else if unat (ntoh16 le (load16 le m (udp + 4))) \<noteq> len then (EINVAL, s)
         else portB_udp_message_handle (udp + 8) (len - 8) (ntoh32 le (load32 le m (data + 16)))
                (ntoh16 le (load16 le m (udp + 2))) s))"

subsection \<open>Router\<close>

record udp_ip_pair =
  pair_ip :: "32 word"
  pair_port :: "16 word"

record ROUTER_state =
  map_ip_port_to_idx :: "udp_ip_pair list"

text \<open>The first \<open>map_ip_port_to_idx_len\<close> entries of the array are the list.\<close>

fun get_ip_port_index :: "udp_ip_pair list \<Rightarrow> nat \<Rightarrow> 32 word \<Rightarrow> 16 word \<Rightarrow> int" where
  "get_ip_port_index [] i ip port = -1"
| "get_ip_port_index (cur # rest) i ip port =
     (if pair_ip cur = ip \<and> pair_port cur = port then int i else get_ip_port_index rest (i + 1) ip port)"

definition receive_packet ::
  "ROUTER_state \<Rightarrow> (nat \<Rightarrow> nat \<Rightarrow> nat \<Rightarrow> 'd net \<Rightarrow> ret_t \<times> 'd net)
   \<Rightarrow> nat \<Rightarrow> nat \<Rightarrow> 32 word \<Rightarrow> 16 word \<Rightarrow> 'd net \<Rightarrow> ret_t \<times> 'd net" where
  "receive_packet state portArray_handle payload payload_size ip port s =
     (let idx = get_ip_port_index (map_ip_port_to_idx state) 0 ip port in
      if idx < 0 then (EINVAL, s)
      else (EOK, snd (portArray_handle (nat idx) payload payload_size s)))"

subsection \<open>The checksum in numbers\<close>

text \<open>
  The words of a header add up to a number that fits well into 32 bits; its halves are added once.
  Where that sum has a carry out of 16 bits, the carry is lost.
\<close>

definition sum16 :: "16 word list \<Rightarrow> nat" where
  "sum16 ws = sum_list (map unat ws)"

definition fold_once :: "nat \<Rightarrow> nat" where
  "fold_once S = S mod 65536 + S div 65536"

definition header_words :: "bool \<Rightarrow> net_mem \<Rightarrow> nat \<Rightarrow> nat \<Rightarrow> 16 word list" where
  "header_words le m a n = map (\<lambda>i. load16 le m (a + 2 * i)) [0..<n]"

lemma sum16_simps [simp]:
  "sum16 [] = 0" "sum16 (w # ws) = unat w + sum16 ws" "sum16 (xs @ ys) = sum16 xs + sum16 ys"
  by (simp_all add: sum16_def)

lemma sum16_bound: "sum16 ws \<le> 65535 * length ws"
proof (induction ws)
  case (Cons w ws)
  then show ?case using unat_half [of w] by simp
qed simp

lemma header_words_simps [simp]:
  "header_words le m a 0 = []" "header_words le m a (Suc n) = header_words le m a n @ [load16 le m (a + 2 * n)]"
  "length (header_words le m a n) = n"
  by (simp_all add: header_words_def)

lemma unat_ucast_half: "unat (ucast x :: 32 word) = unat x" for x :: "16 word"
  using unat_half [of x] by (simp add: unsigned_ucast_eq take_bit_eq_mod)

lemma checksum_sum:
  assumes "n \<le> 30"
  shows "unat (fold (\<lambda>i acc. acc + ucast (load16 le m (a + 2 * i))) [0..<n] (0 :: 32 word)) = sum16 (header_words le m a n)"
  using assms
proof (induction n)
  case (Suc n)
  have "sum16 (header_words le m a n) \<le> 65535 * 30" using sum16_bound [of "header_words le m a n"] Suc.prems by simp
  then show ?case using Suc unat_half [of "load16 le m (a + 2 * n)"] by (simp add: unat_word_ariths unat_ucast_half)
qed simp

lemma ip_header_words_bound: "ip_header_words m a \<le> 30"
proof -
  have "unat (m a AND 0xf) \<le> unat (0xf :: 8 word)"
    by (rule word_and_le1 [THEN word_le_nat_alt [THEN iffD1]])
  then show ?thesis by (simp add: ip_header_words_def)
qed

lemma unat_not16: "unat (NOT x) = 65535 - unat x" for x :: "16 word"
proof -
  have "NOT x = - 1 - x" by (simp add: not_eq_complement)
  then have "unat (NOT x) = unat (- 1 - x)" by simp
  also have "\<dots> = unat (- 1 :: 16 word) - unat x" by (rule unat_sub) simp
  also have "unat (- 1 :: 16 word) = 65535" by (simp add: unsigned_minus_1_eq_mask mask_eq_exp_minus_1)
  finally show ?thesis .
qed

lemma unat_checksum:
  "unat (ip_hdr_checksum le m a) = 65535 - fold_once (sum16 (header_words le m a (ip_header_words m a))) mod 65536"
proof -
  define acc where "acc = fold (\<lambda>i acc. acc + ucast (load16 le m (a + 2 * i))) [0..<ip_header_words m a] (0 :: 32 word)"
  define S where "S = sum16 (header_words le m a (ip_header_words m a))"
  have S: "unat acc = S" unfolding acc_def S_def by (rule checksum_sum [OF ip_header_words_bound])
  have b: "S \<le> 65535 * 30"
    using sum16_bound [of "header_words le m a (ip_header_words m a)"] ip_header_words_bound [of m a] by (simp add: S_def)
  have "(0xFFFF :: 32 word) = mask 16" by (simp add: mask_eq_exp_minus_1)
  then have "acc AND 0xFFFF = take_bit 16 acc" by (simp only: take_bit_eq_mask)
  then have "unat (acc AND 0xFFFF) = take_bit 16 S" by (simp only: unsigned_take_bit_eq S)
  moreover have "unat (drop_bit 16 acc) = drop_bit 16 S" by (simp only: unat_drop_bit_eq S)
  ultimately have u: "unat (acc AND 0xFFFF) = S mod 65536" "unat (drop_bit 16 acc) = S div 65536"
    using b by (simp_all add: take_bit_eq_mod drop_bit_eq_div)
  have "unat ((acc AND 0xFFFF) + drop_bit 16 acc) = fold_once S"
    using b by (simp add: unat_word_ariths u fold_once_def)
  then have "unat (ucast ((acc AND 0xFFFF) + drop_bit 16 acc) :: 16 word) = fold_once S mod 65536"
    by (simp add: unsigned_ucast_eq take_bit_eq_mod)
  moreover have "ip_hdr_checksum le m a = NOT (ucast ((acc AND 0xFFFF) + drop_bit 16 acc))"
    unfolding ip_hdr_checksum_def acc_def Let_def by (rule bit_word_eqI) (simp add: bit_simps)
  ultimately show ?thesis by (simp add: unat_not16 S_def)
qed

subsection \<open>Which headers are accepted\<close>

text \<open>The sum of RFC 1071: every carry out of the 16 bits is added back.\<close>

definition oc_add :: "nat \<Rightarrow> nat \<Rightarrow> nat" where
  "oc_add x y = (if x + y < 65536 then x + y else x + y - 65535)"

definition ones_complement_sum :: "16 word list \<Rightarrow> nat" where
  "ones_complement_sum ws = fold (\<lambda>w acc. oc_add acc (unat w)) ws 0"

lemma oc_sum_mod:
  "acc < 65536 \<Longrightarrow> fold (\<lambda>w acc. oc_add acc (unat w)) ws acc < 65536
     \<and> fold (\<lambda>w acc. oc_add acc (unat w)) ws acc mod 65535 = (acc + sum16 ws) mod 65535
     \<and> (fold (\<lambda>w acc. oc_add acc (unat w)) ws acc = 0 \<longleftrightarrow> acc = 0 \<and> sum16 ws = 0)"
proof (induction ws arbitrary: acc)
  case (Cons w ws)
  define x where "x = oc_add acc (unat w)"
  have x: "x < 65536" "x mod 65535 = (acc + unat w) mod 65535" "x = 0 \<longleftrightarrow> acc = 0 \<and> unat w = 0"
    using Cons.prems unat_half [of w] unfolding x_def oc_add_def by (simp_all add: le_mod_geq, linarith)
  have "(x + sum16 ws) mod 65535 = (acc + unat w + sum16 ws) mod 65535"
    by (rule mod_add_cong [OF x(2) refl])
  then show ?case using Cons.IH [OF x(1)] x(3) by (simp add: x_def add.assoc)
qed simp

lemma ones_complement_sum_full:
  "ones_complement_sum ws = 65535 \<longleftrightarrow> 0 < sum16 ws \<and> 65535 dvd sum16 ws"
proof -
  have n: "x = 65535 \<longleftrightarrow> x \<noteq> 0 \<and> x mod 65535 = 0" if "x < 65536" for x :: nat
    using that by (cases "x = 65535") (auto simp: less_Suc_eq)
  show ?thesis
    using oc_sum_mod [of 0 ws] n [of "ones_complement_sum ws"] by (auto simp: ones_complement_sum_def dvd_eq_mod_eq_0)
qed

lemma fold_once_full:
  assumes "S \<le> 65535 * 30"
  shows "fold_once S mod 65536 = 65535 \<longleftrightarrow> 0 < S \<and> 65535 dvd S"
proof -
  define h l where "h = S div 65536" and "l = S mod 65536"
  have hl: "S = 65535 * h + (h + l)" "h < 30" "l < 65536" using assms by (simp_all add: h_def l_def)
  have "65535 dvd S \<longleftrightarrow> 65535 dvd h + l" using dvd_add_right_iff [of 65535 "65535 * h" "h + l"] hl(1) by simp
  also have "\<dots> \<longleftrightarrow> h + l = 0 \<or> h + l = 65535"
  proof
    assume "65535 dvd h + l"
    then obtain k where "h + l = 65535 * k" by (rule dvdE)
    then show "h + l = 0 \<or> h + l = 65535" using hl(2,3) by (cases k) auto
  qed auto
  finally have d: "65535 dvd S \<longleftrightarrow> h + l = 0 \<or> h + l = 65535" .
  have "fold_once S = h + l" by (simp add: fold_once_def h_def l_def)
  moreover have "(h + l) mod 65536 = 65535 \<longleftrightarrow> h + l = 65535" using hl(2,3) by (cases "h + l < 65536") (auto simp: mod_if)
  ultimately show ?thesis using d hl by auto
qed

lemma unat_hton16: "unat (hton16 le w) mod 65535 = (if le then 256 else 1) * unat w mod 65535"
proof (cases le)
  case True
  have w: "unat w = 256 * unat (byte1 w) + unat (byte0 w)" using unat_join2 [of "byte1 w" "byte0 w"] by simp
  have "256 * unat w = unat (hton16 le w) + 65535 * unat (byte1 w)"
    using True by (simp add: hton16_swap unat_join2 w)
  then show ?thesis using True by simp
qed (simp add: hton16_swap)

lemma load16_net16: "load16 le m a = hton16 le (net16 m a)"
  by (simp add: load_eq_hton)

lemma sum16_hton:
  "65535 dvd sum16 (map (hton16 le) ws) \<longleftrightarrow> 65535 dvd sum16 ws" "0 < sum16 (map (hton16 le) ws) \<longleftrightarrow> 0 < sum16 ws"
proof -
  have m: "sum16 (map (hton16 le) ws) mod 65535 = (if le then 256 else 1) * sum16 ws mod 65535"
  proof (induction ws)
    case (Cons w ws)
    have "sum16 (map (hton16 le) (w # ws)) mod 65535
        = (unat (hton16 le w) mod 65535 + sum16 (map (hton16 le) ws) mod 65535) mod 65535"
      by (simp add: mod_add_eq)
    also have "\<dots> = ((if le then 256 else 1) * unat w + (if le then 256 else 1) * sum16 ws) mod 65535"
      unfolding unat_hton16 Cons.IH by (rule mod_add_eq)
    finally show ?case by (simp add: distrib_left split: if_splits)
  qed simp
  have "65535 dvd 256 * S \<longleftrightarrow> 65535 dvd S" for S :: nat
  proof
    assume "65535 dvd 256 * S"
    then have "65535 dvd 256 * (256 * S)" by (rule dvd_mult)
    then show "65535 dvd S" using dvd_add_right_iff [of 65535 "65535 * S" S] by simp
  qed simp
  then show "65535 dvd sum16 (map (hton16 le) ws) \<longleftrightarrow> 65535 dvd sum16 ws"
    using m by (cases le) (simp_all only: dvd_eq_mod_eq_0 if_True if_False mult_1)
  have "0 < unat (hton16 le w) \<longleftrightarrow> 0 < unat w" for w
    using unat_join2 [of "byte1 w" "byte0 w"] by (auto simp: hton16_swap unat_join2)
  then show "0 < sum16 (map (hton16 le) ws) \<longleftrightarrow> 0 < sum16 ws" by (induction ws) simp_all
qed

text \<open>The receiver's test is the one of the standard, whatever the byte order of the processor.\<close>

definition net_words :: "net_mem \<Rightarrow> nat \<Rightarrow> nat \<Rightarrow> 16 word list" where
  "net_words m a n = map (\<lambda>i. net16 m (a + 2 * i)) [0..<n]"

lemma header_words_net: "header_words le m a n = map (hton16 le) (net_words m a n)"
  by (simp add: header_words_def net_words_def load16_net16)

lemma checksum_zero:
  "ip_hdr_checksum le m a = 0 \<longleftrightarrow> 0 < sum16 (net_words m a (ip_header_words m a)) \<and> 65535 dvd sum16 (net_words m a (ip_header_words m a))"
proof -
  define ws where "ws = header_words le m a (ip_header_words m a)"
  have "ip_hdr_checksum le m a = 0 \<longleftrightarrow> unat (ip_hdr_checksum le m a) = 0" by (simp add: unat_eq_zero)
  also have "\<dots> \<longleftrightarrow> fold_once (sum16 ws) mod 65536 = 65535"
    unfolding unat_checksum ws_def using mod_less_divisor [of 65536 "fold_once (sum16 ws)"] by (auto simp: ws_def)
  also have "\<dots> \<longleftrightarrow> 0 < sum16 ws \<and> 65535 dvd sum16 ws"
  proof (rule fold_once_full)
    show "sum16 ws \<le> 65535 * 30" using sum16_bound [of ws] ip_header_words_bound [of m a] by (simp add: ws_def)
  qed
  finally show ?thesis using sum16_hton [of le "net_words m a (ip_header_words m a)"] by (simp add: ws_def header_words_net)
qed

lemma checksum_accepts_rfc1071:
  "ip_hdr_checksum le m a = 0 \<longleftrightarrow> ones_complement_sum (net_words m a (ip_header_words m a)) = 65535"
  by (simp only: checksum_zero ones_complement_sum_full)

subsection \<open>The header that is sent\<close>

definition ip_words :: "UDP_IP_SENDER_state \<Rightarrow> nat \<Rightarrow> 16 word \<Rightarrow> 16 word list" where
  "ip_words st sz c = [0x4500, of_nat (20 + 8 + sz), 0, 0, 0x2011, c,
     half1 (src_ip st), half0 (src_ip st), half1 (dst_ip st), half0 (dst_ip st)]"

lemma length_ip_words [simp]: "length (ip_words st sz c) = 10"
  by (simp add: ip_words_def)

definition udp_words :: "UDP_IP_SENDER_state \<Rightarrow> nat \<Rightarrow> 16 word list" where
  "udp_words st sz = [src_port st, dst_port st, of_nat (sz + 8), 0]"

definition net_bytes :: "16 word list \<Rightarrow> 8 word list" where
  "net_bytes ws = concat (map (\<lambda>w. [byte1 w, byte0 w]) ws)"

text \<open>The sum of the header without its checksum, as the sender's processor computes it.\<close>

definition header_sum :: "bool \<Rightarrow> UDP_IP_SENDER_state \<Rightarrow> nat \<Rightarrow> nat" where
  "header_sum le st sz = sum16 (map (hton16 le) (ip_words st sz 0))"

definition sent_checksum :: "bool \<Rightarrow> UDP_IP_SENDER_state \<Rightarrow> nat \<Rightarrow> 16 word" where
  "sent_checksum le st sz = of_nat (65535 - fold_once (header_sum le st sz) mod 65536)"

definition udp_ip_header :: "bool \<Rightarrow> UDP_IP_SENDER_state \<Rightarrow> nat \<Rightarrow> 8 word list" where
  "udp_ip_header le st sz = net_bytes (ip_words st sz (ntoh16 le (sent_checksum le st sz)) @ udp_words st sz)"

lemma write_bytes_eqI:
  assumes "read_bytes m' a (length bs) = bs" "\<And>x. x < a \<or> a + length bs \<le> x \<Longrightarrow> m' x = m x"
  shows "m' = write_bytes a bs m"
proof
  fix x
  show "m' x = write_bytes a bs m x"
  proof (cases "x < a \<or> a + length bs \<le> x")
    case False
    then obtain i where "x = a + i" "i < length bs" by (metis add_less_cancel_left le_add_diff_inverse not_less)
    moreover have "read_bytes m' a (length bs) ! i = bs ! i" using assms(1) by simp
    ultimately show ?thesis by (simp add: write_bytes_def)
  qed (simp add: assms(2) write_bytes_out)
qed

text \<open>The memory when the checksum is computed, and after it.\<close>

definition ip_part :: "bool \<Rightarrow> UDP_IP_SENDER_state \<Rightarrow> nat \<Rightarrow> nat \<Rightarrow> net_mem \<Rightarrow> net_mem" where
  "ip_part le st p sz m =
     (let m = m(p := push_bit 4 4 OR 5, p + 1 := 0);
          m = store16 le (p + 2) (hton16 le (of_nat (20 + 8 + sz))) m;
          m = store16 le (p + 10) 0 m;
          m = store16 le (p + 4) 0 m;
          m = store16 le (p + 6) 0 m;
          m = m(p + 8 := 32, p + 9 := 17);
          m = store32 le (p + 12) (hton32 le (src_ip st)) m
      in store32 le (p + 16) (hton32 le (dst_ip st)) m)"

lemma store16_0: "store16 le a 0 m = m(a := 0, a + 1 := 0)"
  using store16_hton [of le a 0 m] by (cases le) (simp_all add: hton16_swap)

lemma ip_part_words:
  "ip_header_words (ip_part le st p sz m) p = 10" "net_words (ip_part le st p sz m) p 10 = ip_words st sz 0"
proof -
  have j: "join2 (69 :: 8 word) 0 = 0x4500" "join2 (32 :: 8 word) 17 = 0x2011" "join2 0 0 = 0"
    by (simp_all add: join2_def)
  have v: "push_bit 4 4 OR 5 = (69 :: 8 word)" by simp
  have p: "ip_part le st p sz m p = 69"
    by (simp add: ip_part_def Let_def store16_hton store32_hton store16_0 v)
  then show "ip_header_words (ip_part le st p sz m) p = 10" by (simp add: ip_header_words_def)
  show "net_words (ip_part le st p sz m) p 10 = ip_words st sz 0"
    by (simp add: ip_part_def Let_def store16_hton store32_hton store16_0 v net_words_def upt_rec net16_def ip_words_def j)
qed

lemma ip_part_checksum: "ip_hdr_checksum le (ip_part le st p sz m) p = sent_checksum le st sz"
proof -
  have "unat (ip_hdr_checksum le (ip_part le st p sz m) p) = 65535 - fold_once (header_sum le st sz) mod 65536"
    by (simp add: unat_checksum ip_part_words header_words_net header_sum_def)
  from arg_cong [OF this, of "of_nat :: nat \<Rightarrow> 16 word"] show ?thesis by (simp add: sent_checksum_def)
qed

lemma net_bytes_simps [simp]:
  "net_bytes [] = []" "net_bytes (w # ws) = byte1 w # byte0 w # net_bytes ws" "length (net_bytes ws) = 2 * length ws"
proof -
  show "length (net_bytes ws) = 2 * length ws" by (induction ws) (simp_all add: net_bytes_def)
qed (simp_all add: net_bytes_def)

lemma length_udp_ip_header [simp]: "length (udp_ip_header le st sz) = 28"
  by (simp add: udp_ip_header_def ip_words_def udp_words_def)

lemma store16_native: "store16 le a c m = m(a := byte1 (ntoh16 le c), a + 1 := byte0 (ntoh16 le c))"
  using store16_hton [of le a "ntoh16 le c" m] by (cases le) (simp_all add: ntoh16_is_hton16 hton16_swap)

lemma fill_in_header: "fill_in_udp_ip_header le st p sz m = write_bytes p (udp_ip_header le st sz) m"
proof (rule write_bytes_eqI)
  define c where "c = ntoh16 le (sent_checksum le st sz)"
  have f: "fill_in_udp_ip_header le st p sz m
      = (let m = (ip_part le st p sz m)(p + 10 := byte1 c, p + 11 := byte0 c);
             m = store16 le (p + 20) (hton16 le (src_port st)) m;
             m = store16 le (p + 22) (hton16 le (dst_port st)) m;
             m = store16 le (p + 24) (hton16 le (of_nat (sz + 8))) m
         in store16 le (p + 26) 0 m)"
    unfolding fill_in_udp_ip_header_def ip_part_def [symmetric, unfolded Let_def] Let_def ip_part_checksum
      store16_native [of le "p + 10" "sent_checksum le st sz"] c_def by (simp add: ac_simps)
  have b: "byte1 0x4500 = 69" "byte0 0x4500 = 0" "byte1 0x2011 = 32" "byte0 0x2011 = 17" by (simp_all add: byte1_def byte0_def)
  have v: "push_bit 4 4 OR 5 = (69 :: 8 word)" by simp
  show "read_bytes (fill_in_udp_ip_header le st p sz m) p (length (udp_ip_header le st sz)) = udp_ip_header le st sz"
    unfolding f length_udp_ip_header udp_ip_header_def c_def [symmetric]
    by (simp add: ip_part_def Let_def store16_hton store32_hton store16_0 v b read_bytes_def upt_rec ip_words_def udp_words_def)
  fix x assume "x < p \<or> p + length (udp_ip_header le st sz) \<le> x"
  then show "fill_in_udp_ip_header le st p sz m x = m x"
    unfolding f by (auto simp: ip_part_def Let_def store16_hton store32_hton store16_0)
qed

definition mac_header :: "8 word list \<Rightarrow> 8 word list \<Rightarrow> ethertype \<Rightarrow> 8 word list" where
  "mac_header dst src type = dst @ src @ net_bytes [ethertype_value type]"

lemma fill_in_mac:
  assumes "length src = 6" "length dst = 6"
  shows "fill_in_mac_header le src p dst type m = write_bytes p (mac_header dst src type) m"
proof (rule write_bytes_eqI)
  have i: "[0..<6] = [0, 1, 2, 3, 4, 5 :: nat]" by (simp add: upt_rec)
  have f: "fill_in_mac_header le src p dst type m
     = (fold (\<lambda>i m. m(p + 6 + i := src ! i, p + i := dst ! i)) [0, 1, 2, 3, 4, 5] m)
       (p + 12 := byte1 (ethertype_value type), p + 13 := byte0 (ethertype_value type))"
    unfolding fill_in_mac_header_def ETH_ALEN_def Let_def store16_hton i by (simp add: ac_simps)
  have h: "mac_header dst src type = [dst ! 0, dst ! 1, dst ! 2, dst ! 3, dst ! 4, dst ! 5, src ! 0, src ! 1, src ! 2, src ! 3,
      src ! 4, src ! 5, byte1 (ethertype_value type), byte0 (ethertype_value type)]"
    using list6 [OF assms(1)] list6 [OF assms(2)] unfolding mac_header_def by (metis append_Cons append_Nil net_bytes_simps(1,2))
  show "read_bytes (fill_in_mac_header le src p dst type m) p (length (mac_header dst src type)) = mac_header dst src type"
    unfolding f h by (simp add: read_bytes_def upt_rec)
  fix x assume "x < p \<or> p + length (mac_header dst src type) \<le> x"
  then show "fill_in_mac_header le src p dst type m x = m x" unfolding f h by auto
qed

lemma length_mac_header [simp]: "length src = 6 \<Longrightarrow> length dst = 6 \<Longrightarrow> length (mac_header dst src type) = 14"
  by (simp add: mac_header_def)

lemma write_bytes_append: "write_bytes a (xs @ ys) m = write_bytes a xs (write_bytes (a + length xs) ys m)"
  by (rule ext) (auto simp: write_bytes_def nth_append)

lemma udp_ip_send_frame:
  assumes "42 \<le> max_backstep" "42 \<le> payload" "length src_mac = 6" "length (dst_mac st) = 6"
  shows "udp_ip_send le (mac_send le send src_mac) st payload sz max_backstep s
     = (EOK, snd (send (payload - 42) (sz + 42) (max_backstep - 42)
         (upd_bytes (write_bytes (payload - 42) (mac_header (dst_mac st) src_mac ETH_P_IP @ udp_ip_header le st sz)) s)))"
proof -
  have n: "\<not> max_backstep < 28" "\<not> max_backstep - 28 < 14" "payload - 28 - 14 = payload - 42"
    "max_backstep - 28 - 14 = max_backstep - 42" "payload - 42 + 14 = payload - 28" "sz + 28 + 14 = sz + 42"
    using assms(1,2) by simp_all
  show ?thesis
    using assms(3,4) n by (simp add: udp_ip_send_def mac_send_def UDP_IP_HEADER_SIZE_def MAC_HEADER_SIZE_def fill_in_header fill_in_mac
      write_bytes_append Let_def add.commute)
qed

subsection \<open>The header that is received\<close>

lemma net_bytes_nth: "i < length ws \<Longrightarrow> net_bytes ws ! (2 * i) = byte1 (ws ! i) \<and> net_bytes ws ! (2 * i + 1) = byte0 (ws ! i)"
proof (induction ws arbitrary: i)
  case (Cons w ws)
  then show ?case by (cases i) simp_all
qed simp

lemma read_net_bytes:
  assumes "read_bytes m a n = net_bytes ws" "i < length ws"
  shows "m (a + 2 * i) = byte1 (ws ! i)" "m (a + 2 * i + 1) = byte0 (ws ! i)" "net16 m (a + 2 * i) = ws ! i"
proof -
  have "length (read_bytes m a n) = length (net_bytes ws)" using assms(1) by simp
  then have n: "n = 2 * length ws" by simp
  have "2 * i < n" "2 * i + 1 < n" using assms(2) n by simp_all
  then have "m (a + 2 * i) = net_bytes ws ! (2 * i)" "m (a + (2 * i + 1)) = net_bytes ws ! (2 * i + 1)"
    using assms(1) read_bytes_nth by metis+
  then show "m (a + 2 * i) = byte1 (ws ! i)" "m (a + 2 * i + 1) = byte0 (ws ! i)" "net16 m (a + 2 * i) = ws ! i"
    using net_bytes_nth [OF assms(2)] by (simp_all add: net16_def add.assoc)
qed

text \<open>The checksum completes the sum to a multiple of 65535, unless its computation loses a carry.\<close>

lemma sent_checksum_completes:
  assumes "S \<le> 65535 * 30"
  shows "65535 dvd S + (65535 - fold_once S mod 65536) \<longleftrightarrow> fold_once S < 65536"
proof -
  define h l where "h = S div 65536" and "l = S mod 65536"
  have hl: "S = 65536 * h + l" "h < 30" "l < 65536" "fold_once S = h + l"
    using assms by (simp_all add: h_def l_def fold_once_def)
  show ?thesis
  proof (cases "h + l < 65536")
    case True
    then have "S + (65535 - fold_once S mod 65536) = 65535 * (h + 1)" using hl by simp
    then show ?thesis using True hl(4) by simp
  next
    case False
    then have "(h + l) mod 65536 = h + l - 65536" using hl(2,3) by (simp add: le_mod_geq)
    then have "S + (65535 - fold_once S mod 65536) = 65535 * (h + 2) + 1" using False hl by simp
    then show ?thesis using False hl(4) dvd_add_right_iff [of 65535 "65535 * (h + 2)" 1] by simp
  qed
qed

lemma header_sum_bound: "header_sum le st sz \<le> 65535 * 30"
  using sum16_bound [of "map (hton16 le) (ip_words st sz 0)"] by (simp add: header_sum_def ip_words_def)

lemma sum16_ip_words: "sum16 (map (hton16 le) (ip_words st sz (ntoh16 le c))) = header_sum le st sz + unat c"
proof -
  have "hton16 le (ntoh16 le c) = c" by (cases le) (simp_all add: ntoh16_is_hton16 hton16_swap)
  moreover have "hton16 le 0 = 0" by (cases le) (simp_all add: hton16_swap)
  ultimately show ?thesis by (simp add: header_sum_def ip_words_def)
qed

lemma received_checksum:
  assumes "net_words m d 10 = ip_words st sz (ntoh16 le (sent_checksum le st sz))" "ip_header_words m d = 10"
  shows "ip_hdr_checksum le' m d = 0 \<longleftrightarrow> fold_once (header_sum le st sz) < 65536"
proof -
  define S where "S = header_sum le st sz"
  have c: "unat (sent_checksum le st sz) = 65535 - fold_once S mod 65536"
    unfolding sent_checksum_def S_def unsigned_of_nat take_bit_eq_mod of_nat_id by (rule mod_less) simp
  have "0 < sum16 (net_words m d 10)" unfolding assms(1) by (simp add: ip_words_def)
  then have "ip_hdr_checksum le' m d = 0 \<longleftrightarrow> 65535 dvd sum16 (ip_words st sz (ntoh16 le (sent_checksum le st sz)))"
    by (simp only: checksum_zero assms simp_thms)
  also have "\<dots> \<longleftrightarrow> 65535 dvd S + (65535 - fold_once S mod 65536)"
    using sum16_hton(1) [of le "ip_words st sz (ntoh16 le (sent_checksum le st sz))"] sum16_ip_words [of le st sz] c
    by (simp only: S_def)
  also have "\<dots> \<longleftrightarrow> fold_once S < 65536" by (rule sent_checksum_completes) (simp only: S_def header_sum_bound)
  finally show ?thesis by (simp only: S_def)
qed

lemma udp_receive_sent:
  assumes h: "read_bytes (bytes r) d 28 = udp_ip_header le st sz" and len: "sz + 28 \<le> len" "sz + 28 < 65536"
  shows "udp_receive le' handle d len r =
    (if fold_once (header_sum le st sz) < 65536 then handle (d + 28) sz (dst_ip st) (dst_port st) r else (EINVAL, r))"
proof -
  define c where "c = ntoh16 le (sent_checksum le st sz)"
  define ws where "ws = ip_words st sz c @ udp_words st sz"
  let ?m = "bytes r"
  have "read_bytes ?m d 28 = net_bytes ws" using h by (simp add: udp_ip_header_def ws_def c_def)
  note rb = read_net_bytes [OF this]
  have ws: "ws = [0x4500, of_nat (28 + sz), 0, 0, 0x2011, c, half1 (src_ip st), half0 (src_ip st), half1 (dst_ip st),
      half0 (dst_ip st), src_port st, dst_port st, of_nat (sz + 8), 0]" "length ws = 14"
    by (simp_all add: ws_def ip_words_def udp_words_def)
  have b: "byte1 0x4500 = 0x45" "byte0 0x2011 = 17" by (simp_all add: byte1_def byte0_def)
  have m0: "?m d = 0x45" "?m (d + 9) = 17"
    using rb(1) [of 0] rb(2) [of 4] b by (simp_all add: ws ac_simps)
  have w: "net16 ?m (d + 2) = of_nat (28 + sz)" "net32 ?m (d + 16) = dst_ip st" "net16 ?m (d + 22) = dst_port st"
    "net16 ?m (d + 24) = of_nat (sz + 8)"
    using rb(3) [of 1] rb(3) [of 8] rb(3) [of 9] rb(3) [of 11] rb(3) [of 12] by (simp_all add: ws net32_def add.commute)
  have "net_words ?m d 10 = ip_words st sz c"
  proof (rule nth_equalityI)
    show "length (net_words ?m d 10) = length (ip_words st sz c)" by (simp add: net_words_def ip_words_def)
    fix i assume "i < length (net_words ?m d 10)"
    then have "i < 10" "i < length ws" by (simp_all add: net_words_def ws(2))
    moreover from this have "ws ! i = ip_words st sz c ! i" unfolding ws_def by (simp add: nth_append)
    ultimately show "net_words ?m d 10 ! i = ip_words st sz c ! i" using rb(3) [of i] by (simp add: net_words_def)
  qed
  moreover have "ip_header_words ?m d = 10" by (simp add: ip_header_words_def m0)
  ultimately have chk: "ip_hdr_checksum le' ?m d = 0 \<longleftrightarrow> fold_once (header_sum le st sz) < 65536"
    unfolding c_def by (rule received_checksum)
  have u: "unat (of_nat (28 + sz) :: 16 word) = 28 + sz" "unat (of_nat (sz + 8) :: 16 word) = sz + 8"
    using len(2) by (simp_all only: unsigned_of_nat take_bit_eq_mod) simp_all
  have i: "unat (?m d AND 0xf) * 4 = 20" by (simp add: m0)
  have l: "size_sub (28 + sz) 20 = sz + 8" using len(2) by (simp add: size_sub_le)
  show ?thesis
    unfolding udp_receive_def Let_def ntoh_load i w u l chk m0 add.assoc
    using len w u l by simp
qed

text \<open>
  C28: whatever bytes arrive as an IP packet, they are either discarded, or the payload that is handed
  on lies inside the packet, the ones' complement sum of the header's words (RFC 1071, in network order)
  is right, the protocol is UDP and the lengths in both headers agree; the subtraction that may wrap
  does no harm.
\<close>

theorem udp_receive_safe:
  "udp_receive le handle data len s = (EINVAL, s)
   \<or> (\<exists>hl n. udp_receive le handle data len s
         = handle (data + hl + 8) n (net32 (bytes s) (data + 16)) (net16 (bytes s) (data + hl + 2)) s
       \<and> hl = 4 * unat (bytes s data AND 0xf) \<and> data + hl + 8 + n \<le> data + len
       \<and> hl + 8 + n = unat (net16 (bytes s) (data + 2)) \<and> 8 + n = unat (net16 (bytes s) (data + hl + 4))
       \<and> bytes s (data + 9) = 17 \<and> ones_complement_sum (net_words (bytes s) data (hl div 2)) = 65535)"
proof (cases "udp_receive le handle data len s = (EINVAL, s)")
  case False
  let ?m = "bytes s"
  define hl il where "hl = 4 * unat (?m data AND 0xf)" and "il = unat (net16 ?m (data + 2))"
  have "udp_receive le handle data len s =
     (if len < 20 \<or> len < hl \<or> len < il \<or> ip_hdr_checksum le ?m data \<noteq> 0 \<or> ?m (data + 9) \<noteq> 17 \<or> size_sub il hl < 8
         \<or> unat (net16 ?m (data + hl + 4)) \<noteq> size_sub il hl then (EINVAL, s)
      else handle (data + hl + 8) (size_sub il hl - 8) (net32 ?m (data + 16)) (net16 ?m (data + hl + 2)) s)"
    unfolding udp_receive_def Let_def ntoh_load hl_def il_def by (simp add: mult.commute)
  with False have ok: "\<not> len < il" "ip_hdr_checksum le ?m data = 0" "?m (data + 9) = 17" "\<not> size_sub il hl < 8"
    "unat (net16 ?m (data + hl + 4)) = size_sub il hl"
    "udp_receive le handle data len s
       = handle (data + hl + 8) (size_sub il hl - 8) (net32 ?m (data + 16)) (net16 ?m (data + hl + 2)) s"
    by (simp_all split: if_splits)
  have "hl < 2 ^ 16" using ip_header_words_bound [of ?m data] by (simp add: hl_def ip_header_words_def)
  then have "hl \<le> il" using size_sub_wrap [of il hl] unat_half [of "net16 ?m (data + hl + 4)"] ok(5) by (auto simp: not_le [symmetric])
  moreover have "il < 2 ^ 32" using unat_half [of "net16 ?m (data + 2)"] by (simp add: il_def)
  ultimately have n: "size_sub il hl = il - hl" by (rule size_sub_le)
  have "ip_header_words ?m data = hl div 2" by (simp add: ip_header_words_def hl_def)
  then have "ones_complement_sum (net_words ?m data (hl div 2)) = 65535"
    using ok(2) by (simp add: checksum_accepts_rfc1071)
  then show ?thesis
    using ok n \<open>hl \<le> il\<close> unfolding il_def [symmetric]
    by (intro disjI2 exI [of _ hl] exI [of _ "il - hl - 8"]) (simp add: hl_def)
qed simp

text \<open>Frames.\<close>

lemma multicast_first: "ether_is_multicast m a \<longleftrightarrow> m a AND 1 \<noteq> 0"
  by (simp add: ether_is_multicast_def)

lemma mac_receive_frame:
  assumes f: "read_bytes (bytes r) b 14 = mac_header dst src type" and len: "14 \<le> len"
    and l: "length dst = 6" "length src = 6" and us: "dst = my_mac \<or> hd dst AND 1 \<noteq> 0"
  shows "mac_receive le my_mac arp udp b len r = (case type of ETH_P_ARP \<Rightarrow> arp | ETH_P_IP \<Rightarrow> udp) (b + 14) (len - 14) r"
proof -
  let ?m = "bytes r"
  have "read_bytes ?m b 6 @ read_bytes ?m (b + 6) 6 @ read_bytes ?m (b + 12) 2 = dst @ src @ net_bytes [ethertype_value type]"
    using f read_bytes_add [of ?m b 6 8] read_bytes_add [of ?m "b + 6" 6 2] by (simp add: mac_header_def add.commute)
  then have d: "read_bytes ?m b 6 = dst" and t: "read_bytes ?m (b + 12) 2 = net_bytes [ethertype_value type]"
    using l by (simp_all add: append_eq_append_conv)
  have "hd dst = ?m b" unfolding d [symmetric] by (simp add: read_bytes_def upt_rec)
  then have own: "ether_is_multicast ?m b \<or> read_bytes ?m b 6 = my_mac" using us d by (auto simp: multicast_first)
  have "net16 ?m (b + 12) = ethertype_value type" using read_net_bytes(3) [OF t, of 0] by simp
  then have e: "load16 le ?m (b + 12) = hton16 le (ethertype_value ty) \<longleftrightarrow> type = ty" for ty
    by (cases type; cases ty) (simp_all add: load_eq_hton ethertype_value_def)
  show ?thesis
    using own len by (cases type) (auto simp: mac_receive_def MAC_HEADER_SIZE_def ETH_ALEN_def e)
qed

lemma write_bytes_in: "a \<le> x \<Longrightarrow> x < a + length bs \<Longrightarrow> write_bytes a bs m x = bs ! (x - a)"
  by (simp add: write_bytes_def)

lemma write_header_payload:
  assumes "length hs = n" "n \<le> payload"
  shows "read_bytes (write_bytes (payload - n) hs m) (payload - n) (n + sz) = hs @ read_bytes m payload sz"
proof -
  have "read_bytes (write_bytes (payload - n) hs m) payload sz = read_bytes m payload sz"
    using assms by (intro nth_equalityI) (simp_all add: write_bytes_out)
  moreover have "read_bytes (write_bytes (payload - n) hs m) (payload - n) n = hs"
    using write_read_bytes [of "payload - n" hs m] assms(1) by simp
  ultimately show ?thesis using assms(2) by (simp add: read_bytes_add)
qed

lemma frame_received:
  assumes f: "read_bytes (bytes r) b (42 + sz) = mac_header (dst_mac st) src_mac ETH_P_IP @ udp_ip_header le st sz @ data"
    and l: "length src_mac = 6" "length (dst_mac st) = 6" and len: "42 + sz \<le> len" "sz + 28 < 65536"
    and us: "dst_mac st = my_mac \<or> hd (dst_mac st) AND 1 \<noteq> 0"
  shows "mac_receive le' my_mac arp (udp_receive le' handle) b len r =
      (if fold_once (header_sum le st sz) < 65536 then handle (b + 42) sz (dst_ip st) (dst_port st) r else (EINVAL, r))
    \<and> read_bytes (bytes r) (b + 42) sz = data"
proof -
  let ?m = "bytes r"
  have "read_bytes ?m b 14 @ read_bytes ?m (b + 14) 28 @ read_bytes ?m (b + 42) sz
      = mac_header (dst_mac st) src_mac ETH_P_IP @ udp_ip_header le st sz @ data"
    using f read_bytes_add [of ?m b 14 "28 + sz"] read_bytes_add [of ?m "b + 14" 28 sz] by (simp add: add.commute)
  then have p: "read_bytes ?m b 14 = mac_header (dst_mac st) src_mac ETH_P_IP" "read_bytes ?m (b + 14) 28 = udp_ip_header le st sz"
    "read_bytes ?m (b + 42) sz = data"
    using l by (simp_all add: append_eq_append_conv)
  have "14 \<le> len" "sz + 28 \<le> len - 14" using len(1) by simp_all
  then show ?thesis
    using mac_receive_frame [OF p(1) _ l(2,1) us, of len le' arp "udp_receive le' handle"] udp_receive_sent [OF p(2) _ len(2)] p(3)
    by (simp add: add.commute)
qed

text \<open>
  C29: a payload sent by UDP becomes a frame that is written in front of it and leaves it as it is.
  A receiver of any byte order that finds this frame in its memory, addressed to its MAC address or
  to a group, hands exactly the payload to the handler that the router has for the address and port
  of the destination. It does so if and only if the sum over the header, folded once, has no
  further carry: the checksum sent is wrong otherwise, and every receiver drops the datagram.
\<close>

theorem datagram_roundtrip:
  assumes "42 \<le> max_backstep" "42 \<le> payload" "sz + 28 < 65536" "length src_mac = 6" "length (dst_mac st) = 6"
  shows "\<exists>s1. udp_ip_send le (mac_send le send src_mac) st payload sz max_backstep s
        = (EOK, snd (send (payload - 42) (42 + sz) (max_backstep - 42) s1))
     \<and> device s1 = device s \<and> (\<forall>x. x < payload - 42 \<or> payload \<le> x \<longrightarrow> bytes s1 x = bytes s x)
     \<and> (\<forall>r b len my_mac. read_bytes (bytes r) b (42 + sz) = read_bytes (bytes s1) (payload - 42) (42 + sz) \<longrightarrow>
          42 + sz \<le> len \<longrightarrow> dst_mac st = my_mac \<or> hd (dst_mac st) AND 1 \<noteq> 0 \<longrightarrow>
          mac_receive le' my_mac arp (udp_receive le' (receive_packet router handle)) b len r
            = (if fold_once (header_sum le st sz) < 65536 then receive_packet router handle (b + 42) sz (dst_ip st) (dst_port st) r
               else (EINVAL, r))
          \<and> read_bytes (bytes r) (b + 42) sz = read_bytes (bytes s) payload sz)"
proof -
  define hs where "hs = mac_header (dst_mac st) src_mac ETH_P_IP @ udp_ip_header le st sz"
  have hs: "length hs = 42" using assms(4,5) by (simp add: hs_def)
  define s1 where "s1 = upd_bytes (write_bytes (payload - 42) hs) s"
  have sent: "udp_ip_send le (mac_send le send src_mac) st payload sz max_backstep s
      = (EOK, snd (send (payload - 42) (42 + sz) (max_backstep - 42) s1))"
    using udp_ip_send_frame [OF assms(1,2,4,5), of le send sz s] by (simp add: s1_def hs_def add.commute)
  have fr: "read_bytes (bytes s1) (payload - 42) (42 + sz) = mac_header (dst_mac st) src_mac ETH_P_IP @ udp_ip_header le st sz
      @ read_bytes (bytes s) payload sz"
    using write_header_payload [OF hs assms(2), of "bytes s" sz] by (simp add: s1_def hs_def)
  have received: "mac_receive le' my_mac arp (udp_receive le' (receive_packet router handle)) b len r
        = (if fold_once (header_sum le st sz) < 65536 then receive_packet router handle (b + 42) sz (dst_ip st) (dst_port st) r
           else (EINVAL, r))
      \<and> read_bytes (bytes r) (b + 42) sz = read_bytes (bytes s) payload sz"
    if "read_bytes (bytes r) b (42 + sz) = read_bytes (bytes s1) (payload - 42) (42 + sz)" "42 + sz \<le> len"
      "dst_mac st = my_mac \<or> hd (dst_mac st) AND 1 \<noteq> 0" for r b len my_mac
    by (rule frame_received [OF that(1) [unfolded fr] assms(4,5) that(2) assms(3) that(3)])
  have "bytes s1 x = bytes s x" if "x < payload - 42 \<or> payload \<le> x" for x
    using that hs assms(2) by (auto simp: s1_def write_bytes_out)
  moreover have "device s1 = device s" by (simp add: s1_def)
  ultimately show ?thesis using sent received by blast
qed

text \<open>From 192.168.0.1 to 192.168.25.57 with big endian processors a payload of 71 bytes arrives, one of 72 is lost.\<close>

definition example_udp :: UDP_IP_SENDER_state where
  "example_udp = \<lparr>src_ip = 0xC0A80001, dst_ip = 0xC0A81939, src_port = 1, dst_port = 2, dst_mac = [2, 0, 0, 0, 0, 1]\<rparr>"

definition example_net :: "unit net" where
  "example_net = \<lparr>bytes = (\<lambda>x. 7), device = ()\<rparr>"

theorem datagram_roundtrip_witness:
  "\<exists>s1 s2. udp_ip_send False (mac_send False (\<lambda>p n k s. (EOK, s)) (replicate 6 3)) example_udp 100 71 42 example_net = (EOK, s1)
     \<and> udp_ip_send False (mac_send False (\<lambda>p n k s. (EOK, s)) (replicate 6 3)) example_udp 100 72 42 example_net = (EOK, s2)
     \<and> fst (mac_receive True [2, 0, 0, 0, 0, 1] undefined (udp_receive True (receive_packet
           \<lparr>map_ip_port_to_idx = [\<lparr>pair_ip = 0xC0A81939, pair_port = 2\<rparr>]\<rparr> (\<lambda>i p n s. (EOK, s)))) 58 200 s1) = EOK
     \<and> fst (mac_receive True [2, 0, 0, 0, 0, 1] undefined (udp_receive True (receive_packet
           \<lparr>map_ip_port_to_idx = [\<lparr>pair_ip = 0xC0A81939, pair_port = 2\<rparr>]\<rparr> (\<lambda>i p n s. (EOK, s)))) 58 200 s2) = EINVAL"
proof -
  let ?send = "\<lambda>p n k s. (EOK, s)" and ?src = "replicate 6 (3 :: 8 word)"
    and ?router = "\<lparr>map_ip_port_to_idx = [\<lparr>pair_ip = 0xC0A81939, pair_port = 2\<rparr>]\<rparr>" and ?h = "\<lambda>(i :: nat) (p :: nat) (n :: nat) (s :: unit net). (EOK, s)"
  have h: "half1 (0xC0A80001 :: 32 word) = 0xC0A8" "half0 (0xC0A80001 :: 32 word) = 1"
    "half1 (0xC0A81939 :: 32 word) = 0xC0A8" "half0 (0xC0A81939 :: 32 word) = 0x1939"
    by (simp_all add: half1_def half0_def)
  have f: "fold_once (header_sum False example_udp 71) < 65536" "\<not> fold_once (header_sum False example_udp 72) < 65536"
    by (simp_all add: header_sum_def ip_words_def example_udp_def h hton16_swap fold_once_def)
  have l: "length ?src = 6" "length (dst_mac example_udp) = 6" by (simp_all add: example_udp_def)
  have r: "fst (receive_packet ?router ?h 100 n (dst_ip example_udp) (dst_port example_udp) s) = EOK" for n s
    by (simp add: receive_packet_def example_udp_def Let_def)
  note t = datagram_roundtrip [where le' = True and arp = undefined and router = ?router and handle = ?h and send = ?send
      and s = example_net and le = False, of 42 100 _ ?src example_udp]
  have one: "\<exists>s1. udp_ip_send False (mac_send False ?send ?src) example_udp 100 n 42 example_net = (EOK, s1)
     \<and> fst (mac_receive True [2, 0, 0, 0, 0, 1] undefined (udp_receive True (receive_packet ?router ?h)) 58 200 s1)
       = (if fold_once (header_sum False example_udp n) < 65536 then EOK else EINVAL)" if n: "n + 42 \<le> 200" for n
  proof -
    have p: "(42 :: nat) \<le> 42" "(42 :: nat) \<le> 100" "n + 28 < 65536" using n by simp_all
    have d: "dst_mac example_udp = [2, 0, 0, 0, 0, 1]" by (simp add: example_udp_def)
    from t [OF p l] obtain s1 where a: "udp_ip_send False (mac_send False ?send ?src) example_udp 100 n 42 example_net = (EOK, s1)"
      and b: "mac_receive True [2, 0, 0, 0, 0, 1] undefined (udp_receive True (receive_packet ?router ?h)) 58 200 s1
          = (if fold_once (header_sum False example_udp n) < 65536
             then receive_packet ?router ?h (58 + 42) n (dst_ip example_udp) (dst_port example_udp) s1 else (EINVAL, s1))"
    proof (elim exE conjE, goal_cases)
      case (1 s1)
      have "read_bytes (bytes s1) 58 (42 + n) = read_bytes (bytes s1) (100 - 42) (42 + n)" "42 + n \<le> 200" using n by simp_all
      from 1(5) [rule_format, OF this disjI1 [OF d]] 1(2) show ?thesis by (intro 1(1) [of s1]) simp_all
    qed
    show ?thesis using a r by (intro exI [of _ s1]) (simp add: b)
  qed
  from one [of 71] one [of 72] f show ?thesis by simp blast
qed

end
