(* ===== verification/VirtioNet.thy ===== *)
theory VirtioNet
  imports NetStack
begin

section \<open>The virtio network device\<close>

text \<open>
  The driver \<open>VIRTIO_NET_DEV\<close> (\<open>syspart/components/virtio\<close>). A virtqueue is a table of descriptors and
  two rings in memory that driver and device share: the driver puts heads of chains of descriptors
  into the ring \<open>avail\<close>, the device puts the heads it is done with into the ring \<open>used\<close>. Unused
  descriptors form a list through their field \<open>next\<close>. The indices into the rings run freely in 16 bits.
  The physical address of a virtual one is a system call, the parameter \<open>virt_to_phys\<close>. The lock of
  preemption around the loops has no effect on this state.
\<close>

definition VRING_DESC_F_NEXT :: "16 word" where
  "VRING_DESC_F_NEXT = 1"

definition VRING_DESC_F_WRITE :: "16 word" where
  "VRING_DESC_F_WRITE = 2"

record vring_desc =
  desc_addr :: nat
  desc_len :: nat
  desc_flags :: "16 word"
  desc_next :: nat

record vring_used_elem =
  used_id :: nat
  used_len :: nat

record virtio_virtqueue =
  vring_num :: nat
  desc :: "nat \<Rightarrow> vring_desc"
  avail_idx :: "16 word"
  avail_ring :: "nat \<Rightarrow> nat"
  used_idx :: "16 word"
  used_ring :: "nat \<Rightarrow> vring_used_elem"
  free_index :: nat
  num_free :: "16 word"
  last_seen_used :: "16 word"

record virtio_network_device =
  tx_vq :: virtio_virtqueue
  rx_vq :: virtio_virtqueue
  send_buffers :: nat
  inited :: bool
  queue_notify :: "nat list"

definition MAX_PACKET_SIZE :: nat where
  "MAX_PACKET_SIZE = 1500"

definition sizeof_virtio_net_hdr :: nat where
  "sizeof_virtio_net_hdr = 10"

abbreviation upd_tx :: "virtio_virtqueue \<Rightarrow> virtio_network_device net \<Rightarrow> virtio_network_device net" where
  "upd_tx vq s \<equiv> s\<lparr>device := device s\<lparr>tx_vq := vq\<rparr>\<rparr>"

text \<open>An index into a ring: \<open>idx & (num - 1)\<close>.\<close>

definition ring_index :: "virtio_virtqueue \<Rightarrow> 16 word \<Rightarrow> nat" where
  "ring_index vq idx = unat idx AND (vring_num vq - 1)"

definition virtio_virtqueue_setup :: "nat \<Rightarrow> virtio_virtqueue" where
  "virtio_virtqueue_setup sz =
     \<lparr>vring_num = sz,
      desc = (\<lambda>i. \<lparr>desc_addr = 0, desc_len = 0, desc_flags = 0, desc_next = (if i < sz - 1 then i + 1 else 0)\<rparr>),
      avail_idx = 0, avail_ring = (\<lambda>i. 0), used_idx = 0, used_ring = (\<lambda>i. \<lparr>used_id = 0, used_len = 0\<rparr>),
      free_index = 0, num_free = of_nat sz, last_seen_used = 0\<rparr>"

subsection \<open>Sending\<close>

text \<open>The loop along a chain, which counts its descriptors.\<close>

partial_function (option) chain_tail :: "(nat \<Rightarrow> vring_desc) \<Rightarrow> nat \<Rightarrow> 16 word \<Rightarrow> (nat \<times> 16 word) option" where
  "chain_tail d tail total_descriptors =
     (if desc_flags (d tail) AND VRING_DESC_F_NEXT \<noteq> 0 then chain_tail d (desc_next (d tail)) (total_descriptors + 1)
      else Some (tail, total_descriptors))"

partial_function (option) reclaim_send_buffers :: "virtio_virtqueue \<Rightarrow> virtio_virtqueue option" where
  "reclaim_send_buffers vq =
     (if last_seen_used vq \<noteq> used_idx vq then do {
        let head = used_id (used_ring vq (ring_index vq (last_seen_used vq)));
        (tail, total_descriptors) \<leftarrow> chain_tail (desc vq) head 1;
        reclaim_send_buffers (vq\<lparr>num_free := num_free vq + total_descriptors,
          desc := (desc vq)(tail := (desc vq tail)\<lparr>desc_next := free_index vq\<rparr>),
          free_index := head mod 2 ^ 16,
          last_seen_used := last_seen_used vq + 1\<rparr>)
      }
      else Some vq)"

text \<open>The function returns \<open>TRUE\<close> and \<open>FALSE\<close>, which its type \<open>ret_t\<close> reads as 1 and 0.\<close>

definition ret_of_bool :: "bool \<Rightarrow> ret_t" where
  "ret_of_bool b = (if b then EINVAL else EOK)"

definition send_frame ::
  "(nat \<Rightarrow> nat) \<Rightarrow> nat \<Rightarrow> nat \<Rightarrow> nat \<Rightarrow> nat \<Rightarrow> virtio_network_device net \<Rightarrow> (ret_t \<times> virtio_network_device net) option" where
  "send_frame virt_to_phys net_hdr buffer sz max_back_step s =
     (if \<not> inited (device s) then Some (EINVAL, s)
      else if max_back_step \<noteq> 0 then Some (EINVAL, s)
      else do {
        vq \<leftarrow> reclaim_send_buffers (tx_vq (device s));
        if num_free vq < 1 then Some (ret_of_bool False, upd_tx vq s)
        else
          (let m = write_bytes net_hdr (replicate sizeof_virtio_net_hdr 0) (bytes s);
               head = free_index vq;
               d = (desc vq)(head := (desc vq head)\<lparr>desc_addr := virt_to_phys net_hdr, desc_len := sizeof_virtio_net_hdr,
                      desc_flags := VRING_DESC_F_NEXT\<rparr>);
               data = send_buffers (device s) + MAX_PACKET_SIZE * head;
               m = write_bytes data (read_bytes m buffer sz) m;
               second = desc_next (d head);
               d = d(second := (d second)\<lparr>desc_addr := virt_to_phys data\<rparr>);
               vq = vq\<lparr>num_free := num_free vq - 2\<rparr>
           in if virt_to_phys data = 0 then Some (ret_of_bool False, upd_tx (vq\<lparr>desc := d\<rparr>) (s\<lparr>bytes := m\<rparr>))
              else
                (let d = d(second := (d second)\<lparr>desc_len := sz, desc_flags := 0\<rparr>)
                 in Some (ret_of_bool True, upd_tx (vq\<lparr>desc := d, free_index := desc_next (d second),
                      avail_ring := (avail_ring vq)(ring_index vq (avail_idx vq) := head),
                      avail_idx := avail_idx vq + 1\<rparr>) (s\<lparr>bytes := m\<rparr>))))
      })"

text \<open>
  The same function in the pieces between which the device may work: a round of the loop that reclaims;
  the preparation of a pair of descriptors that the device does not know yet; the entry in the ring;
  and, behind the barrier, the index that offers it. \<open>send_frame_pieces\<close> shows that the pieces make up
  the function. The phase says where a call is.
\<close>

datatype tx_phase = TxReclaim nat nat | TxPrepare nat nat | TxPrepared nat | TxEntered nat | TxDone bool

definition reclaim_round :: "virtio_virtqueue \<Rightarrow> virtio_virtqueue option" where
  "reclaim_round vq = do {
     let head = used_id (used_ring vq (ring_index vq (last_seen_used vq)));
     (tail, total_descriptors) \<leftarrow> chain_tail (desc vq) head 1;
     Some (vq\<lparr>num_free := num_free vq + total_descriptors,
       desc := (desc vq)(tail := (desc vq tail)\<lparr>desc_next := free_index vq\<rparr>),
       free_index := head mod 2 ^ 16,
       last_seen_used := last_seen_used vq + 1\<rparr>)
   }"

definition send_prepare ::
  "(nat \<Rightarrow> nat) \<Rightarrow> nat \<Rightarrow> nat \<Rightarrow> nat \<Rightarrow> virtio_network_device net \<Rightarrow> tx_phase \<times> virtio_network_device net" where
  "send_prepare virt_to_phys net_hdr buffer sz s =
     (let vq = tx_vq (device s) in
      if num_free vq < 1 then (TxDone False, s)
      else
        (let m = write_bytes net_hdr (replicate sizeof_virtio_net_hdr 0) (bytes s);
             head = free_index vq;
             d = (desc vq)(head := (desc vq head)\<lparr>desc_addr := virt_to_phys net_hdr, desc_len := sizeof_virtio_net_hdr,
                    desc_flags := VRING_DESC_F_NEXT\<rparr>);
             data = send_buffers (device s) + MAX_PACKET_SIZE * head;
             m = write_bytes data (read_bytes m buffer sz) m;
             second = desc_next (d head);
             d = d(second := (d second)\<lparr>desc_addr := virt_to_phys data\<rparr>);
             vq = vq\<lparr>num_free := num_free vq - 2\<rparr>
         in if virt_to_phys data = 0 then (TxDone False, upd_tx (vq\<lparr>desc := d\<rparr>) (s\<lparr>bytes := m\<rparr>))
            else
              (let d = d(second := (d second)\<lparr>desc_len := sz, desc_flags := 0\<rparr>)
               in (TxPrepared head, upd_tx (vq\<lparr>desc := d, free_index := desc_next (d second)\<rparr>) (s\<lparr>bytes := m\<rparr>)))))"

definition send_entry :: "nat \<Rightarrow> virtio_network_device net \<Rightarrow> virtio_network_device net" where
  "send_entry head s =
     (let vq = tx_vq (device s)
      in upd_tx (vq\<lparr>avail_ring := (avail_ring vq)(ring_index vq (avail_idx vq) := head)\<rparr>) s)"

definition send_publish :: "virtio_network_device net \<Rightarrow> virtio_network_device net" where
  "send_publish s = (let vq = tx_vq (device s) in upd_tx (vq\<lparr>avail_idx := avail_idx vq + 1\<rparr>) s)"

definition tx_piece ::
  "(nat \<Rightarrow> nat) \<Rightarrow> nat \<Rightarrow> tx_phase \<Rightarrow> virtio_network_device net \<Rightarrow> (tx_phase \<times> virtio_network_device net) option" where
  "tx_piece virt_to_phys net_hdr ph s =
     (case ph of
        TxReclaim buffer sz \<Rightarrow>
          (let vq = tx_vq (device s) in
           if last_seen_used vq \<noteq> used_idx vq
           then map_option (\<lambda>vq. (TxReclaim buffer sz, upd_tx vq s)) (reclaim_round vq)
           else Some (TxPrepare buffer sz, s))
      | TxPrepare buffer sz \<Rightarrow> Some (send_prepare virt_to_phys net_hdr buffer sz s)
      | TxPrepared head \<Rightarrow> Some (TxEntered head, send_entry head s)
      | TxEntered head \<Rightarrow> Some (TxDone True, send_publish s)
      | TxDone r \<Rightarrow> None)"

definition piece_after :: "(nat \<Rightarrow> nat) \<Rightarrow> nat \<Rightarrow> tx_phase \<times> virtio_network_device net \<Rightarrow> tx_phase \<times> virtio_network_device net \<Rightarrow> bool" where
  "piece_after v2p hdr c c' \<longleftrightarrow> tx_piece v2p hdr (fst c) (snd c) = Some c'"

lemma reclaim_pieces:
  "reclaim_send_buffers vq = Some vq' \<Longrightarrow>
   (piece_after v2p hdr)\<^sup>*\<^sup>* (TxReclaim buffer sz, upd_tx vq s) (TxPrepare buffer sz, upd_tx vq' s)"
proof (rule reclaim_send_buffers.raw_induct [where P = "\<lambda>vq vq'. (piece_after v2p hdr)\<^sup>*\<^sup>*
    (TxReclaim buffer sz, upd_tx vq s) (TxPrepare buffer sz, upd_tx vq' s)"], goal_cases)
  case (1 f vq vq')
  show ?case
  proof (cases "last_seen_used vq \<noteq> used_idx vq")
    case True
    from 1(3) True obtain q where q: "reclaim_round vq = Some q" "f q = Some vq'"
      by (auto simp: reclaim_round_def Let_def split: bind_splits)
    have "piece_after v2p hdr (TxReclaim buffer sz, upd_tx vq s) (TxReclaim buffer sz, upd_tx q s)"
      using True q(1) by (simp add: piece_after_def tx_piece_def Let_def)
    then show ?thesis using 1(2) [OF q(2)] by (rule converse_rtranclp_into_rtranclp)
  next
    case False
    then have "vq' = vq" using 1(3) by simp
    moreover have "piece_after v2p hdr (TxReclaim buffer sz, upd_tx vq s) (TxPrepare buffer sz, upd_tx vq s)"
      using False by (simp add: piece_after_def tx_piece_def Let_def)
    ultimately show ?thesis by blast
  qed
qed

lemma send_frame_pieces:
  assumes "send_frame v2p hdr buffer sz 0 s = Some (r, s')" "inited (device s)"
  shows "\<exists>b. r = ret_of_bool b \<and> (piece_after v2p hdr)\<^sup>*\<^sup>* (TxReclaim buffer sz, s) (TxDone b, s')"
proof -
  obtain vq where vq: "reclaim_send_buffers (tx_vq (device s)) = Some vq"
    using assms by (auto simp: send_frame_def split: bind_splits)
  have "upd_tx (tx_vq (device s)) s = s" by simp
  with reclaim_pieces [OF vq, of v2p hdr buffer sz s]
  have "(piece_after v2p hdr)\<^sup>*\<^sup>* (TxReclaim buffer sz, s) (TxPrepare buffer sz, upd_tx vq s)" by simp
  moreover have "\<exists>b. r = ret_of_bool b \<and> (piece_after v2p hdr)\<^sup>*\<^sup>* (TxPrepare buffer sz, upd_tx vq s) (TxDone b, s')"
  proof (cases "send_prepare v2p hdr buffer sz (upd_tx vq s)")
    case (Pair ph u)
    then have first: "piece_after v2p hdr (TxPrepare buffer sz, upd_tx vq s) (ph, u)"
      by (simp add: piece_after_def tx_piece_def)
    show ?thesis
    proof (cases ph)
      case (TxDone b)
      then have "r = ret_of_bool b \<and> s' = u"
        using Pair assms vq by (auto simp: send_frame_def send_prepare_def Let_def split: if_splits)
      then show ?thesis using first TxDone by blast
    next
      case (TxPrepared h)
      have "r = ret_of_bool True \<and> s' = send_publish (send_entry h u)"
        using Pair TxPrepared assms vq
        by (auto simp: send_frame_def send_prepare_def send_publish_def send_entry_def Let_def ring_index_def split: if_splits)
      moreover have "piece_after v2p hdr (TxPrepared h, u) (TxEntered h, send_entry h u)"
        "piece_after v2p hdr (TxEntered h, send_entry h u) (TxDone True, send_publish (send_entry h u))"
        by (simp_all add: piece_after_def tx_piece_def)
      ultimately have "(piece_after v2p hdr)\<^sup>*\<^sup>* (TxPrepare buffer sz, upd_tx vq s) (TxDone True, s')" "r = ret_of_bool True"
        using first TxPrepared by (auto intro!: converse_rtranclp_into_rtranclp)
      then show ?thesis by blast
    qed (use Pair in \<open>auto simp: send_prepare_def Let_def split: if_splits\<close>)
  qed
  ultimately show ?thesis by (blast intro: rtranclp_trans [of "piece_after v2p hdr"])
qed

definition flush_send :: "virtio_network_device net \<Rightarrow> ret_t \<times> virtio_network_device net" where
  "flush_send s =
     (if \<not> inited (device s) then (EINVAL, s)
      else (EOK, s\<lparr>device := device s\<lparr>queue_notify := queue_notify (device s) @ [1]\<rparr>\<rparr>))"

subsection \<open>Free-running rings\<close>

text \<open>The entries that one side has put in and the other has not taken yet, from index \<open>x\<close> on.\<close>

definition ring_holds :: "nat \<Rightarrow> (nat \<Rightarrow> 'a) \<Rightarrow> 16 word \<Rightarrow> 'a list \<Rightarrow> bool" where
  "ring_holds num r x xs \<longleftrightarrow> (\<forall>i < length xs. r ((unat x + i) mod num) = xs ! i)"

definition ring_size :: "nat \<Rightarrow> bool" where
  "ring_size num \<longleftrightarrow> (\<exists>e \<in> {1..15}. num = 2 ^ e)"

lemma ring_size_facts:
  assumes "ring_size num"
  shows "num dvd 65536" "2 \<le> num" "num \<le> 32768" "even num" "num div 2 * 2 = num"
proof -
  obtain e where e: "1 \<le> e" "e \<le> 15" "num = 2 ^ e" using assms by (auto simp: ring_size_def)
  have "(2 :: nat) ^ e dvd 2 ^ 16" by (rule le_imp_power_dvd) (use e in simp)
  then show "num dvd 65536" using e by simp
  show "2 \<le> num" using e power_increasing [of 1 e "2 :: nat"] by simp
  show "num \<le> 32768" using e power_increasing [of e 15 "2 :: nat"] by simp
  show "even num" using e by simp
  then show "num div 2 * 2 = num" by simp
qed

lemma ring_index_mod: "ring_size (vring_num vq) \<Longrightarrow> ring_index vq x = unat x mod vring_num vq"
  by (auto simp: ring_index_def ring_size_def take_bit_eq_mod [symmetric] take_bit_eq_mask mask_eq_exp_minus_1)

lemma unat_add_mod:
  fixes x :: "16 word"
  assumes "ring_size num"
  shows "unat (x + of_nat n) mod num = (unat x + n) mod num"
proof -
  have "unat (x + of_nat n) = (unat x + n) mod 65536"
    by (simp add: unat_word_ariths unsigned_of_nat take_bit_eq_mod mod_add_right_eq)
  then show ?thesis using ring_size_facts(1) [OF assms] by (simp add: mod_mod_cancel)
qed

lemma ring_holds_push:
  assumes "ring_holds num r x xs" "length xs < num"
  shows "ring_holds num (r((unat x + length xs) mod num := v)) x (xs @ [v])"
proof -
  have "(unat x + i) mod num \<noteq> (unat x + length xs) mod num" if "i < length xs" for i
  proof
    assume "(unat x + i) mod num = (unat x + length xs) mod num"
    then have "num dvd (unat x + length xs) - (unat x + i)" by (metis mod_eq_dvd_iff_nat that add_le_mono le_refl less_imp_le)
    then show False using that assms(2) nat_dvd_not_less [of "length xs - i" num] by simp
  qed
  then show ?thesis using assms(1) by (auto simp: ring_holds_def nth_append less_Suc_eq)
qed

lemma ring_holds_pop:
  assumes "ring_holds num r x (v # xs)" "ring_size num"
  shows "r (unat x mod num) = v" "ring_holds num r (x + 1) xs"
proof -
  show "r (unat x mod num) = v" using assms(1) by (force simp: ring_holds_def)
  have "(unat (x + 1) + i) mod num = (unat x + Suc i) mod num" for i
  proof -
    have "(unat (x + 1) + i) mod num = (unat (x + of_nat 1) mod num + i) mod num" by (simp add: mod_add_left_eq)
    then show ?thesis unfolding unat_add_mod [OF assms(2)] by (simp add: mod_add_left_eq)
  qed
  moreover have "r ((unat x + Suc i) mod num) = xs ! i" if "i < length xs" for i
    using assms(1) that unfolding ring_holds_def by (metis Suc_less_eq length_Cons nth_Cons_Suc)
  ultimately show "ring_holds num r (x + 1) xs" by (simp add: ring_holds_def)
qed

subsection \<open>The queue for sending\<close>

text \<open>
  Frames use the descriptors in pairs \<open>2k\<close>, \<open>2k + 1\<close>: the invariant says for each number \<open>k\<close> of a pair
  whether it is free (\<open>F\<close>, in the order of the list of free descriptors), offered to the device (\<open>P\<close>),
  in work there (\<open>D\<close>) or used and not yet reclaimed (\<open>U\<close>). The device has taken the entries of \<open>avail\<close>
  before the index \<open>a\<close>.
\<close>

fun free_pairs :: "(nat \<Rightarrow> vring_desc) \<Rightarrow> nat \<Rightarrow> nat list \<Rightarrow> bool" where
  "free_pairs d i [] \<longleftrightarrow> True"
| "free_pairs d i (k # F) \<longleftrightarrow> i = 2 * k \<and> desc_next (d (2 * k)) = 2 * k + 1 \<and> free_pairs d (desc_next (d (2 * k + 1))) F"

definition pair_busy :: "(nat \<Rightarrow> vring_desc) \<Rightarrow> nat \<Rightarrow> bool" where
  "pair_busy d k \<longleftrightarrow> desc_next (d (2 * k)) = 2 * k + 1 \<and> desc_flags (d (2 * k)) = VRING_DESC_F_NEXT \<and> desc_flags (d (2 * k + 1)) = 0"

definition tx_inv :: "virtio_virtqueue \<Rightarrow> 16 word \<Rightarrow> nat list \<Rightarrow> nat list \<Rightarrow> nat list \<Rightarrow> nat list \<Rightarrow> bool" where
  "tx_inv vq a F P D U \<longleftrightarrow> ring_size (vring_num vq) \<and> distinct (F @ P @ D @ U) \<and> set (F @ P @ D @ U) = {..<vring_num vq div 2}
     \<and> num_free vq = of_nat (2 * length F) \<and> free_pairs (desc vq) (free_index vq) F
     \<and> (\<forall>k \<in> set (P @ D @ U). pair_busy (desc vq) k)
     \<and> avail_idx vq = a + of_nat (length P) \<and> ring_holds (vring_num vq) (avail_ring vq) a (map (\<lambda>k. 2 * k) P)
     \<and> used_idx vq = last_seen_used vq + of_nat (length U)
     \<and> ring_holds (vring_num vq) (used_id \<circ> used_ring vq) (last_seen_used vq) (map (\<lambda>k. 2 * k) U)"

lemma free_pairs_frame:
  "free_pairs d i F \<Longrightarrow> (\<And>k. k \<in> set F \<Longrightarrow> d' (2 * k) = d (2 * k) \<and> d' (2 * k + 1) = d (2 * k + 1)) \<Longrightarrow> free_pairs d' i F"
  by (induction F arbitrary: i) simp_all

lemma tx_pairs:
  assumes "tx_inv vq a F P D U"
  shows "length F + length P + length D + length U = vring_num vq div 2"
    and "k \<in> set (F @ P @ D @ U) \<Longrightarrow> 2 * k + 1 < vring_num vq"
proof -
  have "card (set (F @ P @ D @ U)) = length (F @ P @ D @ U)" using assms unfolding tx_inv_def by (blast intro: distinct_card)
  then show "length F + length P + length D + length U = vring_num vq div 2" using assms by (simp add: tx_inv_def)
  assume "k \<in> set (F @ P @ D @ U)"
  then have "k < vring_num vq div 2" using assms unfolding tx_inv_def by blast
  then show "2 * k + 1 < vring_num vq" using ring_size_facts(5) [of "vring_num vq"] assms unfolding tx_inv_def by linarith
qed

lemma chain_tail_pair:
  assumes "pair_busy d k"
  shows "chain_tail d (2 * k) 1 = Some (2 * k + 1, 2)"
  using assms by (simp add: chain_tail.simps [of d "2 * k"] chain_tail.simps [of d "Suc (2 * k)"] pair_busy_def VRING_DESC_F_NEXT_def)

text \<open>Reclaiming one pair.\<close>

definition reclaim_pair :: "nat \<Rightarrow> virtio_virtqueue \<Rightarrow> virtio_virtqueue" where
  "reclaim_pair k vq = vq\<lparr>num_free := num_free vq + 2,
     desc := (desc vq)(2 * k + 1 := (desc vq (2 * k + 1))\<lparr>desc_next := free_index vq\<rparr>),
     free_index := 2 * k, last_seen_used := last_seen_used vq + 1\<rparr>"

lemma reclaim_pair_inv:
  assumes i: "tx_inv vq a F P D (k # U)"
  shows "tx_inv (reclaim_pair k vq) a (k # F) P D U"
    and "reclaim_send_buffers vq = reclaim_send_buffers (reclaim_pair k vq)"
proof -
  have rs: "ring_size (vring_num vq)" and b: "pair_busy (desc vq) k" and dist: "distinct (F @ P @ D @ k # U)"
    and h: "ring_holds (vring_num vq) (used_id \<circ> used_ring vq) (last_seen_used vq) (2 * k # map (\<lambda>k. 2 * k) U)"
    and u: "used_idx vq = last_seen_used vq + of_nat (Suc (length U))"
    using i by (simp_all add: tx_inv_def)
  have kF: "k \<notin> set F" and kB: "k \<notin> set (P @ D @ U)" using dist by auto
  have "2 * k + 1 < vring_num vq" using tx_pairs(2) [OF i, of k] by simp
  then have k: "2 * k mod 2 ^ 16 = 2 * k" using ring_size_facts(3) [OF rs] by simp
  have free: "free_pairs (desc (reclaim_pair k vq)) (2 * k) (k # F)"
    using i b kF
    by (auto simp: tx_inv_def reclaim_pair_def pair_busy_def double_not_eq_Suc_double Suc_double_not_eq_double elim!: free_pairs_frame)
  have busy: "\<forall>j \<in> set (P @ D @ U). pair_busy (desc (reclaim_pair k vq)) j"
    using i kB by (auto simp: tx_inv_def reclaim_pair_def pair_busy_def double_not_eq_Suc_double)
  show "tx_inv (reclaim_pair k vq) a (k # F) P D U"
    using i free busy ring_holds_pop(2) [OF h rs] dist unfolding tx_inv_def
    by (simp add: reclaim_pair_def insert_commute add.commute add.left_commute)
  have "length U < vring_num vq" using tx_pairs(1) [OF i] by simp
  then have "unat (of_nat (Suc (length U)) :: 16 word) = Suc (length U)"
    using ring_size_facts(3) [OF rs] by (simp add: unsigned_of_nat take_bit_eq_mod del: of_nat_Suc)
  then have "last_seen_used vq \<noteq> used_idx vq" unfolding u by (metis add_cancel_right_right nat.distinct(1) unat_0)
  then show "reclaim_send_buffers vq = reclaim_send_buffers (reclaim_pair k vq)"
    using ring_holds_pop(1) [OF h rs] chain_tail_pair [OF b] k
    by (subst reclaim_send_buffers.simps) (simp add: ring_index_mod rs reclaim_pair_def Let_def)
qed

lemma reclaim_send_buffers_inv:
  "tx_inv vq a F P D U \<Longrightarrow> \<exists>vq'. reclaim_send_buffers vq = Some vq' \<and> tx_inv vq' a (rev U @ F) P D []
     \<and> vring_num vq' = vring_num vq \<and> avail_idx vq' = avail_idx vq \<and> avail_ring vq' = avail_ring vq
     \<and> (\<forall>i. desc_addr (desc vq' i) = desc_addr (desc vq i) \<and> desc_len (desc vq' i) = desc_len (desc vq i))"
proof (induction U arbitrary: vq F)
  case Nil
  then have "reclaim_send_buffers vq = Some vq" by (subst reclaim_send_buffers.simps) (simp add: tx_inv_def)
  with Nil show ?case by simp
next
  case (Cons k U)
  from Cons.IH [OF reclaim_pair_inv(1) [OF Cons.prems]] reclaim_pair_inv(2) [OF Cons.prems] show ?case
    by (auto simp: reclaim_pair_def fun_upd_def)
qed

subsection \<open>Sending a frame\<close>

text \<open>The frame of a pair, as the device finds it by the addresses in the descriptors.\<close>

definition frame_of :: "(nat \<Rightarrow> nat) \<Rightarrow> virtio_network_device net \<Rightarrow> nat \<Rightarrow> 8 word list" where
  "frame_of phys_to_virt s h =
     (let t = desc (tx_vq (device s)) (desc_next (desc (tx_vq (device s)) h))
      in read_bytes (bytes s) (phys_to_virt (desc_addr t)) (desc_len t))"

text \<open>The kernel's translation of addresses, and the place of the static header.\<close>

definition tx_memory :: "(nat \<Rightarrow> nat) \<Rightarrow> (nat \<Rightarrow> nat) \<Rightarrow> nat \<Rightarrow> virtio_network_device \<Rightarrow> bool" where
  "tx_memory virt_to_phys phys_to_virt net_hdr dev \<longleftrightarrow> (\<forall>x. virt_to_phys x \<noteq> 0 \<and> phys_to_virt (virt_to_phys x) = x)
     \<and> (net_hdr + 10 \<le> send_buffers dev \<or> send_buffers dev + 1500 * vring_num (tx_vq dev) \<le> net_hdr)"

text \<open>A frame has the space of two send buffers, those of the two descriptors.\<close>

definition pair_frame :: "(nat \<Rightarrow> nat) \<Rightarrow> virtio_network_device \<Rightarrow> nat \<Rightarrow> bool" where
  "pair_frame virt_to_phys dev k \<longleftrightarrow> desc_addr (desc (tx_vq dev) (2 * k + 1)) = virt_to_phys (send_buffers dev + 3000 * k)
     \<and> desc_len (desc (tx_vq dev) (2 * k + 1)) \<le> 3000"

lemma frame_of_pair:
  assumes "pair_busy (desc (tx_vq (device s))) k" "pair_frame v2p (device s) k" "tx_memory v2p p2v hdr (device s)"
  shows "frame_of p2v s (2 * k) = read_bytes (bytes s) (send_buffers (device s) + 3000 * k) (desc_len (desc (tx_vq (device s)) (2 * k + 1)))"
  using assms by (simp add: frame_of_def pair_busy_def pair_frame_def tx_memory_def Let_def)

text \<open>What a frame takes of the queue.\<close>

definition put_pair :: "(nat \<Rightarrow> nat) \<Rightarrow> nat \<Rightarrow> nat \<Rightarrow> nat \<Rightarrow> nat \<Rightarrow> virtio_virtqueue \<Rightarrow> virtio_virtqueue" where
  "put_pair v2p hdr data sz k vq = vq\<lparr>num_free := num_free vq - 2,
     desc := (desc vq)(2 * k := \<lparr>desc_addr = v2p hdr, desc_len = 10, desc_flags = VRING_DESC_F_NEXT, desc_next = 2 * k + 1\<rparr>,
        2 * k + 1 := \<lparr>desc_addr = v2p data, desc_len = sz, desc_flags = 0, desc_next = desc_next (desc vq (2 * k + 1))\<rparr>),
     free_index := desc_next (desc vq (2 * k + 1)),
     avail_ring := (avail_ring vq)(ring_index vq (avail_idx vq) := 2 * k), avail_idx := avail_idx vq + 1\<rparr>"

lemma put_pair_inv:
  assumes i: "tx_inv vq a (k # F) P D U"
  shows "tx_inv (put_pair v2p hdr data sz k vq) a F (P @ [k]) D U"
proof -
  have rs: "ring_size (vring_num vq)" and dist: "distinct (k # F @ P @ D @ U)" using i by (simp_all add: tx_inv_def)
  have kk: "k \<notin> set F" "k \<notin> set (P @ D @ U)" using dist by auto
  have "free_pairs (desc vq) (desc_next (desc vq (2 * k + 1))) F" using i by (simp add: tx_inv_def)
  then have free: "free_pairs (desc (put_pair v2p hdr data sz k vq)) (desc_next (desc vq (2 * k + 1))) F"
    by (rule free_pairs_frame) (use kk in \<open>auto simp: put_pair_def double_not_eq_Suc_double Suc_double_not_eq_double\<close>)
  have "\<forall>j \<in> set (P @ D @ U). pair_busy (desc vq) j" using i by (simp add: tx_inv_def)
  then have busy: "\<forall>j \<in> set ((P @ [k]) @ D @ U). pair_busy (desc (put_pair v2p hdr data sz k vq)) j"
    using kk by (auto simp: pair_busy_def put_pair_def double_not_eq_Suc_double Suc_double_not_eq_double)
  have "length (map (\<lambda>k. 2 * k) P) < vring_num vq" using tx_pairs(1) [OF i] ring_size_facts(2) [OF rs] by simp
  moreover have "ring_index vq (avail_idx vq) = (unat a + length (map (\<lambda>k. 2 * k) P)) mod vring_num vq"
    using i unat_add_mod [OF rs, of a "length P"] by (simp add: ring_index_mod rs tx_inv_def)
  ultimately have "ring_holds (vring_num vq) (avail_ring (put_pair v2p hdr data sz k vq)) a (map (\<lambda>k. 2 * k) (P @ [k]))"
    using ring_holds_push [of "vring_num vq" "avail_ring vq" a "map (\<lambda>k. 2 * k) P" "2 * k"] i
    by (simp add: tx_inv_def put_pair_def)
  then show ?thesis
    using i free busy dist unfolding tx_inv_def
    by (simp add: put_pair_def insert_commute)
qed

lemma vring_desc_set:
  "d\<lparr>desc_addr := x, desc_len := y, desc_flags := z\<rparr> = \<lparr>desc_addr = x, desc_len = y, desc_flags = z, desc_next = desc_next d\<rparr>"
  by (cases d) simp

lemma send_frame_put:
  assumes i: "tx_inv (tx_vq (device s)) a F P D []" "F = k # R" and r: "inited (device s)" "\<And>x. v2p x \<noteq> 0"
  shows "(let vq = tx_vq (device s); data = send_buffers (device s) + 3000 * k;
      m = write_bytes hdr (replicate 10 0) (bytes s)
    in send_frame v2p hdr buffer sz 0 s
      = Some (ret_of_bool True, upd_tx (put_pair v2p hdr data sz k vq) (s\<lparr>bytes := write_bytes data (read_bytes m buffer sz) m\<rparr>)))"
proof -
  let ?vq = "tx_vq (device s)"
  have rs: "ring_size (vring_num ?vq)" and f: "free_index ?vq = 2 * k" "desc_next (desc ?vq (2 * k)) = 2 * k + 1"
    and u: "last_seen_used ?vq = used_idx ?vq" and n: "num_free ?vq = of_nat (2 * length F)"
    using i by (simp_all add: tx_inv_def)
  have "2 * length F < 65536" "0 < length F" using tx_pairs(1) [OF i(1)] ring_size_facts(3) [OF rs] i(2) by auto
  then have "unat (num_free ?vq) = 2 * length F" unfolding n by (simp add: unsigned_of_nat take_bit_eq_mod del: of_nat_mult)
  then have "\<not> num_free ?vq < 1" using \<open>0 < length F\<close> by (simp add: word_less_nat_alt)
  moreover have "reclaim_send_buffers ?vq = Some ?vq" by (subst reclaim_send_buffers.simps) (simp add: u)
  ultimately show ?thesis
    using r f by (simp del: neq0_conv add: vring_desc_set ring_index_def send_frame_def Let_def MAX_PACKET_SIZE_def sizeof_virtio_net_hdr_def put_pair_def fun_upd_twist mult.assoc)
qed

text \<open>Reclaiming comes first and is done then.\<close>

lemma send_frame_reclaimed:
  assumes "tx_inv (tx_vq (device s)) a F P D U"
  shows "\<exists>vq. tx_inv vq a (rev U @ F) P D [] \<and> vring_num vq = vring_num (tx_vq (device s)) \<and> avail_idx vq = avail_idx (tx_vq (device s))
    \<and> (\<forall>i. desc_addr (desc vq i) = desc_addr (desc (tx_vq (device s)) i) \<and> desc_len (desc vq i) = desc_len (desc (tx_vq (device s)) i))
    \<and> send_frame v2p hdr buffer sz 0 s = (if inited (device s) then send_frame v2p hdr buffer sz 0 (upd_tx vq s) else Some (EINVAL, s))"
proof -
  obtain vq where vq: "reclaim_send_buffers (tx_vq (device s)) = Some vq" "tx_inv vq a (rev U @ F) P D []"
    "vring_num vq = vring_num (tx_vq (device s))" "avail_idx vq = avail_idx (tx_vq (device s))"
    "\<forall>i. desc_addr (desc vq i) = desc_addr (desc (tx_vq (device s)) i) \<and> desc_len (desc vq i) = desc_len (desc (tx_vq (device s)) i)"
    using reclaim_send_buffers_inv [OF assms] by blast
  have "reclaim_send_buffers vq = Some vq" using vq(2) by (subst reclaim_send_buffers.simps) (simp add: tx_inv_def)
  then have "send_frame v2p hdr buffer sz 0 s
      = (if inited (device s) then send_frame v2p hdr buffer sz 0 (upd_tx vq s) else Some (EINVAL, s))"
    using vq(1) by (simp add: send_frame_def Let_def ring_index_def)
  then show ?thesis using vq(2-5) by blast
qed

lemma send_frame_full:
  assumes "tx_inv (tx_vq (device s)) a [] P D []" "inited (device s)"
  shows "send_frame v2p hdr buffer sz 0 s = Some (ret_of_bool False, s)"
proof -
  have "reclaim_send_buffers (tx_vq (device s)) = Some (tx_vq (device s))"
    using assms(1) by (subst reclaim_send_buffers.simps) (simp add: tx_inv_def)
  moreover have "num_free (tx_vq (device s)) = 0" using assms(1) by (simp add: tx_inv_def)
  ultimately show ?thesis using assms(2) by (simp add: send_frame_def)
qed

subsection \<open>Driver and device together\<close>

text \<open>
  The device takes the entries of \<open>avail\<close> in order, reads the frame, and later, in any order, returns
  their heads by the ring \<open>used\<close>. Other threads change memory outside the send buffers, those that send
  included; calls of \<open>send_frame\<close> do not overlap each other. A frame has at most the 3000 bytes of two
  send buffers and does not lie over the static header; the driver checks neither. \<open>copied\<close> is the frame
  as it was copied; the lists \<open>sent\<close> and \<open>got\<close> record the frames offered by the driver and those
  read by the device.
\<close>

record tx_system =
  driver :: "virtio_network_device net"
  sending :: tx_phase
  copied :: "8 word list"
  dev_avail :: "16 word"
  dev_work :: "nat list"
  sent :: "8 word list list"
  got :: "8 word list list"

abbreviation sysvq :: "tx_system \<Rightarrow> virtio_virtqueue" where
  "sysvq t \<equiv> tx_vq (device (driver t))"

definition frame_size_ok :: "nat \<Rightarrow> nat \<Rightarrow> nat \<Rightarrow> bool" where
  "frame_size_ok hdr buffer sz \<longleftrightarrow> sz \<le> 3000 \<and> (hdr + 10 \<le> buffer \<or> buffer + sz \<le> hdr)"

definition record_piece :: "tx_system \<Rightarrow> tx_system" where
  "record_piece t =
     (case sending t of
        TxPrepare buffer sz \<Rightarrow> t\<lparr>copied := read_bytes (bytes (driver t)) buffer sz\<rparr>
      | TxEntered head \<Rightarrow> t\<lparr>sent := sent t @ [copied t]\<rparr>
      | _ \<Rightarrow> t)"

inductive tx_life :: "(nat \<Rightarrow> nat) \<Rightarrow> (nat \<Rightarrow> nat) \<Rightarrow> nat \<Rightarrow> tx_system \<Rightarrow> bool" for v2p p2v hdr where
  start: "tx_memory v2p p2v hdr (device s) \<Longrightarrow> ring_size num \<Longrightarrow> tx_vq (device s) = virtio_virtqueue_setup num \<Longrightarrow> inited (device s)
     \<Longrightarrow> tx_life v2p p2v hdr \<lparr>driver = s, sending = TxDone True, copied = [], dev_avail = 0, dev_work = [], sent = [], got = []\<rparr>"
| call: "tx_life v2p p2v hdr t \<Longrightarrow> sending t = TxDone r \<Longrightarrow> frame_size_ok hdr buffer sz
     \<Longrightarrow> tx_life v2p p2v hdr (t\<lparr>sending := TxReclaim buffer sz\<rparr>)"
| piece: "tx_life v2p p2v hdr t \<Longrightarrow> tx_piece v2p hdr (sending t) (driver t) = Some (ph, s')
     \<Longrightarrow> tx_life v2p p2v hdr ((record_piece t)\<lparr>driver := s', sending := ph\<rparr>)"
| take: "tx_life v2p p2v hdr t \<Longrightarrow> dev_avail t \<noteq> avail_idx (sysvq t) \<Longrightarrow> h = avail_ring (sysvq t) (ring_index (sysvq t) (dev_avail t))
     \<Longrightarrow> tx_life v2p p2v hdr (t\<lparr>dev_avail := dev_avail t + 1, dev_work := dev_work t @ [h], got := got t @ [frame_of p2v (driver t) h]\<rparr>)"
| complete: "tx_life v2p p2v hdr t \<Longrightarrow> h \<in> set (dev_work t)
     \<Longrightarrow> tx_life v2p p2v hdr (t\<lparr>driver := upd_tx ((sysvq t)\<lparr>used_ring := (used_ring (sysvq t))
             (ring_index (sysvq t) (used_idx (sysvq t)) := \<lparr>used_id = h, used_len = l\<rparr>), used_idx := used_idx (sysvq t) + 1\<rparr>) (driver t),
           dev_work := remove1 h (dev_work t)\<rparr>)"
| outside: "tx_life v2p p2v hdr t
     \<Longrightarrow> (\<And>x. send_buffers (device (driver t)) \<le> x \<Longrightarrow> x < send_buffers (device (driver t)) + 1500 * vring_num (sysvq t)
          \<Longrightarrow> m x = bytes (driver t) x)
     \<Longrightarrow> tx_life v2p p2v hdr (t\<lparr>driver := (driver t)\<lparr>bytes := m, device := device (driver t)\<lparr>rx_vq := q, queue_notify := n\<rparr>\<rparr>\<rparr>)"

definition tx_good :: "(nat \<Rightarrow> nat) \<Rightarrow> (nat \<Rightarrow> nat) \<Rightarrow> nat \<Rightarrow> tx_system \<Rightarrow> nat list \<Rightarrow> nat list \<Rightarrow> nat list \<Rightarrow> nat list \<Rightarrow> bool" where
  "tx_good v2p p2v hdr t F P D U \<longleftrightarrow> tx_inv (sysvq t) (dev_avail t) F P D U \<and> dev_work t = map (\<lambda>k. 2 * k) D
     \<and> (\<forall>k \<in> set (P @ D). pair_frame v2p (device (driver t)) k) \<and> tx_memory v2p p2v hdr (device (driver t)) \<and> inited (device (driver t))
     \<and> sent t = got t @ map (\<lambda>k. frame_of p2v (driver t) (2 * k)) P"

lemma setup_inv: "ring_size num \<Longrightarrow> tx_inv (virtio_virtqueue_setup num) 0 [0..<num div 2] [] [] []"
proof -
  assume r: "ring_size num"
  have "free_pairs (desc (virtio_virtqueue_setup num)) (2 * j) [j..<num div 2]" if "j \<le> num div 2" for j
    using that
  proof (induction "num div 2 - j" arbitrary: j)
    case (Suc n)
    then have "[j..<num div 2] = j # [Suc j..<num div 2]" by (simp add: upt_conv_Cons)
    moreover have "2 * j + 1 < num - 1 \<or> Suc j = num div 2" using Suc.hyps(2) ring_size_facts(5) [OF r] by linarith
    ultimately show ?case
      using Suc.hyps(1) [of "Suc j"] Suc.hyps(2) by (auto simp: virtio_virtqueue_setup_def)
  qed simp
  from this [of 0] have "free_pairs (desc (virtio_virtqueue_setup num)) 0 [0..<num div 2]" by simp
  then show ?thesis
    using r ring_size_facts(5) [OF r] unfolding tx_inv_def
    by (auto simp: virtio_virtqueue_setup_def ring_holds_def mult.commute atLeast0LessThan)
qed

text \<open>Sending, as a step of the system.\<close>

lemma pair_frame_apart:
  fixes j k :: nat
  assumes "j \<noteq> k" "n \<le> 3000" "l \<le> 3000"
  shows "b + 3000 * k + n \<le> b + 3000 * j \<or> b + 3000 * j + l \<le> b + 3000 * k"
  using assms by (cases "j < k") auto

lemma read_write_apart:
  "a + length bs \<le> b \<or> b + n \<le> a \<Longrightarrow> read_bytes (write_bytes a bs m) b n = read_bytes m b n"
  by (intro nth_equalityI) (auto simp: write_bytes_out)

lemma put_frames:
  assumes i: "tx_inv (tx_vq (device s)) a (k # F) P D U" and fr: "\<forall>j \<in> set (P @ D). pair_frame v2p (device s) j"
    and mem: "tx_memory v2p p2v hdr (device s)" and sz: "sz \<le> 3000" and src: "hdr + 10 \<le> buffer \<or> buffer + sz \<le> hdr"
    and data: "data = send_buffers (device s) + 3000 * k" and m: "m = write_bytes hdr (replicate 10 0) (bytes s)"
    and s': "s' = upd_tx (put_pair v2p hdr data sz k (tx_vq (device s))) (s\<lparr>bytes := write_bytes data (read_bytes m buffer sz) m\<rparr>)"
  shows "tx_inv (tx_vq (device s')) a F (P @ [k]) D U" "\<forall>j \<in> set ((P @ [k]) @ D). pair_frame v2p (device s') j"
    "tx_memory v2p p2v hdr (device s')" "frame_of p2v s' (2 * k) = read_bytes (bytes s) buffer sz"
    "\<And>j. j \<in> set (P @ D) \<Longrightarrow> frame_of p2v s' (2 * j) = frame_of p2v s (2 * j)"
proof -
  let ?vq = "tx_vq (device s)"
  have rs: "ring_size (vring_num ?vq)" and dist: "k \<notin> set (P @ D)" using i by (auto simp: tx_inv_def)
  show inv: "tx_inv (tx_vq (device s')) a F (P @ [k]) D U" unfolding s' using put_pair_inv [OF i] by simp
  have keep: "desc (tx_vq (device s')) (2 * j) = desc ?vq (2 * j)" "desc (tx_vq (device s')) (2 * j + 1) = desc ?vq (2 * j + 1)"
    if "j \<in> set (P @ D)" for j
    using that dist by (auto simp: s' put_pair_def double_not_eq_Suc_double Suc_double_not_eq_double)
  show pf: "\<forall>j \<in> set ((P @ [k]) @ D). pair_frame v2p (device s') j"
  proof
    fix j assume "j \<in> set ((P @ [k]) @ D)"
    then consider "j = k" | "j \<in> set (P @ D)" by auto
    then show "pair_frame v2p (device s') j"
    proof cases
      case 1
      then show ?thesis using sz by (simp add: pair_frame_def s' put_pair_def data)
    next
      case 2
      then have "send_buffers (device s') = send_buffers (device s)" by (simp add: s')
      then show ?thesis using fr keep [OF 2] 2 by (simp add: pair_frame_def)
    qed
  qed
  show mem': "tx_memory v2p p2v hdr (device s')" using mem by (simp add: s' tx_memory_def put_pair_def)
  have busy: "pair_busy (desc (tx_vq (device s'))) j" if "j \<in> set ((P @ [k]) @ D)" for j using inv that by (auto simp: tx_inv_def)
  have "read_bytes m buffer sz = read_bytes (bytes s) buffer sz" using src by (auto simp: m intro: read_write_apart)
  then have b': "bytes s' = write_bytes data (read_bytes (bytes s) buffer sz) m" by (simp add: s')
  show "frame_of p2v s' (2 * k) = read_bytes (bytes s) buffer sz"
    using frame_of_pair [OF busy _ mem', of k] pf write_read_bytes [of data "read_bytes (bytes s) buffer sz" m]
    by (simp add: b') (simp add: s' put_pair_def data)
  fix j assume j: "j \<in> set (P @ D)"
  let ?n = "desc_len (desc ?vq (2 * j + 1))"
  have n: "?n \<le> 3000" using fr j by (simp add: pair_frame_def)
  have "2 * j + 1 < vring_num ?vq" using tx_pairs(2) [OF i, of j] j by auto
  then have "send_buffers (device s) + 3000 * j + ?n \<le> send_buffers (device s) + 1500 * vring_num ?vq" using n by linarith
  then have "hdr + 10 \<le> send_buffers (device s) + 3000 * j \<or> send_buffers (device s) + 3000 * j + ?n \<le> hdr"
    using mem unfolding tx_memory_def by linarith
  then have h: "read_bytes m (send_buffers (device s) + 3000 * j) ?n = read_bytes (bytes s) (send_buffers (device s) + 3000 * j) ?n"
    unfolding m by (intro read_write_apart) auto
  have "j \<noteq> k" using j dist by blast
  then have "read_bytes (bytes s') (send_buffers (device s) + 3000 * j) ?n = read_bytes m (send_buffers (device s) + 3000 * j) ?n"
    unfolding b' data using pair_frame_apart [OF _ sz n, of j k "send_buffers (device s)"] by (intro read_write_apart) auto
  moreover have "frame_of p2v s' (2 * j) = read_bytes (bytes s') (send_buffers (device s) + 3000 * j) ?n"
    using frame_of_pair [OF busy _ mem', of j] pf j keep(2) [OF j] by (simp add: s')
  moreover have "pair_busy (desc ?vq) j" using i j by (auto simp: tx_inv_def)
  then have "frame_of p2v s (2 * j) = read_bytes (bytes s) (send_buffers (device s) + 3000 * j) ?n"
    using frame_of_pair [OF _ _ mem, of j] fr j by blast
  ultimately show "frame_of p2v s' (2 * j) = frame_of p2v s (2 * j)" using h by simp
qed

lemma send_frame_system:
  assumes i: "tx_inv (tx_vq (device s)) a F P D U" and fr: "\<forall>j \<in> set (P @ D). pair_frame v2p (device s) j"
    and mem: "tx_memory v2p p2v hdr (device s)" and ini: "inited (device s)" and sz: "sz \<le> 3000" and src: "hdr + 10 \<le> buffer \<or> buffer + sz \<le> hdr"
  shows "\<exists>r s' F' P'. send_frame v2p hdr buffer sz 0 s = Some (r, s') \<and> tx_inv (tx_vq (device s')) a F' P' D []
     \<and> (\<forall>j \<in> set (P' @ D). pair_frame v2p (device s') j) \<and> tx_memory v2p p2v hdr (device s') \<and> inited (device s')
     \<and> (\<forall>j \<in> set (P @ D). frame_of p2v s' (2 * j) = frame_of p2v s (2 * j))
     \<and> (if F @ U = [] then r = ret_of_bool False \<and> P' = P
        else r = ret_of_bool True \<and> (\<exists>k. P' = P @ [k] \<and> frame_of p2v s' (2 * k) = read_bytes (bytes s) buffer sz))"
proof -
  obtain vq where vq: "tx_inv vq a (rev U @ F) P D []" "vring_num vq = vring_num (tx_vq (device s))"
    "\<forall>i. desc_addr (desc vq i) = desc_addr (desc (tx_vq (device s)) i) \<and> desc_len (desc vq i) = desc_len (desc (tx_vq (device s)) i)"
    and s: "send_frame v2p hdr buffer sz 0 s = send_frame v2p hdr buffer sz 0 (upd_tx vq s)"
    using send_frame_reclaimed [OF i, of v2p hdr buffer sz] ini by auto
  let ?s = "upd_tx vq s"
  have fr': "\<forall>j \<in> set (P @ D). pair_frame v2p (device ?s) j" and mem': "tx_memory v2p p2v hdr (device ?s)"
    using fr mem vq by (auto simp: pair_frame_def tx_memory_def)
  have same: "frame_of p2v ?s (2 * j) = frame_of p2v s (2 * j)" if "j \<in> set (P @ D)" for j
  proof -
    have "pair_busy (desc vq) j" "pair_busy (desc (tx_vq (device s))) j" using vq(1) i that by (auto simp: tx_inv_def)
    then show ?thesis using frame_of_pair [OF _ _ mem', of j] frame_of_pair [OF _ _ mem, of j] fr fr' that vq(3) by simp
  qed
  show ?thesis
  proof (cases "rev U @ F")
    case Nil
    then have "send_frame v2p hdr buffer sz 0 ?s = Some (ret_of_bool False, ?s)"
      using send_frame_full [of ?s a P D] vq(1) ini by simp
    then show ?thesis using Nil s vq(1) fr' mem' ini same
      by (intro exI [of _ "ret_of_bool False"] exI [of _ ?s] exI [of _ "[]"] exI [of _ P]) simp
  next
    case (Cons k R)
    define m where "m = write_bytes hdr (replicate 10 0) (bytes ?s)"
    define data where "data = send_buffers (device ?s) + 3000 * k"
    define s' where "s' = upd_tx (put_pair v2p hdr data sz k (tx_vq (device ?s))) (?s\<lparr>bytes := write_bytes data (read_bytes m buffer sz) m\<rparr>)"
    have i': "tx_inv (tx_vq (device ?s)) a (k # R) P D []" using vq(1) Cons by simp
    have "send_frame v2p hdr buffer sz 0 ?s = Some (ret_of_bool True, s')"
      using send_frame_put [OF i' refl, of v2p hdr buffer sz] ini mem unfolding s'_def m_def data_def Let_def tx_memory_def by auto
    moreover note put_frames [OF i' fr' mem' sz src data_def m_def s'_def]
    moreover have "inited (device s')" using ini by (simp add: s'_def)
    moreover have "F @ U \<noteq> []" using Cons by auto
    ultimately show ?thesis using s same
      by (intro exI [of _ "ret_of_bool True"] exI [of _ s'] exI [of _ R] exI [of _ "P @ [k]"]) auto
  qed
qed

text \<open>The device takes the oldest entry, or returns one of those it works on.\<close>

lemma take_good:
  assumes g: "tx_good v2p p2v hdr t F P D U" and ne: "dev_avail t \<noteq> avail_idx (sysvq t)"
    and h: "h = avail_ring (sysvq t) (ring_index (sysvq t) (dev_avail t))"
  shows "\<exists>k P'. P = k # P' \<and> tx_good v2p p2v hdr
    (t\<lparr>dev_avail := dev_avail t + 1, dev_work := dev_work t @ [h], got := got t @ [frame_of p2v (driver t) h]\<rparr>) F P' (D @ [k]) U"
proof -
  have i: "tx_inv (sysvq t) (dev_avail t) F P D U" using g by (simp add: tx_good_def)
  then have "P \<noteq> []" using ne by (auto simp: tx_inv_def)
  then obtain k P' where P: "P = k # P'" by (cases P) auto
  have rs: "ring_size (vring_num (sysvq t))" and a: "avail_idx (sysvq t) = dev_avail t + of_nat (length P)"
    and rh: "ring_holds (vring_num (sysvq t)) (avail_ring (sysvq t)) (dev_avail t) (2 * k # map (\<lambda>k. 2 * k) P')"
    using i by (simp_all add: tx_inv_def P)
  have "h = 2 * k" using ring_holds_pop(1) [OF rh rs] h by (simp add: ring_index_mod rs)
  moreover have "tx_inv (sysvq t) (dev_avail t + 1) F P' (D @ [k]) U"
    using i ring_holds_pop(2) [OF rh rs] unfolding tx_inv_def P by (auto simp: a P)
  ultimately have "tx_good v2p p2v hdr
    (t\<lparr>dev_avail := dev_avail t + 1, dev_work := dev_work t @ [h], got := got t @ [frame_of p2v (driver t) h]\<rparr>) F P' (D @ [k]) U"
    using g by (simp add: tx_good_def P)
  then show ?thesis using P by blast
qed

lemma remove1_double: "remove1 (2 * k) (map (\<lambda>k. 2 * k) D) = map (\<lambda>k. 2 * k) (remove1 k D)" for k :: nat
  by (induction D) simp_all

lemma complete_good:
  assumes g: "tx_good v2p p2v hdr t F P D U" and h: "h \<in> set (dev_work t)"
  shows "\<exists>D' k. tx_good v2p p2v hdr (t\<lparr>driver := upd_tx ((sysvq t)\<lparr>used_ring := (used_ring (sysvq t))
        (ring_index (sysvq t) (used_idx (sysvq t)) := \<lparr>used_id = h, used_len = l\<rparr>), used_idx := used_idx (sysvq t) + 1\<rparr>) (driver t),
      dev_work := remove1 h (dev_work t)\<rparr>) F P D' (U @ [k])"
proof -
  have i: "tx_inv (sysvq t) (dev_avail t) F P D U" and w: "dev_work t = map (\<lambda>k. 2 * k) D" using g by (simp_all add: tx_good_def)
  obtain k where k: "k \<in> set D" "h = 2 * k" using h w by auto
  then have r: "remove1 h (dev_work t) = map (\<lambda>k. 2 * k) (remove1 k D)" unfolding w by (simp add: remove1_double)
  let ?vq = "(sysvq t)\<lparr>used_ring := (used_ring (sysvq t))(ring_index (sysvq t) (used_idx (sysvq t)) := \<lparr>used_id = h, used_len = l\<rparr>),
    used_idx := used_idx (sysvq t) + 1\<rparr>"
  have rs: "ring_size (vring_num (sysvq t))" and u: "used_idx (sysvq t) = last_seen_used (sysvq t) + of_nat (length U)"
    and dist: "distinct (F @ P @ D @ U)" and all: "set (F @ P @ D @ U) = {..<vring_num (sysvq t) div 2}"
    using i by (simp_all add: tx_inv_def)
  have "length (map (\<lambda>k. 2 * k) U) < vring_num (sysvq t)" using tx_pairs(1) [OF i] ring_size_facts(2) [OF rs] by simp
  moreover have "used_id \<circ> used_ring ?vq = (used_id \<circ> used_ring (sysvq t))
      ((unat (last_seen_used (sysvq t)) + length (map (\<lambda>k. 2 * k) U)) mod vring_num (sysvq t) := 2 * k)"
    using k(2) unat_add_mod [OF rs, of "last_seen_used (sysvq t)" "length U"] by (auto simp: u ring_index_mod rs)
  ultimately have ring: "ring_holds (vring_num (sysvq t)) (used_id \<circ> used_ring ?vq) (last_seen_used (sysvq t)) (map (\<lambda>k. 2 * k) (U @ [k]))"
    using ring_holds_push [of "vring_num (sysvq t)" "used_id \<circ> used_ring (sysvq t)" "last_seen_used (sysvq t)" "map (\<lambda>k. 2 * k) U" "2 * k"] i
    by (simp add: tx_inv_def)
  have d: "set (remove1 k D) = set D - {k}" "k \<notin> set U" using dist k(1) by auto
  then have "set (F @ P @ remove1 k D @ U @ [k]) = {..<vring_num (sysvq t) div 2}" "distinct (F @ P @ remove1 k D @ U @ [k])"
    using all dist k(1) by auto
  then have "tx_inv ?vq (dev_avail t) F P (remove1 k D) (U @ [k])"
    using i ring d k(1) unfolding tx_inv_def by (auto simp: add.assoc)
  then have "tx_good v2p p2v hdr (t\<lparr>driver := upd_tx ?vq (driver t), dev_work := remove1 h (dev_work t)\<rparr>) F P (remove1 k D) (U @ [k])"
    using g d(1) r by (auto simp: tx_good_def pair_frame_def tx_memory_def frame_of_def)
  then show ?thesis by blast
qed

lemma outside_tx_good:
  assumes g: "tx_good v2p p2v hdr t F P D U"
    and m: "\<And>x. send_buffers (device (driver t)) \<le> x \<Longrightarrow> x < send_buffers (device (driver t)) + 1500 * vring_num (sysvq t) \<Longrightarrow> m x = bytes (driver t) x"
  shows "tx_good v2p p2v hdr (t\<lparr>driver := (driver t)\<lparr>bytes := m, device := device (driver t)\<lparr>rx_vq := q, queue_notify := n\<rparr>\<rparr>\<rparr>) F P D U"
proof -
  let ?s = "driver t" and ?s' = "(driver t)\<lparr>bytes := m, device := device (driver t)\<lparr>rx_vq := q, queue_notify := n\<rparr>\<rparr>"
  have i: "tx_inv (sysvq t) (dev_avail t) F P D U" and fr: "\<forall>k \<in> set (P @ D). pair_frame v2p (device ?s) k"
    and mem: "tx_memory v2p p2v hdr (device ?s)" using g by (simp_all add: tx_good_def)
  have mem': "tx_memory v2p p2v hdr (device ?s')" using mem by (simp add: tx_memory_def)
  have "frame_of p2v ?s' (2 * k) = frame_of p2v ?s (2 * k)" if "k \<in> set P" for k
  proof -
    have b: "pair_busy (desc (sysvq t)) k" "pair_frame v2p (device ?s) k" using i fr that by (auto simp: tx_inv_def)
    have b': "pair_busy (desc (tx_vq (device ?s'))) k" "pair_frame v2p (device ?s') k" using b by (simp_all add: pair_frame_def)
    have "2 * k + 1 < vring_num (sysvq t)" using tx_pairs(2) [OF i, of k] that by simp
    then have "m (send_buffers (device ?s) + 3000 * k + j) = bytes ?s (send_buffers (device ?s) + 3000 * k + j)"
      if "j < desc_len (desc (sysvq t) (2 * k + 1))" for j
      using that b(2) by (intro m) (auto simp: pair_frame_def)
    then show ?thesis
      using frame_of_pair [OF b mem] frame_of_pair [OF b' mem'] by (simp add: read_bytes_eq)
  qed
  then show ?thesis using g mem' unfolding tx_good_def by (auto simp: pair_frame_def)
qed

subsection \<open>Calls that are under way\<close>

text \<open>The system as it will be when a frame that has been prepared is offered.\<close>

definition settle :: "tx_system \<Rightarrow> tx_system" where
  "settle t =
     (case sending t of
        TxPrepared h \<Rightarrow> t\<lparr>driver := send_publish (send_entry h (driver t)), sent := sent t @ [copied t], sending := TxDone True\<rparr>
      | TxEntered h \<Rightarrow> t\<lparr>driver := send_publish (driver t), sent := sent t @ [copied t], sending := TxDone True\<rparr>
      | _ \<Rightarrow> t\<lparr>sending := TxDone True\<rparr>)"

definition prepared :: "tx_phase \<Rightarrow> bool" where
  "prepared ph \<longleftrightarrow> (\<exists>h. ph = TxPrepared h \<or> ph = TxEntered h)"

definition tx_sys_good :: "(nat \<Rightarrow> nat) \<Rightarrow> (nat \<Rightarrow> nat) \<Rightarrow> nat \<Rightarrow> tx_system \<Rightarrow> nat list \<Rightarrow> nat list \<Rightarrow> nat list \<Rightarrow> nat list \<Rightarrow> bool" where
  "tx_sys_good v2p p2v hdr t F P D U \<longleftrightarrow> tx_good v2p p2v hdr (settle t) F P D U
     \<and> (prepared (sending t) \<longrightarrow> P \<noteq> [])
     \<and> (case sending t of TxReclaim buffer sz \<Rightarrow> frame_size_ok hdr buffer sz
        | TxPrepare buffer sz \<Rightarrow> frame_size_ok hdr buffer sz | _ \<Rightarrow> True)"

lemma tx_good_sending [simp]:
  "tx_good v2p p2v hdr (t\<lparr>sending := ph\<rparr>) = tx_good v2p p2v hdr t"
  "tx_good v2p p2v hdr (t\<lparr>copied := c\<rparr>) = tx_good v2p p2v hdr t"
  by (intro ext; simp add: tx_good_def)+

lemma settle_idle: "\<not> prepared (sending t) \<Longrightarrow> settle t = t\<lparr>sending := TxDone True\<rparr>"
  by (cases "sending t") (simp_all add: settle_def prepared_def)

lemma settle_avail:
  "avail_idx (sysvq (settle t)) = avail_idx (sysvq t) + (if prepared (sending t) then 1 else 0)"
  "dev_avail (settle t) = dev_avail t" "dev_work (settle t) = dev_work t" "got (settle t) = got t"
  by (cases "sending t"; simp add: settle_def prepared_def send_publish_def send_entry_def Let_def)+

lemma settle_sent:
  "sent (settle t) = sent t @ (if prepared (sending t) then [copied t] else [])"
  by (cases "sending t") (simp_all add: settle_def prepared_def)

text \<open>The number of entries offered but not taken.\<close>

lemma tx_good_offered:
  assumes "tx_good v2p p2v hdr t F P D U"
  shows "length P < 65536" "unat (avail_idx (sysvq t) - dev_avail t) = length P"
proof -
  have i: "tx_inv (sysvq t) (dev_avail t) F P D U" using assms by (simp add: tx_good_def)
  then have rs: "ring_size (vring_num (sysvq t))" and a: "avail_idx (sysvq t) - dev_avail t = of_nat (length P)"
    by (auto simp: tx_inv_def)
  show "length P < 65536" using tx_pairs(1) [OF i] ring_size_facts(3) [OF rs] by linarith
  then show "unat (avail_idx (sysvq t) - dev_avail t) = length P"
    unfolding a by (simp add: unsigned_of_nat take_bit_eq_mod)
qed

lemma tx_sys_offered:
  assumes "tx_sys_good v2p p2v hdr t F P D U"
  shows "unat (avail_idx (sysvq t) - dev_avail t) = length P - (if prepared (sending t) then 1 else 0)"
proof -
  have g: "tx_good v2p p2v hdr (settle t) F P D U" and ne: "prepared (sending t) \<Longrightarrow> P \<noteq> []"
    using assms by (simp_all add: tx_sys_good_def)
  note o = tx_good_offered [OF g, unfolded settle_avail]
  show ?thesis
  proof (cases "prepared (sending t)")
    case True
    let ?x = "avail_idx (sysvq t) - dev_avail t"
    have u: "unat (?x + 1) = length P" using o(2) True by (simp add: algebra_simps)
    then have "?x + 1 \<noteq> 0" using ne [OF True] by auto
    then have "unat (?x + 1) = unat ?x + 1" by (metis Suc_eq_plus1 add.commute unatSuc)
    with u True show ?thesis by simp
  qed (use o(2) in simp)
qed

subsubsection \<open>Pieces of the driver\<close>

lemma reclaim_round_good:
  assumes g: "tx_good v2p p2v hdr t F P D U" and ne: "last_seen_used (sysvq t) \<noteq> used_idx (sysvq t)"
  shows "\<exists>k U' vq. U = k # U' \<and> reclaim_round (sysvq t) = Some vq
    \<and> tx_good v2p p2v hdr (t\<lparr>driver := upd_tx vq (driver t)\<rparr>) (k # F) P D U'"
proof -
  have i: "tx_inv (sysvq t) (dev_avail t) F P D U" using g by (simp add: tx_good_def)
  then obtain k U' where U: "U = k # U'" using ne by (cases U) (auto simp: tx_inv_def)
  have iU: "tx_inv (sysvq t) (dev_avail t) F P D (k # U')" using i U by simp
  have rs: "ring_size (vring_num (sysvq t))" and b: "pair_busy (desc (sysvq t)) k"
    and h: "ring_holds (vring_num (sysvq t)) (used_id \<circ> used_ring (sysvq t)) (last_seen_used (sysvq t)) (2 * k # map (\<lambda>k. 2 * k) U')"
    using iU by (simp_all add: tx_inv_def)
  have kPD: "k \<notin> set (P @ D)" using iU by (auto simp: tx_inv_def)
  have "2 * k + 1 < vring_num (sysvq t)" using tx_pairs(2) [OF iU, of k] by simp
  then have k: "2 * k mod 2 ^ 16 = 2 * k" using ring_size_facts(3) [OF rs] by simp
  have r: "reclaim_round (sysvq t) = Some (reclaim_pair k (sysvq t))"
    using ring_holds_pop(1) [OF h rs] chain_tail_pair [OF b] k
    by (simp add: reclaim_round_def ring_index_mod rs reclaim_pair_def Let_def)
  let ?t = "t\<lparr>driver := upd_tx (reclaim_pair k (sysvq t)) (driver t)\<rparr>"
  have pf: "\<forall>j \<in> set (P @ D). pair_frame v2p (device (driver ?t)) j"
    using g kPD by (auto simp: tx_good_def pair_frame_def reclaim_pair_def)
  have "frame_of p2v (driver ?t) (2 * j) = frame_of p2v (driver t) (2 * j)" if "j \<in> set P" for j
    using that kPD g
    by (auto simp: frame_of_def reclaim_pair_def Let_def tx_good_def tx_inv_def pair_busy_def double_not_eq_Suc_double)
  then have "tx_good v2p p2v hdr ?t (k # F) P D U'"
    using g pf reclaim_pair_inv(1) [OF iU] by (auto simp: tx_good_def tx_memory_def reclaim_pair_def)
  then show ?thesis using U r by blast
qed

lemma prepare_good:
  assumes g: "tx_good v2p p2v hdr t F P D U" and ok: "frame_size_ok hdr buffer sz"
    and p: "send_prepare v2p hdr buffer sz (driver t) = (ph, s')"
  shows "(F = [] \<and> ph = TxDone False \<and> s' = driver t)
    \<or> (\<exists>h k R. F = k # R \<and> ph = TxPrepared h
       \<and> tx_good v2p p2v hdr (t\<lparr>driver := send_publish (send_entry h s'),
           sent := sent t @ [read_bytes (bytes (driver t)) buffer sz]\<rparr>) R (P @ [k]) D U)"
proof -
  let ?s = "driver t" and ?vq = "sysvq t"
  have i: "tx_inv ?vq (dev_avail t) F P D U" and fr: "\<forall>j \<in> set (P @ D). pair_frame v2p (device ?s) j"
    and mem: "tx_memory v2p p2v hdr (device ?s)" and ini: "inited (device ?s)"
    using g by (simp_all add: tx_good_def)
  have rs: "ring_size (vring_num ?vq)" and n: "num_free ?vq = of_nat (2 * length F)" using i by (simp_all add: tx_inv_def)
  have "2 * length F < 65536" using tx_pairs(1) [OF i] ring_size_facts(3) [OF rs] by auto
  then have un: "unat (num_free ?vq) = 2 * length F" unfolding n by (simp add: unsigned_of_nat take_bit_eq_mod del: of_nat_mult)
  show ?thesis
  proof (cases F)
    case Nil
    then have "num_free ?vq = 0" using n by simp
    then show ?thesis using p Nil by (simp add: send_prepare_def)
  next
    case (Cons k R)
    have f: "free_index ?vq = 2 * k" "desc_next (desc ?vq (2 * k)) = 2 * k + 1" using i Cons by (simp_all add: tx_inv_def)
    have nz: "\<not> num_free ?vq < 1" using un Cons by (simp add: word_less_nat_alt)
    define m where "m = write_bytes hdr (replicate 10 0) (bytes ?s)"
    define data where "data = send_buffers (device ?s) + 3000 * k"
    define s2 where "s2 = upd_tx (put_pair v2p hdr data sz k ?vq) (?s\<lparr>bytes := write_bytes data (read_bytes m buffer sz) m\<rparr>)"
    have v: "v2p x \<noteq> 0" for x using mem by (simp add: tx_memory_def)
    have e: "ph = TxPrepared (2 * k) \<and> send_publish (send_entry (2 * k) s') = s2"
      using p nz f v [of data] unfolding s2_def m_def data_def
      by (auto simp: vring_desc_set ring_index_def send_prepare_def send_publish_def send_entry_def Let_def MAX_PACKET_SIZE_def
          sizeof_virtio_net_hdr_def put_pair_def fun_upd_twist mult.assoc split: if_splits)
    have i': "tx_inv (tx_vq (device ?s)) (dev_avail t) (k # R) P D U" using i Cons by simp
    have sz: "sz \<le> 3000" "hdr + 10 \<le> buffer \<or> buffer + sz \<le> hdr" using ok by (simp_all add: frame_size_ok_def)
    note put = put_frames [OF i' fr mem sz data_def m_def s2_def]
    have "inited (device s2)" using ini by (simp add: s2_def)
    then have "tx_good v2p p2v hdr (t\<lparr>driver := s2, sent := sent t @ [read_bytes (bytes ?s) buffer sz]\<rparr>) R (P @ [k]) D U"
      using g put by (auto simp: tx_good_def)
    then show ?thesis using e Cons by blast
  qed
qed

lemma piece_good:
  assumes g: "tx_sys_good v2p p2v hdr t F P D U" and p: "tx_piece v2p hdr (sending t) (driver t) = Some (ph, s')"
  shows "\<exists>F P D U. tx_sys_good v2p p2v hdr ((record_piece t)\<lparr>driver := s', sending := ph\<rparr>) F P D U"
proof (cases "sending t")
  case (TxReclaim buffer sz)
  have gt: "tx_good v2p p2v hdr t F P D U" and ok: "frame_size_ok hdr buffer sz"
    using g TxReclaim by (simp_all add: tx_sys_good_def settle_def)
  have rec: "record_piece t = t" using TxReclaim by (simp add: record_piece_def)
  show ?thesis
  proof (cases "last_seen_used (sysvq t) \<noteq> used_idx (sysvq t)")
    case True
    from reclaim_round_good [OF gt this] p TxReclaim True obtain k U' vq where
      "tx_good v2p p2v hdr (t\<lparr>driver := upd_tx vq (driver t)\<rparr>) (k # F) P D U'" "s' = upd_tx vq (driver t)"
      "ph = TxReclaim buffer sz" by (auto simp: tx_piece_def Let_def)
    then show ?thesis using ok unfolding rec
      by (intro exI [of _ "k # F"] exI [of _ P] exI [of _ D] exI [of _ U']) (simp add: tx_sys_good_def settle_def prepared_def)
  next
    case False
    then show ?thesis using p TxReclaim gt ok unfolding rec
      by (intro exI [of _ F] exI [of _ P] exI [of _ D] exI [of _ U])
        (auto simp: tx_piece_def Let_def tx_sys_good_def settle_def prepared_def)
  qed
next
  case (TxPrepare buffer sz)
  have gt: "tx_good v2p p2v hdr t F P D U" and ok: "frame_size_ok hdr buffer sz"
    using g TxPrepare by (simp_all add: tx_sys_good_def settle_def)
  have sp: "send_prepare v2p hdr buffer sz (driver t) = (ph, s')" using p TxPrepare by (simp add: tx_piece_def)
  from prepare_good [OF gt ok sp] show ?thesis
  proof
    assume "F = [] \<and> ph = TxDone False \<and> s' = driver t"
    then show ?thesis using gt TxPrepare
      by (intro exI [of _ F] exI [of _ P] exI [of _ D] exI [of _ U])
        (simp add: tx_sys_good_def settle_def prepared_def record_piece_def)
  next
    assume "\<exists>h k R. F = k # R \<and> ph = TxPrepared h
       \<and> tx_good v2p p2v hdr (t\<lparr>driver := send_publish (send_entry h s'),
           sent := sent t @ [read_bytes (bytes (driver t)) buffer sz]\<rparr>) R (P @ [k]) D U"
    then obtain h k R where c: "ph = TxPrepared h" "tx_good v2p p2v hdr (t\<lparr>driver := send_publish (send_entry h s'),
           sent := sent t @ [read_bytes (bytes (driver t)) buffer sz]\<rparr>) R (P @ [k]) D U" by blast
    have "settle ((record_piece t)\<lparr>driver := s', sending := ph\<rparr>)
        = ((t\<lparr>driver := send_publish (send_entry h s'),
           sent := sent t @ [read_bytes (bytes (driver t)) buffer sz]\<rparr>)\<lparr>copied := read_bytes (bytes (driver t)) buffer sz\<rparr>)\<lparr>sending := TxDone True\<rparr>"
      using TxPrepare c(1) by (simp add: settle_def record_piece_def)
    then show ?thesis using c
      by (intro exI [of _ R] exI [of _ "P @ [k]"] exI [of _ D] exI [of _ U]) (simp add: tx_sys_good_def)
  qed
next
  case (TxPrepared h)
  then have "settle ((record_piece t)\<lparr>driver := s', sending := ph\<rparr>) = settle t" "ph = TxEntered h"
    using p by (auto simp: tx_piece_def settle_def record_piece_def)
  then show ?thesis using g TxPrepared
    by (intro exI [of _ F] exI [of _ P] exI [of _ D] exI [of _ U]) (simp add: tx_sys_good_def prepared_def)
next
  case (TxEntered h)
  then have "settle ((record_piece t)\<lparr>driver := s', sending := ph\<rparr>) = settle t" "ph = TxDone True"
    using p by (auto simp: tx_piece_def settle_def record_piece_def)
  then show ?thesis using g
    by (intro exI [of _ F] exI [of _ P] exI [of _ D] exI [of _ U]) (simp add: tx_sys_good_def prepared_def)
next
  case (TxDone b)
  then show ?thesis using p by (simp add: tx_piece_def)
qed

subsubsection \<open>Steps of the device during a call\<close>

lemma take_sys_good:
  assumes g: "tx_sys_good v2p p2v hdr t F P D U" and ne: "dev_avail t \<noteq> avail_idx (sysvq t)"
    and h: "h = avail_ring (sysvq t) (ring_index (sysvq t) (dev_avail t))"
    and t': "t' = t\<lparr>dev_avail := dev_avail t + 1, dev_work := dev_work t @ [h], got := got t @ [frame_of p2v (driver t) h]\<rparr>"
  shows "\<exists>F P D U. tx_sys_good v2p p2v hdr t' F P D U"
proof -
  let ?t = "settle t"
  have gt: "tx_good v2p p2v hdr ?t F P D U" using g by (simp add: tx_sys_good_def)
  then have i: "tx_inv (sysvq ?t) (dev_avail t) F P D U" by (simp add: tx_good_def settle_avail)
  have num: "vring_num (sysvq ?t) = vring_num (sysvq t)"
    by (cases "sending t") (simp_all add: settle_def send_publish_def send_entry_def Let_def)
  have rs: "ring_size (vring_num (sysvq t))" using i by (simp add: tx_inv_def num)
  note off = tx_sys_offered [OF g]
  have pos: "0 < unat (avail_idx (sysvq t) - dev_avail t)" using ne by (simp add: unat_gt_0)
  then have "0 < length P" using off by linarith
  then have lenP: "length P < vring_num (sysvq t)" "0 < length P" using tx_pairs(1) [OF i] ring_size_facts(2) [OF rs] num by simp_all
  have long: "prepared (sending t) \<Longrightarrow> 1 < length P" using pos off by simp
  have ring: "avail_ring (sysvq ?t) (ring_index (sysvq ?t) (dev_avail t)) = h"
  proof -
    let ?n = "unat (avail_idx (sysvq t) - dev_avail t)"
    have small: "?n < vring_num (sysvq t)" using off lenP by simp
    have "avail_idx (sysvq t) = dev_avail t + of_nat ?n" by simp
    then have "unat (avail_idx (sysvq t)) mod vring_num (sysvq t) = (unat (dev_avail t) + ?n) mod vring_num (sysvq t)"
      using unat_add_mod [OF rs, of "dev_avail t" ?n] by simp
    moreover have "(unat (dev_avail t) + ?n) mod vring_num (sysvq t) \<noteq> unat (dev_avail t) mod vring_num (sysvq t)"
    proof
      assume "(unat (dev_avail t) + ?n) mod vring_num (sysvq t) = unat (dev_avail t) mod vring_num (sysvq t)"
      then have "vring_num (sysvq t) dvd (unat (dev_avail t) + ?n) - unat (dev_avail t)" by (metis mod_eq_dvd_iff_nat le_add1)
      then show False using pos small nat_dvd_not_less [of ?n "vring_num (sysvq t)"] by simp
    qed
    ultimately have "ring_index (sysvq t) (dev_avail t) \<noteq> ring_index (sysvq t) (avail_idx (sysvq t))"
      using ring_index_mod [OF rs] by simp
    then show ?thesis
      by (cases "sending t") (simp_all add: h settle_def send_publish_def send_entry_def Let_def ring_index_def)
  qed
  have same: "frame_of p2v (driver ?t) h = frame_of p2v (driver t) h"
    by (cases "sending t") (simp_all add: settle_def send_publish_def send_entry_def Let_def frame_of_def)
  have "dev_avail ?t \<noteq> avail_idx (sysvq ?t)"
  proof
    assume "dev_avail ?t = avail_idx (sysvq ?t)"
    then have "unat (avail_idx (sysvq ?t) - dev_avail ?t) = 0" by simp
    then show False using tx_good_offered(2) [OF gt] lenP(2) by simp
  qed
  from take_good [OF gt this, of h] ring obtain k P' where r: "P = k # P'" "tx_good v2p p2v hdr
    (?t\<lparr>dev_avail := dev_avail t + 1, dev_work := dev_work t @ [h], got := got t @ [frame_of p2v (driver t) h]\<rparr>) F P' (D @ [k]) U"
    by (auto simp: settle_avail same)
  have "settle t' = ?t\<lparr>dev_avail := dev_avail t + 1, dev_work := dev_work t @ [h], got := got t @ [frame_of p2v (driver t) h]\<rparr>"
    unfolding t' by (cases "sending t") (simp_all add: settle_def)
  then show ?thesis using g r long
    by (intro exI [of _ F] exI [of _ P'] exI [of _ "D @ [k]"] exI [of _ U]) (auto simp: tx_sys_good_def t')
qed

lemma complete_sys_good:
  assumes g: "tx_sys_good v2p p2v hdr t F P D U" and h: "h \<in> set (dev_work t)"
    and t': "t' = t\<lparr>driver := upd_tx ((sysvq t)\<lparr>used_ring := (used_ring (sysvq t))
             (ring_index (sysvq t) (used_idx (sysvq t)) := \<lparr>used_id = h, used_len = l\<rparr>), used_idx := used_idx (sysvq t) + 1\<rparr>) (driver t),
           dev_work := remove1 h (dev_work t)\<rparr>"
  shows "\<exists>F P D U. tx_sys_good v2p p2v hdr t' F P D U"
proof -
  have gt: "tx_good v2p p2v hdr (settle t) F P D U" using g by (simp add: tx_sys_good_def)
  let ?t = "settle t"
  from complete_good [OF gt, of h l] h obtain D' k where
    "tx_good v2p p2v hdr (?t\<lparr>driver := upd_tx ((sysvq ?t)\<lparr>used_ring := (used_ring (sysvq ?t))
             (ring_index (sysvq ?t) (used_idx (sysvq ?t)) := \<lparr>used_id = h, used_len = l\<rparr>), used_idx := used_idx (sysvq ?t) + 1\<rparr>) (driver ?t),
           dev_work := remove1 h (dev_work ?t)\<rparr>) F P D' (U @ [k])" by (auto simp: settle_avail)
  moreover have "settle t' = ?t\<lparr>driver := upd_tx ((sysvq ?t)\<lparr>used_ring := (used_ring (sysvq ?t))
             (ring_index (sysvq ?t) (used_idx (sysvq ?t)) := \<lparr>used_id = h, used_len = l\<rparr>), used_idx := used_idx (sysvq ?t) + 1\<rparr>) (driver ?t),
           dev_work := remove1 h (dev_work ?t)\<rparr>"
    unfolding t' by (cases "sending t") (simp_all add: settle_def send_publish_def send_entry_def Let_def ring_index_def)
  ultimately show ?thesis using g
    by (intro exI [of _ F] exI [of _ P] exI [of _ D'] exI [of _ "U @ [k]"]) (auto simp: tx_sys_good_def t')
qed

lemma outside_sys_good:
  assumes g: "tx_sys_good v2p p2v hdr t F P D U"
    and m: "\<And>x. send_buffers (device (driver t)) \<le> x \<Longrightarrow> x < send_buffers (device (driver t)) + 1500 * vring_num (sysvq t) \<Longrightarrow> m x = bytes (driver t) x"
    and t': "t' = t\<lparr>driver := (driver t)\<lparr>bytes := m, device := device (driver t)\<lparr>rx_vq := q, queue_notify := n\<rparr>\<rparr>\<rparr>"
  shows "tx_sys_good v2p p2v hdr t' F P D U"
proof -
  have gt: "tx_good v2p p2v hdr (settle t) F P D U" using g by (simp add: tx_sys_good_def)
  let ?t = "settle t"
  have "tx_good v2p p2v hdr (?t\<lparr>driver := (driver ?t)\<lparr>bytes := m, device := device (driver ?t)\<lparr>rx_vq := q, queue_notify := n\<rparr>\<rparr>\<rparr>) F P D U"
  proof (rule outside_tx_good [OF gt])
    fix x assume "send_buffers (device (driver ?t)) \<le> x" "x < send_buffers (device (driver ?t)) + 1500 * vring_num (sysvq ?t)"
    then have "m x = bytes (driver t) x"
      by (intro m; cases "sending t") (simp_all add: settle_def send_publish_def send_entry_def Let_def)
    then show "m x = bytes (driver ?t) x"
      by (cases "sending t") (simp_all add: settle_def send_publish_def send_entry_def Let_def)
  qed
  moreover have "settle t' = ?t\<lparr>driver := (driver ?t)\<lparr>bytes := m, device := device (driver ?t)\<lparr>rx_vq := q, queue_notify := n\<rparr>\<rparr>\<rparr>"
    unfolding t' by (cases "sending t") (simp_all add: settle_def send_publish_def send_entry_def Let_def ring_index_def)
  ultimately show ?thesis using g by (simp add: tx_sys_good_def t')
qed

lemma tx_life_good: "tx_life v2p p2v hdr t \<Longrightarrow> \<exists>F P D U. tx_sys_good v2p p2v hdr t F P D U"
proof (induction rule: tx_life.induct)
  case (start s num)
  then show ?case using setup_inv [OF start(2)]
    by (intro exI [of _ "[0..<num div 2]"] exI [of _ "[]"]) (simp add: tx_good_def tx_sys_good_def settle_def prepared_def)
next
  case (call t r buffer sz)
  then show ?case by (auto simp: tx_sys_good_def settle_def prepared_def)
next
  case (piece t ph s')
  then show ?case using piece_good by blast
next
  case (take t h)
  then show ?case using take_sys_good by blast
next
  case (complete t h l)
  then show ?case using complete_sys_good by blast
next
  case (outside t m q n)
  then show ?case using outside_sys_good by blast
qed

text \<open>A call in one go, as a part of the system's life.\<close>

lemma pieces_life:
  assumes "(piece_after v2p hdr)\<^sup>*\<^sup>* (sending t, driver t) c" "tx_life v2p p2v hdr t"
  shows "\<exists>t'. tx_life v2p p2v hdr t' \<and> sending t' = fst c \<and> driver t' = snd c"
  using assms(1)
proof (induction rule: rtranclp_induct)
  case base
  then show ?case using assms(2) by auto
next
  case (step c c')
  then obtain t' where t': "tx_life v2p p2v hdr t'" "sending t' = fst c" "driver t' = snd c" by blast
  then have "tx_piece v2p hdr (sending t') (driver t') = Some (fst c', snd c')" using step(2) by (simp add: piece_after_def)
  from tx_life.piece [OF t'(1) this] show ?case by (intro exI) auto
qed


text \<open>A frame of two bytes, sent by a new device and read.\<close>

definition example_virtio :: "virtio_network_device net" where
  "example_virtio = \<lparr>bytes = (\<lambda>x. 7), device = \<lparr>tx_vq = virtio_virtqueue_setup 4, rx_vq = virtio_virtqueue_setup 4,
     send_buffers = 1000, inited = True, queue_notify = []\<rparr>\<rparr>"


end
