(* ===== verification/ArpAnswerer.thy ===== *)
theory ArpAnswerer
  imports NetStack
begin

section \<open>ARP answers\<close>

text \<open>
  The component \<open>ARP_ANSWERER\<close> (\<open>syspart/components/arp/arp_answer.c\<close>). The answer is built in the
  static buffer \<open>arp_answer_buffer\<close> at the address \<open>buffer\<close>: an Ethernet header of 14 bytes that
  \<open>mac_send\<close> fills in, and the ARP packet. The fields of an ARP packet lie at the offsets 0 (\<open>htype\<close>),
  2 (\<open>ptype\<close>), 4 (\<open>hlen\<close>), 5 (\<open>plen\<close>), 6 (\<open>oper\<close>), 8 (\<open>sha\<close>), 14 (\<open>spa\<close>), 18 (\<open>tha\<close>), 24 (\<open>tpa\<close>).
\<close>

record ARP_ANSWERER_state =
  src_mac :: "8 word list"
  good_ips :: "32 word list"

text \<open>The packet of the answer, from the loop over the MAC addresses on.\<close>

definition fill_in_arp_answer :: "bool \<Rightarrow> nat \<Rightarrow> ARP_ANSWERER_state \<Rightarrow> nat \<Rightarrow> net_mem \<Rightarrow> net_mem" where
  "fill_in_arp_answer le a state data m =
     (let m = fold (\<lambda>i m. let m = m(a + 8 + i := src_mac state ! i) in m(a + 18 + i := m (data + 8 + i))) [0..<ETH_ALEN] m;
          m = store16 le a (load16 le m data) m;
          m = store16 le (a + 2) (load16 le m (data + 2)) m;
          m = m(a + 4 := m (data + 4));
          m = m(a + 5 := m (data + 5));
          m = store16 le (a + 6) (hton16 le 2) m;
          m = store32 le (a + 14) (load32 le m (data + 24)) m
      in store32 le (a + 24) (load32 le m (data + 14)) m)"

definition arp_receive ::
  "bool \<Rightarrow> (nat \<Rightarrow> nat \<Rightarrow> nat \<Rightarrow> 8 word list \<Rightarrow> ethertype \<Rightarrow> 'd net \<Rightarrow> ret_t \<times> 'd net) \<Rightarrow> ('d net \<Rightarrow> ret_t \<times> 'd net)
   \<Rightarrow> nat \<Rightarrow> ARP_ANSWERER_state \<Rightarrow> nat \<Rightarrow> nat \<Rightarrow> 'd net \<Rightarrow> ret_t \<times> 'd net" where
  "arp_receive le portB_mac_send portB_flush buffer state data len s =
     (if load16 le (bytes s) data \<noteq> hton16 le 1 then (EINVAL, s)
      else if load16 le (bytes s) (data + 2) \<noteq> hton16 le (ethertype_value ETH_P_IP) then (EINVAL, s)
      else if bytes s (data + 4) \<noteq> of_nat ETH_ALEN \<or> bytes s (data + 5) \<noteq> 4 then (EINVAL, s)
      else if load16 le (bytes s) (data + 6) \<noteq> hton16 le 1 then (EINVAL, s)
      else if \<not> list_ex (\<lambda>ip. load32 le (bytes s) (data + 24) = hton32 le ip) (good_ips state) then (EINVAL, s)
      else
        (let answer = buffer + MAC_HEADER_SIZE;
             m = fill_in_arp_answer le answer state data (bytes s);
             s = s\<lparr>bytes := m\<rparr>;
             s = snd (portB_mac_send answer 28 MAC_HEADER_SIZE (read_bytes m (answer + 18) ETH_ALEN) ETH_P_ARP s);
             s = snd (portB_flush s)
         in (EOK, s)))"

text \<open>An ARP packet for Ethernet and IPv4.\<close>

definition arp_message :: "16 word \<Rightarrow> 8 word list \<Rightarrow> 32 word \<Rightarrow> 8 word list \<Rightarrow> 32 word \<Rightarrow> 8 word list" where
  "arp_message oper sha spa tha tpa = net_bytes [1, 0x0800] @ [6, 4] @ net_bytes [oper] @ sha @ net_bytes [half1 spa, half0 spa]
     @ tha @ net_bytes [half1 tpa, half0 tpa]"

definition arp_request_for_us :: "ARP_ANSWERER_state \<Rightarrow> net_mem \<Rightarrow> nat \<Rightarrow> bool" where
  "arp_request_for_us state m data \<longleftrightarrow> net16 m data = 1 \<and> net16 m (data + 2) = 0x0800 \<and> m (data + 4) = 6 \<and> m (data + 5) = 4
     \<and> net16 m (data + 6) = 1 \<and> net32 m (data + 24) \<in> set (good_ips state)"

lemma load32_eq_hton: "load32 le m a = hton32 le v \<longleftrightarrow> net32 m a = v"
proof -
  have i: "bswap32 (bswap32 x) = x" for x by (simp add: bswap32_def)
  have "load32 le m a = hton32 le (net32 m a)"
    by (cases le) (simp_all add: load32_def load16_def net32_def net16_def hton32_def bswap32_def)
  then show ?thesis by (cases le) (auto simp: hton32_def, metis i)
qed

lemma store_load: "store16 le a (load16 le m d) m' = m'(a := m d, a + 1 := m (d + 1))"
  "store32 le a (load32 le m d) m' = m'(a := m d, a + 1 := m (d + 1), a + 2 := m (d + 2), a + 3 := m (d + 3))"
  by (simp_all add: load16_net16 store16_hton net16_def)
    (auto simp: store32_def load32_def load16_def store16_def fun_eq_iff numeral_3_eq_3)

lemma store_load_at:
  "store16 le (a + i) (load16 le m (d + j)) m' = m'(a + i := m (d + j), a + (i + 1) := m (d + (j + 1)))"
  "store32 le (a + i) (load32 le m (d + j)) m' = m'(a + i := m (d + j), a + (i + 1) := m (d + (j + 1)),
     a + (i + 2) := m (d + (j + 2)), a + (i + 3) := m (d + (j + 3)))"
  by (simp_all only: store_load add.assoc)

text \<open>The memory when the answer is complete, for a request outside the buffer.\<close>

lemma arp_answer_bytes:
  assumes d: "data + 28 \<le> a \<or> a + 28 \<le> data" and l: "length (src_mac state) = 6" and q: "arp_request_for_us state m data"
  shows "fill_in_arp_answer le a state data m
    = write_bytes a (arp_message 2 (src_mac state) (net32 m (data + 24)) (read_bytes m (data + 8) 6) (net32 m (data + 14))) m"
proof (rule write_bytes_eqI)
  define mac where "mac = src_mac state"
  have i: "[0..<6] = [0, 1, 2, 3, 4, 5 :: nat]" by (simp add: upt_rec)
  have m: "mac = [mac ! 0, mac ! 1, mac ! 2, mac ! 3, mac ! 4, mac ! 5]" using list6 [of mac] l by (simp add: mac_def)
  have j: "net16 m data = 1" "net16 m (data + 2) = 0x0800" "m (data + 4) = 6" "m (data + 5) = 4"
    using q by (simp_all add: arp_request_for_us_def)
  have h: "m data = byte1 1" "m (data + 1) = byte0 1" "m (data + 2) = byte1 0x0800" "m (data + 3) = byte0 0x0800"
    unfolding j(1,2) [symmetric] net16_def by (simp_all add: numeral_3_eq_3)
  have b: "read_bytes m (data + 8) 6 = [m (data + 8), m (data + 9), m (data + 10), m (data + 11), m (data + 12), m (data + 13)]"
    by (simp add: read_bytes_def i add.commute)
  have msg: "arp_message 2 mac (net32 m (data + 24)) (read_bytes m (data + 8) 6) (net32 m (data + 14))
    = [byte1 1, byte0 1, byte1 0x0800, byte0 0x0800, 6, 4, byte1 2, byte0 2, mac ! 0, mac ! 1, mac ! 2, mac ! 3, mac ! 4, mac ! 5,
       m (data + 24), m (data + 25), m (data + 26), m (data + 27), m (data + 8), m (data + 9), m (data + 10), m (data + 11),
       m (data + 12), m (data + 13), m (data + 14), m (data + 15), m (data + 16), m (data + 17)]"
    unfolding b by (subst m) (simp add: arp_message_def net32_def net16_def add.commute)
  have eq: "fill_in_arp_answer le a state data m = m
     (a + 8 := mac ! 0, a + 18 := m (data + 8), a + 9 := mac ! 1, a + 19 := m (data + 9), a + 10 := mac ! 2, a + 20 := m (data + 10),
      a + 11 := mac ! 3, a + 21 := m (data + 11), a + 12 := mac ! 4, a + 22 := m (data + 12), a + 13 := mac ! 5, a + 23 := m (data + 13),
      a := byte1 1, a + 1 := byte0 1, a + 2 := byte1 0x0800, a + 3 := byte0 0x0800, a + 4 := 6, a + 5 := 4,
      a + 6 := byte1 2, a + 7 := byte0 2, a + 14 := m (data + 24), a + 15 := m (data + 25), a + 16 := m (data + 26),
      a + 17 := m (data + 27), a + 24 := m (data + 14), a + 25 := m (data + 15), a + 26 := m (data + 16), a + 27 := m (data + 17))"
  proof -
    define keeps where "keeps m' \<longleftrightarrow> (\<forall>x. data \<le> x \<and> x < data + 28 \<longrightarrow> m' x = m x)" for m' :: net_mem
    have k: "keeps (m'(y := v))" if "keeps m'" "a \<le> y" "y < a + 28" for m' y v using that d by (auto simp: keeps_def)
    have r: "m' (data + i) = m (data + i)" if "keeps m'" "i < 28" for m' i using that by (simp add: keeps_def)
    define f g where "f = (\<lambda>i m. m(a + 8 + i := mac ! i, a + 18 + i := (m(a + 8 + i := mac ! i)) (data + 8 + i)))"
      and "g = (\<lambda>i m' :: net_mem. m'(a + 8 + i := mac ! i, a + 18 + i := m (data + 8 + i)))"
    have fg: "f i m' = g i m'" "keeps (g i m')" if "keeps m'" "i < 6" for i m'
    proof -
      have "keeps (m'(a + 8 + i := mac ! i))" using that by (auto intro!: k)
      from r [OF this, of "8 + i"] that show "f i m' = g i m'" by (simp add: f_def g_def Let_def add.assoc)
      show "keeps (g i m')" unfolding g_def using that by (auto intro!: k)
    qed
    have fixed: "fold f xs m' = fold g xs m'" if "keeps m'" "\<forall>i \<in> set xs. i < 6" for xs m'
      using that by (induction xs arbitrary: m') (simp_all add: fg)
    define m1 where "m1 = fold f [0..<6] m"
    have "keeps m" by (simp add: keeps_def)
    then have "m1 = fold g [0..<6] m" unfolding m1_def by (rule fixed) simp
    then have m1: "m1 = m(a + 8 := mac ! 0, a + 18 := m (data + 8), a + 9 := mac ! 1, a + 19 := m (data + 9), a + 10 := mac ! 2,
        a + 20 := m (data + 10), a + 11 := mac ! 3, a + 21 := m (data + 11), a + 12 := mac ! 4, a + 22 := m (data + 12),
        a + 13 := mac ! 5, a + 23 := m (data + 13))" (is "_ = ?m1")
      by (simp add: i g_def add.assoc)
    have "keeps ?m1" by (intro k \<open>keeps m\<close>) simp_all
    then have k1: "keeps m1" by (simp only: m1)
    have r0: "m' data = m data" if "keeps m'" for m' using r [OF that, of 0] by simp
    define m2 where "m2 = m1(a := m data, a + 1 := m (data + 1))"
    have m2: "store16 le a (load16 le m1 data) m1 = m2" "keeps m2"
      using k1 by (simp_all add: store_load m2_def r r0 k del: One_nat_def)
    define m3 where "m3 = m2(a + 2 := m (data + 2), a + 3 := m (data + 3))"
    have m3: "store16 le (a + 2) (load16 le m2 (data + 2)) m2 = m3" "keeps m3"
      using m2(2) by (simp_all add: store_load_at m3_def r k add.assoc del: One_nat_def add_2_eq_Suc add_2_eq_Suc')
    define m4 where "m4 = m3(a + 4 := m (data + 4))"
    have m4: "m3(a + 4 := m3 (data + 4)) = m4" "keeps m4" using m3(2) by (simp_all add: m4_def r k)
    define m5 where "m5 = m4(a + 5 := m (data + 5))"
    have m5: "m4(a + 5 := m4 (data + 5)) = m5" "keeps m5" using m4(2) by (simp_all add: m5_def r k)
    define m6 where "m6 = m5(a + 6 := byte1 2, a + 7 := byte0 2)"
    have m6: "store16 le (a + 6) (hton16 le 2) m5 = m6" "keeps m6"
      using m5(2) by (simp_all add: m6_def store16_hton k add.assoc del: One_nat_def)
    define m7 where "m7 = m6(a + 14 := m (data + 24), a + 15 := m (data + 25), a + 16 := m (data + 26), a + 17 := m (data + 27))"
    have m7: "store32 le (a + 14) (load32 le m6 (data + 24)) m6 = m7" "keeps m7"
      using m6(2) by (simp_all add: store_load_at m7_def r k add.assoc del: One_nat_def)
    define m8 where "m8 = m7(a + 24 := m (data + 14), a + 25 := m (data + 15), a + 26 := m (data + 16), a + 27 := m (data + 17))"
    have m8: "store32 le (a + 24) (load32 le m7 (data + 14)) m7 = m8"
      using m7(2) by (simp add: store_load_at m8_def r k add.assoc del: One_nat_def)
    have "fill_in_arp_answer le a state data m = m8"
      unfolding fill_in_arp_answer_def ETH_ALEN_def mac_def [symmetric] Let_def f_def [symmetric] m1_def [symmetric]
      by (simp only: m2(1) m3(1) m4(1) m5(1) m6(1) m7(1) m8)
    then show ?thesis unfolding m8_def m7_def m6_def m5_def m4_def m3_def m2_def m1 using h j by (simp only: )
  qed
  show "read_bytes (fill_in_arp_answer le a state data m) a (length (arp_message 2 (src_mac state) (net32 m (data + 24)) (read_bytes m (data + 8) 6)
      (net32 m (data + 14)))) = arp_message 2 (src_mac state) (net32 m (data + 24)) (read_bytes m (data + 8) 6) (net32 m (data + 14))"
    unfolding mac_def [symmetric] msg eq by (simp add: read_bytes_def upt_rec)
  fix x assume "x < a \<or> a + length (arp_message 2 (src_mac state) (net32 m (data + 24)) (read_bytes m (data + 8) 6) (net32 m (data + 14))) \<le> x"
  then show "fill_in_arp_answer le a state data m x = m x" unfolding mac_def [symmetric] msg eq by auto
qed

text \<open>
  C30: a request for one of the configured addresses is answered by exactly one frame, to the MAC address
  of the request, from ours: an ARP reply that says that the requested IP address has our MAC
  address; nothing else in memory changes. Anything else is refused without effect. The number
  \<open>len\<close> of bytes received does not occur in the outcome: a frame that is too short is completed with
  whatever lies behind it.
\<close>

theorem arp_receive_outcome:
  assumes "data + 28 \<le> buffer \<or> buffer + 42 \<le> data" "length (src_mac state) = 6" "length own = 6"
  shows "arp_receive le (mac_send le send own) flush buffer state data len s =
    (if arp_request_for_us state (bytes s) data then
       (EOK, snd (flush (snd (send buffer 42 0 (upd_bytes (write_bytes buffer
          (mac_header (read_bytes (bytes s) (data + 8) 6) own ETH_P_ARP
           @ arp_message 2 (src_mac state) (net32 (bytes s) (data + 24)) (read_bytes (bytes s) (data + 8) 6) (net32 (bytes s) (data + 14)))) s)))))
     else (EINVAL, s))"
proof (cases "arp_request_for_us state (bytes s) data")
  case True
  let ?m = "bytes s"
  define msg where "msg = arp_message 2 (src_mac state) (net32 ?m (data + 24)) (read_bytes ?m (data + 8) 6) (net32 ?m (data + 14))"
  have len: "length msg = 28" using assms(2) by (simp add: msg_def arp_message_def)
  have tha: "read_bytes (write_bytes (buffer + 14) msg ?m) (buffer + 14 + 18) 6 = read_bytes ?m (data + 8) 6"
  proof -
    have "length (arp_message 2 (src_mac state) x t y) = 28" if "length t = 6" for x y and t :: "8 word list"
      using assms(2) that by (simp add: arp_message_def)
    have "msg ! (18 + i) = read_bytes ?m (data + 8) 6 ! i" if "i < 6" for i
      using that assms(2) unfolding msg_def arp_message_def by (simp add: nth_append)
    then show ?thesis using len by (intro nth_equalityI) (simp_all add: write_bytes_in)
  qed
  have ans: "fill_in_arp_answer le (buffer + 14) state data ?m = write_bytes (buffer + 14) msg ?m"
    unfolding msg_def by (rule arp_answer_bytes) (use assms True in auto)
  have "arp_receive le (mac_send le send own) flush buffer state data len s
     = (let m = fill_in_arp_answer le (buffer + 14) state data ?m;
            s1 = snd (mac_send le send own (buffer + 14) 28 14 (read_bytes m (buffer + 14 + 18) 6) ETH_P_ARP (s\<lparr>bytes := m\<rparr>))
        in (EOK, snd (flush s1)))"
    using True unfolding arp_receive_def arp_request_for_us_def load_eq_hton load32_eq_hton
    by (simp add: Let_def MAC_HEADER_SIZE_def ETH_ALEN_def ethertype_value_def list_ex_iff)
  also have "\<dots> = (EOK, snd (flush (snd (send buffer 42 0 (upd_bytes (write_bytes buffer
      (mac_header (read_bytes ?m (data + 8) 6) own ETH_P_ARP @ msg)) s)))))"
    unfolding Let_def ans tha using assms(3) by (simp add: mac_send_def MAC_HEADER_SIZE_def fill_in_mac write_bytes_append Let_def)
  finally show ?thesis using True by (simp add: msg_def)
next
  case False
  then show ?thesis
    unfolding arp_receive_def arp_request_for_us_def load_eq_hton load32_eq_hton
    by (auto simp: ethertype_value_def ETH_ALEN_def list_ex_iff)
qed

text \<open>A request from 10.0.0.1 for 10.0.0.2.\<close>

definition example_request :: net_mem where
  "example_request = write_bytes 100 (arp_message 1 [2, 2, 2, 2, 2, 2] 0x0A000001 [0, 0, 0, 0, 0, 0] 0x0A000002) (\<lambda>x. 0)"

theorem arp_receive_outcome_witness:
  "arp_receive True (mac_send True (\<lambda>p n k s. (EOK, s\<lparr>device := read_bytes (bytes s) p n\<rparr>)) [4, 4, 4, 4, 4, 4]) (\<lambda>s. (EOK, s)) 200
     \<lparr>src_mac = [4, 4, 4, 4, 4, 4], good_ips = [0x0A000002]\<rparr> 100 28 \<lparr>bytes = example_request, device = []\<rparr>
   = (EOK, \<lparr>bytes = write_bytes 200 (mac_header [2, 2, 2, 2, 2, 2] [4, 4, 4, 4, 4, 4] ETH_P_ARP
          @ arp_message 2 [4, 4, 4, 4, 4, 4] 0x0A000002 [2, 2, 2, 2, 2, 2] 0x0A000001) example_request,
        device = mac_header [2, 2, 2, 2, 2, 2] [4, 4, 4, 4, 4, 4] ETH_P_ARP
          @ arp_message 2 [4, 4, 4, 4, 4, 4] 0x0A000002 [2, 2, 2, 2, 2, 2] 0x0A000001\<rparr>)"
proof -
  let ?s = "\<lparr>bytes = example_request, device = []\<rparr> :: 8 word list net"
  define msg where "msg = arp_message 1 [2, 2, 2, 2, 2, 2] 0x0A000001 [0, 0, 0, 0, 0, 0] 0x0A000002"
  have len: "length msg = 28" by (simp add: msg_def arp_message_def)
  have at: "example_request (100 + i) = msg ! i" if "i < 28" for i
    using that by (simp add: example_request_def msg_def [symmetric] write_bytes_in len)
  have w: "net16 example_request 100 = 1" "net16 example_request (100 + 2) = 0x0800" "example_request (100 + 4) = 6" "example_request (100 + 5) = 4"
    "net16 example_request (100 + 6) = 1" "net32 example_request (100 + 24) = 0x0A000002" "net32 example_request (100 + 14) = 0x0A000001"
    using at [of 0] at [of 1] at [of 2] at [of 3] at [of 4] at [of 5] at [of 6] at [of 7] at [of 24] at [of 25] at [of 26] at [of 27]
      at [of 14] at [of 15] at [of 16] at [of 17]
    by (simp_all add: msg_def arp_message_def net16_def net32_def)
  have sha: "read_bytes example_request (100 + 8) 6 = [2, 2, 2, 2, 2, 2]"
    using at [of 8] at [of 9] at [of 10] at [of 11] at [of 12] at [of 13] by (simp add: msg_def arp_message_def read_bytes_def upt_rec)
  have q: "arp_request_for_us \<lparr>src_mac = [4, 4, 4, 4, 4, 4], good_ips = [0x0A000002]\<rparr> (bytes ?s) 100"
    using w by (simp add: arp_request_for_us_def)
  define frame where "frame = mac_header [2, 2, 2, 2, 2, 2] [4, 4, 4, 4, 4, 4] ETH_P_ARP
      @ arp_message 2 [4, 4, 4, 4, 4, 4] 0x0A000002 [2, 2, 2, 2, 2, 2] 0x0A000001"
  have "length frame = 42" by (simp add: frame_def arp_message_def)
  then have fr: "read_bytes (write_bytes 200 frame m) 200 42 = frame" for m
    using write_read_bytes [of 200 frame m] by simp
  show ?thesis
    using arp_receive_outcome [of 100 200 "\<lparr>src_mac = [4, 4, 4, 4, 4, 4], good_ips = [0x0A000002]\<rparr>" "[4, 4, 4, 4, 4, 4]" True
        "\<lambda>p n k s. (EOK, s\<lparr>device := read_bytes (bytes s) p n\<rparr>)" "\<lambda>s. (EOK, s)" 28 ?s] q w(6,7) sha fr
    by (simp add: frame_def)
qed

end
