(* ===== verification/VirtioReceive.thy ===== *)
theory VirtioReceive
  imports VirtioNet ArpAnswerer
begin

section \<open>Receiving from the virtio network device\<close>

text \<open>
  The other queue of the driver: the driver offers empty buffers, the device returns them filled, and
  the driver hands each packet on and offers its buffer again. A receive buffer is the virtio header of
  10 bytes and the packet. The component behind \<open>portB\<close> is a parameter, \<open>handle\<close>.
\<close>

definition POK_MAX_RECEIVE_BUFFERS :: nat where
  "POK_MAX_RECEIVE_BUFFERS = 100"

definition sizeof_receive_buffer :: nat where
  "sizeof_receive_buffer = sizeof_virtio_net_hdr + MAX_PACKET_SIZE"

abbreviation upd_rx :: "(virtio_virtqueue \<Rightarrow> virtio_virtqueue) \<Rightarrow> virtio_network_device net \<Rightarrow> virtio_network_device net" where
  "upd_rx f s \<equiv> s\<lparr>device := device s\<lparr>rx_vq := f (rx_vq (device s))\<rparr>\<rparr>"

definition use_receive_buffer :: "(nat \<Rightarrow> nat) \<Rightarrow> nat \<Rightarrow> virtio_virtqueue \<Rightarrow> virtio_virtqueue" where
  "use_receive_buffer virt_to_phys buf vq =
     (if num_free vq < 1 then vq
      else
        (let head = free_index vq;
             vq = vq\<lparr>num_free := num_free vq - 1, free_index := desc_next (desc vq head),
                     desc := (desc vq)(head := (desc vq head)\<lparr>desc_addr := virt_to_phys buf\<rparr>)\<rparr>
         in if virt_to_phys buf = 0 then vq
            else vq\<lparr>desc := (desc vq)(head := (desc vq head)\<lparr>desc_len := sizeof_receive_buffer, desc_flags := VRING_DESC_F_WRITE\<rparr>),
                    avail_ring := (avail_ring vq)(ring_index vq (avail_idx vq) := head),
                    avail_idx := avail_idx vq + 1\<rparr>))"

definition notify_receive_buffers :: "virtio_network_device net \<Rightarrow> virtio_network_device net" where
  "notify_receive_buffers s = s\<lparr>device := device s\<lparr>queue_notify := queue_notify (device s) @ [0]\<rparr>\<rparr>"

definition setup_receive_buffers :: "(nat \<Rightarrow> nat) \<Rightarrow> nat \<Rightarrow> virtio_network_device net \<Rightarrow> virtio_network_device net" where
  "setup_receive_buffers virt_to_phys receive_buffers s =
     notify_receive_buffers (upd_rx (fold (\<lambda>i. use_receive_buffer virt_to_phys (receive_buffers + sizeof_receive_buffer * i))
       [0..<POK_MAX_RECEIVE_BUFFERS]) s)"

text \<open>The loop over the used entries, which ends early (\<open>False\<close>) for an address that the kernel does not know.\<close>

definition reclaim_receive_buffer :: "nat \<Rightarrow> virtio_virtqueue \<Rightarrow> virtio_virtqueue" where
  "reclaim_receive_buffer h vq = vq\<lparr>num_free := num_free vq + 1,
     desc := (desc vq)(h := (desc vq h)\<lparr>desc_next := free_index vq\<rparr>),
     free_index := h mod 2 ^ 16, last_seen_used := last_seen_used vq + 1\<rparr>"

partial_function (option) receive_loop ::
  "(nat \<Rightarrow> nat) \<Rightarrow> (nat \<Rightarrow> nat) \<Rightarrow> (nat \<Rightarrow> nat \<Rightarrow> virtio_network_device net \<Rightarrow> ret_t \<times> virtio_network_device net)
   \<Rightarrow> virtio_network_device net \<Rightarrow> (bool \<times> virtio_network_device net) option" where
  "receive_loop virt_to_phys phys_to_virt handle s =
     (let vq = rx_vq (device s) in
      if last_seen_used vq \<noteq> used_idx vq then
        (let index = ring_index vq (last_seen_used vq);
             e = used_ring vq index;
             buf = phys_to_virt (desc_addr (desc vq (used_id e)))
         in if buf = 0 then Some (False, s)
            else
              (let s = snd (handle (buf + sizeof_virtio_net_hdr) (size_sub (used_len e) sizeof_virtio_net_hdr) s);
                   s = upd_rx (reclaim_receive_buffer (used_id (used_ring (rx_vq (device s)) index))) s;
                   s = upd_rx (use_receive_buffer virt_to_phys buf) s
               in receive_loop virt_to_phys phys_to_virt handle s))
      else Some (True, s))"

definition reclaim_receive_buffers ::
  "(nat \<Rightarrow> nat) \<Rightarrow> (nat \<Rightarrow> nat) \<Rightarrow> (nat \<Rightarrow> nat \<Rightarrow> virtio_network_device net \<Rightarrow> ret_t \<times> virtio_network_device net)
   \<Rightarrow> virtio_network_device net \<Rightarrow> virtio_network_device net option" where
  "reclaim_receive_buffers virt_to_phys phys_to_virt handle s =
     (let old_last_seen_used = last_seen_used (rx_vq (device s)) in do {
        (finished, s) \<leftarrow> receive_loop virt_to_phys phys_to_virt handle s;
        Some (if finished \<and> old_last_seen_used \<noteq> last_seen_used (rx_vq (device s)) then notify_receive_buffers s else s)
      })"

definition virtio_receive_activity ::
  "(nat \<Rightarrow> nat) \<Rightarrow> (nat \<Rightarrow> nat) \<Rightarrow> (nat \<Rightarrow> nat \<Rightarrow> virtio_network_device net \<Rightarrow> ret_t \<times> virtio_network_device net)
   \<Rightarrow> virtio_network_device net \<Rightarrow> virtio_network_device net option" where
  "virtio_receive_activity virt_to_phys phys_to_virt handle s =
     (if inited (device s) then reclaim_receive_buffers virt_to_phys phys_to_virt handle s else Some s)"

subsection \<open>One packet\<close>

text \<open>
  The filled buffers that the driver has not seen yet are those of the descriptors \<open>U\<close>, oldest first.
\<close>

definition rx_inv :: "(nat \<Rightarrow> nat) \<Rightarrow> (nat \<Rightarrow> nat) \<Rightarrow> virtio_virtqueue \<Rightarrow> nat list \<Rightarrow> bool" where
  "rx_inv v2p p2v vq U \<longleftrightarrow> ring_size (vring_num vq) \<and> distinct U \<and> (\<forall>u \<in> set U. u < vring_num vq \<and> p2v (desc_addr (desc vq u)) \<noteq> 0
       \<and> v2p (p2v (desc_addr (desc vq u))) = desc_addr (desc vq u) \<and> desc_addr (desc vq u) \<noteq> 0)
     \<and> unat (num_free vq) + length U \<le> vring_num vq
     \<and> used_idx vq = last_seen_used vq + of_nat (length U) \<and> ring_holds (vring_num vq) (used_id \<circ> used_ring vq) (last_seen_used vq) U"

text \<open>The buffer of \<open>u\<close> is offered again: the list of free descriptors is the same as before.\<close>

definition repost :: "nat \<Rightarrow> virtio_virtqueue \<Rightarrow> virtio_virtqueue" where
  "repost u vq = vq\<lparr>desc := (desc vq)(u := \<lparr>desc_addr = desc_addr (desc vq u), desc_len = sizeof_receive_buffer,
        desc_flags = VRING_DESC_F_WRITE, desc_next = free_index vq\<rparr>),
     avail_ring := (avail_ring vq)(ring_index vq (avail_idx vq) := u), avail_idx := avail_idx vq + 1,
     last_seen_used := last_seen_used vq + 1\<rparr>"

lemma vring_desc_repost:
  "d\<lparr>desc_next := w, desc_len := y, desc_flags := z\<rparr>
     = \<lparr>desc_addr = desc_addr d, desc_len = y, desc_flags = z, desc_next = w\<rparr>"
  by (cases d) simp

lemma use_reclaimed:
  assumes i: "rx_inv v2p p2v vq (u # U)" and b: "buf = p2v (desc_addr (desc vq u))"
  shows "use_receive_buffer v2p buf (reclaim_receive_buffer u vq) = repost u vq"
proof -
  have rs: "ring_size (vring_num vq)" and u: "u < vring_num vq" "v2p buf = desc_addr (desc vq u)" "desc_addr (desc vq u) \<noteq> 0"
    and n: "unat (num_free vq) + length (u # U) \<le> vring_num vq" using i b by (simp_all add: rx_inv_def)
  have "num_free vq + 1 \<noteq> 0"
  proof
    assume z: "num_free vq + 1 = 0"
    have "unat (num_free vq + 1) = (unat (num_free vq) + 1) mod 65536" by (simp add: unat_word_ariths)
    moreover have "unat (num_free vq) + 1 < 65536" using n ring_size_facts(3) [OF rs] by simp
    ultimately show False using z by simp
  qed
  then have "\<not> num_free vq + 1 < 1" by (simp add: word_less_1)
  moreover have "u mod 2 ^ 16 = u" using u(1) ring_size_facts(3) [OF rs] by simp
  ultimately show ?thesis
    using u by (simp del: neq0_conv add: use_receive_buffer_def reclaim_receive_buffer_def repost_def Let_def ring_index_def
        vring_desc_repost)
qed

lemma repost_inv: "rx_inv v2p p2v vq (u # U) \<Longrightarrow> rx_inv v2p p2v (repost u vq) U"
  using ring_holds_pop(2) [of "vring_num vq" "used_id \<circ> used_ring vq" "last_seen_used vq" u U]
  by (auto simp: rx_inv_def repost_def)

subsection \<open>All packets\<close>

text \<open>What the receiving component is called with for a used entry, and the effect of the loop's body.\<close>

definition packet_args :: "(nat \<Rightarrow> nat) \<Rightarrow> virtio_virtqueue \<Rightarrow> 16 word \<Rightarrow> nat \<times> nat \<times> nat" where
  "packet_args p2v vq i = (let e = used_ring vq (ring_index vq i)
     in (used_id e, p2v (desc_addr (desc vq (used_id e))) + 10, size_sub (used_len e) 10))"

definition pending_packets :: "(nat \<Rightarrow> nat) \<Rightarrow> virtio_virtqueue \<Rightarrow> nat \<Rightarrow> (nat \<times> nat \<times> nat) list" where
  "pending_packets p2v vq n = map (\<lambda>i. packet_args p2v vq (last_seen_used vq + of_nat i)) [0..<n]"

definition hand_on :: "(nat \<Rightarrow> nat \<Rightarrow> virtio_network_device net \<Rightarrow> ret_t \<times> virtio_network_device net) \<Rightarrow> nat \<times> nat \<times> nat
    \<Rightarrow> virtio_network_device net \<Rightarrow> virtio_network_device net" where
  "hand_on handle = (\<lambda>(u, p, n) s. upd_rx (repost u) (snd (handle p n s)))"

lemma pending_repost:
  assumes "distinct (u # U)" "ring_holds (vring_num vq) (used_id \<circ> used_ring vq) (last_seen_used vq) (u # U)" "ring_size (vring_num vq)"
  shows "pending_packets p2v vq (length (u # U))
    = packet_args p2v vq (last_seen_used vq) # pending_packets p2v (repost u vq) (length U)"
proof -
  have "[0..<length (u # U)] = 0 # map Suc [0..<length U]" by (simp add: upt_conv_Cons map_Suc_upt del: upt_Suc)
  moreover have "packet_args p2v (repost u vq) (last_seen_used (repost u vq) + of_nat i) = packet_args p2v vq (last_seen_used vq + of_nat (Suc i))" for i
    by (simp add: packet_args_def repost_def ring_index_def add_ac Let_def)
  ultimately show ?thesis by (simp add: pending_packets_def)
qed

lemma receive_loop_all:
  assumes keep: "\<And>p n s. rx_vq (device (snd (handle p n s))) = rx_vq (device s)"
  shows "rx_inv v2p p2v (rx_vq (device s)) U \<Longrightarrow>
    receive_loop v2p p2v handle s = Some (True, fold (hand_on handle) (pending_packets p2v (rx_vq (device s)) (length U)) s)
    \<and> rx_vq (device (fold (hand_on handle) (pending_packets p2v (rx_vq (device s)) (length U)) s)) = fold repost U (rx_vq (device s))"
proof (induction U arbitrary: s)
  case Nil
  then show ?case by (subst receive_loop.simps) (simp add: rx_inv_def pending_packets_def)
next
  case (Cons u U)
  let ?vq = "rx_vq (device s)"
  let ?l = "last_seen_used ?vq"
  define e where "e = used_ring ?vq (ring_index ?vq ?l)"
  define buf where "buf = p2v (desc_addr (desc ?vq u))"
  have rs: "ring_size (vring_num ?vq)" and rh: "ring_holds (vring_num ?vq) (used_id \<circ> used_ring ?vq) ?l (u # U)"
    and ui: "used_idx ?vq = ?l + of_nat (Suc (length U))" and len: "length (u # U) \<le> vring_num ?vq" and b0: "buf \<noteq> 0"
    and dist: "distinct (u # U)"
    using Cons.prems by (simp_all add: rx_inv_def buf_def)
  have id: "used_id e = u" using ring_holds_pop(1) [OF rh rs] by (simp add: e_def ring_index_mod rs)
  then have args: "packet_args p2v ?vq ?l = (u, buf + 10, size_sub (used_len e) 10)"
    by (simp add: packet_args_def e_def [symmetric] buf_def Let_def)
  have "unat (of_nat (Suc (length U)) :: 16 word) = Suc (length U)"
    using len ring_size_facts(3) [OF rs] by (simp add: unsigned_of_nat take_bit_eq_mod del: of_nat_Suc)
  then have ne: "?l \<noteq> used_idx ?vq" unfolding ui by (metis add_cancel_right_right nat.distinct(1) unat_0)
  define s2 where "s2 = hand_on handle (packet_args p2v ?vq ?l) s"
  have s2: "s2 = upd_rx (repost u) (snd (handle (buf + 10) (size_sub (used_len e) 10) s))" by (simp add: s2_def hand_on_def args)
  then have vq2: "rx_vq (device s2) = repost u ?vq" by (simp add: keep)
  have "receive_loop v2p p2v handle s = receive_loop v2p p2v handle s2"
    using ne b0 id use_reclaimed [OF Cons.prems buf_def]
    by (subst receive_loop.simps) (simp add: Let_def e_def [symmetric] buf_def [symmetric] s2 keep sizeof_virtio_net_hdr_def)
  moreover have "rx_inv v2p p2v (rx_vq (device s2)) U" unfolding vq2 by (rule repost_inv [OF Cons.prems])
  ultimately show ?case
    using Cons.IH [of s2] by (simp only: pending_repost [OF dist rh rs] fold_Cons comp_apply s2_def [symmetric] vq2)
qed

text \<open>All buffers are with the device again.\<close>

lemma fold_repost:
  "rx_inv v2p p2v vq U \<Longrightarrow> num_free (fold repost U vq) = num_free vq \<and> free_index (fold repost U vq) = free_index vq
     \<and> vring_num (fold repost U vq) = vring_num vq \<and> used_idx (fold repost U vq) = used_idx vq
     \<and> last_seen_used (fold repost U vq) = used_idx vq \<and> avail_idx (fold repost U vq) = avail_idx vq + of_nat (length U)
     \<and> (\<forall>j. desc_addr (desc (fold repost U vq) j) = desc_addr (desc vq j))"
proof (induction U arbitrary: vq)
  case (Cons u U)
  from Cons.IH [OF repost_inv [OF Cons.prems]] show ?case by (simp add: repost_def add_ac)
qed (simp add: rx_inv_def)

lemma fold_repost_ring:
  "rx_inv v2p p2v vq U \<Longrightarrow> ring_holds (vring_num vq) (avail_ring vq) a P \<Longrightarrow> avail_idx vq = a + of_nat (length P)
   \<Longrightarrow> length P + length U \<le> vring_num vq \<Longrightarrow> ring_holds (vring_num vq) (avail_ring (fold repost U vq)) a (P @ U)"
proof (induction U arbitrary: vq P)
  case (Cons u U)
  have rs: "ring_size (vring_num vq)" using Cons.prems(1) by (simp add: rx_inv_def)
  have n: "vring_num (repost u vq) = vring_num vq" by (simp add: repost_def)
  have "ring_index vq (avail_idx vq) = (unat a + length P) mod vring_num vq"
    using Cons.prems(3) unat_add_mod [OF rs, of a "length P"] by (simp add: ring_index_mod rs)
  then have "avail_ring (repost u vq) = (avail_ring vq)((unat a + length P) mod vring_num vq := u)" by (simp add: repost_def)
  then have "ring_holds (vring_num vq) (avail_ring (repost u vq)) a (P @ [u])"
    using ring_holds_push [OF Cons.prems(2), of u] Cons.prems(4) by simp
  moreover have "avail_idx (repost u vq) = a + of_nat (length (P @ [u]))" using Cons.prems(3) by (simp add: repost_def add_ac)
  ultimately show ?case
    using Cons.IH [OF repost_inv [OF Cons.prems(1)], of "P @ [u]"] Cons.prems(4) n by simp
qed simp

text \<open>
  C32: the receiver hands each packet that the device has put into a buffer on exactly once, in the order
  of arrival, with the address behind the virtio header and the length less that of the header, and
  offers its buffer to the device again before it turns to the next packet: at the end nothing is
  left to be seen, the list of free descriptors is what it was, the buffers stand in the ring of
  available entries behind those that were there, and the device is told if there was any.
\<close>

theorem receive_all_packets:
  assumes "rx_inv v2p p2v (rx_vq (device s)) U" "inited (device s)"
    "\<And>p n s. rx_vq (device (snd (handle p n s))) = rx_vq (device s)"
    "ring_holds (vring_num (rx_vq (device s))) (avail_ring (rx_vq (device s))) a P" "avail_idx (rx_vq (device s)) = a + of_nat (length P)"
    "length P + length U \<le> vring_num (rx_vq (device s))"
  shows "\<exists>s'. virtio_receive_activity v2p p2v handle s = Some (if U = [] then s' else notify_receive_buffers s')
    \<and> s' = fold (hand_on handle) (pending_packets p2v (rx_vq (device s)) (length U)) s
    \<and> last_seen_used (rx_vq (device s')) = used_idx (rx_vq (device s')) \<and> used_idx (rx_vq (device s')) = used_idx (rx_vq (device s))
    \<and> num_free (rx_vq (device s')) = num_free (rx_vq (device s)) \<and> free_index (rx_vq (device s')) = free_index (rx_vq (device s))
    \<and> avail_idx (rx_vq (device s')) = a + of_nat (length (P @ U))
    \<and> ring_holds (vring_num (rx_vq (device s))) (avail_ring (rx_vq (device s'))) a (P @ U)
    \<and> (\<forall>j. desc_addr (desc (rx_vq (device s')) j) = desc_addr (desc (rx_vq (device s)) j))"
proof -
  let ?vq = "rx_vq (device s)"
  define s' where "s' = fold (hand_on handle) (pending_packets p2v ?vq (length U)) s"
  have loop: "receive_loop v2p p2v handle s = Some (True, s')" and vq': "rx_vq (device s') = fold repost U ?vq"
    using receive_loop_all [OF assms(3,1)] by (simp_all add: s'_def)
  note f = fold_repost [OF assms(1)]
  have "length U < 65536" using assms(6) assms(1) ring_size_facts(3) [of "vring_num ?vq"] by (simp add: rx_inv_def)
  then have "unat (of_nat (length U) :: 16 word) = length U" by (simp add: unsigned_of_nat take_bit_eq_mod)
  then have "(of_nat (length U) :: 16 word) = 0 \<longleftrightarrow> U = []" by (metis unat_eq_zero length_0_conv)
  then have "last_seen_used ?vq \<noteq> last_seen_used (rx_vq (device s')) \<longleftrightarrow> U \<noteq> []"
    using assms(1) f by (simp add: vq' rx_inv_def)
  then have "virtio_receive_activity v2p p2v handle s = Some (if U = [] then s' else notify_receive_buffers s')"
    using assms(2) loop by (auto simp: virtio_receive_activity_def reclaim_receive_buffers_def Let_def)
  then show ?thesis
    using f fold_repost_ring [OF assms(1,4,5,6)] assms(5) by (intro exI [of _ s']) (simp add: s'_def [symmetric] vq' add.assoc)
qed

text \<open>
  The components of the system partition leave the queue for receiving alone, also where they answer. The
  port for sending is \<open>send_frame\<close>, which always returns (\<open>tx_frames_in_order\<close>).
\<close>

definition send_port :: "(nat \<Rightarrow> nat) \<Rightarrow> nat \<Rightarrow> nat \<Rightarrow> nat \<Rightarrow> nat \<Rightarrow> virtio_network_device net \<Rightarrow> ret_t \<times> virtio_network_device net" where
  "send_port v2p hdr p n k s = (case send_frame v2p hdr p n k s of None \<Rightarrow> (EINVAL, s) | Some r \<Rightarrow> r)"

lemma send_port_rx: "rx_vq (device (snd (send_port v2p hdr p n k s))) = rx_vq (device s)"
proof -
  have "send_frame v2p hdr p n k s = Some (r, s') \<Longrightarrow> rx_vq (device s') = rx_vq (device s)" for r s'
    by (auto simp: send_frame_def Let_def split: if_splits bind_splits)
  then show ?thesis by (auto simp: send_port_def split: option.splits)
qed

lemma answer_rx: "rx_vq (device (snd (arp_receive le (mac_send le (send_port v2p hdr) own) flush_send buffer st data len s))) = rx_vq (device s)"
  by (auto simp: arp_receive_def Let_def mac_send_def flush_send_def send_port_rx)

lemma receive_rx:
  assumes "\<And>p n s. rx_vq (device (snd (arp p n s))) = rx_vq (device s)" "\<And>i p n s. rx_vq (device (snd (port i p n s))) = rx_vq (device s)"
  shows "rx_vq (device (snd (mac_receive le own arp (udp_receive le (receive_packet router port)) data len s))) = rx_vq (device s)"
  by (simp add: mac_receive_def udp_receive_def receive_packet_def Let_def assms)

text \<open>A device with two buffers at 1000 and 3000, the second of which holds a packet of 60 bytes.\<close>

definition example_rx :: virtio_virtqueue where
  "example_rx = \<lparr>vring_num = 2, desc = (\<lambda>i. \<lparr>desc_addr = Suc (1000 + 2000 * i), desc_len = 1510, desc_flags = 2, desc_next = 0\<rparr>),
     avail_idx = 2, avail_ring = (\<lambda>i. i), used_idx = 1, used_ring = (\<lambda>i. \<lparr>used_id = 1, used_len = 70\<rparr>), free_index = 0,
     num_free = 0, last_seen_used = 0\<rparr>"

theorem receive_all_packets_witness:
  "\<exists>s'. virtio_receive_activity Suc (\<lambda>x. x - 1)
      (mac_receive True [2, 0, 0, 0, 0, 1] (arp_receive True (mac_send True (send_port Suc 0) [2, 0, 0, 0, 0, 1]) flush_send 5000
          \<lparr>src_mac = [2, 0, 0, 0, 0, 1], good_ips = [1]\<rparr>)
        (udp_receive True (receive_packet \<lparr>map_ip_port_to_idx = []\<rparr> (\<lambda>i p n s. (EOK, s)))))
      (example_virtio\<lparr>device := device example_virtio\<lparr>rx_vq := example_rx\<rparr>\<rparr>) = Some (notify_receive_buffers s')
    \<and> last_seen_used (rx_vq (device s')) = 1 \<and> avail_idx (rx_vq (device s')) = 3"
proof -
  let ?s = "example_virtio\<lparr>device := device example_virtio\<lparr>rx_vq := example_rx\<rparr>\<rparr>"
  let ?h = "mac_receive True [2, 0, 0, 0, 0, 1] (arp_receive True (mac_send True (send_port Suc 0) [2, 0, 0, 0, 0, 1]) flush_send 5000
          \<lparr>src_mac = [2, 0, 0, 0, 0, 1], good_ips = [1]\<rparr>)
        (udp_receive True (receive_packet \<lparr>map_ip_port_to_idx = []\<rparr> (\<lambda>i p n s. (EOK, s))))"
  have rs: "ring_size 2" unfolding ring_size_def by (rule bexI [of _ 1]) simp_all
  have vq: "rx_vq (device ?s) = example_rx" "inited (device ?s)" by (simp_all add: example_virtio_def)
  have keep: "rx_vq (device (snd (?h p n s))) = rx_vq (device s)" for p n s by (rule receive_rx [OF answer_rx]) simp
  have inv: "rx_inv Suc (\<lambda>x. x - 1) example_rx [1]" using rs by (simp add: rx_inv_def example_rx_def ring_holds_def)
  have ring: "ring_holds (vring_num example_rx) (avail_ring example_rx) 1 [1]" by (simp add: example_rx_def ring_holds_def)
  show ?thesis
    using receive_all_packets [of Suc "\<lambda>x. x - 1" ?s "[1]" ?h 1 "[1]", unfolded vq, OF inv _ keep ring] vq
    by (auto simp: example_rx_def)
qed

end
