(* ===== verification/Pool.thy ===== *)
theory Pool
  imports Prelude "HOL-Library.Word"
begin

section \<open>Pools of elements in the system partition\<close>

text \<open>
  \<open>syspart/pool.c\<close>: elements of equal size in one block of memory, linked into a list of free ones by
  their numbers. A pointer to an element is its number, the field \<open>idx\<close> is what the element itself
  holds as its number; -1 in the unsigned field \<open>free_elem_idx\<close> ends the list. The block comes from
  the heap as it is (\<open>smalloc\<close>), its contents are the parameter \<open>memory\<close> of the creation.
\<close>

record pool_elem =
  idx :: int
  is_free :: int
  next_free_idx :: int
  data_len :: int

record pool =
  elem_size :: nat
  pool_num :: nat
  stride :: nat
  free_elem_idx :: "32 word"
  elems :: "nat \<Rightarrow> pool_elem"

definition jet_pool_create :: "nat \<Rightarrow> nat \<Rightarrow> (nat \<Rightarrow> pool_elem) \<Rightarrow> pool" where
  "jet_pool_create size_of n memory =
     (let m = fold (\<lambda>i m. m(i := (m i)\<lparr>next_free_idx := int i + 1, idx := int i\<rparr>)) [0..<n - 1] memory
      in \<lparr>elem_size = size_of, pool_num = n, stride = ALIGN_VAL (size_of + 16) 4, free_elem_idx = 0,
          elems = m(n - 1 := (m (n - 1))\<lparr>next_free_idx := -1\<rparr>)\<rparr>)"

definition jet_pool_get_free_elem :: "pool \<Rightarrow> nat option \<times> pool" where
  "jet_pool_get_free_elem p =
     (if free_elem_idx p = -1 then (None, p)
      else
        (let e = unat (free_elem_idx p);
             el = (elems p e)\<lparr>is_free := 0\<rparr>
         in (Some e, p\<lparr>elems := (elems p)(e := el), free_elem_idx := of_int (next_free_idx el)\<rparr>)))"

definition jet_pool_free_elem :: "nat \<Rightarrow> pool \<Rightarrow> pool" where
  "jet_pool_free_elem e p =
     (let el = (elems p e)\<lparr>is_free := 1, next_free_idx := sint (free_elem_idx p)\<rparr>
      in p\<lparr>elems := (elems p)(e := el), free_elem_idx := of_int (idx el)\<rparr>)"

subsection \<open>The list of free elements\<close>

text \<open>The numbers in the list of free elements, and which elements hold their own number.\<close>

fun free_list :: "(nat \<Rightarrow> pool_elem) \<Rightarrow> 32 word \<Rightarrow> nat list \<Rightarrow> bool" where
  "free_list m i [] \<longleftrightarrow> i = -1"
| "free_list m i (e # es) \<longleftrightarrow> i = of_nat e \<and> free_list m (of_int (next_free_idx (m e))) es"

definition pool_inv :: "pool \<Rightarrow> nat list \<Rightarrow> bool" where
  "pool_inv p es \<longleftrightarrow> free_list (elems p) (free_elem_idx p) es \<and> distinct es \<and> (\<forall>e \<in> set es. e < pool_num p) \<and> pool_num p < 2 ^ 31"

lemma free_list_frame: "e \<notin> set es \<Longrightarrow> free_list (m(e := x)) i es = free_list m i es"
  by (induction es arbitrary: i) auto

lemma of_nat_not_end: "e < 2 ^ 31 \<Longrightarrow> (of_nat e :: 32 word) \<noteq> -1"
proof
  assume e: "e < 2 ^ 31" "(of_nat e :: 32 word) = -1"
  from e(2) have "unat (of_nat e :: 32 word) = unat (-1 :: 32 word)" by simp
  then show False using e(1) by (simp add: unsigned_of_nat take_bit_eq_mod unsigned_minus_1_eq_mask mask_eq_exp_minus_1)
qed

lemma unat_number: "e < 2 ^ 31 \<Longrightarrow> unat (of_nat e :: 32 word) = e"
  by (simp add: unsigned_of_nat take_bit_eq_mod)

lemma of_int_sint [simp]: "of_int (sint w) = w" for w :: "'a::len word"
  by simp

lemma get_some:
  assumes "pool_inv p (e # es)"
  shows "\<exists>p'. jet_pool_get_free_elem p = (Some e, p') \<and> pool_inv p' es \<and> pool_num p' = pool_num p \<and> (\<forall>i. idx (elems p' i) = idx (elems p i))"
proof -
  have e: "e < 2 ^ 31" and f: "free_elem_idx p = of_nat e" using assms by (auto simp: pool_inv_def)
  have "free_elem_idx p \<noteq> -1" "unat (free_elem_idx p) = e" unfolding f using e by (rule of_nat_not_end, rule unat_number)
  then have "jet_pool_get_free_elem p = (Some e, p\<lparr>elems := (elems p)(e := (elems p e)\<lparr>is_free := 0\<rparr>),
      free_elem_idx := of_int (next_free_idx (elems p e))\<rparr>)" (is "_ = (_, ?p)")
    by (simp add: jet_pool_get_free_elem_def Let_def)
  moreover have "pool_inv ?p es" using assms by (auto simp: pool_inv_def free_list_frame)
  ultimately show ?thesis by auto
qed

lemma get_none: "pool_inv p [] \<Longrightarrow> jet_pool_get_free_elem p = (None, p)"
  by (simp add: pool_inv_def jet_pool_get_free_elem_def)

lemma free_inv:
  assumes "pool_inv p es" "e \<notin> set es" "e < pool_num p" "idx (elems p e) = int e"
  shows "pool_inv (jet_pool_free_elem e p) (e # es)"
  using assms by (simp add: pool_inv_def jet_pool_free_elem_def Let_def free_list_frame)

lemma create_elems:
  "elems (jet_pool_create sz n memory) i = (if i = n - 1 then (memory i)\<lparr>next_free_idx := -1\<rparr>
     else if i < n - 1 then (memory i)\<lparr>next_free_idx := int i + 1, idx := int i\<rparr> else memory i)"
proof -
  have "fold (\<lambda>i m. m(i := (m i)\<lparr>next_free_idx := int i + 1, idx := int i\<rparr>)) [0..<k] memory i
      = (if i < k then (memory i)\<lparr>next_free_idx := int i + 1, idx := int i\<rparr> else memory i)" for k i
    by (induction k) (auto simp: less_Suc_eq)
  from this [of "n - 1"] show ?thesis unfolding jet_pool_create_def Let_def by simp
qed

lemma create_num [simp]: "pool_num (jet_pool_create sz n memory) = n"
  by (simp add: jet_pool_create_def Let_def)

lemma create_inv:
  assumes "0 < n" "n < 2 ^ 31"
  shows "pool_inv (jet_pool_create sz n memory) [0..<n]"
proof -
  have "free_list (elems (jet_pool_create sz n memory)) (of_nat j) [j..<n]" if "j < n" for j
    using that
  proof (induction "n - 1 - j" arbitrary: j)
    case 0
    then have "j = n - 1" "[j..<n] = [j]" using upt_conv_Cons [of j n] by auto
    then show ?case by (simp add: create_elems)
  next
    case (Suc k)
    then have "[j..<n] = j # [Suc j..<n]" "j < n - 1" by (simp_all add: upt_conv_Cons)
    then show ?case using Suc.hyps(1) [of "Suc j"] Suc.hyps(2) by (simp add: create_elems add.commute)
  qed
  from this [of 0] assms show ?thesis by (simp add: pool_inv_def) (simp add: jet_pool_create_def Let_def)
qed

subsection \<open>Elements in use\<close>

text \<open>All orders of taking and returning elements in which the last element of the pool is not returned.\<close>

inductive pool_life :: "nat \<Rightarrow> pool \<Rightarrow> nat set \<Rightarrow> bool" for n where
  create: "0 < n \<Longrightarrow> n < 2 ^ 31 \<Longrightarrow> pool_life n (jet_pool_create sz n memory) {}"
| get: "pool_life n p used \<Longrightarrow> jet_pool_get_free_elem p = (Some e, p') \<Longrightarrow> pool_life n p' (insert e used)"
| free: "pool_life n p used \<Longrightarrow> e \<in> used \<Longrightarrow> e \<noteq> n - 1 \<Longrightarrow> pool_life n (jet_pool_free_elem e p) (used - {e})"

lemma pool_life_inv:
  "pool_life n p used \<Longrightarrow> \<exists>es. pool_inv p es \<and> pool_num p = n \<and> set es \<inter> used = {} \<and> set es \<union> used = {..<n}
     \<and> (\<forall>e < n - 1. idx (elems p e) = int e)"
proof (induction rule: pool_life.induct)
  case (create sz memory)
  then show ?case using create_inv [OF create, of sz memory]
    by (intro exI [of _ "[0..<n]"]) (simp add: create_elems atLeast0LessThan)
next
  case (get p used e p')
  then obtain es where es: "pool_inv p es" "pool_num p = n" "set es \<inter> used = {}" "set es \<union> used = {..<n}"
    "\<forall>e < n - 1. idx (elems p e) = int e" by blast
  then obtain es' where "es = e # es'" "pool_inv p' es'" "pool_num p' = pool_num p" "\<forall>i. idx (elems p' i) = idx (elems p i)"
    using get(2) get_none get_some by (cases es) fastforce+
  moreover from this have "e \<notin> set es'" using es(1) by (simp add: pool_inv_def)
  ultimately show ?case using es by (intro exI [of _ es']) auto
next
  case (free p used e)
  then obtain es where es: "pool_inv p es" "pool_num p = n" "set es \<inter> used = {}" "set es \<union> used = {..<n}"
    "\<forall>e < n - 1. idx (elems p e) = int e" by blast
  have "e < n" "e \<notin> set es" "e < n - 1" using es(3,4) free(2,3) by auto
  then have "pool_inv (jet_pool_free_elem e p) (e # es)" using free_inv [OF es(1), of e] es(2,5) by simp
  then show ?case using es \<open>e < n\<close> free(2)
    by (intro exI [of _ "e # es"]) (auto simp: jet_pool_free_elem_def Let_def)
qed

text \<open>
  C33: in any order of taking elements from a pool and returning them in which the last element is not
  returned, the pool hands out only elements that are not in use, until all are. The last
  element never learns its own number: once it is returned, the pool hands out the element whose
  number happened to be in the memory it was made from, although that is in use.
\<close>

theorem pool_elements_in_use:
  assumes "pool_life n p used"
  shows "(case fst (jet_pool_get_free_elem p) of None \<Rightarrow> used = {..<n} | Some e \<Rightarrow> e < n \<and> e \<notin> used)
    \<and> (n - 1 \<in> used \<and> idx (elems p (n - 1)) = int j \<and> j < n - 1 \<and> j \<in> used \<longrightarrow>
         fst (jet_pool_get_free_elem (jet_pool_free_elem (n - 1) p)) = Some j)"
proof (intro conjI impI)
  obtain es where es: "pool_inv p es" "pool_num p = n" "set es \<inter> used = {}" "set es \<union> used = {..<n}"
    using pool_life_inv [OF assms] by blast
  show "case fst (jet_pool_get_free_elem p) of None \<Rightarrow> used = {..<n} | Some e \<Rightarrow> e < n \<and> e \<notin> used"
  proof (cases es)
    case Nil
    then show ?thesis using get_none [of p] es by simp
  next
    case (Cons e es')
    then have "fst (jet_pool_get_free_elem p) = Some e" using get_some [of p e es'] es(1) by auto
    then show ?thesis using es(3,4) Cons by auto
  qed
  assume j: "n - 1 \<in> used \<and> idx (elems p (n - 1)) = int j \<and> j < n - 1 \<and> j \<in> used"
  have "n < 2 ^ 31" using es(1,2) by (simp add: pool_inv_def)
  then have "(of_nat j :: 32 word) \<noteq> -1" "unat (of_nat j :: 32 word) = j" using j by (auto intro!: of_nat_not_end unat_number)
  moreover have "free_elem_idx (jet_pool_free_elem (n - 1) p) = of_nat j" using j by (simp add: jet_pool_free_elem_def Let_def)
  ultimately show "fst (jet_pool_get_free_elem (jet_pool_free_elem (n - 1) p)) = Some j"
    by (simp add: jet_pool_get_free_elem_def Let_def)
qed

text \<open>Two elements on a heap of zeros: both are taken, the second is returned, and the first is handed out again.\<close>

definition example_pool :: pool where
  "example_pool = snd (jet_pool_get_free_elem (snd (jet_pool_get_free_elem
     (jet_pool_create 64 2 (\<lambda>i. \<lparr>idx = 0, is_free = 0, next_free_idx = 0, data_len = 0\<rparr>)))))"

theorem pool_elements_in_use_witness:
  "pool_life 2 example_pool {0, 1} \<and> jet_pool_get_free_elem example_pool = (None, example_pool)
   \<and> fst (jet_pool_get_free_elem (jet_pool_free_elem 1 example_pool)) = Some 0"
proof -
  define p0 where "p0 = jet_pool_create 64 2 (\<lambda>i. \<lparr>idx = 0, is_free = 0, next_free_idx = 0, data_len = 0\<rparr>)"
  have l0: "pool_life 2 p0 {}" unfolding p0_def by (rule pool_life.create) simp_all
  have i0: "pool_inv p0 [0, 1]" using create_inv [of 2 64] by (simp add: p0_def upt_rec)
  obtain p1 where p1: "jet_pool_get_free_elem p0 = (Some 0, p1)" "pool_inv p1 [1]" "\<forall>i. idx (elems p1 i) = idx (elems p0 i)"
    using get_some [OF i0] by blast
  obtain p2 where p2: "jet_pool_get_free_elem p1 = (Some 1, p2)" "pool_inv p2 []" "\<forall>i. idx (elems p2 i) = idx (elems p1 i)"
    using get_some [OF p1(2)] by blast
  have ex: "example_pool = p2" using p1(1) p2(1) by (simp add: example_pool_def p0_def [symmetric])
  have l2: "pool_life 2 example_pool {0, 1}"
    using pool_life.get [OF pool_life.get [OF l0 p1(1)] p2(1)] by (simp add: ex insert_commute)
  have "idx (elems example_pool 1) = int 0" using p1(3) p2(3) by (simp add: ex p0_def create_elems)
  then show ?thesis using pool_elements_in_use [OF l2, of 0] get_none [OF p2(2)] l2 ex by simp
qed

end
