(* ===== verification/UserSpace.thy ===== *)
theory UserSpace
  imports NetBytes
begin

section \<open>Spaces of the partitions: what the architectures share\<close>

text \<open>
  \<open>kernel/include/asp/space.h\<close>, \<open>kernel/include/asp/uaccess.h\<close>, \<open>kernel/core/uaccess.c\<close>. An architecture
  gives every partition a space, checks the pointers that a system call gets and says where the kernel
  finds the bytes behind them. Addresses are numbers; words of 32 bits wrap. A failed assertion is
  \<open>None\<close>, the address 0 is \<open>NULL\<close>.
\<close>

definition w32 :: "nat \<Rightarrow> nat" where
  "w32 x = x mod 2 ^ 32"

definition sub32 :: "nat \<Rightarrow> nat \<Rightarrow> nat" where
  "sub32 a b = w32 (a + 2 ^ 32 - b)"

text \<open>\<open>ALIGN_VAL\<close> on 32 bits.\<close>

definition align32 :: "nat \<Rightarrow> nat \<Rightarrow> nat" where
  "align32 val align = w32 (ALIGN_VAL val align)"

record jet_space_layout =
  kernel_addr :: nat
  user_addr :: nat
  layout_size :: nat

lemma w32_small [simp]: "x < 2 ^ 32 \<Longrightarrow> w32 x = x"
  by (simp add: w32_def)

lemma w32_less: "w32 x < 2 ^ 32"
  by (simp add: w32_def)

lemma sub32_le: "b \<le> a \<Longrightarrow> a < 2 ^ 32 \<Longrightarrow> sub32 a b = a - b"
proof -
  assume b: "b \<le> a" and a: "a < 2 ^ 32"
  have "a + 2 ^ 32 - b = (a - b) + 2 ^ 32" using b by linarith
  moreover have "(a - b) mod 2 ^ 32 = a - b" using a by (intro mod_less) linarith
  ultimately show ?thesis by (simp only: sub32_def w32_def mod_add_self2)
qed

lemma w32_add_carry: "a < 2 ^ 32 \<Longrightarrow> b < 2 ^ 32 \<Longrightarrow> w32 (a + b) < a \<longleftrightarrow> 2 ^ 32 \<le> a + b"
proof -
  assume a: "a < 2 ^ 32" and b: "b < 2 ^ 32"
  show ?thesis
  proof (cases "a + b < 2 ^ 32")
    case True
    then have "w32 (a + b) = a + b" by (rule w32_small)
    with True show ?thesis by linarith
  next
    case False
    then have "(a + b) mod 2 ^ 32 = a + b - 2 ^ 32" using a b
      by (simp only: le_mod_geq not_less) (rule mod_less, linarith)
    with False a b show ?thesis unfolding w32_def by linarith
  qed
qed

lemma ALIGN_VAL_16: "ALIGN_VAL val 16 = (val + 15) div 16 * 16"
  using ALIGN_VAL_pow2 [of val 4] by simp

lemma ALIGN_VAL_page: "ALIGN_VAL val 4096 = (val + 4095) div 4096 * 4096"
  using ALIGN_VAL_pow2 [of val 12] by simp

lemma align_bounds:
  "val \<le> ALIGN_VAL val 16" "ALIGN_VAL val 16 < val + 16" "val \<le> ALIGN_VAL val 4096" "ALIGN_VAL val 4096 < val + 4096"
  unfolding ALIGN_VAL_16 ALIGN_VAL_page by linarith+

lemma align_dvd: "16 dvd ALIGN_VAL val 16" "4096 dvd ALIGN_VAL val 4096"
  by (simp_all add: ALIGN_VAL_16 ALIGN_VAL_page)

lemma align_page_fixed: "4096 dvd p \<Longrightarrow> ALIGN_VAL p 4096 = p"
  unfolding ALIGN_VAL_page by (auto elim!: dvdE)

lemma align_16_fixed: "16 dvd p \<Longrightarrow> ALIGN_VAL p 16 = p"
  unfolding ALIGN_VAL_16 by (auto elim!: dvdE)

subsection \<open>Pointers of system calls\<close>

text \<open>
  The interface \<open>asp/uaccess.h\<close>. \<open>owned\<close> are the addresses that user code of a partition may use, and
  the kernel finds the byte at \<open>a\<close> at \<open>place a\<close>; \<open>valid\<close> are the states and spaces that occur.
\<close>

locale user_pointers =
  fixes valid :: "nat \<Rightarrow> 'x \<Rightarrow> bool"
    and to_kernel :: "nat \<Rightarrow> nat \<Rightarrow> nat \<Rightarrow> 'x \<Rightarrow> nat option"
    and owned :: "nat \<Rightarrow> 'x \<Rightarrow> nat set"
    and place :: "nat \<Rightarrow> 'x \<Rightarrow> nat \<Rightarrow> nat"
  assumes translated: "\<lbrakk>valid sid x; to_kernel addr sz sid x = Some k; k \<noteq> 0; sz < 2 ^ 32; i < sz\<rbrakk>
      \<Longrightarrow> addr + i \<in> owned sid x \<and> place sid x (addr + i) = k + i"
    and place_inj: "valid sid x \<Longrightarrow> inj_on (place sid x) (owned sid x)"
begin

lemma write_stays_inside:
  assumes "valid sid x" "to_kernel addr (length bs) sid x = Some k" "k \<noteq> 0" "length bs < 2 ^ 32" "p \<notin> place sid x ` owned sid x"
  shows "write_bytes k bs m p = m p"
proof (rule ccontr)
  assume "write_bytes k bs m p \<noteq> m p"
  then have r: "k \<le> p" "p < k + length bs" by (auto simp: write_bytes_def split: if_splits)
  define i where "i = p - k"
  have i: "i < length bs" "p = k + i" using r by (auto simp: i_def)
  have "addr + i \<in> owned sid x" "place sid x (addr + i) = p" using translated [OF assms(1-4) i(1)] i(2) by auto
  with assms(5) show False by blast
qed

lemma write_seen_by_user:
  assumes "valid sid x" "to_kernel addr (length bs) sid x = Some k" "k \<noteq> 0" "length bs < 2 ^ 32" "a \<in> owned sid x"
  shows "write_bytes k bs m (place sid x a)
    = (if addr \<le> a \<and> a < addr + length bs then bs ! (a - addr) else m (place sid x a))"
proof (cases "addr \<le> a \<and> a < addr + length bs")
  case True
  then have "place sid x a = k + (a - addr)" using translated [OF assms(1-4), of "a - addr"] by auto
  with True show ?thesis by (auto simp: write_bytes_def)
next
  case False
  have "\<not> (k \<le> place sid x a \<and> place sid x a < k + length bs)"
  proof
    assume r: "k \<le> place sid x a \<and> place sid x a < k + length bs"
    define i where "i = place sid x a - k"
    have i: "i < length bs" "place sid x a = k + i" using r by (auto simp: i_def)
    have "addr + i \<in> owned sid x" "place sid x (addr + i) = place sid x a"
      using translated [OF assms(1-4) i(1)] i(2) by auto
    with assms(5) have "addr + i = a" using inj_onD [OF place_inj [OF assms(1)]] by blast
    with False i(1) show False by auto
  qed
  with False show ?thesis by (auto simp: write_bytes_def)
qed

end

text \<open>The architecture's function for the space of the partition that runs (\<open>core/uaccess.c\<close>).\<close>

definition jet_user_to_kernel :: "(nat \<Rightarrow> nat \<Rightarrow> nat \<Rightarrow> 'x \<Rightarrow> nat option) \<Rightarrow> nat \<Rightarrow> nat \<Rightarrow> nat \<Rightarrow> 'x \<Rightarrow> nat option" where
  "jet_user_to_kernel ja_user_to_kernel_space space_id addr sz x = ja_user_to_kernel_space addr sz space_id x"

definition jet_check_access_exec :: "(nat \<Rightarrow> nat \<Rightarrow> 'x \<Rightarrow> bool option) \<Rightarrow> nat \<Rightarrow> nat \<Rightarrow> 'x \<Rightarrow> bool option" where
  "jet_check_access_exec ja_check_access_exec space_id addr x = ja_check_access_exec addr space_id x"

end
