(* ===== verification/SpaceX86.thy ===== *)
theory SpaceX86
  imports UserSpace
begin

section \<open>Spaces on x86: segments\<close>

text \<open>
  \<open>kernel/arch/x86/space.c\<close>, \<open>uaccess.c\<close>, \<open>gdt.c\<close>. A space is a chunk of physical memory: code and data,
  the heap, then the stacks, which grow down from its end. User code sees the chunk through a code and
  a data segment of its own, from address 0 on; the kernel addresses physical memory. A step on memory
  beyond the array of spaces or the descriptor table is not modelled: the theorems are about numbers
  of spaces within them.
\<close>

record ja_x86_space =
  phys_base :: nat
  size_normal :: nat
  size_heap :: nat
  size_stack :: nat
  size_total :: nat
  heap_end :: nat
  size_stack_used :: nat

record gdt_entry_t =
  limit_low :: nat
  base_low :: nat
  gdt_type :: nat
  gdt_s :: nat
  dpl :: nat
  gdt_present :: nat
  limit_high :: nat
  gdt_available :: nat
  op_size :: nat
  granularity :: nat
  base_high :: nat

record x86_spaces =
  ja_spaces :: "ja_x86_space list"
  pok_gdt :: "nat \<Rightarrow> gdt_entry_t"
  current_space_id :: nat

definition POK_PARTITION_MEMORY_BASE :: nat where
  "POK_PARTITION_MEMORY_BASE = 0"

definition POK_PARTITION_MEMORY_PHYS_START :: nat where
  "POK_PARTITION_MEMORY_PHYS_START = 0x1000000"

definition ja_spaces_n :: "x86_spaces \<Rightarrow> nat" where
  "ja_spaces_n x = length (ja_spaces x)"

definition space_of :: "x86_spaces \<Rightarrow> nat \<Rightarrow> ja_x86_space" where
  "space_of x space_id = ja_spaces x ! (space_id - 1)"

definition upd_space :: "nat \<Rightarrow> (ja_x86_space \<Rightarrow> ja_x86_space) \<Rightarrow> x86_spaces \<Rightarrow> x86_spaces" where
  "upd_space space_id f x = x\<lparr>ja_spaces := (ja_spaces x)[space_id - 1 := f (space_of x space_id)]\<rparr>"

subsection \<open>Descriptors of segments\<close>

datatype e_gdte_type = GDTE_CODE | GDTE_DATA

definition gdte_value :: "e_gdte_type \<Rightarrow> nat" where
  "gdte_value t = (case t of GDTE_CODE \<Rightarrow> 0xB | GDTE_DATA \<Rightarrow> 0x3)"

definition GDT_PARTITION_CODE_SEGMENT :: "nat \<Rightarrow> nat" where
  "GDT_PARTITION_CODE_SEGMENT space_id = 2 + 2 * space_id"

definition GDT_PARTITION_DATA_SEGMENT :: "nat \<Rightarrow> nat" where
  "GDT_PARTITION_DATA_SEGMENT space_id = 2 + 2 * space_id + 1"

text \<open>The assignment to a bit field of 16, 24, 4 or 8 bits keeps the low bits.\<close>

definition gdt_set_segment :: "nat \<Rightarrow> nat \<Rightarrow> nat \<Rightarrow> e_gdte_type \<Rightarrow> nat \<Rightarrow> (nat \<Rightarrow> gdt_entry_t) \<Rightarrow> (nat \<Rightarrow> gdt_entry_t)" where
  "gdt_set_segment index base_address limit t level gdt =
     (let e = gdt index;
          e = (if limit > 2 ^ 20
               then e\<lparr>limit_low := take_bit 16 (drop_bit 12 limit AND 0xFFFF),
                      limit_high := take_bit 4 (drop_bit 28 limit AND 0xF), granularity := 1\<rparr>
               else e\<lparr>limit_low := take_bit 16 (limit AND 0xFFFF),
                      limit_high := take_bit 4 (drop_bit 16 limit AND 0xFF), granularity := 0\<rparr>)
      in gdt(index := e\<lparr>base_low := take_bit 24 (base_address AND 0xFFFFFF),
                        base_high := take_bit 8 (drop_bit 24 base_address AND 0xFF),
                        gdt_type := gdte_value t AND 0xF, dpl := level AND 0x3,
                        gdt_s := 1, gdt_present := 1, gdt_available := 0, op_size := 1\<rparr>))"

definition gdt_enable :: "nat \<Rightarrow> (nat \<Rightarrow> gdt_entry_t) \<Rightarrow> (nat \<Rightarrow> gdt_entry_t)" where
  "gdt_enable index gdt = gdt(index := (gdt index)\<lparr>gdt_present := 1\<rparr>)"

definition gdt_disable :: "nat \<Rightarrow> (nat \<Rightarrow> gdt_entry_t) \<Rightarrow> (nat \<Rightarrow> gdt_entry_t)" where
  "gdt_disable index gdt = gdt(index := (gdt index)\<lparr>gdt_present := 0\<rparr>)"

subsection \<open>Set-up of the spaces\<close>

definition ja_space_create :: "nat \<Rightarrow> nat \<Rightarrow> nat \<Rightarrow> x86_spaces \<Rightarrow> x86_spaces" where
  "ja_space_create space_id addr sz x =
     x\<lparr>pok_gdt := gdt_set_segment (GDT_PARTITION_DATA_SEGMENT space_id) addr sz GDTE_DATA 3
                    (gdt_set_segment (GDT_PARTITION_CODE_SEGMENT space_id) addr sz GDTE_CODE 3 (pok_gdt x))\<rparr>"

text \<open>The first part of the loop's body, on one space.\<close>

definition set_sizes :: "ja_x86_space \<Rightarrow> ja_x86_space" where
  "set_sizes space =
     (let tot = size_normal space;
          tot = (if size_heap space > 0 then w32 (align32 tot 16 + size_heap space) else tot);
          space = space\<lparr>heap_end := tot\<rparr>;
          tot = w32 (align32 tot 16 + size_stack space)
      in space\<lparr>size_total := align32 tot 0x1000\<rparr>)"

fun ja_space_init_loop :: "nat list \<Rightarrow> nat \<Rightarrow> x86_spaces \<Rightarrow> x86_spaces option" where
  "ja_space_init_loop [] phys_start x = Some x"
| "ja_space_init_loop (i # is) phys_start x =
     (let space = set_sizes (ja_spaces x ! i) in
      if phys_base space = 0 then
        (let space = space\<lparr>phys_base := align32 phys_start 0x1000\<rparr>;
             x = x\<lparr>ja_spaces := (ja_spaces x)[i := space]\<rparr>
         in ja_space_init_loop is (w32 (phys_base space + size_total space))
              (ja_space_create (i + 1) (phys_base space) (size_total space) x))
      else if \<not> phys_base space \<ge> POK_PARTITION_MEMORY_PHYS_START then None
      else if phys_base space AND 0xfff \<noteq> 0 then None
      else
        (let phys_base_end = w32 (phys_base space + size_total space);
             x = x\<lparr>ja_spaces := (ja_spaces x)[i := space]\<rparr>
         in ja_space_init_loop is (if phys_start < phys_base_end then phys_base_end else phys_start)
              (ja_space_create (i + 1) (phys_base space) (size_total space) x)))"

definition ja_space_init :: "x86_spaces \<Rightarrow> x86_spaces option" where
  "ja_space_init x = ja_space_init_loop [0..<ja_spaces_n x] POK_PARTITION_MEMORY_PHYS_START x"

definition ja_space_layout_get :: "nat \<Rightarrow> x86_spaces \<Rightarrow> jet_space_layout option" where
  "ja_space_layout_get space_id x =
     (if \<not> (space_id \<noteq> 0 \<and> space_id \<le> ja_spaces_n x) then None
      else Some \<lparr>kernel_addr = phys_base (space_of x space_id), user_addr = POK_PARTITION_MEMORY_BASE,
                 layout_size = size_normal (space_of x space_id)\<rparr>)"

definition ja_space_shared_data :: "nat \<Rightarrow> x86_spaces \<Rightarrow> nat" where
  "ja_space_shared_data space_id x = phys_base (space_of x space_id)"

definition ja_space_get_heap :: "nat \<Rightarrow> x86_spaces \<Rightarrow> nat" where
  "ja_space_get_heap space_id x = sub32 (heap_end (space_of x space_id)) (size_heap (space_of x space_id))"

definition ja_space_switch :: "nat \<Rightarrow> x86_spaces \<Rightarrow> x86_spaces" where
  "ja_space_switch space_id x =
     (let gdt = pok_gdt x;
          gdt = (if current_space_id x \<noteq> 0
                 then gdt_disable (GDT_PARTITION_DATA_SEGMENT (current_space_id x))
                        (gdt_disable (GDT_PARTITION_CODE_SEGMENT (current_space_id x)) gdt)
                 else gdt);
          gdt = (if space_id \<noteq> 0
                 then gdt_enable (GDT_PARTITION_DATA_SEGMENT space_id) (gdt_enable (GDT_PARTITION_CODE_SEGMENT space_id) gdt)
                 else gdt)
      in x\<lparr>pok_gdt := gdt, current_space_id := space_id\<rparr>)"

subsection \<open>User stacks\<close>

definition ja_ustack_init :: "nat \<Rightarrow> x86_spaces \<Rightarrow> x86_spaces option" where
  "ja_ustack_init space_id x =
     (if space_id = 0 then None else Some (upd_space space_id (\<lambda>space. space\<lparr>size_stack_used := 0\<rparr>) x))"

definition ja_ustack_alloc :: "nat \<Rightarrow> nat \<Rightarrow> x86_spaces \<Rightarrow> (nat \<times> x86_spaces) option" where
  "ja_ustack_alloc space_id stack_size x =
     (if space_id = 0 then None
      else
        (let space = space_of x space_id;
             size_stack_new = w32 (size_stack_used space + align32 stack_size 16)
         in if size_stack_new > size_stack space then Some (0, x)
            else
              (let result = sub32 (POK_PARTITION_MEMORY_BASE + size_total space) (size_stack_used space)
               in Some (result, upd_space space_id (\<lambda>space. space\<lparr>size_stack_used := size_stack_new\<rparr>) x))))"

subsection \<open>Access to user space\<close>

text \<open>The comparisons are made in 64 bits, as the base has the type \<open>unsigned long long\<close>.\<close>

definition x86_check_access :: "nat \<Rightarrow> nat \<Rightarrow> nat \<Rightarrow> x86_spaces \<Rightarrow> bool option" where
  "x86_check_access addr sz space_id x =
     (if space_id = 0 then None
      else if sz = 0 then None
      else
        (let start = addr;
             stop = w32 (start + sz);
             space = space_of x space_id
         in if stop < start then Some False
            else if stop \<le> heap_end space + POK_PARTITION_MEMORY_BASE then Some (start \<ge> POK_PARTITION_MEMORY_BASE)
            else if stop \<le> POK_PARTITION_MEMORY_BASE + size_total space
            then Some (start \<ge> (POK_PARTITION_MEMORY_BASE + size_total space + 2 ^ 64 - size_stack_used space) mod 2 ^ 64)
            else Some False))"

definition user_space_shift :: "nat \<Rightarrow> x86_spaces \<Rightarrow> nat option" where
  "user_space_shift space_id x =
     (if space_id = 0 then None else Some (sub32 POK_PARTITION_MEMORY_BASE (phys_base (space_of x space_id))))"

definition ja_user_to_kernel_space :: "nat \<Rightarrow> nat \<Rightarrow> nat \<Rightarrow> x86_spaces \<Rightarrow> nat option" where
  "ja_user_to_kernel_space addr sz space_id x = do {
     access \<leftarrow> x86_check_access addr sz space_id x;
     if access then do { shift \<leftarrow> user_space_shift space_id x; Some (sub32 addr shift) }
     else Some 0
   }"

definition ja_check_access_exec :: "nat \<Rightarrow> nat \<Rightarrow> x86_spaces \<Rightarrow> bool option" where
  "ja_check_access_exec addr space_id x =
     (if space_id = 0 then None
      else Some (addr < POK_PARTITION_MEMORY_BASE + size_normal (space_of x space_id) \<and> addr \<ge> POK_PARTITION_MEMORY_BASE))"

text \<open>System calls of drivers; a fatal error is \<open>None\<close>.\<close>

definition pok_virt_to_phys :: "nat \<Rightarrow> x86_spaces \<Rightarrow> nat option" where
  "pok_virt_to_phys virt x =
     (let space = space_of x (current_space_id x) in
      if virt < POK_PARTITION_MEMORY_BASE \<or> virt > POK_PARTITION_MEMORY_BASE + size_total space then None
      else Some (w32 (virt - POK_PARTITION_MEMORY_BASE + phys_base space)))"

definition pok_phys_to_virt :: "nat \<Rightarrow> x86_spaces \<Rightarrow> nat option" where
  "pok_phys_to_virt phys x =
     (let space = space_of x (current_space_id x) in
      if phys < phys_base space \<or> phys \<ge> w32 (phys_base space + size_total space) then None
      else Some (phys - phys_base space + POK_PARTITION_MEMORY_BASE))"

subsection \<open>Layout of the spaces\<close>

text \<open>The sizes as numbers without bound, and where the memory after a space begins.\<close>

definition heap_extent :: "ja_x86_space \<Rightarrow> nat" where
  "heap_extent s = (if size_heap s > 0 then ALIGN_VAL (size_normal s) 16 + size_heap s else size_normal s)"

definition space_extent :: "ja_x86_space \<Rightarrow> nat" where
  "space_extent s = ALIGN_VAL (ALIGN_VAL (heap_extent s) 16 + size_stack s) 4096"

definition next_start :: "nat \<Rightarrow> ja_x86_space \<Rightarrow> nat" where
  "next_start p s = (if phys_base s = 0 then p + space_extent s else max p (phys_base s + space_extent s))"

definition place_space :: "nat \<Rightarrow> ja_x86_space \<Rightarrow> ja_x86_space" where
  "place_space p s = s\<lparr>heap_end := heap_extent s, size_total := space_extent s,
                       phys_base := (if phys_base s = 0 then p else phys_base s)\<rparr>"

fun placed :: "nat \<Rightarrow> ja_x86_space list \<Rightarrow> ja_x86_space list" where
  "placed p [] = []"
| "placed p (s # ss) = place_space p s # placed (next_start p s) ss"

text \<open>A configuration: addresses that are given are aligned and behind the kernel, and all ends below 4 GB.\<close>

definition base_ok :: "ja_x86_space \<Rightarrow> bool" where
  "base_ok s \<longleftrightarrow> phys_base s = 0 \<or> POK_PARTITION_MEMORY_PHYS_START \<le> phys_base s \<and> 4096 dvd phys_base s"

definition config_ok :: "ja_x86_space list \<Rightarrow> bool" where
  "config_ok ss \<longleftrightarrow> list_all base_ok ss \<and> list_all (\<lambda>s. size_stack_used s = 0) ss
     \<and> foldl next_start POK_PARTITION_MEMORY_PHYS_START ss < 2 ^ 32 \<and> length ss \<le> 126"

lemma extents:
  "size_normal s + size_heap s \<le> heap_extent s" "heap_extent s + size_stack s \<le> space_extent s" "4096 dvd space_extent s"
  using align_bounds [of "size_normal s"] align_bounds [of "heap_extent s"] align_bounds [of "ALIGN_VAL (heap_extent s) 16 + size_stack s"]
  unfolding space_extent_def by (simp_all add: heap_extent_def align_dvd)

lemma set_sizes_exact:
  assumes "space_extent s < 2 ^ 32"
  shows "set_sizes s = s\<lparr>heap_end := heap_extent s, size_total := space_extent s\<rparr>"
proof -
  have e: "heap_extent s < 2 ^ 32" "ALIGN_VAL (heap_extent s) 16 + size_stack s < 2 ^ 32" "ALIGN_VAL (heap_extent s) 16 < 2 ^ 32"
    using assms align_bounds [of "heap_extent s"] align_bounds(3) [of "ALIGN_VAL (heap_extent s) 16 + size_stack s"]
    unfolding space_extent_def by linarith+
  have h: "(if size_heap s > 0 then w32 (align32 (size_normal s) 16 + size_heap s) else size_normal s) = heap_extent s"
  proof (cases "size_heap s > 0")
    case True
    with e(1) have "ALIGN_VAL (size_normal s) 16 < 2 ^ 32" "ALIGN_VAL (size_normal s) 16 + size_heap s < 2 ^ 32"
      by (simp_all add: heap_extent_def)
    with True show ?thesis by (simp add: heap_extent_def align32_def)
  qed (simp add: heap_extent_def)
  have t: "align32 (w32 (align32 (heap_extent s) 16 + size_stack s)) 4096 = space_extent s"
    using e assms by (simp only: align32_def w32_small space_extent_def)
  show ?thesis unfolding set_sizes_def by (simp add: Let_def h t)
qed

lemma foldl_next_start_le: "p \<le> foldl next_start p ss"
proof (induction ss arbitrary: p)
  case (Cons s ss)
  have "p \<le> next_start p s" by (simp add: next_start_def)
  with Cons [of "next_start p s"] show ?case by simp
qed simp

lemma next_start_dvd: "4096 dvd p \<Longrightarrow> base_ok s \<Longrightarrow> 4096 dvd next_start p s"
  using extents(3) [of s] by (auto simp: next_start_def base_ok_def max_def)

lemma low_bits: "4096 dvd p \<longleftrightarrow> p AND 0xfff = (0 :: nat)"
proof -
  have "p AND 0xfff = p mod 4096"
    using take_bit_eq_mask [of 12 p] by (simp add: take_bit_eq_mod mask_eq_exp_minus_1)
  then show ?thesis by (simp add: dvd_eq_mod_eq_0)
qed

text \<open>A descriptor as \<open>gdt_set_segment\<close> leaves it, whatever it was before.\<close>

definition descriptor :: "nat \<Rightarrow> nat \<Rightarrow> e_gdte_type \<Rightarrow> nat \<Rightarrow> gdt_entry_t" where
  "descriptor base limit t present = (gdt_set_segment 0 base limit t 3 (\<lambda>_. undefined) 0)\<lparr>gdt_present := present\<rparr>"

lemma gdt_set_segment_descriptor:
  "gdt_set_segment index base limit t 3 gdt = gdt(index := descriptor base limit t 1)"
  unfolding gdt_set_segment_def descriptor_def Let_def
  by (intro arg_cong [where f = "fun_upd gdt index"] gdt_entry_t.equality) simp_all

definition segments :: "nat \<Rightarrow> ja_x86_space \<Rightarrow> nat \<Rightarrow> (nat \<Rightarrow> gdt_entry_t) \<Rightarrow> bool" where
  "segments space_id s present gdt \<longleftrightarrow>
     gdt (GDT_PARTITION_CODE_SEGMENT space_id) = descriptor (phys_base s) (size_total s) GDTE_CODE present
   \<and> gdt (GDT_PARTITION_DATA_SEGMENT space_id) = descriptor (phys_base s) (size_total s) GDTE_DATA present"

lemma init_loop_placed:
  assumes "ja_spaces x = pre @ ss" "4096 dvd p" "list_all base_ok ss" "foldl next_start p ss < 2 ^ 32"
  shows "\<exists>y. ja_space_init_loop [length pre..<length pre + length ss] p x = Some y
     \<and> ja_spaces y = pre @ placed p ss \<and> current_space_id y = current_space_id x
     \<and> (\<forall>k < 2 * length pre + 4. pok_gdt y k = pok_gdt x k)
     \<and> (\<forall>j < length ss. segments (length pre + j + 1) (placed p ss ! j) 1 (pok_gdt y))"
  using assms
proof (induction ss arbitrary: pre p x)
  case Nil
  then show ?case by simp
next
  case (Cons s ss)
  let ?s = "place_space p s"
  have "next_start p s < 2 ^ 32" using foldl_next_start_le [of "next_start p s" ss] Cons.prems(4) by simp
  then have b: "p < 2 ^ 32" "space_extent s < 2 ^ 32" "phys_base ?s + size_total ?s \<le> next_start p s"
      "phys_base ?s + size_total ?s < 2 ^ 32"
    by (auto simp: next_start_def place_space_def split: if_splits)
  define y where "y = ja_space_create (length pre + 1) (phys_base ?s) (size_total ?s) (x\<lparr>ja_spaces := pre @ ?s # ss\<rparr>)"
  have nth: "ja_spaces x ! length pre = s" "(ja_spaces x)[length pre := ?s] = pre @ ?s # ss"
    using Cons.prems(1) by (simp_all add: nth_append list_update_append)
  have sizes: "set_sizes s = s\<lparr>heap_end := heap_extent s, size_total := space_extent s\<rparr>"
    by (rule set_sizes_exact [OF b(2)])
  have step: "ja_space_init_loop (length pre # is) p x = ja_space_init_loop is (next_start p s) y" for "is"
  proof (cases "phys_base s = 0")
    case True
    have "align32 p 0x1000 = p" using Cons.prems(2) b(1) by (simp add: align32_def align_page_fixed)
    moreover have eq: "?s = s\<lparr>heap_end := heap_extent s, size_total := space_extent s, phys_base := p\<rparr>"
      using True by (simp add: place_space_def)
    moreover have "p + space_extent s < 2 ^ 32" using b(4) by (simp add: eq)
    ultimately show ?thesis
      using True by (simp add: nth(1) sizes Let_def y_def next_start_def nth(2) [unfolded eq])
  next
    case False
    with Cons.prems(3) have ok: "POK_PARTITION_MEMORY_PHYS_START \<le> phys_base s" "phys_base s AND 0xfff = 0"
      by (auto simp: base_ok_def low_bits)
    have eq: "?s = s\<lparr>heap_end := heap_extent s, size_total := space_extent s\<rparr>" using False by (simp add: place_space_def)
    have e: "phys_base s + space_extent s < 2 ^ 32" using b(4) by (simp add: eq)
    have "(if p < phys_base s + space_extent s then phys_base s + space_extent s else p) = next_start p s"
      using False by (simp add: next_start_def max_def)
    with False ok e show ?thesis
      by (simp add: nth(1) sizes Let_def y_def eq nth(2) [unfolded eq])
  qed
  have y: "ja_spaces y = (pre @ [?s]) @ ss" by (simp add: y_def ja_space_create_def)
  have "list_all base_ok ss" "foldl next_start (next_start p s) ss < 2 ^ 32" using Cons.prems(3,4) by simp_all
  from Cons.IH [OF y next_start_dvd this] Cons.prems(2,3) obtain z where z:
    "ja_space_init_loop [length (pre @ [?s])..<length (pre @ [?s]) + length ss] (next_start p s) y = Some z"
    "ja_spaces z = (pre @ [?s]) @ placed (next_start p s) ss" "current_space_id z = current_space_id y"
    "\<forall>k < 2 * length (pre @ [?s]) + 4. pok_gdt z k = pok_gdt y k"
    "\<forall>j < length ss. segments (length (pre @ [?s]) + j + 1) (placed (next_start p s) ss ! j) 1 (pok_gdt z)"
    by auto
  have upt: "[length pre..<length pre + length (s # ss)] = length pre # [length (pre @ [?s])..<length (pre @ [?s]) + length ss]"
    by (simp add: upt_rec)
  have seg: "segments (length pre + 1) ?s 1 (pok_gdt z)"
    using z(4) unfolding segments_def
    by (simp add: y_def ja_space_create_def gdt_set_segment_descriptor GDT_PARTITION_CODE_SEGMENT_def GDT_PARTITION_DATA_SEGMENT_def)
  have below: "pok_gdt z k = pok_gdt x k" if "k < 2 * length pre + 4" for k
    using z(4) that
    by (simp add: y_def ja_space_create_def gdt_set_segment_descriptor GDT_PARTITION_CODE_SEGMENT_def GDT_PARTITION_DATA_SEGMENT_def)
  have all: "segments (length pre + j + 1) (placed p (s # ss) ! j) 1 (pok_gdt z)" if "j < length (s # ss)" for j
    using that z(5) seg by (cases j) auto
  show ?case
    unfolding upt step using z(1-3) below all by (intro exI [of _ z]) (simp add: y_def ja_space_create_def)
qed

lemma length_placed [simp]: "length (placed p ss) = length ss"
  by (induction ss arbitrary: p) auto

lemma placed_nth: "i < length ss \<Longrightarrow> placed p ss ! i = place_space (foldl next_start p (take i ss)) (ss ! i)"
proof (induction ss arbitrary: p i)
  case (Cons s ss)
  then show ?case by (cases i) auto
qed simp

lemma placed_ends:
  assumes "j < i" "i \<le> length ss"
  shows "phys_base (placed p ss ! j) + size_total (placed p ss ! j) \<le> foldl next_start p (take i ss)"
proof -
  define q where "q = foldl next_start p (take j ss)"
  have j: "j < length ss" using assms by simp
  have "phys_base (place_space q (ss ! j)) + size_total (place_space q (ss ! j)) \<le> next_start q (ss ! j)"
    by (simp add: place_space_def next_start_def)
  also have "next_start q (ss ! j) = foldl next_start p (take (Suc j) ss)"
    using j by (simp add: q_def take_Suc_conv_app_nth)
  also have "\<dots> \<le> foldl next_start (foldl next_start p (take (Suc j) ss)) (drop (Suc j) (take i ss))"
    by (rule foldl_next_start_le)
  also have "\<dots> = foldl next_start p (take (Suc j) ss @ drop (Suc j) (take i ss))" by simp
  also have "take (Suc j) ss @ drop (Suc j) (take i ss) = take i ss"
    using append_take_drop_id [of "Suc j" "take i ss"] assms(1) by (simp add: min_def)
  finally show ?thesis by (simp add: placed_nth [OF j] q_def)
qed

subsection \<open>Every order of operations\<close>

text \<open>
  \<open>stacks_in tot used ss\<close>: the stacks given out, the last one first, each as its head and size, fill the
  part \<open>used\<close> of the end of a space without a gap.
\<close>

fun stacks_in :: "nat \<Rightarrow> nat \<Rightarrow> (nat \<times> nat) list \<Rightarrow> bool" where
  "stacks_in tot used [] \<longleftrightarrow> used = 0"
| "stacks_in tot used ((a, n) # ss) \<longleftrightarrow> n \<le> used \<and> a = tot - (used - n) \<and> stacks_in tot (used - n) ss"

definition area :: "nat \<times> nat \<Rightarrow> nat set" where
  "area st = {fst st - snd st..<fst st}"

text \<open>
  The life of the spaces: a partition that starts throws its stacks away, a thread gets one, the
  processor changes the space. \<open>stacks\<close> are the stacks that the threads of each partition have, \<open>seen\<close> the
  spaces that have been switched to. A request is any number of 32 bits; one that changes nothing and
  returns \<open>NULL\<close> gives no stack.
\<close>

inductive x86_life :: "ja_x86_space list \<Rightarrow> x86_spaces \<Rightarrow> (nat \<Rightarrow> (nat \<times> nat) list) \<Rightarrow> nat set \<Rightarrow> bool" for config where
  boot: "ja_spaces x = config \<Longrightarrow> current_space_id x = 0 \<Longrightarrow> ja_space_init x = Some y \<Longrightarrow> x86_life config y (\<lambda>_. []) {}"
| restart: "x86_life config x stacks seen \<Longrightarrow> space_id \<le> length config \<Longrightarrow> ja_ustack_init space_id x = Some y
    \<Longrightarrow> x86_life config y (stacks(space_id := [])) seen"
| alloc: "x86_life config x stacks seen \<Longrightarrow> space_id \<le> length config \<Longrightarrow> sz < 2 ^ 32
    \<Longrightarrow> ja_ustack_alloc space_id sz x = Some (a, y)
    \<Longrightarrow> x86_life config y (if a = 0 \<and> y = x then stacks else stacks(space_id := (a, ALIGN_VAL sz 16) # stacks space_id)) seen"
| switch: "x86_life config x stacks seen \<Longrightarrow> space_id \<le> length config
    \<Longrightarrow> x86_life config (ja_space_switch space_id x) stacks (insert space_id seen)"

text \<open>No request came so close to 4 GB that its sum with the used part of an area of size \<open>n\<close> wraps.\<close>

definition sane_stacks :: "nat \<Rightarrow> (nat \<times> nat) list \<Rightarrow> bool" where
  "sane_stacks n ss \<longleftrightarrow> (\<forall>st \<in> set ss. snd st + n < 2 ^ 32)"

definition x86_inv :: "ja_x86_space list \<Rightarrow> x86_spaces \<Rightarrow> (nat \<Rightarrow> (nat \<times> nat) list) \<Rightarrow> nat set \<Rightarrow> bool" where
  "x86_inv config x stacks seen \<longleftrightarrow>
     map (\<lambda>s. s\<lparr>size_stack_used := 0\<rparr>) (ja_spaces x) = placed POK_PARTITION_MEMORY_PHYS_START config
   \<and> (\<forall>sid \<in> {1..length config}. size_stack_used (space_of x sid) \<le> size_stack (space_of x sid)
        \<and> (sane_stacks (size_stack (space_of x sid)) (stacks sid)
            \<longrightarrow> stacks_in (size_total (space_of x sid)) (size_stack_used (space_of x sid)) (stacks sid))
        \<and> segments sid (space_of x sid) (if sid = current_space_id x \<or> sid \<notin> seen then 1 else 0) (pok_gdt x))
   \<and> (current_space_id x = 0 \<or> current_space_id x \<in> seen)"

lemma stacks_in_zero: "stacks_in tot u ss \<Longrightarrow> u = 0 \<Longrightarrow> list_all (\<lambda>st. snd st = 0) ss"
  by (induction ss arbitrary: u) auto

lemma stacks_in_area:
  "stacks_in tot used ss \<Longrightarrow> used \<le> tot \<Longrightarrow> st \<in> set ss \<Longrightarrow> area st \<subseteq> {tot - used..<tot}"
proof (induction ss arbitrary: used)
  case (Cons s ss)
  then obtain a n where s: "s = (a, n)" by (cases s)
  show ?case
  proof (cases "st = s")
    case True
    with Cons.prems s show ?thesis by (auto simp: area_def)
  next
    case False
    then have "area st \<subseteq> {tot - (used - n)..<tot}"
      using Cons.IH [of "used - n"] Cons.prems s by auto
    then show ?thesis by (force simp: subset_iff)
  qed
qed simp

lemma stacks_in_apart:
  "stacks_in tot used ss \<Longrightarrow> used \<le> tot \<Longrightarrow> i < j \<Longrightarrow> j < length ss \<Longrightarrow> area (ss ! i) \<inter> area (ss ! j) = {}"
proof (induction ss arbitrary: used i j)
  case (Cons s ss)
  obtain a n where s: "s = (a, n)" by (cases s)
  with Cons.prems have ss: "n \<le> used" "a = tot - (used - n)" "stacks_in tot (used - n) ss" "used - n \<le> tot" by auto
  show ?case
  proof (cases i)
    case 0
    have "area (ss ! (j - 1)) \<subseteq> {tot - (used - n)..<tot}"
      using Cons.prems(3,4) by (intro stacks_in_area [OF ss(3,4)]) auto
    moreover have "area s \<inter> {tot - (used - n)..<tot} = {}" by (auto simp: area_def s ss(2))
    ultimately show ?thesis using 0 Cons.prems(3) by (auto simp: nth_Cons')
  next
    case (Suc k)
    then show ?thesis using Cons.IH [OF ss(3,4), of k "j - 1"] Cons.prems(3,4) by (auto simp: nth_Cons')
  qed
qed simp

text \<open>What the invariant says of the sizes of a space.\<close>

lemma space_of_placed:
  assumes "x86_inv config x stacks seen" "sid \<in> {1..length config}"
  shows "(space_of x sid)\<lparr>size_stack_used := 0\<rparr>
    = place_space (foldl next_start POK_PARTITION_MEMORY_PHYS_START (take (sid - 1) config)) (config ! (sid - 1))\<lparr>size_stack_used := 0\<rparr>"
    and "length (ja_spaces x) = length config"
proof -
  from assms(1) have m: "map (\<lambda>s. s\<lparr>size_stack_used := 0\<rparr>) (ja_spaces x) = placed POK_PARTITION_MEMORY_PHYS_START config"
    by (simp add: x86_inv_def)
  show l: "length (ja_spaces x) = length config" using arg_cong [OF m, of length] by simp
  define k where "k = sid - 1"
  have k: "k < length config" using assms(2) by (auto simp: k_def)
  have "map (\<lambda>s. s\<lparr>size_stack_used := 0\<rparr>) (ja_spaces x) ! k = placed POK_PARTITION_MEMORY_PHYS_START config ! k" by (simp add: m)
  then have "(ja_spaces x ! k)\<lparr>size_stack_used := 0\<rparr>
      = place_space (foldl next_start POK_PARTITION_MEMORY_PHYS_START (take k config)) (config ! k)"
    using k l by (simp add: placed_nth)
  then have e: "(space_of x sid)\<lparr>size_stack_used := 0\<rparr>
      = place_space (foldl next_start POK_PARTITION_MEMORY_PHYS_START (take (sid - 1) config)) (config ! (sid - 1))"
    by (simp only: space_of_def k_def)
  show "(space_of x sid)\<lparr>size_stack_used := 0\<rparr>
    = place_space (foldl next_start POK_PARTITION_MEMORY_PHYS_START (take (sid - 1) config)) (config ! (sid - 1))\<lparr>size_stack_used := 0\<rparr>"
    using arg_cong [OF e, of "\<lambda>s. s\<lparr>size_stack_used := 0\<rparr>"] by simp
qed

lemma space_facts:
  assumes "x86_inv config x stacks seen" "config_ok config" "sid \<in> {1..length config}"
  shows "size_total (space_of x sid) = space_extent (config ! (sid - 1))"
    "heap_end (space_of x sid) = heap_extent (config ! (sid - 1))"
    "size_stack (space_of x sid) = size_stack (config ! (sid - 1))"
    "size_normal (space_of x sid) = size_normal (config ! (sid - 1))"
    "size_heap (space_of x sid) = size_heap (config ! (sid - 1))"
    "phys_base (space_of x sid) = (if phys_base (config ! (sid - 1)) = 0
       then foldl next_start POK_PARTITION_MEMORY_PHYS_START (take (sid - 1) config) else phys_base (config ! (sid - 1)))"
    "phys_base (space_of x sid) + size_total (space_of x sid) < 2 ^ 32"
    "POK_PARTITION_MEMORY_PHYS_START \<le> phys_base (space_of x sid)"
    "heap_end (space_of x sid) + size_stack (space_of x sid) \<le> size_total (space_of x sid)"
    "size_normal (space_of x sid) + size_heap (space_of x sid) \<le> heap_end (space_of x sid)"
    "4096 dvd size_total (space_of x sid)" "4096 dvd phys_base (space_of x sid)"
proof -
  let ?c = "config ! (sid - 1)"
  let ?p = "foldl next_start POK_PARTITION_MEMORY_PHYS_START (take (sid - 1) config)"
  note e = space_of_placed(1) [OF assms(1,3)]
  show t: "size_total (space_of x sid) = space_extent ?c" "heap_end (space_of x sid) = heap_extent ?c"
    "size_stack (space_of x sid) = size_stack ?c" "size_normal (space_of x sid) = size_normal ?c" "size_heap (space_of x sid) = size_heap ?c"
    "phys_base (space_of x sid) = (if phys_base ?c = 0 then ?p else phys_base ?c)"
    using arg_cong [OF e, of size_total] arg_cong [OF e, of heap_end] arg_cong [OF e, of size_stack] arg_cong [OF e, of size_normal]
      arg_cong [OF e, of size_heap] arg_cong [OF e, of phys_base]
    by (simp_all add: place_space_def)
  have i: "sid - 1 < length config" using assms(3) by auto
  have "phys_base (placed POK_PARTITION_MEMORY_PHYS_START config ! (sid - 1)) + size_total (placed POK_PARTITION_MEMORY_PHYS_START config ! (sid - 1))
      \<le> foldl next_start POK_PARTITION_MEMORY_PHYS_START (take (length config) config)"
    by (rule placed_ends) (use i in auto)
  moreover have "foldl next_start POK_PARTITION_MEMORY_PHYS_START (take (length config) config) < 2 ^ 32"
    using assms(2) by (simp add: config_ok_def)
  ultimately show "phys_base (space_of x sid) + size_total (space_of x sid) < 2 ^ 32"
    unfolding placed_nth [OF i] place_space_def t by (auto split: if_splits)
  have ok: "list_all base_ok config" using assms(2) by (simp add: config_ok_def)
  then have c: "base_ok ?c" using i by (simp add: list_all_length)
  show "POK_PARTITION_MEMORY_PHYS_START \<le> phys_base (space_of x sid)"
    using c foldl_next_start_le [of POK_PARTITION_MEMORY_PHYS_START] by (auto simp: t base_ok_def)
  have "4096 dvd foldl next_start p ss" if "4096 dvd p" "list_all base_ok ss" for p ss
    using that by (induction ss arbitrary: p) (auto simp: next_start_dvd)
  from this [of POK_PARTITION_MEMORY_PHYS_START "take (sid - 1) config"] have "4096 dvd ?p"
    using ok by (auto simp: POK_PARTITION_MEMORY_PHYS_START_def list_all_length)
  then show "4096 dvd phys_base (space_of x sid)" using c by (auto simp: t base_ok_def)
  show "heap_end (space_of x sid) + size_stack (space_of x sid) \<le> size_total (space_of x sid)"
    "size_normal (space_of x sid) + size_heap (space_of x sid) \<le> heap_end (space_of x sid)"
    "4096 dvd size_total (space_of x sid)"
    using extents [of ?c] by (simp_all add: t)
qed

lemma space_of_upd:
  "sid \<in> {1..length (ja_spaces x)} \<Longrightarrow> sid' \<in> {1..length (ja_spaces x)}
   \<Longrightarrow> space_of (upd_space sid f x) sid' = (if sid' = sid then f (space_of x sid) else space_of x sid')"
  by (auto simp: upd_space_def space_of_def nth_list_update)

lemma upd_space_sizes:
  "map (\<lambda>s. s\<lparr>size_stack_used := 0\<rparr>) (ja_spaces (upd_space sid (\<lambda>s. s\<lparr>size_stack_used := u\<rparr>) x))
   = map (\<lambda>s. s\<lparr>size_stack_used := 0\<rparr>) (ja_spaces x)"
  by (cases "sid - 1 < length (ja_spaces x)")
    (simp_all add: upd_space_def space_of_def map_update list_update_same_conv list_update_beyond)

lemma upd_space_rest [simp]:
  "pok_gdt (upd_space sid f x) = pok_gdt x" "current_space_id (upd_space sid f x) = current_space_id x"
  by (simp_all add: upd_space_def)

lemma inv_upd_stack:
  assumes inv: "x86_inv config x stacks seen" and sid: "sid \<in> {1..length config}"
    and u: "u \<le> size_stack (space_of x sid)"
      "sane_stacks (size_stack (space_of x sid)) ss \<longrightarrow> stacks_in (size_total (space_of x sid)) u ss"
  shows "x86_inv config (upd_space sid (\<lambda>s. s\<lparr>size_stack_used := u\<rparr>) x) (stacks(sid := ss)) seen"
proof -
  have l: "length (ja_spaces x) = length config" by (rule space_of_placed(2) [OF inv sid])
  have so: "space_of (upd_space sid (\<lambda>s. s\<lparr>size_stack_used := u\<rparr>) x) i
      = (if i = sid then (space_of x sid)\<lparr>size_stack_used := u\<rparr> else space_of x i)" if "i \<in> {1..length config}" for i
    using space_of_upd [of sid x i] sid that l by simp
  have seg: "segments i (s\<lparr>size_stack_used := v\<rparr>) p g = segments i s p g" for i s p g v
    by (simp add: segments_def)
  show ?thesis
    unfolding x86_inv_def upd_space_sizes upd_space_rest
  proof (intro conjI ballI)
    show "map (\<lambda>s. s\<lparr>size_stack_used := 0\<rparr>) (ja_spaces x) = placed POK_PARTITION_MEMORY_PHYS_START config"
      "current_space_id x = 0 \<or> current_space_id x \<in> seen"
      using inv by (simp_all add: x86_inv_def)
    fix i assume i: "i \<in> {1..length config}"
    note this_inv = inv [unfolded x86_inv_def, THEN conjunct2, THEN conjunct1, rule_format, OF i]
    note f = so [OF i]
    show "size_stack_used (space_of (upd_space sid (\<lambda>s. s\<lparr>size_stack_used := u\<rparr>) x) i)
        \<le> size_stack (space_of (upd_space sid (\<lambda>s. s\<lparr>size_stack_used := u\<rparr>) x) i)"
      unfolding f using this_inv u(1) by simp
    show "sane_stacks (size_stack (space_of (upd_space sid (\<lambda>s. s\<lparr>size_stack_used := u\<rparr>) x) i)) ((stacks(sid := ss)) i)
      \<longrightarrow> stacks_in (size_total (space_of (upd_space sid (\<lambda>s. s\<lparr>size_stack_used := u\<rparr>) x) i))
        (size_stack_used (space_of (upd_space sid (\<lambda>s. s\<lparr>size_stack_used := u\<rparr>) x) i)) ((stacks(sid := ss)) i)"
      unfolding f using this_inv u(2) by simp
    show "segments i (space_of (upd_space sid (\<lambda>s. s\<lparr>size_stack_used := u\<rparr>) x) i)
        (if i = current_space_id x \<or> i \<notin> seen then 1 else 0) (pok_gdt x)"
      unfolding f using this_inv [THEN conjunct2, THEN conjunct2]
      by (cases "i = sid") (simp_all only: seg if_True if_False simp_thms)
  qed
qed

lemma descriptor_present: "(descriptor b l t p)\<lparr>gdt_present := q\<rparr> = descriptor b l t q"
  by (simp add: descriptor_def)

lemma inv_switch:
  assumes inv: "x86_inv config x stacks seen"
  shows "x86_inv config (ja_space_switch sid x) stacks (insert sid seen)"
proof -
  let ?y = "ja_space_switch sid x"
  have same: "ja_spaces ?y = ja_spaces x" "current_space_id ?y = sid" "space_of ?y i = space_of x i" for i
    by (simp_all add: ja_space_switch_def Let_def space_of_def)
  have seg: "segments i s (if i = sid \<or> i \<notin> insert sid seen then 1 else 0) (pok_gdt ?y)"
    if "segments i s (if i = current_space_id x \<or> i \<notin> seen then 1 else 0) (pok_gdt x)" "i \<in> {1..length config}" for i s
  proof -
    have cur: "current_space_id x = 0 \<or> current_space_id x \<in> seen" using inv by (simp add: x86_inv_def)
    have i: "i \<noteq> 0" using that(2) by auto
    have d: "GDT_PARTITION_CODE_SEGMENT a = GDT_PARTITION_CODE_SEGMENT b \<longleftrightarrow> a = b"
      "GDT_PARTITION_DATA_SEGMENT a = GDT_PARTITION_DATA_SEGMENT b \<longleftrightarrow> a = b"
      "GDT_PARTITION_CODE_SEGMENT a \<noteq> GDT_PARTITION_DATA_SEGMENT b" "GDT_PARTITION_DATA_SEGMENT b \<noteq> GDT_PARTITION_CODE_SEGMENT a" for a b
      by (simp_all add: GDT_PARTITION_CODE_SEGMENT_def GDT_PARTITION_DATA_SEGMENT_def) presburger+
    show ?thesis
      using that(1) cur i unfolding segments_def ja_space_switch_def Let_def gdt_enable_def gdt_disable_def
      by (cases "i = sid"; cases "i = current_space_id x"; cases "current_space_id x = 0"; cases "sid = 0")
        (auto simp: d descriptor_present)
  qed
  show ?thesis
    unfolding x86_inv_def same
  proof (intro conjI ballI)
    show "map (\<lambda>s. s\<lparr>size_stack_used := 0\<rparr>) (ja_spaces x) = placed POK_PARTITION_MEMORY_PHYS_START config"
      "sid = 0 \<or> sid \<in> insert sid seen"
      using inv by (simp_all add: x86_inv_def)
    fix i assume i: "i \<in> {1..length config}"
    note this_inv = inv [unfolded x86_inv_def, THEN conjunct2, THEN conjunct1, rule_format, OF i]
    show "size_stack_used (space_of x i) \<le> size_stack (space_of x i)"
      "sane_stacks (size_stack (space_of x i)) (stacks i)
        \<longrightarrow> stacks_in (size_total (space_of x i)) (size_stack_used (space_of x i)) (stacks i)"
      using this_inv by simp_all
    show "segments i (space_of x i) (if i = sid \<or> i \<notin> insert sid seen then 1 else 0) (pok_gdt ?y)"
      by (rule seg [OF _ i]) (use this_inv in simp)
  qed
qed

lemma alloc_outcome:
  assumes inv: "x86_inv config x stacks seen" and ok: "config_ok config" and sid: "sid \<in> {1..length config}"
  shows "ja_ustack_alloc sid sz x =
    (let new = (size_stack_used (space_of x sid) + align32 sz 16) mod 2 ^ 32 in
     if new > size_stack (space_of x sid) then Some (0, x)
     else Some (size_total (space_of x sid) - size_stack_used (space_of x sid),
       upd_space sid (\<lambda>s. s\<lparr>size_stack_used := new\<rparr>) x))"
proof -
  let ?s = "space_of x sid"
  have u: "size_stack_used ?s \<le> size_stack ?s" using inv sid by (simp add: x86_inv_def)
  have t: "size_total ?s < 2 ^ 32" "size_stack ?s \<le> size_total ?s" using space_facts(7,9) [OF inv ok sid] by linarith+
  have r: "sub32 (size_total ?s) (size_stack_used ?s) = size_total ?s - size_stack_used ?s"
    by (rule sub32_le) (use t u in linarith)+
  show ?thesis using sid by (simp add: ja_ustack_alloc_def Let_def r POK_PARTITION_MEMORY_BASE_def w32_def)
qed

text \<open>The sum of a request and the used part wraps only for a request that is not sane.\<close>

lemma stack_sum:
  assumes "used \<le> n" "ALIGN_VAL sz 16 + n < 2 ^ 32"
  shows "(used + align32 sz 16) mod 2 ^ 32 = used + ALIGN_VAL sz 16"
proof -
  have "align32 sz 16 = ALIGN_VAL sz 16" unfolding align32_def by (rule w32_small) (use assms in linarith)
  then show ?thesis using assms by simp
qed

lemma x86_life_inv: "x86_life config x stacks seen \<Longrightarrow> config_ok config \<Longrightarrow> x86_inv config x stacks seen"
proof (induction rule: x86_life.induct)
  case (boot x y)
  then have "list_all base_ok config" "foldl next_start POK_PARTITION_MEMORY_PHYS_START config < 2 ^ 32"
    by (simp_all add: config_ok_def)
  from init_loop_placed [of x "[]" config POK_PARTITION_MEMORY_PHYS_START, OF _ _ this] boot
  have y: "ja_spaces y = placed POK_PARTITION_MEMORY_PHYS_START config" "current_space_id y = 0"
    "\<forall>j < length config. segments (j + 1) (placed POK_PARTITION_MEMORY_PHYS_START config ! j) 1 (pok_gdt y)"
    by (auto simp: ja_space_init_def ja_spaces_n_def POK_PARTITION_MEMORY_PHYS_START_def)
  have z: "size_stack_used s = 0" if "s \<in> set (placed p ss)" "list_all (\<lambda>s. size_stack_used s = 0) ss" for s p ss
    using that by (induction ss arbitrary: p) (auto simp: place_space_def)
  have zero: "\<forall>s \<in> set (ja_spaces y). size_stack_used s = 0" using boot.prems y(1) by (auto simp: config_ok_def dest: z)
  then have m: "map (\<lambda>s. s\<lparr>size_stack_used := 0\<rparr>) (ja_spaces y) = ja_spaces y" by (intro map_idI) simp
  have "size_stack_used (space_of y sid) = 0 \<and> segments sid (space_of y sid) 1 (pok_gdt y)" if sid: "sid \<in> {1..length config}" for sid
  proof -
    define k where "k = sid - 1"
    have k: "k < length config" "sid = k + 1" using sid by (auto simp: k_def)
    show ?thesis using y k zero by (auto simp: space_of_def)
  qed
  then show ?case using y m by (simp add: x86_inv_def)
next
  case (restart x stacks seen sid y)
  then have sid: "sid \<in> {1..length config}" and y: "y = upd_space sid (\<lambda>s. s\<lparr>size_stack_used := 0\<rparr>) x"
    by (auto simp: ja_ustack_init_def split: if_splits)
  from restart show ?case unfolding y by (intro inv_upd_stack sid) auto
next
  case (alloc x stacks seen sid sz a y)
  let ?s = "space_of x sid"
  have inv: "x86_inv config x stacks seen" using alloc by simp
  have sid: "sid \<in> {1..length config}" using alloc.hyps(2,4) by (auto simp: ja_ustack_alloc_def split: if_splits)
  have st: "sane_stacks (size_stack ?s) (stacks sid) \<longrightarrow> stacks_in (size_total ?s) (size_stack_used ?s) (stacks sid)"
    and u: "size_stack_used ?s \<le> size_stack ?s" using inv sid by (simp_all add: x86_inv_def)
  let ?new = "(size_stack_used ?s + align32 sz 16) mod 2 ^ 32"
  note out = alloc_outcome [OF inv alloc.prems sid, of sz]
  show ?case
  proof (cases "size_stack ?s < ?new")
    case True
    with out alloc.hyps(4) inv show ?thesis by (auto simp: Let_def)
  next
    case False
    with out alloc.hyps(4) have a: "a = size_total ?s - size_stack_used ?s"
      "y = upd_space sid (\<lambda>s. s\<lparr>size_stack_used := ?new\<rparr>) x"
      by (simp_all add: Let_def)
    show ?thesis
    proof (cases "a = 0 \<and> y = x")
      case True
      then show ?thesis using inv by simp
    next
      case got: False
      have "stacks_in (size_total ?s) ?new ((a, ALIGN_VAL sz 16) # stacks sid)"
        if sane: "sane_stacks (size_stack ?s) ((a, ALIGN_VAL sz 16) # stacks sid)"
      proof -
        have "?new = size_stack_used ?s + ALIGN_VAL sz 16"
          by (rule stack_sum [OF u]) (use sane in \<open>simp add: sane_stacks_def\<close>)
        then show ?thesis using st sane a by (simp add: sane_stacks_def)
      qed
      then show ?thesis unfolding a(2) [symmetric] if_not_P [OF got]
        by (subst a(2), intro inv_upd_stack [OF inv sid]) (use False in auto)
    qed
  qed
next
  case (switch x stacks seen sid)
  then show ?case by (intro inv_switch) simp
qed

subsection \<open>Pointers\<close>

definition x86_valid :: "nat \<Rightarrow> x86_spaces \<Rightarrow> bool" where
  "x86_valid sid x \<longleftrightarrow> (\<exists>config stacks seen. config_ok config \<and> x86_life config x stacks seen \<and> sid \<in> {1..length config})"

text \<open>The addresses of the code, the data and the heap, and of the stacks given out.\<close>

definition x86_owned :: "nat \<Rightarrow> x86_spaces \<Rightarrow> nat set" where
  "x86_owned sid x = (let s = space_of x sid in {..<heap_end s} \<union> {size_total s - size_stack_used s..<size_total s})"

definition x86_place :: "nat \<Rightarrow> x86_spaces \<Rightarrow> nat \<Rightarrow> nat" where
  "x86_place sid x a = phys_base (space_of x sid) + a"

definition chunk :: "nat \<Rightarrow> x86_spaces \<Rightarrow> nat set" where
  "chunk sid x = {phys_base (space_of x sid)..<phys_base (space_of x sid) + size_total (space_of x sid)}"

lemma to_kernel_exact:
  assumes inv: "x86_inv config x stacks seen" and ok: "config_ok config" and sid: "sid \<in> {1..length config}"
    and sz: "0 < sz" "sz < 2 ^ 32"
  shows "ja_user_to_kernel_space addr sz sid x = Some
    (if addr + sz \<le> heap_end (space_of x sid)
        \<or> size_total (space_of x sid) - size_stack_used (space_of x sid) \<le> addr \<and> addr + sz \<le> size_total (space_of x sid)
     then phys_base (space_of x sid) + addr else 0)"
proof -
  let ?s = "space_of x sid"
  note f = space_facts [OF inv ok sid]
  have u: "size_stack_used ?s \<le> size_stack ?s" using inv sid by (simp add: x86_inv_def)
  have t: "size_total ?s < 2 ^ 32" "heap_end ?s < 2 ^ 32" "size_stack_used ?s \<le> size_total ?s" "0 < phys_base ?s"
    using f(7-9) u by (auto simp: POK_PARTITION_MEMORY_PHYS_START_def)
  have m: "(size_total ?s + 2 ^ 64 - size_stack_used ?s) mod 2 ^ 64 = size_total ?s - size_stack_used ?s"
  proof -
    have "size_total ?s + 2 ^ 64 - size_stack_used ?s = (size_total ?s - size_stack_used ?s) + 2 ^ 64" using t by linarith
    moreover have "(size_total ?s - size_stack_used ?s) mod 2 ^ 64 = size_total ?s - size_stack_used ?s"
      using t(1) by (intro mod_less) simp
    ultimately show ?thesis by (simp only: mod_add_self2)
  qed
  let ?in = "addr + sz \<le> heap_end ?s \<or> size_total ?s - size_stack_used ?s \<le> addr \<and> addr + sz \<le> size_total ?s"
  have access: "x86_check_access addr sz sid x = Some ?in"
  proof (cases "addr + sz < 2 ^ 32")
    case True
    then have "w32 (addr + sz) = addr + sz" by (rule w32_small)
    with sid sz(1) m show ?thesis
      by (auto simp: x86_check_access_def Let_def POK_PARTITION_MEMORY_BASE_def)
  next
    case False
    have "w32 (addr + sz) < addr"
    proof (cases "addr < 2 ^ 32")
      case True
      with False sz(2) show ?thesis by (simp add: w32_add_carry)
    qed (use w32_less [of "addr + sz"] in linarith)
    with False sid sz(1) t show ?thesis by (auto simp: x86_check_access_def Let_def)
  qed
  have shift: "sub32 addr (sub32 0 (phys_base ?s)) = phys_base ?s + addr" if ?in
  proof -
    have "phys_base ?s + addr < 2 ^ 32" using that sz(1) f(7,9) by linarith
    moreover have "sub32 0 (phys_base ?s) = 2 ^ 32 - phys_base ?s"
      unfolding sub32_def using t(4) by (simp add: w32_def)
    moreover have "addr + 2 ^ 32 - (2 ^ 32 - phys_base ?s) = phys_base ?s + addr" using f(7) by linarith
    ultimately show ?thesis by (simp only: sub32_def w32_small)
  qed
  show ?thesis
  proof (cases ?in)
    case True
    have "user_space_shift sid x = Some (sub32 0 (phys_base ?s))"
      using sid by (simp add: user_space_shift_def POK_PARTITION_MEMORY_BASE_def)
    then show ?thesis
      unfolding ja_user_to_kernel_space_def access if_P [OF True] by (simp only: bind.bind_lunit True if_True shift [OF True])
  next
    case False
    then show ?thesis
      unfolding ja_user_to_kernel_space_def access if_not_P [OF False] by (simp only: bind.bind_lunit if_False)
  qed
qed

interpretation x86: user_pointers x86_valid ja_user_to_kernel_space x86_owned x86_place
proof
  fix sid x addr sz k i
  assume v: "x86_valid sid x" and k: "ja_user_to_kernel_space addr sz sid x = Some k" "k \<noteq> 0" and i: "sz < 2 ^ 32" "i < sz"
  from v obtain config stacks seen where c: "config_ok config" "x86_life config x stacks seen" "sid \<in> {1..length config}"
    by (auto simp: x86_valid_def)
  from to_kernel_exact [OF x86_life_inv [OF c(2,1)] c(1,3), of sz addr] k i
  show "addr + i \<in> x86_owned sid x \<and> x86_place sid x (addr + i) = k + i"
    by (auto simp: x86_owned_def x86_place_def Let_def split: if_splits)
qed (simp add: x86_place_def inj_on_def)

lemma place_owned:
  assumes "x86_inv config x stacks seen" "config_ok config" "sid \<in> {1..length config}"
  shows "x86_place sid x ` x86_owned sid x \<subseteq> chunk sid x"
  using space_facts(9) [OF assms] by (auto simp: x86_place_def x86_owned_def chunk_def Let_def)

lemma base_after:
  assumes "x86_inv config x stacks seen" "config_ok config" "i \<in> {1..length config}" "j \<in> {1..<i}"
    "phys_base (config ! (i - 1)) = 0"
  shows "phys_base (space_of x j) + size_total (space_of x j) \<le> phys_base (space_of x i)"
proof -
  have j: "j \<in> {1..length config}" "j - 1 < length config" "j - 1 < i - 1" "i - 1 \<le> length config" using assms(3,4) by auto
  have "phys_base (placed POK_PARTITION_MEMORY_PHYS_START config ! (j - 1)) + size_total (placed POK_PARTITION_MEMORY_PHYS_START config ! (j - 1))
      \<le> foldl next_start POK_PARTITION_MEMORY_PHYS_START (take (i - 1) config)"
    by (rule placed_ends [OF j(3,4)])
  also have "\<dots> = phys_base (space_of x i)" using space_facts(6) [OF assms(1-3)] assms(5) by (simp only: simp_thms if_True)
  finally show ?thesis
    unfolding placed_nth [OF j(2)] place_space_def space_facts(1,6) [OF assms(1,2) j(1)] by (simp split: if_splits)
qed

lemma chunks_apart:
  assumes "x86_inv config x stacks seen" "config_ok config" "i \<in> {1..length config}" "j \<in> {1..length config}" "i \<noteq> j"
    "list_all (\<lambda>s. phys_base s = 0) config"
  shows "chunk i x \<inter> chunk j x = {}"
proof -
  have z: "phys_base (config ! (k - 1)) = 0" if "k \<in> {1..length config}" for k
    using assms(6) that by (auto simp: list_all_length)
  show ?thesis
  proof (cases "i < j")
    case True
    then show ?thesis using base_after [OF assms(1,2,4) _ z [OF assms(4)], of i] assms(3) by (auto simp: chunk_def)
  next
    case False
    then show ?thesis using base_after [OF assms(1-3) _ z [OF assms(3)], of j] assms(4,5) by (auto simp: chunk_def)
  qed
qed

subsection \<open>What user code reaches\<close>

text \<open>
  How the processor reads a descriptor: the base, and the last offset that is valid, in units of one
  byte or of 4096. User code may load a segment whose level is 3 if it is marked as present.
\<close>

definition segment_base :: "gdt_entry_t \<Rightarrow> nat" where
  "segment_base e = base_low e + 2 ^ 24 * base_high e"

definition segment_limit :: "gdt_entry_t \<Rightarrow> nat" where
  "segment_limit e = (let l = limit_low e + 2 ^ 16 * limit_high e in if granularity e = 1 then l * 4096 + 4095 else l)"

definition user_reaches :: "nat \<Rightarrow> nat \<Rightarrow> x86_spaces \<Rightarrow> bool" where
  "user_reaches sid p x =
     (let e = pok_gdt x (GDT_PARTITION_DATA_SEGMENT sid) in
      gdt_present e = 1 \<and> dpl e = 3 \<and> segment_base e \<le> p \<and> p \<le> segment_base e + segment_limit e)"

lemma and_mask_nat: "x AND 0xFFFF = x mod 2 ^ 16" "x AND 0xFFFFFF = x mod 2 ^ 24" "x AND 0xFF = x mod 2 ^ 8" "x AND 0xF = x mod 2 ^ 4" for x :: nat
  using take_bit_eq_mask [of 16 x] take_bit_eq_mask [of 24 x] take_bit_eq_mask [of 8 x] take_bit_eq_mask [of 4 x]
  by (simp_all add: take_bit_eq_mod mask_eq_exp_minus_1)

lemma descriptor_base: "b < 2 ^ 32 \<Longrightarrow> segment_base (descriptor b l t p) = b"
proof -
  assume b: "b < 2 ^ 32"
  have "segment_base (descriptor b l t p) = b mod 2 ^ 24 + 2 ^ 24 * (b div 2 ^ 24 mod 2 ^ 8)"
    by (simp add: segment_base_def descriptor_def gdt_set_segment_def Let_def and_mask_nat take_bit_eq_mod drop_bit_eq_div)
  also have "b div 2 ^ 24 mod 2 ^ 8 = b div 2 ^ 24" using b by (intro mod_less) (simp add: div_less_iff_less_mult)
  finally show ?thesis by simp
qed

lemma descriptor_limit:
  assumes "l < 2 ^ 32"
  shows "segment_limit (descriptor b l t p) = (if l > 2 ^ 20 then l div 4096 * 4096 + 4095 else if l = 2 ^ 20 then 0 else l)"
proof (cases "l > 2 ^ 20")
  case True
  have "segment_limit (descriptor b l t p) = (l div 2 ^ 12 mod 2 ^ 16 + 2 ^ 16 * (l div 2 ^ 28 mod 2 ^ 4)) * 4096 + 4095"
    using True by (simp add: segment_limit_def descriptor_def gdt_set_segment_def Let_def and_mask_nat take_bit_eq_mod drop_bit_eq_div)
  also have "l div 2 ^ 28 mod 2 ^ 4 = l div 2 ^ 12 div 2 ^ 16"
    using assms by (subst mod_less) (simp_all add: div_less_iff_less_mult div_mult2_eq flip: )
  finally show ?thesis using True by simp
next
  case False
  have "segment_limit (descriptor b l t p) = l mod 2 ^ 16 + 2 ^ 16 * (l div 2 ^ 16 mod 2 ^ 4)"
    using False by (simp add: segment_limit_def descriptor_def gdt_set_segment_def Let_def and_mask_nat take_bit_eq_mod drop_bit_eq_div mod_mod_cancel)
  moreover have "l div 2 ^ 16 mod 2 ^ 4 = (if l = 2 ^ 20 then 0 else l div 2 ^ 16)"
    using False by (auto simp: div_less_iff_less_mult)
  ultimately show ?thesis using False by auto
qed

lemma descriptor_level [simp]: "dpl (descriptor b l t p) = 3" "gdt_present (descriptor b l t p) = p"
  by (simp_all add: descriptor_def gdt_set_segment_def Let_def)

lemma base_next:
  assumes "x86_inv config x stacks seen" "config_ok config" "sid \<in> {1..length config}" "Suc sid \<le> length config"
    "list_all (\<lambda>s. phys_base s = 0) config"
  shows "phys_base (space_of x (Suc sid)) = phys_base (space_of x sid) + size_total (space_of x sid)"
proof -
  have i: "sid - 1 < length config" "Suc (sid - 1) = sid" using assms(3) by auto
  have z: "phys_base (config ! k) = 0" if "k < length config" for k using assms(5) that by (auto simp: list_all_length)
  have "foldl next_start p (take sid config) = foldl next_start p (take (sid - 1) config) + space_extent (config ! (sid - 1))" for p
    using take_Suc_conv_app_nth [OF i(1)] z [OF i(1)] by (simp only: i(2) foldl_append foldl.simps next_start_def if_True simp_thms)
  then show ?thesis
    using space_facts(6) [OF assms(1-3)] space_facts(6) [OF assms(1,2), of "Suc sid"] space_facts(1) [OF assms(1-3)]
      z [OF i(1)] z [of sid] assms(4) by simp
qed

subsection \<open>Properties\<close>

lemma ja_space_init_inv:
  assumes "config_ok (ja_spaces x)"
  shows "\<exists>y. ja_space_init x = Some y"
  using init_loop_placed [of x "[]" "ja_spaces x" POK_PARTITION_MEMORY_PHYS_START] assms
  by (auto simp: ja_space_init_def ja_spaces_n_def POK_PARTITION_MEMORY_PHYS_START_def config_ok_def)

text \<open>The two assertions on an address that the configuration fixes.\<close>

lemma init_loop_assertions:
  "distinct is \<Longrightarrow> (\<forall>i \<in> set is. i < length (ja_spaces x)) \<Longrightarrow>
   ja_space_init_loop is p x = None \<longleftrightarrow> (\<exists>i \<in> set is. \<not> base_ok (ja_spaces x ! i))"
proof (induction "is" arbitrary: p x)
  case (Cons i "is")
  have same: "phys_base (set_sizes s) = phys_base s" for s by (simp add: set_sizes_def Let_def)
  have rest: "ja_space_init_loop is q (ja_space_create k b n (x\<lparr>ja_spaces := (ja_spaces x)[i := s]\<rparr>)) = None
      \<longleftrightarrow> (\<exists>j \<in> set is. \<not> base_ok (ja_spaces x ! j))" for q k b n s
    using Cons.prems by (subst Cons.IH) (auto simp: ja_space_create_def nth_list_update)
  show ?case using rest by (auto simp: Let_def same base_ok_def low_bits)
qed simp

lemma ja_space_init_assertions: "ja_space_init x = None \<longleftrightarrow> \<not> list_all base_ok (ja_spaces x)"
  unfolding ja_space_init_def
  by (subst init_loop_assertions) (auto simp: ja_spaces_n_def list_all_length)

lemma init_layout:
  assumes "config_ok (ja_spaces x)" "current_space_id x = 0"
  shows "\<exists>y. ja_space_init x = Some y \<and> ja_spaces_n y = ja_spaces_n x \<and>
    (\<forall>sid \<in> {1..ja_spaces_n x}. let s = space_of y sid; c = space_of x sid in
       size_normal s = size_normal c \<and> size_heap s = size_heap c \<and> size_stack s = size_stack c
     \<and> size_normal s \<le> ja_space_get_heap sid y \<and> ja_space_get_heap sid y + size_heap s = heap_end s
     \<and> heap_end s + size_stack s \<le> size_total s \<and> 4096 dvd size_total s \<and> 4096 dvd phys_base s
     \<and> POK_PARTITION_MEMORY_PHYS_START \<le> phys_base s \<and> phys_base s + size_total s < 2 ^ 32
     \<and> (if phys_base c = 0 then \<forall>j \<in> {1..<sid}. phys_base (space_of y j) + size_total (space_of y j) \<le> phys_base s
        else phys_base s = phys_base c)
     \<and> ja_space_layout_get sid y = Some \<lparr>kernel_addr = phys_base s, user_addr = 0, layout_size = size_normal c\<rparr>)"
proof -
  obtain y where y: "ja_space_init x = Some y" using ja_space_init_inv [OF assms(1)] by blast
  have life: "x86_life (ja_spaces x) y (\<lambda>_. []) {}" using assms(2) y by (intro x86_life.boot) auto
  note inv = x86_life_inv [OF life assms(1)]
  have n: "ja_spaces_n y = ja_spaces_n x" if "sid \<in> {1..ja_spaces_n x}" for sid
    using space_of_placed(2) [OF inv, of sid] that by (simp add: ja_spaces_n_def)
  have n': "ja_spaces_n y = ja_spaces_n x"
  proof (cases "ja_spaces_n x")
    case 0
    then show ?thesis using y by (simp add: ja_space_init_def)
  qed (use n [of 1] in simp)
  show ?thesis
  proof (intro exI [of _ y] conjI ballI y n')
    fix sid assume "sid \<in> {1..ja_spaces_n x}"
    then have sid: "sid \<in> {1..length (ja_spaces x)}" by (simp add: ja_spaces_n_def)
    note f = space_facts [OF inv assms(1) sid]
    have c: "space_of x sid = ja_spaces x ! (sid - 1)" by (simp add: space_of_def)
    have "ja_space_get_heap sid y = heap_end (space_of y sid) - size_heap (space_of y sid)"
      unfolding ja_space_get_heap_def by (rule sub32_le) (use f(7,9,10) in linarith)+
    moreover have "(if phys_base (ja_spaces x ! (sid - 1)) = 0
        then \<forall>j \<in> {1..<sid}. phys_base (space_of y j) + size_total (space_of y j) \<le> phys_base (space_of y sid)
        else phys_base (space_of y sid) = phys_base (ja_spaces x ! (sid - 1)))"
      using f(6) base_after [OF inv assms(1) sid] by (cases "phys_base (ja_spaces x ! (sid - 1)) = 0") simp_all
    moreover have "ja_space_layout_get sid y = Some \<lparr>kernel_addr = phys_base (space_of y sid), user_addr = 0,
        layout_size = size_normal (space_of y sid)\<rparr>"
      using sid n' by (simp add: ja_space_layout_get_def ja_spaces_n_def POK_PARTITION_MEMORY_BASE_def)
    moreover note f(3-5,7-12)
    ultimately show "let s = space_of y sid; c = space_of x sid in
       size_normal s = size_normal c \<and> size_heap s = size_heap c \<and> size_stack s = size_stack c
     \<and> size_normal s \<le> ja_space_get_heap sid y \<and> ja_space_get_heap sid y + size_heap s = heap_end s
     \<and> heap_end s + size_stack s \<le> size_total s \<and> 4096 dvd size_total s \<and> 4096 dvd phys_base s
     \<and> POK_PARTITION_MEMORY_PHYS_START \<le> phys_base s \<and> phys_base s + size_total s < 2 ^ 32
     \<and> (if phys_base c = 0 then \<forall>j \<in> {1..<sid}. phys_base (space_of y j) + size_total (space_of y j) \<le> phys_base s
        else phys_base s = phys_base c)
     \<and> ja_space_layout_get sid y = Some \<lparr>kernel_addr = phys_base s, user_addr = 0, layout_size = size_normal c\<rparr>"
      unfolding Let_def c by (intro conjI) (assumption | linarith | simp only:)+
  qed
qed




text \<open>
  C37: what user code reaches through the segment of a space, in every order of operations. A segment is
  marked as present if its space is the current one, but also as long as its space has never been
  switched to. It begins where the chunk does, but its limit is the size: it ends one byte behind the
  chunk, or one page for chunks above 1 MB (with a chunk of exactly 1 MB it has one byte only). So the
  partition that runs always reaches the first byte of the next one, which is its shared data with
  the kernel.
\<close>

theorem segments_reach_too_far:
  assumes "config_ok config" "x86_life config x stacks seen" "sid \<in> {1..length config}"
  shows "(user_reaches sid p x \<longleftrightarrow> (sid = current_space_id x \<or> sid \<notin> seen) \<and> phys_base (space_of x sid) \<le> p
      \<and> p \<le> phys_base (space_of x sid)
            + (if size_total (space_of x sid) > 2 ^ 20 then size_total (space_of x sid) + 4095
               else if size_total (space_of x sid) = 2 ^ 20 then 0 else size_total (space_of x sid)))
    \<and> (sid = current_space_id x \<and> sid < length config \<and> list_all (\<lambda>s. phys_base s = 0) config
         \<and> size_total (space_of x sid) \<noteq> 2 ^ 20
       \<longrightarrow> user_reaches sid (ja_space_shared_data (Suc sid) x) x)"
proof -
  note inv = x86_life_inv [OF assms(2,1)]
  note f = space_facts [OF inv assms(1,3)]
  let ?s = "space_of x sid"
  have "segments sid ?s (if sid = current_space_id x \<or> sid \<notin> seen then 1 else 0) (pok_gdt x)"
    using inv assms(3) by (simp add: x86_inv_def)
  then have e: "pok_gdt x (GDT_PARTITION_DATA_SEGMENT sid)
      = descriptor (phys_base ?s) (size_total ?s) GDTE_DATA (if sid = current_space_id x \<or> sid \<notin> seen then 1 else 0)"
    by (simp add: segments_def)
  have b: "phys_base ?s < 2 ^ 32" "size_total ?s < 2 ^ 32" using f(7) by linarith+
  have page: "size_total ?s div 4096 * 4096 = size_total ?s" using f(11) by simp
  have reach: "user_reaches sid p x \<longleftrightarrow> (sid = current_space_id x \<or> sid \<notin> seen) \<and> phys_base ?s \<le> p
      \<and> p \<le> phys_base ?s
            + (if size_total ?s > 2 ^ 20 then size_total ?s + 4095 else if size_total ?s = 2 ^ 20 then 0 else size_total ?s)" for p
    unfolding user_reaches_def Let_def e descriptor_level descriptor_base [OF b(1)] descriptor_limit [OF b(2)] page by auto
  have "user_reaches sid (ja_space_shared_data (Suc sid) x) x"
    if "sid = current_space_id x" "sid < length config" "list_all (\<lambda>s. phys_base s = 0) config" "size_total ?s \<noteq> 2 ^ 20"
    using base_next [OF inv assms(1,3) _ that(3)] that(1,2,4) unfolding reach ja_space_shared_data_def by simp
  with reach show ?thesis by blast
qed

subsection \<open>Two partitions\<close>

definition example_spaces :: "ja_x86_space list" where
  "example_spaces =
     [\<lparr>phys_base = 0, size_normal = 20480, size_heap = 4096, size_stack = 8192, size_total = 0, heap_end = 0, size_stack_used = 0\<rparr>,
      \<lparr>phys_base = 0, size_normal = 2097152, size_heap = 0, size_stack = 4096, size_total = 0, heap_end = 0, size_stack_used = 0\<rparr>]"

definition example_boot :: x86_spaces where
  "example_boot = \<lparr>ja_spaces = example_spaces, pok_gdt = (\<lambda>_. descriptor 0 0 GDTE_DATA 0), current_space_id = 0\<rparr>"

definition example_stacks :: "nat \<Rightarrow> (nat \<times> nat) list" where
  "example_stacks = (\<lambda>_. [])(1 := [(32768, 4000)])"

lemma example_config: "config_ok example_spaces"
  by (simp add: config_ok_def example_spaces_def base_ok_def next_start_def space_extent_def heap_extent_def
      ALIGN_VAL_16 ALIGN_VAL_page POK_PARTITION_MEMORY_PHYS_START_def)

lemma example_sizes:
  assumes "x86_inv example_spaces x stacks seen"
  shows "phys_base (space_of x 1) = 16777216" "size_total (space_of x 1) = 32768" "heap_end (space_of x 1) = 24576"
    "size_stack (space_of x 1) = 8192" "phys_base (space_of x 2) = 16809984"
  using space_facts [OF assms example_config, of 1] space_facts [OF assms example_config, of 2]
  by (simp_all add: example_spaces_def next_start_def space_extent_def heap_extent_def
      ALIGN_VAL_16 ALIGN_VAL_page POK_PARTITION_MEMORY_PHYS_START_def)

text \<open>Both partitions have run, now the first one runs and has one stack.\<close>

lemma example_life:
  "\<exists>x. x86_life example_spaces x example_stacks {1, 2} \<and> current_space_id x = 1 \<and> size_stack_used (space_of x 1) = 4000"
proof -
  have "config_ok (ja_spaces example_boot)" using example_config by (simp add: example_boot_def)
  then obtain y where y: "ja_space_init example_boot = Some y" using ja_space_init_inv by blast
  have l0: "x86_life example_spaces y (\<lambda>_. []) {}" using y by (intro x86_life.boot) (auto simp: example_boot_def)
  note i0 = x86_life_inv [OF l0 example_config]
  have u0: "size_stack_used (space_of y 1) = 0"
    using i0 by (auto simp: x86_inv_def example_spaces_def sane_stacks_def)
  define z where "z = upd_space 1 (\<lambda>s. s\<lparr>size_stack_used := 4000\<rparr>) y"
  have a: "ja_ustack_alloc 1 4000 y = Some (32768, z)"
    using alloc_outcome [OF i0 example_config, of 1 4000] example_sizes [OF i0]
    by (simp add: example_spaces_def u0 [unfolded One_nat_def] align32_def ALIGN_VAL_16 z_def Let_def)
  have l1: "x86_life example_spaces z example_stacks {}"
    using x86_life.alloc [OF l0 _ _ a] example_sizes [OF i0]
    by (simp add: example_spaces_def ALIGN_VAL_16 example_stacks_def)
  have l2: "x86_life example_spaces (ja_space_switch 1 (ja_space_switch 2 z)) example_stacks {1, 2}"
    using x86_life.switch [OF x86_life.switch [OF l1, of 2], of 1] by (simp add: example_spaces_def)
  have "size_stack_used (space_of z 1) = 4000"
    using space_of_upd [of 1 y 1 "\<lambda>s. s\<lparr>size_stack_used := 4000\<rparr>"] space_of_placed(2) [OF i0, of 1]
    by (simp add: z_def example_spaces_def)
  then show ?thesis using l2 by (intro exI [of _ "ja_space_switch 1 (ja_space_switch 2 z)"]) (simp add: ja_space_switch_def Let_def space_of_def)
qed




theorem segments_reach_too_far_witness:
  "\<exists>x. x86_life example_spaces x example_stacks {1, 2} \<and> current_space_id x = 1
     \<and> ja_space_shared_data 2 x = 16809984 \<and> user_reaches 1 16809984 x \<and> \<not> user_reaches 1 16809985 x"
proof -
  obtain x where x: "x86_life example_spaces x example_stacks {1, 2}" "current_space_id x = 1"
    using example_life by blast
  note s = example_sizes [OF x86_life_inv [OF x(1) example_config], unfolded One_nat_def]
  have one: "1 \<in> {1..length example_spaces}" by (simp add: example_spaces_def)
  note t = segments_reach_too_far [OF example_config x(1) one]
  from t [of 16809984] t [of 16809985] show ?thesis
    using x by (auto simp: s ja_space_shared_data_def)
qed

end
