(* ===== verification/Loader.thy ===== *)
theory Loader
  imports SpaceX86 ArincState
begin

section \<open>Loading a partition\<close>

text \<open>
  \<open>jet_loader_elf_load\<close> (\<open>kernel/core/loader.c\<close>) copies the program of a partition from the archive of
  ELF files, which is part of the kernel's image, into the space of the partition, at its first start
  and at each restart. The archive is read through memory with the byte order \<open>le\<close>. \<open>pok_raise_error\<close> is
  kept as a list of the errors raised; the function goes on after it, as it does where the action
  for the error returns. Pointers and sizes have 32 bits; a failed assertion is \<open>None\<close>.
\<close>

record loader =
  contents :: net_mem
  raised :: "pok_error_id list"

record Elf32_Phdr =
  p_offset :: nat
  p_vaddr :: nat
  p_filesz :: nat
  p_memsz :: nat

definition e_ident :: "net_mem \<Rightarrow> nat \<Rightarrow> 8 word list" where
  "e_ident m elf = read_bytes m elf 4"

definition e_entry :: "bool \<Rightarrow> net_mem \<Rightarrow> nat \<Rightarrow> nat" where
  "e_entry le m elf = unat (load32 le m (elf + 24))"

definition e_phoff :: "bool \<Rightarrow> net_mem \<Rightarrow> nat \<Rightarrow> nat" where
  "e_phoff le m elf = unat (load32 le m (elf + 28))"

definition e_phnum :: "bool \<Rightarrow> net_mem \<Rightarrow> nat \<Rightarrow> nat" where
  "e_phnum le m elf = unat (load16 le m (elf + 44))"

definition elf_phdr :: "bool \<Rightarrow> net_mem \<Rightarrow> nat \<Rightarrow> nat \<Rightarrow> Elf32_Phdr" where
  "elf_phdr le m elf i =
     (let p = w32 (elf + e_phoff le m elf) + 32 * i in
      \<lparr>p_offset = unat (load32 le m (p + 4)), p_vaddr = unat (load32 le m (p + 8)),
       p_filesz = unat (load32 le m (p + 16)), p_memsz = unat (load32 le m (p + 20))\<rparr>)"

definition raise_load_error :: "pok_error_id \<Rightarrow> loader \<Rightarrow> loader" where
  "raise_load_error e s = s\<lparr>raised := raised s @ [e]\<rparr>"

text \<open>One round of the first loop, which finds the last address of the program.\<close>

definition check_phdr :: "jet_space_layout \<Rightarrow> Elf32_Phdr \<Rightarrow> nat \<times> loader \<Rightarrow> nat \<times> loader" where
  "check_phdr layout ph acc =
     (let (elf_end_user, s) = acc;
          user_dest = p_vaddr ph;
          s = (if p_filesz ph > p_memsz ph then raise_load_error POK_ERROR_ID_PARTLOAD_ERROR s else s);
          s = (if user_dest < user_addr layout then raise_load_error POK_ERROR_ID_PARTLOAD_ERROR s else s);
          elf_section_end_user = w32 (user_dest + p_memsz ph)
      in (if elf_end_user < elf_section_end_user then elf_section_end_user else elf_end_user, s))"

text \<open>One round of the second loop, which copies.\<close>

definition load_phdr :: "nat \<Rightarrow> jet_space_layout \<Rightarrow> Elf32_Phdr \<Rightarrow> loader \<Rightarrow> loader option" where
  "load_phdr elf_start layout ph s =
     (let user_dest = p_vaddr ph;
          limit = w32 (user_addr layout + layout_size layout)
      in if \<not> (user_dest \<ge> user_addr layout \<and> w32 (user_dest + p_filesz ph) \<le> limit \<and> w32 (user_dest + p_memsz ph) \<le> limit)
         then None
         else
           (let kernel_dest = w32 (kernel_addr layout + (user_dest - user_addr layout));
                m = write_bytes kernel_dest (read_bytes (contents s) (w32 (p_offset ph + elf_start)) (p_filesz ph)) (contents s);
                m = write_bytes (w32 (kernel_dest + p_filesz ph)) (replicate (sub32 (p_memsz ph) (p_filesz ph)) 0) m
            in Some (s\<lparr>contents := m\<rparr>)))"

lemma e_phnum_less: "e_phnum le m elf < 2 ^ 16"
  unfolding e_phnum_def using unat_half by simp

function load_loop :: "bool \<Rightarrow> nat \<Rightarrow> jet_space_layout \<Rightarrow> nat \<Rightarrow> loader \<Rightarrow> loader option" where
  "load_loop le elf_start layout i s =
     (if i < e_phnum le (contents s) elf_start then do {
        s \<leftarrow> load_phdr elf_start layout (elf_phdr le (contents s) elf_start i) s;
        load_loop le elf_start layout (i + 1) s
      }
      else Some s)"
  by pat_completeness auto

termination
proof (relation "measure (\<lambda>(le, elf_start, layout, i, s). 2 ^ 16 - i)")
  fix le elf_start layout i s x
  assume "i < e_phnum le (contents s) elf_start"
  with e_phnum_less [of le "contents s" elf_start]
  show "((le, elf_start, layout, i + 1, x), le, elf_start, layout, i, s) \<in> measure (\<lambda>(le, elf_start, layout, i, s). 2 ^ 16 - i)"
    by simp
qed simp

declare load_loop.simps [simp del]

text \<open>Where the file of a partition begins in the archive.\<close>

definition elf_start_of :: "nat list \<Rightarrow> nat \<Rightarrow> nat \<Rightarrow> nat" where
  "elf_start_of pok_elf_sizes archive2_begin elf_id =
     w32 (archive2_begin + foldl (\<lambda>offset i. w32 (offset + pok_elf_sizes ! i)) 0 [0..<elf_id])"

definition jet_loader_elf_load ::
  "bool \<Rightarrow> nat list \<Rightarrow> nat \<Rightarrow> jet_space_layout \<Rightarrow> nat \<Rightarrow> loader \<Rightarrow> (nat \<times> loader) option" where
  "jet_loader_elf_load le pok_elf_sizes archive2_begin space_layout elf_id s =
     (let elf_size = pok_elf_sizes ! elf_id;
          s = (if elf_size > layout_size space_layout then raise_load_error POK_ERROR_ID_CONFIG_ERROR s else s);
          elf_start = elf_start_of pok_elf_sizes archive2_begin elf_id;
          m = contents s;
          s = (if e_ident m elf_start \<noteq> [0x7f, 0x45, 0x4c, 0x46] then raise_load_error POK_ERROR_ID_PARTLOAD_ERROR s else s);
          entr = e_entry le m elf_start;
          (elf_end_user, s) = fold (\<lambda>i. check_phdr space_layout (elf_phdr le m elf_start i)) [0..<e_phnum le m elf_start]
                                (user_addr space_layout, s);
          s = (if elf_end_user > w32 (user_addr space_layout + layout_size space_layout)
               then raise_load_error POK_ERROR_ID_PARTLOAD_ERROR s else s)
      in do {
        s \<leftarrow> load_loop le elf_start space_layout 0 s;
        Some (entr, s)
      })"

subsection \<open>What a load does\<close>

definition program_headers :: "bool \<Rightarrow> net_mem \<Rightarrow> nat \<Rightarrow> Elf32_Phdr list" where
  "program_headers le m elf_start = map (elf_phdr le m elf_start) [0..<e_phnum le m elf_start]"

definition segment_ok :: "jet_space_layout \<Rightarrow> Elf32_Phdr \<Rightarrow> bool" where
  "segment_ok layout ph \<longleftrightarrow> p_filesz ph \<le> p_memsz ph \<and> user_addr layout \<le> p_vaddr ph
     \<and> p_vaddr ph + p_memsz ph \<le> user_addr layout + layout_size layout"

definition elf_ok :: "bool \<Rightarrow> net_mem \<Rightarrow> nat \<Rightarrow> jet_space_layout \<Rightarrow> bool" where
  "elf_ok le m elf_start layout \<longleftrightarrow> e_ident m elf_start = [0x7f, 0x45, 0x4c, 0x46]
     \<and> list_all (segment_ok layout) (program_headers le m elf_start)"

text \<open>
  The file lies in memory below the space of the partition, with all that its headers refer to. The code
  takes the offsets from the file without a check.
\<close>

definition file_below :: "bool \<Rightarrow> net_mem \<Rightarrow> nat \<Rightarrow> jet_space_layout \<Rightarrow> bool" where
  "file_below le m elf_start layout \<longleftrightarrow>
     elf_start + 52 \<le> kernel_addr layout
   \<and> elf_start + e_phoff le m elf_start + 32 * e_phnum le m elf_start \<le> kernel_addr layout
   \<and> list_all (\<lambda>ph. elf_start + p_offset ph + p_filesz ph \<le> kernel_addr layout) (program_headers le m elf_start)"

text \<open>What the code checks of a header: as \<open>segment_ok\<close>, but the end is a sum of 32 bits, which wraps.\<close>

definition segment_accepted :: "jet_space_layout \<Rightarrow> Elf32_Phdr \<Rightarrow> bool" where
  "segment_accepted layout ph \<longleftrightarrow> p_filesz ph \<le> p_memsz ph \<and> user_addr layout \<le> p_vaddr ph
     \<and> (p_vaddr ph + p_memsz ph) mod 2 ^ 32 \<le> user_addr layout + layout_size layout"

definition layout_ok :: "jet_space_layout \<Rightarrow> bool" where
  "layout_ok layout \<longleftrightarrow> user_addr layout + layout_size layout < 2 ^ 32 \<and> kernel_addr layout + layout_size layout < 2 ^ 32"

text \<open>A segment in its place: the bytes of the file, then zeros.\<close>

definition segment_bytes :: "net_mem \<Rightarrow> nat \<Rightarrow> Elf32_Phdr \<Rightarrow> 8 word list" where
  "segment_bytes m elf_start ph =
     read_bytes m (elf_start + p_offset ph) (p_filesz ph) @ replicate (p_memsz ph - p_filesz ph) 0"

definition place_segment :: "jet_space_layout \<Rightarrow> net_mem \<Rightarrow> nat \<Rightarrow> Elf32_Phdr \<Rightarrow> net_mem \<Rightarrow> net_mem" where
  "place_segment layout file elf_start ph =
     write_bytes (kernel_addr layout + (p_vaddr ph - user_addr layout)) (segment_bytes file elf_start ph)"

lemma length_segment_bytes: "p_filesz ph \<le> p_memsz ph \<Longrightarrow> length (segment_bytes m elf_start ph) = p_memsz ph"
  by (simp add: segment_bytes_def)

lemma write_bytes_append_after: "write_bytes a (xs @ ys) m = write_bytes (a + length xs) ys (write_bytes a xs m)"
  by (rule ext) (auto simp: write_bytes_def nth_append)

lemma place_segment_out:
  assumes "segment_ok layout ph" "p \<notin> {kernel_addr layout..<kernel_addr layout + layout_size layout}"
  shows "place_segment layout file elf_start ph m p = m p"
  unfolding place_segment_def
  by (rule write_bytes_out) (use assms in \<open>auto simp: length_segment_bytes segment_ok_def\<close>)

lemma load_phdr_ok:
  assumes "segment_ok layout ph" "layout_ok layout" "elf_start + p_offset ph + p_filesz ph \<le> kernel_addr layout"
    "\<And>p. p < kernel_addr layout \<Longrightarrow> contents s p = file p"
  shows "load_phdr elf_start layout ph s = Some (s\<lparr>contents := place_segment layout file elf_start ph (contents s)\<rparr>)"
proof -
  let ?k = "kernel_addr layout + (p_vaddr ph - user_addr layout)"
  note o = assms(1) [unfolded segment_ok_def] assms(2) [unfolded layout_ok_def]
  have w: "w32 (p_vaddr ph + p_filesz ph) = p_vaddr ph + p_filesz ph" "w32 (p_vaddr ph + p_memsz ph) = p_vaddr ph + p_memsz ph"
    "w32 (user_addr layout + layout_size layout) = user_addr layout + layout_size layout"
    "w32 ?k = ?k" "w32 (?k + p_filesz ph) = ?k + p_filesz ph" "w32 (p_offset ph + elf_start) = elf_start + p_offset ph"
    by (subst w32_small; use o assms(3) in linarith)+
  have d: "sub32 (p_memsz ph) (p_filesz ph) = p_memsz ph - p_filesz ph"
    by (rule sub32_le) (use o in linarith)+
  have r: "read_bytes (contents s) (elf_start + p_offset ph) (p_filesz ph) = read_bytes file (elf_start + p_offset ph) (p_filesz ph)"
    using assms(3,4) by (auto simp: read_bytes_eq)
  have c: "user_addr layout \<le> p_vaddr ph" "p_vaddr ph + p_filesz ph \<le> user_addr layout + layout_size layout"
    "p_vaddr ph + p_memsz ph \<le> user_addr layout + layout_size layout" using o by linarith+
  show ?thesis
    unfolding load_phdr_def Let_def w d r by (simp add: c place_segment_def segment_bytes_def write_bytes_append_after)
qed

text \<open>Memory below the space is not changed, so the loader reads the same headers in each round.\<close>

lemma load_below:
  assumes "\<And>p. p < k \<Longrightarrow> m' p = m p"
  shows "a + 2 \<le> k \<Longrightarrow> load16 le m' a = load16 le m a" "a + 4 \<le> k \<Longrightarrow> load32 le m' a = load32 le m a"
  by (simp_all add: load16_def load32_def assms)

lemma read_below:
  assumes "\<And>p. p < k \<Longrightarrow> m' p = m p" "elf_start + 52 \<le> k"
  shows "e_phnum le m' elf_start = e_phnum le m elf_start" "e_phoff le m' elf_start = e_phoff le m elf_start"
  using assms(2) by (simp_all add: e_phnum_def e_phoff_def load_below [of k m' m, OF assms(1)])

lemma phdr_below:
  assumes m: "\<And>p. p < k \<Longrightarrow> m' p = m p" and k: "elf_start + 52 \<le> k"
    "elf_start + e_phoff le m elf_start + 32 * e_phnum le m elf_start \<le> k" "k < 2 ^ 32" and i: "i < e_phnum le m elf_start"
  shows "elf_phdr le m' elf_start i = elf_phdr le m elf_start i"
proof -
  define q where "q = w32 (elf_start + e_phoff le m elf_start) + 32 * i"
  have "w32 (elf_start + e_phoff le m elf_start) \<le> elf_start + e_phoff le m elf_start" by (simp add: w32_def)
  then have q: "q + 32 \<le> k" using k(2) i by (simp add: q_def)
  have l: "load32 le m' (q + j) = load32 le m (q + j)" if "j + 4 \<le> 32" for j
    using q that by (intro load_below(2) [of k]) (simp_all add: m)
  have "e_phoff le m' elf_start = e_phoff le m elf_start" by (rule read_below(2)) (use m k(1) in auto)
  then show ?thesis unfolding elf_phdr_def Let_def by (simp add: l flip: q_def)
qed

lemma load_loop_all:
  assumes "file_below le file elf_start layout" "layout_ok layout" "list_all (segment_ok layout) (program_headers le file elf_start)"
    "\<And>p. p < kernel_addr layout \<Longrightarrow> contents s p = file p" "i \<le> e_phnum le file elf_start"
  shows "load_loop le elf_start layout i s
    = Some (s\<lparr>contents := fold (place_segment layout file elf_start) (drop i (program_headers le file elf_start)) (contents s)\<rparr>)"
  using assms(4,5)
proof (induction "e_phnum le file elf_start - i" arbitrary: i s)
  case 0
  note b = assms(1) [unfolded file_below_def]
  have "e_phnum le (contents s) elf_start = e_phnum le file elf_start"
    by (rule read_below(1) [of "kernel_addr layout"]) (use 0 b in auto)
  with 0 show ?case by (subst load_loop.simps) (simp add: program_headers_def)
next
  case (Suc n)
  note b = assms(1) [unfolded file_below_def]
  let ?ph = "elf_phdr le file elf_start i"
  have k: "kernel_addr layout < 2 ^ 32" using assms(2) by (simp add: layout_ok_def)
  have i: "i < e_phnum le file elf_start" using Suc.hyps(2) by linarith
  have n: "e_phnum le (contents s) elf_start = e_phnum le file elf_start"
    by (rule read_below(1) [of "kernel_addr layout"]) (use Suc.prems b in auto)
  have ph: "elf_phdr le (contents s) elf_start i = ?ph"
    by (rule phdr_below [of "kernel_addr layout"]) (use Suc.prems b k i in auto)
  have len: "i < length (program_headers le file elf_start)" "program_headers le file elf_start ! i = ?ph"
    using i by (simp_all add: program_headers_def)
  have one: "segment_ok layout ?ph" "elf_start + p_offset ?ph + p_filesz ?ph \<le> kernel_addr layout"
    using assms(3) b len by (auto simp: list_all_length)
  let ?s = "s\<lparr>contents := place_segment layout file elf_start ?ph (contents s)\<rparr>"
  have "load_loop le elf_start layout (i + 1) ?s
      = Some (?s\<lparr>contents := fold (place_segment layout file elf_start) (drop (i + 1) (program_headers le file elf_start)) (contents ?s)\<rparr>)"
    by (rule Suc.hyps(1)) (use Suc i one(1) in \<open>auto simp: place_segment_out\<close>)
  moreover have "drop i (program_headers le file elf_start) = ?ph # drop (i + 1) (program_headers le file elf_start)"
    using Cons_nth_drop_Suc [OF len(1)] len(2) by simp
  ultimately show ?case
    using i by (subst load_loop.simps) (simp add: n ph load_phdr_ok [OF one(1) assms(2) one(2) Suc.prems(1)])
qed

lemma load_loop_raised: "load_loop le elf_start layout i s = Some s' \<Longrightarrow> raised s' = raised s"
proof (induction le elf_start layout i s rule: load_loop.induct)
  case (1 le elf_start layout i s)
  show ?case
  proof (cases "i < e_phnum le (contents s) elf_start")
    case True
    with 1(2) obtain t where t: "load_phdr elf_start layout (elf_phdr le (contents s) elf_start i) s = Some t"
      "load_loop le elf_start layout (i + 1) t = Some s'"
      by (subst (asm) load_loop.simps) (auto split: bind_splits)
    have "raised t = raised s" using t(1) by (auto simp: load_phdr_def Let_def split: if_splits)
    with 1(1) [OF True t] show ?thesis by simp
  next
    case False
    with 1(2) show ?thesis by (subst (asm) load_loop.simps) simp
  qed
qed

lemma check_phdrs:
  shows "\<exists>stop s' es. fold (check_phdr layout) phs (start, s) = (stop, s') \<and> s' = s\<lparr>raised := raised s @ es\<rparr>
    \<and> (es = [] \<longleftrightarrow> list_all (\<lambda>ph. p_filesz ph \<le> p_memsz ph \<and> user_addr layout \<le> p_vaddr ph) phs)
    \<and> (\<forall>b. stop \<le> b \<longleftrightarrow> start \<le> b \<and> list_all (\<lambda>ph. (p_vaddr ph + p_memsz ph) mod 2 ^ 32 \<le> b) phs)"
proof (induction phs arbitrary: start s)
  case Nil
  then show ?case by (intro exI [of _ start] exI [of _ s] exI [of _ "[]"]) simp
next
  case (Cons ph phs)
  define fs where "fs = (if p_filesz ph > p_memsz ph then [POK_ERROR_ID_PARTLOAD_ERROR] else [])
    @ (if p_vaddr ph < user_addr layout then [POK_ERROR_ID_PARTLOAD_ERROR] else [])"
  define mid where "mid = max start (w32 (p_vaddr ph + p_memsz ph))"
  have one: "check_phdr layout ph (start, s) = (mid, s\<lparr>raised := raised s @ fs\<rparr>)"
    by (simp add: check_phdr_def Let_def raise_load_error_def fs_def mid_def max_def)
  from Cons.IH [of mid "s\<lparr>raised := raised s @ fs\<rparr>"] obtain stop es where r:
    "fold (check_phdr layout) phs (mid, s\<lparr>raised := raised s @ fs\<rparr>) = (stop, s\<lparr>raised := raised s @ fs @ es\<rparr>)"
    "es = [] \<longleftrightarrow> list_all (\<lambda>ph. p_filesz ph \<le> p_memsz ph \<and> user_addr layout \<le> p_vaddr ph) phs"
    "\<forall>b. stop \<le> b \<longleftrightarrow> mid \<le> b \<and> list_all (\<lambda>ph. (p_vaddr ph + p_memsz ph) mod 2 ^ 32 \<le> b) phs"
    by auto
  have "fs = [] \<longleftrightarrow> p_filesz ph \<le> p_memsz ph \<and> user_addr layout \<le> p_vaddr ph" by (auto simp: fs_def)
  with r show ?case
    by (intro exI [of _ stop] exI [of _ "s\<lparr>raised := raised s @ fs @ es\<rparr>"] exI [of _ "fs @ es"])
      (auto simp: one mid_def w32_def)
qed

lemma fold_place_out:
  "list_all (segment_ok layout) phs \<Longrightarrow> p \<notin> {kernel_addr layout..<kernel_addr layout + layout_size layout}
   \<Longrightarrow> fold (place_segment layout file elf_start) phs m p = m p"
  by (induction phs arbitrary: m) (auto simp: place_segment_out)

text \<open>The bytes of a segment, if no later one lies over it.\<close>

lemma place_segment_apart:
  assumes "segment_ok layout ph" "segment_ok layout ph'" "i < p_memsz ph"
    "p_vaddr ph + p_memsz ph \<le> p_vaddr ph' \<or> p_vaddr ph' + p_memsz ph' \<le> p_vaddr ph"
  shows "place_segment layout file elf_start ph' m (kernel_addr layout + (p_vaddr ph + i - user_addr layout))
    = m (kernel_addr layout + (p_vaddr ph + i - user_addr layout))"
  unfolding place_segment_def
  by (rule write_bytes_out) (use assms in \<open>auto simp: length_segment_bytes segment_ok_def\<close>)

lemma place_segment_in:
  assumes "segment_ok layout ph" "i < p_memsz ph"
  shows "place_segment layout file elf_start ph m (kernel_addr layout + (p_vaddr ph + i - user_addr layout))
    = (if i < p_filesz ph then file (elf_start + p_offset ph + i) else 0)"
proof -
  have a: "kernel_addr layout + (p_vaddr ph + i - user_addr layout) = kernel_addr layout + (p_vaddr ph - user_addr layout) + i"
    using assms(1) by (simp add: segment_ok_def)
  show ?thesis
    unfolding place_segment_def a write_bytes_def
    using assms length_segment_bytes [of ph] unfolding segment_ok_def
    by (simp only: add_less_cancel_left le_add1 simp_thms if_True diff_add_inverse) (simp add: segment_bytes_def nth_append)
qed

definition later_apart :: "Elf32_Phdr list \<Rightarrow> nat \<Rightarrow> bool" where
  "later_apart phs j \<longleftrightarrow> (\<forall>k < length phs. j < k \<longrightarrow>
     p_vaddr (phs ! j) + p_memsz (phs ! j) \<le> p_vaddr (phs ! k) \<or> p_vaddr (phs ! k) + p_memsz (phs ! k) \<le> p_vaddr (phs ! j))"

lemma fold_place_segment:
  assumes "list_all (segment_ok layout) phs" "j < length phs" "later_apart phs j" "i < p_memsz (phs ! j)"
  shows "fold (place_segment layout file elf_start) phs m (kernel_addr layout + (p_vaddr (phs ! j) + i - user_addr layout))
    = (if i < p_filesz (phs ! j) then file (elf_start + p_offset (phs ! j) + i) else 0)"
  using assms(1-4)
proof (induction phs rule: rev_induct)
  case (snoc ph phs)
  show ?case
  proof (cases "j = length phs")
    case True
    with snoc.prems show ?thesis by (simp add: place_segment_in)
  next
    case False
    with snoc.prems(2) have j: "j < length phs" "(phs @ [ph]) ! j = phs ! j" by (simp_all add: nth_append)
    have ok: "segment_ok layout (phs ! j)" "segment_ok layout ph" "list_all (segment_ok layout) phs"
      using snoc.prems(1) j(1) by (auto simp: list_all_iff)
    have la: "p_vaddr (phs ! j) + p_memsz (phs ! j) \<le> p_vaddr ((phs @ [ph]) ! k)
        \<or> p_vaddr ((phs @ [ph]) ! k) + p_memsz ((phs @ [ph]) ! k) \<le> p_vaddr (phs ! j)" if "k < Suc (length phs)" "j < k" for k
      using snoc.prems(3) that unfolding later_apart_def j(2) by simp
    have "later_apart phs j"
      unfolding later_apart_def
    proof (intro allI impI)
      fix k assume "k < length phs" "j < k"
      then show "p_vaddr (phs ! j) + p_memsz (phs ! j) \<le> p_vaddr (phs ! k) \<or> p_vaddr (phs ! k) + p_memsz (phs ! k) \<le> p_vaddr (phs ! j)"
        using la [of k] by (simp add: nth_append)
    qed
    moreover have "p_vaddr (phs ! j) + p_memsz (phs ! j) \<le> p_vaddr ph \<or> p_vaddr ph + p_memsz ph \<le> p_vaddr (phs ! j)"
      using la [of "length phs"] j(1) by simp
    ultimately show ?thesis
      using snoc.IH [OF ok(3) j(1)] snoc.prems(4) place_segment_apart [OF ok(1,2)] by (simp add: j(2))
  qed
qed simp

lemma elf_load:
  fixes le pok_elf_sizes archive2_begin elf_id
  defines "elf_start \<equiv> elf_start_of pok_elf_sizes archive2_begin elf_id"
  assumes "layout_ok layout"
  shows "jet_loader_elf_load le pok_elf_sizes archive2_begin layout elf_id s = Some (e, s') \<Longrightarrow>
      raised s' = raised s \<longleftrightarrow> pok_elf_sizes ! elf_id \<le> layout_size layout
        \<and> e_ident (contents s) elf_start = [0x7f, 0x45, 0x4c, 0x46]
        \<and> list_all (segment_accepted layout) (program_headers le (contents s) elf_start)"
    and "pok_elf_sizes ! elf_id \<le> layout_size layout \<Longrightarrow> elf_ok le (contents s) elf_start layout \<Longrightarrow>
      file_below le (contents s) elf_start layout \<Longrightarrow>
      jet_loader_elf_load le pok_elf_sizes archive2_begin layout elf_id s = Some (e_entry le (contents s) elf_start,
       s\<lparr>contents := fold (place_segment layout (contents s) elf_start) (program_headers le (contents s) elf_start) (contents s)\<rparr>)"
proof -
  let ?m = "contents s"
  let ?phs = "program_headers le ?m elf_start"
  define es1 where "es1 = (if pok_elf_sizes ! elf_id > layout_size layout then [POK_ERROR_ID_CONFIG_ERROR] else [])"
  define es2 where "es2 = (if e_ident ?m elf_start \<noteq> [0x7f, 0x45, 0x4c, 0x46] then [POK_ERROR_ID_PARTLOAD_ERROR] else [])"
  define t where "t = s\<lparr>raised := raised s @ es1 @ es2\<rparr>"
  from check_phdrs [of layout ?phs "user_addr layout" t] obtain stop es where c:
    "fold (check_phdr layout) ?phs (user_addr layout, t) = (stop, t\<lparr>raised := raised t @ es\<rparr>)"
    "es = [] \<longleftrightarrow> list_all (\<lambda>ph. p_filesz ph \<le> p_memsz ph \<and> user_addr layout \<le> p_vaddr ph) ?phs"
    "\<forall>b. stop \<le> b \<longleftrightarrow> user_addr layout \<le> b \<and> list_all (\<lambda>ph. (p_vaddr ph + p_memsz ph) mod 2 ^ 32 \<le> b) ?phs"
    by auto
  define limit where "limit = user_addr layout + layout_size layout"
  have lim: "w32 (user_addr layout + layout_size layout) = limit"
    using assms(2) unfolding limit_def layout_ok_def by (intro w32_small) simp
  define es3 where "es3 = (if stop > limit then [POK_ERROR_ID_PARTLOAD_ERROR] else [])"
  define u where "u = s\<lparr>raised := raised s @ es1 @ es2 @ es @ es3\<rparr>"
  have loops: "fold (\<lambda>i. check_phdr layout (elf_phdr le ?m elf_start i)) [0..<e_phnum le ?m elf_start] = fold (check_phdr layout) ?phs"
    by (simp add: program_headers_def fold_map comp_def)
  have errs: "(if e_ident ?m elf_start \<noteq> [0x7f, 0x45, 0x4c, 0x46]
      then raise_load_error POK_ERROR_ID_PARTLOAD_ERROR (if pok_elf_sizes ! elf_id > layout_size layout then raise_load_error POK_ERROR_ID_CONFIG_ERROR s else s)
      else (if pok_elf_sizes ! elf_id > layout_size layout then raise_load_error POK_ERROR_ID_CONFIG_ERROR s else s)) = t"
    "(if stop > limit then raise_load_error POK_ERROR_ID_PARTLOAD_ERROR (t\<lparr>raised := raised t @ es\<rparr>) else t\<lparr>raised := raised t @ es\<rparr>) = u"
    by (auto simp: t_def u_def es1_def es2_def es3_def raise_load_error_def)
  have keep: "contents (if pok_elf_sizes ! elf_id > layout_size layout then raise_load_error POK_ERROR_ID_CONFIG_ERROR s else s) = ?m"
    by (simp add: raise_load_error_def)
  have load: "jet_loader_elf_load le pok_elf_sizes archive2_begin layout elf_id s
      = do { v \<leftarrow> load_loop le elf_start layout 0 u; Some (e_entry le ?m elf_start, v) }"
    unfolding jet_loader_elf_load_def Let_def elf_start_def [symmetric] keep errs(1) loops c(1) lim split errs(2) by (rule refl)
  have good: "es1 @ es2 @ es @ es3 = [] \<longleftrightarrow> pok_elf_sizes ! elf_id \<le> layout_size layout
      \<and> e_ident ?m elf_start = [0x7f, 0x45, 0x4c, 0x46] \<and> list_all (segment_accepted layout) ?phs"
    using c(2) c(3) [rule_format, of limit]
    by (auto simp: es1_def es2_def es3_def segment_accepted_def list_all_length limit_def not_less)
  show "raised s' = raised s \<longleftrightarrow> pok_elf_sizes ! elf_id \<le> layout_size layout
        \<and> e_ident ?m elf_start = [0x7f, 0x45, 0x4c, 0x46] \<and> list_all (segment_accepted layout) ?phs"
    if "jet_loader_elf_load le pok_elf_sizes archive2_begin layout elf_id s = Some (e, s')"
  proof -
    have "load_loop le elf_start layout 0 u = Some s'" using that by (simp add: load split: bind_splits)
    from load_loop_raised [OF this] show ?thesis unfolding good [symmetric] by (simp add: u_def)
  qed
  assume ok: "pok_elf_sizes ! elf_id \<le> layout_size layout" "elf_ok le ?m elf_start layout"
    and below: "file_below le ?m elf_start layout"
  have segs: "list_all (segment_ok layout) ?phs" using ok(2) by (simp add: elf_ok_def)
  moreover have "segment_accepted layout ph" if "segment_ok layout ph" for ph
    using that order_trans [OF mod_less_eq_dividend [of "p_vaddr ph + p_memsz ph" "2 ^ 32"]]
    by (simp add: segment_accepted_def segment_ok_def)
  ultimately have "es1 @ es2 @ es @ es3 = []" using good ok by (auto simp: list_all_iff elf_ok_def)
  then have u: "u = s" by (simp add: u_def)
  have "load_loop le elf_start layout 0 s = Some (s\<lparr>contents := fold (place_segment layout ?m elf_start) (drop 0 ?phs) ?m\<rparr>)"
    by (rule load_loop_all [OF below assms(2) segs]) auto
  then show "jet_loader_elf_load le pok_elf_sizes archive2_begin layout elf_id s = Some (e_entry le (contents s) elf_start,
       s\<lparr>contents := fold (place_segment layout (contents s) elf_start) ?phs (contents s)\<rparr>)"
    by (simp add: load u)
qed

subsection \<open>Loading on x86\<close>


definition example_file :: "8 word list" where
  "example_file =
     [0x7f, 0x45, 0x4c, 0x46, 1, 1, 1, 0, 0, 0, 0, 0, 0, 0, 0, 0, 2, 0, 3, 0, 1, 0, 0, 0,
      0x00, 0x10, 0, 0, 52, 0, 0, 0, 0, 0, 0, 0, 0, 0, 0, 0, 52, 0, 32, 0, 1, 0, 0, 0, 0, 0, 0, 0,
      1, 0, 0, 0, 84, 0, 0, 0, 0x00, 0x10, 0, 0, 0, 0, 0, 0, 3, 0, 0, 0, 5, 0, 0, 0, 7, 0, 0, 0, 0, 0x10, 0, 0,
      0xaa, 0xbb, 0xcc]"

definition example_loader :: loader where
  "example_loader = \<lparr>contents = (\<lambda>p. if 1048576 \<le> p \<and> p < 1048663 then example_file ! (p - 1048576) else 0xff), raised = []\<rparr>"


end
