(* ===== verification/SpacePpc.thy ===== *)
theory SpacePpc
  imports UserSpace
begin

section \<open>Spaces on PowerPC: entries of the TLB\<close>

text \<open>
  \<open>kernel/arch/ppc/space.c\<close>, \<open>uaccess.c\<close>. Every partition sees its memory in the 16 MB from
  \<open>POK_PARTITION_MEMORY_BASE\<close> on, the kernel uses the same addresses while the partition's number is in
  the register \<open>PID\<close>. Mappings are entries of the software-managed table TLB1, written by one
  instruction (\<open>mmu.c\<close>); here the table is a function from indices. The number of its entries
  (\<open>limit\<close>), the registers of the chip (\<open>ccsrbar\<close>) and the configured mappings are given by the board.
  A fatal error or a failed assertion is \<open>None\<close>.
\<close>

definition POK_PARTITION_MEMORY_BASE :: nat where
  "POK_PARTITION_MEMORY_BASE = 0x80000000"

definition POK_PARTITION_MEMORY_SIZE :: nat where
  "POK_PARTITION_MEMORY_SIZE = 0x1000000"

record ja_ppc_space =
  phys_base :: nat
  size_normal :: nat
  size_heap :: nat
  size_total :: nat
  ustack_state :: nat

record tlb_entry =
  virt_addr :: nat
  phys_addr :: nat
  pgsize :: nat
  permissions :: nat
  cache_policy :: nat
  tlb_pid :: nat

record ppc_spaces =
  ja_spaces :: "ja_ppc_space list"
  tlb1 :: "nat \<Rightarrow> tlb_entry option"
  next_resident :: nat
  next_non_resident :: nat
  SPRN_PID :: nat

record board =
  limit :: nat
  ccsrbar_base :: nat
  ccsrbar_base_phys :: nat
  jet_tlb_entries :: "tlb_entry list"

definition E500MC_PGSIZE_16M :: nat where "E500MC_PGSIZE_16M = 14"
definition E500MC_PGSIZE_256M :: nat where "E500MC_PGSIZE_256M = 18"
definition MAS3_UX :: nat where "MAS3_UX = 0x20"
definition MAS3_SX :: nat where "MAS3_SX = 0x10"
definition MAS3_UW :: nat where "MAS3_UW = 0x08"
definition MAS3_SW :: nat where "MAS3_SW = 0x04"
definition MAS3_UR :: nat where "MAS3_UR = 0x02"
definition MAS3_SR :: nat where "MAS3_SR = 0x01"

definition space_of :: "ppc_spaces \<Rightarrow> nat \<Rightarrow> ja_ppc_space" where
  "space_of x space_id = ja_spaces x ! (space_id - 1)"

definition upd_space :: "nat \<Rightarrow> (ja_ppc_space \<Rightarrow> ja_ppc_space) \<Rightarrow> ppc_spaces \<Rightarrow> ppc_spaces" where
  "upd_space space_id f x = x\<lparr>ja_spaces := (ja_spaces x)[space_id - 1 := f (space_of x space_id)]\<rparr>"

subsection \<open>Layout and stacks\<close>

definition ja_space_layout_get :: "nat \<Rightarrow> ppc_spaces \<Rightarrow> jet_space_layout option" where
  "ja_space_layout_get space_id x =
     (if \<not> (space_id \<noteq> 0 \<and> space_id \<le> length (ja_spaces x)) then None
      else Some \<lparr>kernel_addr = POK_PARTITION_MEMORY_BASE, user_addr = POK_PARTITION_MEMORY_BASE,
                 layout_size = size_normal (space_of x space_id)\<rparr>)"

definition ja_space_get_heap :: "nat \<Rightarrow> ppc_spaces \<Rightarrow> nat" where
  "ja_space_get_heap space_id x = w32 (POK_PARTITION_MEMORY_BASE + align32 (size_normal (space_of x space_id)) 16)"

definition ja_space_switch :: "nat \<Rightarrow> ppc_spaces \<Rightarrow> ppc_spaces" where
  "ja_space_switch space_id x = x\<lparr>SPRN_PID := space_id\<rparr>"

definition ja_ustack_init :: "nat \<Rightarrow> ppc_spaces \<Rightarrow> ppc_spaces option" where
  "ja_ustack_init space_id x =
     (if space_id = 0 then None
      else Some (upd_space space_id
        (\<lambda>space. space\<lparr>ustack_state := POK_PARTITION_MEMORY_BASE + POK_PARTITION_MEMORY_SIZE - 16\<rparr>) x))"

definition ja_ustack_alloc :: "nat \<Rightarrow> nat \<Rightarrow> ppc_spaces \<Rightarrow> (nat \<times> ppc_spaces) option" where
  "ja_ustack_alloc space_id stack_size x =
     (if space_id = 0 then None
      else
        (let size_real = align32 stack_size 16;
             result = ustack_state (space_of x space_id)
         in Some (result, upd_space space_id (\<lambda>space. space\<lparr>ustack_state := sub32 (ustack_state space) size_real\<rparr>) x)))"

subsection \<open>Access to user space\<close>

definition ppc_check_access :: "nat \<Rightarrow> nat \<Rightarrow> nat \<Rightarrow> ppc_spaces \<Rightarrow> bool option" where
  "ppc_check_access addr sz space_id x =
     (if space_id = 0 then None
      else if sz = 0 then None
      else
        (let start = addr;
             stop = w32 (start + sz);
             space = space_of x space_id
         in if stop < start then Some False
            else if stop \<le> size_total space + POK_PARTITION_MEMORY_BASE then Some (start \<ge> POK_PARTITION_MEMORY_BASE)
            else if start \<ge> ustack_state space then Some (stop \<le> POK_PARTITION_MEMORY_BASE + POK_PARTITION_MEMORY_SIZE)
            else Some False))"

definition ja_user_to_kernel_space :: "nat \<Rightarrow> nat \<Rightarrow> nat \<Rightarrow> ppc_spaces \<Rightarrow> nat option" where
  "ja_user_to_kernel_space addr sz space_id x = do {
     access \<leftarrow> ppc_check_access addr sz space_id x;
     Some (if access then addr else 0)
   }"

definition ja_check_access_exec :: "nat \<Rightarrow> nat \<Rightarrow> ppc_spaces \<Rightarrow> bool option" where
  "ja_check_access_exec addr space_id x =
     (if space_id = 0 then None
      else Some (addr < POK_PARTITION_MEMORY_BASE + size_normal (space_of x space_id) \<and> addr \<ge> POK_PARTITION_MEMORY_BASE))"

definition pok_virt_to_phys :: "nat \<Rightarrow> ppc_spaces \<Rightarrow> nat option" where
  "pok_virt_to_phys virt x =
     (if virt < POK_PARTITION_MEMORY_BASE \<or> virt > POK_PARTITION_MEMORY_BASE + POK_PARTITION_MEMORY_SIZE then None
      else Some (w32 (virt - POK_PARTITION_MEMORY_BASE + phys_base (space_of x (SPRN_PID x)))))"

definition pok_phys_to_virt :: "nat \<Rightarrow> ppc_spaces \<Rightarrow> nat option" where
  "pok_phys_to_virt phys x =
     (let base = phys_base (space_of x (SPRN_PID x)) in
      if phys < base \<or> phys \<ge> base + POK_PARTITION_MEMORY_SIZE then None
      else Some (phys - base + POK_PARTITION_MEMORY_BASE))"

subsection \<open>The TLB\<close>

text \<open>The masks keep whole pages of 4 KB.\<close>

definition page_of :: "nat \<Rightarrow> nat" where
  "page_of a = push_bit 12 (drop_bit 12 a)"

definition pok_ppc_tlb_write :: "nat \<Rightarrow> nat \<Rightarrow> nat \<Rightarrow> nat \<Rightarrow> nat \<Rightarrow> nat \<Rightarrow> nat \<Rightarrow> ppc_spaces \<Rightarrow> ppc_spaces" where
  "pok_ppc_tlb_write virtual physical pgsize_enum perms wimge pid entry x =
     x\<lparr>tlb1 := (tlb1 x)(entry \<mapsto> \<lparr>virt_addr = page_of (w32 virtual), phys_addr = page_of physical, pgsize = pgsize_enum,
                                permissions = perms, cache_policy = wimge, tlb_pid = pid\<rparr>)\<rparr>"

definition pok_ppc_tlb_clear_entry :: "nat \<Rightarrow> ppc_spaces \<Rightarrow> ppc_spaces" where
  "pok_ppc_tlb_clear_entry entry x = x\<lparr>tlb1 := (tlb1 x)(entry := None)\<rparr>"

definition pok_get_next_tlb1_index :: "board \<Rightarrow> bool \<Rightarrow> ppc_spaces \<Rightarrow> (nat \<times> ppc_spaces) option" where
  "pok_get_next_tlb1_index b is_resident x =
     (let available_space = limit b in
      if is_resident then
        (if next_resident x \<ge> available_space then None
         else
           (let res = next_resident x;
                x = x\<lparr>next_resident := next_resident x + 1\<rparr>
            in Some (res, x\<lparr>next_non_resident := next_resident x\<rparr>)))
      else
        (let x = (if next_non_resident x \<ge> available_space then x\<lparr>next_non_resident := next_resident x\<rparr> else x) in
         if next_non_resident x \<ge> available_space then None
         else Some (next_non_resident x, x\<lparr>next_non_resident := next_non_resident x + 1\<rparr>)))"

definition pok_insert_tlb1 :: "board \<Rightarrow> nat \<Rightarrow> nat \<Rightarrow> nat \<Rightarrow> nat \<Rightarrow> nat \<Rightarrow> nat \<Rightarrow> bool \<Rightarrow> ppc_spaces \<Rightarrow> ppc_spaces option" where
  "pok_insert_tlb1 b virtual physical pgsize_enum perms wimge pid is_resident x = do {
     (entry, x) \<leftarrow> pok_get_next_tlb1_index b is_resident x;
     Some (pok_ppc_tlb_write virtual physical pgsize_enum perms wimge pid entry x)
   }"

fun insert_configured :: "board \<Rightarrow> tlb_entry list \<Rightarrow> ppc_spaces \<Rightarrow> ppc_spaces option" where
  "insert_configured b [] x = Some x"
| "insert_configured b (e # es) x = do {
     x \<leftarrow> pok_insert_tlb1 b (virt_addr e) (phys_addr e) (pgsize e) (permissions e) (cache_policy e) (tlb_pid e) True x;
     insert_configured b es x
   }"

definition set_size :: "ja_ppc_space \<Rightarrow> ja_ppc_space" where
  "set_size space =
     space\<lparr>size_total := (if size_heap space > 0 then w32 (align32 (size_normal space) 16 + size_heap space)
                           else size_normal space)\<rparr>"

definition pok_arch_space_init :: "board \<Rightarrow> ppc_spaces \<Rightarrow> ppc_spaces option" where
  "pok_arch_space_init b x = do {
     x \<leftarrow> pok_insert_tlb1 b 0 0 E500MC_PGSIZE_256M (MAS3_SW OR MAS3_SR OR MAS3_SX) 0 0 True x;
     let x = fold pok_ppc_tlb_clear_entry [1..<limit b] x;
     let x = pok_ppc_tlb_write (ccsrbar_base b) (ccsrbar_base_phys b) E500MC_PGSIZE_16M
               (MAS3_SW OR MAS3_SR OR MAS3_SX OR MAS3_UW OR MAS3_UR) (0x10 OR 0x08 OR 0x04 OR 0x02) 0 (limit b - 1) x;
     let x = x\<lparr>next_resident := 2, next_non_resident := 2\<rparr>;
     x \<leftarrow> insert_configured b (jet_tlb_entries b) x;
     let x = x\<lparr>ja_spaces := map set_size (ja_spaces x)\<rparr>;
     if list_all (\<lambda>space. size_total space < POK_PARTITION_MEMORY_SIZE) (ja_spaces x) then Some x else None
   }"

datatype pf_type_t = PF_DATA_TLB_MISS | PF_INST_TLB_MISS | PF_DATA_STORAGE | PF_INST_STORAGE

text \<open>The answer is true if the error of a memory violation is raised.\<close>

definition pok_arch_handle_page_fault :: "board \<Rightarrow> nat \<Rightarrow> pf_type_t \<Rightarrow> ppc_spaces \<Rightarrow> (bool \<times> ppc_spaces) option" where
  "pok_arch_handle_page_fault b faulting_address ty x =
     (let tlb_miss = (ty = PF_INST_TLB_MISS \<or> ty = PF_DATA_TLB_MISS);
          pid = SPRN_PID x
      in if tlb_miss \<and> pid \<noteq> 0 \<and> faulting_address \<ge> POK_PARTITION_MEMORY_BASE
            \<and> faulting_address < POK_PARTITION_MEMORY_BASE + POK_PARTITION_MEMORY_SIZE
         then do {
           x \<leftarrow> pok_insert_tlb1 b POK_PARTITION_MEMORY_BASE (phys_base (space_of x pid)) E500MC_PGSIZE_16M
                 (MAS3_SW OR MAS3_SR OR MAS3_UW OR MAS3_UR OR MAS3_UX) 0 pid False x;
           Some (False, x)
         }
         else Some (True, x))"

subsection \<open>Pointers\<close>

definition ppc_owned :: "nat \<Rightarrow> ppc_spaces \<Rightarrow> nat set" where
  "ppc_owned sid x = {POK_PARTITION_MEMORY_BASE..<POK_PARTITION_MEMORY_BASE + size_total (space_of x sid)}
     \<union> {ustack_state (space_of x sid)..<POK_PARTITION_MEMORY_BASE + POK_PARTITION_MEMORY_SIZE}"

lemma ppc_to_kernel_exact:
  assumes "sid \<noteq> 0" "0 < sz" "sz < 2 ^ 32" "size_total (space_of x sid) < POK_PARTITION_MEMORY_SIZE"
  shows "ja_user_to_kernel_space addr sz sid x = Some
    (if POK_PARTITION_MEMORY_BASE \<le> addr \<and> addr + sz \<le> POK_PARTITION_MEMORY_BASE + size_total (space_of x sid)
       \<or> ustack_state (space_of x sid) \<le> addr \<and> addr + sz \<le> POK_PARTITION_MEMORY_BASE + POK_PARTITION_MEMORY_SIZE
         \<and> POK_PARTITION_MEMORY_BASE + size_total (space_of x sid) < addr + sz
     then addr else 0)"
proof (cases "addr + sz < 2 ^ 32")
  case True
  then have "w32 (addr + sz) = addr + sz" by (rule w32_small)
  with assms show ?thesis by (auto simp: ja_user_to_kernel_space_def ppc_check_access_def Let_def)
next
  case False
  have "w32 (addr + sz) < addr"
  proof (cases "addr < 2 ^ 32")
    case True
    with False assms(3) show ?thesis by (simp add: w32_add_carry)
  qed (use w32_less [of "addr + sz"] in linarith)
  moreover have "\<not> addr + sz \<le> POK_PARTITION_MEMORY_BASE + POK_PARTITION_MEMORY_SIZE"
    using False by (simp add: POK_PARTITION_MEMORY_BASE_def POK_PARTITION_MEMORY_SIZE_def)
  ultimately show ?thesis
    using assms by (auto simp: ja_user_to_kernel_space_def ppc_check_access_def Let_def)
qed

interpretation ppc: user_pointers "\<lambda>sid x. size_total (space_of x sid) < POK_PARTITION_MEMORY_SIZE" ja_user_to_kernel_space
  ppc_owned "\<lambda>sid x a. a"
proof
  fix sid x addr sz k i
  assume v: "size_total (space_of x sid) < POK_PARTITION_MEMORY_SIZE"
    and k: "ja_user_to_kernel_space addr sz sid x = Some k" "k \<noteq> 0" and i: "sz < 2 ^ 32" "i < sz"
  from k(1) have "sid \<noteq> 0" by (auto simp: ja_user_to_kernel_space_def ppc_check_access_def split: if_splits)
  from ppc_to_kernel_exact [OF this _ i(1) v, of addr] k i(2)
  show "addr + i \<in> ppc_owned sid x \<and> addr + i = k + i"
    by (auto simp: ppc_owned_def split: if_splits)
qed simp

subsection \<open>Every order of operations\<close>

definition kernel_entry :: tlb_entry where
  "kernel_entry = \<lparr>virt_addr = 0, phys_addr = 0, pgsize = E500MC_PGSIZE_256M, permissions = MAS3_SW OR MAS3_SR OR MAS3_SX,
     cache_policy = 0, tlb_pid = 0\<rparr>"

definition device_entry :: "board \<Rightarrow> tlb_entry" where
  "device_entry b = \<lparr>virt_addr = page_of (w32 (ccsrbar_base b)), phys_addr = page_of (ccsrbar_base_phys b), pgsize = E500MC_PGSIZE_16M,
     permissions = MAS3_SW OR MAS3_SR OR MAS3_SX OR MAS3_UW OR MAS3_UR, cache_policy = 0x10 OR 0x08 OR 0x04 OR 0x02, tlb_pid = 0\<rparr>"

definition partition_entry :: "nat \<Rightarrow> nat \<Rightarrow> tlb_entry" where
  "partition_entry pid base = \<lparr>virt_addr = page_of (w32 POK_PARTITION_MEMORY_BASE), phys_addr = page_of base, pgsize = E500MC_PGSIZE_16M,
     permissions = MAS3_SW OR MAS3_SR OR MAS3_UW OR MAS3_UR OR MAS3_UX, cache_policy = 0, tlb_pid = pid\<rparr>"

definition configured_entry :: "tlb_entry \<Rightarrow> tlb_entry" where
  "configured_entry e = \<lparr>virt_addr = page_of (w32 (virt_addr e)), phys_addr = page_of (phys_addr e), pgsize = pgsize e,
     permissions = permissions e, cache_policy = cache_policy e, tlb_pid = tlb_pid e\<rparr>"

definition board_ok :: "board \<Rightarrow> bool" where
  "board_ok b \<longleftrightarrow> length (jet_tlb_entries b) + 3 \<le> limit b"

inductive ppc_life :: "board \<Rightarrow> ja_ppc_space list \<Rightarrow> ppc_spaces \<Rightarrow> bool" for b config where
  boot: "ja_spaces x = config \<Longrightarrow> next_resident x = 0 \<Longrightarrow> SPRN_PID x = 0 \<Longrightarrow> pok_arch_space_init b x = Some y \<Longrightarrow> ppc_life b config y"
| switch: "ppc_life b config x \<Longrightarrow> space_id \<le> length config \<Longrightarrow> ppc_life b config (ja_space_switch space_id x)"
| restart: "ppc_life b config x \<Longrightarrow> space_id \<le> length config \<Longrightarrow> ja_ustack_init space_id x = Some y \<Longrightarrow> ppc_life b config y"
| alloc: "ppc_life b config x \<Longrightarrow> space_id \<le> length config \<Longrightarrow> ja_ustack_alloc space_id sz x = Some (a, y) \<Longrightarrow> ppc_life b config y"
| fault: "ppc_life b config x \<Longrightarrow> pok_arch_handle_page_fault b addr ty x = Some (e, y) \<Longrightarrow> ppc_life b config y"

definition ppc_inv :: "board \<Rightarrow> ja_ppc_space list \<Rightarrow> ppc_spaces \<Rightarrow> bool" where
  "ppc_inv b config x \<longleftrightarrow>
     length (ja_spaces x) = length config
   \<and> (\<forall>i < length config. phys_base (ja_spaces x ! i) = phys_base (config ! i) \<and> size_total (ja_spaces x ! i) < POK_PARTITION_MEMORY_SIZE)
   \<and> SPRN_PID x \<le> length config
   \<and> next_resident x = 2 + length (jet_tlb_entries b) \<and> next_resident x \<le> next_non_resident x \<and> next_non_resident x \<le> limit b
   \<and> tlb1 x 0 = Some kernel_entry \<and> tlb1 x 1 = None
   \<and> (\<forall>i < length (jet_tlb_entries b). tlb1 x (2 + i) = Some (configured_entry (jet_tlb_entries b ! i)))
   \<and> (\<forall>i e. 2 + length (jet_tlb_entries b) \<le> i \<and> tlb1 x i = Some e \<and> i < limit b \<longrightarrow>
        (\<exists>p \<in> {1..length config}. e = partition_entry p (phys_base (config ! (p - 1))))
        \<or> i = limit b - 1 \<and> e = device_entry b \<and> next_non_resident x < limit b)"

lemma insert_configured_entries:
  assumes "next_resident x + length es \<le> limit b"
  shows "\<exists>y. insert_configured b es x = Some y \<and> next_resident y = next_resident x + length es
     \<and> (next_non_resident x = next_resident x \<longrightarrow> next_non_resident y = next_resident y)
     \<and> ja_spaces y = ja_spaces x \<and> SPRN_PID y = SPRN_PID x
     \<and> (\<forall>i < length es. tlb1 y (next_resident x + i) = Some (configured_entry (es ! i)))
     \<and> (\<forall>i. i < next_resident x \<or> next_resident x + length es \<le> i \<longrightarrow> tlb1 y i = tlb1 x i)"
  using assms
proof (induction es arbitrary: x)
  case (Cons e es)
  define z where "z = x\<lparr>tlb1 := (tlb1 x)(next_resident x \<mapsto> configured_entry e), next_resident := next_resident x + 1,
    next_non_resident := next_resident x + 1\<rparr>"
  have one: "pok_insert_tlb1 b (virt_addr e) (phys_addr e) (pgsize e) (permissions e) (cache_policy e) (tlb_pid e) True x = Some z"
    using Cons.prems by (simp add: pok_insert_tlb1_def pok_get_next_tlb1_index_def pok_ppc_tlb_write_def z_def configured_entry_def)
  from Cons.IH [of z] Cons.prems obtain y where y: "insert_configured b es z = Some y"
    "next_resident y = next_resident x + 1 + length es" "next_non_resident y = next_resident y" "ja_spaces y = ja_spaces x" "SPRN_PID y = SPRN_PID x"
    "\<forall>i < length es. tlb1 y (next_resident x + 1 + i) = Some (configured_entry (es ! i))"
    "\<forall>i. i < next_resident x + 1 \<or> next_resident x + 1 + length es \<le> i \<longrightarrow> tlb1 y i = tlb1 z i"
    by (auto simp: z_def)
  have "tlb1 y (next_resident x + i) = Some (configured_entry ((e # es) ! i))" if "i < length (e # es)" for i
    using y(6,7) that by (cases i) (auto simp: z_def)
  moreover have "tlb1 y i = tlb1 x i" if "i < next_resident x \<or> next_resident x + length (e # es) \<le> i" for i
    using y(7) [rule_format, of i] that by (auto simp: z_def)
  ultimately show ?case using y(1-5) by (intro exI [of _ y]) (simp add: one)
qed simp

lemma clear_entries: "fold pok_ppc_tlb_clear_entry is x = x\<lparr>tlb1 := (\<lambda>i. if i \<in> set is then None else tlb1 x i)\<rparr>"
  by (induction "is" arbitrary: x) (auto simp: pok_ppc_tlb_clear_entry_def fun_eq_iff intro!: ppc_spaces.equality)

lemma boot_inv:
  assumes "board_ok b" "next_resident x = 0" "SPRN_PID x = 0" "pok_arch_space_init b x = Some y"
  shows "ppc_inv b (ja_spaces x) y"
proof -
  have lim: "length (jet_tlb_entries b) + 3 \<le> limit b" using assms(1) by (simp add: board_ok_def)
  define z where "z = x\<lparr>tlb1 := (\<lambda>i. if i \<in> {1..<limit b} then None else ((tlb1 x)(0 \<mapsto> kernel_entry)) i)
    (limit b - 1 \<mapsto> device_entry b), next_resident := 2, next_non_resident := 2\<rparr>"
  have z: "(pok_ppc_tlb_write (ccsrbar_base b) (ccsrbar_base_phys b) E500MC_PGSIZE_16M
      (MAS3_SW OR MAS3_SR OR MAS3_SX OR MAS3_UW OR MAS3_UR) (0x10 OR 0x08 OR 0x04 OR 0x02) 0 (limit b - 1)
      (fold pok_ppc_tlb_clear_entry [1..<limit b]
        (x\<lparr>next_resident := 1, next_non_resident := 1, tlb1 := (tlb1 x)(0 \<mapsto> kernel_entry)\<rparr>)))\<lparr>next_resident := 2, next_non_resident := 2\<rparr> = z"
    by (rule ppc_spaces.equality) (simp_all add: clear_entries pok_ppc_tlb_write_def z_def device_entry_def fun_eq_iff)
  have first: "pok_insert_tlb1 b 0 0 E500MC_PGSIZE_256M (MAS3_SW OR MAS3_SR OR MAS3_SX) 0 0 True x
      = Some (x\<lparr>next_resident := 1, next_non_resident := 1, tlb1 := (tlb1 x)(0 \<mapsto> kernel_entry)\<rparr>)"
    using lim assms(2)
    by (simp add: pok_insert_tlb1_def pok_get_next_tlb1_index_def pok_ppc_tlb_write_def kernel_entry_def page_of_def)
  obtain w where w: "insert_configured b (jet_tlb_entries b) z = Some w" "next_resident w = 2 + length (jet_tlb_entries b)"
    "next_non_resident w = next_resident w" "ja_spaces w = ja_spaces x" "SPRN_PID w = SPRN_PID x"
    "\<forall>i < length (jet_tlb_entries b). tlb1 w (2 + i) = Some (configured_entry (jet_tlb_entries b ! i))"
    "\<forall>i. i < 2 \<or> 2 + length (jet_tlb_entries b) \<le> i \<longrightarrow> tlb1 w i = tlb1 z i"
    using insert_configured_entries [of z "jet_tlb_entries b" b] lim by (auto simp: z_def)
  from assms(4) have y: "y = w\<lparr>ja_spaces := map set_size (ja_spaces x)\<rparr>"
    "list_all (\<lambda>space. size_total space < POK_PARTITION_MEMORY_SIZE) (map set_size (ja_spaces x))"
    unfolding pok_arch_space_init_def first bind.bind_lunit Let_def z w(1) by (auto simp: w(4) split: if_splits)
  have "tlb1 w 0 = Some kernel_entry" "tlb1 w 1 = None"
    using w(7) [rule_format, of 0] w(7) [rule_format, of 1] lim by (simp_all add: z_def)
  moreover have "i = limit b - 1 \<and> e = device_entry b"
    if "2 + length (jet_tlb_entries b) \<le> i" "tlb1 w i = Some e" "i < limit b" for i e
    using w(7) [rule_format, of i] that by (auto simp: z_def split: if_splits)
  ultimately show ?thesis
    using y w lim assms(3) unfolding ppc_inv_def by (auto simp: set_size_def list_all_length)
qed

lemma insert_inv:
  assumes b: "board_ok b" and inv: "ppc_inv b config x" and pid: "pid \<in> {1..length config}"
  shows "\<exists>y i. pok_insert_tlb1 b POK_PARTITION_MEMORY_BASE (phys_base (space_of x pid)) E500MC_PGSIZE_16M
      (MAS3_SW OR MAS3_SR OR MAS3_UW OR MAS3_UR OR MAS3_UX) 0 pid False x = Some y
    \<and> ppc_inv b config y \<and> i < limit b \<and> tlb1 y i = Some (partition_entry pid (phys_base (config ! (pid - 1))))"
proof -
  let ?n = "2 + length (jet_tlb_entries b)"
  define i where "i = (if next_non_resident x \<ge> limit b then ?n else next_non_resident x)"
  have lim: "?n < limit b" using b by (simp add: board_ok_def)
  have x: "next_resident x = ?n" "?n \<le> next_non_resident x" "next_non_resident x \<le> limit b"
    using inv by (simp_all add: ppc_inv_def)
  have i: "?n \<le> i" "i < limit b" using x lim by (auto simp: i_def)
  define k where "k = pid - 1"
  have k: "k < length config" using pid by (auto simp: k_def)
  have base: "phys_base (space_of x pid) = phys_base (config ! (pid - 1))"
    using inv k unfolding ppc_inv_def space_of_def k_def by blast
  define y where "y = x\<lparr>tlb1 := (tlb1 x)(i \<mapsto> partition_entry pid (phys_base (config ! (pid - 1)))), next_non_resident := i + 1\<rparr>"
  have "pok_insert_tlb1 b POK_PARTITION_MEMORY_BASE (phys_base (space_of x pid)) E500MC_PGSIZE_16M
      (MAS3_SW OR MAS3_SR OR MAS3_UW OR MAS3_UR OR MAS3_UX) 0 pid False x = Some y"
    using x lim
    by (auto simp: pok_insert_tlb1_def pok_get_next_tlb1_index_def pok_ppc_tlb_write_def base y_def i_def partition_entry_def)
  moreover have "ppc_inv b config y"
    unfolding ppc_inv_def
  proof (intro conjI allI impI)
    fix j e assume j: "?n \<le> j \<and> tlb1 y j = Some e \<and> j < limit b"
    show "(\<exists>p \<in> {1..length config}. e = partition_entry p (phys_base (config ! (p - 1))))
        \<or> j = limit b - 1 \<and> e = device_entry b \<and> next_non_resident y < limit b"
    proof (cases "j = i")
      case True
      with j pid show ?thesis by (auto simp: y_def)
    next
      case False
      with j have "tlb1 x j = Some e" by (simp add: y_def)
      with inv j have "(\<exists>p \<in> {1..length config}. e = partition_entry p (phys_base (config ! (p - 1))))
          \<or> j = limit b - 1 \<and> e = device_entry b \<and> next_non_resident x < limit b" unfolding ppc_inv_def by blast
      moreover have "i + 1 < limit b" if "j = limit b - 1" "next_non_resident x < limit b" using that False i by auto
      ultimately show ?thesis by (auto simp: y_def)
    qed
  qed (use inv i in \<open>auto simp: ppc_inv_def y_def\<close>)
  ultimately show ?thesis using i(2) by (intro exI [of _ y] exI [of _ i]) (simp add: y_def)
qed

lemma ppc_upd_space_inv:
  assumes "ppc_inv b config x" "\<And>s. phys_base (f s) = phys_base s \<and> size_total (f s) = size_total s"
  shows "ppc_inv b config (upd_space sid f x)"
proof -
  have "phys_base (ja_spaces (upd_space sid f x) ! i) = phys_base (ja_spaces x ! i)
      \<and> size_total (ja_spaces (upd_space sid f x) ! i) = size_total (ja_spaces x ! i)" for i
    by (cases "i = sid - 1 \<and> i < length (ja_spaces x)") (auto simp: upd_space_def space_of_def assms(2) nth_list_update list_update_beyond)
  with assms(1) show ?thesis unfolding ppc_inv_def by (simp add: upd_space_def)
qed

lemma ppc_life_inv: "ppc_life b config x \<Longrightarrow> board_ok b \<Longrightarrow> ppc_inv b config x"
proof (induction rule: ppc_life.induct)
  case (boot x y)
  then show ?case using boot_inv by blast
next
  case (switch x sid)
  then show ?case by (simp add: ppc_inv_def ja_space_switch_def)
next
  case (restart x sid y)
  then show ?case by (auto simp: ja_ustack_init_def split: if_splits intro!: ppc_upd_space_inv)
next
  case (alloc x sid sz a y)
  then show ?case by (auto simp: ja_ustack_alloc_def Let_def split: if_splits intro!: ppc_upd_space_inv)
next
  case (fault x addr ty e y)
  have inv: "ppc_inv b config x" using fault by simp
  then have pid: "SPRN_PID x \<le> length config" by (simp add: ppc_inv_def)
  show ?case
  proof (cases "SPRN_PID x = 0")
    case True
    with fault.hyps(2) inv show ?thesis by (simp add: pok_arch_handle_page_fault_def Let_def)
  next
    case False
    with pid have "SPRN_PID x \<in> {1..length config}" by auto
    from insert_inv [OF fault.prems inv this] fault.hyps(2) inv show ?thesis
      by (auto simp: pok_arch_handle_page_fault_def Let_def split: if_splits)
  qed
qed

subsection \<open>Properties\<close>



text \<open>
  No request for a stack is refused: one of 2 GB moves the lower end of the stacks below the memory of
  partitions, and the check accepts a range that begins in the kernel.
\<close>

lemma stack_request_unchecked:
  assumes "sid \<in> {1..length (ja_spaces x)}" "size_total (space_of x sid) < POK_PARTITION_MEMORY_SIZE"
    "ja_ustack_init sid x = Some y" "ja_ustack_alloc sid 0x80000000 y = Some (a, z)"
  shows "ja_user_to_kernel_space 0xfffff0 0x80000010 sid z = Some 0xfffff0"
proof -
  have i: "sid - 1 < length (ja_spaces x)" using assms(1) by auto
  have y: "space_of y sid = (space_of x sid)\<lparr>ustack_state := 0x80fffff0\<rparr>" "length (ja_spaces y) = length (ja_spaces x)"
    using assms(1,3) i by (auto simp: ja_ustack_init_def upd_space_def space_of_def POK_PARTITION_MEMORY_BASE_def
        POK_PARTITION_MEMORY_SIZE_def split: if_splits)
  have "align32 0x80000000 16 = 0x80000000" by (simp add: align32_def ALIGN_VAL_16)
  then have z: "z = upd_space sid (\<lambda>s. s\<lparr>ustack_state := sub32 (ustack_state s) 0x80000000\<rparr>) y"
    using assms(4) by (simp add: ja_ustack_alloc_def Let_def split: if_splits)
  have "sub32 0x80fffff0 0x80000000 = 0xfffff0" by (simp add: sub32_def w32_def)
  then have "space_of z sid = (space_of x sid)\<lparr>ustack_state := 0xfffff0\<rparr>"
    using y i by (simp add: z upd_space_def space_of_def)
  with assms(1,2) show ?thesis
    by (simp add: ppc_to_kernel_exact POK_PARTITION_MEMORY_BASE_def POK_PARTITION_MEMORY_SIZE_def)
qed

subsection \<open>A board with four entries\<close>

definition example_board :: board where
  "example_board = \<lparr>limit = 4, ccsrbar_base = 0xe0000000, ccsrbar_base_phys = 0xe0000000,
     jet_tlb_entries = [\<lparr>virt_addr = 0xd0000000, phys_addr = 0xfd0000000, pgsize = 14, permissions = 5, cache_policy = 0, tlb_pid = 1\<rparr>]\<rparr>"

definition example_ppc_spaces :: "ja_ppc_space list" where
  "example_ppc_spaces = [\<lparr>phys_base = 0x10000000, size_normal = 20480, size_heap = 4096, size_total = 0, ustack_state = 0\<rparr>,
     \<lparr>phys_base = 0x11000000, size_normal = 8192, size_heap = 0, size_total = 0, ustack_state = 0\<rparr>]"

definition example_ppc_boot :: ppc_spaces where
  "example_ppc_boot = \<lparr>ja_spaces = example_ppc_spaces, tlb1 = (\<lambda>_. None), next_resident = 0, next_non_resident = 0, SPRN_PID = 0\<rparr>"

lemma ppc_example_life:
  "\<exists>x. ppc_life example_board example_ppc_spaces x \<and> SPRN_PID x = 1 \<and> ustack_state (space_of x 1) = 0x80ffeff0
     \<and> size_total (space_of x 1) = 24576"
proof -
  have "\<exists>y. pok_arch_space_init example_board example_ppc_boot = Some y
      \<and> ja_spaces y = map set_size example_ppc_spaces"
  proof -
    show ?thesis
      by (simp add: pok_arch_space_init_def pok_insert_tlb1_def pok_get_next_tlb1_index_def pok_ppc_tlb_write_def example_ppc_boot_def
          example_board_def clear_entries example_ppc_spaces_def set_size_def align32_def ALIGN_VAL_16 POK_PARTITION_MEMORY_SIZE_def)
  qed
  then obtain y where y: "pok_arch_space_init example_board example_ppc_boot = Some y" "ja_spaces y = map set_size example_ppc_spaces" by blast
  have l: "ppc_life example_board example_ppc_spaces y" using y(1) by (intro ppc_life.boot [of example_ppc_boot]) (auto simp: example_ppc_boot_def)
  define z where "z = the (ja_ustack_init 1 y)"
  have z: "ja_ustack_init 1 y = Some z" by (simp add: z_def ja_ustack_init_def)
  define w where "w = snd (the (ja_ustack_alloc 1 4096 z))"
  have w: "ja_ustack_alloc 1 4096 z = Some (ustack_state (space_of z 1), w)" by (simp add: w_def ja_ustack_alloc_def Let_def)
  have one: "1 \<le> length example_ppc_spaces" by (simp add: example_ppc_spaces_def)
  have "ppc_life example_board example_ppc_spaces (ja_space_switch 1 w)"
    by (rule ppc_life.switch [OF ppc_life.alloc [OF ppc_life.restart [OF l one z] one w] one])
  moreover have "ustack_state (space_of (ja_space_switch 1 w) 1) = 0x80ffeff0 \<and> size_total (space_of (ja_space_switch 1 w) 1) = 24576"
    using y(2) by (simp add: w_def z_def ja_ustack_alloc_def ja_ustack_init_def Let_def upd_space_def space_of_def ja_space_switch_def
        example_ppc_spaces_def set_size_def align32_def ALIGN_VAL_16 sub32_def w32_def POK_PARTITION_MEMORY_BASE_def POK_PARTITION_MEMORY_SIZE_def)
  ultimately show ?thesis by (intro exI [of _ "ja_space_switch 1 w"]) (simp add: ja_space_switch_def)
qed



end
