(* ===== verification/Spec2Isabelle.thy ===== *)
theory Spec2Isabelle
  imports ListHead KernelLibc SamplingChannel QueuingChannel Sched ThreadInternal PartitionRun ErrorModule ArincSemaphore ArincBlackboard ArincPorts VirtioReceive Pool Loader SpacePpc
begin

text \<open>
  Verification of the JetOS kernel, of its ARINC 653 library and of the network stack of its system
  partition.

  The program. JetOS is an ARINC 653 operating system in C. The kernel (\<open>kernel/core\<close>) gives the
  processor to partitions by a cyclic table (\<open>sched.c\<close>); in a partition a second scheduler
  (\<open>sched_arinc.c\<close>) chooses a thread by priority. The system calls on threads (\<open>thread.c\<close>,
  \<open>thread_internal.c\<close>) change its queues and timers (\<open>delayed_event.c\<close>), and every call ends at the
  same place, the end of the critical section, where the pending events of the partition
  (\<open>partition.c\<close>) are handled and the thread is chosen anew. Partitions talk to each other only by
  channels (\<open>channel.c\<close>, \<open>port.c\<close>); a channel posts events to the partition on its other side. Errors
  go through tables of the module and of the partition (\<open>error.c\<close>, \<open>error_arinc.c\<close>) to an action or
  to an error handler, a thread of the partition. In user space the library (\<open>libpok/core\<close>,
  \<open>libpok/arinc653\<close>) builds semaphores, events, buffers and blackboards on critical sections whose
  wait queues lie in memory shared with the kernel, and wraps the other system calls.

  The theories, from below:
  \<^item> \<open>Prelude\<close>: return codes, time with its wrap at 64 bits, assertions (\<open>kassert\<close>: a failed one
    is \<open>None\<close>), the collections \<open>sched_inv\<close> and others, and two interfaces: \<open>bounded_queue\<close> (a ring
    read as a list) and \<open>linked_queue\<close> (a linked queue read as a list).
  \<^item> \<open>ListHead\<close> (\<open>include/list.h\<close>), \<open>DelayedEvents\<close> (\<open>delayed_event.c\<close>): lists by pointers in a heap of
    nodes, and the proof that the pointer operations implement operations on HOL lists. The higher
    theories use the lists. \<open>KernelLibc\<close>: the functions of \<open>kernel/libc\<close> on names and bytes.
  \<^item> \<open>PartitionEvents\<close> (\<open>partition.c\<close>), \<open>QueuingChannel\<close>, \<open>SamplingChannel\<close> (\<open>channel.c\<close>): rings and slots,
    their bounds in every interleaving of the two sides (\<open>event_step\<close>, \<open>chan_step\<close>, \<open>sender_step\<close>,
    \<open>receiver_step\<close>), what is delivered, in which order, and who is notified.
  \<^item> \<open>Sched\<close> (\<open>sched.c\<close>): slots, the switch of partitions, restart, timers.
  \<^item> \<open>ArincState\<close>: the record \<open>arinc\<close>, that is what the kernel reaches while it runs for a partition:
    \<open>pok_partition_arinc_t\<close> with its threads and ports, the base parts of all partitions, channels,
    the table of slots, kernel shared data, and user memory. A thread is its index in
    \<open>part->threads\<close>, a pointer to it an option.
  \<^item> \<open>ThreadInternal\<close>, \<open>ThreadApi\<close>, \<open>ThreadMsection\<close> (\<open>thread_internal.c\<close>, \<open>thread.c\<close>), \<open>ErrorArinc\<close>
    (\<open>error_arinc.c\<close>), \<open>ErrorModule\<close> (\<open>error.c\<close>), \<open>Ports\<close> (\<open>port.c\<close>), \<open>SchedArinc\<close> (\<open>sched_arinc.c\<close>),
    \<open>PartitionArinc\<close> (\<open>partition_arinc.c\<close>, \<open>time.c\<close>): the operations, function by function.
  \<^item> \<open>PortWaiters\<close>, \<open>SchedChoice\<close>, \<open>ThreadCalls\<close>, \<open>ModeSwitch\<close>, \<open>PartitionLife\<close>, \<open>PartitionRun\<close>: the invariant \<open>thr_inv\<close>
    of queues, timers and states (its argument is a set of threads that an operation is about to
    change), the promise \<open>settled\<close> that a change of the thread to be run is announced, and that all
    operations keep both, from the start of a partition on; \<open>normal_life\<close> are the states that any order of
    calls, interrupts and errors leads to.
  \<^item> \<open>ArincTypes\<close>, \<open>Msection\<close>, \<open>ArincAlloc\<close>: the part in user space. The record \<open>libjet\<close> holds the
    kernel's state and the tables of the library. \<open>ArincSemaphore\<close>, \<open>ArincEvent\<close>, \<open>ArincBuffer\<close>,
    \<open>ArincBlackboard\<close>, \<open>ArincProcess\<close>, \<open>ArincPorts\<close>: the services of the ARINC standard, file by file,
    and what they do together with the kernel's half.
  \<^item> \<open>UserSpace\<close>, \<open>SpaceX86\<close>, \<open>SpacePpc\<close>, \<open>Loader\<close>: the memory of the partitions (\<open>arch/x86/space.c\<close>,
    \<open>uaccess.c\<close>, \<open>gdt.c\<close>, \<open>arch/ppc/space.c\<close>, \<open>uaccess.c\<close>, \<open>core/uaccess.c\<close>, \<open>core/loader.c\<close>): layout, user
    stacks, the check and the translation of pointers, segments and entries of the TLB, the copying of
    a program into its space. The interface \<open>user_pointers\<close> is what the kernel relies on when it writes
    through a user's pointer; both architectures provide it.
  \<^item> \<open>NetBytes\<close>, \<open>NetStack\<close>, \<open>ArpAnswerer\<close>, \<open>VirtioNet\<close>, \<open>VirtioReceive\<close>, \<open>Pool\<close>: the system partition
    (\<open>syspart\<close>), which owns the network: byte order, UDP, IP and Ethernet, the answers to ARP requests,
    the rings shared with a virtio device, pools of elements. Memory is a function from addresses to
    bytes; the port of a component, wired up by the configuration, is a parameter of its functions.

  Results. A system call returns a \<open>sysret\<close>: \<open>Ret e\<close> before its critical section, \<open>Leave e\<close> at its
  end, \<open>LeaveWait t\<close> if the thread goes on to wait and then returns the result of its wait. Calls
  that may not come back have the type \<open>kout\<close>. Results of the library are the \<open>RETURN_CODE_TYPE\<close> of
  the standard. What other threads do while a thread is out of the processor is the parameter
  \<open>resume\<close> of the services: the theorems on services are stated up to the point of waiting, or for
  any \<open>resume\<close>.

  The network. A theorem says which bytes a sent datagram consists of and when the receiver of the same
  library delivers it; another that no received bytes lead out of the packet. \<open>tx_life\<close> interleaves the
  driver with a device that takes frames in the order of the ring, and returns them in any order.

  Loops. Those with a plain bound are recursive functions on it. Those whose end depends on the
  state are partial functions with \<open>None\<close> for no end, and are proved to end: the loop over the
  waiting threads of a port, over the wait queue of a section, over the events of a queue, the walk
  along the owners of sections has the code's own bound of 5. No fuel is used.

  What the groups of lemmas show: refinement of the lists by pointers; round trips of rings, channels
  and error messages; invariants of channels and of the local scheduler under every step; the choice
  of the thread of highest priority, or of the main thread, the error handler, the holder of the
  lock; the exact outcome of the services of semaphores, events, buffers and blackboards; and some
  theorems that show where the code misses its intention (a deadlock after a receiver connects anew,
  lost waiters after a timeout, a skipped period, stale error bits, numbers of processes cut to 8
  bits, an inverted answer), recorded as findings.

  Assumptions. In the record \<open>arinc\<close> the heaps, the clock, the access checks (\<open>user_access\<close>, \<open>user_exec\<close>)
  and the stacks given by the architecture are fields of the state; what they are on x86 and PowerPC is
  shown in the theories on spaces, where sizes are such that memory ends below 4 GB. The compiled library and the kernel agree on the layout of
  shared memory; buffers of messages lie apart from the wait queues (\<open>mem_kept\<close>, \<open>buffers_apart\<close>).
  The endianness (\<open>le\<close>) and the translation of addresses for the device (\<open>virt_to_phys\<close>) are parameters,
  network buffers do not reach the end of the address space, and the device sees the rings between two
  calls of the driver, not in the middle of one (the driver publishes its changes by one store).

  Not modelled: machine instructions, interrupts and devices (\<open>kernel/arch\<close>), the boot sequence, consoles, debugger and formatted output; \<open>libm\<close>, the C library, ciphers and \<open>libfdt\<close>,
  which are third party; the set-up of the PCI bus and the other drivers of the system
  partition; generated configuration and wiring; example applications.
\<close>

end
